(* ===== verification/Prelude.thy ===== *)
theory Prelude
  imports Main "HOL-Library.Word"
begin

text \<open>
  Generic material shared by every component of the OLSR model.

  \<^item> \<open>res\<close>: the outcome of a C++ call that can stop the program. A failed
    \<open>NS_ASSERT\<close>, an \<open>NS_FATAL_ERROR\<close>, a read past the end of a buffer and a loop that
    never ends are the values of \<open>olsr_error\<close>; \<open>bindR\<close> and \<open>foldE\<close> sequence such calls.
  \<^item> vectors of tuples (\<open>std::vector\<close>): \<open>find_first\<close>, \<open>update_first\<close>, \<open>erase_first\<close>
    and \<open>erase_all\<close> are the loops with \<open>break\<close> that olsr-state.cc repeats for every set.
  \<^item> \<open>std::set\<close> and \<open>std::map\<close> as the ordered lists that their iterators visit, with
    \<open>set_insert\<close>, \<open>set_erase\<close>, \<open>map_put\<close> and \<open>map_erase\<close>.
\<close>

named_theorems res_simps "evaluation of sequenced fallible calls"
named_theorems vec_simps "lookup after an update of a vector of tuples"

section \<open>Outcomes of calls that can stop the program\<close>

datatype olsr_error =
    Assertion_failed   \<comment> \<open>\<open>NS_ASSERT\<close> with a false condition\<close>
  | Fatal_error        \<comment> \<open>\<open>NS_FATAL_ERROR\<close>, \<open>NS_ABORT_MSG\<close>\<close>
  | Buffer_overrun     \<comment> \<open>\<open>Buffer::Iterator\<close> read past the end\<close>
  | Diverges           \<comment> \<open>a loop that never ends\<close>
  | Undefined          \<comment> \<open>C++ leaves the outcome undefined\<close>

type_synonym 'a res = "olsr_error + 'a"

fun bindR :: "'a res \<Rightarrow> ('a \<Rightarrow> 'b res) \<Rightarrow> 'b res" where
  "bindR (Inl e) f = Inl e"
| "bindR (Inr x) f = f x"

definition assertR :: "bool \<Rightarrow> 'a res \<Rightarrow> 'a res" where
  "assertR b m = (if b then m else Inl Assertion_failed)"

lemma bindR_eq_Inr [res_simps]: "bindR m f = Inr y \<longleftrightarrow> (\<exists>x. m = Inr x \<and> f x = Inr y)"
  by (cases m) auto

lemma bindR_eq_Inl: "bindR m f = Inl e \<longleftrightarrow> m = Inl e \<or> (\<exists>x. m = Inr x \<and> f x = Inl e)"
  by (cases m) auto

lemma assertR_eq_Inr [res_simps]: "assertR b m = Inr y \<longleftrightarrow> b \<and> m = Inr y"
  by (simp add: assertR_def)

lemma assertR_True [simp]: "assertR True m = m"
  by (simp add: assertR_def)

lemma assertR_False [simp]: "assertR False m = Inl Assertion_failed"
  by (simp add: assertR_def)

lemma bindR_cong [fundef_cong]:
  "m = m' \<Longrightarrow> (\<And>x. m' = Inr x \<Longrightarrow> f x = f' x) \<Longrightarrow> bindR m f = bindR m' f'"
  by (cases m') auto

text \<open>A C++ \<open>for\<close> loop over a container whose body can stop the program.\<close>

fun foldE :: "('a \<Rightarrow> 's \<Rightarrow> 's res) \<Rightarrow> 'a list \<Rightarrow> 's \<Rightarrow> 's res" where
  "foldE f [] s = Inr s"
| "foldE f (x # xs) s = bindR (f x s) (foldE f xs)"

lemma foldE_append: "foldE f (xs @ ys) s = bindR (foldE f xs s) (foldE f ys)"
proof (induction xs arbitrary: s)
  case (Cons x xs)
  then show ?case by (cases "f x s") simp_all
qed simp

text \<open>Loop rule: what every iteration keeps holds at the end.\<close>

lemma foldE_invariant:
  assumes "foldE f xs s = Inr s'" and "P s"
    and "\<And>x s s'. x \<in> set xs \<Longrightarrow> P s \<Longrightarrow> f x s = Inr s' \<Longrightarrow> P s'"
  shows "P s'"
  using assms
proof (induction xs arbitrary: s)
  case (Cons x xs)
  from Cons.prems(1) obtain s1 where s1: "f x s = Inr s1" and rest: "foldE f xs s1 = Inr s'"
    by (auto simp: res_simps)
  have "P s1" using Cons.prems(2,3) s1 by auto
  then show ?case using Cons.IH [OF rest] Cons.prems(3) by auto
qed simp

text \<open>Progress rule: when no iteration can stop the program, neither can the loop.\<close>

lemma foldE_total:
  assumes "P s" and "\<And>x s. x \<in> set xs \<Longrightarrow> P s \<Longrightarrow> \<exists>s'. f x s = Inr s' \<and> P s'"
  shows "\<exists>s'. foldE f xs s = Inr s' \<and> P s'"
  using assms
proof (induction xs arbitrary: s)
  case (Cons x xs)
  from Cons.prems obtain s1 where "f x s = Inr s1" "P s1" by force
  with Cons.IH [of s1] Cons.prems(2) show ?case by auto
qed simp

lemma foldE_never_fails:
  "(\<And>x s. x \<in> set xs \<Longrightarrow> \<exists>s'. f x s = Inr s') \<Longrightarrow> \<exists>s'. foldE f xs s = Inr s'"
  using foldE_total [of "\<lambda>_. True" s xs f] by blast

lemma foldE_pure: "foldE (\<lambda>x s. Inr (f x s)) xs s = Inr (fold f xs s)"
  by (induction xs arbitrary: s) simp_all

lemma fold_invariant_rule:
  "P s \<Longrightarrow> (\<And>x s. x \<in> set xs \<Longrightarrow> P s \<Longrightarrow> P (f x s)) \<Longrightarrow> P (fold f xs s)"
  by (induction xs arbitrary: s) auto

section \<open>Vectors of tuples\<close>

text \<open>\<open>for (it...) if (P *it) return &*it; return nullptr\<close>\<close>

fun find_first :: "('a \<Rightarrow> bool) \<Rightarrow> 'a list \<Rightarrow> 'a option" where
  "find_first P [] = None"
| "find_first P (x # xs) = (if P x then Some x else find_first P xs)"

text \<open>A write through the pointer that \<open>find_first\<close> returned.\<close>

fun update_first :: "('a \<Rightarrow> bool) \<Rightarrow> ('a \<Rightarrow> 'a) \<Rightarrow> 'a list \<Rightarrow> 'a list" where
  "update_first P f [] = []"
| "update_first P f (x # xs) = (if P x then f x # xs else x # update_first P f xs)"

text \<open>\<open>for (it...) if (P *it) { erase(it); break; }\<close>\<close>

fun erase_first :: "('a \<Rightarrow> bool) \<Rightarrow> 'a list \<Rightarrow> 'a list" where
  "erase_first P [] = []"
| "erase_first P (x # xs) = (if P x then xs else x # erase_first P xs)"

text \<open>\<open>for (it...) if (P *it) it = erase(it); else it++\<close>\<close>

fun erase_all :: "('a \<Rightarrow> bool) \<Rightarrow> 'a list \<Rightarrow> 'a list" where
  "erase_all P [] = []"
| "erase_all P (x # xs) = (if P x then erase_all P xs else x # erase_all P xs)"

lemma erase_all_filter [vec_simps]: "erase_all P xs = filter (\<lambda>x. \<not> P x) xs"
  by (induction xs) auto

lemma find_first_None_iff [simp]: "find_first P xs = None \<longleftrightarrow> (\<forall>x\<in>set xs. \<not> P x)"
  by (induction xs) auto

lemma find_first_SomeD: "find_first P xs = Some x \<Longrightarrow> x \<in> set xs \<and> P x"
  by (induction xs) (auto split: if_splits)

lemma find_first_exists: "\<exists>x\<in>set xs. P x \<Longrightarrow> \<exists>x. find_first P xs = Some x"
  by (induction xs) auto

lemma find_first_append [vec_simps]:
  "find_first P (xs @ ys) = (case find_first P xs of None \<Rightarrow> find_first P ys | Some x \<Rightarrow> Some x)"
  by (induction xs) auto

lemma find_first_update_first [vec_simps]:
  "(\<And>x. P x \<Longrightarrow> P (f x)) \<Longrightarrow>
    find_first P (update_first P f xs) = map_option f (find_first P xs)"
  by (induction xs) auto

lemma find_first_erase_all [vec_simps]:
  "find_first P (erase_all Q xs) = find_first (\<lambda>x. P x \<and> \<not> Q x) xs"
  by (induction xs) auto

lemma find_first_cong [fundef_cong]:
  "xs = ys \<Longrightarrow> (\<And>x. x \<in> set ys \<Longrightarrow> P x = Q x) \<Longrightarrow> find_first P xs = find_first Q ys"
  by (induction ys arbitrary: xs) auto

lemma set_update_first_subset: "set (update_first P f xs) \<subseteq> set xs \<union> f ` {x \<in> set xs. P x}"
  by (induction xs) auto

lemma length_update_first [simp]: "length (update_first P f xs) = length xs"
  by (induction xs) auto

lemma map_update_first [vec_simps]:
  "(\<And>x. P x \<Longrightarrow> g (f x) = g x) \<Longrightarrow> map g (update_first P f xs) = map g xs"
  by (induction xs) auto

lemma update_first_absent: "\<forall>x\<in>set xs. \<not> P x \<Longrightarrow> update_first P f xs = xs"
  by (induction xs) auto

lemma set_erase_first_subset: "set (erase_first P xs) \<subseteq> set xs"
  by (induction xs) auto

lemma erase_first_absent: "\<forall>x\<in>set xs. \<not> P x \<Longrightarrow> erase_first P xs = xs"
  by (induction xs) auto

lemma erase_first_keeps: "x \<in> set xs \<Longrightarrow> \<not> P x \<Longrightarrow> x \<in> set (erase_first P xs)"
  by (induction xs) auto

lemma length_erase_first:
  "length (erase_first P xs) = (if \<exists>x\<in>set xs. P x then length xs - 1 else length xs)"
  by (induction xs) (auto simp: Suc_le_eq dest: length_pos_if_in_set)

lemma distinct_map_erase_first:
  "distinct (map g xs) \<Longrightarrow> distinct (map g (erase_first P xs))"
  using set_erase_first_subset by (induction xs) fastforce+

lemma erase_first_distinct:
  "distinct (map g xs) \<Longrightarrow> (\<And>x. P x \<Longrightarrow> g x = k) \<Longrightarrow>
    x \<in> set (erase_first P xs) \<Longrightarrow> \<not> P x"
proof (induction xs)
  case (Cons y ys)
  show ?case
  proof (cases "P y")
    case True
    then have "g y = k" using Cons.prems(2) by simp
    with Cons.prems(1) have "k \<notin> g ` set ys" by simp
    then show ?thesis using Cons.prems True by force
  next
    case False
    then show ?thesis using Cons by auto
  qed
qed simp

section \<open>Ordered containers\<close>

text \<open>\<open>std::set\<close>: the list of its elements in iteration order.\<close>

type_synonym 'a std_set = "'a list"

fun set_insert :: "'a::linorder \<Rightarrow> 'a std_set \<Rightarrow> 'a std_set" where
  "set_insert x [] = [x]"
| "set_insert x (y # ys) =
     (if x = y then y # ys else if x < y then x # y # ys else y # set_insert x ys)"

definition set_erase :: "'a \<Rightarrow> 'a std_set \<Rightarrow> 'a std_set" where
  "set_erase x xs = filter (\<lambda>y. y \<noteq> x) xs"

definition set_count :: "'a std_set \<Rightarrow> 'a \<Rightarrow> bool" where
  "set_count xs x \<longleftrightarrow> x \<in> set xs"

definition set_insert_all :: "'a::linorder list \<Rightarrow> 'a std_set \<Rightarrow> 'a std_set" where
  "set_insert_all ys xs = fold set_insert ys xs"

definition wf_set :: "'a::linorder std_set \<Rightarrow> bool" where
  "wf_set xs \<longleftrightarrow> sorted_wrt (<) xs"

lemma set_set_insert [simp]: "set (set_insert x xs) = insert x (set xs)"
  by (induction xs) auto

lemma set_set_erase [simp]: "set (set_erase x xs) = set xs - {x}"
  by (auto simp: set_erase_def)

lemma set_count_iff [simp]: "set_count xs x \<longleftrightarrow> x \<in> set xs"
  by (simp add: set_count_def)

lemma set_set_insert_all [simp]: "set (set_insert_all ys xs) = set ys \<union> set xs"
  unfolding set_insert_all_def by (induction ys arbitrary: xs) auto

lemma set_insert_not_Nil [simp]: "set_insert x xs \<noteq> []"
  by (cases xs) auto

lemma wf_set_Nil [simp]: "wf_set []"
  by (simp add: wf_set_def)

lemma wf_set_insert [intro, simp]: "wf_set xs \<Longrightarrow> wf_set (set_insert x xs)"
  unfolding wf_set_def by (induction xs) auto

lemma wf_set_erase [intro, simp]: "wf_set xs \<Longrightarrow> wf_set (set_erase x xs)"
  by (simp add: wf_set_def set_erase_def sorted_wrt_filter)

lemma wf_set_insert_all [intro, simp]: "wf_set xs \<Longrightarrow> wf_set (set_insert_all ys xs)"
  unfolding set_insert_all_def by (induction ys arbitrary: xs) auto

lemma wf_set_distinct: "wf_set xs \<Longrightarrow> distinct xs"
  unfolding wf_set_def by (induction xs) auto

lemma wf_set_card: "wf_set xs \<Longrightarrow> length xs = card (set xs)"
  by (simp add: distinct_card wf_set_distinct)

text \<open>Loops that collect elements.\<close>

lemma fold_collect:
  "fold (\<lambda>x acc. if P x then acc @ [x] else acc) xs acc = acc @ filter P xs"
  by (induction xs arbitrary: acc) auto

lemma fold_set_insert_if:
  "set (fold (\<lambda>x r. if P x then set_insert (f x) r else r) xs r) = f ` {x \<in> set xs. P x} \<union> set r"
  by (induction xs arbitrary: r) auto

lemma fold_set_insert: "set (fold (\<lambda>x r. set_insert (f x) r) xs r) = f ` set xs \<union> set r"
  by (induction xs arbitrary: r) auto

lemma fold_set_erase: "set (fold (\<lambda>y r. set_erase (f y) r) ys xs) = set xs - f ` set ys"
  by (induction ys arbitrary: xs) auto

lemma wf_set_fold_insert_if:
  "wf_set r \<Longrightarrow> wf_set (fold (\<lambda>x r. if P x then set_insert (f x) r else r) xs r)"
  by (rule fold_invariant_rule) auto

lemma wf_set_fold_erase: "wf_set r \<Longrightarrow> wf_set (fold (\<lambda>y r. set_erase (f y) r) ys r)"
  by (rule fold_invariant_rule) auto

text \<open>\<open>std::map\<close>: the list of its (key, value) pairs in iteration order.\<close>

type_synonym ('k, 'v) std_map = "('k \<times> 'v) list"

fun map_put :: "'k::linorder \<Rightarrow> 'v \<Rightarrow> ('k, 'v) std_map \<Rightarrow> ('k, 'v) std_map" where
  "map_put k v [] = [(k, v)]"
| "map_put k v ((k', v') # m) =
     (if k = k' then (k, v) # m else if k < k' then (k, v) # (k', v') # m
      else (k', v') # map_put k v m)"

definition map_erase :: "'k \<Rightarrow> ('k, 'v) std_map \<Rightarrow> ('k, 'v) std_map" where
  "map_erase k m = filter (\<lambda>(k', v). k' \<noteq> k) m"

text \<open>\<open>m[k]\<close> on a map whose values have a default constructor.\<close>

definition map_ref :: "'v \<Rightarrow> ('k, 'v) std_map \<Rightarrow> 'k \<Rightarrow> 'v" where
  "map_ref d m k = (case map_of m k of None \<Rightarrow> d | Some v \<Rightarrow> v)"

definition wf_map :: "('k::linorder, 'v) std_map \<Rightarrow> bool" where
  "wf_map m \<longleftrightarrow> sorted_wrt (<) (map fst m)"

lemma map_of_map_put [simp]: "map_of (map_put k v m) = (map_of m)(k \<mapsto> v)"
  by (induction m) (auto simp: fun_eq_iff)

lemma map_of_map_erase [simp]: "map_of (map_erase k m) = (map_of m)(k := None)"
  unfolding map_erase_def by (induction m) (auto simp: fun_eq_iff)

lemma keys_map_put [simp]: "fst ` set (map_put k v m) = insert k (fst ` set m)"
  using map_of_map_put [of k v m] by (metis dom_fun_upd dom_map_of_conv_image_fst option.distinct(1))

lemma map_put_not_Nil [simp]: "map_put k v m \<noteq> []"
  by (cases "(k, v, m)" rule: map_put.cases) auto

lemma wf_map_Nil [simp]: "wf_map []"
  by (simp add: wf_map_def)

lemma wf_map_put [intro, simp]: "wf_map m \<Longrightarrow> wf_map (map_put k v m)"
proof -
  have keys: "map fst (map_put k v m) = set_insert k (map fst m)"
    by (induction m) auto
  show "wf_map m \<Longrightarrow> wf_map (map_put k v m)"
    using wf_set_insert [of "map fst m" k] by (simp add: wf_map_def wf_set_def keys)
qed

lemma wf_map_erase [intro, simp]: "wf_map m \<Longrightarrow> wf_map (map_erase k m)"
proof -
  have "map fst (map_erase k m) = filter (\<lambda>x. x \<noteq> k) (map fst m)"
    by (induction m) (auto simp: map_erase_def)
  then show "wf_map m \<Longrightarrow> wf_map (map_erase k m)"
    by (simp add: wf_map_def sorted_wrt_filter)
qed

lemma wf_map_distinct: "wf_map m \<Longrightarrow> distinct (map fst m)"
  using wf_set_distinct [of "map fst m"] by (simp add: wf_map_def wf_set_def)

lemma wf_map_length: "wf_map m \<Longrightarrow> length m = card (dom (map_of m))"
  by (metis dom_map_of_conv_image_fst length_map list.set_map wf_map_distinct distinct_card)

end
