(* ===== verification/Repositories.thy ===== *)
theory Repositories
  imports Prelude
begin

unbundle bit_operations_syntax

text \<open>
  The data of src/olsr/model/olsr-repositories.h: addresses, times, willingness values and the
  tuples of the information repositories. Every C++ struct is a record whose fields carry the
  source's field names behind a two- or three-letter prefix. \<open>operator==\<close> of a struct, which
  the erase loops of olsr-state.cc use and which ignores most time fields, is its own function.

  \<open>Ipv4Address\<close> and \<open>Ipv4Mask\<close> are their 32-bit contents (the default constructor
  yields 0.0.0.0) ordered as unsigned numbers. \<open>Time\<close> is its count of nanoseconds, unbounded
  here where the C++ counts in 64 bits.
\<close>

section \<open>Addresses, masks and times\<close>

type_synonym u8 = "8 word"
type_synonym u16 = "16 word"
type_synonym u32 = "32 word"
type_synonym ipv4 = "32 word"
type_synonym time = int

definition ipv4_any :: ipv4 where "ipv4_any = 0"

definition ipv4_broadcast :: ipv4 where "ipv4_broadcast = 0xffffffff"

definition ipv4_loopback :: ipv4 where "ipv4_loopback = 0x7f000001"

text \<open>\<open>Ipv4Address::IsMulticast\<close>\<close>

definition ipv4_is_multicast :: "ipv4 \<Rightarrow> bool" where
  "ipv4_is_multicast a \<longleftrightarrow> 0xe0000000 \<le> a \<and> a \<le> 0xefffffff"

text \<open>\<open>Ipv4Address::GetSubnetDirectedBroadcast\<close>\<close>

definition subnet_directed_broadcast :: "ipv4 \<Rightarrow> ipv4 \<Rightarrow> ipv4 res" where
  "subnet_directed_broadcast a netmask =
     assertR (netmask \<noteq> 0xffffffff) (Inr (a OR NOT netmask))"

text \<open>One second, and \<open>Seconds(0.000001)\<close>, in nanoseconds.\<close>

definition second :: time where "second = 1000000000"

definition microsecond :: time where "microsecond = 1000"

section \<open>Willingness\<close>

text \<open>
  \<open>enum Willingness : uint8_t\<close>. A received byte is cast to the enum unchecked, so every byte is
  a value of the type.
\<close>

type_synonym willingness = "8 word"

definition WILL_NEVER :: willingness where "WILL_NEVER = 0"
definition WILL_LOW :: willingness where "WILL_LOW = 1"
definition WILL_DEFAULT :: willingness where "WILL_DEFAULT = 3"
definition WILL_HIGH :: willingness where "WILL_HIGH = 6"
definition WILL_ALWAYS :: willingness where "WILL_ALWAYS = 7"

lemmas willingness_defs =
  WILL_NEVER_def WILL_LOW_def WILL_DEFAULT_def WILL_HIGH_def WILL_ALWAYS_def

section \<open>Tuples\<close>

record iface_assoc_tuple =
  ia_ifaceAddr :: ipv4
  ia_mainAddr :: ipv4
  ia_time :: time

definition eq_IfaceAssocTuple :: "iface_assoc_tuple \<Rightarrow> iface_assoc_tuple \<Rightarrow> bool" where
  "eq_IfaceAssocTuple a b \<longleftrightarrow> ia_ifaceAddr a = ia_ifaceAddr b \<and> ia_mainAddr a = ia_mainAddr b"

record link_tuple =
  lt_localIfaceAddr :: ipv4
  lt_neighborIfaceAddr :: ipv4
  lt_symTime :: time
  lt_asymTime :: time
  lt_time :: time

definition eq_LinkTuple :: "link_tuple \<Rightarrow> link_tuple \<Rightarrow> bool" where
  "eq_LinkTuple a b \<longleftrightarrow>
     lt_localIfaceAddr a = lt_localIfaceAddr b \<and> lt_neighborIfaceAddr a = lt_neighborIfaceAddr b"

datatype nb_status = STATUS_NOT_SYM | STATUS_SYM

record neighbor_tuple =
  nt_neighborMainAddr :: ipv4
  nt_status :: nb_status
  nt_willingness :: willingness

definition eq_NeighborTuple :: "neighbor_tuple \<Rightarrow> neighbor_tuple \<Rightarrow> bool" where
  "eq_NeighborTuple a b \<longleftrightarrow> nt_neighborMainAddr a = nt_neighborMainAddr b \<and>
     nt_status a = nt_status b \<and> nt_willingness a = nt_willingness b"

record two_hop_tuple =
  th_neighborMainAddr :: ipv4
  th_twoHopNeighborAddr :: ipv4
  th_expirationTime :: time

definition eq_TwoHopNeighborTuple :: "two_hop_tuple \<Rightarrow> two_hop_tuple \<Rightarrow> bool" where
  "eq_TwoHopNeighborTuple a b \<longleftrightarrow> th_neighborMainAddr a = th_neighborMainAddr b \<and>
     th_twoHopNeighborAddr a = th_twoHopNeighborAddr b"

record mpr_selector_tuple =
  ms_mainAddr :: ipv4
  ms_expirationTime :: time

definition eq_MprSelectorTuple :: "mpr_selector_tuple \<Rightarrow> mpr_selector_tuple \<Rightarrow> bool" where
  "eq_MprSelectorTuple a b \<longleftrightarrow> ms_mainAddr a = ms_mainAddr b"

record duplicate_tuple =
  dt_address :: ipv4
  dt_sequenceNumber :: u16
  dt_retransmitted :: bool
  dt_ifaceList :: "ipv4 list"
  dt_expirationTime :: time

definition eq_DuplicateTuple :: "duplicate_tuple \<Rightarrow> duplicate_tuple \<Rightarrow> bool" where
  "eq_DuplicateTuple a b \<longleftrightarrow>
     dt_address a = dt_address b \<and> dt_sequenceNumber a = dt_sequenceNumber b"

record topology_tuple =
  tt_destAddr :: ipv4
  tt_lastAddr :: ipv4
  tt_sequenceNumber :: u16
  tt_expirationTime :: time

definition eq_TopologyTuple :: "topology_tuple \<Rightarrow> topology_tuple \<Rightarrow> bool" where
  "eq_TopologyTuple a b \<longleftrightarrow> tt_destAddr a = tt_destAddr b \<and> tt_lastAddr a = tt_lastAddr b \<and>
     tt_sequenceNumber a = tt_sequenceNumber b"

record association =
  as_networkAddr :: ipv4
  as_netmask :: ipv4

definition eq_Association :: "association \<Rightarrow> association \<Rightarrow> bool" where
  "eq_Association a b \<longleftrightarrow>
     as_networkAddr a = as_networkAddr b \<and> as_netmask a = as_netmask b"

record association_tuple =
  at_gatewayAddr :: ipv4
  at_networkAddr :: ipv4
  at_netmask :: ipv4
  at_expirationTime :: time

definition eq_AssociationTuple :: "association_tuple \<Rightarrow> association_tuple \<Rightarrow> bool" where
  "eq_AssociationTuple a b \<longleftrightarrow> at_gatewayAddr a = at_gatewayAddr b \<and>
     at_networkAddr a = at_networkAddr b \<and> at_netmask a = at_netmask b"

lemmas tuple_eq_defs =
  eq_IfaceAssocTuple_def eq_LinkTuple_def eq_NeighborTuple_def eq_TwoHopNeighborTuple_def
  eq_MprSelectorTuple_def eq_DuplicateTuple_def eq_TopologyTuple_def eq_Association_def
  eq_AssociationTuple_def

end
