(* ===== verification/Header_Codec.thy ===== *)
theory Header_Codec
  imports Complex_Main Repositories
begin

text \<open>
  The wire format, src/olsr/model/olsr-header.h and olsr-header.cc: the mantissa/exponent coding
  of times, and \<open>GetSerializedSize\<close>, \<open>Serialize\<close> and \<open>Deserialize\<close> of the packet header, the
  message header and the HELLO, TC, MID and HNA bodies.

  A \<open>Buffer::Iterator\<close> is the list of the bytes from its position to the end of the buffer. A
  write appends bytes, a read takes them from the front and fails with \<open>Buffer_overrun\<close> at the
  end. \<open>Deserialize\<close> returns the object and the byte count that \<open>Packet::RemoveHeader\<close> strips.
  The four members of the union-like struct \<open>m_message\<close> and the tag \<open>m_messageType\<close> are one
  datatype, since the accessors assert that only the tagged member is used.

  Times are rational numbers of seconds. Every double operation of \<open>SecondsToEmf\<close> (division by
  a power of two, subtraction of 1 from a quotient between 1 and 2, multiplication by 16,
  subtraction of a half) is exact in binary floating point, so the rational computation is the
  computation of the C++ on the value of its argument.
\<close>

section \<open>Mantissa/exponent times\<close>

definition OLSR_C :: rat where "OLSR_C = 1 / 16"

text \<open>
  \<open>for (b = 1; (seconds / OLSR_C) >= (1 << b); ++b)\<close>. The shift is an \<open>int\<close>, so the loop is
  meaningful while \<open>b < 31\<close>: it may look at 30 values of \<open>b\<close>.
\<close>

fun emf_exponent :: "nat \<Rightarrow> rat \<Rightarrow> nat \<Rightarrow> nat option" where
  "emf_exponent 0 q b = None"
| "emf_exponent (Suc fuel) q b =
     (if q \<ge> 2 ^ b then emf_exponent fuel q (Suc b) else Some b)"

definition SecondsToEmf :: "rat \<Rightarrow> u8 res" where
  "SecondsToEmf seconds =
     assertR (seconds \<ge> OLSR_C)
       (case emf_exponent 30 (seconds / OLSR_C) 1 of
          None \<Rightarrow> Inl Undefined
        | Some b0 \<Rightarrow>
            assertR (seconds / OLSR_C < 2 ^ b0)
              (let b = b0 - 1 in
               assertR (seconds / OLSR_C \<ge> 2 ^ b)
                 (let tmp = 16 * (seconds / (OLSR_C * 2 ^ b) - 1);
                      a = \<lceil>tmp - 1 / 2\<rceil>;
                      b' = (if a = 16 then b + 1 else b);
                      a' = (if a = 16 then 0 else a)
                  in assertR (0 \<le> a' \<and> a' < 16)
                       (assertR (b' < 16)
                         (Inr (push_bit 4 (word_of_int a') OR word_of_nat b'))))))"

definition EmfToSeconds :: "u8 \<Rightarrow> rat" where
  "EmfToSeconds olsrFormat =
     (let a = of_nat (unat (drop_bit 4 olsrFormat)); b = unat (olsrFormat AND 0xf)
      in OLSR_C * (1 + a / 16) * 2 ^ b)"

text \<open>\<open>Seconds(double)\<close> rounds to a count of nanoseconds; \<open>Time::GetSeconds\<close> divides.\<close>

definition Seconds :: "rat \<Rightarrow> time" where "Seconds x = round (x * 1000000000)"

definition GetSeconds :: "time \<Rightarrow> rat" where "GetSeconds t = of_int t / 1000000000"

lemma emf_exponent_sound:
  "emf_exponent fuel q b = Some b' \<Longrightarrow> q < 2 ^ b' \<and> b \<le> b' \<and> (b' = b \<or> 2 ^ (b' - 1) \<le> q)"
proof (induction fuel arbitrary: b)
  case (Suc fuel)
  show ?case
  proof (cases "q \<ge> 2 ^ b")
    case True
    with Suc show ?thesis by fastforce
  next
    case False
    with Suc.prems show ?thesis by simp
  qed
qed simp

lemma emf_exponent_enough: "q < 2 ^ (b + fuel) \<Longrightarrow> \<exists>b'. emf_exponent (Suc fuel) q b = Some b'"
proof (induction fuel arbitrary: b)
  case (Suc fuel)
  from Suc.IH [of "Suc b"] Suc.prems show ?case by (cases "q \<ge> 2 ^ b") simp_all
qed simp

lemma emf_exponent_least:
  assumes "2 ^ k \<le> q" and "q < 2 ^ Suc k" and "k < 30"
  shows "emf_exponent 30 q 1 = Some (Suc k)"
proof -
  have "(2::rat) ^ Suc k \<le> 2 ^ (1 + 29)" using assms(3) by (intro power_increasing) auto
  then have "q < 2 ^ (1 + 29)" using assms(2) by linarith
  from emf_exponent_enough [OF this] obtain b' where b': "emf_exponent 30 q 1 = Some b'"
    by auto
  note s = emf_exponent_sound [OF b']
  have "(2::rat) ^ k < 2 ^ b'" using s assms(1) by linarith
  then have "k < b'" by simp
  moreover have "b' = 1 \<or> (2::rat) ^ (b' - 1) < 2 ^ Suc k" using s assms(2) by linarith
  then have "b' = 1 \<or> b' - 1 < Suc k" by (metis one_less_numeral_iff power_strict_increasing_iff semiring_norm(76))
  ultimately show ?thesis using b' by auto
qed


lemma SecondsToEmf_eval:
  assumes q: "q = seconds / OLSR_C" and k: "2 ^ k \<le> q" "q < 2 ^ Suc k" "k < 16"
    and a: "a = \<lceil>16 * (q / 2 ^ k - 1) - 1 / 2\<rceil>" "k = 15 \<longrightarrow> a \<noteq> 16"
  shows "SecondsToEmf seconds = Inr (if a = 16 then word_of_nat (Suc k)
           else push_bit 4 (word_of_int a) OR word_of_nat k)"
proof -
  have C: "seconds / (OLSR_C * 2 ^ k) = q / 2 ^ k" by (simp add: q)
  have one: "(1::rat) \<le> 2 ^ k" by simp
  then have ge: "seconds \<ge> OLSR_C" using order_trans [OF one k(1)] q by (simp add: OLSR_C_def)
  have lo: "q / 2 ^ k - 1 \<ge> 0" using k(1) by (simp add: field_simps)
  have hi: "q / 2 ^ k - 1 < 1" using k(2) by (simp add: field_simps)
  define y where "y = q / 2 ^ k - 1"
  have a0: "0 \<le> a" "a \<le> 16" using lo hi unfolding a(1) y_def [symmetric] by linarith+
  have aa: "\<lceil>16 * (seconds / (OLSR_C * 2 ^ k) - 1) - 1 / 2\<rceil> = a" unfolding C a(1) ..
  have ex: "emf_exponent 30 q 1 = Some (Suc k)" by (rule emf_exponent_least [OF k(1,2)]) (use k(3) in simp)
  show ?thesis
    unfolding SecondsToEmf_def q [symmetric] ex option.case Let_def diff_Suc_1 aa
    using k ge a0 a(2) by (cases "k = 15") auto
qed

lemma emf_fields:
  assumes "a < 16" "k < 16"
  shows "drop_bit 4 (push_bit 4 (word_of_nat a) OR word_of_nat k :: u8) = word_of_nat a"
    and "(push_bit 4 (word_of_nat a) OR word_of_nat k :: u8) AND 0xf = word_of_nat k"
proof -
  have "a \<in> set [0..<16]" "k \<in> set [0..<16]" using assms by auto
  moreover have "\<forall>a\<in>set [0..<16]. \<forall>k\<in>set [0..<16].
      drop_bit 4 (push_bit 4 (word_of_nat a) OR word_of_nat k :: u8) = word_of_nat a \<and>
      (push_bit 4 (word_of_nat a) OR word_of_nat k :: u8) AND 0xf = word_of_nat k"
    by code_simp
  ultimately show "drop_bit 4 (push_bit 4 (word_of_nat a) OR word_of_nat k :: u8) = word_of_nat a"
    and "(push_bit 4 (word_of_nat a) OR word_of_nat k :: u8) AND 0xf = word_of_nat k" by blast+
qed


lemma emf_split: "x = (push_bit 4 (drop_bit 4 x) OR (x AND 0xf) :: u8)"
proof -
  have "x AND 0xf = take_bit 4 x" by (simp add: take_bit_eq_mask mask_eq_exp_minus_1)
  then show ?thesis by (simp add: bit_eq_iff bit_simps) auto
qed

lemma EmfToSeconds_code:
  assumes "a < 16" "k < 16"
  shows "EmfToSeconds (push_bit 4 (word_of_nat a) OR word_of_nat k) = OLSR_C * (1 + of_nat a / 16) * 2 ^ k"
  using assms unfolding EmfToSeconds_def Let_def emf_fields [OF assms]
  by (simp add: unsigned_of_nat take_bit_nat_eq_self)

text \<open>Every byte is the coding of its own value.\<close>

lemma SecondsToEmf_EmfToSeconds: "SecondsToEmf (EmfToSeconds x) = Inr x"
proof -
  define a where "a = unat (drop_bit 4 x)"
  define k where "k = unat (x AND 0xf)"
  have a16: "a < 16"
  proof -
    have "unat x div 2 ^ 4 < 16" using unsigned_less [of x, where ?'a = nat] by simp
    then show ?thesis by (simp only: a_def unat_drop_bit_eq drop_bit_eq_div [where ?'a = nat])
  qed
  have k16: "k < 16" using word_and_le1 [of x "0xf"]
    by (simp add: k_def word_le_nat_alt)
  have x: "x = push_bit 4 (word_of_nat a) OR word_of_nat k"
    using emf_split [of x] by (simp add: a_def k_def)
  let ?q = "(1 + of_nat a / 16) * 2 ^ k :: rat"
  have s: "EmfToSeconds x / OLSR_C = ?q"
    by (simp add: x EmfToSeconds_code [OF a16 k16] OLSR_C_def)
  have r: "(of_nat a :: rat) < 16" using a16 by simp
  have "\<lceil>16 * (?q / 2 ^ k - 1) - 1 / 2\<rceil> = \<lceil>of_nat a - 1 / 2 :: rat\<rceil>" by simp
  also have "\<dots> = int a" by (rule ceiling_unique) simp_all
  finally have c: "int a = \<lceil>16 * (?q / 2 ^ k - 1) - 1 / 2\<rceil>" by simp
  have "SecondsToEmf (EmfToSeconds x) =
      Inr (if int a = 16 then word_of_nat (Suc k) else push_bit 4 (word_of_int (int a)) OR word_of_nat k)"
  proof (rule SecondsToEmf_eval [OF s [symmetric] _ _ k16 c])
    show "2 ^ k \<le> ?q" "?q < 2 ^ Suc k" using r by simp_all
    show "k = 15 \<longrightarrow> int a \<noteq> 16" using a16 by simp
  qed
  then show ?thesis using x a16 by simp
qed

text \<open>The coding of a time between 1/16 s and 3968 s is off by at most one part in 32.\<close>

lemma power2_bracket:
  fixes q :: rat
  assumes "1 \<le> q" "q < 2 ^ n"
  shows "\<exists>k<n. 2 ^ k \<le> q \<and> q < 2 ^ Suc k"
  using assms(2)
proof (induction n)
  case 0
  then show ?case using assms(1) by simp
next
  case (Suc n)
  then show ?case by (cases "q < 2 ^ n") (auto intro: less_SucI)
qed

lemma SecondsToEmf_error:
  assumes "1 / 16 \<le> s" "s \<le> 3968"
  shows "\<exists>e. SecondsToEmf s = Inr e \<and> \<bar>EmfToSeconds e - s\<bar> \<le> s / 32"
proof -
  define q where "q = s / OLSR_C"
  have q: "1 \<le> q" "q \<le> 63488" "s = q / 16" using assms by (simp_all add: q_def OLSR_C_def)
  then have "q < 2 ^ 16" by simp
  then obtain k where k: "k < 16" "2 ^ k \<le> q" "q < 2 ^ Suc k"
    using power2_bracket [of q 16] q(1) by blast
  define t where "t = 16 * (q / 2 ^ k - 1)"
  define a where "a = \<lceil>t - 1 / 2\<rceil>"
  have qt: "q = (1 + t / 16) * 2 ^ k" by (simp add: t_def field_simps)
  have t: "0 \<le> t" "t < 16" using k(2,3) by (simp_all add: t_def field_simps)
  have a: "0 \<le> a" "a \<le> 16" unfolding a_def using t by linarith+
  have near: "\<bar>of_int a - t\<bar> \<le> 1 / 2" unfolding a_def by linarith
  have top: "a \<noteq> 16" if "k = 15"
  proof -
    have "t \<le> 15" using that q(2) by (simp add: t_def)
    then show ?thesis unfolding a_def by linarith
  qed
  have ev: "SecondsToEmf s = Inr (if a = 16 then word_of_nat (Suc k)
           else push_bit 4 (word_of_int a) OR word_of_nat k)"
    by (rule SecondsToEmf_eval [OF q_def k(2,3,1)]) (use top in \<open>auto simp: a_def t_def\<close>)
  have val: "EmfToSeconds (if a = 16 then word_of_nat (Suc k)
           else push_bit 4 (word_of_int a) OR word_of_nat k) = (1 + of_int a / 16) * 2 ^ k / 16"
  proof (cases "a = 16")
    case True
    then have "k \<noteq> 15" using top by blast
    then have "Suc k < 16" using k(1) by simp
    then show ?thesis using True EmfToSeconds_code [of 0 "Suc k"] by (simp add: OLSR_C_def)
  next
    case False
    define n where "n = nat a"
    have n: "a = int n" "n < 16" using a False by (auto simp: n_def)
    then show ?thesis using False EmfToSeconds_code [of n k] k(1) by (simp add: OLSR_C_def)
  qed
  have "\<bar>(1 + of_int a / 16) * 2 ^ k / 16 - s\<bar> = \<bar>of_int a - t\<bar> * (2 ^ k / 256)"
  proof -
    have "(1 + of_int a / 16) * 2 ^ k / 16 - s = (of_int a - t) * (2 ^ k / 256)"
      unfolding q(3) by (subst qt) (simp add: algebra_simps add_divide_distrib diff_divide_distrib)
    then show ?thesis by (simp only: abs_mult) simp
  qed
  also have "\<dots> \<le> 1 / 2 * (2 ^ k / 256)" using near by (intro mult_right_mono) auto
  also have "\<dots> \<le> s / 32" using k(2) q(3) by simp
  finally show ?thesis unfolding val [symmetric] using ev by blast
qed


section \<open>Buffer iterators\<close>

definition WriteU8 :: "u8 \<Rightarrow> u8 list" where "WriteU8 x = [x]"

definition WriteHtonU16 :: "u16 \<Rightarrow> u8 list" where
  "WriteHtonU16 x = [ucast (drop_bit 8 x), ucast x]"

definition WriteHtonU32 :: "u32 \<Rightarrow> u8 list" where
  "WriteHtonU32 x = [ucast (drop_bit 24 x), ucast (drop_bit 16 x), ucast (drop_bit 8 x), ucast x]"

fun ReadU8 :: "u8 list \<Rightarrow> (u8 \<times> u8 list) res" where
  "ReadU8 (a # i) = Inr (a, i)"
| "ReadU8 i = Inl Buffer_overrun"

definition be16 :: "u8 \<Rightarrow> u8 \<Rightarrow> u16" where
  "be16 a b = push_bit 8 (ucast a) OR ucast b"

definition be32 :: "u8 \<Rightarrow> u8 \<Rightarrow> u8 \<Rightarrow> u8 \<Rightarrow> u32" where
  "be32 a b c d = push_bit 24 (ucast a) OR push_bit 16 (ucast b) OR push_bit 8 (ucast c) OR ucast d"

fun ReadNtohU16 :: "u8 list \<Rightarrow> (u16 \<times> u8 list) res" where
  "ReadNtohU16 (a # b # i) = Inr (be16 a b, i)"
| "ReadNtohU16 i = Inl Buffer_overrun"

fun ReadNtohU32 :: "u8 list \<Rightarrow> (u32 \<times> u8 list) res" where
  "ReadNtohU32 (a # b # c # d # i) = Inr (be32 a b c d, i)"
| "ReadNtohU32 i = Inl Buffer_overrun"

named_theorems codec_simps "reading back what was written"

lemma be16_split: "be16 (ucast (drop_bit 8 x)) (ucast x) = x"
  unfolding be16_def by (rule bit_word_eqI) (auto simp: bit_simps)

lemma be32_split:
  "be32 (ucast (drop_bit 24 x)) (ucast (drop_bit 16 x)) (ucast (drop_bit 8 x)) (ucast x) = x"
proof (rule bit_word_eqI)
  fix n
  assume n: "n < LENGTH(32)"
  consider "n < 8" | "8 \<le> n" "n < 16" | "16 \<le> n" "n < 24" | "24 \<le> n" by linarith
  then show "bit (be32 (ucast (drop_bit 24 x)) (ucast (drop_bit 16 x)) (ucast (drop_bit 8 x)) (ucast x)) n
      = bit x n"
    unfolding be32_def using n by cases (auto simp: bit_simps)
qed

lemma ReadU8_WriteU8 [codec_simps]: "ReadU8 (WriteU8 x @ i) = Inr (x, i)"
  by (simp add: WriteU8_def)

lemma ReadNtohU16_WriteHtonU16 [codec_simps]: "ReadNtohU16 (WriteHtonU16 x @ i) = Inr (x, i)"
  by (simp add: WriteHtonU16_def be16_split)

lemma ReadNtohU32_WriteHtonU32 [codec_simps]: "ReadNtohU32 (WriteHtonU32 x @ i) = Inr (x, i)"
  by (simp add: WriteHtonU32_def be32_split)

lemma length_Write [simp]:
  "length (WriteU8 a) = 1" "length (WriteHtonU16 b) = 2" "length (WriteHtonU32 c) = 4"
  by (simp_all add: WriteU8_def WriteHtonU16_def WriteHtonU32_def)

lemma ReadU8_length: "ReadU8 i = Inr (x, i') \<Longrightarrow> length i = length i' + 1"
  by (cases i) auto

lemma ReadNtohU16_length: "ReadNtohU16 i = Inr (x, i') \<Longrightarrow> length i = length i' + 2"
  by (cases i rule: ReadNtohU16.cases) auto

text \<open>
  The loops that read addresses: \<open>for (int n = 0; n < numAddresses; ++n)\<close>, and the loop of the
  HELLO body, \<open>for (int n = ...; n; --n)\<close>, which counts down to zero and so never meets its end
  when it starts below zero: it reads until the buffer is exhausted.
\<close>

fun ReadAddresses :: "nat \<Rightarrow> u8 list \<Rightarrow> (ipv4 list \<times> u8 list) res" where
  "ReadAddresses 0 i = Inr ([], i)"
| "ReadAddresses (Suc n) i =
     bindR (ReadNtohU32 i) (\<lambda>(x, i).
     bindR (ReadAddresses n i) (\<lambda>(xs, i). Inr (x # xs, i)))"

fun ReadAddressesDown :: "int \<Rightarrow> u8 list \<Rightarrow> (ipv4 list \<times> u8 list) res" where
  "ReadAddressesDown n (a # b # c # d # i) =
     (if n = 0 then Inr ([], a # b # c # d # i)
      else bindR (ReadAddressesDown (n - 1) i) (\<lambda>(xs, i). Inr (be32 a b c d # xs, i)))"
| "ReadAddressesDown n i = (if n = 0 then Inr ([], i) else Inl Buffer_overrun)"

lemma ReadAddressesDown_0 [simp]: "ReadAddressesDown 0 i = Inr ([], i)"
  by (cases "(0::int, i)" rule: ReadAddressesDown.cases) auto

lemma ReadAddressesDown_nat: "ReadAddressesDown (int n) i = ReadAddresses n i"
proof (induction n arbitrary: i)
  case (Suc n)
  show ?case
    using Suc by (cases "(int (Suc n), i)" rule: ReadAddressesDown.cases) auto
qed simp

lemma ReadAddressesDown_negative: "n < 0 \<Longrightarrow> ReadAddressesDown n i = Inl Buffer_overrun"
  by (induction n i rule: ReadAddressesDown.induct) auto

lemma ReadAddressesDown_length: "ReadAddressesDown n i = Inr (xs, i') \<Longrightarrow> length i' \<le> length i"
  by (induction n i arbitrary: xs rule: ReadAddressesDown.induct)
    (auto simp: res_simps split: if_splits)

definition WriteAddresses :: "ipv4 list \<Rightarrow> u8 list" where
  "WriteAddresses xs = concat (map WriteHtonU32 xs)"

lemma ReadAddresses_WriteAddresses [codec_simps]:
  "ReadAddresses (length xs) (WriteAddresses xs @ i) = Inr (xs, i)"
  unfolding WriteAddresses_def by (induction xs) (simp_all add: codec_simps)

lemma length_WriteAddresses [simp]: "length (WriteAddresses xs) = 4 * length xs"
  unfolding WriteAddresses_def by (induction xs) simp_all

end
