(* ===== verification/Messages.thy ===== *)
theory Messages
  imports Header_Codec
begin

text \<open>
  The OLSR packet and message headers of src/olsr/model/olsr-header.cc: \<open>GetSerializedSize\<close>,
  \<open>Serialize\<close> and \<open>Deserialize\<close> for \<open>PacketHeader\<close>, \<open>MessageHeader\<close> and the four bodies
  \<open>Mid\<close>, \<open>Hello\<close>, \<open>Tc\<close>, \<open>Hna\<close>, and the receive loop of \<open>RecvOlsr\<close> that splits a packet into
  messages. \<open>body_codec\<close> is the contract of a body, whose \<open>Deserialize\<close> is told how many bytes
  belong to it, and \<open>header_codec\<close> the one of an ns-3 \<open>Header\<close>, which \<open>RemoveHeader\<close> relies on.
  Every size is computed in the C++ types: \<open>uint32_t\<close> sizes, a \<open>uint16_t\<close> size field.
\<close>

section \<open>Data\<close>

record PacketHeader =
  m_packetLength :: u16
  m_packetSequenceNumber :: u16

record Mid =
  interfaceAddresses :: "ipv4 list"

record LinkMessage =
  linkCode :: u8
  neighborInterfaceAddresses :: "ipv4 list"

record Hello =
  hTime :: u8
  h_willingness :: willingness
  linkMessages :: "LinkMessage list"

record Tc =
  neighborAddresses :: "ipv4 list"
  tc_ansn :: u16

record HnaAssociation =
  ha_address :: ipv4
  ha_mask :: ipv4

record Hna =
  associations :: "HnaAssociation list"

datatype msg_body =
    HELLO_MESSAGE Hello
  | TC_MESSAGE Tc
  | MID_MESSAGE Mid
  | HNA_MESSAGE Hna

record MessageHeader =
  m_vTime :: u8
  m_originatorAddress :: ipv4
  m_timeToLive :: u8
  m_hopCount :: u8
  m_messageSequenceNumber :: u16
  m_messageSize :: u16
  m_message :: msg_body

fun m_messageType :: "msg_body \<Rightarrow> u8" where
  "m_messageType (HELLO_MESSAGE _) = 1"
| "m_messageType (TC_MESSAGE _) = 2"
| "m_messageType (MID_MESSAGE _) = 3"
| "m_messageType (HNA_MESSAGE _) = 4"

definition SetVTime :: "time \<Rightarrow> MessageHeader \<Rightarrow> MessageHeader res" where
  "SetVTime t m = bindR (SecondsToEmf (GetSeconds t)) (\<lambda>e. Inr (m\<lparr>m_vTime := e\<rparr>))"

definition GetVTime :: "MessageHeader \<Rightarrow> time" where
  "GetVTime m = Seconds (EmfToSeconds (m_vTime m))"

definition SetHTime :: "time \<Rightarrow> Hello \<Rightarrow> Hello res" where
  "SetHTime t h = bindR (SecondsToEmf (GetSeconds t)) (\<lambda>e. Inr (h\<lparr>hTime := e\<rparr>))"

definition GetHTime :: "Hello \<Rightarrow> time" where
  "GetHTime h = Seconds (EmfToSeconds (hTime h))"

definition IPV4_ADDRESS_SIZE :: u32 where "IPV4_ADDRESS_SIZE = 4"
definition OLSR_MSG_HEADER_SIZE :: u32 where "OLSR_MSG_HEADER_SIZE = 12"
definition OLSR_PKT_HEADER_SIZE :: u32 where "OLSR_PKT_HEADER_SIZE = 4"

lemmas size_defs = IPV4_ADDRESS_SIZE_def OLSR_MSG_HEADER_SIZE_def OLSR_PKT_HEADER_SIZE_def

section \<open>Packet header\<close>

definition PacketHeader_GetSerializedSize :: "PacketHeader \<Rightarrow> u32" where
  "PacketHeader_GetSerializedSize h = OLSR_PKT_HEADER_SIZE"

definition PacketHeader_Serialize :: "PacketHeader \<Rightarrow> u8 list" where
  "PacketHeader_Serialize h =
     WriteHtonU16 (m_packetLength h) @ WriteHtonU16 (m_packetSequenceNumber h)"

definition PacketHeader_Deserialize :: "u8 list \<Rightarrow> (PacketHeader \<times> u32) res" where
  "PacketHeader_Deserialize i =
     bindR (ReadNtohU16 i) (\<lambda>(len, i).
     bindR (ReadNtohU16 i) (\<lambda>(sn, i).
     let h = \<lparr>m_packetLength = len, m_packetSequenceNumber = sn\<rparr>
     in Inr (h, PacketHeader_GetSerializedSize h)))"

section \<open>MID body\<close>

definition Mid_GetSerializedSize :: "Mid \<Rightarrow> u32" where
  "Mid_GetSerializedSize m = of_nat (length (interfaceAddresses m)) * IPV4_ADDRESS_SIZE"

definition Mid_Serialize :: "Mid \<Rightarrow> u8 list" where
  "Mid_Serialize m = WriteAddresses (interfaceAddresses m)"

definition Mid_Deserialize :: "u8 list \<Rightarrow> u32 \<Rightarrow> (Mid \<times> u32) res" where
  "Mid_Deserialize i messageSize =
     assertR (messageSize mod IPV4_ADDRESS_SIZE = 0)
       (bindR (ReadAddresses (unat (messageSize div IPV4_ADDRESS_SIZE)) i) (\<lambda>(xs, i).
        let m = \<lparr>interfaceAddresses = xs\<rparr> in Inr (m, Mid_GetSerializedSize m)))"

section \<open>HELLO body\<close>

definition LinkMessage_size :: "LinkMessage \<Rightarrow> u32" where
  "LinkMessage_size lm = 4 + IPV4_ADDRESS_SIZE * of_nat (length (neighborInterfaceAddresses lm))"

definition Hello_GetSerializedSize :: "Hello \<Rightarrow> u32" where
  "Hello_GetSerializedSize h = fold (\<lambda>lm size. size + LinkMessage_size lm) (linkMessages h) 4"

definition LinkMessage_Serialize :: "LinkMessage \<Rightarrow> u8 list" where
  "LinkMessage_Serialize lm =
     WriteU8 (linkCode lm) @ WriteU8 0 @ WriteHtonU16 (ucast (LinkMessage_size lm)) @
     WriteAddresses (neighborInterfaceAddresses lm)"

definition Hello_Serialize :: "Hello \<Rightarrow> u8 list" where
  "Hello_Serialize h =
     WriteHtonU16 0 @ WriteU8 (hTime h) @ WriteU8 (h_willingness h) @
     concat (map LinkMessage_Serialize (linkMessages h))"

text \<open>The \<open>while (helloSizeLeft)\<close> loop.\<close>

function Hello_links :: "u16 \<Rightarrow> u8 list \<Rightarrow> (LinkMessage list \<times> u8 list) res" where
  "Hello_links helloSizeLeft i =
     (if helloSizeLeft = 0 then Inr ([], i)
      else assertR (helloSizeLeft \<ge> 4)
        (bindR (ReadU8 i) (\<lambda>(code, i1).
         bindR (ReadU8 i1) (\<lambda>(_, i2).
         bindR (ReadNtohU16 i2) (\<lambda>(lmSize, i3).
         assertR ((int (unat lmSize) - 4) mod 4 = 0)
           (bindR (ReadAddressesDown ((int (unat lmSize) - 4) div 4) i3) (\<lambda>(xs, i4).
            bindR (Hello_links (helloSizeLeft - lmSize) i4) (\<lambda>(lms, i5).
            Inr (\<lparr>linkCode = code, neighborInterfaceAddresses = xs\<rparr> # lms, i5)))))))))"
  by pat_completeness auto
termination
proof (relation "measure (\<lambda>(_, i). length i)", goal_cases)
  case (2 helloSizeLeft i x code i1 xa b i2 xb lmSize i3 xc xs i4)
  then show ?case
    by (auto dest!: ReadU8_length ReadNtohU16_length ReadAddressesDown_length)
qed simp

declare Hello_links.simps [simp del]

definition Hello_Deserialize :: "u8 list \<Rightarrow> u32 \<Rightarrow> (Hello \<times> u32) res" where
  "Hello_Deserialize i messageSize =
     assertR (messageSize \<ge> 4)
       (bindR (ReadNtohU16 i) (\<lambda>(_, i).
        bindR (ReadU8 i) (\<lambda>(ht, i).
        bindR (ReadU8 i) (\<lambda>(w, i).
        bindR (Hello_links (ucast messageSize - 4) i) (\<lambda>(lms, i).
        Inr (\<lparr>hTime = ht, h_willingness = w, linkMessages = lms\<rparr>, messageSize))))))"

section \<open>TC body\<close>

definition Tc_GetSerializedSize :: "Tc \<Rightarrow> u32" where
  "Tc_GetSerializedSize t = 4 + of_nat (length (neighborAddresses t)) * IPV4_ADDRESS_SIZE"

definition Tc_Serialize :: "Tc \<Rightarrow> u8 list" where
  "Tc_Serialize t = WriteHtonU16 (tc_ansn t) @ WriteHtonU16 0 @ WriteAddresses (neighborAddresses t)"

definition Tc_Deserialize :: "u8 list \<Rightarrow> u32 \<Rightarrow> (Tc \<times> u32) res" where
  "Tc_Deserialize i messageSize =
     assertR (messageSize \<ge> 4)
       (bindR (ReadNtohU16 i) (\<lambda>(ansn, i).
        bindR (ReadNtohU16 i) (\<lambda>(_, i).
        assertR ((messageSize - 4) mod IPV4_ADDRESS_SIZE = 0)
          (bindR (ReadAddresses (unat ((messageSize - 4) div IPV4_ADDRESS_SIZE)) i) (\<lambda>(xs, i).
           Inr (\<lparr>neighborAddresses = xs, tc_ansn = ansn\<rparr>, messageSize))))))"

section \<open>HNA body\<close>

definition Hna_GetSerializedSize :: "Hna \<Rightarrow> u32" where
  "Hna_GetSerializedSize h = 2 * of_nat (length (associations h)) * IPV4_ADDRESS_SIZE"

definition Hna_Serialize :: "Hna \<Rightarrow> u8 list" where
  "Hna_Serialize h =
     concat (map (\<lambda>a. WriteHtonU32 (ha_address a) @ WriteHtonU32 (ha_mask a)) (associations h))"

fun ReadAssociations :: "nat \<Rightarrow> u8 list \<Rightarrow> (HnaAssociation list \<times> u8 list) res" where
  "ReadAssociations 0 i = Inr ([], i)"
| "ReadAssociations (Suc n) i =
     bindR (ReadNtohU32 i) (\<lambda>(a, i).
     bindR (ReadNtohU32 i) (\<lambda>(m, i).
     bindR (ReadAssociations n i) (\<lambda>(xs, i).
     Inr (\<lparr>ha_address = a, ha_mask = m\<rparr> # xs, i))))"

definition Hna_Deserialize :: "u8 list \<Rightarrow> u32 \<Rightarrow> (Hna \<times> u32) res" where
  "Hna_Deserialize i messageSize =
     assertR (messageSize mod (IPV4_ADDRESS_SIZE * 2) = 0)
       (bindR (ReadAssociations (unat (messageSize div IPV4_ADDRESS_SIZE div 2)) i) (\<lambda>(xs, i).
        Inr (\<lparr>associations = xs\<rparr>, messageSize)))"

section \<open>Message header\<close>

fun body_GetSerializedSize :: "msg_body \<Rightarrow> u32" where
  "body_GetSerializedSize (HELLO_MESSAGE b) = Hello_GetSerializedSize b"
| "body_GetSerializedSize (TC_MESSAGE b) = Tc_GetSerializedSize b"
| "body_GetSerializedSize (MID_MESSAGE b) = Mid_GetSerializedSize b"
| "body_GetSerializedSize (HNA_MESSAGE b) = Hna_GetSerializedSize b"

fun body_Serialize :: "msg_body \<Rightarrow> u8 list" where
  "body_Serialize (HELLO_MESSAGE b) = Hello_Serialize b"
| "body_Serialize (TC_MESSAGE b) = Tc_Serialize b"
| "body_Serialize (MID_MESSAGE b) = Mid_Serialize b"
| "body_Serialize (HNA_MESSAGE b) = Hna_Serialize b"

definition GetSerializedSize :: "MessageHeader \<Rightarrow> u32" where
  "GetSerializedSize m = OLSR_MSG_HEADER_SIZE + body_GetSerializedSize (m_message m)"

definition Serialize :: "MessageHeader \<Rightarrow> u8 list" where
  "Serialize m =
     WriteU8 (m_messageType (m_message m)) @ WriteU8 (m_vTime m) @
     WriteHtonU16 (ucast (GetSerializedSize m)) @ WriteHtonU32 (m_originatorAddress m) @
     WriteU8 (m_timeToLive m) @ WriteU8 (m_hopCount m) @
     WriteHtonU16 (m_messageSequenceNumber m) @ body_Serialize (m_message m)"

text \<open>A body of the given type, from the bytes that follow the message header.\<close>

definition body_Deserialize :: "u8 \<Rightarrow> u8 list \<Rightarrow> u32 \<Rightarrow> (msg_body \<times> u32) res" where
  "body_Deserialize type i n =
     (if type = 3 then bindR (Mid_Deserialize i n) (\<lambda>(b, k). Inr (MID_MESSAGE b, k))
      else if type = 1 then bindR (Hello_Deserialize i n) (\<lambda>(b, k). Inr (HELLO_MESSAGE b, k))
      else if type = 2 then bindR (Tc_Deserialize i n) (\<lambda>(b, k). Inr (TC_MESSAGE b, k))
      else if type = 4 then bindR (Hna_Deserialize i n) (\<lambda>(b, k). Inr (HNA_MESSAGE b, k))
      else Inl Assertion_failed)"

definition Deserialize :: "u8 list \<Rightarrow> (MessageHeader \<times> u32) res" where
  "Deserialize i =
     bindR (ReadU8 i) (\<lambda>(type, i).
     assertR (1 \<le> type \<and> type \<le> 4)
       (bindR (ReadU8 i) (\<lambda>(vt, i).
        bindR (ReadNtohU16 i) (\<lambda>(sz, i).
        bindR (ReadNtohU32 i) (\<lambda>(orig, i).
        bindR (ReadU8 i) (\<lambda>(ttl, i).
        bindR (ReadU8 i) (\<lambda>(hops, i).
        bindR (ReadNtohU16 i) (\<lambda>(sn, i).
        bindR (body_Deserialize type i (ucast sz - OLSR_MSG_HEADER_SIZE)) (\<lambda>(b, k).
        Inr (\<lparr>m_vTime = vt, m_originatorAddress = orig, m_timeToLive = ttl, m_hopCount = hops,
              m_messageSequenceNumber = sn, m_messageSize = sz, m_message = b\<rparr>,
             OLSR_MSG_HEADER_SIZE + k))))))))))"

section \<open>Contracts\<close>

text \<open>
  A message body: \<open>Deserialize\<close> is given an iterator at the body and the number of bytes that
  the message header announced, and answers the number of bytes it stands for.
\<close>

locale body_codec =
  fixes size :: "'a \<Rightarrow> u32"
    and ser :: "'a \<Rightarrow> u8 list"
    and des :: "u8 list \<Rightarrow> u32 \<Rightarrow> ('a \<times> u32) res"
  assumes size_is_length: "size x = of_nat (length (ser x))"
    and read_back: "length (ser x) < 65524 \<Longrightarrow>
      des (ser x @ rest) (of_nat (length (ser x))) = Inr (x, of_nat (length (ser x)))"
begin

lemma unat_size: "length (ser x) < 65524 \<Longrightarrow> unat (size x) = length (ser x)"
  by (simp add: size_is_length unsigned_of_nat take_bit_nat_eq_self)

lemma read_back_size: "length (ser x) < 65524 \<Longrightarrow> des (ser x @ rest) (size x) = Inr (x, size x)"
  by (simp add: size_is_length read_back)

text \<open>What a body reads does not depend on the bytes behind it.\<close>

lemma serialize_injective:
  "length (ser x) < 65524 \<Longrightarrow> length (ser y) = length (ser x) \<Longrightarrow> ser x @ r = ser y @ r' \<Longrightarrow> x = y"
  by (metis Inr_inject Pair_inject read_back)

end

lemma unat_u16 [simp]: "n < 65536 \<Longrightarrow> unat (of_nat n :: u16) = n"
  by (simp add: unsigned_of_nat take_bit_nat_eq_self)

lemma unat_u32 [simp]: "n < 4294967296 \<Longrightarrow> unat (of_nat n :: u32) = n"
  by (simp add: unsigned_of_nat take_bit_nat_eq_self)

lemma ucast_u32_u16 [simp]: "n < 65536 \<Longrightarrow> (ucast (of_nat n :: u32) :: u16) = of_nat n"
  by (simp add: unsigned_of_nat take_bit_nat_eq_self)

lemma ucast_u16_u32 [simp]: "n < 65536 \<Longrightarrow> (ucast (of_nat n :: u16) :: u32) = of_nat n"
  by (simp add: unsigned_of_nat take_bit_nat_eq_self)


lemma u32_div_mod_4:
  assumes "4 * n < 65536"
  shows "(4 * of_nat n :: u32) mod 4 = 0" and "unat ((4 * of_nat n :: u32) div 4) = n"
proof -
  have u: "unat (4 * of_nat n :: u32) = 4 * n"
    using unat_u32 [of "4 * n"] assms by simp
  show "(4 * of_nat n :: u32) mod 4 = 0" by (rule word_unat_eq_iff [THEN iffD2]) (simp only: unat_mod u, simp)
  show "unat ((4 * of_nat n :: u32) div 4) = n" by (simp only: unat_div u) simp
qed

lemma u32_div_mod_8:
  assumes "8 * n < 65536"
  shows "(8 * of_nat n :: u32) mod 8 = 0" and "unat ((8 * of_nat n :: u32) div 4 div 2) = n"
proof -
  have u: "unat (8 * of_nat n :: u32) = 8 * n"
    using unat_u32 [of "8 * n"] assms by simp
  show "(8 * of_nat n :: u32) mod 8 = 0" by (rule word_unat_eq_iff [THEN iffD2]) (simp only: unat_mod u, simp)
  show "unat ((8 * of_nat n :: u32) div 4 div 2) = n" by (simp only: unat_div u) simp
qed

section \<open>Bodies\<close>

interpretation mid: body_codec Mid_GetSerializedSize Mid_Serialize Mid_Deserialize
proof
  fix m :: Mid and rest
  show "Mid_GetSerializedSize m = of_nat (length (Mid_Serialize m))"
    by (simp add: Mid_GetSerializedSize_def Mid_Serialize_def size_defs)
  show "length (Mid_Serialize m) < 65524 \<Longrightarrow>
      Mid_Deserialize (Mid_Serialize m @ rest) (of_nat (length (Mid_Serialize m))) =
        Inr (m, of_nat (length (Mid_Serialize m)))"
    by (simp add: Mid_Deserialize_def Mid_Serialize_def Mid_GetSerializedSize_def size_defs
      u32_div_mod_4 codec_simps)
qed

lemma u32_ge4: "n < 65520 \<Longrightarrow> (4::u32) \<le> 4 + of_nat n"
  using unat_u32 [of "4 + n"] by (simp add: word_le_nat_alt)

interpretation tc: body_codec Tc_GetSerializedSize Tc_Serialize Tc_Deserialize
proof
  fix t :: Tc and rest
  show "Tc_GetSerializedSize t = of_nat (length (Tc_Serialize t))"
    by (simp add: Tc_GetSerializedSize_def Tc_Serialize_def size_defs)
  show "length (Tc_Serialize t) < 65524 \<Longrightarrow>
      Tc_Deserialize (Tc_Serialize t @ rest) (of_nat (length (Tc_Serialize t))) =
        Inr (t, of_nat (length (Tc_Serialize t)))"
    using u32_ge4 [of "4 * length (neighborAddresses t)"]
    by (simp add: Tc_Deserialize_def Tc_Serialize_def size_defs u32_div_mod_4 codec_simps)
qed

lemma ReadAssociations_Serialize:
  "ReadAssociations (length xs)
     (concat (map (\<lambda>a. WriteHtonU32 (ha_address a) @ WriteHtonU32 (ha_mask a)) xs) @ i) = Inr (xs, i)"
  by (induction xs) (simp_all add: codec_simps)

lemma length_Hna_Serialize: "length (Hna_Serialize h) = 8 * length (associations h)"
proof -
  have "length (concat (map (\<lambda>a. WriteHtonU32 (ha_address a) @ WriteHtonU32 (ha_mask a)) xs)) = 8 * length xs"
    for xs by (induction xs) simp_all
  then show ?thesis by (simp add: Hna_Serialize_def)
qed

interpretation hna_body: body_codec Hna_GetSerializedSize Hna_Serialize Hna_Deserialize
proof
  fix h :: Hna and rest
  show "Hna_GetSerializedSize h = of_nat (length (Hna_Serialize h))"
    by (simp add: Hna_GetSerializedSize_def length_Hna_Serialize size_defs)
  show "length (Hna_Serialize h) < 65524 \<Longrightarrow>
      Hna_Deserialize (Hna_Serialize h @ rest) (of_nat (length (Hna_Serialize h))) =
        Inr (h, of_nat (length (Hna_Serialize h)))"
    by (simp add: Hna_Deserialize_def length_Hna_Serialize size_defs u32_div_mod_8)
      (simp add: Hna_Serialize_def ReadAssociations_Serialize)
qed

lemma length_LinkMessage_Serialize [simp]:
  "length (LinkMessage_Serialize lm) = 4 + 4 * length (neighborInterfaceAddresses lm)"
  by (simp add: LinkMessage_Serialize_def)

lemma LinkMessage_size_length: "LinkMessage_size lm = of_nat (length (LinkMessage_Serialize lm))"
  by (simp add: LinkMessage_size_def size_defs)

lemma Hello_links_Serialize:
  assumes "length (concat (map LinkMessage_Serialize lms)) < 65536"
  shows "Hello_links (of_nat (length (concat (map LinkMessage_Serialize lms))))
           (concat (map LinkMessage_Serialize lms) @ rest) = Inr (lms, rest)"
  using assms
proof (induction lms)
  case Nil
  then show ?case by (simp add: Hello_links.simps)
next
  case (Cons lm lms)
  let ?n = "length (neighborInterfaceAddresses lm)"
  let ?l = "length (concat (map LinkMessage_Serialize lms))"
  have b: "4 + 4 * ?n + ?l < 65536" using Cons.prems by simp
  have left: "unat (of_nat (4 + 4 * ?n + ?l) :: u16) = 4 + 4 * ?n + ?l"
    using b by (rule unat_u16)
  then have nz: "(of_nat (4 + 4 * ?n + ?l) :: u16) \<noteq> 0" "(4::u16) \<le> of_nat (4 + 4 * ?n + ?l)"
    by (auto simp: word_le_nat_alt simp del: of_nat_add of_nat_mult)
  have lm: "unat (of_nat (4 + 4 * ?n) :: u16) = 4 + 4 * ?n" using b by (intro unat_u16) simp
  have sz: "(ucast (LinkMessage_size lm) :: u16) = of_nat (4 + 4 * ?n)"
    unfolding LinkMessage_size_length length_LinkMessage_Serialize using b by (intro ucast_u32_u16) simp
  have rest: "(of_nat (4 + 4 * ?n + ?l) - of_nat (4 + 4 * ?n) :: u16) = of_nat ?l" by simp
  have IH: "Hello_links (of_nat ?l) (concat (map LinkMessage_Serialize lms) @ rest) = Inr (lms, rest)"
    using Cons.IH b by simp
  have bytes: "concat (map LinkMessage_Serialize (lm # lms)) @ rest =
      WriteU8 (linkCode lm) @ WriteU8 0 @ WriteHtonU16 (of_nat (4 + 4 * ?n)) @
      WriteAddresses (neighborInterfaceAddresses lm) @ concat (map LinkMessage_Serialize lms) @ rest"
    by (simp only: list.map concat.simps LinkMessage_Serialize_def sz append_assoc)
  have len: "length (concat (map LinkMessage_Serialize (lm # lms))) = 4 + 4 * ?n + ?l" by simp
  have cnt: "(int (4 + 4 * ?n) - 4) div 4 = int ?n" "(int (4 + 4 * ?n) - 4) mod 4 = 0" by simp_all
  show ?case
    unfolding bytes len
    by (subst Hello_links.simps)
      (simp only: nz if_False assertR_True codec_simps bindR.simps case_prod_conv lm cnt
        ReadAddressesDown_nat rest IH, simp)
qed

lemma Hello_size_length: "Hello_GetSerializedSize h = of_nat (length (Hello_Serialize h))"
proof -
  have "fold (\<lambda>lm size. size + LinkMessage_size lm) lms s =
      s + of_nat (length (concat (map LinkMessage_Serialize lms)))" for lms and s :: u32
    by (induction lms arbitrary: s) (simp_all add: LinkMessage_size_length)
  then show ?thesis by (simp add: Hello_GetSerializedSize_def Hello_Serialize_def)
qed

interpretation hello: body_codec Hello_GetSerializedSize Hello_Serialize Hello_Deserialize
proof
  fix h :: Hello and rest
  show "Hello_GetSerializedSize h = of_nat (length (Hello_Serialize h))" by (rule Hello_size_length)
  let ?l = "length (concat (map LinkMessage_Serialize (linkMessages h)))"
  assume a: "length (Hello_Serialize h) < 65524"
  then have l: "4 + ?l < 65524" by (simp add: Hello_Serialize_def)
  have len: "length (Hello_Serialize h) = 4 + ?l" by (simp add: Hello_Serialize_def)
  have ge: "(4::u32) \<le> of_nat (4 + ?l)" using u32_ge4 [of ?l] l by simp
  have left: "ucast (of_nat (4 + ?l) :: u32) - 4 = (of_nat ?l :: u16)"
    using l by (subst ucast_u32_u16) simp_all
  have bytes: "Hello_Serialize h @ rest = WriteHtonU16 0 @ WriteU8 (hTime h) @ WriteU8 (h_willingness h) @
     concat (map LinkMessage_Serialize (linkMessages h)) @ rest" by (simp add: Hello_Serialize_def)
  have links: "Hello_links (of_nat ?l) (concat (map LinkMessage_Serialize (linkMessages h)) @ rest) =
      Inr (linkMessages h, rest)" using l by (intro Hello_links_Serialize) simp
  show "Hello_Deserialize (Hello_Serialize h @ rest) (of_nat (length (Hello_Serialize h))) =
        Inr (h, of_nat (length (Hello_Serialize h)))"
    unfolding Hello_Deserialize_def len bytes
    by (simp only: ge assertR_True codec_simps bindR.simps case_prod_conv left links) simp
qed


section \<open>Packets\<close>

text \<open>\<open>Packet::RemoveHeader\<close>: deserialize at the front of the packet, then strip what was used.\<close>

definition RemoveHeader :: "(u8 list \<Rightarrow> ('a \<times> u32) res) \<Rightarrow> u8 list \<Rightarrow> ('a \<times> u32 \<times> u8 list) res" where
  "RemoveHeader des packet = bindR (des packet) (\<lambda>(x, n). Inr (x, n, drop (unat n) packet))"

locale header_codec =
  fixes size :: "'a \<Rightarrow> u32"
    and ser :: "'a \<Rightarrow> u8 list"
    and des :: "u8 list \<Rightarrow> ('a \<times> u32) res"
    and received :: "'a \<Rightarrow> 'a"
  assumes size_is_length: "size x = of_nat (length (ser x))"
    and size_received: "size (received x) = size x"
    and not_empty: "ser x \<noteq> []"
    and read_back: "length (ser x) < 65536 \<Longrightarrow>
      des (ser x @ rest) = Inr (received x, of_nat (length (ser x)))"
begin

lemma RemoveHeader_AddHeader:
  "length (ser x) < 65536 \<Longrightarrow> RemoveHeader des (ser x @ rest) = Inr (received x, size x, rest)"
  by (simp add: RemoveHeader_def read_back size_is_length)

lemma unat_size: "length (ser x) < 65536 \<Longrightarrow> unat (size x) = length (ser x)"
  by (simp add: size_is_length)

lemma size_not_0: "length (ser x) < 65536 \<Longrightarrow> size x \<noteq> 0"
  using unat_size [of x] not_empty [of x] by (auto simp: unsigned_eq_0_iff)

end

interpretation packet_header: header_codec PacketHeader_GetSerializedSize PacketHeader_Serialize
  PacketHeader_Deserialize "\<lambda>h. h"
  by unfold_locales
    (simp_all add: PacketHeader_GetSerializedSize_def PacketHeader_Serialize_def
      PacketHeader_Deserialize_def size_defs codec_simps, simp add: WriteHtonU16_def)

lemma body_size_length: "body_GetSerializedSize b = of_nat (length (body_Serialize b))"
  by (cases b) (simp_all add: hello.size_is_length tc.size_is_length mid.size_is_length
    hna_body.size_is_length)

lemma body_read_back:
  assumes "length (body_Serialize b) < 65524"
  shows "body_Deserialize (m_messageType b) (body_Serialize b @ rest) (of_nat (length (body_Serialize b))) =
    Inr (b, of_nat (length (body_Serialize b)))"
  using assms
  by (cases b) (simp_all add: body_Deserialize_def hello.read_back tc.read_back mid.read_back
    hna_body.read_back)

lemma length_Serialize: "length (Serialize m) = 12 + length (body_Serialize (m_message m))"
  by (simp add: Serialize_def)

text \<open>The size field of a received message holds the size that the sender computed.\<close>

definition with_size :: "MessageHeader \<Rightarrow> MessageHeader" where
  "with_size m = m\<lparr>m_messageSize := ucast (GetSerializedSize m)\<rparr>"

interpretation message: header_codec GetSerializedSize Serialize Deserialize with_size
proof
  fix m :: MessageHeader and rest
  show size: "GetSerializedSize m = of_nat (length (Serialize m))"
    by (simp add: GetSerializedSize_def length_Serialize body_size_length size_defs)
  show "GetSerializedSize (with_size m) = GetSerializedSize m"
    by (simp add: with_size_def GetSerializedSize_def)
  show "Serialize m \<noteq> []" by (simp add: Serialize_def WriteU8_def)
  let ?b = "m_message m"
  let ?l = "length (body_Serialize ?b)"
  assume "length (Serialize m) < 65536"
  then have l: "12 + ?l < 65536" by (simp add: length_Serialize)
  have sz: "(ucast (GetSerializedSize m) :: u16) = of_nat (12 + ?l)"
    unfolding size length_Serialize using l by (rule ucast_u32_u16)
  have body: "ucast (of_nat (12 + ?l) :: u16) - OLSR_MSG_HEADER_SIZE = (of_nat ?l :: u32)"
    using l by (subst ucast_u16_u32) (simp_all add: size_defs)
  have type: "1 \<le> m_messageType ?b \<and> m_messageType ?b \<le> 4" by (cases ?b) simp_all
  have rb: "body_Deserialize (m_messageType ?b) (body_Serialize ?b @ rest) (of_nat ?l) = Inr (?b, of_nat ?l)"
    using l by (intro body_read_back) simp
  have bytes: "Serialize m @ rest = WriteU8 (m_messageType ?b) @ WriteU8 (m_vTime m) @
     WriteHtonU16 (of_nat (12 + ?l)) @ WriteHtonU32 (m_originatorAddress m) @
     WriteU8 (m_timeToLive m) @ WriteU8 (m_hopCount m) @
     WriteHtonU16 (m_messageSequenceNumber m) @ body_Serialize ?b @ rest"
    by (simp only: Serialize_def sz append_assoc)
  show "Deserialize (Serialize m @ rest) = Inr (with_size m, of_nat (length (Serialize m)))"
    unfolding Deserialize_def bytes length_Serialize with_size_def sz
    by (simp only: type assertR_True codec_simps bindR.simps case_prod_conv body rb)
      (simp add: size_defs)
qed

text \<open>The loop of \<open>RecvOlsr\<close> that takes the messages off a packet, \<open>while (sizeLeft)\<close>.\<close>

function ReadMessages :: "u32 \<Rightarrow> u8 list \<Rightarrow> MessageHeader list res" where
  "ReadMessages sizeLeft packet =
     (if sizeLeft = 0 then Inr []
      else bindR (RemoveHeader Deserialize packet) (\<lambda>(m, n, packet').
        if n = 0 then Inl Assertion_failed
        else bindR (ReadMessages (sizeLeft - GetSerializedSize m) packet') (\<lambda>ms. Inr (m # ms))))"
  by pat_completeness auto
termination
proof (relation "measure (\<lambda>(_, packet). length packet)", goal_cases)
  case (2 sizeLeft packet x m y n packet')
  from 2(2,3,4) have des: "Deserialize packet = Inr (m, n)" and p: "packet' = drop (unat n) packet"
    by (auto simp: RemoveHeader_def res_simps)
  have "packet \<noteq> []" using des by (auto simp: Deserialize_def)
  moreover have "unat n > 0" using 2(5) by (simp add: unat_gt_0)
  ultimately show ?case by (simp add: p)
qed simp

declare ReadMessages.simps [simp del]

definition ReadPacket :: "u8 list \<Rightarrow> (PacketHeader \<times> MessageHeader list) res" where
  "ReadPacket packet =
     bindR (RemoveHeader PacketHeader_Deserialize packet) (\<lambda>(h, _, packet).
     assertR (ucast (m_packetLength h) \<ge> PacketHeader_GetSerializedSize h)
       (bindR (ReadMessages (ucast (m_packetLength h) - PacketHeader_GetSerializedSize h) packet)
         (\<lambda>ms. Inr (h, ms))))"

lemma ReadMessages_Serialize:
  assumes "length (concat (map Serialize ms)) < 65536"
  shows "ReadMessages (of_nat (length (concat (map Serialize ms)))) (concat (map Serialize ms) @ rest) =
    Inr (map with_size ms)"
  using assms
proof (induction ms)
  case Nil
  then show ?case by (simp add: ReadMessages.simps)
next
  case (Cons m ms)
  let ?n = "length (Serialize m)" and ?l = "length (concat (map Serialize ms))"
  have b: "?n + ?l < 65536" and n: "?n < 65536" using Cons.prems by simp_all
  have "unat (of_nat (?n + ?l) :: u32) = ?n + ?l" using b by (intro unat_u32) simp
  moreover have "?n > 0" by (simp add: length_Serialize)
  ultimately have nz: "(of_nat (?n + ?l) :: u32) \<noteq> 0" by (metis add_is_0 neq0_conv unsigned_0)
  have left: "of_nat (?n + ?l) - GetSerializedSize m = (of_nat ?l :: u32)"
    by (simp add: message.size_is_length)
  have IH: "ReadMessages (of_nat ?l) (concat (map Serialize ms) @ rest) = Inr (map with_size ms)"
    using Cons.IH b by simp
  have bytes: "concat (map Serialize (m # ms)) @ rest = Serialize m @ concat (map Serialize ms) @ rest"
    and len: "length (concat (map Serialize (m # ms))) = ?n + ?l" by simp_all
  show ?case
    unfolding bytes len
    by (subst ReadMessages.simps)
      (simp only: nz if_False message.RemoveHeader_AddHeader [OF n] bindR.simps case_prod_conv
        message.size_not_0 [OF n] message.size_received left IH list.map)
qed

lemma ReadPacket_Serialize:
  assumes len: "m_packetLength h = of_nat (4 + length (concat (map Serialize ms)))"
    and b: "4 + length (concat (map Serialize ms)) < 65536"
  shows "ReadPacket (PacketHeader_Serialize h @ concat (map Serialize ms)) = Inr (h, map with_size ms)"
proof -
  let ?l = "length (concat (map Serialize ms))"
  have "length (PacketHeader_Serialize h) < 65536" by (simp add: PacketHeader_Serialize_def)
  note rm = packet_header.RemoveHeader_AddHeader [OF this, of "concat (map Serialize ms)"]
  have u: "ucast (m_packetLength h) = (of_nat (4 + ?l) :: u32)"
    unfolding len using b by (rule ucast_u16_u32)
  have ge: "(4::u32) \<le> of_nat (4 + ?l)" using u32_ge4 [of ?l] b unat_u32 [of "4 + ?l"]
    by (simp add: word_le_nat_alt)
  have left: "of_nat (4 + ?l) - PacketHeader_GetSerializedSize h = (of_nat ?l :: u32)"
    by (simp add: PacketHeader_GetSerializedSize_def size_defs)
  show ?thesis
    using ReadMessages_Serialize [of ms "[]"] b ge
    by (simp only: ReadPacket_def rm bindR.simps case_prod_conv u left)
      (simp add: PacketHeader_GetSerializedSize_def size_defs)
qed

text \<open>A HELLO whose link message announces size 0 makes the receiver read past its buffer.\<close>

lemma Hello_links_zero_size:
  assumes "4 \<le> left" "left \<noteq> 0"
  shows "Hello_links left (WriteU8 code @ WriteU8 0 @ WriteHtonU16 0 @ i) = Inl Buffer_overrun"
  using assms by (subst Hello_links.simps) (simp add: codec_simps ReadAddressesDown_negative)


section \<open>Properties\<close>

text \<open>
  The mantissa/exponent coding is exact on its own range: every byte, decoded to seconds and
  encoded again, gives the same byte.
\<close>

theorem emf_roundtrip: "SecondsToEmf (EmfToSeconds x) = Inr x"
  by (rule SecondsToEmf_EmfToSeconds)

text \<open>
  A validity or emission time between 1/16 s and 3968 s is encoded without a failing assertion,
  and the receiver decodes it with a relative error of at most 1/32.
\<close>

theorem emf_error_bound:
  assumes "1 / 16 \<le> s" "s \<le> 3968"
  shows "\<exists>e. SecondsToEmf s = Inr e \<and> \<bar>EmfToSeconds e - s\<bar> \<le> s / 32"
  using assms by (rule SecondsToEmf_error)

theorem emf_error_bound_witness:
  "\<exists>e. SecondsToEmf 15 = Inr e \<and> \<bar>EmfToSeconds e - 15\<bar> \<le> 15 / 32"
  using emf_error_bound [of 15] by simp

text \<open>
  C23: what one node sends is what the other receives: a packet header followed by any list of
  messages, whose length field is the number of bytes, is taken apart by the receive loop of
  \<open>RecvOlsr\<close> into the same header and the same messages (their size field filled in), whatever
  the types and contents of the bodies.
\<close>

theorem packet_roundtrip:
  assumes "m_packetLength h = of_nat (4 + length (concat (map Serialize ms)))"
    and "4 + length (concat (map Serialize ms)) < 65536"
  shows "ReadPacket (PacketHeader_Serialize h @ concat (map Serialize ms)) = Inr (h, map with_size ms)"
  using assms by (rule ReadPacket_Serialize)

definition example_tc :: MessageHeader where
  "example_tc = \<lparr>m_vTime = 0x86, m_originatorAddress = 0x0A000001, m_timeToLive = 255,
     m_hopCount = 0, m_messageSequenceNumber = 7, m_messageSize = 0,
     m_message = TC_MESSAGE \<lparr>neighborAddresses = [0x0A000002, 0x0A000003], tc_ansn = 9\<rparr>\<rparr>"

definition example_hello :: MessageHeader where
  "example_hello = \<lparr>m_vTime = 0x86, m_originatorAddress = 0x0A000001, m_timeToLive = 1,
     m_hopCount = 0, m_messageSequenceNumber = 8, m_messageSize = 0,
     m_message = HELLO_MESSAGE \<lparr>hTime = 5, h_willingness = 3,
       linkMessages = [\<lparr>linkCode = 6, neighborInterfaceAddresses = [0x0A000002]\<rparr>]\<rparr>\<rparr>"

theorem packet_roundtrip_witness:
  "ReadPacket (PacketHeader_Serialize \<lparr>m_packetLength = 52, m_packetSequenceNumber = 1\<rparr> @
     concat (map Serialize [example_tc, example_hello])) =
   Inr (\<lparr>m_packetLength = 52, m_packetSequenceNumber = 1\<rparr>, map with_size [example_tc, example_hello])"
proof -
  have len: "length (concat (map Serialize [example_tc, example_hello])) = 48" by code_simp
  show ?thesis
    by (rule packet_roundtrip) (simp_all only: len, simp_all)
qed

text \<open>
  A HELLO link message that announces size 0 is not rejected: the address loop counts down
  from -1 and never meets 0, so that the receiver reads past the end of its buffer, whatever
  follows in the packet.
\<close>

theorem hello_zero_link_size_overruns:
  assumes "4 \<le> left" "left \<noteq> 0"
  shows "Hello_links left (WriteU8 code @ WriteU8 0 @ WriteHtonU16 0 @ i) = Inl Buffer_overrun"
  using assms by (rule Hello_links_zero_size)

theorem hello_zero_link_size_overruns_witness:
  "Hello_links 8 (WriteU8 6 @ WriteU8 0 @ WriteHtonU16 0 @ [10, 0, 0, 1]) = Inl Buffer_overrun"
  by (rule hello_zero_link_size_overruns) simp_all

end
