(* ===== verification/Olsr_State.thy ===== *)
theory Olsr_State
  imports Repositories
begin

text \<open>
  The information repositories of one node (src/olsr/model/olsr-state.h and olsr-state.cc):
  the record \<open>olsr_state\<close> has one field per member of class \<open>OlsrState\<close>, and every method is a
  function of the same name. A \<open>Find\<close> method returns the tuple its pointer would point to;
  a write through such a pointer is a function \<open>Set...\<close> on the first tuple with that key.

  The locale \<open>tuple_repo\<close> states what the message handlers rely on in every set that is
  keyed by addresses: look-ups return tuples with the requested key, insertion appends, erasure
  removes. It is interpreted on the seven keyed sets at the end of the theory.
\<close>

record olsr_state =
  m_linkSet :: "link_tuple list"
  m_neighborSet :: "neighbor_tuple list"
  m_twoHopNeighborSet :: "two_hop_tuple list"
  m_topologySet :: "topology_tuple list"
  m_mprSet :: "ipv4 std_set"
  m_mprSelectorSet :: "mpr_selector_tuple list"
  m_duplicateSet :: "duplicate_tuple list"
  m_ifaceAssocSet :: "iface_assoc_tuple list"
  m_associationSet :: "association_tuple list"
  m_associations :: "association list"

definition OlsrState_init :: olsr_state where
  "OlsrState_init = \<lparr>m_linkSet = [], m_neighborSet = [], m_twoHopNeighborSet = [],
     m_topologySet = [], m_mprSet = [], m_mprSelectorSet = [], m_duplicateSet = [],
     m_ifaceAssocSet = [], m_associationSet = [], m_associations = []\<rparr>"

section \<open>MPR selector set\<close>

definition FindMprSelectorTuple :: "ipv4 \<Rightarrow> olsr_state \<Rightarrow> mpr_selector_tuple option" where
  "FindMprSelectorTuple mainAddr s =
     find_first (\<lambda>it. ms_mainAddr it = mainAddr) (m_mprSelectorSet s)"

definition SetMprSelectorTuple ::
    "ipv4 \<Rightarrow> (mpr_selector_tuple \<Rightarrow> mpr_selector_tuple) \<Rightarrow> olsr_state \<Rightarrow> olsr_state" where
  "SetMprSelectorTuple mainAddr f s = s\<lparr>m_mprSelectorSet :=
     update_first (\<lambda>it. ms_mainAddr it = mainAddr) f (m_mprSelectorSet s)\<rparr>"

definition EraseMprSelectorTuple :: "mpr_selector_tuple \<Rightarrow> olsr_state \<Rightarrow> olsr_state" where
  "EraseMprSelectorTuple t s = s\<lparr>m_mprSelectorSet :=
     erase_first (\<lambda>it. eq_MprSelectorTuple it t) (m_mprSelectorSet s)\<rparr>"

definition EraseMprSelectorTuples :: "ipv4 \<Rightarrow> olsr_state \<Rightarrow> olsr_state" where
  "EraseMprSelectorTuples mainAddr s = s\<lparr>m_mprSelectorSet :=
     erase_all (\<lambda>it. ms_mainAddr it = mainAddr) (m_mprSelectorSet s)\<rparr>"

definition InsertMprSelectorTuple :: "mpr_selector_tuple \<Rightarrow> olsr_state \<Rightarrow> olsr_state" where
  "InsertMprSelectorTuple t s = s\<lparr>m_mprSelectorSet := m_mprSelectorSet s @ [t]\<rparr>"

section \<open>Neighbor set\<close>

definition FindNeighborTuple :: "ipv4 \<Rightarrow> olsr_state \<Rightarrow> neighbor_tuple option" where
  "FindNeighborTuple mainAddr s =
     find_first (\<lambda>it. nt_neighborMainAddr it = mainAddr) (m_neighborSet s)"

definition SetNeighborTuple ::
    "ipv4 \<Rightarrow> (neighbor_tuple \<Rightarrow> neighbor_tuple) \<Rightarrow> olsr_state \<Rightarrow> olsr_state" where
  "SetNeighborTuple mainAddr f s = s\<lparr>m_neighborSet :=
     update_first (\<lambda>it. nt_neighborMainAddr it = mainAddr) f (m_neighborSet s)\<rparr>"

definition FindSymNeighborTuple :: "ipv4 \<Rightarrow> olsr_state \<Rightarrow> neighbor_tuple option" where
  "FindSymNeighborTuple mainAddr s =
     find_first (\<lambda>it. nt_neighborMainAddr it = mainAddr \<and> nt_status it = STATUS_SYM)
       (m_neighborSet s)"

definition FindNeighborTupleW ::
    "ipv4 \<Rightarrow> willingness \<Rightarrow> olsr_state \<Rightarrow> neighbor_tuple option" where
  "FindNeighborTupleW mainAddr w s =
     find_first (\<lambda>it. nt_neighborMainAddr it = mainAddr \<and> nt_willingness it = w)
       (m_neighborSet s)"

definition EraseNeighborTuple :: "neighbor_tuple \<Rightarrow> olsr_state \<Rightarrow> olsr_state" where
  "EraseNeighborTuple t s = s\<lparr>m_neighborSet :=
     erase_first (\<lambda>it. eq_NeighborTuple it t) (m_neighborSet s)\<rparr>"

definition EraseNeighborTupleAddr :: "ipv4 \<Rightarrow> olsr_state \<Rightarrow> olsr_state" where
  "EraseNeighborTupleAddr mainAddr s = s\<lparr>m_neighborSet :=
     erase_first (\<lambda>it. nt_neighborMainAddr it = mainAddr) (m_neighborSet s)\<rparr>"

fun insert_neighbor :: "neighbor_tuple \<Rightarrow> neighbor_tuple list \<Rightarrow> neighbor_tuple list" where
  "insert_neighbor t [] = [t]"
| "insert_neighbor t (it # xs) =
     (if nt_neighborMainAddr it = nt_neighborMainAddr t then t # xs
      else it # insert_neighbor t xs)"

definition InsertNeighborTuple :: "neighbor_tuple \<Rightarrow> olsr_state \<Rightarrow> olsr_state" where
  "InsertNeighborTuple t s = s\<lparr>m_neighborSet := insert_neighbor t (m_neighborSet s)\<rparr>"

section \<open>2-hop neighbor set\<close>

definition FindTwoHopNeighborTuple :: "ipv4 \<Rightarrow> ipv4 \<Rightarrow> olsr_state \<Rightarrow> two_hop_tuple option" where
  "FindTwoHopNeighborTuple neighborMainAddr twoHopNeighborAddr s =
     find_first (\<lambda>it. th_neighborMainAddr it = neighborMainAddr \<and>
                      th_twoHopNeighborAddr it = twoHopNeighborAddr) (m_twoHopNeighborSet s)"

definition SetTwoHopNeighborTuple ::
    "ipv4 \<Rightarrow> ipv4 \<Rightarrow> (two_hop_tuple \<Rightarrow> two_hop_tuple) \<Rightarrow> olsr_state \<Rightarrow> olsr_state" where
  "SetTwoHopNeighborTuple neighborMainAddr twoHopNeighborAddr f s = s\<lparr>m_twoHopNeighborSet :=
     update_first (\<lambda>it. th_neighborMainAddr it = neighborMainAddr \<and>
                        th_twoHopNeighborAddr it = twoHopNeighborAddr) f
       (m_twoHopNeighborSet s)\<rparr>"

definition EraseTwoHopNeighborTuple :: "two_hop_tuple \<Rightarrow> olsr_state \<Rightarrow> olsr_state" where
  "EraseTwoHopNeighborTuple t s = s\<lparr>m_twoHopNeighborSet :=
     erase_first (\<lambda>it. eq_TwoHopNeighborTuple it t) (m_twoHopNeighborSet s)\<rparr>"

definition EraseTwoHopNeighborTuples2 :: "ipv4 \<Rightarrow> ipv4 \<Rightarrow> olsr_state \<Rightarrow> olsr_state" where
  "EraseTwoHopNeighborTuples2 neighborMainAddr twoHopNeighborAddr s = s\<lparr>m_twoHopNeighborSet :=
     erase_all (\<lambda>it. th_neighborMainAddr it = neighborMainAddr \<and>
                     th_twoHopNeighborAddr it = twoHopNeighborAddr) (m_twoHopNeighborSet s)\<rparr>"

definition EraseTwoHopNeighborTuples :: "ipv4 \<Rightarrow> olsr_state \<Rightarrow> olsr_state" where
  "EraseTwoHopNeighborTuples neighborMainAddr s = s\<lparr>m_twoHopNeighborSet :=
     erase_all (\<lambda>it. th_neighborMainAddr it = neighborMainAddr) (m_twoHopNeighborSet s)\<rparr>"

definition InsertTwoHopNeighborTuple :: "two_hop_tuple \<Rightarrow> olsr_state \<Rightarrow> olsr_state" where
  "InsertTwoHopNeighborTuple t s = s\<lparr>m_twoHopNeighborSet := m_twoHopNeighborSet s @ [t]\<rparr>"

section \<open>MPR set\<close>

definition FindMprAddress :: "ipv4 \<Rightarrow> olsr_state \<Rightarrow> bool" where
  "FindMprAddress addr s \<longleftrightarrow> set_count (m_mprSet s) addr"

definition SetMprSet :: "ipv4 std_set \<Rightarrow> olsr_state \<Rightarrow> olsr_state" where
  "SetMprSet mprSet s = s\<lparr>m_mprSet := mprSet\<rparr>"

section \<open>Duplicate set\<close>

definition FindDuplicateTuple :: "ipv4 \<Rightarrow> u16 \<Rightarrow> olsr_state \<Rightarrow> duplicate_tuple option" where
  "FindDuplicateTuple addr sequenceNumber s =
     find_first (\<lambda>it. dt_address it = addr \<and> dt_sequenceNumber it = sequenceNumber)
       (m_duplicateSet s)"

definition SetDuplicateTuple ::
    "ipv4 \<Rightarrow> u16 \<Rightarrow> (duplicate_tuple \<Rightarrow> duplicate_tuple) \<Rightarrow> olsr_state \<Rightarrow> olsr_state" where
  "SetDuplicateTuple addr sequenceNumber f s = s\<lparr>m_duplicateSet :=
     update_first (\<lambda>it. dt_address it = addr \<and> dt_sequenceNumber it = sequenceNumber) f
       (m_duplicateSet s)\<rparr>"

definition EraseDuplicateTuple :: "duplicate_tuple \<Rightarrow> olsr_state \<Rightarrow> olsr_state" where
  "EraseDuplicateTuple t s = s\<lparr>m_duplicateSet :=
     erase_first (\<lambda>it. eq_DuplicateTuple it t) (m_duplicateSet s)\<rparr>"

definition InsertDuplicateTuple :: "duplicate_tuple \<Rightarrow> olsr_state \<Rightarrow> olsr_state" where
  "InsertDuplicateTuple t s = s\<lparr>m_duplicateSet := m_duplicateSet s @ [t]\<rparr>"

section \<open>Link set\<close>

definition FindLinkTuple :: "ipv4 \<Rightarrow> olsr_state \<Rightarrow> link_tuple option" where
  "FindLinkTuple ifaceAddr s =
     find_first (\<lambda>it. lt_neighborIfaceAddr it = ifaceAddr) (m_linkSet s)"

definition SetLinkTuple ::
    "ipv4 \<Rightarrow> (link_tuple \<Rightarrow> link_tuple) \<Rightarrow> olsr_state \<Rightarrow> olsr_state" where
  "SetLinkTuple ifaceAddr f s = s\<lparr>m_linkSet :=
     update_first (\<lambda>it. lt_neighborIfaceAddr it = ifaceAddr) f (m_linkSet s)\<rparr>"

text \<open>The loop stops at the first link with that interface, symmetric or not.\<close>

fun find_sym_link :: "ipv4 \<Rightarrow> time \<Rightarrow> link_tuple list \<Rightarrow> link_tuple option" where
  "find_sym_link ifaceAddr now [] = None"
| "find_sym_link ifaceAddr now (it # xs) =
     (if lt_neighborIfaceAddr it = ifaceAddr
      then (if lt_symTime it > now then Some it else None)
      else find_sym_link ifaceAddr now xs)"

definition FindSymLinkTuple :: "ipv4 \<Rightarrow> time \<Rightarrow> olsr_state \<Rightarrow> link_tuple option" where
  "FindSymLinkTuple ifaceAddr now s = find_sym_link ifaceAddr now (m_linkSet s)"

definition EraseLinkTuple :: "link_tuple \<Rightarrow> olsr_state \<Rightarrow> olsr_state" where
  "EraseLinkTuple t s = s\<lparr>m_linkSet := erase_first (\<lambda>it. eq_LinkTuple it t) (m_linkSet s)\<rparr>"

definition InsertLinkTuple :: "link_tuple \<Rightarrow> olsr_state \<Rightarrow> olsr_state" where
  "InsertLinkTuple t s = s\<lparr>m_linkSet := m_linkSet s @ [t]\<rparr>"

section \<open>Topology set\<close>

definition FindTopologyTuple :: "ipv4 \<Rightarrow> ipv4 \<Rightarrow> olsr_state \<Rightarrow> topology_tuple option" where
  "FindTopologyTuple destAddr lastAddr s =
     find_first (\<lambda>it. tt_destAddr it = destAddr \<and> tt_lastAddr it = lastAddr) (m_topologySet s)"

definition SetTopologyTuple ::
    "ipv4 \<Rightarrow> ipv4 \<Rightarrow> (topology_tuple \<Rightarrow> topology_tuple) \<Rightarrow> olsr_state \<Rightarrow> olsr_state" where
  "SetTopologyTuple destAddr lastAddr f s = s\<lparr>m_topologySet :=
     update_first (\<lambda>it. tt_destAddr it = destAddr \<and> tt_lastAddr it = lastAddr) f
       (m_topologySet s)\<rparr>"

definition FindNewerTopologyTuple :: "ipv4 \<Rightarrow> u16 \<Rightarrow> olsr_state \<Rightarrow> topology_tuple option" where
  "FindNewerTopologyTuple lastAddr ansn s =
     find_first (\<lambda>it. tt_lastAddr it = lastAddr \<and> tt_sequenceNumber it > ansn)
       (m_topologySet s)"

definition EraseTopologyTuple :: "topology_tuple \<Rightarrow> olsr_state \<Rightarrow> olsr_state" where
  "EraseTopologyTuple t s = s\<lparr>m_topologySet :=
     erase_first (\<lambda>it. eq_TopologyTuple it t) (m_topologySet s)\<rparr>"

definition EraseOlderTopologyTuples :: "ipv4 \<Rightarrow> u16 \<Rightarrow> olsr_state \<Rightarrow> olsr_state" where
  "EraseOlderTopologyTuples lastAddr ansn s = s\<lparr>m_topologySet :=
     erase_all (\<lambda>it. tt_lastAddr it = lastAddr \<and> tt_sequenceNumber it < ansn)
       (m_topologySet s)\<rparr>"

definition InsertTopologyTuple :: "topology_tuple \<Rightarrow> olsr_state \<Rightarrow> olsr_state" where
  "InsertTopologyTuple t s = s\<lparr>m_topologySet := m_topologySet s @ [t]\<rparr>"

section \<open>Interface association set\<close>

definition FindIfaceAssocTuple :: "ipv4 \<Rightarrow> olsr_state \<Rightarrow> iface_assoc_tuple option" where
  "FindIfaceAssocTuple ifaceAddr s =
     find_first (\<lambda>it. ia_ifaceAddr it = ifaceAddr) (m_ifaceAssocSet s)"

definition EraseIfaceAssocTuple :: "iface_assoc_tuple \<Rightarrow> olsr_state \<Rightarrow> olsr_state" where
  "EraseIfaceAssocTuple t s = s\<lparr>m_ifaceAssocSet :=
     erase_first (\<lambda>it. eq_IfaceAssocTuple it t) (m_ifaceAssocSet s)\<rparr>"

definition InsertIfaceAssocTuple :: "iface_assoc_tuple \<Rightarrow> olsr_state \<Rightarrow> olsr_state" where
  "InsertIfaceAssocTuple t s = s\<lparr>m_ifaceAssocSet := m_ifaceAssocSet s @ [t]\<rparr>"

fun find_neighbor_interfaces :: "ipv4 \<Rightarrow> iface_assoc_tuple list \<Rightarrow> ipv4 list" where
  "find_neighbor_interfaces mainAddr [] = []"
| "find_neighbor_interfaces mainAddr (it # xs) =
     (if ia_mainAddr it = mainAddr then ia_ifaceAddr it # find_neighbor_interfaces mainAddr xs
      else find_neighbor_interfaces mainAddr xs)"

definition FindNeighborInterfaces :: "ipv4 \<Rightarrow> olsr_state \<Rightarrow> ipv4 list" where
  "FindNeighborInterfaces neighborMainAddr s =
     find_neighbor_interfaces neighborMainAddr (m_ifaceAssocSet s)"

section \<open>Host and network associations\<close>

definition FindAssociationTuple ::
    "ipv4 \<Rightarrow> ipv4 \<Rightarrow> ipv4 \<Rightarrow> olsr_state \<Rightarrow> association_tuple option" where
  "FindAssociationTuple gatewayAddr networkAddr netmask s =
     find_first (\<lambda>it. at_gatewayAddr it = gatewayAddr \<and> at_networkAddr it = networkAddr \<and>
                      at_netmask it = netmask) (m_associationSet s)"

definition SetAssociationTuple ::
    "ipv4 \<Rightarrow> ipv4 \<Rightarrow> ipv4 \<Rightarrow> (association_tuple \<Rightarrow> association_tuple) \<Rightarrow>
       olsr_state \<Rightarrow> olsr_state" where
  "SetAssociationTuple gatewayAddr networkAddr netmask f s = s\<lparr>m_associationSet :=
     update_first (\<lambda>it. at_gatewayAddr it = gatewayAddr \<and> at_networkAddr it = networkAddr \<and>
                        at_netmask it = netmask) f (m_associationSet s)\<rparr>"

definition EraseAssociationTuple :: "association_tuple \<Rightarrow> olsr_state \<Rightarrow> olsr_state" where
  "EraseAssociationTuple t s = s\<lparr>m_associationSet :=
     erase_first (\<lambda>it. eq_AssociationTuple it t) (m_associationSet s)\<rparr>"

definition InsertAssociationTuple :: "association_tuple \<Rightarrow> olsr_state \<Rightarrow> olsr_state" where
  "InsertAssociationTuple t s = s\<lparr>m_associationSet := m_associationSet s @ [t]\<rparr>"

definition EraseAssociation :: "association \<Rightarrow> olsr_state \<Rightarrow> olsr_state" where
  "EraseAssociation t s = s\<lparr>m_associations :=
     erase_first (\<lambda>it. eq_Association it t) (m_associations s)\<rparr>"

definition InsertAssociation :: "association \<Rightarrow> olsr_state \<Rightarrow> olsr_state" where
  "InsertAssociation t s = s\<lparr>m_associations := m_associations s @ [t]\<rparr>"

section \<open>The contract of a keyed repository\<close>

lemma filter_key_absent: "k \<notin> key ` set xs \<Longrightarrow> filter (\<lambda>x. key x \<noteq> k) xs = xs"
  by (auto simp: filter_id_conv)

lemma erase_first_filter:
  "distinct (map key xs) \<Longrightarrow> t \<in> set xs \<Longrightarrow> P t \<Longrightarrow> (\<And>x. P x \<Longrightarrow> key x = k) \<Longrightarrow>
    erase_first P xs = filter (\<lambda>x. key x \<noteq> k) xs"
proof (induction xs)
  case (Cons x xs)
  show ?case
  proof (cases "P x")
    case True
    then have "key x = k" using Cons.prems(4) by simp
    then show ?thesis using True Cons.prems(1) by (simp add: filter_key_absent)
  next
    case False
    then have "t \<in> set xs" using Cons.prems(2,3) by auto
    then have "k \<in> key ` set xs" using Cons.prems(3,4) by force
    then have "key x \<noteq> k" using Cons.prems(1) by auto
    then show ?thesis using False Cons \<open>t \<in> set xs\<close> by simp
  qed
qed simp

locale tuple_repo =
  fixes tuples :: "'s \<Rightarrow> 't list"
    and key :: "'t \<Rightarrow> 'k"
    and find :: "'k \<Rightarrow> 's \<Rightarrow> 't option"
    and insert :: "'t \<Rightarrow> 's \<Rightarrow> 's"
    and erase :: "'t \<Rightarrow> 's \<Rightarrow> 's"
  assumes find_present: "find k s = Some t \<Longrightarrow> t \<in> set (tuples s) \<and> key t = k"
    and find_absent: "find k s = None \<longleftrightarrow> k \<notin> key ` set (tuples s)"
    and insert_appends: "tuples (insert t s) = tuples s @ [t]"
    and erase_present: "t \<in> set (tuples s) \<Longrightarrow> distinct (map key (tuples s)) \<Longrightarrow>
      tuples (erase t s) = filter (\<lambda>t'. key t' \<noteq> key t) (tuples s)"
begin

lemma find_unique:
  assumes "distinct (map key (tuples s))" and "t \<in> set (tuples s)"
  shows "find (key t) s = Some t"
proof -
  from assms(2) have "find (key t) s \<noteq> None" by (auto simp: find_absent)
  then obtain t' where "find (key t) s = Some t'" by auto
  moreover from this have "t' \<in> set (tuples s)" "key t' = key t" by (auto dest: find_present)
  ultimately show ?thesis using assms by (auto simp: distinct_map dest: inj_onD)
qed

lemma unique_insert:
  "distinct (map key (tuples s)) \<Longrightarrow> find (key t) s = None \<Longrightarrow>
    distinct (map key (tuples (insert t s)))"
  by (auto simp: insert_appends find_absent)

lemma unique_erase:
  "distinct (map key (tuples s)) \<Longrightarrow> t \<in> set (tuples s) \<Longrightarrow>
    distinct (map key (tuples (erase t s)))"
  by (simp add: erase_present distinct_map_filter)

lemma find_insert_same:
  assumes "find (key t) s = None"
  shows "find (key t) (insert t s) = Some t"
proof -
  have "find (key t) (insert t s) \<noteq> None" by (auto simp: find_absent insert_appends)
  then obtain t' where t': "find (key t) (insert t s) = Some t'" by auto
  then have "t' \<in> set (tuples s) \<or> t' = t" "key t' = key t"
    by (auto dest: find_present simp: insert_appends)
  moreover have "key t \<notin> key ` set (tuples s)" using assms by (simp add: find_absent)
  ultimately have "t' = t" by (auto simp: image_iff)
  then show ?thesis using t' by simp
qed

lemma find_insert_other:
  assumes "distinct (map key (tuples s))" "find (key t) s = None" "key t \<noteq> k"
  shows "find k (insert t s) = find k s"
proof (cases "find k s")
  case None
  then have "find k (insert t s) = None"
    using assms(3) by (auto simp: find_absent insert_appends)
  then show ?thesis using None by simp
next
  case (Some t')
  then have "t' \<in> set (tuples (insert t s))" "key t' = k"
    by (auto dest: find_present simp: insert_appends)
  then show ?thesis using Some find_unique [OF unique_insert [OF assms(1,2)]] by auto
qed

lemma find_erase_same:
  "distinct (map key (tuples s)) \<Longrightarrow> t \<in> set (tuples s) \<Longrightarrow> find (key t) (erase t s) = None"
  by (auto simp: find_absent erase_present)

lemma find_erase_other:
  assumes "distinct (map key (tuples s))" "t \<in> set (tuples s)" "key t \<noteq> k"
  shows "find k (erase t s) = find k s"
proof (cases "find k s")
  case None
  then have "find k (erase t s) = None"
    using assms by (auto simp: find_absent erase_present)
  then show ?thesis using None by simp
next
  case (Some t')
  then have "t' \<in> set (tuples (erase t s))" "key t' = k"
    using assms by (auto dest: find_present simp: erase_present)
  then show ?thesis using Some find_unique [OF unique_erase [OF assms(1,2)]] by auto
qed

end

text \<open>Every keyed set of the node keeps the contract.\<close>

lemmas mpr_selector_defs = FindMprSelectorTuple_def SetMprSelectorTuple_def
  EraseMprSelectorTuple_def EraseMprSelectorTuples_def InsertMprSelectorTuple_def
lemmas neighbor_defs = FindNeighborTuple_def SetNeighborTuple_def FindSymNeighborTuple_def
  EraseNeighborTuple_def EraseNeighborTupleAddr_def InsertNeighborTuple_def
lemmas two_hop_defs = FindTwoHopNeighborTuple_def SetTwoHopNeighborTuple_def
  EraseTwoHopNeighborTuple_def EraseTwoHopNeighborTuples2_def EraseTwoHopNeighborTuples_def
  InsertTwoHopNeighborTuple_def
lemmas duplicate_defs = FindDuplicateTuple_def SetDuplicateTuple_def EraseDuplicateTuple_def
  InsertDuplicateTuple_def
lemmas link_defs = FindLinkTuple_def SetLinkTuple_def EraseLinkTuple_def InsertLinkTuple_def
lemmas topology_defs = FindTopologyTuple_def SetTopologyTuple_def FindNewerTopologyTuple_def
  EraseTopologyTuple_def EraseOlderTopologyTuples_def InsertTopologyTuple_def
lemmas iface_assoc_defs = FindIfaceAssocTuple_def EraseIfaceAssocTuple_def
  InsertIfaceAssocTuple_def
lemmas association_defs = FindAssociationTuple_def SetAssociationTuple_def
  EraseAssociationTuple_def InsertAssociationTuple_def EraseAssociation_def InsertAssociation_def

text \<open>A vector searched by key and erased by \<open>operator==\<close> keeps the contract.\<close>

lemma tuple_repo_vector:
  assumes "\<And>k s. look k s = find_first (\<lambda>t. key t = k) (tuples s)"
    and "\<And>t s. tuples (ins t s) = tuples s @ [t]"
    and "\<And>t s. tuples (erase t s) = erase_first (eq t) (tuples s)"
    and "\<And>t. eq t t" and "\<And>t t'. eq t t' \<Longrightarrow> key t' = key t"
  shows "tuple_repo tuples key look ins erase"
proof (unfold_locales, goal_cases)
  case (1 k s t)
  then show ?case by (auto simp: assms(1) dest: find_first_SomeD)
next
  case (2 k s)
  then show ?case by (auto simp: assms(1))
next
  case (3 t s)
  then show ?case by (rule assms(2))
next
  case (4 t s)
  then show ?case
    unfolding assms(3) by (intro erase_first_filter [of key _ t]) (auto intro: assms(4,5))
qed

interpretation mprsel: tuple_repo m_mprSelectorSet ms_mainAddr FindMprSelectorTuple
  InsertMprSelectorTuple EraseMprSelectorTuple
  by (rule tuple_repo_vector [where eq = "\<lambda>t it. eq_MprSelectorTuple it t"])
    (auto simp: mpr_selector_defs tuple_eq_defs)

interpretation twohop: tuple_repo m_twoHopNeighborSet
  "\<lambda>t. (th_neighborMainAddr t, th_twoHopNeighborAddr t)"
  "\<lambda>(n, h). FindTwoHopNeighborTuple n h" InsertTwoHopNeighborTuple EraseTwoHopNeighborTuple
  by (rule tuple_repo_vector [where eq = "\<lambda>t it. eq_TwoHopNeighborTuple it t"])
    (auto simp: two_hop_defs tuple_eq_defs)

interpretation dup: tuple_repo m_duplicateSet "\<lambda>t. (dt_address t, dt_sequenceNumber t)"
  "\<lambda>(a, q). FindDuplicateTuple a q" InsertDuplicateTuple EraseDuplicateTuple
  by (rule tuple_repo_vector [where eq = "\<lambda>t it. eq_DuplicateTuple it t"])
    (auto simp: duplicate_defs tuple_eq_defs)

interpretation link: tuple_repo m_linkSet lt_neighborIfaceAddr FindLinkTuple
  InsertLinkTuple EraseLinkTuple
  by (rule tuple_repo_vector [where eq = "\<lambda>t it. eq_LinkTuple it t"])
    (auto simp: link_defs tuple_eq_defs)

interpretation topo: tuple_repo m_topologySet "\<lambda>t. (tt_destAddr t, tt_lastAddr t)"
  "\<lambda>(d, l). FindTopologyTuple d l" InsertTopologyTuple EraseTopologyTuple
  by (rule tuple_repo_vector [where eq = "\<lambda>t it. eq_TopologyTuple it t"])
    (auto simp: topology_defs tuple_eq_defs)

interpretation ifassoc: tuple_repo m_ifaceAssocSet ia_ifaceAddr FindIfaceAssocTuple
  InsertIfaceAssocTuple EraseIfaceAssocTuple
  by (rule tuple_repo_vector [where eq = "\<lambda>t it. eq_IfaceAssocTuple it t"])
    (auto simp: iface_assoc_defs tuple_eq_defs)

interpretation hna: tuple_repo m_associationSet
  "\<lambda>t. (at_gatewayAddr t, at_networkAddr t, at_netmask t)"
  "\<lambda>(g, n, m). FindAssociationTuple g n m" InsertAssociationTuple EraseAssociationTuple
  by (rule tuple_repo_vector [where eq = "\<lambda>t it. eq_AssociationTuple it t"])
    (auto simp: association_defs tuple_eq_defs)

section \<open>The neighbor set is keyed by main address\<close>

lemma set_insert_neighbor:
  "distinct (map nt_neighborMainAddr xs) \<Longrightarrow>
    set (insert_neighbor t xs) =
      insert t {x \<in> set xs. nt_neighborMainAddr x \<noteq> nt_neighborMainAddr t}"
  by (induction xs) (auto simp: image_iff)

lemma keys_insert_neighbor:
  "nt_neighborMainAddr ` set (insert_neighbor t xs) =
    insert (nt_neighborMainAddr t) (nt_neighborMainAddr ` set xs)"
  by (induction xs) auto

lemma distinct_insert_neighbor:
  "distinct (map nt_neighborMainAddr xs) \<Longrightarrow>
    distinct (map nt_neighborMainAddr (insert_neighbor t xs))"
  by (induction xs) (auto simp: keys_insert_neighbor)

lemma find_insert_neighbor:
  "find_first (\<lambda>it. nt_neighborMainAddr it = a) (insert_neighbor t xs) =
    (if nt_neighborMainAddr t = a then Some t
     else find_first (\<lambda>it. nt_neighborMainAddr it = a) xs)"
  by (induction xs) auto

end
