(* ===== verification/Mpr.thy ===== *)
theory Mpr
  imports Olsr_State
begin

text \<open>
  MPR selection, \<open>RoutingProtocol::MprComputation\<close> with its helpers \<open>Degree\<close> and
  \<open>CoverTwoHopNeighbors\<close> in olsr-routing-protocol.cc: the candidate sets \<open>N\<close> and \<open>N2\<close>, the
  three selection steps and the backup relay that is added when every selected MPR is suspected.

  \<open>m_defenseStrategy\<close> appears as the parameter \<open>defense\<close>: \<open>None\<close> is the null pointer,
  \<open>Some IsMalicious\<close> the query of an attached strategy. The step-4 loop has no bound in the code,
  so it is a \<open>partial_function\<close>, for which not returning is the value \<open>None\<close>; \<open>MprSet_total\<close>
  shows that it always returns.
\<close>

section \<open>Candidate sets\<close>

definition Degree :: "olsr_state \<Rightarrow> neighbor_tuple \<Rightarrow> nat" where
  "Degree s tuple =
     fold (\<lambda>t degree.
         if th_neighborMainAddr t = nt_neighborMainAddr tuple \<and>
            FindNeighborTuple (th_neighborMainAddr t) s = None
         then degree + 1 else degree)
       (m_twoHopNeighborSet s) 0"

definition CoverTwoHopNeighbors :: "ipv4 \<Rightarrow> two_hop_tuple list \<Rightarrow> two_hop_tuple list" where
  "CoverTwoHopNeighbors neighborMainAddr N2 =
     (let toRemove = fold (\<lambda>t r. if th_neighborMainAddr t = neighborMainAddr
                                 then set_insert (th_twoHopNeighborAddr t) r else r) N2 []
      in erase_all (\<lambda>t. set_count toRemove (th_twoHopNeighborAddr t)) N2)"

definition mpr_N :: "olsr_state \<Rightarrow> neighbor_tuple list" where
  "mpr_N s = fold (\<lambda>neighbor N. if nt_status neighbor = STATUS_SYM then N @ [neighbor] else N)
               (m_neighborSet s) []"

text \<open>Whether one 2-hop tuple enters \<open>N2\<close>.\<close>

definition in_N2 :: "ipv4 \<Rightarrow> neighbor_tuple list \<Rightarrow> two_hop_tuple \<Rightarrow> bool" where
  "in_N2 mainAddress N t =
     (if th_twoHopNeighborAddr t = mainAddress then False
      else
        let ok = (case find_first (\<lambda>neigh. nt_neighborMainAddr neigh = th_neighborMainAddr t) N of
                    None \<Rightarrow> False | Some neigh \<Rightarrow> nt_willingness neigh \<noteq> WILL_NEVER)
        in if \<not> ok then False
           else case find_first (\<lambda>neigh. nt_neighborMainAddr neigh = th_twoHopNeighborAddr t) N of
                  None \<Rightarrow> True | Some _ \<Rightarrow> False)"

definition mpr_N2 :: "ipv4 \<Rightarrow> olsr_state \<Rightarrow> two_hop_tuple list" where
  "mpr_N2 mainAddress s =
     fold (\<lambda>t N2. if in_N2 mainAddress (mpr_N s) t then N2 @ [t] else N2) (m_twoHopNeighborSet s) []"

section \<open>Selection steps\<close>

text \<open>Step 1: every neighbor with willingness ALWAYS.\<close>

definition mpr_step1 :: "neighbor_tuple list \<Rightarrow> two_hop_tuple list \<Rightarrow> ipv4 std_set \<times> two_hop_tuple list" where
  "mpr_step1 N N2 =
     fold (\<lambda>neighbor (mprSet, N2).
         if nt_willingness neighbor = WILL_ALWAYS
         then (set_insert (nt_neighborMainAddr neighbor) mprSet,
               CoverTwoHopNeighbors (nt_neighborMainAddr neighbor) N2)
         else (mprSet, N2))
       N ([], N2)"

text \<open>Step 3: the neighbors that are the only ones to reach some node of \<open>N2\<close>.\<close>

definition onlyOne :: "two_hop_tuple list \<Rightarrow> two_hop_tuple \<Rightarrow> bool" where
  "onlyOne N2 t =
     (find_first (\<lambda>u. th_twoHopNeighborAddr u = th_twoHopNeighborAddr t \<and>
                       th_neighborMainAddr u \<noteq> th_neighborMainAddr t) N2 = None)"

definition mpr_step3 ::
  "ipv4 std_set \<times> two_hop_tuple list \<Rightarrow> ipv4 std_set \<times> two_hop_tuple list" where
  "mpr_step3 = (\<lambda>(mprSet, N2).
     let (mprSet, covered) =
           fold (\<lambda>t (mprSet, covered).
               if onlyOne N2 t
               then (set_insert (th_neighborMainAddr t) mprSet,
                     fold (\<lambda>u covered. if th_neighborMainAddr u = th_neighborMainAddr t
                                       then set_insert (th_twoHopNeighborAddr u) covered else covered)
                       N2 covered)
               else (mprSet, covered))
             N2 (mprSet, [])
     in (mprSet, erase_all (\<lambda>t. set_count covered (th_twoHopNeighborAddr t)) N2))"

text \<open>
  Step 4. \<open>rs\<close> is the ordered set of reachability values and \<open>reachability[r]\<close> the neighbors of
  value \<open>r\<close> in the order of \<open>N\<close>, so the candidates are visited by increasing reachability.
\<close>

definition reach :: "two_hop_tuple list \<Rightarrow> neighbor_tuple \<Rightarrow> nat" where
  "reach N2 nb = fold (\<lambda>t r. if nt_neighborMainAddr nb = th_neighborMainAddr t then r + 1 else r) N2 0"

definition candidates :: "neighbor_tuple list \<Rightarrow> two_hop_tuple list \<Rightarrow> (neighbor_tuple \<times> nat) list" where
  "candidates N N2 =
     (let rs = fold (\<lambda>nb rs. set_insert (reach N2 nb) rs) N []
      in concat (map (\<lambda>r. if r = 0 then []
                          else map (\<lambda>nb. (nb, r)) (filter (\<lambda>nb. reach N2 nb = r) N)) rs))"

fun better :: "olsr_state \<Rightarrow> neighbor_tuple \<times> nat \<Rightarrow> neighbor_tuple \<times> nat \<Rightarrow> bool" where
  "better s (nb, r) (mx, max_r) =
     (if nt_willingness nb > nt_willingness mx then True
      else if nt_willingness nb = nt_willingness mx
      then (if r > max_r then True
            else if r = max_r then Degree s nb > Degree s mx
            else False)
      else False)"

definition select_max ::
  "olsr_state \<Rightarrow> (neighbor_tuple \<times> nat) list \<Rightarrow> (neighbor_tuple \<times> nat) option" where
  "select_max s cs =
     fold (\<lambda>c m. case m of None \<Rightarrow> Some c | Some m' \<Rightarrow> if better s c m' then Some c else Some m')
       cs None"

partial_function (option) mpr_step4 ::
  "olsr_state \<Rightarrow> neighbor_tuple list \<Rightarrow> ipv4 std_set \<Rightarrow> two_hop_tuple list \<Rightarrow> ipv4 std_set option"
where
  [code]: "mpr_step4 s N mprSet N2 =
     (if N2 = [] then Some mprSet
      else case select_max s (candidates N N2) of
             None \<Rightarrow> mpr_step4 s N mprSet N2
           | Some (mx, _) \<Rightarrow>
               mpr_step4 s N (set_insert (nt_neighborMainAddr mx) mprSet)
                 (CoverTwoHopNeighbors (nt_neighborMainAddr mx) N2))"

text \<open>The backup relay when every MPR is suspected.\<close>

definition mpr_backup ::
  "(ipv4 \<Rightarrow> bool) option \<Rightarrow> olsr_state \<Rightarrow> ipv4 std_set \<Rightarrow> ipv4 std_set" where
  "mpr_backup defense s mprSet =
     (case defense of
        None \<Rightarrow> mprSet
      | Some IsMalicious \<Rightarrow>
          if mprSet = [] then mprSet
          else if find_first (\<lambda>a. \<not> IsMalicious a) mprSet = None
          then (case find_first (\<lambda>nb. nt_status nb = STATUS_SYM \<and>
                        \<not> IsMalicious (nt_neighborMainAddr nb) \<and> nt_willingness nb \<noteq> WILL_NEVER)
                      (m_neighborSet s) of
                  None \<Rightarrow> mprSet
                | Some nb \<Rightarrow> set_insert (nt_neighborMainAddr nb) mprSet)
          else mprSet)"

definition MprSet :: "(ipv4 \<Rightarrow> bool) option \<Rightarrow> ipv4 \<Rightarrow> olsr_state \<Rightarrow> ipv4 std_set option" where
  "MprSet defense mainAddress s =
     (let N = mpr_N s;
          (mprSet, N2) = mpr_step3 (mpr_step1 N (mpr_N2 mainAddress s))
      in map_option (mpr_backup defense s) (mpr_step4 s N mprSet N2))"


section \<open>What the loops compute\<close>

lemma mpr_N_filter: "mpr_N s = filter (\<lambda>nb. nt_status nb = STATUS_SYM) (m_neighborSet s)"
  by (simp add: mpr_N_def fold_collect)

lemma mpr_N2_filter:
  "mpr_N2 mainAddress s = filter (in_N2 mainAddress (mpr_N s)) (m_twoHopNeighborSet s)"
  by (simp add: mpr_N2_def fold_collect)

lemma Cover_filter:
  "CoverTwoHopNeighbors a N2 =
     filter (\<lambda>t. th_twoHopNeighborAddr t \<notin>
       th_twoHopNeighborAddr ` {u \<in> set N2. th_neighborMainAddr u = a}) N2"
  unfolding CoverTwoHopNeighbors_def Let_def erase_all_filter set_count_iff fold_set_insert_if by simp

lemma Cover_subset: "set (CoverTwoHopNeighbors a N2) \<subseteq> set N2"
  by (auto simp: Cover_filter)

lemma Cover_removed:
  "t \<in> set N2 \<Longrightarrow> t \<notin> set (CoverTwoHopNeighbors a N2) \<Longrightarrow>
    \<exists>u\<in>set N2. th_neighborMainAddr u = a \<and> th_twoHopNeighborAddr u = th_twoHopNeighborAddr t"
  by (auto simp: Cover_filter)

lemma Cover_shorter:
  assumes "t \<in> set N2" "th_neighborMainAddr t = a"
  shows "length (CoverTwoHopNeighbors a N2) < length N2"
  unfolding Cover_filter by (rule length_filter_less [OF assms(1)]) (use assms in auto)

lemma Degree_count:
  "Degree s nb = length (filter (\<lambda>t. th_neighborMainAddr t = nt_neighborMainAddr nb \<and>
       FindNeighborTuple (th_neighborMainAddr t) s = None) (m_twoHopNeighborSet s))"
proof -
  have "fold (\<lambda>t degree. if P t then degree + 1 else degree) xs n = n + length (filter P xs)"
    for P :: "two_hop_tuple \<Rightarrow> bool" and xs n
    by (induction xs arbitrary: n) auto
  then show ?thesis by (simp add: Degree_def)
qed

lemma reach_count:
  "reach N2 nb = length (filter (\<lambda>t. nt_neighborMainAddr nb = th_neighborMainAddr t) N2)"
proof -
  have "fold (\<lambda>t r. if P t then r + 1 else r) xs n = n + length (filter P xs)"
    for P :: "two_hop_tuple \<Rightarrow> bool" and xs n
    by (induction xs arbitrary: n) auto
  then show ?thesis by (simp add: reach_def)
qed

lemma reach_pos: "reach N2 nb > 0 \<longleftrightarrow> (\<exists>t\<in>set N2. th_neighborMainAddr t = nt_neighborMainAddr nb)"
  by (simp add: reach_count filter_empty_conv) metis

lemma set_candidates:
  "set (candidates N N2) = {(nb, r). nb \<in> set N \<and> r = reach N2 nb \<and> r > 0}"
  by (auto simp: candidates_def fold_set_insert split: if_splits)

lemma select_max_fold_Some:
  "\<exists>m'. fold (\<lambda>c m. case m of None \<Rightarrow> Some c | Some m' \<Rightarrow> if better s c m' then Some c else Some m')
     cs (Some m) = Some m'"
  by (induction cs arbitrary: m) auto

lemma select_max_None: "select_max s cs = None \<longleftrightarrow> cs = []"
proof (cases cs)
  case (Cons c cs')
  then show ?thesis using select_max_fold_Some [of s cs' c] by (auto simp: select_max_def)
qed (simp add: select_max_def)

text \<open>The selected candidate has the highest willingness and, among these, the highest reach.\<close>

fun rank :: "neighbor_tuple \<times> nat \<Rightarrow> nat \<times> nat" where
  "rank (nb, r) = (unat (nt_willingness nb), r)"

definition rank_le :: "nat \<times> nat \<Rightarrow> nat \<times> nat \<Rightarrow> bool" where
  "rank_le p q \<longleftrightarrow> fst p < fst q \<or> fst p = fst q \<and> snd p \<le> snd q"

lemma better_rank: "better s c m \<Longrightarrow> rank_le (rank m) (rank c)"
  by (cases c; cases m) (auto simp: rank_le_def word_less_nat_alt split: if_splits)

lemma not_better_rank: "\<not> better s c m \<Longrightarrow> rank_le (rank c) (rank m)"
  by (cases c; cases m)
    (auto simp: rank_le_def word_less_nat_alt word_unat_eq_iff split: if_splits)

lemma rank_le_trans: "rank_le p q \<Longrightarrow> rank_le q r \<Longrightarrow> rank_le p r"
  by (auto simp: rank_le_def)

lemma rank_le_refl: "rank_le p p"
  by (simp add: rank_le_def)

lemma select_max_fold:
  assumes "fold (\<lambda>c m. case m of None \<Rightarrow> Some c | Some m' \<Rightarrow> if better s c m' then Some c else Some m')
     cs (Some m0) = Some m"
  shows "m \<in> insert m0 (set cs) \<and> (\<forall>c\<in>insert m0 (set cs). rank_le (rank c) (rank m))"
  using assms
proof (induction cs arbitrary: m0)
  case Nil
  then show ?case by (simp add: rank_le_refl)
next
  case (Cons c cs)
  define m1 where "m1 = (if better s c m0 then c else m0)"
  have "fold (\<lambda>c m. case m of None \<Rightarrow> Some c | Some m' \<Rightarrow> if better s c m' then Some c else Some m')
     cs (Some m1) = Some m" using Cons.prems by (simp add: m1_def split: if_splits)
  note IH = Cons.IH [OF this]
  have m1: "m1 \<in> {c, m0}" "rank_le (rank c) (rank m1)" "rank_le (rank m0) (rank m1)"
    using better_rank not_better_rank by (auto simp: m1_def rank_le_refl)
  then show ?case using IH rank_le_trans [of _ "rank m1" "rank m"] by auto
qed

lemma select_max_best:
  assumes "select_max s cs = Some m"
  shows "m \<in> set cs \<and> (\<forall>c\<in>set cs. rank_le (rank c) (rank m))"
proof (cases cs)
  case (Cons c cs')
  then show ?thesis using assms select_max_fold [of s cs' c m] by (simp add: select_max_def)
qed (use assms in \<open>simp add: select_max_def\<close>)


section \<open>Correctness of the selection\<close>

text \<open>
  The invariant of all three steps: what has left the working copy \<open>M\<close> of \<open>N2\<close> is reached by a
  selected neighbor.
\<close>

definition covered_by :: "two_hop_tuple list \<Rightarrow> ipv4 set \<Rightarrow> two_hop_tuple \<Rightarrow> bool" where
  "covered_by N2 S t \<longleftrightarrow> (\<exists>u\<in>set N2. th_twoHopNeighborAddr u = th_twoHopNeighborAddr t \<and>
                                 th_neighborMainAddr u \<in> S)"

definition mpr_inv :: "two_hop_tuple list \<Rightarrow> ipv4 set \<Rightarrow> ipv4 std_set \<times> two_hop_tuple list \<Rightarrow> bool" where
  "mpr_inv N2 A = (\<lambda>(S, M). set M \<subseteq> set N2 \<and> set S \<subseteq> A \<and> wf_set S \<and>
     (\<forall>t\<in>set N2. t \<notin> set M \<longrightarrow> covered_by N2 (set S) t))"

lemma covered_by_mono: "covered_by N2 S t \<Longrightarrow> S \<subseteq> S' \<Longrightarrow> covered_by N2 S' t"
  by (auto simp: covered_by_def)

lemma mpr_inv_cover:
  assumes "mpr_inv N2 A (S, M)" "a \<in> A"
  shows "mpr_inv N2 A (set_insert a S, CoverTwoHopNeighbors a M)"
proof -
  have "covered_by N2 (insert a (set S)) t" if "t \<in> set N2" "t \<notin> set (CoverTwoHopNeighbors a M)" for t
  proof (cases "t \<in> set M")
    case True
    from Cover_removed [OF this that(2)] assms(1) show ?thesis
      by (auto simp: covered_by_def mpr_inv_def)
  next
    case False
    then have "covered_by N2 (set S) t" using assms(1) that(1) by (simp add: mpr_inv_def)
    then show ?thesis by (rule covered_by_mono) auto
  qed
  then show ?thesis using assms Cover_subset [of a M] by (auto simp: mpr_inv_def)
qed

lemma mpr_step1_inv:
  assumes "\<And>nb. nb \<in> set N \<Longrightarrow> nt_willingness nb = WILL_ALWAYS \<Longrightarrow> nt_neighborMainAddr nb \<in> A"
  shows "mpr_inv N2 A (mpr_step1 N N2)"
  unfolding mpr_step1_def
proof (rule fold_invariant_rule)
  show "mpr_inv N2 A ([], N2)" by (simp add: mpr_inv_def)
next
  fix nb p
  assume "nb \<in> set N" "mpr_inv N2 A p"
  then show "mpr_inv N2 A ((case p of (mprSet, N2) \<Rightarrow>
       if nt_willingness nb = WILL_ALWAYS
       then (set_insert (nt_neighborMainAddr nb) mprSet, CoverTwoHopNeighbors (nt_neighborMainAddr nb) N2)
       else (mprSet, N2)))"
    using mpr_inv_cover assms by (cases p) simp
qed

text \<open>One pass of the loop of step 3 over a suffix of \<open>N2\<close>.\<close>

lemma mpr_step3_loop:
  fixes M :: "two_hop_tuple list"
  assumes "set ts \<subseteq> set M" "wf_set S" "\<forall>a\<in>set C. \<exists>u\<in>set M. th_twoHopNeighborAddr u = a \<and> th_neighborMainAddr u \<in> set S"
    and "fold (\<lambda>t (mprSet, covered).
               if onlyOne M t
               then (set_insert (th_neighborMainAddr t) mprSet,
                     fold (\<lambda>u covered. if th_neighborMainAddr u = th_neighborMainAddr t
                                       then set_insert (th_twoHopNeighborAddr u) covered else covered)
                       M covered)
               else (mprSet, covered)) ts (S, C) = (S', C')"
  shows "set S \<subseteq> set S' \<and> set S' \<subseteq> set S \<union> th_neighborMainAddr ` set M \<and> wf_set S' \<and>
    (\<forall>a\<in>set C'. \<exists>u\<in>set M. th_twoHopNeighborAddr u = a \<and> th_neighborMainAddr u \<in> set S')"
  using assms
proof (induction ts arbitrary: S C)
  case Nil
  then show ?case by auto
next
  case (Cons t ts)
  show ?case
  proof (cases "onlyOne M t")
    case True
    let ?C = "fold (\<lambda>u covered. if th_neighborMainAddr u = th_neighborMainAddr t
                       then set_insert (th_twoHopNeighborAddr u) covered else covered) M C"
    have C: "\<forall>a\<in>set ?C. \<exists>u\<in>set M. th_twoHopNeighborAddr u = a \<and>
        th_neighborMainAddr u \<in> set (set_insert (th_neighborMainAddr t) S)"
      unfolding fold_set_insert_if using Cons.prems(3) by fastforce
    from Cons.IH [OF _ _ C] Cons.prems(1,2,4) True show ?thesis by auto
  next
    case False
    with Cons show ?thesis by simp
  qed
qed

lemma mpr_step3_inv:
  assumes "mpr_inv N2 A (S, M)" "\<And>t. t \<in> set N2 \<Longrightarrow> th_neighborMainAddr t \<in> A"
  shows "mpr_inv N2 A (mpr_step3 (S, M))"
proof -
  define loop where "loop = fold (\<lambda>t (mprSet, covered).
               if onlyOne M t
               then (set_insert (th_neighborMainAddr t) mprSet,
                     fold (\<lambda>u covered. if th_neighborMainAddr u = th_neighborMainAddr t
                                       then set_insert (th_twoHopNeighborAddr u) covered else covered)
                       M covered)
               else (mprSet, covered)) M (S, [])"
  obtain S' C' where l: "loop = (S', C')" by (cases loop)
  have wf: "wf_set S" using assms(1) by (simp add: mpr_inv_def)
  note L = mpr_step3_loop [of M M S "[]", OF subset_refl wf _ l [unfolded loop_def], simplified]
  have s3: "mpr_step3 (S, M) = (S', filter (\<lambda>t. th_twoHopNeighborAddr t \<notin> set C') M)"
    using l by (simp add: mpr_step3_def loop_def erase_all_filter)
  have "covered_by N2 (set S') t" if t: "t \<in> set N2" "t \<in> set M \<longrightarrow> th_twoHopNeighborAddr t \<in> set C'" for t
  proof (cases "t \<in> set M")
    case True
    then show ?thesis using t L assms(1) by (fastforce simp: covered_by_def mpr_inv_def)
  next
    case False
    then have "covered_by N2 (set S) t" using assms(1) t(1) by (simp add: mpr_inv_def)
    then show ?thesis using L by (blast intro: covered_by_mono)
  qed
  moreover have "set S' \<subseteq> A"
  proof -
    have "th_neighborMainAddr ` set M \<subseteq> A" using assms by (auto simp: mpr_inv_def)
    moreover have "set S \<subseteq> A" using assms(1) by (simp add: mpr_inv_def)
    ultimately show ?thesis using L by blast
  qed
  ultimately show ?thesis using L assms(1) by (auto simp: s3 mpr_inv_def)
qed

lemma mpr_step4_total:
  assumes "mpr_inv N2 A (S, M)" "\<And>t. t \<in> set N2 \<Longrightarrow> th_neighborMainAddr t \<in> A"
    and "\<And>t. t \<in> set N2 \<Longrightarrow> \<exists>nb\<in>set N. nt_neighborMainAddr nb = th_neighborMainAddr t"
  shows "\<exists>R. mpr_step4 s N S M = Some R \<and> mpr_inv N2 A (R, [])"
  using assms(1)
proof (induction "length M" arbitrary: S M rule: less_induct)
  case less
  show ?case
  proof (cases "M = []")
    case True
    then show ?thesis using less.prems by (auto simp: mpr_step4.simps)
  next
    case False
    then obtain t where t: "t \<in> set M" by (cases M) auto
    then have "t \<in> set N2" using less.prems by (auto simp: mpr_inv_def)
    from assms(3) [OF this] obtain nb where nb: "nb \<in> set N" "nt_neighborMainAddr nb = th_neighborMainAddr t"
      by auto
    then have "(nb, reach M nb) \<in> set (candidates N M)"
      using t reach_pos [of M nb] by (auto simp: set_candidates)
    then have "select_max s (candidates N M) \<noteq> None" by (auto simp: select_max_None)
    then obtain mx r where mx: "select_max s (candidates N M) = Some (mx, r)" by auto
    from select_max_best [OF this] have "mx \<in> set N" "reach M mx > 0"
      by (auto simp: set_candidates)
    then obtain u where u: "u \<in> set M" "th_neighborMainAddr u = nt_neighborMainAddr mx"
      by (auto simp: reach_pos)
    let ?a = "nt_neighborMainAddr mx"
    have "?a \<in> A" using u less.prems assms(2) [of u] by (auto simp: mpr_inv_def)
    from mpr_inv_cover [OF less.prems this] less.hyps [OF Cover_shorter [OF u]]
    show ?thesis using False mx by (subst mpr_step4.simps) simp
  qed
qed

lemma in_N2_neighbor:
  assumes "t \<in> set (mpr_N2 mainAddress s)"
  shows "\<exists>nb\<in>set (mpr_N s). nt_neighborMainAddr nb = th_neighborMainAddr t \<and>
    nt_willingness nb \<noteq> WILL_NEVER"
  using assms find_first_SomeD
  by (fastforce simp: mpr_N2_filter in_N2_def split: if_splits option.splits)

text \<open>The neighbors a node may select: symmetric, and willing to forward.\<close>

definition willing :: "olsr_state \<Rightarrow> ipv4 set" where
  "willing s = {nt_neighborMainAddr nb |nb. nb \<in> set (m_neighborSet s) \<and>
     nt_status nb = STATUS_SYM \<and> nt_willingness nb \<noteq> WILL_NEVER}"

lemma MprSet_inv:
  "\<exists>S. MprSet defense mainAddress s = Some (mpr_backup defense s S) \<and>
     mpr_inv (mpr_N2 mainAddress s) (willing s) (S, []) \<and> MprSet None mainAddress s = Some S"
proof -
  let ?N2 = "mpr_N2 mainAddress s"
  have N: "\<exists>nb\<in>set (mpr_N s). nt_neighborMainAddr nb = th_neighborMainAddr t" if "t \<in> set ?N2" for t
    using in_N2_neighbor [OF that] by blast
  have A: "th_neighborMainAddr t \<in> willing s" if "t \<in> set ?N2" for t
  proof -
    from in_N2_neighbor [OF that] obtain nb where "nb \<in> set (mpr_N s)"
      "th_neighborMainAddr t = nt_neighborMainAddr nb" "nt_willingness nb \<noteq> WILL_NEVER" by force
    then show ?thesis unfolding willing_def mpr_N_filter by auto
  qed
  have "mpr_inv ?N2 (willing s) (mpr_step1 (mpr_N s) ?N2)"
    by (rule mpr_step1_inv) (auto simp: willing_def mpr_N_filter willingness_defs)
  then have "mpr_inv ?N2 (willing s) (mpr_step3 (mpr_step1 (mpr_N s) ?N2))"
    using mpr_step3_inv [OF _ A] by (metis surj_pair)
  moreover obtain S M where sm: "mpr_step3 (mpr_step1 (mpr_N s) ?N2) = (S, M)" by fastforce
  ultimately have "mpr_inv ?N2 (willing s) (S, M)" by simp
  from mpr_step4_total [OF this A N] obtain R
    where R: "mpr_step4 s (mpr_N s) S M = Some R" "mpr_inv ?N2 (willing s) (R, [])" by blast
  then have "MprSet d mainAddress s = Some (mpr_backup d s R)" for d
    by (simp add: MprSet_def sm)
  then show ?thesis using R(2) by (auto simp: mpr_backup_def)
qed


lemma mpr_backup_superset: "set S \<subseteq> set (mpr_backup defense s S)"
  by (auto simp: mpr_backup_def split: option.splits)

lemma mpr_backup_willing:
  "set S \<subseteq> willing s \<Longrightarrow> set (mpr_backup defense s S) \<subseteq> willing s"
  by (auto simp: mpr_backup_def willing_def split: option.splits dest!: find_first_SomeD)

lemma mpr_backup_clean_kept: "a \<in> set S \<Longrightarrow> \<not> m a \<Longrightarrow> mpr_backup (Some m) s S = S"
  by (auto simp: mpr_backup_def)

lemma mpr_backup_finds:
  assumes "S \<noteq> []" "a \<in> willing s" "\<not> m a"
  shows "\<exists>b\<in>set (mpr_backup (Some m) s S). \<not> m b"
proof (cases "\<exists>b\<in>set S. \<not> m b")
  case True
  then show ?thesis using mpr_backup_superset by blast
next
  case False
  from assms obtain nb where nb: "nb \<in> set (m_neighborSet s)" "nt_status nb = STATUS_SYM \<and>
     \<not> m (nt_neighborMainAddr nb) \<and> nt_willingness nb \<noteq> WILL_NEVER"
    by (auto simp: willing_def)
  have "\<exists>x\<in>set (m_neighborSet s). nt_status x = STATUS_SYM \<and>
     \<not> m (nt_neighborMainAddr x) \<and> nt_willingness x \<noteq> WILL_NEVER" using nb by blast
  from find_first_exists [OF this] obtain x where
    x: "find_first (\<lambda>x. nt_status x = STATUS_SYM \<and> \<not> m (nt_neighborMainAddr x) \<and>
      nt_willingness x \<noteq> WILL_NEVER) (m_neighborSet s) = Some x" by blast
  moreover have "find_first (\<lambda>a. \<not> m a) S = None" using False by simp
  ultimately have "mpr_backup (Some m) s S = set_insert (nt_neighborMainAddr x) S"
    using assms(1) by (simp add: mpr_backup_def)
  then show ?thesis using find_first_SomeD [OF x] by auto
qed

lemma mpr_backup_adds_one: "\<exists>b. set (mpr_backup defense s S) \<subseteq> insert b (set S)"
  by (auto simp: mpr_backup_def split: option.splits)

lemma FindSym_mpr_N:
  "FindSymNeighborTuple a s = find_first (\<lambda>nb. nt_neighborMainAddr nb = a) (mpr_N s)"
proof -
  have "find_first (\<lambda>x. P x \<and> Q x) xs = find_first P (filter Q xs)" for P Q and xs :: "neighbor_tuple list"
    by (induction xs) auto
  then show ?thesis by (simp add: FindSymNeighborTuple_def mpr_N_filter)
qed

section \<open>Properties\<close>

text \<open>
  C1: MPR selection always returns (the unbounded step-4 loop ends), and every strict 2-hop
  neighbor is covered: a node that a willing symmetric neighbor announces, that is not the node
  itself and not a symmetric neighbor, is announced by some selected MPR.
\<close>

theorem mpr_covers_two_hop_neighbors:
  assumes "t \<in> set (m_twoHopNeighborSet s)" "th_twoHopNeighborAddr t \<noteq> mainAddress"
    and "FindSymNeighborTuple (th_neighborMainAddr t) s = Some nb" "nt_willingness nb \<noteq> WILL_NEVER"
    and "FindSymNeighborTuple (th_twoHopNeighborAddr t) s = None"
  shows "\<exists>S. MprSet defense mainAddress s = Some S \<and>
    (\<exists>u\<in>set (m_twoHopNeighborSet s). th_twoHopNeighborAddr u = th_twoHopNeighborAddr t \<and>
       th_neighborMainAddr u \<in> set S)"
proof -
  obtain S where S: "MprSet defense mainAddress s = Some (mpr_backup defense s S)"
    "mpr_inv (mpr_N2 mainAddress s) (willing s) (S, [])" using MprSet_inv by blast
  have "in_N2 mainAddress (mpr_N s) t" using assms by (simp add: in_N2_def FindSym_mpr_N del: find_first_None_iff)
  then have "covered_by (mpr_N2 mainAddress s) (set S) t"
    using S(2) assms(1) by (simp add: mpr_inv_def mpr_N2_filter)
  then show ?thesis using S(1) mpr_backup_superset by (fastforce simp: covered_by_def mpr_N2_filter)
qed

definition example_nb :: "ipv4 \<Rightarrow> neighbor_tuple" where
  "example_nb a = \<lparr>nt_neighborMainAddr = a, nt_status = STATUS_SYM, nt_willingness = WILL_DEFAULT\<rparr>"

definition example_2hop :: "ipv4 \<Rightarrow> ipv4 \<Rightarrow> two_hop_tuple" where
  "example_2hop a b = \<lparr>th_neighborMainAddr = a, th_twoHopNeighborAddr = b, th_expirationTime = 0\<rparr>"

definition example_mpr_state :: olsr_state where
  "example_mpr_state = OlsrState_init\<lparr>m_neighborSet := [example_nb 2, example_nb 3],
     m_twoHopNeighborSet := [example_2hop 2 4, example_2hop 3 4, example_2hop 2 5]\<rparr>"

theorem mpr_covers_two_hop_neighbors_witness:
  "\<exists>S. MprSet (Some (\<lambda>a. a = 2)) 1 example_mpr_state = Some S \<and>
    (\<exists>u\<in>set (m_twoHopNeighborSet example_mpr_state). th_twoHopNeighborAddr u = 4 \<and>
       th_neighborMainAddr u \<in> set S)"
  using mpr_covers_two_hop_neighbors
    [of "example_2hop 3 4" example_mpr_state 1 "example_nb 3" "Some (\<lambda>a. a = 2)"]
  by (simp add: example_mpr_state_def example_2hop_def example_nb_def FindSymNeighborTuple_def
      willingness_defs)

text \<open>
  C40: only symmetric neighbors whose willingness is not NEVER are selected, also by the backup
  rule, and the set is free of duplicates in the order of \<open>std::set\<close>.
\<close>

theorem mpr_set_willing:
  "\<exists>S. MprSet defense mainAddress s = Some S \<and> wf_set S \<and>
     set S \<subseteq> {nt_neighborMainAddr nb |nb. nb \<in> set (m_neighborSet s) \<and>
       nt_status nb = STATUS_SYM \<and> nt_willingness nb \<noteq> WILL_NEVER}"
proof -
  obtain S where S: "MprSet defense mainAddress s = Some (mpr_backup defense s S)"
    "mpr_inv (mpr_N2 mainAddress s) (willing s) (S, [])" using MprSet_inv by blast
  then have "set (mpr_backup defense s S) \<subseteq> willing s"
    by (intro mpr_backup_willing) (simp add: mpr_inv_def)
  moreover have "wf_set (mpr_backup defense s S)"
    using S(2) by (auto simp: mpr_backup_def mpr_inv_def split: option.splits)
  ultimately show ?thesis using S(1) by (simp add: willing_def)
qed

text \<open>
  The defense can only add one relay. With \<open>S0\<close> the set that the node would select without
  a strategy: \<open>S0\<close> is kept; nothing changes while some selected MPR is not suspected; and
  when all are suspected and a trusted willing symmetric neighbor exists, the result contains one.
\<close>

theorem mpr_backup_rule:
  "\<exists>S0 S. MprSet None mainAddress s = Some S0 \<and> MprSet (Some IsMalicious) mainAddress s = Some S \<and>
     set S0 \<subseteq> set S \<and> card (set S - set S0) \<le> 1 \<and>
     ((\<exists>a\<in>set S0. \<not> IsMalicious a) \<longrightarrow> S = S0) \<and>
     (S0 \<noteq> [] \<and> (\<exists>a\<in>willing s. \<not> IsMalicious a) \<longrightarrow> (\<exists>a\<in>set S. \<not> IsMalicious a))"
proof -
  obtain S0 where S0: "MprSet (Some IsMalicious) mainAddress s = Some (mpr_backup (Some IsMalicious) s S0)"
    "MprSet None mainAddress s = Some S0" using MprSet_inv by blast
  let ?S = "mpr_backup (Some IsMalicious) s S0"
  have "card (set ?S - set S0) \<le> 1"
  proof -
    obtain b where "set ?S \<subseteq> insert b (set S0)" using mpr_backup_adds_one by blast
    then have "set ?S - set S0 \<subseteq> {b}" by blast
    then show ?thesis using card_mono [of "{b}"] by simp
  qed
  moreover have "(\<exists>a\<in>set S0. \<not> IsMalicious a) \<longrightarrow> ?S = S0" using mpr_backup_clean_kept by blast
  moreover have "S0 \<noteq> [] \<and> (\<exists>a\<in>willing s. \<not> IsMalicious a) \<longrightarrow> (\<exists>a\<in>set ?S. \<not> IsMalicious a)"
    using mpr_backup_finds by blast
  ultimately show ?thesis using S0 mpr_backup_superset by blast
qed

theorem mpr_backup_rule_witness:
  "\<exists>S0 S. MprSet None 1 example_mpr_state = Some S0 \<and>
     MprSet (Some (\<lambda>a. a = 2)) 1 example_mpr_state = Some S \<and> set S0 \<subseteq> set S \<and>
     (S0 = [] \<or> (\<exists>a\<in>set S. a \<noteq> 2))"
proof -
  have "3 \<in> willing example_mpr_state"
    by (auto simp: willing_def example_mpr_state_def example_nb_def willingness_defs
        intro!: exI [of _ "example_nb 3"])
  then show ?thesis using mpr_backup_rule [of 1 example_mpr_state "\<lambda>a. a = 2"] by fastforce
qed

text \<open>
  The degree that breaks ties in step 4 is 0 for every neighbor: the code looks up the
  neighbor itself where RFC 3626 asks about the 2-hop address, so among neighbors of equal
  willingness and reach the tie-break never decides.
\<close>

theorem degree_of_neighbor_is_zero:
  assumes "nb \<in> set (m_neighborSet s)"
  shows "Degree s nb = 0"
proof -
  have "FindNeighborTuple (nt_neighborMainAddr nb) s \<noteq> None"
    using assms by (auto simp: FindNeighborTuple_def)
  then show ?thesis by (auto simp: Degree_count filter_empty_conv)
qed

theorem degree_of_neighbor_is_zero_witness: "Degree example_mpr_state (example_nb 2) = 0"
  by (rule degree_of_neighbor_is_zero) (simp add: example_mpr_state_def)

text \<open>
  Step 4 of the selection takes, of the neighbors that still reach something, one of highest
  willingness and, among these, of highest reachability.
\<close>

theorem step4_selects_best:
  assumes "select_max s (candidates N N2) = Some (mx, r)"
  shows "mx \<in> set N \<and> r = reach N2 mx \<and> r > 0 \<and>
    (\<forall>nb\<in>set N. reach N2 nb > 0 \<longrightarrow>
       nt_willingness nb < nt_willingness mx \<or>
       nt_willingness nb = nt_willingness mx \<and> reach N2 nb \<le> r)"
  using select_max_best [OF assms]
  by (force simp: set_candidates rank_le_def word_less_nat_alt word_unat_eq_iff)

theorem step4_selects_best_witness:
  "nt_willingness (example_nb 3) < nt_willingness (example_nb 2) \<or>
     nt_willingness (example_nb 3) = nt_willingness (example_nb 2) \<and>
     reach [example_2hop 2 4, example_2hop 3 4, example_2hop 2 5] (example_nb 3) \<le> 2"
proof -
  have sel: "select_max example_mpr_state (candidates [example_nb 2, example_nb 3]
      [example_2hop 2 4, example_2hop 3 4, example_2hop 2 5]) = Some (example_nb 2, 2)"
    by code_simp
  have "reach [example_2hop 2 4, example_2hop 3 4, example_2hop 2 5] (example_nb 3) > 0"
    by code_simp
  then show ?thesis using step4_selects_best [OF sel] by simp
qed

end
