(* ===== verification/Static_Routing.thy ===== *)
theory Static_Routing
  imports Repositories
begin

unbundle bit_operations_syntax

text \<open>
  The \<open>Ipv4StaticRouting\<close> object that holds the HNA routes (and the routes an application
  associates with the protocol): src/internet/model/ipv4-static-routing.cc. A route list is the
  \<open>std::list\<close> of (entry, metric) pairs; the indices of \<open>GetRoute\<close>, \<open>GetMetric\<close> and
  \<open>RemoveRoute\<close> are positions in it, and an index out of range fails an assertion.
\<close>

record static_route =
  sr_dest :: ipv4
  sr_mask :: ipv4
  sr_gateway :: ipv4
  sr_interface :: u32
  sr_metric :: u32

fun SR_LookupRoute :: "static_route \<Rightarrow> static_route list \<Rightarrow> bool" where
  "SR_LookupRoute route [] = False"
| "SR_LookupRoute route (j # rs) =
     (if sr_dest j = sr_dest route \<and> sr_mask j = sr_mask route \<and>
         sr_gateway j = sr_gateway route \<and> sr_interface j = sr_interface route \<and>
         sr_metric j = sr_metric route
      then True else SR_LookupRoute route rs)"

definition AddNetworkRouteTo ::
  "ipv4 \<Rightarrow> ipv4 \<Rightarrow> ipv4 \<Rightarrow> u32 \<Rightarrow> u32 \<Rightarrow> static_route list \<Rightarrow> static_route list" where
  "AddNetworkRouteTo network networkMask nextHop interface metric rs =
     (let route = \<lparr>sr_dest = network, sr_mask = networkMask, sr_gateway = nextHop,
                   sr_interface = interface, sr_metric = metric\<rparr>
      in if \<not> SR_LookupRoute route rs then rs @ [route] else rs)"

definition GetNRoutes :: "static_route list \<Rightarrow> nat" where
  "GetNRoutes rs = length rs"

fun GetRoute :: "nat \<Rightarrow> static_route list \<Rightarrow> static_route res" where
  "GetRoute index [] = Inl Assertion_failed"
| "GetRoute index (j # rs) = (case index of 0 \<Rightarrow> Inr j | Suc i \<Rightarrow> GetRoute i rs)"

definition GetMetric :: "nat \<Rightarrow> static_route list \<Rightarrow> u32 res" where
  "GetMetric index rs = bindR (GetRoute index rs) (\<lambda>r. Inr (sr_metric r))"

fun RemoveRoute :: "nat \<Rightarrow> static_route list \<Rightarrow> static_route list res" where
  "RemoveRoute index [] = Inl Assertion_failed"
| "RemoveRoute index (j # rs) =
     (case index of 0 \<Rightarrow> Inr rs | Suc i \<Rightarrow> bindR (RemoveRoute i rs) (\<lambda>rs'. Inr (j # rs')))"

text \<open>\<open>Ipv4Mask::GetPrefixLength\<close>: shifts until the word is 0, at most 32 times.\<close>

fun prefix_length_loop :: "nat \<Rightarrow> ipv4 \<Rightarrow> nat" where
  "prefix_length_loop 0 m = 0"
| "prefix_length_loop (Suc fuel) m =
     (if m = 0 then 0 else Suc (prefix_length_loop fuel (push_bit 1 m)))"

definition GetPrefixLength :: "ipv4 \<Rightarrow> nat" where
  "GetPrefixLength m = prefix_length_loop 32 m"

definition IsMatch :: "ipv4 \<Rightarrow> ipv4 \<Rightarrow> ipv4 \<Rightarrow> bool" where
  "IsMatch m a b \<longleftrightarrow> a AND m = b AND m"

text \<open>
  The loop of \<open>LookupStatic\<close>; \<open>best\<close>, \<open>longest_mask\<close> and \<open>shortest_metric\<close> are the variables
  that it updates. The route object is built in \<open>LookupStatic\<close>, for the entry the loop ends with.
\<close>

fun lookup_static_loop ::
  "ipv4 \<Rightarrow> u32 option \<Rightarrow> static_route list \<Rightarrow> static_route option \<Rightarrow> nat \<Rightarrow> u32 \<Rightarrow> static_route option"
where
  "lookup_static_loop dest oif [] best longest_mask shortest_metric = best"
| "lookup_static_loop dest oif (j # rs) best longest_mask shortest_metric =
     (let masklen = GetPrefixLength (sr_mask j) in
      if \<not> IsMatch (sr_mask j) dest (sr_dest j)
      then lookup_static_loop dest oif rs best longest_mask shortest_metric
      else if oif \<noteq> None \<and> oif \<noteq> Some (sr_interface j)
      then lookup_static_loop dest oif rs best longest_mask shortest_metric
      else if masklen < longest_mask
      then lookup_static_loop dest oif rs best longest_mask shortest_metric
      else
        let shortest_metric = (if masklen > longest_mask then 0xffffffff else shortest_metric) in
        if sr_metric j > shortest_metric
        then lookup_static_loop dest oif rs best masklen shortest_metric
        else if masklen = 32 then Some j
        else lookup_static_loop dest oif rs (Some j) masklen (sr_metric j))"

text \<open>\<open>Ipv4Route\<close>; the output device is its interface index.\<close>

record ipv4_route =
  ro_destination :: ipv4
  ro_source :: ipv4
  ro_gateway :: ipv4
  ro_oif :: u32

text \<open>
  \<open>Ipv4L3Protocol::GetInterface\<close> with the dereference that follows it, \<open>GetAddress(i, 0).GetLocal()\<close>
  and \<open>SourceAddressSelection\<close>, over the (local address, mask) lists of the interfaces. All
  addresses are primary.
\<close>

definition GetInterface :: "(ipv4 \<times> ipv4) list list \<Rightarrow> u32 \<Rightarrow> (ipv4 \<times> ipv4) list res" where
  "GetInterface ifaces i = (if unat i < length ifaces then Inr (ifaces ! unat i) else Inl Assertion_failed)"

definition GetAddress0 :: "(ipv4 \<times> ipv4) list list \<Rightarrow> u32 \<Rightarrow> ipv4 res" where
  "GetAddress0 ifaces i =
     bindR (GetInterface ifaces i) (\<lambda>addrs. case addrs of [] \<Rightarrow> Inl Fatal_error | (a, _) # _ \<Rightarrow> Inr a)"

definition SourceAddressSelection :: "(ipv4 \<times> ipv4) list list \<Rightarrow> u32 \<Rightarrow> ipv4 \<Rightarrow> ipv4 res" where
  "SourceAddressSelection ifaces interfaceIdx dest =
     bindR (GetInterface ifaces interfaceIdx) (\<lambda>addrs.
     if length addrs = 1 then GetAddress0 ifaces interfaceIdx
     else bindR (GetAddress0 ifaces interfaceIdx) (\<lambda>candidate.
       case find_first (\<lambda>(a, m). a AND m = dest AND m) addrs of
         Some (a, _) \<Rightarrow> Inr a
       | None \<Rightarrow> Inr candidate))"

definition IsLocalMulticast :: "ipv4 \<Rightarrow> bool" where
  "IsLocalMulticast a \<longleftrightarrow> a AND 0xffffff00 = 0xe0000000"

definition LookupStatic ::
  "(ipv4 \<times> ipv4) list list \<Rightarrow> ipv4 \<Rightarrow> u32 option \<Rightarrow> static_route list \<Rightarrow> ipv4_route option res" where
  "LookupStatic ifaces dest oif rs =
     (if IsLocalMulticast dest
      then (case oif of
              None \<Rightarrow> Inl Assertion_failed
            | Some i \<Rightarrow>
                bindR (GetAddress0 ifaces i) (\<lambda>source.
                  Inr (Some \<lparr>ro_destination = dest, ro_source = source, ro_gateway = ipv4_any, ro_oif = i\<rparr>)))
      else
        case lookup_static_loop dest oif rs None 0 0xffffffff of
          None \<Rightarrow> Inr None
        | Some r \<Rightarrow>
            bindR (SourceAddressSelection ifaces (sr_interface r) (sr_dest r)) (\<lambda>source.
              Inr (Some \<lparr>ro_destination = sr_dest r, ro_source = source, ro_gateway = sr_gateway r,
                         ro_oif = sr_interface r\<rparr>)))"

text \<open>\<open>Ipv4StaticRouting::RouteOutput\<close>: \<open>None\<close> comes with \<open>ERROR_NOROUTETOHOST\<close>.\<close>

definition SR_RouteOutput ::
  "(ipv4 \<times> ipv4) list list \<Rightarrow> ipv4 \<Rightarrow> u32 option \<Rightarrow> static_route list \<Rightarrow> ipv4_route option res" where
  "SR_RouteOutput ifaces destination oif rs = LookupStatic ifaces destination oif rs"

text \<open>
  What \<open>RouteInput\<close> of a routing protocol does with a packet: one of its callbacks, nothing while
  it reports the packet as handled (\<open>Consumed\<close>), or the answer false (\<open>Not_handled\<close>).
\<close>

datatype verdict =
    Consumed
  | Delivered u32
  | Forwarded ipv4_route
  | Error_reported
  | Not_handled

text \<open>The flags of \<open>Ipv4L3Protocol\<close> that the two \<open>RouteInput\<close> functions read.\<close>

record ipv4_config =
  ic_strongEndSystem :: bool
  ic_forwarding :: "bool list"

definition address_match :: "ipv4 \<Rightarrow> ipv4 \<times> ipv4 \<Rightarrow> bool" where
  "address_match dst = (\<lambda>(local, mask). dst = local \<or> dst = local OR NOT mask)"

definition IsDestinationAddress :: "(ipv4 \<times> ipv4) list list \<Rightarrow> ipv4_config \<Rightarrow> ipv4 \<Rightarrow> u32 \<Rightarrow> bool res" where
  "IsDestinationAddress ifaces cfg address iif =
     bindR (GetInterface ifaces iif) (\<lambda>addrs.
       Inr (list_ex (address_match address) addrs \<or> ipv4_is_multicast address \<or> address = ipv4_broadcast \<or>
            \<not> ic_strongEndSystem cfg \<and>
              list_ex (\<lambda>(j, addrs). j \<noteq> unat iif \<and> list_ex (address_match address) addrs) (enumerate 0 ifaces)))"

text \<open>
  \<open>Ipv4StaticRouting::RouteInput\<close>, for a table without multicast routes (OLSR adds none);
  \<open>lcb\<close>: the local delivery callback is set.
\<close>

definition SR_RouteInput ::
  "(ipv4 \<times> ipv4) list list \<Rightarrow> ipv4_config \<Rightarrow> bool \<Rightarrow> ipv4 \<Rightarrow> u32 option \<Rightarrow> static_route list \<Rightarrow> verdict res" where
  "SR_RouteInput ifaces cfg lcb dst idev rs =
     (case idev of
        None \<Rightarrow> Inl Assertion_failed
      | Some iif \<Rightarrow>
          if ipv4_is_multicast dst then Inr Not_handled
          else bindR (IsDestinationAddress ifaces cfg dst iif) (\<lambda>mine.
            if mine then Inr (if lcb then Delivered iif else Not_handled)
            else if \<not> (unat iif < length (ic_forwarding cfg)) then Inl Assertion_failed
            else if \<not> ic_forwarding cfg ! unat iif then Inr Error_reported
            else bindR (LookupStatic ifaces dst None rs) (\<lambda>route.
              case route of Some r \<Rightarrow> Inr (Forwarded r) | None \<Rightarrow> Inr Not_handled)))"

section \<open>Behaviour\<close>

lemma SR_LookupRoute_iff [simp]: "SR_LookupRoute r rs \<longleftrightarrow> r \<in> set rs"
  by (induction rs) auto

lemma set_AddNetworkRouteTo:
  "set (AddNetworkRouteTo n m g i k rs) =
    insert \<lparr>sr_dest = n, sr_mask = m, sr_gateway = g, sr_interface = i, sr_metric = k\<rparr> (set rs)"
  by (auto simp: AddNetworkRouteTo_def Let_def)

lemma GetRoute_nth: "i < length rs \<Longrightarrow> GetRoute i rs = Inr (rs ! i)"
  by (induction i rs rule: GetRoute.induct) (auto split: nat.splits)

lemma RemoveRoute_drop: "i < length rs \<Longrightarrow> RemoveRoute i rs = Inr (take i rs @ drop (Suc i) rs)"
  by (induction i rs rule: RemoveRoute.induct) (auto split: nat.splits)

lemma GetRoute_out_of_range: "length rs \<le> i \<Longrightarrow> GetRoute i rs = Inl Assertion_failed"
  by (induction i rs rule: GetRoute.induct) (auto split: nat.splits)

lemma prefix_length_loop_le: "prefix_length_loop n m \<le> n"
  by (induction n arbitrary: m) simp_all

lemma GetPrefixLength_le: "GetPrefixLength m \<le> 32"
  unfolding GetPrefixLength_def by (rule prefix_length_loop_le)

text \<open>
  The loop keeps: \<open>best\<close> matches, its mask has length \<open>longest_mask\<close> and its metric is
  \<open>shortest_metric\<close>.
\<close>

definition usable :: "ipv4 \<Rightarrow> u32 option \<Rightarrow> static_route \<Rightarrow> bool" where
  "usable dest oif r \<longleftrightarrow> IsMatch (sr_mask r) dest (sr_dest r) \<and> (oif = None \<or> oif = Some (sr_interface r))"

definition best_so_far :: "ipv4 \<Rightarrow> u32 option \<Rightarrow> static_route set \<Rightarrow> static_route option \<Rightarrow> nat \<Rightarrow> u32 \<Rightarrow> bool" where
  "best_so_far dest oif seen best l k =
     (case best of
        None \<Rightarrow> l = 0 \<and> k = 0xffffffff \<and> (\<forall>r\<in>seen. \<not> usable dest oif r)
      | Some b \<Rightarrow> b \<in> seen \<and> usable dest oif b \<and> GetPrefixLength (sr_mask b) = l \<and>
          sr_metric b = k \<and>
          (\<forall>r\<in>seen. usable dest oif r \<longrightarrow> GetPrefixLength (sr_mask r) \<le> l))"

definition longest_match :: "ipv4 \<Rightarrow> u32 option \<Rightarrow> static_route set \<Rightarrow> static_route option \<Rightarrow> bool" where
  "longest_match dest oif R best =
     (case best of
        None \<Rightarrow> \<forall>r\<in>R. \<not> usable dest oif r
      | Some b \<Rightarrow> b \<in> R \<and> usable dest oif b \<and>
          (\<forall>r\<in>R. usable dest oif r \<longrightarrow>
             GetPrefixLength (sr_mask r) \<le> GetPrefixLength (sr_mask b)))"

lemma best_so_far_skip:
  "best_so_far dest oif seen best l k \<Longrightarrow>
    \<not> usable dest oif j \<or> best \<noteq> None \<and> GetPrefixLength (sr_mask j) \<le> l \<Longrightarrow>
    best_so_far dest oif (insert j seen) best l k"
  by (auto simp: best_so_far_def split: option.splits)

lemma best_so_far_take:
  "best_so_far dest oif seen best l k \<Longrightarrow> usable dest oif j \<Longrightarrow>
    GetPrefixLength (sr_mask j) \<ge> l \<Longrightarrow>
    best_so_far dest oif (insert j seen) (Some j) (GetPrefixLength (sr_mask j)) (sr_metric j)"
  by (fastforce simp: best_so_far_def split: option.splits)

lemma lookup_static_loop_Cons:
  "lookup_static_loop dest oif (j # rs) best l k =
     (let masklen = GetPrefixLength (sr_mask j); k' = (if masklen > l then 0xffffffff else k) in
      if \<not> usable dest oif j \<or> masklen < l then lookup_static_loop dest oif rs best l k
      else if sr_metric j > k' then lookup_static_loop dest oif rs best masklen k'
      else if masklen = 32 then Some j
      else lookup_static_loop dest oif rs (Some j) masklen (sr_metric j))"
  by (cases oif) (simp_all add: usable_def Let_def)

lemma lookup_static_loop_longest:
  "best_so_far dest oif seen best l k \<Longrightarrow>
    longest_match dest oif (seen \<union> set rs) (lookup_static_loop dest oif rs best l k)"
proof (induction rs arbitrary: seen best l k)
  case Nil
  then show ?case by (auto simp: best_so_far_def longest_match_def split: option.splits)
next
  case (Cons j rs)
  let ?m = "GetPrefixLength (sr_mask j)"
  let ?k = "if ?m > l then 0xffffffff else k"
  have un: "seen \<union> set (j # rs) = insert j seen \<union> set rs" by auto
  have top: "x \<le> 0xffffffff" for x :: u32
    using unsigned_less [of x, where ?'a = nat] by (simp add: word_le_nat_alt)
  consider (skip) "\<not> usable dest oif j \<or> ?m < l"
    | (worse) "usable dest oif j" "\<not> ?m < l" "sr_metric j > ?k"
    | (full) "usable dest oif j" "\<not> ?m < l" "\<not> sr_metric j > ?k" "?m = 32"
    | (take) "usable dest oif j" "\<not> ?m < l" "\<not> sr_metric j > ?k" "?m \<noteq> 32"
    by blast
  then show ?case
  proof cases
    case skip
    then have "best_so_far dest oif (insert j seen) best l k"
      using Cons.prems by (intro best_so_far_skip) (auto simp: best_so_far_def split: option.splits)
    from Cons.IH [OF this] skip show ?thesis unfolding un by (auto simp: lookup_static_loop_Cons Let_def simp del: lookup_static_loop.simps(2))
  next
    case worse
    then have m: "?m = l" "sr_metric j > k" using top [of "sr_metric j"] by (auto split: if_splits)
    moreover have "best \<noteq> None" using Cons.prems m top [of "sr_metric j"] by (auto simp: best_so_far_def split: option.splits)
    ultimately have "best_so_far dest oif (insert j seen) best l k"
      using Cons.prems by (intro best_so_far_skip) auto
    from Cons.IH [OF this] worse m show ?thesis unfolding un by (auto simp: lookup_static_loop_Cons Let_def simp del: lookup_static_loop.simps(2))
  next
    case full
    then show ?thesis by (auto simp: lookup_static_loop_Cons Let_def longest_match_def GetPrefixLength_le simp del: lookup_static_loop.simps(2))
  next
    case take
    then have "best_so_far dest oif (insert j seen) (Some j) ?m (sr_metric j)"
      using Cons.prems by (intro best_so_far_take) auto
    from Cons.IH [OF this] take show ?thesis unfolding un by (auto simp: lookup_static_loop_Cons Let_def simp del: lookup_static_loop.simps(2))
  qed
qed

lemma lookup_static_longest: "longest_match dest oif (set rs) (lookup_static_loop dest oif rs None 0 0xffffffff)"
  using lookup_static_loop_longest [of dest oif "{}" None 0 "0xffffffff" rs]
  by (simp add: best_so_far_def)

lemma GetAddress0_total:
  "unat i < length ifaces \<Longrightarrow> ifaces ! unat i \<noteq> [] \<Longrightarrow> \<exists>a. GetAddress0 ifaces i = Inr a"
  by (cases "ifaces ! unat i") (auto simp: GetAddress0_def GetInterface_def)

lemma SourceAddressSelection_total:
  "unat i < length ifaces \<Longrightarrow> ifaces ! unat i \<noteq> [] \<Longrightarrow> \<exists>a. SourceAddressSelection ifaces i dest = Inr a"
  using GetAddress0_total [of i ifaces]
  by (auto simp: SourceAddressSelection_def GetInterface_def split: option.split)

lemma SourceAddressSelection_local:
  assumes "SourceAddressSelection ifaces i dest = Inr a"
  shows "a \<in> fst ` set (ifaces ! unat i)"
proof -
  have first: "x \<in> fst ` set (ifaces ! unat i)" if "GetAddress0 ifaces i = Inr x" for x
    using that by (cases "ifaces ! unat i") (auto simp: GetAddress0_def GetInterface_def split: if_splits)
  show ?thesis
  proof (cases "find_first (\<lambda>(a, m). a AND m = dest AND m) (ifaces ! unat i)")
    case None
    then show ?thesis using assms
      by (auto simp: SourceAddressSelection_def GetInterface_def res_simps intro: first split: if_splits
          simp del: find_first_None_iff)
  next
    case (Some p)
    moreover have "fst p \<in> fst ` set (ifaces ! unat i)" using find_first_SomeD [OF Some] by simp
    ultimately show ?thesis using assms
      by (cases p) (auto simp: SourceAddressSelection_def GetInterface_def res_simps intro: first split: if_splits)
  qed
qed

text \<open>
  C38: the HNA lookup refines longest-prefix routing. With every route on an interface that has an
  address, \<open>RouteOutput\<close> of the static table returns for each unicast destination; it finds nothing
  exactly when no entry matches on the requested interface, and otherwise follows a matching entry
  of greatest prefix length, with a source address of its interface.
\<close>

theorem static_lookup_longest_prefix:
  assumes "\<not> IsLocalMulticast dest"
    and "\<forall>r\<in>set rs. unat (sr_interface r) < length ifaces \<and> ifaces ! unat (sr_interface r) \<noteq> []"
  shows "\<exists>res. SR_RouteOutput ifaces dest oif rs = Inr res \<and>
    (case res of
       None \<Rightarrow> \<forall>r\<in>set rs. \<not> usable dest oif r
     | Some ro \<Rightarrow> \<exists>r\<in>set rs. longest_match dest oif (set rs) (Some r) \<and> ro_gateway ro = sr_gateway r \<and>
         ro_oif ro = sr_interface r \<and> ro_destination ro = sr_dest r \<and>
         ro_source ro \<in> fst ` set (ifaces ! unat (sr_interface r)))"
proof (cases "lookup_static_loop dest oif rs None 0 0xffffffff")
  case None
  then show ?thesis using lookup_static_longest [of dest oif rs] assms(1)
    by (simp add: SR_RouteOutput_def LookupStatic_def longest_match_def)
next
  case (Some r)
  then have r: "r \<in> set rs" "longest_match dest oif (set rs) (Some r)"
    using lookup_static_longest [of dest oif rs] by (simp_all add: longest_match_def)
  let ?as = "ifaces ! unat (sr_interface r)"
  have i: "unat (sr_interface r) < length ifaces" "?as \<noteq> []" using assms(2) r(1) by blast+
  obtain src where src: "SourceAddressSelection ifaces (sr_interface r) (sr_dest r) = Inr src"
    using SourceAddressSelection_total [OF i] by blast
  from SourceAddressSelection_local [OF src]
  have "src \<in> fst ` set ?as" .
  with r src Some assms(1) show ?thesis by (auto simp: SR_RouteOutput_def LookupStatic_def)
qed

theorem static_lookup_longest_prefix_witness:
  "let rs = [\<lparr>sr_dest = 0x0a000000, sr_mask = 0xff000000, sr_gateway = 7, sr_interface = 1, sr_metric = 0\<rparr>,
             \<lparr>sr_dest = 0x0a010000, sr_mask = 0xffff0000, sr_gateway = 8, sr_interface = 1, sr_metric = 2\<rparr>]
   in \<exists>r ro. SR_RouteOutput [[(ipv4_loopback, 0xff000000)], [(1, 0xffffff00)]] 0x0a010203 None rs = Inr (Some ro) \<and>
        longest_match 0x0a010203 None (set rs) (Some r) \<and> ro_gateway ro = sr_gateway r"
proof -
  define rs where "rs =
    [\<lparr>sr_dest = 0x0a000000, sr_mask = 0xff000000, sr_gateway = 7, sr_interface = 1, sr_metric = 0\<rparr>,
     \<lparr>sr_dest = 0x0a010000, sr_mask = 0xffff0000, sr_gateway = 8, sr_interface = 1, sr_metric = (2 :: u32)\<rparr>]"
  let ?ifs = "[[(ipv4_loopback, 0xff000000)], [(1, 0xffffff00)]]"
  have "\<exists>r\<in>set rs. usable 0x0a010203 None r" by (simp add: rs_def usable_def IsMatch_def)
  moreover have "\<not> IsLocalMulticast 0x0a010203" by (simp add: IsLocalMulticast_def)
  moreover have "\<forall>r\<in>set rs. unat (sr_interface r) < length ?ifs \<and> ?ifs ! unat (sr_interface r) \<noteq> []"
    by (simp add: rs_def)
  ultimately show ?thesis
    using static_lookup_longest_prefix [where dest = "0x0a010203" and rs = rs and ifaces = ?ifs and oif = None]
    unfolding Let_def rs_def [symmetric] by (fastforce split: option.splits)
qed

end
