(* ===== verification/Routing_Table.thy ===== *)
theory Routing_Table
  imports Olsr_State Static_Routing
begin

text \<open>
  The routing table of olsr-routing-protocol.cc: \<open>AddEntry\<close>, \<open>Lookup\<close>, \<open>FindSendEntry\<close> and
  \<open>ComputeRoutingTableCore\<close>, whose five steps are five definitions. The members that the
  computation reads are parameters: \<open>now\<close> is \<open>Simulator::Now()\<close>, \<open>ifaces\<close> the addresses of the
  IPv4 interfaces (\<open>GetAddress(i, j)\<close> with its mask), \<open>mainAddress\<close> is \<open>m_mainAddress\<close> and \<open>s\<close> is
  \<open>m_state\<close>. \<open>AddEntry\<close> asserts that the distance is positive and that the interface address is
  one of the node's; a failed assertion is \<open>Inl Assertion_failed\<close>.
\<close>

record RoutingTableEntry =
  rt_destAddr :: ipv4
  rt_nextAddr :: ipv4
  rt_interface :: u32
  rt_distance :: u32

type_synonym table = "(ipv4, RoutingTableEntry) std_map"

definition GetMainAddress :: "ipv4 \<Rightarrow> olsr_state \<Rightarrow> ipv4" where
  "GetMainAddress iface_addr s =
     (case FindIfaceAssocTuple iface_addr s of
        Some tuple \<Rightarrow> ia_mainAddr tuple
      | None \<Rightarrow> iface_addr)"

definition Lookup :: "ipv4 \<Rightarrow> table \<Rightarrow> RoutingTableEntry option" where
  "Lookup dest t = map_of t dest"

definition RemoveEntry :: "ipv4 \<Rightarrow> table \<Rightarrow> table" where
  "RemoveEntry dest t = map_erase dest t"

definition AddEntry :: "ipv4 \<Rightarrow> ipv4 \<Rightarrow> u32 \<Rightarrow> u32 \<Rightarrow> table \<Rightarrow> table res" where
  "AddEntry dest nextA interface distance t =
     assertR (distance > 0)
       (Inr (map_put dest \<lparr>rt_destAddr = dest, rt_nextAddr = nextA, rt_interface = interface,
                           rt_distance = distance\<rparr> t))"

text \<open>The index of the first interface that has the given local address.\<close>

fun find_interface :: "ipv4 \<Rightarrow> u32 \<Rightarrow> (ipv4 \<times> ipv4) list list \<Rightarrow> u32 option" where
  "find_interface a i [] = None"
| "find_interface a i (addrs # ifaces) =
     (if find_first (\<lambda>(local, m). local = a) addrs \<noteq> None then Some i
      else find_interface a (i + 1) ifaces)"

definition AddEntryIface ::
  "(ipv4 \<times> ipv4) list list \<Rightarrow> ipv4 \<Rightarrow> ipv4 \<Rightarrow> ipv4 \<Rightarrow> u32 \<Rightarrow> table \<Rightarrow> table res" where
  "AddEntryIface ifaces dest nextA interfaceAddress distance t =
     assertR (distance > 0)
       (case find_interface interfaceAddress 0 ifaces of
          Some i \<Rightarrow> AddEntry dest nextA i distance t
        | None \<Rightarrow> Inl Assertion_failed)"

text \<open>
  \<open>FindSendEntryIn\<close> follows next hops until an entry is its own next hop; \<open>None\<close> is a walk that
  never ends, \<open>Some None\<close> the answer false.
\<close>

partial_function (option) FindSendEntry ::
  "table \<Rightarrow> RoutingTableEntry \<Rightarrow> RoutingTableEntry option option" where
  [code]: "FindSendEntry t outEntry =
     (if rt_destAddr outEntry = rt_nextAddr outEntry then Some (Some outEntry)
      else case Lookup (rt_nextAddr outEntry) t of
             None \<Rightarrow> Some None
           | Some e \<Rightarrow> FindSendEntry t e)"

definition FindSuspectAvoidingSendEntry :: "table \<Rightarrow> ipv4 \<Rightarrow> RoutingTableEntry option option" where
  "FindSuspectAvoidingSendEntry tableAvoidingSuspects dest =
     (case Lookup dest tableAvoidingSuspects of
        None \<Rightarrow> Some None
      | Some destEntry \<Rightarrow> FindSendEntry tableAvoidingSuspects destEntry)"

section \<open>The computation\<close>

text \<open>Step 2, the neighbors. The inner loop carries \<open>m_table\<close>, \<open>nb_main_addr\<close> and \<open>lt\<close>.\<close>

definition rt_link ::
  "time \<Rightarrow> (ipv4 \<times> ipv4) list list \<Rightarrow> olsr_state \<Rightarrow> neighbor_tuple \<Rightarrow> link_tuple \<Rightarrow>
     table \<times> bool \<times> link_tuple option \<Rightarrow> (table \<times> bool \<times> link_tuple option) res" where
  "rt_link now ifaces s nb l = (\<lambda>(t, nb_main_addr, lt).
     if GetMainAddress (lt_neighborIfaceAddr l) s = nt_neighborMainAddr nb \<and> lt_time l \<ge> now
     then bindR (AddEntryIface ifaces (lt_neighborIfaceAddr l) (lt_neighborIfaceAddr l)
                   (lt_localIfaceAddr l) 1 t) (\<lambda>t.
          Inr (t, nb_main_addr \<or> lt_neighborIfaceAddr l = nt_neighborMainAddr nb, Some l))
     else Inr (t, nb_main_addr, lt))"

definition rt_neighbor ::
  "time \<Rightarrow> (ipv4 \<times> ipv4) list list \<Rightarrow> olsr_state \<Rightarrow> ipv4 std_set \<Rightarrow> neighbor_tuple \<Rightarrow> table \<Rightarrow> table res"
where
  "rt_neighbor now ifaces s excluded nb t =
     (if set_count excluded (nt_neighborMainAddr nb) then Inr t
      else if nt_status nb = STATUS_SYM
      then bindR (foldE (rt_link now ifaces s nb) (m_linkSet s) (t, False, None))
             (\<lambda>(t, nb_main_addr, lt).
                case lt of
                  Some l \<Rightarrow>
                    if \<not> nb_main_addr
                    then AddEntryIface ifaces (nt_neighborMainAddr nb) (lt_neighborIfaceAddr l)
                           (lt_localIfaceAddr l) 1 t
                    else Inr t
                | None \<Rightarrow> Inr t)
      else Inr t)"

text \<open>Step 3, the 2-hop neighbors.\<close>

definition rt_two_hop :: "ipv4 \<Rightarrow> olsr_state \<Rightarrow> two_hop_tuple \<Rightarrow> table \<Rightarrow> table res" where
  "rt_two_hop mainAddress s tuple t =
     (if FindSymNeighborTuple (th_twoHopNeighborAddr tuple) s \<noteq> None then Inr t
      else if th_twoHopNeighborAddr tuple = mainAddress then Inr t
      else if find_first (\<lambda>nb. nt_neighborMainAddr nb = th_neighborMainAddr tuple \<and>
                               nt_willingness nb \<noteq> WILL_NEVER) (m_neighborSet s) = None then Inr t
      else case Lookup (th_neighborMainAddr tuple) t of
             Some entry \<Rightarrow> AddEntry (th_twoHopNeighborAddr tuple) (rt_nextAddr entry) (rt_interface entry) 2 t
           | None \<Rightarrow> Inr t)"

text \<open>Step 3.1, one pass over the topology set for a given \<open>h\<close>, and the loop over \<open>h\<close>.\<close>

definition rt_topology ::
  "ipv4 std_set \<Rightarrow> u32 \<Rightarrow> topology_tuple \<Rightarrow> table \<times> bool \<Rightarrow> (table \<times> bool) res" where
  "rt_topology excluded h tuple = (\<lambda>(t, added).
     if set_count excluded (tt_lastAddr tuple) then Inr (t, added)
     else case (Lookup (tt_destAddr tuple) t, Lookup (tt_lastAddr tuple) t) of
            (None, Some lastAddrEntry) \<Rightarrow>
              if rt_distance lastAddrEntry = h
              then bindR (AddEntry (tt_destAddr tuple) (rt_nextAddr lastAddrEntry)
                            (rt_interface lastAddrEntry) (h + 1) t) (\<lambda>t. Inr (t, True))
              else Inr (t, added)
          | _ \<Rightarrow> Inr (t, added))"

lemma AddEntry_Inr: "AddEntry d n i k t = Inr t' \<Longrightarrow>
    k > 0 \<and> t' = map_put d \<lparr>rt_destAddr = d, rt_nextAddr = n, rt_interface = i, rt_distance = k\<rparr> t"
  by (simp add: AddEntry_def res_simps)

lemma map_le_Some: "m \<subseteq>\<^sub>m m' \<Longrightarrow> m x = Some y \<Longrightarrow> m' x = Some y"
  by (force simp: map_le_def dom_def)

lemma map_le_None: "m \<subseteq>\<^sub>m m' \<Longrightarrow> m' x = None \<Longrightarrow> m x = None"
  by (cases "m x") (auto dest: map_le_Some)

lemma map_le_put: "map_of t k = None \<Longrightarrow> map_of t \<subseteq>\<^sub>m map_of (map_put k v t)"
  by (auto simp: map_le_def)

lemma rt_topology_cases:
  assumes "rt_topology excluded h x (t, a) = Inr (t', a')"
  obtains (same) "t' = t" "a' = a"
    | (new) e where "tt_lastAddr x \<notin> set excluded" "map_of t (tt_destAddr x) = None"
        "map_of t (tt_lastAddr x) = Some e" "rt_distance e = h" "h + 1 > 0" "a'"
        "t' = map_put (tt_destAddr x) \<lparr>rt_destAddr = tt_destAddr x, rt_nextAddr = rt_nextAddr e,
                rt_interface = rt_interface e, rt_distance = h + 1\<rparr> t"
  using assms
  by (auto simp: rt_topology_def Lookup_def res_simps dest!: AddEntry_Inr split: if_splits option.splits)

lemma rt_topology_pass_grows:
  assumes "foldE (rt_topology excluded h) xs (t, a) = Inr (t', a')"
  shows "map_of t \<subseteq>\<^sub>m map_of t' \<and>
    (a' \<longrightarrow> a \<or> (\<exists>x\<in>set xs. map_of t (tt_destAddr x) = None \<and> map_of t' (tt_destAddr x) \<noteq> None))"
  using assms
proof (induction xs arbitrary: t a)
  case (Cons x xs)
  from Cons.prems obtain t1 a1 where step: "rt_topology excluded h x (t, a) = Inr (t1, a1)"
    and rest: "foldE (rt_topology excluded h) xs (t1, a1) = Inr (t', a')"
    by (auto simp: res_simps)
  note IH = Cons.IH [OF rest]
  from step show ?case
  proof (cases rule: rt_topology_cases)
    case same
    then show ?thesis using IH by auto
  next
    case (new e)
    have t1: "map_of t \<subseteq>\<^sub>m map_of t1" unfolding new(7) by (rule map_le_put [OF new(2)])
    have d: "map_of t1 (tt_destAddr x) \<noteq> None" unfolding new(7) by simp
    have le: "map_of t1 \<subseteq>\<^sub>m map_of t'" using IH by blast
    have "map_of t' (tt_destAddr x) \<noteq> None" using d by (rule contrapos_nn) (rule map_le_None [OF le])
    moreover have "map_of t \<subseteq>\<^sub>m map_of t'" using t1 le by (rule map_le_trans)
    ultimately show ?thesis using new(2) by (intro conjI impI disjI2 bexI [of _ x]) simp_all
  qed
qed simp

function rt_topology_loop ::
  "ipv4 std_set \<Rightarrow> topology_tuple list \<Rightarrow> u32 \<Rightarrow> table \<Rightarrow> table res" where
  "rt_topology_loop excluded topology h t =
     bindR (foldE (rt_topology excluded h) topology (t, False)) (\<lambda>(t', added).
     if \<not> added then Inr t' else rt_topology_loop excluded topology (h + 1) t')"
  by pat_completeness auto
termination
proof (relation "measure (\<lambda>(_, topology, _, t).
    card {d \<in> tt_destAddr ` set topology. map_of t d = None})", goal_cases)
  case (2 excluded topology h t x t' added)
  have pass: "foldE (rt_topology excluded h) topology (t, False) = Inr (t', True)"
    using 2 by simp
  let ?F = "\<lambda>t. {d \<in> tt_destAddr ` set topology. map_of t d = None}"
  note grows = rt_topology_pass_grows [OF pass]
  from grows obtain x where x: "x \<in> set topology" "map_of t (tt_destAddr x) = None"
    "map_of t' (tt_destAddr x) \<noteq> None" by auto
  have "?F t' \<subseteq> ?F t" using map_le_None [OF conjunct1 [OF grows]] by auto
  moreover have "tt_destAddr x \<in> ?F t" "tt_destAddr x \<notin> ?F t'" using x by auto
  ultimately have "?F t' \<subset> ?F t" by blast
  then have "card (?F t') < card (?F t)" by (intro psubset_card_mono) auto
  then show ?case by simp
qed simp

declare rt_topology_loop.simps [simp del]

text \<open>Step 4, the other interfaces of known nodes.\<close>

definition rt_alias :: "iface_assoc_tuple \<Rightarrow> table \<Rightarrow> table res" where
  "rt_alias tuple t =
     (case (Lookup (ia_mainAddr tuple) t, Lookup (ia_ifaceAddr tuple) t) of
        (Some entry1, None) \<Rightarrow>
          AddEntry (ia_ifaceAddr tuple) (rt_nextAddr entry1) (rt_interface entry1) (rt_distance entry1) t
      | _ \<Rightarrow> Inr t)"

text \<open>
  Step 5, the HNA routes. The loop that should clear the table compares a growing index with the
  shrinking number of routes.
\<close>

function hna_clear :: "nat \<Rightarrow> static_route list \<Rightarrow> static_route list res" where
  "hna_clear i routes =
     (if i < GetNRoutes routes then bindR (RemoveRoute 0 routes) (hna_clear (i + 1)) else Inr routes)"
  by pat_completeness auto
termination
proof (relation "measure (\<lambda>(_, routes). length routes)", goal_cases)
  case (2 i routes routes')
  then show ?case by (cases routes) auto
qed simp

declare hna_clear.simps [simp del]

definition hna_route_index :: "ipv4 \<Rightarrow> ipv4 \<Rightarrow> static_route list \<Rightarrow> nat" where
  "hna_route_index networkAddr netmask routes =
     length (takeWhile (\<lambda>r. \<not> (sr_dest r = networkAddr \<and> sr_mask r = netmask)) routes)"

definition rt_hna ::
  "ipv4 std_set \<Rightarrow> olsr_state \<Rightarrow> table \<Rightarrow> association_tuple \<Rightarrow> static_route list \<Rightarrow> static_route list res"
where
  "rt_hna excluded s t tuple routes =
     (if set_count excluded (at_gatewayAddr tuple) then Inr routes
      else if find_first (\<lambda>a. as_networkAddr a = at_networkAddr tuple \<and>
                              as_netmask a = at_netmask tuple) (m_associations s) \<noteq> None
      then Inr routes
      else
        let gatewayEntry = Lookup (at_gatewayAddr tuple) t;
            routeIndex = hna_route_index (at_networkAddr tuple) (at_netmask tuple) routes
        in bindR
             (if routeIndex = GetNRoutes routes then Inr (True, routes)
              else case gatewayEntry of
                     None \<Rightarrow> Inr (False, routes)
                   | Some g \<Rightarrow>
                       bindR (GetMetric routeIndex routes) (\<lambda>metric.
                         if metric > rt_distance g
                         then bindR (RemoveRoute routeIndex routes) (\<lambda>routes. Inr (True, routes))
                         else Inr (False, routes)))
             (\<lambda>(addRoute, routes).
                case gatewayEntry of
                  Some g \<Rightarrow>
                    if addRoute
                    then Inr (AddNetworkRouteTo (at_networkAddr tuple) (at_netmask tuple)
                                (rt_nextAddr g) (rt_interface g) (rt_distance g) routes)
                    else Inr routes
                | None \<Rightarrow> Inr routes))"

definition rt_table ::
  "time \<Rightarrow> (ipv4 \<times> ipv4) list list \<Rightarrow> ipv4 \<Rightarrow> olsr_state \<Rightarrow> ipv4 std_set \<Rightarrow> table res" where
  "rt_table now ifaces mainAddress s excluded =
     bindR (foldE (rt_neighbor now ifaces s excluded) (m_neighborSet s) []) (\<lambda>t.
     bindR (foldE (rt_two_hop mainAddress s) (m_twoHopNeighborSet s) t) (\<lambda>t.
     bindR (rt_topology_loop excluded (m_topologySet s) 2 t) (\<lambda>t.
     foldE rt_alias (m_ifaceAssocSet s) t)))"

text \<open>\<open>ComputeRoutingTableCore(excluded)\<close>: the new \<open>m_table\<close> and \<open>m_hnaRoutingTable\<close>.\<close>

definition ComputeRoutingTableCore ::
  "time \<Rightarrow> (ipv4 \<times> ipv4) list list \<Rightarrow> ipv4 \<Rightarrow> olsr_state \<Rightarrow> ipv4 std_set \<Rightarrow> static_route list \<Rightarrow>
     (table \<times> static_route list) res" where
  "ComputeRoutingTableCore now ifaces mainAddress s excluded routes =
     bindR (rt_table now ifaces mainAddress s excluded) (\<lambda>t.
     bindR (hna_clear 0 routes) (\<lambda>routes.
     bindR (foldE (rt_hna excluded s t) (m_associationSet s) routes) (\<lambda>routes.
     Inr (t, routes))))"

text \<open>\<open>RoutingTableComputation\<close>: \<open>m_table\<close>, \<open>m_tableAvoidingSuspects\<close>, \<open>m_hnaRoutingTable\<close>.\<close>

definition rt_tables ::
  "time \<Rightarrow> (ipv4 \<times> ipv4) list list \<Rightarrow> ipv4 \<Rightarrow> olsr_state \<Rightarrow> ipv4 std_set \<Rightarrow> static_route list \<Rightarrow>
     (table \<times> table \<times> static_route list) res" where
  "rt_tables now ifaces mainAddress s blacklist routes =
     (if blacklist \<noteq> []
      then bindR (ComputeRoutingTableCore now ifaces mainAddress s blacklist routes) (\<lambda>(avoiding, routes).
           bindR (ComputeRoutingTableCore now ifaces mainAddress s [] routes) (\<lambda>(t, routes).
           Inr (t, avoiding, routes)))
      else bindR (ComputeRoutingTableCore now ifaces mainAddress s [] routes) (\<lambda>(t, routes).
           Inr (t, t, routes)))"

section \<open>What the entries of the table stand for\<close>

text \<open>
  \<open>first_hop nx i\<close>: interface \<open>i\<close> has a live link to \<open>nx\<close>, an address of a symmetric neighbor
  that is not excluded. \<open>route nx i d\<close>: the information base leads from that first hop to \<open>d\<close>.
\<close>

definition live_link :: "time \<Rightarrow> olsr_state \<Rightarrow> neighbor_tuple \<Rightarrow> link_tuple \<Rightarrow> bool" where
  "live_link now s nb l \<longleftrightarrow>
     GetMainAddress (lt_neighborIfaceAddr l) s = nt_neighborMainAddr nb \<and> lt_time l \<ge> now"

definition first_hop ::
  "time \<Rightarrow> (ipv4 \<times> ipv4) list list \<Rightarrow> olsr_state \<Rightarrow> ipv4 set \<Rightarrow> ipv4 \<Rightarrow> u32 \<Rightarrow> neighbor_tuple \<Rightarrow> bool"
where
  "first_hop now ifaces s X nx i nb \<longleftrightarrow>
     nb \<in> set (m_neighborSet s) \<and> nt_status nb = STATUS_SYM \<and> nt_neighborMainAddr nb \<notin> X \<and>
     (\<exists>l\<in>set (m_linkSet s). live_link now s nb l \<and> lt_neighborIfaceAddr l = nx \<and>
        find_interface (lt_localIfaceAddr l) 0 ifaces = Some i)"

inductive route ::
  "time \<Rightarrow> (ipv4 \<times> ipv4) list list \<Rightarrow> olsr_state \<Rightarrow> ipv4 set \<Rightarrow> ipv4 \<Rightarrow> u32 \<Rightarrow> ipv4 \<Rightarrow> bool"
  for now ifaces s X nx i
where
  neighbor_iface: "first_hop now ifaces s X nx i nb \<Longrightarrow> route now ifaces s X nx i nx"
| neighbor_main: "first_hop now ifaces s X nx i nb \<Longrightarrow>
    route now ifaces s X nx i (nt_neighborMainAddr nb)"
| two_hop: "route now ifaces s X nx i (th_neighborMainAddr t) \<Longrightarrow> t \<in> set (m_twoHopNeighborSet s) \<Longrightarrow>
    route now ifaces s X nx i (th_twoHopNeighborAddr t)"
| via_topology: "route now ifaces s X nx i (tt_lastAddr t) \<Longrightarrow> t \<in> set (m_topologySet s) \<Longrightarrow>
    tt_lastAddr t \<notin> X \<Longrightarrow> route now ifaces s X nx i (tt_destAddr t)"
| iface_alias: "route now ifaces s X nx i (ia_mainAddr t) \<Longrightarrow> t \<in> set (m_ifaceAssocSet s) \<Longrightarrow>
    route now ifaces s X nx i (ia_ifaceAddr t)"

lemma route_first_hop: "route now ifaces s X nx i d \<Longrightarrow> \<exists>nb. first_hop now ifaces s X nx i nb"
  by (induction rule: route.induct) auto

definition entry_ok ::
  "time \<Rightarrow> (ipv4 \<times> ipv4) list list \<Rightarrow> olsr_state \<Rightarrow> ipv4 set \<Rightarrow> ipv4 \<Rightarrow> RoutingTableEntry \<Rightarrow> bool" where
  "entry_ok now ifaces s X d e \<longleftrightarrow> rt_destAddr e = d \<and> rt_distance e > 0 \<and>
     route now ifaces s X (rt_nextAddr e) (rt_interface e) d"

definition table_ok ::
  "time \<Rightarrow> (ipv4 \<times> ipv4) list list \<Rightarrow> olsr_state \<Rightarrow> ipv4 set \<Rightarrow> table \<Rightarrow> bool" where
  "table_ok now ifaces s X t \<longleftrightarrow> wf_map t \<and>
     (\<forall>d e. map_of t d = Some e \<longrightarrow> entry_ok now ifaces s X d e)"

lemma table_ok_put:
  assumes "table_ok now ifaces s X t" "AddEntry d nx i k t = Inr t'" "route now ifaces s X nx i d"
  shows "table_ok now ifaces s X t'"
  using assms AddEntry_Inr [OF assms(2)] by (auto simp: table_ok_def entry_ok_def)

lemma AddEntryIface_Inr:
  "AddEntryIface ifaces d nx a k t = Inr t' \<Longrightarrow>
    \<exists>i. find_interface a 0 ifaces = Some i \<and> AddEntry d nx i k t = Inr t'"
  by (simp add: AddEntryIface_def res_simps split: option.splits)

text \<open>
  The inner loop of step 2 after the links \<open>seen\<close>: what it added are entries that are their own
  next hop, \<open>nb_main_addr\<close> tells whether one of them is the main address, \<open>lt\<close> is one of the
  live links.
\<close>

definition self_entry :: "ipv4 \<Rightarrow> RoutingTableEntry \<Rightarrow> bool" where
  "self_entry d e \<longleftrightarrow> rt_destAddr e = d \<and> rt_nextAddr e = d"

definition link_loop_inv ::
  "time \<Rightarrow> (ipv4 \<times> ipv4) list list \<Rightarrow> olsr_state \<Rightarrow> neighbor_tuple \<Rightarrow> table \<Rightarrow> link_tuple set \<Rightarrow>
     table \<times> bool \<times> link_tuple option \<Rightarrow> bool" where
  "link_loop_inv now ifaces s nb t0 seen = (\<lambda>(t, main, lt).
     (\<forall>d. map_of t d = map_of t0 d \<or> (\<exists>e. map_of t d = Some e \<and> self_entry d e)) \<and>
     dom (map_of t0) \<subseteq> dom (map_of t) \<and>
     (main \<longleftrightarrow> (\<exists>l\<in>seen. live_link now s nb l \<and> lt_neighborIfaceAddr l = nt_neighborMainAddr nb)) \<and>
     (case lt of
        None \<Rightarrow> t = t0
      | Some l \<Rightarrow> l \<in> seen \<and> live_link now s nb l \<and>
          (\<exists>e. map_of t (lt_neighborIfaceAddr l) = Some e \<and> self_entry (lt_neighborIfaceAddr l) e)))"

lemma rt_link_cases:
  assumes "rt_link now ifaces s nb l (t, m, lt) = Inr (t', m', lt')"
  obtains (skip) "\<not> live_link now s nb l" "t' = t" "m' = m" "lt' = lt"
    | (add) i where "live_link now s nb l" "find_interface (lt_localIfaceAddr l) 0 ifaces = Some i"
        "t' = map_put (lt_neighborIfaceAddr l) \<lparr>rt_destAddr = lt_neighborIfaceAddr l,
           rt_nextAddr = lt_neighborIfaceAddr l, rt_interface = i, rt_distance = 1\<rparr> t"
        "m' = (m \<or> lt_neighborIfaceAddr l = nt_neighborMainAddr nb)" "lt' = Some l"
  using assms
  by (auto simp: rt_link_def live_link_def res_simps dest!: AddEntryIface_Inr AddEntry_Inr
      split: if_splits)

lemma link_loop_inv_step:
  assumes "link_loop_inv now ifaces s nb t0 seen p" "rt_link now ifaces s nb l p = Inr p'"
  shows "link_loop_inv now ifaces s nb t0 (insert l seen) p'"
proof -
  obtain t m lt t' m' lt' where p: "p = (t, m, lt)" "p' = (t', m', lt')"
    by (cases p, cases p')
  from assms(2) [unfolded p] show ?thesis
  proof (cases rule: rt_link_cases)
    case skip
    then show ?thesis using assms(1) by (auto simp: link_loop_inv_def p split: option.splits)
  next
    case (add i)
    then show ?thesis using assms(1) by (auto simp: link_loop_inv_def p self_entry_def)
  qed
qed

lemma link_loop:
  "foldE (rt_link now ifaces s nb) ls p = Inr p' \<Longrightarrow> link_loop_inv now ifaces s nb t0 seen p \<Longrightarrow>
    link_loop_inv now ifaces s nb t0 (seen \<union> set ls) p'"
proof (induction ls arbitrary: p seen)
  case (Cons l ls)
  then obtain p1 where "rt_link now ifaces s nb l p = Inr p1" "foldE (rt_link now ifaces s nb) ls p1 = Inr p'"
    by (auto simp: res_simps)
  with Cons.IH [of p1 "insert l seen"] link_loop_inv_step [OF Cons.prems(2)] show ?case by simp
qed simp

lemma link_loop_table_ok:
  assumes "foldE (rt_link now ifaces s nb) (m_linkSet s) (t, m, lt) = Inr (t', m', lt')"
    and "table_ok now ifaces s X t" "nb \<in> set (m_neighborSet s)" "nt_status nb = STATUS_SYM"
    and "nt_neighborMainAddr nb \<notin> X"
  shows "table_ok now ifaces s X t'"
proof -
  have "table_ok now ifaces s X (fst (t', m', lt'))"
  proof (rule foldE_invariant [OF assms(1), where P = "\<lambda>p. table_ok now ifaces s X (fst p)"])
    fix l p p'
    assume l: "l \<in> set (m_linkSet s)" and ok: "table_ok now ifaces s X (fst p)"
      and step: "rt_link now ifaces s nb l p = Inr p'"
    obtain t m lt t' m' lt' where p: "p = (t, m, lt)" "p' = (t', m', lt')"
      by (cases p, cases p')
    from step [unfolded p] show "table_ok now ifaces s X (fst p')"
    proof (cases rule: rt_link_cases)
      case skip
      then show ?thesis using ok by (simp add: p)
    next
      case (add i)
      have "first_hop now ifaces s X (lt_neighborIfaceAddr l) i nb"
        using l assms(3-5) add(1,2) by (auto simp: first_hop_def)
      then have "route now ifaces s X (lt_neighborIfaceAddr l) i (lt_neighborIfaceAddr l)"
        by (rule neighbor_iface)
      then show ?thesis using ok add(3) by (auto simp: p table_ok_def entry_ok_def)
    qed
  qed (use assms(2) in simp)
  then show ?thesis by simp
qed

lemma rt_neighbor_table_ok:
  assumes "rt_neighbor now ifaces s excluded nb t = Inr t'"
    and "table_ok now ifaces s (set excluded) t" "nb \<in> set (m_neighborSet s)"
  shows "table_ok now ifaces s (set excluded) t'"
proof (cases "nt_neighborMainAddr nb \<in> set excluded \<or> nt_status nb \<noteq> STATUS_SYM")
  case True
  then show ?thesis using assms by (auto simp: rt_neighbor_def split: if_splits)
next
  case False
  then have nb: "nt_neighborMainAddr nb \<notin> set excluded" "nt_status nb = STATUS_SYM" by auto
  from assms(1) nb obtain t1 m lt where
    loop: "foldE (rt_link now ifaces s nb) (m_linkSet s) (t, False, None) = Inr (t1, m, lt)"
    and fin: "(case lt of Some l \<Rightarrow> if \<not> m then AddEntryIface ifaces (nt_neighborMainAddr nb)
        (lt_neighborIfaceAddr l) (lt_localIfaceAddr l) 1 t1 else Inr t1 | None \<Rightarrow> Inr t1) = Inr t'"
    by (auto simp: rt_neighbor_def res_simps)
  have ok1: "table_ok now ifaces s (set excluded) t1"
    using link_loop_table_ok [OF loop assms(2,3) nb(2,1)] .
  have "link_loop_inv now ifaces s nb t {} (t, False, None)" by (simp add: link_loop_inv_def)
  from link_loop [OF loop this] have inv: "link_loop_inv now ifaces s nb t (set (m_linkSet s)) (t1, m, lt)"
    by simp
  show ?thesis
  proof (cases lt)
    case None
    then show ?thesis using fin ok1 by simp
  next
    case (Some l)
    show ?thesis
    proof (cases m)
      case True
      then show ?thesis using fin ok1 Some by simp
    next
      case False
      then obtain i where i: "find_interface (lt_localIfaceAddr l) 0 ifaces = Some i"
        "AddEntry (nt_neighborMainAddr nb) (lt_neighborIfaceAddr l) i 1 t1 = Inr t'"
        using fin Some by (auto dest!: AddEntryIface_Inr)
      have "first_hop now ifaces s (set excluded) (lt_neighborIfaceAddr l) i nb"
        using inv Some i(1) nb assms(3) by (auto simp: first_hop_def link_loop_inv_def)
      then show ?thesis by (intro table_ok_put [OF ok1 i(2)] neighbor_main)
    qed
  qed
qed

lemma table_ok_route:
  "table_ok now ifaces s X t \<Longrightarrow> map_of t d = Some e \<Longrightarrow>
    route now ifaces s X (rt_nextAddr e) (rt_interface e) d"
  by (simp add: table_ok_def entry_ok_def)

lemma rt_two_hop_cases:
  assumes "rt_two_hop mainAddress s tuple t = Inr t'"
  obtains (same) "t' = t"
    | (new) e where "FindSymNeighborTuple (th_twoHopNeighborAddr tuple) s = None"
        "th_twoHopNeighborAddr tuple \<noteq> mainAddress" "map_of t (th_neighborMainAddr tuple) = Some e"
        "AddEntry (th_twoHopNeighborAddr tuple) (rt_nextAddr e) (rt_interface e) 2 t = Inr t'"
  using assms by (auto simp: rt_two_hop_def Lookup_def split: if_splits option.splits)

lemma rt_alias_cases:
  assumes "rt_alias tuple t = Inr t'"
  obtains (same) "t' = t"
    | (new) e where "map_of t (ia_mainAddr tuple) = Some e" "map_of t (ia_ifaceAddr tuple) = None"
        "AddEntry (ia_ifaceAddr tuple) (rt_nextAddr e) (rt_interface e) (rt_distance e) t = Inr t'"
  using assms by (auto simp: rt_alias_def Lookup_def split: option.splits)

lemma rt_two_hop_table_ok:
  assumes "rt_two_hop mainAddress s tuple t = Inr t'" "table_ok now ifaces s X t"
    and "tuple \<in> set (m_twoHopNeighborSet s)"
  shows "table_ok now ifaces s X t'"
  using assms(1)
proof (cases rule: rt_two_hop_cases)
  case (new e)
  then show ?thesis
    using assms(2,3) table_ok_route by (blast intro: table_ok_put two_hop)
qed (use assms(2) in simp)

lemma rt_topology_table_ok:
  assumes "rt_topology excluded h tt (t, a) = Inr (t', a')" "table_ok now ifaces s (set excluded) t"
    and "tt \<in> set (m_topologySet s)"
  shows "table_ok now ifaces s (set excluded) t'"
  using assms(1)
proof (cases rule: rt_topology_cases)
  case (new e)
  have "route now ifaces s (set excluded) (rt_nextAddr e) (rt_interface e) (tt_destAddr tt)"
    using new(1,3) assms(2,3) by (intro via_topology) (auto simp: table_ok_def entry_ok_def)
  then show ?thesis using new assms(2) by (auto simp: table_ok_def entry_ok_def)
qed (use assms(2) in simp)

lemma rt_topology_loop_table_ok:
  "rt_topology_loop excluded topology h t = Inr t' \<Longrightarrow> set topology \<subseteq> set (m_topologySet s) \<Longrightarrow>
    table_ok now ifaces s (set excluded) t \<Longrightarrow> table_ok now ifaces s (set excluded) t'"
proof (induction excluded topology h t arbitrary: t' rule: rt_topology_loop.induct)
  case (1 excluded topology h t)
  from 1(2) obtain t1 a where pass: "foldE (rt_topology excluded h) topology (t, False) = Inr (t1, a)"
    and rest: "(if \<not> a then Inr t1 else rt_topology_loop excluded topology (h + 1) t1) = Inr t'"
    by (subst (asm) rt_topology_loop.simps) (auto simp: res_simps)
  have "table_ok now ifaces s (set excluded) (fst (t1, a))"
    by (rule foldE_invariant [OF pass, where P = "\<lambda>p. table_ok now ifaces s (set excluded) (fst p)"])
      (use 1(3,4) rt_topology_table_ok in fastforce)+
  then show ?case using 1(1) [OF pass refl] rest 1(3) by (cases a) auto
qed

lemma rt_alias_table_ok:
  assumes "rt_alias ia t = Inr t'" "table_ok now ifaces s X t" "ia \<in> set (m_ifaceAssocSet s)"
  shows "table_ok now ifaces s X t'"
  using assms(1)
proof (cases rule: rt_alias_cases)
  case (new e)
  then show ?thesis
    using assms(2,3) table_ok_route by (blast intro: table_ok_put iface_alias)
qed (use assms(2) in simp)

lemma rt_table_ok:
  assumes "rt_table now ifaces mainAddress s excluded = Inr t"
  shows "table_ok now ifaces s (set excluded) t"
proof -
  from assms obtain t1 t2 t3 where
    t1: "foldE (rt_neighbor now ifaces s excluded) (m_neighborSet s) [] = Inr t1" and
    t2: "foldE (rt_two_hop mainAddress s) (m_twoHopNeighborSet s) t1 = Inr t2" and
    t3: "rt_topology_loop excluded (m_topologySet s) 2 t2 = Inr t3" and
    t4: "foldE rt_alias (m_ifaceAssocSet s) t3 = Inr t"
    by (auto simp: rt_table_def res_simps)
  have "table_ok now ifaces s (set excluded) t1"
    by (rule foldE_invariant [OF t1]) (auto simp: table_ok_def [of _ _ _ _ "[]"] intro: rt_neighbor_table_ok)
  then have "table_ok now ifaces s (set excluded) t2"
    by (rule foldE_invariant [OF t2]) (auto intro: rt_two_hop_table_ok)
  then have "table_ok now ifaces s (set excluded) t3"
    by (intro rt_topology_loop_table_ok [OF t3]) simp
  then show ?thesis
    by (rule foldE_invariant [OF t4]) (auto intro: rt_alias_table_ok)
qed

section \<open>No assertion fails\<close>

definition ifaces_ok :: "time \<Rightarrow> (ipv4 \<times> ipv4) list list \<Rightarrow> olsr_state \<Rightarrow> bool" where
  "ifaces_ok now ifaces s \<longleftrightarrow>
     (\<forall>l\<in>set (m_linkSet s). lt_time l \<ge> now \<longrightarrow> find_interface (lt_localIfaceAddr l) 0 ifaces \<noteq> None)"

lemma AddEntry_total: "k > 0 \<Longrightarrow> \<exists>t'. AddEntry d nx i k t = Inr t'"
  by (simp add: AddEntry_def)

lemma AddEntryIface_total: "find_interface a 0 ifaces \<noteq> None \<Longrightarrow> \<exists>t'. AddEntryIface ifaces d nx a 1 t = Inr t'"
  by (auto simp: AddEntryIface_def AddEntry_def)

lemma rt_link_total:
  assumes "ifaces_ok now ifaces s" "l \<in> set (m_linkSet s)"
  shows "\<exists>p'. rt_link now ifaces s nb l p = Inr p'"
proof -
  obtain t m lt where p: "p = (t, m, lt)" by (cases p)
  show ?thesis
  proof (cases "lt_time l \<ge> now")
    case True
    then have "find_interface (lt_localIfaceAddr l) 0 ifaces \<noteq> None"
      using assms by (simp add: ifaces_ok_def)
    from AddEntryIface_total [OF this, of "lt_neighborIfaceAddr l" "lt_neighborIfaceAddr l" t]
    show ?thesis by (auto simp: rt_link_def p)
  qed (simp add: rt_link_def p)
qed

lemma rt_neighbor_total:
  assumes "ifaces_ok now ifaces s"
  shows "\<exists>t'. rt_neighbor now ifaces s excluded nb t = Inr t'"
proof -
  have "\<exists>p'. foldE (rt_link now ifaces s nb) (m_linkSet s) (t, False, None) = Inr p'"
    by (rule foldE_never_fails [OF rt_link_total [OF assms]])
  then obtain t1 m lt where
    loop: "foldE (rt_link now ifaces s nb) (m_linkSet s) (t, False, None) = Inr (t1, m, lt)" by auto
  have "link_loop_inv now ifaces s nb t {} (t, False, None)" by (simp add: link_loop_inv_def)
  from link_loop [OF loop this] have inv: "link_loop_inv now ifaces s nb t (set (m_linkSet s)) (t1, m, lt)"
    by simp
  show ?thesis
  proof (cases lt)
    case None
    then show ?thesis using loop by (simp add: rt_neighbor_def)
  next
    case (Some l)
    then have "find_interface (lt_localIfaceAddr l) 0 ifaces \<noteq> None"
      using inv assms by (auto simp: link_loop_inv_def live_link_def ifaces_ok_def)
    from AddEntryIface_total [OF this] show ?thesis
      using loop Some by (simp add: rt_neighbor_def)
  qed
qed

lemma rt_two_hop_total: "\<exists>t'. rt_two_hop mainAddress s tuple t = Inr t'"
  by (auto simp: rt_two_hop_def AddEntry_def split: option.splits)

lemma rt_topology_total:
  assumes "h + 1 > 0"
  shows "\<exists>p'. rt_topology excluded h tuple p = Inr p'"
  using assms by (cases p) (auto simp: rt_topology_def AddEntry_def split: option.splits)

text \<open>The hop counter cannot wrap: every further pass has found a new destination.\<close>

definition missing :: "topology_tuple list \<Rightarrow> table \<Rightarrow> nat" where
  "missing topology t = card {d \<in> tt_destAddr ` set topology. map_of t d = None}"

lemma missing_decreases:
  assumes "foldE (rt_topology excluded h) topology (t, False) = Inr (t', True)"
  shows "missing topology t' < missing topology t"
proof -
  let ?F = "\<lambda>t. {d \<in> tt_destAddr ` set topology. map_of t d = None}"
  note grows = rt_topology_pass_grows [OF assms]
  from grows obtain x where x: "x \<in> set topology" "map_of t (tt_destAddr x) = None"
    "map_of t' (tt_destAddr x) \<noteq> None" by auto
  have "?F t' \<subseteq> ?F t" using map_le_None [OF conjunct1 [OF grows]] by auto
  moreover have "tt_destAddr x \<in> ?F t" "tt_destAddr x \<notin> ?F t'" using x by auto
  ultimately have "?F t' \<subset> ?F t" by blast
  then show ?thesis unfolding missing_def by (intro psubset_card_mono) auto
qed

lemma unat_Suc_u32: "unat (h :: u32) + 1 < 2 ^ 32 \<Longrightarrow> unat (h + 1) = unat h + 1"
  by (simp add: unat_word_ariths)

lemma rt_topology_loop_total:
  "unat h + missing topology t + 1 < 2 ^ 32 \<Longrightarrow> \<exists>t'. rt_topology_loop excluded topology h t = Inr t'"
proof (induction "missing topology t" arbitrary: h t rule: less_induct)
  case less
  have h1: "unat (h + 1) = unat h + 1" using less.prems by (intro unat_Suc_u32) simp
  then have "h + 1 > 0" by (simp add: word_less_nat_alt)
  have "\<exists>p'. foldE (rt_topology excluded h) topology (t, False) = Inr p'"
    by (rule foldE_never_fails [OF rt_topology_total [OF \<open>h + 1 > 0\<close>]])
  then obtain t' a where pass: "foldE (rt_topology excluded h) topology (t, False) = Inr (t', a)" by auto
  show ?case
  proof (cases a)
    case True
    note dec = missing_decreases [OF pass [unfolded True [THEN eqTrueI]]]
    from less.hyps [OF dec, of "h + 1"] dec less.prems h1
    show ?thesis using pass True by (subst rt_topology_loop.simps) simp
  next
    case False
    then show ?thesis using pass by (subst rt_topology_loop.simps) simp
  qed
qed

lemma rt_alias_total: "table_ok now ifaces s X t \<Longrightarrow> \<exists>t'. rt_alias tuple t = Inr t'"
  by (auto simp: rt_alias_def Lookup_def AddEntry_def table_ok_def entry_ok_def split: option.splits)

lemma missing_le: "missing topology t \<le> length topology"
proof -
  have "missing topology t \<le> card (tt_destAddr ` set topology)"
    unfolding missing_def by (intro card_mono) auto
  also have "\<dots> \<le> length topology" by (meson card_image_le card_length finite_set le_trans)
  finally show ?thesis .
qed

lemma rt_table_total:
  assumes "ifaces_ok now ifaces s" "length (m_topologySet s) < 2 ^ 32 - 4"
  shows "\<exists>t. rt_table now ifaces mainAddress s excluded = Inr t"
proof -
  obtain t1 where t1: "foldE (rt_neighbor now ifaces s excluded) (m_neighborSet s) [] = Inr t1"
    using foldE_never_fails [of _ "rt_neighbor now ifaces s excluded"] rt_neighbor_total [OF assms(1)] by blast
  obtain t2 where t2: "foldE (rt_two_hop mainAddress s) (m_twoHopNeighborSet s) t1 = Inr t2"
    using foldE_never_fails [of _ "rt_two_hop mainAddress s"] rt_two_hop_total by blast
  have "unat (2 :: u32) + missing (m_topologySet s) t2 + 1 < 2 ^ 32"
    using missing_le [of "m_topologySet s" t2] assms(2) by simp
  from rt_topology_loop_total [OF this] obtain t3
    where t3: "rt_topology_loop excluded (m_topologySet s) 2 t2 = Inr t3" by blast
  have ok: "table_ok now ifaces s (set excluded) t3"
  proof -
    have "table_ok now ifaces s (set excluded) t1"
      by (rule foldE_invariant [OF t1]) (auto simp: table_ok_def [of _ _ _ _ "[]"] intro: rt_neighbor_table_ok)
    then have "table_ok now ifaces s (set excluded) t2"
      by (rule foldE_invariant [OF t2]) (auto intro: rt_two_hop_table_ok)
    then show ?thesis by (intro rt_topology_loop_table_ok [OF t3]) simp
  qed
  have "\<exists>t. foldE rt_alias (m_ifaceAssocSet s) t3 = Inr t \<and> table_ok now ifaces s (set excluded) t"
  proof (rule foldE_total [where P = "table_ok now ifaces s (set excluded)", OF ok])
    fix x t
    assume x: "x \<in> set (m_ifaceAssocSet s)" "table_ok now ifaces s (set excluded) t"
    from rt_alias_total [OF x(2)] obtain t' where "rt_alias x t = Inr t'" by blast
    with rt_alias_table_ok x show "\<exists>t'. rt_alias x t = Inr t' \<and> table_ok now ifaces s (set excluded) t'"
      by blast
  qed
  then show ?thesis using t1 t2 t3 by (auto simp: rt_table_def)
qed

lemma hna_clear_drop: "hna_clear i routes = Inr (drop ((length routes - i + 1) div 2) routes)"
proof (induction i routes rule: hna_clear.induct)
  case (1 i routes)
  show ?case
  proof (cases "i < length routes")
    case True
    then obtain r rs where r: "routes = r # rs" by (cases routes) auto
    have "hna_clear (i + 1) rs = Inr (drop ((length rs - (i + 1) + 1) div 2) rs)"
      using 1 True by (simp add: GetNRoutes_def r)
    moreover have "(length routes - i + 1) div 2 = Suc ((length rs - (i + 1) + 1) div 2)"
      using True r by (cases "length rs - i") auto
    ultimately have "hna_clear (i + 1) rs = Inr (drop ((length routes - i + 1) div 2) routes)"
      by (simp only: r drop_Suc_Cons)
    then show ?thesis using True by (subst hna_clear.simps) (simp add: GetNRoutes_def r)
  next
    case False
    then show ?thesis by (subst hna_clear.simps) (simp add: GetNRoutes_def)
  qed
qed

lemma hna_route_index_le: "hna_route_index n m routes \<le> length routes"
  by (simp add: hna_route_index_def length_takeWhile_le)

lemma rt_hna_total: "\<exists>routes'. rt_hna excluded s t tuple routes = Inr routes'"
proof -
  let ?i = "hna_route_index (at_networkAddr tuple) (at_netmask tuple) routes"
  have "?i = length routes \<or> ?i < length routes"
    using hna_route_index_le [of "at_networkAddr tuple" "at_netmask tuple" routes] by linarith
  then show ?thesis
    by (auto simp: rt_hna_def Let_def GetNRoutes_def GetMetric_def GetRoute_nth RemoveRoute_drop
        split: option.splits)
qed

lemma ComputeRoutingTableCore_table:
  "ComputeRoutingTableCore now ifaces mainAddress s excluded routes = Inr (t, routes') \<Longrightarrow>
    rt_table now ifaces mainAddress s excluded = Inr t"
  by (auto simp: ComputeRoutingTableCore_def res_simps)

lemma ComputeRoutingTableCore_total:
  assumes "rt_table now ifaces mainAddress s excluded = Inr t"
  shows "\<exists>routes'. ComputeRoutingTableCore now ifaces mainAddress s excluded routes = Inr (t, routes')"
proof -
  have "\<exists>r. foldE (rt_hna excluded s t) (m_associationSet s) r0 = Inr r" for r0
    by (rule foldE_never_fails [OF rt_hna_total])
  then show ?thesis using assms by (simp add: ComputeRoutingTableCore_def hna_clear_drop) (metis bindR.simps(2))
qed

lemma rt_tables_total:
  assumes "ifaces_ok now ifaces s" "length (m_topologySet s) < 2 ^ 32 - 4"
  shows "\<exists>t a r. rt_tables now ifaces mainAddress s blacklist routes = Inr (t, a, r) \<and>
    rt_table now ifaces mainAddress s [] = Inr t \<and> rt_table now ifaces mainAddress s blacklist = Inr a"
proof -
  obtain t where t: "rt_table now ifaces mainAddress s [] = Inr t" using rt_table_total [OF assms] by blast
  obtain a where a: "rt_table now ifaces mainAddress s blacklist = Inr a"
    using rt_table_total [OF assms] by blast
  obtain r where r: "ComputeRoutingTableCore now ifaces mainAddress s blacklist routes = Inr (a, r)"
    using ComputeRoutingTableCore_total [OF a] by blast
  obtain r' where "ComputeRoutingTableCore now ifaces mainAddress s [] r = Inr (t, r')"
    using ComputeRoutingTableCore_total [OF t] by blast
  moreover obtain r'' where "ComputeRoutingTableCore now ifaces mainAddress s [] routes = Inr (t, r'')"
    using ComputeRoutingTableCore_total [OF t] by blast
  ultimately show ?thesis using r t a by (cases "blacklist = []") (auto simp: rt_tables_def)
qed


section \<open>Next hops\<close>

text \<open>
  The address tables that HELLO processing maintains: neighbors and 2-hop neighbors are main
  addresses.
\<close>

definition main_addresses :: "olsr_state \<Rightarrow> bool" where
  "main_addresses s \<longleftrightarrow>
     (\<forall>nb\<in>set (m_neighborSet s). GetMainAddress (nt_neighborMainAddr nb) s = nt_neighborMainAddr nb) \<and>
     (\<forall>t\<in>set (m_twoHopNeighborSet s).
        GetMainAddress (th_twoHopNeighborAddr t) s = th_twoHopNeighborAddr t)"

text \<open>Every next hop has an entry of its own.\<close>

definition hops_ok :: "table \<Rightarrow> bool" where
  "hops_ok t \<longleftrightarrow> (\<forall>d e. map_of t d = Some e \<longrightarrow>
     (\<exists>e'. map_of t (rt_nextAddr e) = Some e' \<and> self_entry (rt_nextAddr e) e'))"

lemma hops_ok_put_new:
  assumes "hops_ok t" "map_of t d = None" "AddEntry d (rt_nextAddr e) i k t = Inr t'"
    and "map_of t d0 = Some e"
  shows "hops_ok t'"
proof -
  have ne: "rt_nextAddr e0 \<noteq> d" if "map_of t x = Some e0" for x e0
    using assms(1,2) that by (force simp: hops_ok_def)
  show ?thesis
    using AddEntry_Inr [OF assms(3)] assms(1,4) ne unfolding hops_ok_def by (auto simp: ne)
qed

lemma hops_ok_put_over:
  assumes "hops_ok t" "AddEntry d nx i k t = Inr t'"
    and "\<forall>x e. map_of t x = Some e \<longrightarrow> rt_nextAddr e \<noteq> d"
    and "map_of t nx = Some e0" "self_entry nx e0" "nx \<noteq> d"
  shows "hops_ok t'"
  using AddEntry_Inr [OF assms(2)] assms unfolding hops_ok_def by auto

lemma hops_ok_put_self:
  assumes "hops_ok t"
  shows "hops_ok (map_put d \<lparr>rt_destAddr = d, rt_nextAddr = d, rt_interface = i, rt_distance = k\<rparr> t)"
  using assms unfolding hops_ok_def by (auto simp: self_entry_def)

lemma link_loop_hops_ok:
  assumes "foldE (rt_link now ifaces s nb) ls (t, m, lt) = Inr (t', m', lt')" "hops_ok t"
  shows "hops_ok t'"
proof -
  have "hops_ok (fst (t', m', lt'))"
  proof (rule foldE_invariant [OF assms(1), where P = "\<lambda>p. hops_ok (fst p)"])
    fix l p p'
    assume ok: "hops_ok (fst p)" and step: "rt_link now ifaces s nb l p = Inr p'"
    obtain t m lt t' m' lt' where p: "p = (t, m, lt)" "p' = (t', m', lt')"
      by (cases p, cases p')
    from step [unfolded p] show "hops_ok (fst p')"
      by (cases rule: rt_link_cases) (use ok hops_ok_put_self in \<open>auto simp: p\<close>)
  qed (use assms(2) in simp)
  then show ?thesis by simp
qed

text \<open>
  A main address is a next hop only when it is the address of a live link of that neighbor.
\<close>

lemma next_hop_main:
  assumes "table_ok now ifaces s X t" "map_of t x = Some e"
    and "GetMainAddress (rt_nextAddr e) s = rt_nextAddr e"
  shows "\<exists>nb\<in>set (m_neighborSet s). nt_status nb = STATUS_SYM \<and> nt_neighborMainAddr nb = rt_nextAddr e \<and>
    (\<exists>l\<in>set (m_linkSet s). live_link now s nb l \<and> lt_neighborIfaceAddr l = rt_nextAddr e)"
proof -
  from route_first_hop [OF table_ok_route [OF assms(1,2)]] obtain nb l where
    "nb \<in> set (m_neighborSet s)" "nt_status nb = STATUS_SYM" "l \<in> set (m_linkSet s)"
    "live_link now s nb l" "lt_neighborIfaceAddr l = rt_nextAddr e"
    by (auto simp: first_hop_def)
  moreover from this have "nt_neighborMainAddr nb = rt_nextAddr e"
    using assms(3) by (simp add: live_link_def)
  ultimately show ?thesis by blast
qed

lemma rt_neighbor_hops_ok:
  assumes "rt_neighbor now ifaces s excluded nb t = Inr t'" "main_addresses s"
    and "table_ok now ifaces s (set excluded) t" "hops_ok t" "nb \<in> set (m_neighborSet s)"
  shows "hops_ok t'"
proof (cases "nt_neighborMainAddr nb \<in> set excluded \<or> nt_status nb \<noteq> STATUS_SYM")
  case True
  then show ?thesis using assms by (auto simp: rt_neighbor_def split: if_splits)
next
  case False
  then have nb: "nt_neighborMainAddr nb \<notin> set excluded" "nt_status nb = STATUS_SYM" by auto
  let ?a = "nt_neighborMainAddr nb"
  from assms(1) nb obtain t1 m lt where
    loop: "foldE (rt_link now ifaces s nb) (m_linkSet s) (t, False, None) = Inr (t1, m, lt)"
    and fin: "(case lt of Some l \<Rightarrow> if \<not> m then AddEntryIface ifaces ?a
        (lt_neighborIfaceAddr l) (lt_localIfaceAddr l) 1 t1 else Inr t1 | None \<Rightarrow> Inr t1) = Inr t'"
    by (auto simp: rt_neighbor_def res_simps)
  have ok1: "hops_ok t1" by (rule link_loop_hops_ok [OF loop assms(4)])
  have tok1: "table_ok now ifaces s (set excluded) t1"
    by (rule link_loop_table_ok [OF loop assms(3,5) nb(2,1)])
  have "link_loop_inv now ifaces s nb t {} (t, False, None)" by (simp add: link_loop_inv_def)
  from link_loop [OF loop this] have inv: "link_loop_inv now ifaces s nb t (set (m_linkSet s)) (t1, m, lt)"
    by simp
  show ?thesis
  proof (cases "lt = None \<or> m")
    case True
    then show ?thesis using fin ok1 by (auto split: option.splits if_splits)
  next
    case F: False
    then obtain l where l: "lt = Some l" by auto
    obtain i where i: "AddEntry ?a (lt_neighborIfaceAddr l) i 1 t1 = Inr t'"
      using fin F l by (auto dest!: AddEntryIface_Inr)
    have no: "\<not> (\<exists>l\<in>set (m_linkSet s). live_link now s nb l \<and> lt_neighborIfaceAddr l = ?a)"
      using inv F by (simp add: link_loop_inv_def)
    have "rt_nextAddr e \<noteq> ?a" if e: "map_of t1 x = Some e" for x e
    proof
      assume a: "rt_nextAddr e = ?a"
      have "GetMainAddress ?a s = ?a" using assms(2,5) by (simp add: main_addresses_def)
      then obtain nb' l' where "nt_neighborMainAddr nb' = ?a" "l' \<in> set (m_linkSet s)"
        "live_link now s nb' l'" "lt_neighborIfaceAddr l' = ?a"
        using next_hop_main [OF tok1 e] a by auto
      then show False using no by (auto simp: live_link_def)
    qed
    moreover obtain e0 where "map_of t1 (lt_neighborIfaceAddr l) = Some e0"
      "self_entry (lt_neighborIfaceAddr l) e0" and live: "l \<in> set (m_linkSet s)" "live_link now s nb l"
      using inv l by (auto simp: link_loop_inv_def)
    moreover have "lt_neighborIfaceAddr l \<noteq> ?a" using no live by blast
    ultimately show ?thesis using hops_ok_put_over [OF ok1 i] by blast
  qed
qed

lemma rt_two_hop_hops_ok:
  assumes "rt_two_hop mainAddress s tuple t = Inr t'" "main_addresses s"
    and "table_ok now ifaces s X t" "hops_ok t" "tuple \<in> set (m_twoHopNeighborSet s)"
  shows "hops_ok t'"
  using assms(1)
proof (cases rule: rt_two_hop_cases)
  case (new e)
  let ?d = "th_twoHopNeighborAddr tuple"
  have main: "GetMainAddress ?d s = ?d" using assms(2,5) by (simp add: main_addresses_def)
  have no: "rt_nextAddr e' \<noteq> ?d" if e': "map_of t x = Some e'" for x e'
    using next_hop_main [OF assms(3) e'] main new(1) by (auto simp: FindSymNeighborTuple_def)
  obtain e0 where "map_of t (rt_nextAddr e) = Some e0" "self_entry (rt_nextAddr e) e0"
    using assms(4) new(3) by (auto simp: hops_ok_def)
  then show ?thesis using hops_ok_put_over [OF assms(4) new(4)] no new(3) by blast
qed (use assms(4) in simp)

lemma rt_topology_loop_hops_ok:
  "rt_topology_loop excluded topology h t = Inr t' \<Longrightarrow> hops_ok t \<Longrightarrow> hops_ok t'"
proof (induction excluded topology h t arbitrary: t' rule: rt_topology_loop.induct)
  case (1 excluded topology h t)
  from 1(2) obtain t1 a where pass: "foldE (rt_topology excluded h) topology (t, False) = Inr (t1, a)"
    and rest: "(if \<not> a then Inr t1 else rt_topology_loop excluded topology (h + 1) t1) = Inr t'"
    by (subst (asm) rt_topology_loop.simps) (auto simp: res_simps)
  have "hops_ok (fst (t1, a))"
  proof (rule foldE_invariant [OF pass, where P = "\<lambda>p. hops_ok (fst p)"])
    fix x p p'
    assume ok: "hops_ok (fst p)" and step: "rt_topology excluded h x p = Inr p'"
    obtain t a t' a' where p: "p = (t, a)" "p' = (t', a')" by (cases p, cases p')
    from step [unfolded p] show "hops_ok (fst p')"
    proof (cases rule: rt_topology_cases)
      case (new e)
      then have "AddEntry (tt_destAddr x) (rt_nextAddr e) (rt_interface e) (h + 1) t = Inr t'"
        by (simp add: AddEntry_def)
      from hops_ok_put_new [OF _ new(2) this new(3)] ok show ?thesis by (simp add: p)
    qed (use ok in \<open>simp add: p\<close>)
  qed (use 1(3) in simp)
  then show ?case using 1(1) [OF pass refl] rest by (cases a) auto
qed

lemma rt_alias_hops_ok:
  assumes "rt_alias tuple t = Inr t'" "hops_ok t"
  shows "hops_ok t'"
  using assms(1)
  by (cases rule: rt_alias_cases) (use assms(2) hops_ok_put_new in blast)+

lemma rt_table_hops_ok:
  assumes "rt_table now ifaces mainAddress s excluded = Inr t" "main_addresses s"
  shows "hops_ok t"
proof -
  from assms(1) obtain t1 t2 t3 where
    t1: "foldE (rt_neighbor now ifaces s excluded) (m_neighborSet s) [] = Inr t1" and
    t2: "foldE (rt_two_hop mainAddress s) (m_twoHopNeighborSet s) t1 = Inr t2" and
    t3: "rt_topology_loop excluded (m_topologySet s) 2 t2 = Inr t3" and
    t4: "foldE rt_alias (m_ifaceAssocSet s) t3 = Inr t"
    by (auto simp: rt_table_def res_simps)
  have "table_ok now ifaces s (set excluded) t1 \<and> hops_ok t1"
    by (rule foldE_invariant [OF t1])
      (auto simp: table_ok_def [of _ _ _ _ "[]"] hops_ok_def [of "[]"]
        intro: rt_neighbor_table_ok rt_neighbor_hops_ok [OF _ assms(2)])
  then have "table_ok now ifaces s (set excluded) t2 \<and> hops_ok t2"
    by (rule foldE_invariant [OF t2])
      (auto intro: rt_two_hop_table_ok rt_two_hop_hops_ok [OF _ assms(2)])
  then have "hops_ok t3" by (intro rt_topology_loop_hops_ok [OF t3]) simp
  then show ?thesis
    by (rule foldE_invariant [OF t4]) (auto intro: rt_alias_hops_ok)
qed

text \<open>So the walk of \<open>FindSendEntry\<close> from an entry of the table ends after at most one step.\<close>

lemma FindSendEntry_hops_ok:
  assumes "hops_ok t" "map_of t d = Some e" "rt_destAddr e = d"
  shows "\<exists>e'. FindSendEntry t e = Some (Some e') \<and> self_entry (rt_nextAddr e) e' \<and>
    map_of t (rt_nextAddr e) = Some e'"
proof -
  from assms obtain e' where e': "map_of t (rt_nextAddr e) = Some e'" "self_entry (rt_nextAddr e) e'"
    by (auto simp: hops_ok_def)
  show ?thesis
  proof (cases "rt_destAddr e = rt_nextAddr e")
    case True
    then show ?thesis using assms by (subst FindSendEntry.simps) (auto simp: self_entry_def)
  next
    case False
    have "FindSendEntry t e' = Some (Some e')"
      using e'(2) by (subst FindSendEntry.simps) (simp add: self_entry_def)
    then show ?thesis using False e' by (subst FindSendEntry.simps) (simp add: Lookup_def)
  qed
qed

section \<open>The topology loop is exhaustive\<close>

lemma rt_topology_step:
  assumes "rt_topology excluded h x (t, a) = Inr (t1, a1)" 
  shows "map_of t \<subseteq>\<^sub>m map_of t1" 
   and "tt_lastAddr x \<notin> set excluded \<Longrightarrow> map_of t (tt_lastAddr x) = Some e \<Longrightarrow> rt_distance e = h \<Longrightarrow>
        map_of t1 (tt_destAddr x) \<noteq> None"
   and "map_of t1 d = Some e \<Longrightarrow> map_of t d = Some e \<or> rt_distance e = h + 1"
   and "a \<Longrightarrow> a1" and "\<not> a1 \<Longrightarrow> t1 = t"
proof -
  show "map_of t \<subseteq>\<^sub>m map_of t1" using assms
    by (cases rule: rt_topology_cases) (simp_all only: map_le_refl map_le_put)
  show "tt_lastAddr x \<notin> set excluded \<Longrightarrow> map_of t (tt_lastAddr x) = Some e \<Longrightarrow> rt_distance e = h \<Longrightarrow>
        map_of t1 (tt_destAddr x) \<noteq> None"
    using assms by (auto simp: rt_topology_def Lookup_def res_simps dest!: AddEntry_Inr
        split: option.splits)
  show "map_of t1 d = Some e \<Longrightarrow> map_of t d = Some e \<or> rt_distance e = h + 1"
    using assms by (cases rule: rt_topology_cases) (auto split: if_splits)
  show "a \<Longrightarrow> a1" "\<not> a1 \<Longrightarrow> t1 = t"
    using assms by (cases rule: rt_topology_cases; simp)+
qed

lemma rt_topology_pass:
  assumes "foldE (rt_topology excluded h) xs (t, a) = Inr (t', a')"
  shows "(\<forall>x\<in>set xs. \<forall>e. tt_lastAddr x \<notin> set excluded \<and> map_of t (tt_lastAddr x) = Some e \<and>
      rt_distance e = h \<longrightarrow> map_of t' (tt_destAddr x) \<noteq> None) \<and>
    (\<forall>d e. map_of t' d = Some e \<longrightarrow> map_of t d = Some e \<or> rt_distance e = h + 1) \<and>
    (a \<longrightarrow> a') \<and> (\<not> a' \<longrightarrow> t' = t)"
  using assms
proof (induction xs arbitrary: t a)
  case (Cons x xs)
  from Cons.prems obtain t1 a1 where step: "rt_topology excluded h x (t, a) = Inr (t1, a1)"
    and rest: "foldE (rt_topology excluded h) xs (t1, a1) = Inr (t', a')"
    by (auto simp: res_simps)
  note IH = Cons.IH [OF rest]
  have grow: "map_of t1 \<subseteq>\<^sub>m map_of t'" using rt_topology_pass_grows [OF rest] by blast
  have last: "map_of t' (tt_destAddr y) \<noteq> None" if y: "y \<in> set (x # xs)"
    "tt_lastAddr y \<notin> set excluded" "map_of t (tt_lastAddr y) = Some e" "rt_distance e = h" for y e
  proof (cases "y = x")
    case True
    then have "map_of t1 (tt_destAddr y) \<noteq> None" using rt_topology_step(2) [OF step] y(2-4) by blast
    then show ?thesis by (rule contrapos_nn) (rule map_le_None [OF grow])
  next
    case False
    then show ?thesis using IH y map_le_Some [OF rt_topology_step(1) [OF step] y(3)] by auto
  qed
  have "map_of t d = Some e \<or> rt_distance e = h + 1" if "map_of t' d = Some e" for d e
    using IH that rt_topology_step(3) [OF step] by blast
  with last show ?case using IH rt_topology_step(4,5) [OF step] by blast
qed simp

lemma rt_topology_loop_exhaustive:
  "rt_topology_loop excluded topology h t = Inr t' \<Longrightarrow>
   unat h + missing topology t + 1 < 2 ^ 32 \<Longrightarrow>
   (\<And>d e. map_of t d = Some e \<Longrightarrow> unat (rt_distance e) \<le> unat h) \<Longrightarrow>
   (\<And>x e. x \<in> set topology \<Longrightarrow> tt_lastAddr x \<notin> set excluded \<Longrightarrow> map_of t (tt_lastAddr x) = Some e \<Longrightarrow>
      2 \<le> rt_distance e \<Longrightarrow> unat (rt_distance e) < unat h \<Longrightarrow> map_of t (tt_destAddr x) \<noteq> None) \<Longrightarrow>
   x \<in> set topology \<Longrightarrow> tt_lastAddr x \<notin> set excluded \<Longrightarrow> map_of t' (tt_lastAddr x) = Some e \<Longrightarrow>
   2 \<le> rt_distance e \<Longrightarrow> map_of t' (tt_destAddr x) \<noteq> None"
proof (induction excluded topology h t arbitrary: t' x e rule: rt_topology_loop.induct)
  case (1 excluded topology h t)
  note prems = "1.prems"
  from prems(1) obtain t1 a where pass: "foldE (rt_topology excluded h) topology (t, False) = Inr (t1, a)"
    and rest: "(if \<not> a then Inr t1 else rt_topology_loop excluded topology (h + 1) t1) = Inr t'"
    by (subst (asm) rt_topology_loop.simps) (auto simp: res_simps)
  note P = rt_topology_pass [OF pass]
  have grow: "map_of t \<subseteq>\<^sub>m map_of t1" using rt_topology_pass_grows [OF pass] by blast
  have h1: "unat (h + 1) = unat h + 1" using prems(2) by (intro unat_Suc_u32) simp
  have below: "map_of t1 (tt_destAddr y) \<noteq> None"
    if y: "y \<in> set topology" "tt_lastAddr y \<notin> set excluded" "map_of t1 (tt_lastAddr y) = Some e"
      "2 \<le> rt_distance e" "unat (rt_distance e) < unat (h + 1)" for y e
  proof -
    have "rt_distance e \<noteq> h + 1" using y(5) by auto
    then have t: "map_of t (tt_lastAddr y) = Some e" using P y(3) by blast
    show ?thesis
    proof (cases "rt_distance e = h")
      case True
      then show ?thesis using P y(1,2) t by blast
    next
      case False
      then have "unat (rt_distance e) < unat h" using y(5) h1 by (simp add: word_unat_eq_iff)
      then have "map_of t (tt_destAddr y) \<noteq> None" using prems(4) y(1,2,4) t by blast
      then show ?thesis by (rule contrapos_nn) (rule map_le_None [OF grow])
    qed
  qed
  show ?case
  proof (cases a)
    case False
    then have "t' = t1" "t1 = t" using rest P by auto
    then have "unat (rt_distance e) < unat (h + 1)" using prems(3) prems(7) h1 by (simp add: less_Suc_eq_le)
    then show ?thesis using below prems(5-8) \<open>t' = t1\<close> by blast
  next
    case True
    note dec = missing_decreases [OF pass [unfolded True [THEN eqTrueI]]]
    show ?thesis
    proof (rule "1.IH" [OF pass refl _ _ _ _ _ prems(5,6,7,8)])
      show "\<not> \<not> a" using True by simp
      show "rt_topology_loop excluded topology (h + 1) t1 = Inr t'" using rest True by simp
      show "unat (h + 1) + missing topology t1 + 1 < 2 ^ 32" using dec prems(2) h1 by linarith
      show "unat (rt_distance e) \<le> unat (h + 1)" if "map_of t1 d = Some e" for d e
      proof -
        have "map_of t d = Some e \<or> rt_distance e = h + 1" using P that by blast
        then show ?thesis using prems(3) [of d e] h1 by auto
      qed
    qed (rule below)
  qed
qed


lemma dist_put:
  assumes "AddEntry d nx i k t = Inr t'" "\<forall>d e. map_of t d = Some e \<longrightarrow> unat (rt_distance e) \<le> n" "unat k \<le> n"
  shows "\<forall>d e. map_of t' d = Some e \<longrightarrow> unat (rt_distance e) \<le> n"
  using AddEntry_Inr [OF assms(1)] assms(2,3) by auto

lemma rt_neighbor_dist:
  assumes "rt_neighbor now ifaces s excluded nb t = Inr t'"
    and "\<forall>d e. map_of t d = Some e \<longrightarrow> unat (rt_distance e) \<le> 2"
  shows "\<forall>d e. map_of t' d = Some e \<longrightarrow> unat (rt_distance e) \<le> 2"
proof (cases "nt_neighborMainAddr nb \<in> set excluded \<or> nt_status nb \<noteq> STATUS_SYM")
  case True
  then show ?thesis using assms by (auto simp: rt_neighbor_def split: if_splits)
next
  case False
  with assms(1) obtain t1 m lt where
    loop: "foldE (rt_link now ifaces s nb) (m_linkSet s) (t, False, None) = Inr (t1, m, lt)"
    and fin: "(case lt of Some l \<Rightarrow> if \<not> m then AddEntryIface ifaces (nt_neighborMainAddr nb)
        (lt_neighborIfaceAddr l) (lt_localIfaceAddr l) 1 t1 else Inr t1 | None \<Rightarrow> Inr t1) = Inr t'"
    by (auto simp: rt_neighbor_def res_simps)
  have "\<forall>d e. map_of (fst (t1, m, lt)) d = Some e \<longrightarrow> unat (rt_distance e) \<le> 2"
  proof (rule foldE_invariant [OF loop,
        where P = "\<lambda>p. \<forall>d e. map_of (fst p) d = Some e \<longrightarrow> unat (rt_distance e) \<le> 2"])
    fix l p p'
    assume ok: "\<forall>d e. map_of (fst p) d = Some e \<longrightarrow> unat (rt_distance e) \<le> 2"
      and step: "rt_link now ifaces s nb l p = Inr p'"
    obtain t m lt t' m' lt' where p: "p = (t, m, lt)" "p' = (t', m', lt')" by (cases p, cases p')
    from step [unfolded p] show "\<forall>d e. map_of (fst p') d = Some e \<longrightarrow> unat (rt_distance e) \<le> 2"
      by (cases rule: rt_link_cases) (use ok in \<open>auto simp: p split: if_splits\<close>)
  qed (use assms(2) in simp)
  then have t1: "\<forall>d e. map_of t1 d = Some e \<longrightarrow> unat (rt_distance e) \<le> 2" by simp
  show ?thesis
    using fin t1
    by (auto dest!: AddEntryIface_Inr AddEntry_Inr split: option.splits if_splits)
qed

lemma rt_table_exhaustive:
  assumes t: "rt_table now ifaces mainAddress s excluded = Inr t"
    and len: "length (m_topologySet s) < 2 ^ 32 - 4"
    and x: "x \<in> set (m_topologySet s)" "tt_lastAddr x \<notin> set excluded"
    and e: "map_of t (tt_lastAddr x) = Some e" "2 \<le> rt_distance e"
    and na: "tt_lastAddr x \<notin> ia_ifaceAddr ` set (m_ifaceAssocSet s)"
  shows "map_of t (tt_destAddr x) \<noteq> None"
proof -
  let ?D = "\<lambda>t. \<forall>d e. map_of t d = Some e \<longrightarrow> unat (rt_distance e) \<le> 2"
  from t obtain t1 t2 t3 where
    t1: "foldE (rt_neighbor now ifaces s excluded) (m_neighborSet s) [] = Inr t1" and
    t2: "foldE (rt_two_hop mainAddress s) (m_twoHopNeighborSet s) t1 = Inr t2" and
    t3: "rt_topology_loop excluded (m_topologySet s) 2 t2 = Inr t3" and
    t4: "foldE rt_alias (m_ifaceAssocSet s) t3 = Inr t"
    by (auto simp: rt_table_def res_simps)
  have "?D t1" by (rule foldE_invariant [OF t1]) (auto dest: rt_neighbor_dist)
  have d2: "?D t2"
  proof (rule foldE_invariant [OF t2, where P = ?D])
    fix y t t' assume D: "?D t" and st: "rt_two_hop mainAddress s y t = Inr t'"
    from st show "?D t'" by (cases rule: rt_two_hop_cases) (use D dist_put [OF _ D] in auto)
  qed fact
  let ?P = "\<lambda>u. map_of t3 \<subseteq>\<^sub>m map_of u \<and> map_of u (tt_lastAddr x) = map_of t3 (tt_lastAddr x)"
  have al: "?P t"
  proof (rule foldE_invariant [OF t4, where P = ?P])
    fix y u u' assume y: "y \<in> set (m_ifaceAssocSet s)" and P: "?P u" and st: "rt_alias y u = Inr u'"
    from st show "?P u'"
    proof (cases rule: rt_alias_cases)
      case (new e)
      note u' = conjunct2 [OF AddEntry_Inr [OF new(3)]]
      have "map_of u \<subseteq>\<^sub>m map_of u'" unfolding u' by (rule map_le_put [OF new(2)])
      moreover have "tt_lastAddr x \<noteq> ia_ifaceAddr y" using y na by blast
      ultimately show ?thesis using P by (auto simp: u' intro: map_le_trans)
    qed (use P in simp)
  qed simp
  have "map_of t3 (tt_destAddr x) \<noteq> None"
  proof (rule rt_topology_loop_exhaustive [OF t3 _ _ _ x _ e(2)])
    show "unat (2 :: u32) + missing (m_topologySet s) t2 + 1 < 2 ^ 32"
      using missing_le [of "m_topologySet s" t2] len by simp
    show "map_of t3 (tt_lastAddr x) = Some e" using al e(1) by simp
  qed (use d2 in \<open>auto simp: word_le_nat_alt\<close>)
  then show ?thesis by (rule contrapos_nn) (rule map_le_None [OF conjunct1 [OF al]])
qed

section \<open>Properties\<close>

text \<open>
  C13: with the local address of every live link on an interface of the node, the table computation
  always ends and no assertion fails, for any exclusion set.
\<close>

theorem routing_table_total:
  assumes "ifaces_ok now ifaces s" "length (m_topologySet s) < 2 ^ 32 - 4"
  shows "\<exists>t a r. rt_tables now ifaces mainAddress s blacklist routes = Inr (t, a, r)"
  using rt_tables_total [OF assms] by blast

definition example_rt_state :: olsr_state where
  "example_rt_state = OlsrState_init\<lparr>
     m_linkSet := [\<lparr>lt_localIfaceAddr = 1, lt_neighborIfaceAddr = 2, lt_symTime = 9, lt_asymTime = 9,
                    lt_time = 9\<rparr>],
     m_neighborSet := [\<lparr>nt_neighborMainAddr = 2, nt_status = STATUS_SYM, nt_willingness = WILL_DEFAULT\<rparr>],
     m_twoHopNeighborSet := [\<lparr>th_neighborMainAddr = 2, th_twoHopNeighborAddr = 3, th_expirationTime = 9\<rparr>],
     m_topologySet := [\<lparr>tt_destAddr = 4, tt_lastAddr = 3, tt_sequenceNumber = 1, tt_expirationTime = 9\<rparr>]\<rparr>"

definition example_ifaces :: "(ipv4 \<times> ipv4) list list" where
  "example_ifaces = [[(ipv4_loopback, 0xff000000)], [(1, 0xffffff00)]]"

definition example_table :: table where
  "example_table =
     [(2, \<lparr>rt_destAddr = 2, rt_nextAddr = 2, rt_interface = 1, rt_distance = 1\<rparr>),
      (3, \<lparr>rt_destAddr = 3, rt_nextAddr = 2, rt_interface = 1, rt_distance = 2\<rparr>),
      (4, \<lparr>rt_destAddr = 4, rt_nextAddr = 2, rt_interface = 1, rt_distance = 3\<rparr>)]"

lemma example_rt_table: "rt_table 5 example_ifaces 1 example_rt_state [] = Inr example_table"
  by code_simp

theorem routing_table_total_witness:
  "\<exists>t a r. rt_tables 5 example_ifaces 1 example_rt_state [2] [] = Inr (t, a, r)"
proof (rule routing_table_total)
  show "ifaces_ok 5 example_ifaces example_rt_state" by code_simp
  show "length (m_topologySet example_rt_state) < 2 ^ 32 - 4" by (simp add: example_rt_state_def)
qed



text \<open>
  Resolving any destination of the table ends after at most one step of \<open>FindSendEntry\<close>, at
  an entry that is its own next hop, when neighbors and 2-hop neighbors are recorded under main
  addresses.
\<close>

theorem send_entry_found:
  assumes "rt_table now ifaces mainAddress s excluded = Inr t" "main_addresses s"
    and "Lookup d t = Some e"
  shows "\<exists>e'. FindSendEntry t e = Some (Some e') \<and> rt_destAddr e' = rt_nextAddr e \<and>
    rt_nextAddr e' = rt_nextAddr e"
proof -
  have "rt_destAddr e = d" using rt_table_ok [OF assms(1)] assms(3)
    by (simp add: table_ok_def entry_ok_def Lookup_def)
  then show ?thesis
    using FindSendEntry_hops_ok [OF rt_table_hops_ok [OF assms(1,2)]] assms(3)
    by (auto simp: Lookup_def self_entry_def)
qed

theorem send_entry_found_witness:
  "\<exists>e'. FindSendEntry example_table \<lparr>rt_destAddr = 4, rt_nextAddr = 2, rt_interface = 1, rt_distance = 3\<rparr> =
      Some (Some e') \<and> rt_destAddr e' = 2 \<and> rt_nextAddr e' = 2"
proof -
  have "main_addresses example_rt_state" by code_simp
  from send_entry_found [OF example_rt_table this, of 4] show ?thesis
    by (simp add: example_table_def Lookup_def)
qed

text \<open>
  The table is complete for the flooded topology: the destination of every topology tuple whose
  last hop is a routed main address at distance 2 or more, not excluded, has a route.
\<close>

theorem routing_table_exhaustive:
  assumes "rt_table now ifaces mainAddress s excluded = Inr t"
    and "length (m_topologySet s) < 2 ^ 32 - 4"
    and "x \<in> set (m_topologySet s)" "tt_lastAddr x \<notin> set excluded"
    and "Lookup (tt_lastAddr x) t = Some e" "2 \<le> rt_distance e"
    and "tt_lastAddr x \<notin> ia_ifaceAddr ` set (m_ifaceAssocSet s)"
  shows "Lookup (tt_destAddr x) t \<noteq> None"
  using rt_table_exhaustive assms by (simp add: Lookup_def)

theorem routing_table_exhaustive_witness: "Lookup 4 example_table \<noteq> None"
  using routing_table_exhaustive [OF example_rt_table,
      of "\<lparr>tt_destAddr = 4, tt_lastAddr = 3, tt_sequenceNumber = 1, tt_expirationTime = 9\<rparr>"
         "\<lparr>rt_destAddr = 3, rt_nextAddr = 2, rt_interface = 1, rt_distance = 2\<rparr>"]
  by (simp add: example_rt_state_def OlsrState_init_def example_table_def Lookup_def)

text \<open>
  C7: a next hop that the suspect-avoiding table yields never belongs to a suspected node: the main
  address of the send entry is not on the blacklist.
\<close>

theorem suspect_avoiding_next_hop:
  assumes "rt_tables now ifaces mainAddress s blacklist routes = Inr (t, a, r)" "main_addresses s"
    and "FindSuspectAvoidingSendEntry a d = Some (Some e)"
  shows "GetMainAddress (rt_nextAddr e) s \<notin> set blacklist"
proof -
  have a: "rt_table now ifaces mainAddress s blacklist = Inr a"
    using assms(1) ComputeRoutingTableCore_table
    by (auto simp: rt_tables_def res_simps split: if_splits)
  from assms(3) obtain e0 where e0: "Lookup d a = Some e0" "FindSendEntry a e0 = Some (Some e)"
    by (auto simp: FindSuspectAvoidingSendEntry_def split: option.splits)
  have ok: "table_ok now ifaces s (set blacklist) a" by (rule rt_table_ok [OF a])
  then have "rt_destAddr e0 = d" using e0(1) by (simp add: table_ok_def entry_ok_def Lookup_def)
  with FindSendEntry_hops_ok [OF rt_table_hops_ok [OF a assms(2)], of d e0] e0
  have "rt_nextAddr e = rt_nextAddr e0" by (auto simp: Lookup_def self_entry_def)
  moreover obtain nb where "first_hop now ifaces s (set blacklist) (rt_nextAddr e0) (rt_interface e0) nb"
    using route_first_hop [OF table_ok_route [OF ok]] e0(1) by (auto simp: Lookup_def)
  ultimately show ?thesis by (auto simp: first_hop_def live_link_def)
qed

definition example_two_paths :: olsr_state where
  "example_two_paths = OlsrState_init\<lparr>
     m_linkSet := [\<lparr>lt_localIfaceAddr = 1, lt_neighborIfaceAddr = 2, lt_symTime = 9, lt_asymTime = 9,
                    lt_time = 9\<rparr>,
                   \<lparr>lt_localIfaceAddr = 1, lt_neighborIfaceAddr = 3, lt_symTime = 9, lt_asymTime = 9,
                    lt_time = 9\<rparr>],
     m_neighborSet := [\<lparr>nt_neighborMainAddr = 2, nt_status = STATUS_SYM, nt_willingness = WILL_DEFAULT\<rparr>,
                       \<lparr>nt_neighborMainAddr = 3, nt_status = STATUS_SYM, nt_willingness = WILL_DEFAULT\<rparr>],
     m_twoHopNeighborSet := [\<lparr>th_neighborMainAddr = 3, th_twoHopNeighborAddr = 4, th_expirationTime = 9\<rparr>,
                             \<lparr>th_neighborMainAddr = 2, th_twoHopNeighborAddr = 4, th_expirationTime = 9\<rparr>]\<rparr>"

definition rt_entry :: "ipv4 \<Rightarrow> ipv4 \<Rightarrow> u32 \<Rightarrow> ipv4 \<times> RoutingTableEntry" where
  "rt_entry d n k = (d, \<lparr>rt_destAddr = d, rt_nextAddr = n, rt_interface = 1, rt_distance = k\<rparr>)"

lemma example_two_paths_tables:
  "rt_tables 5 example_ifaces 1 example_two_paths [2] [] =
     Inr ([rt_entry 2 2 1, rt_entry 3 3 1, rt_entry 4 2 2], [rt_entry 3 3 1, rt_entry 4 3 2], [])"
  by code_simp

theorem suspect_avoiding_next_hop_witness:
  "FindSuspectAvoidingSendEntry [rt_entry 3 3 1, rt_entry 4 3 2] 4 = Some (Some (snd (rt_entry 3 3 1))) \<and>
   GetMainAddress 3 example_two_paths \<notin> set [2]"
proof -
  have w: "main_addresses example_two_paths" by code_simp
  have f: "FindSuspectAvoidingSendEntry [rt_entry 3 3 1, rt_entry 4 3 2] 4 = Some (Some (snd (rt_entry 3 3 1)))"
    by (simp add: FindSuspectAvoidingSendEntry_def Lookup_def rt_entry_def FindSendEntry.simps)
  from suspect_avoiding_next_hop [OF example_two_paths_tables w f] f show ?thesis
    by (simp add: rt_entry_def)
qed

text \<open>
  Detection does not touch the routing table that the node advertises and uses by default. It
  is the one computed with an empty exclusion set whatever the blacklist, and without suspects the
  avoiding table is the same one.
\<close>

theorem main_table_ignores_suspects:
  assumes "rt_tables now ifaces mainAddress s blacklist routes = Inr (t, a, r)"
  shows "rt_table now ifaces mainAddress s [] = Inr t \<and> (blacklist = [] \<longrightarrow> a = t)"
  using assms ComputeRoutingTableCore_table
  by (auto simp: rt_tables_def res_simps split: if_splits)

theorem main_table_ignores_suspects_witness:
  "rt_table 5 example_ifaces 1 example_two_paths [] = Inr [rt_entry 2 2 1, rt_entry 3 3 1, rt_entry 4 2 2]"
  using main_table_ignores_suspects [OF example_two_paths_tables] by simp

text \<open>
  The loop that should clear the HNA routing table removes only every second route, rounded
  up: the index grows while the table shrinks, so stale HNA routes survive a recomputation.
\<close>

theorem hna_clear_keeps_half:
  "\<exists>kept. hna_clear 0 routes = Inr kept \<and> length kept = length routes div 2"
proof -
  have "length routes - (length routes + 1) div 2 = length routes div 2" by presburger
  then show ?thesis by (simp add: hna_clear_drop)
qed

end
