(* ===== verification/Gcop.thy ===== *)
theory Gcop
  imports Olsr_State Messages "HOL-Library.Product_Lexorder"
begin

text \<open>
  The contradiction-rule defense, olsr-defense-gcop.cc. The record \<open>gcop\<close> has the members of
  \<open>OlsrDefenseGcop\<close>; \<open>m_routingProtocol\<close> is reduced to whether it is set, since the class only
  reads the information base of the protocol, which is the parameter \<open>s\<close>. The \<open>outReason\<close>
  strings, which are only logged, become the constructors of \<open>violation\<close> with their numbers.
  Sets and maps are kept in iteration order (Prelude), graphs are maps to neighbor sets.
\<close>

record gcop =
  gc_attached :: bool
  gc_mainAddress :: ipv4
  gc_startTime :: time
  gc_riskyNodes :: "ipv4 std_set"
  gc_enabled :: bool
  gc_useFictitiousNodes :: bool

datatype violation =
    Rule1_Asymmetry
  | Rule1_Bait
  | Rule2_Coverage nat
  | Rule3_Over_coverage nat nat

section \<open>Lifecycle and queries\<close>

definition Gcop_init :: gcop where
  "Gcop_init = \<lparr>gc_attached = False, gc_mainAddress = ipv4_any, gc_startTime = 0,
     gc_riskyNodes = [], gc_enabled = False, gc_useFictitiousNodes = True\<rparr>"

definition Gcop_Setup :: "ipv4 \<Rightarrow> time \<Rightarrow> gcop \<Rightarrow> gcop" where
  "Gcop_Setup nodeAddress now d =
     d\<lparr>gc_attached := True, gc_mainAddress := nodeAddress, gc_startTime := now\<rparr>"

definition Gcop_DoDispose :: "gcop \<Rightarrow> gcop" where
  "Gcop_DoDispose d = d\<lparr>gc_riskyNodes := [], gc_enabled := False, gc_attached := False\<rparr>"

definition Gcop_IsMalicious :: "ipv4 \<Rightarrow> gcop \<Rightarrow> bool" where
  "Gcop_IsMalicious addr d = (if \<not> gc_enabled d then False else set_count (gc_riskyNodes d) addr)"

definition Gcop_GetBlacklist :: "gcop \<Rightarrow> ipv4 std_set" where
  "Gcop_GetBlacklist d = (if \<not> gc_enabled d then [] else gc_riskyNodes d)"

definition HasKnownMaliciousNeighbor :: "olsr_state \<Rightarrow> gcop \<Rightarrow> bool" where
  "HasKnownMaliciousNeighbor s d =
     (if \<not> gc_attached d then False
      else find_first (\<lambda>nei. Gcop_IsMalicious (nt_neighborMainAddr nei) d) (m_neighborSet s) \<noteq> None)"

definition Gcop_SetEnabled :: "bool \<Rightarrow> gcop \<Rightarrow> gcop" where
  "Gcop_SetEnabled enabled d =
     (if gc_enabled d = enabled then d else d\<lparr>gc_riskyNodes := [], gc_enabled := enabled\<rparr>)"

definition Gcop_DebugStateSizes :: "gcop \<Rightarrow> nat" where
  "Gcop_DebugStateSizes d = length (gc_riskyNodes d)"

definition Gcop_PeriodicCheck :: "gcop \<Rightarrow> gcop" where
  "Gcop_PeriodicCheck d = d"

section \<open>Contradiction rules\<close>

definition is_neighbor :: "ipv4 \<Rightarrow> olsr_state \<Rightarrow> bool" where
  "is_neighbor a s \<longleftrightarrow> find_first (\<lambda>nei. nt_neighborMainAddr nei = a) (m_neighborSet s) \<noteq> None"

definition fakeAddress :: "gcop \<Rightarrow> ipv4" where
  "fakeAddress d = gc_mainAddress d + 65536"

fun rule1_loop :: "ipv4 \<Rightarrow> olsr_state \<Rightarrow> gcop \<Rightarrow> two_hop_tuple list \<Rightarrow> violation option" where
  "rule1_loop sender s d [] = None"
| "rule1_loop sender s d (twoHop # ts) =
     (if th_neighborMainAddr twoHop \<noteq> sender then rule1_loop sender s d ts
      else if is_neighbor (th_twoHopNeighborAddr twoHop) s
      then (if find_first (\<lambda>v. th_neighborMainAddr v = th_twoHopNeighborAddr twoHop \<and>
                               th_twoHopNeighborAddr v = sender) (m_twoHopNeighborSet s) = None
            then Some Rule1_Asymmetry
            else rule1_loop sender s d ts)
      else if th_twoHopNeighborAddr twoHop = fakeAddress d
      then Some Rule1_Bait
      else rule1_loop sender s d ts)"

definition CheckRule1 :: "ipv4 \<Rightarrow> olsr_state \<Rightarrow> gcop \<Rightarrow> violation option" where
  "CheckRule1 sender s d = rule1_loop sender s d (m_twoHopNeighborSet s)"

type_synonym graph = "(ipv4, ipv4 std_set) std_map"

definition graph_nbrs :: "graph \<Rightarrow> ipv4 \<Rightarrow> ipv4 std_set" where
  "graph_nbrs g a = map_ref [] g a"

text \<open>\<open>graph[u].insert(v); graph[v].insert(u)\<close>\<close>

definition graph_edge :: "ipv4 \<Rightarrow> ipv4 \<Rightarrow> graph \<Rightarrow> graph" where
  "graph_edge u v g =
     (let g1 = map_put u (set_insert v (graph_nbrs g u)) g
      in map_put v (set_insert u (graph_nbrs g1 v)) g1)"

definition topology_edges :: "topology_tuple list \<Rightarrow> graph \<Rightarrow> graph" where
  "topology_edges ts g = fold (\<lambda>tp g. graph_edge (tt_lastAddr tp) (tt_destAddr tp) g) ts g"

definition sender_claims :: "ipv4 \<Rightarrow> olsr_state \<Rightarrow> ipv4 std_set" where
  "sender_claims sender s =
     fold (\<lambda>th N. if th_neighborMainAddr th = sender then set_insert (th_twoHopNeighborAddr th) N else N)
       (m_twoHopNeighborSet s) []"

definition rule2_groups :: "ipv4 \<Rightarrow> olsr_state \<Rightarrow> ipv4 std_set \<times> ipv4 std_set" where
  "rule2_groups sender s =
     (let groupN = sender_claims sender s
      in fold (\<lambda>tp (groupZ, groupM).
           let groupZ = (if set_count groupN (tt_lastAddr tp) then set_insert (tt_destAddr tp) groupZ else groupZ);
               groupZ = (if set_count groupN (tt_destAddr tp) then set_insert (tt_lastAddr tp) groupZ else groupZ)
           in (groupZ, if tt_destAddr tp = sender then set_insert (tt_lastAddr tp) groupM else groupM))
         (m_topologySet s) ([], []))"

definition CheckRule2 :: "ipv4 \<Rightarrow> olsr_state \<Rightarrow> violation option" where
  "CheckRule2 sender s =
     (let topoAdj = topology_edges (m_topologySet s) [];
          (groupZ, groupM) = rule2_groups sender s;
          groupZ = fold set_erase (sender_claims sender s) groupZ;
          groupZ = fold (\<lambda>nei Z. set_erase (nt_neighborMainAddr nei) Z) (m_neighborSet s) groupZ;
          groupZ = erase_all (\<lambda>z. find_first (\<lambda>m. set_count (graph_nbrs topoAdj z) m) groupM \<noteq> None) groupZ
      in if groupZ \<noteq> [] then Some (Rule2_Coverage (length groupZ)) else None)"

definition rule3_sets :: "ipv4 \<Rightarrow> olsr_state \<Rightarrow> gcop \<Rightarrow> ipv4 std_set \<times> ipv4 std_set" where
  "rule3_sets sender s d =
     (let senderReachable = fold (\<lambda>th R.
            if th_neighborMainAddr th = sender \<and> th_twoHopNeighborAddr th \<noteq> gc_mainAddress d
            then set_insert (th_twoHopNeighborAddr th) R else R) (m_twoHopNeighborSet s) [];
          netTargets = fold (\<lambda>tp T.
            if tt_lastAddr tp \<noteq> gc_mainAddress d then set_insert (tt_destAddr tp) T else T)
            (m_topologySet s) []
      in fold (\<lambda>nei (R, T). (set_erase (nt_neighborMainAddr nei) R, set_erase (nt_neighborMainAddr nei) T))
           (m_neighborSet s) (senderReachable, netTargets))"

definition CheckRule3 :: "ipv4 \<Rightarrow> olsr_state \<Rightarrow> gcop \<Rightarrow> violation option" where
  "CheckRule3 sender s d =
     (let (senderReachable, netTargets) = rule3_sets sender s d
      in if length senderReachable \<ge> length netTargets
         then Some (Rule3_Over_coverage (length senderReachable) (length netTargets)) else None)"

definition check_rules :: "ipv4 \<Rightarrow> olsr_state \<Rightarrow> gcop \<Rightarrow> violation option" where
  "check_rules sender s d =
     (case CheckRule1 sender s d of
        Some v \<Rightarrow> Some v
      | None \<Rightarrow>
          (case CheckRule2 sender s of
             Some v \<Rightarrow> Some v
           | None \<Rightarrow> CheckRule3 sender s d))"

definition EvaluateContradictionRules :: "ipv4 \<Rightarrow> olsr_state \<Rightarrow> gcop \<Rightarrow> gcop" where
  "EvaluateContradictionRules sender s d =
     (if \<not> gc_enabled d then d
      else if \<not> gc_attached d then d
      else case check_rules sender s d of
             Some _ \<Rightarrow> d\<lparr>gc_riskyNodes := set_insert sender (gc_riskyNodes d)\<rparr>
           | None \<Rightarrow> d\<lparr>gc_riskyNodes := set_erase sender (gc_riskyNodes d)\<rparr>)"

definition Gcop_OnRecvHello :: "ipv4 \<Rightarrow> olsr_state \<Rightarrow> gcop \<Rightarrow> gcop" where
  "Gcop_OnRecvHello sender s d =
     (if \<not> gc_enabled d then d else EvaluateContradictionRules sender s d)"

section \<open>Fictitious nodes\<close>

definition set_includes :: "ipv4 std_set \<Rightarrow> ipv4 std_set \<Rightarrow> bool" where
  "set_includes xs ys \<longleftrightarrow> list_all (set_count xs) ys"

text \<open>Algorithm 1.\<close>

definition gcop_greens :: "ipv4 \<Rightarrow> olsr_state \<Rightarrow> ipv4 std_set" where
  "gcop_greens mainAddress s =
     set_erase mainAddress
       (fold (\<lambda>nei g. if nt_status nei = STATUS_SYM then set_insert (nt_neighborMainAddr nei) g else g)
          (m_neighborSet s) [])"

definition all_two_hops :: "olsr_state \<Rightarrow> ipv4 std_set" where
  "all_two_hops s = fold (\<lambda>th b. set_insert (th_twoHopNeighborAddr th) b) (m_twoHopNeighborSet s) []"

definition gcop_blues :: "ipv4 \<Rightarrow> olsr_state \<Rightarrow> ipv4 std_set" where
  "gcop_blues mainAddress s =
     fold set_erase (gcop_greens mainAddress s) (set_erase mainAddress (all_two_hops s))"

definition allowed_edge :: "ipv4 std_set \<Rightarrow> ipv4 \<Rightarrow> ipv4 \<Rightarrow> graph \<Rightarrow> graph" where
  "allowed_edge allowed u v g =
     (if set_count allowed u \<and> set_count allowed v then graph_edge u v g else g)"

definition gcop_graph :: "ipv4 \<Rightarrow> olsr_state \<Rightarrow> graph" where
  "gcop_graph mainAddress s =
     (let allowed = set_insert_all (gcop_blues mainAddress s) (set_insert_all (gcop_greens mainAddress s) []);
          graph = map (\<lambda>n. (n, [])) allowed;
          graph = fold (\<lambda>th g. allowed_edge allowed (th_neighborMainAddr th) (th_twoHopNeighborAddr th) g)
                    (m_twoHopNeighborSet s) graph
      in fold (\<lambda>tp g. allowed_edge allowed (tt_lastAddr tp) (tt_destAddr tp) g) (m_topologySet s) graph)"

definition within_two :: "graph \<Rightarrow> ipv4 \<Rightarrow> ipv4 std_set" where
  "within_two graph g =
     (let hop1 = graph_nbrs graph g
      in fold (\<lambda>h1 r. set_insert_all (graph_nbrs graph h1) r) hop1 (set_insert_all hop1 [g]))"

definition RunGcopAlgorithm :: "olsr_state \<Rightarrow> gcop \<Rightarrow> bool" where
  "RunGcopAlgorithm s d =
     (if \<not> gc_attached d then False
      else
        let m = gc_mainAddress d; blues = gcop_blues m s; graph = gcop_graph m s
        in if blues = [] then False
           else find_first (\<lambda>g. set_includes (within_two graph g) blues) (gcop_greens m s) \<noteq> None)"

text \<open>Algorithm 2.\<close>

definition gcohp_graph :: "ipv4 \<Rightarrow> olsr_state \<Rightarrow> graph" where
  "gcohp_graph mainAddress s =
     (let g = fold (\<lambda>nei g. if nt_status nei = STATUS_SYM
                            then graph_edge mainAddress (nt_neighborMainAddr nei) g else g)
                (m_neighborSet s) [];
          g = fold (\<lambda>th g. graph_edge (th_neighborMainAddr th) (th_twoHopNeighborAddr th) g)
                (m_twoHopNeighborSet s) g
      in topology_edges (m_topologySet s) g)"

text \<open>The loop that fills \<open>greens\<close> and strips the neighbors out of \<open>blues\<close>.\<close>

definition gcohp_colors :: "ipv4 \<Rightarrow> olsr_state \<Rightarrow> ipv4 std_set \<times> ipv4 std_set" where
  "gcohp_colors mainAddress s =
     (let blues = set_erase mainAddress (all_two_hops s);
          (blues, greens) = fold (\<lambda>nei (b, g).
              (set_erase (nt_neighborMainAddr nei) b, set_insert (nt_neighborMainAddr nei) g))
            (m_neighborSet s) (blues, [])
      in (blues, set_erase mainAddress greens))"

definition gcohp_e3 :: "graph \<Rightarrow> ipv4 std_set \<Rightarrow> ipv4 std_set \<Rightarrow> (ipv4 \<times> ipv4) std_set" where
  "gcohp_e3 graph blues greens =
     fold (\<lambda>g e3. fold (\<lambda>b e3. if set_count (graph_nbrs graph g) b then set_insert (g, b) e3 else e3)
                    blues e3) greens []"

fun hexagon_pair :: "graph \<Rightarrow> ipv4 std_set \<Rightarrow> ipv4 std_set \<Rightarrow> ipv4 \<times> ipv4 \<Rightarrow> ipv4 \<times> ipv4 \<Rightarrow> bool" where
  "hexagon_pair graph blues greens (g1, b1) (g2, b2) =
     (let adj = (\<lambda>x y. set_count (graph_nbrs graph x) y) in
      if g1 = g2 \<or> b1 = b2 then False
      else if adj g1 g2 \<or> adj g2 g1 \<or> adj b1 b2 \<or> adj b2 b1 then False
      else if adj g1 b2 \<or> adj g2 b1 then False
      else
        let inter = filter (set_count (graph_nbrs graph b2)) (graph_nbrs graph b1);
            result = filter (\<lambda>c. \<not> set_count (set_insert_all greens blues) c) inter
        in result \<noteq> [])"

fun hexagon_search ::
  "graph \<Rightarrow> ipv4 std_set \<Rightarrow> ipv4 std_set \<Rightarrow> (ipv4 \<times> ipv4) list \<Rightarrow> bool" where
  "hexagon_search graph blues greens [] = False"
| "hexagon_search graph blues greens (e # es) =
     (if es = [] then False
      else if find_first (hexagon_pair graph blues greens e) es \<noteq> None then True
      else hexagon_search graph blues greens es)"

definition RunGcohpAlgorithm :: "olsr_state \<Rightarrow> gcop \<Rightarrow> bool" where
  "RunGcohpAlgorithm s d =
     (if \<not> gc_attached d then False
      else
        let m = gc_mainAddress d; graph = gcohp_graph m s; (blues, greens) = gcohp_colors m s
        in hexagon_search graph blues greens (gcohp_e3 graph blues greens))"

definition Gcop_RequiresFictitiousNode :: "olsr_state \<Rightarrow> gcop \<Rightarrow> bool" where
  "Gcop_RequiresFictitiousNode s d =
     (if \<not> gc_enabled d then False
      else if \<not> gc_useFictitiousNodes d then False
      else RunGcohpAlgorithm s d)"

section \<open>The rules as conditions on the information base\<close>

text \<open>What the information base says: \<open>claims s x z\<close>, node \<open>x\<close> announced \<open>z\<close> as its neighbor.\<close>

definition claims :: "olsr_state \<Rightarrow> ipv4 \<Rightarrow> ipv4 \<Rightarrow> bool" where
  "claims s x z \<longleftrightarrow> (\<exists>th\<in>set (m_twoHopNeighborSet s). th_neighborMainAddr th = x \<and> th_twoHopNeighborAddr th = z)"

definition neighbors_of :: "olsr_state \<Rightarrow> ipv4 set" where
  "neighbors_of s = nt_neighborMainAddr ` set (m_neighborSet s)"

definition topo_edge :: "olsr_state \<Rightarrow> ipv4 \<Rightarrow> ipv4 \<Rightarrow> bool" where
  "topo_edge s a b \<longleftrightarrow> (\<exists>tp\<in>set (m_topologySet s).
     tt_lastAddr tp = a \<and> tt_destAddr tp = b \<or> tt_lastAddr tp = b \<and> tt_destAddr tp = a)"

lemma is_neighbor_iff: "is_neighbor a s \<longleftrightarrow> a \<in> neighbors_of s"
  by (auto simp: is_neighbor_def neighbors_of_def)

lemma rule1_loop_iff:
  "rule1_loop x s d ts \<noteq> None \<longleftrightarrow>
    (\<exists>th\<in>set ts. th_neighborMainAddr th = x \<and>
      (if th_twoHopNeighborAddr th \<in> neighbors_of s then \<not> claims s (th_twoHopNeighborAddr th) x
       else th_twoHopNeighborAddr th = fakeAddress d))"
proof (induction ts)
  case (Cons th ts)
  have "find_first (\<lambda>v. th_neighborMainAddr v = th_twoHopNeighborAddr th \<and>
      th_twoHopNeighborAddr v = x) (m_twoHopNeighborSet s) = None \<longleftrightarrow>
    \<not> claims s (th_twoHopNeighborAddr th) x" by (auto simp: claims_def)
  then show ?case using Cons by (simp add: is_neighbor_iff del: find_first_None_iff)
qed simp

lemma CheckRule1_iff:
  "CheckRule1 x s d \<noteq> None \<longleftrightarrow>
    (\<exists>z. claims s x z \<and> (if z \<in> neighbors_of s then \<not> claims s z x else z = fakeAddress d))"
  unfolding CheckRule1_def rule1_loop_iff by (auto simp: claims_def)

lemma graph_nbrs_put: "graph_nbrs (map_put a xs g) u = (if u = a then xs else graph_nbrs g u)"
  by (simp add: graph_nbrs_def map_ref_def)

lemma graph_edge_iff:
  "v \<in> set (graph_nbrs (graph_edge a b g) u) \<longleftrightarrow>
    u = a \<and> v = b \<or> u = b \<and> v = a \<or> v \<in> set (graph_nbrs g u)"
  by (auto simp: graph_edge_def Let_def graph_nbrs_put)

lemma fold_edges_iff:
  "v \<in> set (graph_nbrs (fold (\<lambda>x g. if P x then graph_edge (f x) (h x) g else g) xs g) u) \<longleftrightarrow>
    (\<exists>x\<in>set xs. P x \<and> (u = f x \<and> v = h x \<or> u = h x \<and> v = f x)) \<or> v \<in> set (graph_nbrs g u)"
  by (induction xs arbitrary: g) (auto simp: graph_edge_iff)

lemmas fold_all_edges_iff = fold_edges_iff [where P = "\<lambda>_. True", simplified]

lemma topology_edges_iff:
  "v \<in> set (graph_nbrs (topology_edges (m_topologySet s) g) u) \<longleftrightarrow>
    topo_edge s u v \<or> v \<in> set (graph_nbrs g u)"
  unfolding topology_edges_def fold_all_edges_iff by (auto simp: topo_edge_def)

lemma graph_nbrs_Nil [simp]: "graph_nbrs [] u = []"
  by (simp add: graph_nbrs_def map_ref_def)

lemma set_sender_claims: "set (sender_claims x s) = {z. claims s x z}"
  unfolding sender_claims_def fold_set_insert_if by (auto simp: claims_def)

lemma rule2_groups_iff:
  "set (fst (rule2_groups x s)) = {z. \<exists>n. claims s x n \<and> topo_edge s n z} \<and>
   set (snd (rule2_groups x s)) = {m. \<exists>tp\<in>set (m_topologySet s). tt_lastAddr tp = m \<and> tt_destAddr tp = x}"
proof -
  let ?N = "sender_claims x s"
  let ?f = "\<lambda>tp (groupZ, groupM).
           let groupZ = (if set_count ?N (tt_lastAddr tp) then set_insert (tt_destAddr tp) groupZ else groupZ);
               groupZ = (if set_count ?N (tt_destAddr tp) then set_insert (tt_lastAddr tp) groupZ else groupZ)
           in (groupZ, if tt_destAddr tp = x then set_insert (tt_lastAddr tp) groupM else groupM)"
  have "set (fst (fold ?f ts (Z, M))) = set Z \<union>
      {z. \<exists>tp\<in>set ts. tt_lastAddr tp \<in> set ?N \<and> tt_destAddr tp = z \<or> tt_destAddr tp \<in> set ?N \<and> tt_lastAddr tp = z} \<and>
    set (snd (fold ?f ts (Z, M))) = set M \<union> {m. \<exists>tp\<in>set ts. tt_lastAddr tp = m \<and> tt_destAddr tp = x}"
    for ts Z M
  proof (induction ts arbitrary: Z M)
    case (Cons tp ts)
    obtain Z1 M1 where ZM: "?f tp (Z, M) = (Z1, M1)" by fastforce
    have one: "set Z1 = set Z \<union> {z. tt_lastAddr tp \<in> set ?N \<and> tt_destAddr tp = z \<or>
        tt_destAddr tp \<in> set ?N \<and> tt_lastAddr tp = z}"
      "set M1 = set M \<union> {m. tt_lastAddr tp = m \<and> tt_destAddr tp = x}"
      using ZM by (auto simp: Let_def split: if_splits)
    have "fold ?f (tp # ts) (Z, M) = fold ?f ts (Z1, M1)" using ZM by simp
    then show ?case using Cons.IH [of Z1 M1] one by auto
  qed simp
  from this [of "m_topologySet s" "[]" "[]"] show ?thesis
    unfolding rule2_groups_def Let_def by (auto simp: set_sender_claims topo_edge_def)
qed

lemma CheckRule2_iff:
  "CheckRule2 x s \<noteq> None \<longleftrightarrow>
    (\<exists>z n. claims s x n \<and> topo_edge s n z \<and> \<not> claims s x z \<and> z \<notin> neighbors_of s \<and>
      (\<forall>tp\<in>set (m_topologySet s). tt_destAddr tp = x \<longrightarrow> \<not> topo_edge s z (tt_lastAddr tp)))"
proof -
  obtain Z M where ZM: "rule2_groups x s = (Z, M)" by fastforce
  define W where "W = fold (\<lambda>nei Z. set_erase (nt_neighborMainAddr nei) Z) (m_neighborSet s)
      (fold set_erase (sender_claims x s) Z)"
  have W: "set W = set Z - {z. claims s x z} - neighbors_of s"
    unfolding W_def fold_set_erase fold_set_erase [where f = "\<lambda>x. x", simplified]
    by (simp add: set_sender_claims neighbors_of_def)
  have "CheckRule2 x s \<noteq> None \<longleftrightarrow>
      (\<exists>z\<in>set W. \<forall>m\<in>set M. \<not> topo_edge s z m)"
    by (auto simp: CheckRule2_def ZM Let_def W_def [symmetric] erase_all_filter filter_empty_conv
        topology_edges_iff)
  also note W
  finally show ?thesis
    using rule2_groups_iff [of x s, unfolded ZM fst_conv snd_conv] by (simp only: Bex_def) blast
qed

lemma rule3_sets_iff:
  "set (fst (rule3_sets x s d)) = {z. claims s x z \<and> z \<noteq> gc_mainAddress d \<and> z \<notin> neighbors_of s} \<and>
   set (snd (rule3_sets x s d)) = {z. (\<exists>tp\<in>set (m_topologySet s). tt_destAddr tp = z \<and>
      tt_lastAddr tp \<noteq> gc_mainAddress d) \<and> z \<notin> neighbors_of s} \<and>
   wf_set (fst (rule3_sets x s d)) \<and> wf_set (snd (rule3_sets x s d))"
proof -
  have pair: "fold (\<lambda>nei (R, T). (set_erase (nt_neighborMainAddr nei) R, set_erase (nt_neighborMainAddr nei) T)) ns (R, T) =
      (fold (\<lambda>nei. set_erase (nt_neighborMainAddr nei)) ns R, fold (\<lambda>nei. set_erase (nt_neighborMainAddr nei)) ns T)"
    for ns R T by (induction ns arbitrary: R T) auto
  show ?thesis
    unfolding rule3_sets_def Let_def pair fst_conv snd_conv fold_set_erase fold_set_insert_if
    by (auto simp: claims_def neighbors_of_def intro!: wf_set_fold_erase wf_set_fold_insert_if)
qed

lemma CheckRule3_iff:
  "CheckRule3 x s d \<noteq> None \<longleftrightarrow>
    card {z. claims s x z \<and> z \<noteq> gc_mainAddress d \<and> z \<notin> neighbors_of s} \<ge>
    card {z. (\<exists>tp\<in>set (m_topologySet s). tt_destAddr tp = z \<and> tt_lastAddr tp \<noteq> gc_mainAddress d) \<and>
           z \<notin> neighbors_of s}"
proof -
  obtain R T where RT: "rule3_sets x s d = (R, T)" by fastforce
  note I = rule3_sets_iff [of x s d, unfolded RT fst_conv snd_conv]
  have "length R = card (set R)" "length T = card (set T)" using I wf_set_card by blast+
  then show ?thesis using I by (simp add: CheckRule3_def RT)
qed

section \<open>The fictitious-node algorithms as conditions on graphs\<close>

lemma set_set_includes: "set_includes xs ys \<longleftrightarrow> set ys \<subseteq> set xs"
  by (auto simp: set_includes_def list_all_iff)

lemma set_within_two:
  "set (within_two graph g) =
    insert g (set (graph_nbrs graph g) \<union> (\<Union>h\<in>set (graph_nbrs graph g). set (graph_nbrs graph h)))"
proof -
  have "set (fold (\<lambda>h r. set_insert_all (graph_nbrs graph h) r) hs r) =
      set r \<union> (\<Union>h\<in>set hs. set (graph_nbrs graph h))" for hs r
    by (induction hs arbitrary: r) auto
  then show ?thesis by (auto simp: within_two_def Let_def)
qed

definition greens_of :: "ipv4 \<Rightarrow> olsr_state \<Rightarrow> ipv4 set" where
  "greens_of m s = {nt_neighborMainAddr nb |nb. nb \<in> set (m_neighborSet s) \<and> nt_status nb = STATUS_SYM} - {m}"

definition blues_of :: "ipv4 \<Rightarrow> olsr_state \<Rightarrow> ipv4 set" where
  "blues_of m s = {z. \<exists>x. claims s x z} - {m} - greens_of m s"

definition base_edge :: "olsr_state \<Rightarrow> ipv4 \<Rightarrow> ipv4 \<Rightarrow> bool" where
  "base_edge s a b \<longleftrightarrow> claims s a b \<or> claims s b a \<or> topo_edge s a b"

lemma set_gcop_greens: "set (gcop_greens m s) = greens_of m s"
  unfolding gcop_greens_def set_set_erase fold_set_insert_if by (auto simp: greens_of_def)

lemma set_all_two_hops: "set (all_two_hops s) = {z. \<exists>x. claims s x z}"
  unfolding all_two_hops_def fold_set_insert by (auto simp: claims_def)

lemma set_gcop_blues: "set (gcop_blues m s) = blues_of m s"
  unfolding gcop_blues_def fold_set_erase [where f = "\<lambda>x. x", simplified] set_set_erase
  by (auto simp: set_gcop_greens set_all_two_hops blues_of_def)

lemma graph_nbrs_empty: "graph_nbrs (map (\<lambda>n. (n, [])) ns) u = []"
proof -
  have "map_of (map (\<lambda>n. (n, [])) ns) u = Some xs \<Longrightarrow> xs = []" for xs by (induction ns) (auto split: if_splits)
  then show ?thesis by (auto simp: graph_nbrs_def map_ref_def split: option.split)
qed

lemma gcop_graph_iff:
  "v \<in> set (graph_nbrs (gcop_graph m s) u) \<longleftrightarrow>
    u \<in> greens_of m s \<union> blues_of m s \<and> v \<in> greens_of m s \<union> blues_of m s \<and> base_edge s u v"
proof -
  have allowed: "set_count (set_insert_all (gcop_blues m s) (set_insert_all (gcop_greens m s) [])) a \<longleftrightarrow>
      a \<in> greens_of m s \<union> blues_of m s" for a
    by (auto simp: set_gcop_greens set_gcop_blues)
  show ?thesis
    unfolding gcop_graph_def Let_def allowed_edge_def allowed fold_edges_iff graph_nbrs_empty
    by (auto simp: base_edge_def claims_def topo_edge_def)
qed

text \<open>Paper Eq. 6, the distance taken in the graph over green and blue nodes.\<close>

definition near :: "ipv4 \<Rightarrow> olsr_state \<Rightarrow> ipv4 \<Rightarrow> ipv4 \<Rightarrow> bool" where
  "near m s g b \<longleftrightarrow> b = g \<or> base_edge s g b \<or>
     (\<exists>h\<in>greens_of m s \<union> blues_of m s. base_edge s g h \<and> base_edge s h b)"

lemma RunGcopAlgorithm_iff:
  assumes "gc_attached d"
  shows "RunGcopAlgorithm s d \<longleftrightarrow> blues_of (gc_mainAddress d) s \<noteq> {} \<and>
    (\<exists>g\<in>greens_of (gc_mainAddress d) s. \<forall>b\<in>blues_of (gc_mainAddress d) s. near (gc_mainAddress d) s g b)"
proof -
  let ?m = "gc_mainAddress d"
  have w: "set_includes (within_two (gcop_graph ?m s) g) (gcop_blues ?m s) \<longleftrightarrow>
      (\<forall>b\<in>blues_of ?m s. near ?m s g b)" if "g \<in> greens_of ?m s" for g
    using that unfolding set_set_includes set_within_two set_gcop_blues
    by (auto simp: gcop_graph_iff near_def)
  have "gcop_blues ?m s = [] \<longleftrightarrow> blues_of ?m s = {}"
    using set_gcop_blues [of ?m s] by auto
  then show ?thesis using assms w by (auto simp: RunGcopAlgorithm_def Let_def set_gcop_greens)
qed

text \<open>The hexagon of algorithm 2, over all neighbors (any status) and the whole known graph.\<close>

definition hex_edge :: "ipv4 \<Rightarrow> olsr_state \<Rightarrow> ipv4 \<Rightarrow> ipv4 \<Rightarrow> bool" where
  "hex_edge m s a b \<longleftrightarrow> base_edge s a b \<or>
     (\<exists>nb\<in>set (m_neighborSet s). nt_status nb = STATUS_SYM \<and>
        (a = m \<and> b = nt_neighborMainAddr nb \<or> b = m \<and> a = nt_neighborMainAddr nb))"

lemma hex_edge_sym: "hex_edge m s a b \<longleftrightarrow> hex_edge m s b a"
  by (auto simp: hex_edge_def base_edge_def topo_edge_def)

lemma gcohp_graph_iff: "v \<in> set (graph_nbrs (gcohp_graph m s) u) \<longleftrightarrow> hex_edge m s u v"
  unfolding gcohp_graph_def Let_def topology_edges_iff fold_all_edges_iff fold_edges_iff graph_nbrs_Nil
  by (auto simp: hex_edge_def base_edge_def claims_def)

definition hex_greens :: "ipv4 \<Rightarrow> olsr_state \<Rightarrow> ipv4 set" where
  "hex_greens m s = neighbors_of s - {m}"

definition hex_blues :: "ipv4 \<Rightarrow> olsr_state \<Rightarrow> ipv4 set" where
  "hex_blues m s = {z. \<exists>x. claims s x z} - {m} - neighbors_of s"

lemma gcohp_colors_iff:
  "set (fst (gcohp_colors m s)) = hex_blues m s \<and> set (snd (gcohp_colors m s)) = hex_greens m s"
proof -
  have pair: "fold (\<lambda>nei (b, g). (set_erase (nt_neighborMainAddr nei) b, set_insert (nt_neighborMainAddr nei) g)) ns (B, G) =
      (fold (\<lambda>nei. set_erase (nt_neighborMainAddr nei)) ns B, fold (\<lambda>nei. set_insert (nt_neighborMainAddr nei)) ns G)"
    for ns B G by (induction ns arbitrary: B G) auto
  show ?thesis
    unfolding gcohp_colors_def Let_def pair
    by (auto simp: fold_set_erase fold_set_insert set_all_two_hops hex_blues_def hex_greens_def
        neighbors_of_def)
qed

definition hexagon :: "ipv4 \<Rightarrow> olsr_state \<Rightarrow> bool" where
  "hexagon m s \<longleftrightarrow>
     (\<exists>g1\<in>hex_greens m s. \<exists>g2\<in>hex_greens m s. \<exists>b1\<in>hex_blues m s. \<exists>b2\<in>hex_blues m s. \<exists>c.
        g1 \<noteq> g2 \<and> b1 \<noteq> b2 \<and> hex_edge m s g1 b1 \<and> hex_edge m s g2 b2 \<and>
        \<not> hex_edge m s g1 g2 \<and> \<not> hex_edge m s b1 b2 \<and> \<not> hex_edge m s g1 b2 \<and> \<not> hex_edge m s g2 b1 \<and>
        hex_edge m s b1 c \<and> hex_edge m s b2 c \<and> c \<notin> hex_greens m s \<and> c \<notin> hex_blues m s)"

lemma set_gcohp_e3:
  "set (gcohp_e3 graph blues greens) =
    {(g, b). g \<in> set greens \<and> b \<in> set blues \<and> b \<in> set (graph_nbrs graph g)}"
proof -
  have "set (fold (\<lambda>g e3. fold (\<lambda>b e3. if set_count (graph_nbrs graph g) b then set_insert (g, b) e3 else e3)
            blues e3) gs e) = {(g, b). g \<in> set gs \<and> b \<in> set blues \<and> b \<in> set (graph_nbrs graph g)} \<union> set e"
    for gs e by (induction gs arbitrary: e) (auto simp: fold_set_insert_if)
  then show ?thesis by (simp add: gcohp_e3_def)
qed

lemma hexagon_search_iff:
  assumes "\<And>e f. hexagon_pair graph blues greens e f = hexagon_pair graph blues greens f e"
    and "\<And>e. \<not> hexagon_pair graph blues greens e e"
  shows "hexagon_search graph blues greens es \<longleftrightarrow>
    (\<exists>e\<in>set es. \<exists>f\<in>set es. hexagon_pair graph blues greens e f)"
proof (induction es)
  case (Cons e es)
  then show ?case using assms by (cases "es = []") auto
qed simp

lemma RunGcohpAlgorithm_iff:
  assumes "gc_attached d"
  shows "RunGcohpAlgorithm s d \<longleftrightarrow> hexagon (gc_mainAddress d) s"
proof -
  let ?m = "gc_mainAddress d"
  let ?G = "gcohp_graph ?m s"
  obtain B G where BG: "gcohp_colors ?m s = (B, G)" by fastforce
  note C = gcohp_colors_iff [of ?m s, unfolded BG fst_conv snd_conv]
  have hp: "hexagon_pair ?G B G (g1, b1) (g2, b2) \<longleftrightarrow>
      g1 \<noteq> g2 \<and> b1 \<noteq> b2 \<and> \<not> hex_edge ?m s g1 g2 \<and> \<not> hex_edge ?m s b1 b2 \<and> \<not> hex_edge ?m s g1 b2 \<and>
      \<not> hex_edge ?m s g2 b1 \<and> (\<exists>c. hex_edge ?m s b1 c \<and> hex_edge ?m s b2 c \<and>
        c \<notin> hex_greens ?m s \<and> c \<notin> hex_blues ?m s)" for g1 b1 g2 b2
    using C by (auto simp: Let_def gcohp_graph_iff filter_empty_conv hex_edge_sym [of ?m s g2 g1]
        hex_edge_sym [of ?m s b2 b1])
  have srch: "hexagon_search ?G B G es \<longleftrightarrow> (\<exists>e\<in>set es. \<exists>f\<in>set es. hexagon_pair ?G B G e f)" for es
  proof (rule hexagon_search_iff)
    fix e f :: "ipv4 \<times> ipv4"
    obtain g1 b1 g2 b2 where ef: "e = (g1, b1)" "f = (g2, b2)" by (cases e, cases f)
    show "hexagon_pair ?G B G e f = hexagon_pair ?G B G f e"
      unfolding ef hp using hex_edge_sym [of ?m s g1 g2] hex_edge_sym [of ?m s b1 b2] by blast
    show "\<not> hexagon_pair ?G B G e e" unfolding ef hp by simp
  qed
  have "RunGcohpAlgorithm s d \<longleftrightarrow> hexagon_search ?G B G (gcohp_e3 ?G B G)"
    using assms by (simp add: RunGcohpAlgorithm_def Let_def BG)
  also have "\<dots> \<longleftrightarrow> hexagon ?m s"
  proof -
    have two: "(\<exists>e\<in>{(g, b). P g b}. \<exists>f\<in>{(g, b). P g b}. Q e f) \<longleftrightarrow>
        (\<exists>g1 b1 g2 b2. P g1 b1 \<and> P g2 b2 \<and> Q (g1, b1) (g2, b2))" for P :: "ipv4 \<Rightarrow> ipv4 \<Rightarrow> bool" and Q
      by auto
    show ?thesis
      unfolding srch set_gcohp_e3 two hp gcohp_graph_iff conjunct1 [OF C] conjunct2 [OF C] hexagon_def
      by blast
  qed
  finally show ?thesis .
qed

section \<open>Properties\<close>

text \<open>
  A disabled strategy is inert: it reports nobody, has an empty blacklist, never asks for a
  fictitious node and does not change on a HELLO. Every real transition of the switch, in both
  directions, wipes the flags; a call that does not change the state is a no-op.
\<close>

theorem gcop_switch:
  "(\<not> gc_enabled d \<longrightarrow> \<not> Gcop_IsMalicious a d \<and> Gcop_GetBlacklist d = [] \<and>
      \<not> Gcop_RequiresFictitiousNode s d \<and> Gcop_OnRecvHello a s d = d) \<and>
   (if gc_enabled d = b then Gcop_SetEnabled b d = d
    else Gcop_DebugStateSizes (Gcop_SetEnabled b d) = 0 \<and> gc_enabled (Gcop_SetEnabled b d) = b) \<and>
   Gcop_SetEnabled (gc_enabled d) (Gcop_SetEnabled (\<not> gc_enabled d) d) = d\<lparr>gc_riskyNodes := []\<rparr>"
  by (simp add: Gcop_IsMalicious_def Gcop_GetBlacklist_def Gcop_RequiresFictitiousNode_def
      Gcop_OnRecvHello_def Gcop_SetEnabled_def Gcop_DebugStateSizes_def)

definition example_gcop :: gcop where
  "example_gcop = Gcop_SetEnabled True (Gcop_Setup 1 0 Gcop_init)"

theorem gcop_switch_witness:
  "Gcop_OnRecvHello 5 OlsrState_init (Gcop_SetEnabled False example_gcop) = Gcop_SetEnabled False example_gcop \<and>
   Gcop_GetBlacklist (Gcop_SetEnabled False example_gcop) = []"
  using gcop_switch [of "Gcop_SetEnabled False example_gcop" 5 OlsrState_init True]
  by (simp add: example_gcop_def Gcop_SetEnabled_def Gcop_Setup_def Gcop_init_def)


definition example_liar :: olsr_state where
  "example_liar = OlsrState_init\<lparr>
     m_neighborSet := [\<lparr>nt_neighborMainAddr = 2, nt_status = STATUS_SYM, nt_willingness = WILL_DEFAULT\<rparr>,
                       \<lparr>nt_neighborMainAddr = 3, nt_status = STATUS_SYM, nt_willingness = WILL_DEFAULT\<rparr>],
     m_twoHopNeighborSet := [\<lparr>th_neighborMainAddr = 2, th_twoHopNeighborAddr = 3, th_expirationTime = 9\<rparr>],
     m_topologySet := [\<lparr>tt_destAddr = 9, tt_lastAddr = 3, tt_sequenceNumber = 1, tt_expirationTime = 9\<rparr>]\<rparr>"


text \<open>
  The verdict is immediate. One HELLO of a sender decides its flag: it is set when a rule fires and
  cleared otherwise, without the warm-up and the second strike that the class comment describes; the
  comment of \<open>EvaluateContradictionRules\<close> announces this.
\<close>

theorem verdict_immediate:
  assumes "gc_enabled d" "gc_attached d"
  shows "Gcop_IsMalicious x (Gcop_OnRecvHello x s d) \<longleftrightarrow> check_rules x s d \<noteq> None"
  using assms by (auto simp: Gcop_OnRecvHello_def EvaluateContradictionRules_def Gcop_IsMalicious_def
      split: option.splits)

theorem verdict_immediate_witness:
  "Gcop_IsMalicious 5 (Gcop_OnRecvHello 5 OlsrState_init example_gcop)"
proof -
  have "check_rules 5 OlsrState_init example_gcop \<noteq> None" by code_simp
  moreover have "gc_enabled example_gcop" "gc_attached example_gcop" by code_simp+
  ultimately show ?thesis using verdict_immediate by blast
qed

text \<open>
  Rule 3 has no minimum-size guard. While no TC has been received (the topology set is empty)
  an enabled node flags every sender of a HELLO.
\<close>

theorem gcop_empty_topology_flags_all:
  assumes "gc_enabled d" "gc_attached d" "m_topologySet s = []"
  shows "Gcop_IsMalicious x (Gcop_OnRecvHello x s d)"
proof -
  have "CheckRule3 x s d \<noteq> None" unfolding CheckRule3_iff using assms(3) by simp
  then have "check_rules x s d \<noteq> None" by (auto simp: check_rules_def split: option.splits)
  then show ?thesis using assms(1,2)
    by (auto simp: Gcop_OnRecvHello_def EvaluateContradictionRules_def Gcop_IsMalicious_def)
qed

theorem gcop_empty_topology_flags_all_witness:
  "Gcop_IsMalicious 2 (Gcop_OnRecvHello 2 OlsrState_init example_gcop)"
  by (rule gcop_empty_topology_flags_all)
    (simp_all add: example_gcop_def Gcop_SetEnabled_def Gcop_Setup_def Gcop_init_def OlsrState_init_def)

text \<open>
  The bait check of rule 1 runs also with \<open>UseFictitiousNodes\<close> false: a sender recorded as
  announcing our fictitious address, which is no neighbor of ours, is flagged in both modes.
\<close>

theorem gcop_bait_always_on:
  assumes "gc_enabled d" "gc_attached d" "claims s x (fakeAddress d)" "fakeAddress d \<notin> neighbors_of s"
  shows "Gcop_IsMalicious x (Gcop_OnRecvHello x s (d\<lparr>gc_useFictitiousNodes := u\<rparr>))"
proof -
  let ?d = "d\<lparr>gc_useFictitiousNodes := u\<rparr>"
  have "fakeAddress ?d = fakeAddress d" by (simp add: fakeAddress_def)
  then have "CheckRule1 x s ?d \<noteq> None" unfolding CheckRule1_iff using assms(3,4) by auto
  then have "check_rules x s ?d \<noteq> None" by (auto simp: check_rules_def split: option.splits)
  then show ?thesis using assms(1,2)
    by (auto simp: Gcop_OnRecvHello_def EvaluateContradictionRules_def Gcop_IsMalicious_def)
qed

definition example_bait_state :: olsr_state where
  "example_bait_state = OlsrState_init\<lparr>
     m_twoHopNeighborSet := [\<lparr>th_neighborMainAddr = 2, th_twoHopNeighborAddr = 65537, th_expirationTime = 9\<rparr>]\<rparr>"

theorem gcop_bait_always_on_witness:
  "Gcop_IsMalicious 2 (Gcop_OnRecvHello 2 example_bait_state (example_gcop\<lparr>gc_useFictitiousNodes := False\<rparr>))"
  by (rule gcop_bait_always_on)
    (simp_all add: example_gcop_def Gcop_SetEnabled_def Gcop_Setup_def Gcop_init_def
      example_bait_state_def OlsrState_init_def fakeAddress_def claims_def neighbors_of_def)


definition example_hexagon :: olsr_state where
  "example_hexagon = OlsrState_init\<lparr>
     m_neighborSet := [\<lparr>nt_neighborMainAddr = 2, nt_status = STATUS_SYM, nt_willingness = WILL_DEFAULT\<rparr>,
                       \<lparr>nt_neighborMainAddr = 3, nt_status = STATUS_SYM, nt_willingness = WILL_DEFAULT\<rparr>],
     m_twoHopNeighborSet := [\<lparr>th_neighborMainAddr = 2, th_twoHopNeighborAddr = 4, th_expirationTime = 9\<rparr>,
                             \<lparr>th_neighborMainAddr = 3, th_twoHopNeighborAddr = 5, th_expirationTime = 9\<rparr>],
     m_topologySet := [\<lparr>tt_destAddr = 6, tt_lastAddr = 4, tt_sequenceNumber = 1, tt_expirationTime = 9\<rparr>,
                       \<lparr>tt_destAddr = 6, tt_lastAddr = 5, tt_sequenceNumber = 1, tt_expirationTime = 9\<rparr>]\<rparr>"


text \<open>
  The live decision does not consult \<open>RunGcopAlgorithm\<close>. At a node with a single neighbor and one
  2-hop node behind it \<open>RunGcopAlgorithm\<close> asks for a fictitious node, and \<open>RequiresFictitiousNode\<close>
  declines: it runs the hexagon test alone, as its comment says, while the class comment describes the
  test as the fallback of \<open>RunGcopAlgorithm\<close>.
\<close>

definition example_single_relay :: olsr_state where
  "example_single_relay = OlsrState_init\<lparr>
     m_neighborSet := [\<lparr>nt_neighborMainAddr = 2, nt_status = STATUS_SYM, nt_willingness = WILL_DEFAULT\<rparr>],
     m_twoHopNeighborSet := [\<lparr>th_neighborMainAddr = 2, th_twoHopNeighborAddr = 4, th_expirationTime = 9\<rparr>]\<rparr>"

theorem gcop_not_consulted:
  "gc_enabled example_gcop \<and> gc_useFictitiousNodes example_gcop \<and>
   RunGcopAlgorithm example_single_relay example_gcop \<and>
   \<not> Gcop_RequiresFictitiousNode example_single_relay example_gcop"
  by code_simp

text \<open>
  \<open>RunGcopAlgorithm\<close> decides the triggering rule of the paper (Eq. 6): some symmetric
  neighbor has every 2-hop node within distance 2 in the known graph over neighbors and 2-hop
  nodes, topology edges included.
\<close>

theorem gcop_algorithm_iff_eq6:
  assumes "gc_attached d"
  shows "RunGcopAlgorithm s d \<longleftrightarrow> blues_of (gc_mainAddress d) s \<noteq> {} \<and>
    (\<exists>g\<in>greens_of (gc_mainAddress d) s. \<forall>b\<in>blues_of (gc_mainAddress d) s.
       b = g \<or> base_edge s g b \<or>
       (\<exists>h\<in>greens_of (gc_mainAddress d) s \<union> blues_of (gc_mainAddress d) s.
          base_edge s g h \<and> base_edge s h b))"
  using RunGcopAlgorithm_iff [OF assms] by (simp add: near_def)

theorem gcop_algorithm_iff_eq6_witness:
  "\<not> RunGcopAlgorithm example_hexagon example_gcop \<and>
   {g \<in> greens_of 1 example_hexagon. {b \<in> blues_of 1 example_hexagon. \<not> base_edge example_hexagon g b} = {}} = {}"
proof -
  have m: "gc_attached example_gcop" "gc_mainAddress example_gcop = 1" by code_simp+
  have "\<not> RunGcopAlgorithm example_hexagon example_gcop" "gcop_blues 1 example_hexagon \<noteq> []" by code_simp+
  moreover from this have "blues_of 1 example_hexagon \<noteq> {}" using set_gcop_blues [of 1 example_hexagon] by auto
  ultimately show ?thesis
    using gcop_algorithm_iff_eq6 [OF m(1), of example_hexagon] unfolding m(2) by blast
qed

end
