(* ===== verification/Watchdog.thy ===== *)
theory Watchdog
  imports Complex_Main Olsr_State
begin

text \<open>
  The cross-layer watchdog defense, olsr-watchdog-defense.cc and .h. The record \<open>watchdog\<close> has the
  members of \<open>OlsrWatchdogDefense\<close>; \<open>m_protocol\<close> is reduced to whether it is set, its information
  base is the parameter \<open>s\<close>, and \<open>Simulator::Now()\<close> the parameter \<open>now\<close>. Counters are \<open>uint32_t\<close>.
  The ratio \<open>macTxFailures / packetsSentTo\<close> is computed exactly: two ratios of 32-bit counts that
  differ, differ by far more than a rounding error, so the comparison has the outcome of the
  double one with the decimal threshold.

  A frame from the sniffer is what the accessors of \<open>WifiMacHeader\<close>, LLC and IP header say of it.
  \<open>wd_events\<close> lists the due times of all \<open>PeriodicCheck\<close> events the simulator holds for this
  object, \<open>wd_periodicEvent\<close> the one that \<open>m_periodicEvent\<close> refers to.
\<close>

type_synonym mac = "48 word"

definition mac_broadcast :: mac where "mac_broadcast = 0xffffffffffff"

definition mac_IsGroup :: "mac \<Rightarrow> bool" where "mac_IsGroup m \<longleftrightarrow> bit m 40"

record pending_packet =
  pp_packetUid :: "64 word"
  pp_finalDest :: ipv4
  pp_sentTime :: time

record neighbor_stats =
  ns_packetsSentTo :: u32
  ns_packetsForwarded :: u32
  ns_notForwardedEvidence :: u32
  ns_macTxFailures :: u32
  ns_rtsFromThisNode :: u32
  ns_dataFromThisNode :: u32
  ns_lastActivityTime :: time
  ns_rtsInWindow :: u32
  ns_ctsInWindow :: u32
  ns_rtsPrevWindow :: u32
  ns_ctsPrevWindow :: u32
  ns_onProbation :: bool
  ns_probationUntil :: time
  ns_evidenceAtProbationStart :: u32
  ns_blacklistedAt :: time

definition neighbor_stats_init :: neighbor_stats where
  "neighbor_stats_init = \<lparr>ns_packetsSentTo = 0, ns_packetsForwarded = 0, ns_notForwardedEvidence = 0,
     ns_macTxFailures = 0, ns_rtsFromThisNode = 0, ns_dataFromThisNode = 0, ns_lastActivityTime = 0,
     ns_rtsInWindow = 0, ns_ctsInWindow = 0, ns_rtsPrevWindow = 0, ns_ctsPrevWindow = 0,
     ns_onProbation = False, ns_probationUntil = 0, ns_evidenceAtProbationStart = 0,
     ns_blacklistedAt = 0\<rparr>"

record watchdog =
  wd_attached :: bool
  wd_mainAddress :: ipv4
  wd_myMacAddress :: mac
  wd_setupDone :: bool
  wd_blacklist :: "ipv4 std_set"
  wd_pendingByNeighbor :: "(ipv4, pending_packet list) std_map"
  wd_neighborStats :: "(ipv4, neighbor_stats) std_map"
  wd_macToIp :: "(mac, ipv4) std_map"
  wd_selfDropsWindow :: u32
  wd_selfDropsPrevWindow :: u32
  wd_periodicEvent :: "time option"
  wd_events :: "time list"
  wd_forwardTimeout :: time
  wd_periodicInterval :: time
  wd_warmupDuration :: time
  wd_probationDuration :: time
  wd_blacklistThreshold :: u32
  wd_selfDropsThreshold :: u32
  wd_macFailureThreshold :: u32
  wd_macFailureRateThresh :: rat
  wd_minDataObservations :: u32
  wd_rtsCtsDiscrepancyThresh :: u32
  wd_blacklistDuration :: time
  wd_verifyOnwardHop :: bool
  wd_enabled :: bool
  wd_warmupUntil :: time

text \<open>The constructor, with the attribute defaults of \<open>GetTypeId\<close>.\<close>

definition Watchdog_init :: watchdog where
  "Watchdog_init = \<lparr>wd_attached = False, wd_mainAddress = ipv4_any, wd_myMacAddress = 0,
     wd_setupDone = False, wd_blacklist = [], wd_pendingByNeighbor = [], wd_neighborStats = [],
     wd_macToIp = [], wd_selfDropsWindow = 0, wd_selfDropsPrevWindow = 0, wd_periodicEvent = None,
     wd_events = [], wd_forwardTimeout = 500000000, wd_periodicInterval = second,
     wd_warmupDuration = 15 * second, wd_probationDuration = 2 * second, wd_blacklistThreshold = 3,
     wd_selfDropsThreshold = 5, wd_macFailureThreshold = 3, wd_macFailureRateThresh = 2 / 5,
     wd_minDataObservations = 2, wd_rtsCtsDiscrepancyThresh = 1, wd_blacklistDuration = 30 * second,
     wd_verifyOnwardHop = True, wd_enabled = True, wd_warmupUntil = 0\<rparr>"

definition wd_stat :: "ipv4 \<Rightarrow> watchdog \<Rightarrow> neighbor_stats" where
  "wd_stat a w = map_ref neighbor_stats_init (wd_neighborStats w) a"

text \<open>\<open>m_neighborStats[a]\<close> as a target of assignments.\<close>

definition upd_stat :: "ipv4 \<Rightarrow> (neighbor_stats \<Rightarrow> neighbor_stats) \<Rightarrow> watchdog \<Rightarrow> watchdog" where
  "upd_stat a f w = w\<lparr>wd_neighborStats := map_put a (f (wd_stat a w)) (wd_neighborStats w)\<rparr>"

section \<open>Lifecycle\<close>

definition wd_schedule :: "time \<Rightarrow> watchdog \<Rightarrow> watchdog" where
  "wd_schedule now w =
     w\<lparr>wd_events := wd_events w @ [now + wd_periodicInterval w],
       wd_periodicEvent := Some (now + wd_periodicInterval w)\<rparr>"

text \<open>\<open>myMac\<close> is the address of the last WiFi device of the own node, if one was found.\<close>

definition Watchdog_Setup :: "ipv4 \<Rightarrow> mac option \<Rightarrow> time \<Rightarrow> watchdog \<Rightarrow> watchdog" where
  "Watchdog_Setup nodeAddress myMac now w =
     (let w = w\<lparr>wd_attached := True, wd_mainAddress := nodeAddress\<rparr>;
          w = (case myMac of Some m \<Rightarrow> w\<lparr>wd_myMacAddress := m\<rparr> | None \<Rightarrow> w);
          w = (case wd_periodicEvent w of
                 Some t \<Rightarrow> w\<lparr>wd_events := remove1 t (wd_events w)\<rparr>
               | None \<Rightarrow> w);
          w = wd_schedule now w
      in w\<lparr>wd_warmupUntil := now + wd_warmupDuration w, wd_setupDone := True\<rparr>)"

definition Watchdog_DoDispose :: "watchdog \<Rightarrow> watchdog" where
  "Watchdog_DoDispose w =
     (case wd_periodicEvent w of
        Some t \<Rightarrow> w\<lparr>wd_events := remove1 t (wd_events w)\<rparr>
      | None \<Rightarrow> w)
     \<lparr>wd_pendingByNeighbor := [], wd_neighborStats := [], wd_macToIp := [], wd_blacklist := [],
      wd_attached := False\<rparr>"

definition Watchdog_IsMalicious :: "ipv4 \<Rightarrow> watchdog \<Rightarrow> bool" where
  "Watchdog_IsMalicious a w = (if \<not> wd_enabled w then False else set_count (wd_blacklist w) a)"

definition Watchdog_GetBlacklist :: "watchdog \<Rightarrow> ipv4 std_set" where
  "Watchdog_GetBlacklist w = (if \<not> wd_enabled w then [] else wd_blacklist w)"

definition ResetAccumulatedState :: "time \<Rightarrow> watchdog \<Rightarrow> watchdog" where
  "ResetAccumulatedState now w =
     w\<lparr>wd_blacklist := [], wd_pendingByNeighbor := [], wd_neighborStats := [], wd_macToIp := [],
       wd_selfDropsWindow := 0, wd_selfDropsPrevWindow := 0,
       wd_warmupUntil := now + wd_warmupDuration w\<rparr>"

definition Watchdog_SetEnabled :: "bool \<Rightarrow> time \<Rightarrow> watchdog \<Rightarrow> watchdog" where
  "Watchdog_SetEnabled enabled now w =
     (if wd_enabled w = enabled then w else ResetAccumulatedState now (w\<lparr>wd_enabled := enabled\<rparr>))"

record watchdog_sizes =
  dbg_blacklist :: nat
  dbg_pendingNeighbors :: nat
  dbg_pendingTotal :: nat
  dbg_neighborStats :: nat
  dbg_macToIp :: nat
  dbg_selfDropsWindow :: nat
  dbg_selfDropsPrev :: nat

definition Watchdog_DebugStateSizes :: "watchdog \<Rightarrow> watchdog_sizes" where
  "Watchdog_DebugStateSizes w =
     \<lparr>dbg_blacklist = length (wd_blacklist w),
      dbg_pendingNeighbors = length (wd_pendingByNeighbor w),
      dbg_pendingTotal = fold (\<lambda>(a, v) total. total + length v) (wd_pendingByNeighbor w) 0,
      dbg_neighborStats = length (wd_neighborStats w),
      dbg_macToIp = length (wd_macToIp w),
      dbg_selfDropsWindow = unat (wd_selfDropsWindow w),
      dbg_selfDropsPrev = unat (wd_selfDropsPrevWindow w)\<rparr>"

section \<open>Data plane hooks\<close>

definition Watchdog_OnDataPacketForwarded ::
  "64 word \<Rightarrow> ipv4 \<Rightarrow> ipv4 \<Rightarrow> time \<Rightarrow> watchdog \<Rightarrow> watchdog" where
  "Watchdog_OnDataPacketForwarded uid nextHop finalDest now w =
     (if \<not> wd_enabled w then w
      else if nextHop = wd_mainAddress w then w
      else if nextHop = finalDest then w
      else if nextHop = ipv4_broadcast \<or> nextHop = ipv4_any \<or> ipv4_is_multicast nextHop then w
      else if Watchdog_IsMalicious nextHop w then w
      else
        let pp = \<lparr>pp_packetUid = uid, pp_finalDest = finalDest, pp_sentTime = now\<rparr>;
            w = w\<lparr>wd_pendingByNeighbor :=
                   map_put nextHop (map_ref [] (wd_pendingByNeighbor w) nextHop @ [pp])
                     (wd_pendingByNeighbor w)\<rparr>
        in upd_stat nextHop (\<lambda>s. s\<lparr>ns_packetsSentTo := ns_packetsSentTo s + 1,
                                  ns_lastActivityTime := now\<rparr>) w)"

definition Watchdog_OnMacTxFailure :: "ipv4 \<Rightarrow> u32 \<Rightarrow> watchdog \<Rightarrow> watchdog" where
  "Watchdog_OnMacTxFailure neighbor count w =
     (if \<not> wd_enabled w then w
      else if neighbor = ipv4_any \<or> neighbor = ipv4_broadcast \<or> ipv4_is_multicast neighbor then w
      else
        let w = upd_stat neighbor (\<lambda>s. s\<lparr>ns_macTxFailures := ns_macTxFailures s + count\<rparr>) w
        in case map_of (wd_pendingByNeighbor w) neighbor of
             Some (pp # v) \<Rightarrow> w\<lparr>wd_pendingByNeighbor := map_put neighbor v (wd_pendingByNeighbor w)\<rparr>
           | _ \<Rightarrow> w)"

section \<open>Sniffer hooks\<close>

definition LookupIpFromMac :: "mac \<Rightarrow> watchdog \<Rightarrow> ipv4" where
  "LookupIpFromMac m w = (case map_of (wd_macToIp w) m of Some ip \<Rightarrow> ip | None \<Rightarrow> ipv4_any)"

definition IsKnownNode :: "ipv4 \<Rightarrow> olsr_state \<Rightarrow> watchdog \<Rightarrow> bool" where
  "IsKnownNode addr s w =
     (if addr = ipv4_any \<or> addr = wd_mainAddress w then False
      else if \<not> wd_attached w then False
      else if find_first (\<lambda>n. nt_neighborMainAddr n = addr) (m_neighborSet s) \<noteq> None then True
      else if find_first (\<lambda>n2. th_twoHopNeighborAddr n2 = addr \<or> th_neighborMainAddr n2 = addr)
                (m_twoHopNeighborSet s) \<noteq> None then True
      else if find_first (\<lambda>t. tt_destAddr t = addr \<or> tt_lastAddr t = addr) (m_topologySet s) \<noteq> None
      then True
      else False)"

definition IsPlausibleOnwardHop :: "mac \<Rightarrow> ipv4 \<Rightarrow> olsr_state \<Rightarrow> watchdog \<Rightarrow> bool" where
  "IsPlausibleOnwardHop receiver forwarder s w =
     (if \<not> wd_verifyOnwardHop w then True
      else if receiver = mac_broadcast \<or> mac_IsGroup receiver then False
      else if receiver = wd_myMacAddress w then False
      else
        let rxIp = LookupIpFromMac receiver w
        in if rxIp = ipv4_any then True
           else if rxIp = wd_mainAddress w \<or> rxIp = forwarder then False
           else IsKnownNode rxIp s w)"

definition Watchdog_OnNeighborForwardedPacket ::
  "mac \<Rightarrow> mac \<Rightarrow> 64 word \<Rightarrow> olsr_state \<Rightarrow> time \<Rightarrow> watchdog \<Rightarrow> watchdog" where
  "Watchdog_OnNeighborForwardedPacket transmitter receiver uid s now w =
     (if \<not> wd_enabled w then w
      else
        let txIp = LookupIpFromMac transmitter w
        in if txIp = ipv4_any then w
           else
             let w = upd_stat txIp (\<lambda>st. st\<lparr>ns_dataFromThisNode := ns_dataFromThisNode st + 1,
                                            ns_lastActivityTime := now\<rparr>) w
             in case map_of (wd_pendingByNeighbor w) txIp of
                  None \<Rightarrow> w
                | Some v \<Rightarrow>
                    if find_first (\<lambda>pp. pp_packetUid pp = uid) v = None then w
                    else if \<not> IsPlausibleOnwardHop receiver txIp s w then w
                    else upd_stat txIp (\<lambda>st. st\<lparr>ns_packetsForwarded := ns_packetsForwarded st + 1\<rparr>)
                           (w\<lparr>wd_pendingByNeighbor :=
                              map_put txIp (erase_first (\<lambda>pp. pp_packetUid pp = uid) v)
                                (wd_pendingByNeighbor w)\<rparr>))"

definition Watchdog_OnRtsReceived :: "mac \<Rightarrow> watchdog \<Rightarrow> watchdog" where
  "Watchdog_OnRtsReceived sender w =
     (if \<not> wd_enabled w then w
      else if sender = wd_myMacAddress w then w
      else
        let ip = LookupIpFromMac sender w
        in if ip = ipv4_any then w
           else upd_stat ip (\<lambda>s. s\<lparr>ns_rtsFromThisNode := ns_rtsFromThisNode s + 1,
                                  ns_rtsInWindow := ns_rtsInWindow s + 1\<rparr>) w)"

definition Watchdog_OnCtsReceived :: "mac \<Rightarrow> watchdog \<Rightarrow> watchdog" where
  "Watchdog_OnCtsReceived rtsSender w =
     (if \<not> wd_enabled w then w
      else if rtsSender = wd_myMacAddress w then w
      else
        let ip = LookupIpFromMac rtsSender w
        in if ip = ipv4_any then w
           else upd_stat ip (\<lambda>s. s\<lparr>ns_ctsInWindow := ns_ctsInWindow s + 1\<rparr>) w)"

datatype wifi_frame =
    Rts_frame mac mac                             \<comment> \<open>Addr2 (sender), Addr1 (receiver)\<close>
  | Cts_frame mac                                 \<comment> \<open>Addr1, whose RTS is cleared\<close>
  | Data_frame mac mac "64 word" "ipv4 option"    \<comment> \<open>Addr2, Addr1, packet uid, IP source if IPv4\<close>
  | Other_frame

fun SnifferRxCallback :: "wifi_frame \<Rightarrow> olsr_state \<Rightarrow> time \<Rightarrow> watchdog \<Rightarrow> watchdog" where
  "SnifferRxCallback (Rts_frame tx rx) s now w =
     (if \<not> wd_enabled w then w
      else if tx = wd_myMacAddress w then w
      else Watchdog_OnRtsReceived tx w)"
| "SnifferRxCallback (Cts_frame rx) s now w =
     (if \<not> wd_enabled w then w else Watchdog_OnCtsReceived rx w)"
| "SnifferRxCallback (Data_frame txMac rxMac uid srcIp) s now w =
     (if \<not> wd_enabled w then w
      else if txMac = wd_myMacAddress w then w
      else
        let w = (if rxMac = mac_broadcast
                 then (case srcIp of
                         Some ip \<Rightarrow> if ip \<noteq> ipv4_any
                                    then w\<lparr>wd_macToIp := map_put txMac ip (wd_macToIp w)\<rparr> else w
                       | None \<Rightarrow> w)
                 else w)
        in Watchdog_OnNeighborForwardedPacket txMac rxMac uid s now w)"
| "SnifferRxCallback Other_frame s now w = w"

definition PhyRxDropCallback :: "watchdog \<Rightarrow> watchdog" where
  "PhyRxDropCallback w =
     (if \<not> wd_enabled w then w else w\<lparr>wd_selfDropsWindow := wd_selfDropsWindow w + 1\<rparr>)"

definition Watchdog_OnSelfReliabilityReport :: "u32 \<Rightarrow> watchdog \<Rightarrow> watchdog" where
  "Watchdog_OnSelfReliabilityReport localDropsCount w =
     (if \<not> wd_enabled w then w
      else w\<lparr>wd_selfDropsWindow := wd_selfDropsWindow w + localDropsCount\<rparr>)"

section \<open>Periodic check\<close>

definition CollisionSuspectedFor :: "neighbor_stats \<Rightarrow> watchdog \<Rightarrow> bool" where
  "CollisionSuspectedFor st w =
     (let rts = ns_rtsInWindow st + ns_rtsPrevWindow st;
          cts = ns_ctsInWindow st + ns_ctsPrevWindow st
      in if cts \<ge> rts then False else rts - cts \<ge> wd_rtsCtsDiscrepancyThresh w)"

definition LocalMacStatus :: "watchdog \<Rightarrow> bool" where
  "LocalMacStatus w \<longleftrightarrow> wd_selfDropsWindow w + wd_selfDropsPrevWindow w \<le> 2 * wd_selfDropsThreshold w"

definition RotateMacWindows :: "watchdog \<Rightarrow> watchdog" where
  "RotateMacWindows w =
     w\<lparr>wd_neighborStats := map (\<lambda>(a, st). (a, st\<lparr>ns_rtsPrevWindow := ns_rtsInWindow st,
          ns_ctsPrevWindow := ns_ctsInWindow st, ns_rtsInWindow := 0, ns_ctsInWindow := 0\<rparr>))
          (wd_neighborStats w),
       wd_selfDropsPrevWindow := wd_selfDropsWindow w, wd_selfDropsWindow := 0\<rparr>"

definition EvaluateMissingForward :: "ipv4 \<Rightarrow> time \<Rightarrow> watchdog \<Rightarrow> watchdog" where
  "EvaluateMissingForward neighbor now w =
     (if now < wd_warmupUntil w then w
      else if \<not> LocalMacStatus w then w
      else
        let w = upd_stat neighbor (\<lambda>st. st) w; st = wd_stat neighbor w
        in if ns_macTxFailures st > wd_macFailureThreshold w then w
           else if CollisionSuspectedFor st w then w
           else upd_stat neighbor (\<lambda>st. st\<lparr>ns_notForwardedEvidence := ns_notForwardedEvidence st + 1\<rparr>) w)"

definition persistedMisbehavior :: "neighbor_stats \<Rightarrow> watchdog \<Rightarrow> bool" where
  "persistedMisbehavior st w \<longleftrightarrow>
     ns_notForwardedEvidence st - ns_evidenceAtProbationStart st \<ge> wd_blacklistThreshold w div 2"

definition MaybeBlacklist :: "ipv4 \<Rightarrow> time \<Rightarrow> watchdog \<Rightarrow> watchdog" where
  "MaybeBlacklist neighbor now w =
     (if set_count (wd_blacklist w) neighbor then w
      else case map_of (wd_neighborStats w) neighbor of
             None \<Rightarrow> w
           | Some st \<Rightarrow>
               if ns_notForwardedEvidence st < wd_blacklistThreshold w then w
               else if ns_dataFromThisNode st < wd_minDataObservations w then w
               else if ns_packetsSentTo st > 0 \<and>
                       of_nat (unat (ns_macTxFailures st)) / of_nat (unat (ns_packetsSentTo st))
                         \<ge> wd_macFailureRateThresh w
               then w
               else if \<not> ns_onProbation st
               then upd_stat neighbor (\<lambda>st. st\<lparr>ns_onProbation := True,
                      ns_probationUntil := now + wd_probationDuration w,
                      ns_evidenceAtProbationStart := ns_notForwardedEvidence st\<rparr>) w
               else if now < ns_probationUntil st then w
               else if \<not> persistedMisbehavior st w
               then upd_stat neighbor (\<lambda>st. st\<lparr>ns_onProbation := False, ns_probationUntil := 0,
                      ns_notForwardedEvidence := ns_notForwardedEvidence st div 2,
                      ns_evidenceAtProbationStart := 0\<rparr>) w
               else upd_stat neighbor (\<lambda>st. st\<lparr>ns_blacklistedAt := now\<rparr>)
                      (w\<lparr>wd_blacklist := set_insert neighbor (wd_blacklist w)\<rparr>))"

text \<open>One step of the loop of \<open>ReleaseExpiredBlacklist\<close>, over the listed addresses.\<close>

definition release_one :: "time \<Rightarrow> ipv4 \<Rightarrow> watchdog \<Rightarrow> watchdog" where
  "release_one now a w =
     (case map_of (wd_neighborStats w) a of
        None \<Rightarrow> w
      | Some st \<Rightarrow>
          if ns_blacklistedAt st = 0 then w
          else if now - ns_blacklistedAt st < wd_blacklistDuration w then w
          else upd_stat a (\<lambda>ns. ns\<lparr>ns_notForwardedEvidence := 0, ns_onProbation := False,
                 ns_probationUntil := 0, ns_evidenceAtProbationStart := 0, ns_blacklistedAt := 0\<rparr>)
                 (w\<lparr>wd_blacklist := set_erase a (wd_blacklist w)\<rparr>))"

definition ReleaseExpiredBlacklist :: "time \<Rightarrow> watchdog \<Rightarrow> watchdog" where
  "ReleaseExpiredBlacklist now w =
     (if wd_blacklistDuration w = 0 then w else fold (release_one now) (wd_blacklist w) w)"

text \<open>Step 1 for one neighbor: its expired packets are scored, in order, and dropped.\<close>

definition age_neighbor :: "time \<Rightarrow> ipv4 \<times> pending_packet list \<Rightarrow> watchdog \<Rightarrow> watchdog" where
  "age_neighbor now = (\<lambda>(neighbor, vec) w.
     let expired = (\<lambda>p. now - pp_sentTime p > wd_forwardTimeout w);
         w' = fold (\<lambda>p w. if expired p then EvaluateMissingForward neighbor now w else w) vec w;
         vec' = erase_all expired vec
     in w'\<lparr>wd_pendingByNeighbor := (if vec' = [] then map_erase neighbor (wd_pendingByNeighbor w')
                                    else map_put neighbor vec' (wd_pendingByNeighbor w'))\<rparr>)"

definition AgePending :: "time \<Rightarrow> watchdog \<Rightarrow> watchdog" where
  "AgePending now w = fold (age_neighbor now) (wd_pendingByNeighbor w) w"

definition Watchdog_PeriodicCheck :: "time \<Rightarrow> watchdog \<Rightarrow> watchdog" where
  "Watchdog_PeriodicCheck now w =
     (if \<not> wd_enabled w then wd_schedule now w
      else
        let w = AgePending now w;
            w = fold (\<lambda>(a, st) w. MaybeBlacklist a now w) (wd_neighborStats w) w;
            w = ReleaseExpiredBlacklist now w;
            w = RotateMacWindows w
        in wd_schedule now w)"

text \<open>The simulator runs a due event: it leaves the queue, then the function is called.\<close>

definition Watchdog_event :: "time \<Rightarrow> watchdog \<Rightarrow> watchdog" where
  "Watchdog_event now w = Watchdog_PeriodicCheck now (w\<lparr>wd_events := remove1 now (wd_events w)\<rparr>)"

section \<open>Access lemmas\<close>

lemma wd_stat_upd_stat [simp]:
  "wd_stat a (upd_stat b f w) = (if a = b then f (wd_stat b w) else wd_stat a w)"
  by (simp add: wd_stat_def upd_stat_def map_ref_def)

lemma map_of_upd_stat:
  "map_of (wd_neighborStats (upd_stat b f w)) a =
    (if a = b then Some (f (wd_stat b w)) else map_of (wd_neighborStats w) a)"
  by (simp add: upd_stat_def)

lemma wd_stat_Some: "map_of (wd_neighborStats w) a = Some st \<Longrightarrow> wd_stat a w = st"
  by (simp add: wd_stat_def map_ref_def)

lemma wd_stat_congs [simp]:
  "wd_stat a (w\<lparr>wd_blacklist := bl\<rparr>) = wd_stat a w"
  "wd_stat a (w\<lparr>wd_pendingByNeighbor := pb\<rparr>) = wd_stat a w"
  "wd_stat a (w\<lparr>wd_macToIp := mi\<rparr>) = wd_stat a w"
  "wd_stat a (w\<lparr>wd_selfDropsWindow := sd\<rparr>) = wd_stat a w"
  by (simp_all add: wd_stat_def)

lemma upd_stat_fields [simp]:
  "wd_blacklist (upd_stat a f w) = wd_blacklist w"
  "wd_pendingByNeighbor (upd_stat a f w) = wd_pendingByNeighbor w"
  "wd_macToIp (upd_stat a f w) = wd_macToIp w"
  "wd_enabled (upd_stat a f w) = wd_enabled w"
  "wd_attached (upd_stat a f w) = wd_attached w"
  "wd_mainAddress (upd_stat a f w) = wd_mainAddress w"
  "wd_myMacAddress (upd_stat a f w) = wd_myMacAddress w"
  "wd_warmupUntil (upd_stat a f w) = wd_warmupUntil w"
  "wd_selfDropsWindow (upd_stat a f w) = wd_selfDropsWindow w"
  "wd_selfDropsPrevWindow (upd_stat a f w) = wd_selfDropsPrevWindow w"
  "wd_selfDropsThreshold (upd_stat a f w) = wd_selfDropsThreshold w"
  "wd_macFailureThreshold (upd_stat a f w) = wd_macFailureThreshold w"
  "wd_macFailureRateThresh (upd_stat a f w) = wd_macFailureRateThresh w"
  "wd_blacklistThreshold (upd_stat a f w) = wd_blacklistThreshold w"
  "wd_minDataObservations (upd_stat a f w) = wd_minDataObservations w"
  "wd_rtsCtsDiscrepancyThresh (upd_stat a f w) = wd_rtsCtsDiscrepancyThresh w"
  "wd_probationDuration (upd_stat a f w) = wd_probationDuration w"
  "wd_blacklistDuration (upd_stat a f w) = wd_blacklistDuration w"
  "wd_forwardTimeout (upd_stat a f w) = wd_forwardTimeout w"
  "wd_periodicInterval (upd_stat a f w) = wd_periodicInterval w"
  "wd_verifyOnwardHop (upd_stat a f w) = wd_verifyOnwardHop w"
  "wd_events (upd_stat a f w) = wd_events w"
  "wd_periodicEvent (upd_stat a f w) = wd_periodicEvent w"
  by (simp_all add: upd_stat_def)

text \<open>The configuration and the members that no detection step writes.\<close>

definition same_config :: "watchdog \<Rightarrow> watchdog \<Rightarrow> bool" where
  "same_config w w' \<longleftrightarrow>
     wd_enabled w' = wd_enabled w \<and> wd_warmupUntil w' = wd_warmupUntil w \<and>
     wd_blacklistThreshold w' = wd_blacklistThreshold w \<and>
     wd_macFailureThreshold w' = wd_macFailureThreshold w \<and>
     wd_macFailureRateThresh w' = wd_macFailureRateThresh w \<and>
     wd_minDataObservations w' = wd_minDataObservations w \<and>
     wd_rtsCtsDiscrepancyThresh w' = wd_rtsCtsDiscrepancyThresh w \<and>
     wd_selfDropsThreshold w' = wd_selfDropsThreshold w \<and>
     wd_probationDuration w' = wd_probationDuration w \<and>
     wd_blacklistDuration w' = wd_blacklistDuration w \<and>
     wd_periodicInterval w' = wd_periodicInterval w \<and>
     wd_events w' = wd_events w"

lemma same_config_refl [simp]: "same_config w w"
  by (simp add: same_config_def)

lemma same_config_trans: "same_config w w' \<Longrightarrow> same_config w' w'' \<Longrightarrow> same_config w w''"
  by (simp add: same_config_def)

section \<open>Scoring of a missing forward\<close>

lemma CollisionSuspectedFor_upd [simp]: "CollisionSuspectedFor st (upd_stat a f w) = CollisionSuspectedFor st w"
  by (simp add: CollisionSuspectedFor_def Let_def)

lemma LocalMacStatus_upd [simp]: "LocalMacStatus (upd_stat a f w) = LocalMacStatus w"
  by (simp add: LocalMacStatus_def)

definition counts_as_evidence :: "ipv4 \<Rightarrow> time \<Rightarrow> watchdog \<Rightarrow> bool" where
  "counts_as_evidence a now w \<longleftrightarrow> \<not> now < wd_warmupUntil w \<and> LocalMacStatus w \<and>
     \<not> ns_macTxFailures (wd_stat a w) > wd_macFailureThreshold w \<and>
     \<not> CollisionSuspectedFor (wd_stat a w) w"

lemma EvaluateMissingForward_stat:
  "wd_stat x (EvaluateMissingForward a now w) =
    (if x = a \<and> counts_as_evidence a now w
     then (wd_stat a w)\<lparr>ns_notForwardedEvidence := ns_notForwardedEvidence (wd_stat a w) + 1\<rparr>
     else wd_stat x w)"
  by (simp add: EvaluateMissingForward_def Let_def counts_as_evidence_def)

lemma EvaluateMissingForward_other:
  "wd_blacklist (EvaluateMissingForward a now w) = wd_blacklist w"
  "wd_pendingByNeighbor (EvaluateMissingForward a now w) = wd_pendingByNeighbor w"
  "same_config w (EvaluateMissingForward a now w)"
  by (simp_all add: EvaluateMissingForward_def Let_def same_config_def)

text \<open>The fields that aging does not write, and the ones that only the verdicts write.\<close>

definition same_verdict :: "neighbor_stats \<Rightarrow> neighbor_stats \<Rightarrow> bool" where
  "same_verdict st st' \<longleftrightarrow> ns_onProbation st' = ns_onProbation st \<and>
     ns_probationUntil st' = ns_probationUntil st \<and>
     ns_evidenceAtProbationStart st' = ns_evidenceAtProbationStart st \<and>
     ns_blacklistedAt st' = ns_blacklistedAt st \<and> ns_macTxFailures st' = ns_macTxFailures st \<and>
     ns_packetsSentTo st' = ns_packetsSentTo st \<and> ns_dataFromThisNode st' = ns_dataFromThisNode st"

definition aging_rel :: "watchdog \<Rightarrow> watchdog \<Rightarrow> bool" where
  "aging_rel w w' \<longleftrightarrow> same_config w w' \<and> wd_blacklist w' = wd_blacklist w \<and>
     (\<forall>a. same_verdict (wd_stat a w) (wd_stat a w')) \<and>
     set (map fst (wd_neighborStats w)) \<subseteq> set (map fst (wd_neighborStats w')) \<and>
     (wf_map (wd_neighborStats w) \<longrightarrow> wf_map (wd_neighborStats w'))"

lemma same_verdict_refl [simp]: "same_verdict st st"
  by (simp add: same_verdict_def)

lemma same_verdict_trans: "same_verdict a b \<Longrightarrow> same_verdict b c \<Longrightarrow> same_verdict a c"
  by (simp add: same_verdict_def)

lemma aging_rel_refl [simp]: "aging_rel w w"
  by (simp add: aging_rel_def)

lemma aging_rel_trans:
  assumes "aging_rel w w'" "aging_rel w' w''"
  shows "aging_rel w w''"
proof -
  have "same_config w w''" using assms same_config_trans unfolding aging_rel_def by blast
  moreover have "same_verdict (wd_stat a w) (wd_stat a w'')" for a
    using assms same_verdict_trans unfolding aging_rel_def by blast
  moreover have "set (map fst (wd_neighborStats w)) \<subseteq> set (map fst (wd_neighborStats w''))"
    using assms subset_trans unfolding aging_rel_def by blast
  ultimately show ?thesis using assms unfolding aging_rel_def by simp
qed

lemma same_config_upd_stat [simp]: "same_config w (upd_stat a f w)"
  by (simp add: same_config_def)

lemma wd_keys_upd_stat: "fst ` set (wd_neighborStats (upd_stat a f w)) = insert a (fst ` set (wd_neighborStats w))"
  by (simp add: upd_stat_def)

lemma wf_map_upd_stat [simp]: "wf_map (wd_neighborStats w) \<Longrightarrow> wf_map (wd_neighborStats (upd_stat a f w))"
  by (simp add: upd_stat_def)

lemma aging_rel_upd_stat:
  "same_verdict (wd_stat a w) (f (wd_stat a w)) \<Longrightarrow> aging_rel w (upd_stat a f w)"
  by (auto simp: aging_rel_def wd_keys_upd_stat)

lemma aging_rel_Evaluate: "aging_rel w (EvaluateMissingForward a now w)"
proof -
  have "aging_rel w (upd_stat a (\<lambda>st. st) w)" by (rule aging_rel_upd_stat) simp
  moreover have "aging_rel v (upd_stat a (\<lambda>st. st\<lparr>ns_notForwardedEvidence := ns_notForwardedEvidence st + 1\<rparr>) v)"
    for v by (rule aging_rel_upd_stat) (simp add: same_verdict_def)
  ultimately show ?thesis
    unfolding EvaluateMissingForward_def Let_def by (auto intro: aging_rel_trans)
qed

lemma aging_rel_pending: "aging_rel w w' \<Longrightarrow> aging_rel w (w'\<lparr>wd_pendingByNeighbor := p\<rparr>)"
  by (simp add: aging_rel_def same_config_def)

lemma aging_rel_fold:
  "(\<And>x w. aging_rel w (f x w)) \<Longrightarrow> aging_rel w (fold f xs w)"
  by (rule fold_invariant_rule) (auto intro: aging_rel_trans)

lemma aging_rel_AgePending: "aging_rel w (AgePending now w)"
proof -
  have "aging_rel w (age_neighbor now p w)" for p w
    by (cases p)
      (auto simp: age_neighbor_def Let_def intro!: aging_rel_pending aging_rel_fold aging_rel_Evaluate)
  then show ?thesis by (simp add: AgePending_def aging_rel_fold)
qed

section \<open>Verdicts\<close>

text \<open>What a conviction requires of the statistics of a neighbor.\<close>

definition convictable :: "neighbor_stats \<Rightarrow> time \<Rightarrow> watchdog \<Rightarrow> bool" where
  "convictable st now w \<longleftrightarrow> ns_onProbation st \<and> ns_probationUntil st \<le> now \<and>
     ns_notForwardedEvidence st \<ge> wd_blacklistThreshold w \<and>
     ns_dataFromThisNode st \<ge> wd_minDataObservations w \<and>
     \<not> (ns_packetsSentTo st > 0 \<and>
        of_nat (unat (ns_macTxFailures st)) / of_nat (unat (ns_packetsSentTo st)) \<ge> wd_macFailureRateThresh w) \<and>
     persistedMisbehavior st w"

lemma convictable_config: "same_config w w' \<Longrightarrow> convictable st now w' = convictable st now w"
  by (simp add: convictable_def same_config_def persistedMisbehavior_def)

text \<open>A verdict changes nothing, or the probation of its neighbor, or convicts it.\<close>

lemma MaybeBlacklist_verdict:
  "MaybeBlacklist a now w = w \<or>
   (\<exists>f. MaybeBlacklist a now w = upd_stat a f w \<and> a \<in> fst ` set (wd_neighborStats w) \<and>
        (\<forall>st. ns_blacklistedAt (f st) = ns_blacklistedAt st)) \<or>
   (convictable (wd_stat a w) now w \<and> a \<notin> set (wd_blacklist w) \<and> a \<in> fst ` set (wd_neighborStats w) \<and>
    MaybeBlacklist a now w = upd_stat a (\<lambda>st. st\<lparr>ns_blacklistedAt := now\<rparr>)
      (w\<lparr>wd_blacklist := set_insert a (wd_blacklist w)\<rparr>))"
  (is "?N \<or> ?P \<or> ?C")
proof (cases "map_of (wd_neighborStats w) a")
  case None
  then show ?thesis by (simp add: MaybeBlacklist_def)
next
  case (Some st)
  have key: "a \<in> fst ` set (wd_neighborStats w)" using Some by (metis domI dom_map_of_conv_image_fst)
  show ?thesis
  proof (cases "\<not> (a \<in> set (wd_blacklist w) \<or> ns_notForwardedEvidence st < wd_blacklistThreshold w \<or>
       ns_dataFromThisNode st < wd_minDataObservations w \<or>
       (ns_packetsSentTo st > 0 \<and>
        of_nat (unat (ns_macTxFailures st)) / of_nat (unat (ns_packetsSentTo st)) \<ge> wd_macFailureRateThresh w))")
    case False
    then consider "a \<in> set (wd_blacklist w)" | "ns_notForwardedEvidence st < wd_blacklistThreshold w"
      | "ns_dataFromThisNode st < wd_minDataObservations w"
      | "ns_packetsSentTo st > 0 \<and>
        of_nat (unat (ns_macTxFailures st)) / of_nat (unat (ns_packetsSentTo st)) \<ge> wd_macFailureRateThresh w"
      by blast
    then have ?N by cases (simp_all only: MaybeBlacklist_def Some option.case set_count_iff if_True if_cancel simp_thms)
    then show ?thesis ..
  next
    case True
    then have gates: "(a \<in> set (wd_blacklist w)) = False"
      "(ns_notForwardedEvidence st < wd_blacklistThreshold w) = False"
      "(ns_dataFromThisNode st < wd_minDataObservations w) = False"
      "(ns_packetsSentTo st > 0 \<and>
        of_nat (unat (ns_macTxFailures st)) / of_nat (unat (ns_packetsSentTo st)) \<ge> wd_macFailureRateThresh w) = False"
      by blast+
    note step = MaybeBlacklist_def Some option.case set_count_iff gates if_False
    consider "\<not> ns_onProbation st" | "ns_onProbation st" "now < ns_probationUntil st"
      | "ns_onProbation st" "\<not> now < ns_probationUntil st" "\<not> persistedMisbehavior st w"
      | "ns_onProbation st" "\<not> now < ns_probationUntil st" "persistedMisbehavior st w"
      by blast
    then show ?thesis
    proof cases
      case 1
      then have ?P
        by (simp only: step simp_thms if_True key) (rule exI conjI refl | simp)+
      then show ?thesis by blast
    next
      case 2
      then have ?N by (simp only: step simp_thms if_False if_True)
      then show ?thesis ..
    next
      case 3
      then have ?P
        by (simp only: step simp_thms if_True if_False key) (rule exI conjI refl | simp)+
      then show ?thesis by blast
    next
      case 4
      then have "convictable st now w"
        using 4 unfolding convictable_def gates(4)
        by (simp only: not_less [symmetric] gates(2,3) simp_thms)
      moreover have "MaybeBlacklist a now w = upd_stat a (\<lambda>st. st\<lparr>ns_blacklistedAt := now\<rparr>)
          (w\<lparr>wd_blacklist := set_insert a (wd_blacklist w)\<rparr>)"
        using 4 by (simp only: step simp_thms if_False)
      ultimately have ?C using gates(1) key wd_stat_Some [OF Some] by simp
      then show ?thesis by blast
    qed
  qed
qed

lemma MaybeBlacklist_config [simp]: "same_config w (MaybeBlacklist a now w)"
proof -
  have "same_config w (upd_stat b f (w\<lparr>wd_blacklist := bl\<rparr>))" for b f bl by (simp add: same_config_def)
  then show ?thesis using MaybeBlacklist_verdict [of a now w] by auto
qed

lemma MaybeBlacklist_other:
  assumes "x \<noteq> a"
  shows "wd_stat x (MaybeBlacklist a now w) = wd_stat x w"
    and "x \<in> set (wd_blacklist (MaybeBlacklist a now w)) \<longleftrightarrow> x \<in> set (wd_blacklist w)"
  using assms MaybeBlacklist_verdict [of a now w] by auto

lemma MaybeBlacklist_convicts:
  assumes "a \<notin> set (wd_blacklist w)" "a \<in> set (wd_blacklist (MaybeBlacklist a now w))"
  shows "convictable (wd_stat a w) now w \<and>
         wd_stat a (MaybeBlacklist a now w) = (wd_stat a w)\<lparr>ns_blacklistedAt := now\<rparr>"
  using assms MaybeBlacklist_verdict [of a now w] by auto

lemma MaybeBlacklist_fold_config: "same_config w (fold (\<lambda>(a, st) w. MaybeBlacklist a now w) xs w)"
  by (rule fold_invariant_rule) (auto intro: same_config_trans)

lemma MaybeBlacklist_fold_other:
  assumes "x \<notin> fst ` set xs"
  shows "wd_stat x (fold (\<lambda>(a, st) w. MaybeBlacklist a now w) xs w) = wd_stat x w \<and>
    (x \<in> set (wd_blacklist (fold (\<lambda>(a, st) w. MaybeBlacklist a now w) xs w)) \<longleftrightarrow> x \<in> set (wd_blacklist w))"
  using assms by (induction xs arbitrary: w) (auto simp: MaybeBlacklist_other)

abbreviation judge_all :: "time \<Rightarrow> (ipv4, neighbor_stats) std_map \<Rightarrow> watchdog \<Rightarrow> watchdog" where
  "judge_all now \<equiv> fold (\<lambda>(a, st) w. MaybeBlacklist a now w)"

lemma MaybeBlacklist_fold_convicts:
  assumes "distinct (map fst xs)" "x \<notin> set (wd_blacklist w)" "x \<in> set (wd_blacklist (judge_all now xs w))"
  shows "convictable (wd_stat x w) now w \<and>
    wd_stat x (judge_all now xs w) = (wd_stat x w)\<lparr>ns_blacklistedAt := now\<rparr>"
  using assms
proof (induction xs arbitrary: w)
  case (Cons p xs)
  obtain a st where p: "p = (a, st)" by (cases p)
  let ?w = "MaybeBlacklist a now w"
  have step: "judge_all now (p # xs) w = judge_all now xs ?w" by (simp add: p)
  show ?case
  proof (cases "x = a")
    case True
    then have "x \<notin> fst ` set xs" using Cons.prems(1) p by simp
    note rest = MaybeBlacklist_fold_other [OF this, of now ?w]
    then have "a \<in> set (wd_blacklist ?w)" using Cons.prems(3) True unfolding step by blast
    with Cons.prems(2) True have "convictable (wd_stat x w) now w \<and>
       wd_stat x ?w = (wd_stat x w)\<lparr>ns_blacklistedAt := now\<rparr>"
      using MaybeBlacklist_convicts by blast
    then show ?thesis unfolding step conjunct1 [OF rest] .
  next
    case False
    note other = MaybeBlacklist_other [OF False, of now w]
    have "convictable (wd_stat x ?w) now ?w \<and>
       wd_stat x (judge_all now xs ?w) = (wd_stat x ?w)\<lparr>ns_blacklistedAt := now\<rparr>"
    proof (rule Cons.IH)
      show "distinct (map fst xs)" using Cons.prems(1) by simp
      show "x \<notin> set (wd_blacklist ?w)" using Cons.prems(2) other(2) by blast
      show "x \<in> set (wd_blacklist (judge_all now xs ?w))" using Cons.prems(3) unfolding step .
    qed
    then show ?thesis
      unfolding step other(1) convictable_config [OF MaybeBlacklist_config] .
  qed
qed (simp_all only: fold_simps id_apply simp_thms)

section \<open>Release of expired entries\<close>

lemma release_one_config [simp]: "same_config w (release_one now a w)"
  by (auto simp: release_one_def same_config_def split: option.splits)

lemma release_one_other:
  assumes "x \<noteq> a"
  shows "wd_stat x (release_one now a w) = wd_stat x w"
    and "x \<in> set (wd_blacklist (release_one now a w)) \<longleftrightarrow> x \<in> set (wd_blacklist w)"
  using assms by (auto simp: release_one_def split: option.splits)

lemma release_fold_config: "same_config w (fold (release_one now) xs w)"
  by (rule fold_invariant_rule) (auto intro: same_config_trans)

lemma release_fold_other:
  assumes "x \<notin> set xs"
  shows "wd_stat x (fold (release_one now) xs w) = wd_stat x w \<and>
    (x \<in> set (wd_blacklist (fold (release_one now) xs w)) \<longleftrightarrow> x \<in> set (wd_blacklist w))"
  using assms by (induction xs arbitrary: w) (auto simp: release_one_other)

lemma release_one_keys [simp]:
  "fst ` set (wd_neighborStats (release_one now a w)) = fst ` set (wd_neighborStats w)"
proof (cases "map_of (wd_neighborStats w) a")
  case None
  then show ?thesis by (simp add: release_one_def)
next
  case (Some st)
  then have "a \<in> fst ` set (wd_neighborStats w)" by (metis domI dom_map_of_conv_image_fst)
  then show ?thesis using Some by (auto simp: release_one_def wd_keys_upd_stat insert_absorb)
qed

lemma release_fold_keys [simp]:
  "fst ` set (wd_neighborStats (fold (release_one now) xs w)) = fst ` set (wd_neighborStats w)"
  by (induction xs arbitrary: w) auto

definition released :: "time \<Rightarrow> ipv4 \<Rightarrow> watchdog \<Rightarrow> bool" where
  "released now a w \<longleftrightarrow> a \<in> fst ` set (wd_neighborStats w) \<and> ns_blacklistedAt (wd_stat a w) \<noteq> 0 \<and>
     now - ns_blacklistedAt (wd_stat a w) \<ge> wd_blacklistDuration w"

definition cleared :: "neighbor_stats \<Rightarrow> neighbor_stats" where
  "cleared ns = ns\<lparr>ns_notForwardedEvidence := 0, ns_onProbation := False,
     ns_probationUntil := 0, ns_evidenceAtProbationStart := 0, ns_blacklistedAt := 0\<rparr>"

lemma release_one_self:
  "(a \<in> set (wd_blacklist (release_one now a w)) \<longleftrightarrow> a \<in> set (wd_blacklist w) \<and> \<not> released now a w) \<and>
   wd_stat a (release_one now a w) = (if released now a w then cleared (wd_stat a w) else wd_stat a w)"
proof (cases "map_of (wd_neighborStats w) a")
  case None
  then have "a \<notin> fst ` set (wd_neighborStats w)" by (simp add: map_of_eq_None_iff)
  with None show ?thesis by (simp add: release_one_def released_def)
next
  case (Some st)
  then have "a \<in> fst ` set (wd_neighborStats w)" by (metis domI dom_map_of_conv_image_fst)
  with Some show ?thesis
    by (auto simp: release_one_def released_def cleared_def wd_stat_Some)
qed

lemma ReleaseExpiredBlacklist_result:
  assumes "wf_set (wd_blacklist w)" "x \<in> set (wd_blacklist w)" "wd_blacklistDuration w \<noteq> 0"
  shows "(x \<in> set (wd_blacklist (ReleaseExpiredBlacklist now w)) \<longleftrightarrow> \<not> released now x w) \<and>
    wd_stat x (ReleaseExpiredBlacklist now w) =
      (if released now x w then cleared (wd_stat x w) else wd_stat x w)"
proof -
  have "distinct xs \<Longrightarrow> x \<in> set xs \<Longrightarrow> x \<in> set (wd_blacklist v) \<Longrightarrow>
     (x \<in> set (wd_blacklist (fold (release_one now) xs v)) \<longleftrightarrow> \<not> released now x v) \<and>
     wd_stat x (fold (release_one now) xs v) = (if released now x v then cleared (wd_stat x v) else wd_stat x v)"
    for xs v
  proof (induction xs arbitrary: v)
    case (Cons a xs)
    show ?case
    proof (cases "x = a")
      case True
      then show ?thesis
        using Cons.prems release_fold_other [of x xs now "release_one now a v"] release_one_self [of a now v]
        by simp
    next
      case False
      have "wd_blacklistDuration (release_one now a v) = wd_blacklistDuration v"
        using release_one_config [of v now a] by (simp add: same_config_def)
      then have "released now x (release_one now a v) = released now x v"
        using False by (simp add: released_def release_one_other)
      then show ?thesis
        using Cons False by (simp add: release_one_other)
    qed
  qed simp
  from this [OF wf_set_distinct [OF assms(1)] assms(2,2)] show ?thesis
    using assms(3) by (simp add: ReleaseExpiredBlacklist_def)
qed

section \<open>Aging\<close>

definition wd_expired :: "time \<Rightarrow> watchdog \<Rightarrow> pending_packet \<Rightarrow> bool" where
  "wd_expired now w p \<longleftrightarrow> now - pp_sentTime p > wd_forwardTimeout w"

text \<open>Everything that the scoring of a packet reads, apart from the evidence itself.\<close>

definition same_gates :: "watchdog \<Rightarrow> watchdog \<Rightarrow> bool" where
  "same_gates w w' \<longleftrightarrow> same_config w w' \<and> wd_selfDropsWindow w' = wd_selfDropsWindow w \<and>
     wd_selfDropsPrevWindow w' = wd_selfDropsPrevWindow w \<and> wd_forwardTimeout w' = wd_forwardTimeout w \<and>
     (\<forall>a. (wd_stat a w')\<lparr>ns_notForwardedEvidence := 0\<rparr> = (wd_stat a w)\<lparr>ns_notForwardedEvidence := 0\<rparr>)"

lemma same_gates_refl [simp]: "same_gates w w"
  by (simp add: same_gates_def)

lemma same_gates_Evaluate: "same_gates w v \<Longrightarrow> same_gates w (EvaluateMissingForward a now v)"
proof -
  assume v: "same_gates w v"
  have "(wd_stat x (EvaluateMissingForward a now v))\<lparr>ns_notForwardedEvidence := 0\<rparr> =
      (wd_stat x v)\<lparr>ns_notForwardedEvidence := 0\<rparr>" for x
    unfolding EvaluateMissingForward_stat by simp
  moreover have "same_config w (EvaluateMissingForward a now v)"
    using v EvaluateMissingForward_other(3) same_config_trans unfolding same_gates_def by blast
  moreover have "wd_selfDropsWindow (EvaluateMissingForward a now v) = wd_selfDropsWindow v"
    "wd_selfDropsPrevWindow (EvaluateMissingForward a now v) = wd_selfDropsPrevWindow v"
    "wd_forwardTimeout (EvaluateMissingForward a now v) = wd_forwardTimeout v"
    by (simp_all add: EvaluateMissingForward_def Let_def)
  ultimately show ?thesis using v unfolding same_gates_def by simp
qed

lemma CollisionSuspectedFor_strip:
  "CollisionSuspectedFor (st\<lparr>ns_notForwardedEvidence := e\<rparr>) w = CollisionSuspectedFor st w"
  by (simp add: CollisionSuspectedFor_def)

lemma same_gates_counts:
  assumes "same_gates w v"
  shows "counts_as_evidence a now v = counts_as_evidence a now w" and "wd_expired now v = wd_expired now w"
proof -
  have st: "(wd_stat a v)\<lparr>ns_notForwardedEvidence := 0\<rparr> = (wd_stat a w)\<lparr>ns_notForwardedEvidence := 0\<rparr>"
    using assms unfolding same_gates_def by blast
  from arg_cong [where f = ns_macTxFailures, OF st]
  have mac: "ns_macTxFailures (wd_stat a v) = ns_macTxFailures (wd_stat a w)" by simp
  have "CollisionSuspectedFor x v = CollisionSuspectedFor x w" for x
    using assms by (simp add: CollisionSuspectedFor_def same_gates_def same_config_def Let_def)
  then have "CollisionSuspectedFor (wd_stat a v) v = CollisionSuspectedFor (wd_stat a w) w"
    using arg_cong [where f = "\<lambda>st. CollisionSuspectedFor st w", OF st]
    by (simp add: CollisionSuspectedFor_strip)
  then show "counts_as_evidence a now v = counts_as_evidence a now w"
    using assms mac by (simp add: counts_as_evidence_def LocalMacStatus_def same_gates_def same_config_def)
  show "wd_expired now v = wd_expired now w"
    using assms by (auto simp: wd_expired_def same_gates_def)
qed

lemma fold_Evaluate:
  fixes now :: time and a x :: ipv4
  defines "g \<equiv> \<lambda>E vec. fold (\<lambda>p w. if E p then EvaluateMissingForward a now w else w) vec"
  shows "same_gates w v \<Longrightarrow> same_gates w (g E vec v) \<and>
    wd_pendingByNeighbor (g E vec v) = wd_pendingByNeighbor v \<and>
    ns_notForwardedEvidence (wd_stat x (g E vec v)) =
      ns_notForwardedEvidence (wd_stat x v) +
      (if x = a \<and> counts_as_evidence a now w then of_nat (length (filter E vec)) else 0)"
proof (induction vec arbitrary: v)
  case (Cons p vec)
  let ?v = "if E p then EvaluateMissingForward a now v else v"
  have step: "g E (p # vec) v = g E vec ?v" by (simp add: g_def)
  have "same_gates w ?v" using Cons.prems same_gates_Evaluate by simp
  from Cons.IH [OF this] show ?case
    unfolding step using same_gates_counts(1) [OF Cons.prems]
    by (auto simp: EvaluateMissingForward_stat EvaluateMissingForward_other)
qed (simp add: g_def)

lemma same_gates_pending: "same_gates w v \<Longrightarrow> same_gates w (v\<lparr>wd_pendingByNeighbor := p\<rparr>)"
  by (simp add: same_gates_def same_config_def)

definition still_pending :: "time \<Rightarrow> watchdog \<Rightarrow> pending_packet list \<Rightarrow> pending_packet list option" where
  "still_pending now w vec =
    (let vec' = filter (\<lambda>p. \<not> wd_expired now w p) vec in if vec' = [] then None else Some vec')"

lemma age_neighbor_effect:
  assumes "same_gates w v"
  shows "same_gates w (age_neighbor now (a, vec) v)"
    and "ns_notForwardedEvidence (wd_stat x (age_neighbor now (a, vec) v)) =
      ns_notForwardedEvidence (wd_stat x v) +
      (if x = a \<and> counts_as_evidence a now w then of_nat (length (filter (wd_expired now w) vec)) else 0)"
    and "map_of (wd_pendingByNeighbor (age_neighbor now (a, vec) v)) x =
      (if x = a then still_pending now w vec else map_of (wd_pendingByNeighbor v) x)"
proof -
  have E: "(now - pp_sentTime p > wd_forwardTimeout v) = wd_expired now w p" for p
    using same_gates_counts(2) [OF assms] by (auto simp: wd_expired_def fun_eq_iff)
  note f = fold_Evaluate [OF assms, where a = a and now = now and x = x and E = "wd_expired now w" and vec = vec]
  show "same_gates w (age_neighbor now (a, vec) v)"
    unfolding age_neighbor_def Let_def prod.case E using f by (auto intro: same_gates_pending)
  show "ns_notForwardedEvidence (wd_stat x (age_neighbor now (a, vec) v)) =
      ns_notForwardedEvidence (wd_stat x v) +
      (if x = a \<and> counts_as_evidence a now w then of_nat (length (filter (wd_expired now w) vec)) else 0)"
    unfolding age_neighbor_def Let_def prod.case E using f by simp
  show "map_of (wd_pendingByNeighbor (age_neighbor now (a, vec) v)) x =
      (if x = a then still_pending now w vec else map_of (wd_pendingByNeighbor v) x)"
    unfolding age_neighbor_def Let_def prod.case E still_pending_def erase_all_filter using f by simp
qed

lemma AgePending_effect:
  assumes "wf_map (wd_pendingByNeighbor w)"
  shows "ns_notForwardedEvidence (wd_stat x (AgePending now w)) = ns_notForwardedEvidence (wd_stat x w) +
      (if counts_as_evidence x now w
       then of_nat (length (filter (wd_expired now w) (map_ref [] (wd_pendingByNeighbor w) x))) else 0)"
    and "map_of (wd_pendingByNeighbor (AgePending now w)) x =
      Option.bind (map_of (wd_pendingByNeighbor w) x) (still_pending now w)"
proof -
  let ?add = "\<lambda>xs. if counts_as_evidence x now w
       then of_nat (length (filter (wd_expired now w) (map_ref [] xs x))) else (0 :: u32)"
  have gen: "same_gates w v \<Longrightarrow> distinct (map fst xs) \<Longrightarrow>
      ns_notForwardedEvidence (wd_stat x (fold (age_neighbor now) xs v)) =
        ns_notForwardedEvidence (wd_stat x v) + ?add xs \<and>
      map_of (wd_pendingByNeighbor (fold (age_neighbor now) xs v)) x =
        (case map_of xs x of Some vec \<Rightarrow> still_pending now w vec | None \<Rightarrow> map_of (wd_pendingByNeighbor v) x)"
    for xs v
  proof (induction xs arbitrary: v)
    case Nil
    then show ?case by (simp add: map_ref_def)
  next
    case (Cons p xs)
    obtain a vec where p: "p = (a, vec)" by (cases p)
    note step = age_neighbor_effect [OF Cons.prems(1), where now = now and a = a and vec = vec]
    have absent: "map_of xs a = None" using Cons.prems(2) p by (simp add: map_of_eq_None_iff)
    have "distinct (map fst xs)" using Cons.prems(2) by simp
    from Cons.IH [OF step(1) this] show ?case
      using step(2,3) [where x = x] absent by (auto simp: p map_ref_def split: option.splits)
  qed
  from gen [OF same_gates_refl wf_map_distinct [OF assms]]
  show "ns_notForwardedEvidence (wd_stat x (AgePending now w)) = ns_notForwardedEvidence (wd_stat x w) +
      (if counts_as_evidence x now w
       then of_nat (length (filter (wd_expired now w) (map_ref [] (wd_pendingByNeighbor w) x))) else 0)"
    and "map_of (wd_pendingByNeighbor (AgePending now w)) x =
      Option.bind (map_of (wd_pendingByNeighbor w) x) (still_pending now w)"
    by (auto simp: AgePending_def split: option.splits)
qed

section \<open>Histories\<close>

text \<open>The calls that the protocol, the simulator and the hooks make on the object.\<close>

datatype wd_op =
    Wd_Setup ipv4 "mac option"
  | Wd_Dispose
  | Wd_SetEnabled bool
  | Wd_DataForwarded "64 word" ipv4 ipv4
  | Wd_MacTxFailure ipv4 u32
  | Wd_Sniffed wifi_frame
  | Wd_PhyRxDrop
  | Wd_SelfReport u32
  | Wd_PeriodicCheck

fun wd_exec :: "wd_op \<Rightarrow> olsr_state \<Rightarrow> time \<Rightarrow> watchdog \<Rightarrow> watchdog" where
  "wd_exec (Wd_Setup a m) s now w = Watchdog_Setup a m now w"
| "wd_exec Wd_Dispose s now w = Watchdog_DoDispose w"
| "wd_exec (Wd_SetEnabled b) s now w = Watchdog_SetEnabled b now w"
| "wd_exec (Wd_DataForwarded uid nh d) s now w = Watchdog_OnDataPacketForwarded uid nh d now w"
| "wd_exec (Wd_MacTxFailure n c) s now w = Watchdog_OnMacTxFailure n c w"
| "wd_exec (Wd_Sniffed f) s now w = SnifferRxCallback f s now w"
| "wd_exec Wd_PhyRxDrop s now w = PhyRxDropCallback w"
| "wd_exec (Wd_SelfReport c) s now w = Watchdog_OnSelfReliabilityReport c w"
| "wd_exec Wd_PeriodicCheck s now w = Watchdog_PeriodicCheck now w"

text \<open>
  The states of a watchdog object at a time: it starts with any configuration and no observations,
  and is called at non-decreasing times after the start of the simulation, with any information base.
\<close>

inductive wd_run :: "time \<Rightarrow> watchdog \<Rightarrow> bool" where
  wd_fresh: "\<lbrakk>wd_blacklist w = []; wd_neighborStats w = []; wd_pendingByNeighbor w = []\<rbrakk> \<Longrightarrow> wd_run t w"
| wd_call: "\<lbrakk>wd_run t w; t \<le> now; 0 < now\<rbrakk> \<Longrightarrow> wd_run now (wd_exec op s now w)"

text \<open>Every listed address has statistics, which say when it was listed.\<close>

definition wd_inv :: "time \<Rightarrow> watchdog \<Rightarrow> bool" where
  "wd_inv t w \<longleftrightarrow> wf_set (wd_blacklist w) \<and> wf_map (wd_neighborStats w) \<and>
     wf_map (wd_pendingByNeighbor w) \<and>
     (\<forall>a\<in>set (wd_blacklist w). a \<in> fst ` set (wd_neighborStats w) \<and>
        0 < ns_blacklistedAt (wd_stat a w) \<and> ns_blacklistedAt (wd_stat a w) \<le> t)"

lemma wd_inv_later: "wd_inv t w \<Longrightarrow> t \<le> t' \<Longrightarrow> wd_inv t' w"
  unfolding wd_inv_def by fastforce


lemma wd_inv_upd_stat:
  assumes "wd_inv t w" "a \<in> set (wd_blacklist w) \<Longrightarrow> ns_blacklistedAt (f (wd_stat a w)) = ns_blacklistedAt (wd_stat a w)"
  shows "wd_inv t (upd_stat a f w)"
  using assms by (auto simp: wd_inv_def wd_keys_upd_stat)

lemma wd_inv_fields [simp]:
  "wd_inv t (w\<lparr>wd_macToIp := x1\<rparr>) = wd_inv t w"
  "wd_inv t (w\<lparr>wd_selfDropsWindow := x2\<rparr>) = wd_inv t w"
  "wd_inv t (w\<lparr>wd_selfDropsPrevWindow := x2\<rparr>) = wd_inv t w"
  "wd_inv t (w\<lparr>wd_events := x3\<rparr>) = wd_inv t w"
  "wd_inv t (w\<lparr>wd_periodicEvent := x4\<rparr>) = wd_inv t w"
  "wd_inv t (w\<lparr>wd_mainAddress := x5\<rparr>) = wd_inv t w"
  "wd_inv t (w\<lparr>wd_myMacAddress := x6\<rparr>) = wd_inv t w"
  "wd_inv t (w\<lparr>wd_attached := x7\<rparr>) = wd_inv t w"
  "wd_inv t (w\<lparr>wd_setupDone := x7\<rparr>) = wd_inv t w"
  "wd_inv t (w\<lparr>wd_warmupUntil := x8\<rparr>) = wd_inv t w"
  "wd_inv t (w\<lparr>wd_enabled := x7\<rparr>) = wd_inv t w"
  by (simp_all add: wd_inv_def wd_stat_def)

lemma wd_inv_pending:
  "wd_inv t w \<Longrightarrow> wf_map p \<Longrightarrow> wd_inv t (w\<lparr>wd_pendingByNeighbor := p\<rparr>)"
  by (simp add: wd_inv_def)

lemma wd_inv_wf: "wd_inv t w \<Longrightarrow> wf_map (wd_pendingByNeighbor w)"
  by (simp add: wd_inv_def)

lemma wd_inv_fold: "(\<And>x w. wd_inv t w \<Longrightarrow> wd_inv t (f x w)) \<Longrightarrow> wd_inv t w \<Longrightarrow> wd_inv t (fold f xs w)"
  by (rule fold_invariant_rule)

lemma wd_inv_Evaluate: "wd_inv t w \<Longrightarrow> wd_inv t (EvaluateMissingForward a now w)"
  by (auto simp: EvaluateMissingForward_def Let_def intro!: wd_inv_upd_stat)

lemma wd_inv_AgePending: "wd_inv t w \<Longrightarrow> wd_inv t (AgePending now w)"
  unfolding AgePending_def
  by (rule wd_inv_fold)
    (auto simp: age_neighbor_def Let_def split_beta intro!: wd_inv_pending wd_inv_fold wd_inv_Evaluate
      wf_map_erase wf_map_put wd_inv_wf)

lemma wd_inv_MaybeBlacklist:
  assumes "wd_inv now w" "0 < now"
  shows "wd_inv now (MaybeBlacklist a now w)"
  using MaybeBlacklist_verdict [of a now w]
proof (elim disjE exE conjE)
  assume "a \<notin> set (wd_blacklist w)" and key: "a \<in> fst ` set (wd_neighborStats w)"
    and "MaybeBlacklist a now w = upd_stat a (\<lambda>st. st\<lparr>ns_blacklistedAt := now\<rparr>)
           (w\<lparr>wd_blacklist := set_insert a (wd_blacklist w)\<rparr>)"
  then show ?thesis using assms by (auto simp: wd_inv_def wd_keys_upd_stat)
qed (use assms in \<open>auto intro: wd_inv_upd_stat\<close>)

lemma wd_inv_release_one: "wd_inv t w \<Longrightarrow> wd_inv t (release_one now a w)"
proof -
  assume w: "wd_inv t w"
  then have "wd_inv t (w\<lparr>wd_blacklist := set_erase a (wd_blacklist w)\<rparr>)" by (auto simp: wd_inv_def)
  then have "wd_inv t (upd_stat a f (w\<lparr>wd_blacklist := set_erase a (wd_blacklist w)\<rparr>))"
    for f by (rule wd_inv_upd_stat) simp
  then show ?thesis using w by (simp add: release_one_def split: option.split)
qed

lemma wd_inv_Release: "wd_inv t w \<Longrightarrow> wd_inv t (ReleaseExpiredBlacklist now w)"
  by (simp add: ReleaseExpiredBlacklist_def wd_inv_fold wd_inv_release_one)

definition rotated :: "neighbor_stats \<Rightarrow> neighbor_stats" where
  "rotated st = st\<lparr>ns_rtsPrevWindow := ns_rtsInWindow st, ns_ctsPrevWindow := ns_ctsInWindow st,
     ns_rtsInWindow := 0, ns_ctsInWindow := 0\<rparr>"

lemma wd_stat_Rotate: "wd_stat a (RotateMacWindows w) = rotated (wd_stat a w)"
  by (simp add: wd_stat_def RotateMacWindows_def map_ref_def map_of_map rotated_def neighbor_stats_init_def
      split: option.split)

lemma Rotate_keys: "map fst (wd_neighborStats (RotateMacWindows w)) = map fst (wd_neighborStats w)"
  by (simp add: RotateMacWindows_def comp_def split_beta)

lemma wd_inv_Rotate:
  assumes "wd_inv t w"
  shows "wd_inv t (RotateMacWindows w)"
proof -
  have "wd_blacklist (RotateMacWindows w) = wd_blacklist w"
    "wd_pendingByNeighbor (RotateMacWindows w) = wd_pendingByNeighbor w"
    by (simp_all add: RotateMacWindows_def)
  moreover have "fst ` set (wd_neighborStats (RotateMacWindows w)) = fst ` set (wd_neighborStats w)"
    using Rotate_keys [of w] by (metis list.set_map)
  ultimately show ?thesis
    using assms Rotate_keys [of w] by (simp add: wd_inv_def wf_map_def wd_stat_Rotate rotated_def)
qed

lemma wd_inv_PeriodicCheck: "wd_inv now w \<Longrightarrow> 0 < now \<Longrightarrow> wd_inv now (Watchdog_PeriodicCheck now w)"
  unfolding Watchdog_PeriodicCheck_def wd_schedule_def Let_def
  by (simp add: wd_inv_Rotate wd_inv_Release wd_inv_AgePending wd_inv_fold wd_inv_MaybeBlacklist split_beta)

lemma wd_inv_empty:
  "wd_blacklist w = [] \<Longrightarrow> wd_neighborStats w = [] \<Longrightarrow> wd_pendingByNeighbor w = [] \<Longrightarrow> wd_inv t w"
  by (simp add: wd_inv_def)

lemma wd_inv_OnDataPacketForwarded:
  "wd_inv t w \<Longrightarrow> wd_inv t (Watchdog_OnDataPacketForwarded uid nh d now w)"
  unfolding Watchdog_OnDataPacketForwarded_def Let_def
  by (auto intro!: wd_inv_upd_stat wd_inv_pending wf_map_put wd_inv_wf)

lemma wd_inv_OnMacTxFailure: "wd_inv t w \<Longrightarrow> wd_inv t (Watchdog_OnMacTxFailure n c w)"
  unfolding Watchdog_OnMacTxFailure_def Let_def
  by (auto intro!: wd_inv_upd_stat wd_inv_pending wf_map_put wd_inv_wf split: option.split list.split)

lemma wd_inv_OnNeighborForwardedPacket:
  "wd_inv t w \<Longrightarrow> wd_inv t (Watchdog_OnNeighborForwardedPacket tx rx uid s now w)"
  unfolding Watchdog_OnNeighborForwardedPacket_def Let_def
  by (auto simp del: find_first_None_iff intro!: wd_inv_upd_stat wd_inv_pending wf_map_put wd_inv_wf
      split: option.split)

lemma wd_inv_Rts_Cts:
  "wd_inv t w \<Longrightarrow> wd_inv t (Watchdog_OnRtsReceived m w)"
  "wd_inv t w \<Longrightarrow> wd_inv t (Watchdog_OnCtsReceived m w)"
  unfolding Watchdog_OnRtsReceived_def Watchdog_OnCtsReceived_def Let_def
  by (auto intro!: wd_inv_upd_stat)

lemma wd_inv_Sniffer: "wd_inv t w \<Longrightarrow> wd_inv t (SnifferRxCallback f s now w)"
  by (cases f) (auto intro!: wd_inv_OnNeighborForwardedPacket wd_inv_Rts_Cts split: option.split)

lemma wd_inv_lifecycle:
  "wd_inv t w \<Longrightarrow> wd_inv t (Watchdog_Setup a m now w)"
  "wd_inv t (Watchdog_DoDispose w)"
  "wd_inv t w \<Longrightarrow> wd_inv t (Watchdog_SetEnabled b now w)"
  by (auto simp: Watchdog_Setup_def wd_schedule_def Let_def Watchdog_DoDispose_def Watchdog_SetEnabled_def
      ResetAccumulatedState_def intro: wd_inv_empty split: option.split)

lemma wd_inv_exec: "wd_inv now w \<Longrightarrow> 0 < now \<Longrightarrow> wd_inv now (wd_exec op s now w)"
  by (cases op)
    (auto simp: PhyRxDropCallback_def Watchdog_OnSelfReliabilityReport_def
      intro: wd_inv_lifecycle wd_inv_OnDataPacketForwarded wd_inv_OnMacTxFailure wd_inv_Sniffer
        wd_inv_PeriodicCheck)

lemma wd_run_inv: "wd_run t w \<Longrightarrow> wd_inv t w"
  by (induction rule: wd_run.induct) (auto intro: wd_inv_empty wd_inv_exec wd_inv_later)

section \<open>Properties\<close>

lemma judge_all_config: "same_config w (judge_all now xs w)"
  by (rule MaybeBlacklist_fold_config)

lemma ReleaseExpiredBlacklist_config: "same_config w (ReleaseExpiredBlacklist now w)"
  by (simp add: ReleaseExpiredBlacklist_def release_fold_config)

lemma AgePending_config: "same_config w (AgePending now w)"
  using aging_rel_AgePending by (simp add: aging_rel_def)

text \<open>The three passes of a check, up to the moment the windows are rotated.\<close>

definition judged :: "time \<Rightarrow> watchdog \<Rightarrow> watchdog" where
  "judged now w = judge_all now (wd_neighborStats (AgePending now w)) (AgePending now w)"

lemma PeriodicCheck_passes:
  assumes "wd_enabled w"
  shows "Watchdog_PeriodicCheck now w = wd_schedule now (RotateMacWindows (ReleaseExpiredBlacklist now (judged now w)))"
  using assms by (simp add: Watchdog_PeriodicCheck_def Let_def judged_def)

lemma PeriodicCheck_observed:
  assumes "wd_enabled w"
  shows "wd_blacklist (Watchdog_PeriodicCheck now w) = wd_blacklist (ReleaseExpiredBlacklist now (judged now w))"
    and "wd_stat x (Watchdog_PeriodicCheck now w) = rotated (wd_stat x (ReleaseExpiredBlacklist now (judged now w)))"
proof -
  have "wd_stat x (wd_schedule now v) = wd_stat x v" "wd_blacklist (wd_schedule now v) = wd_blacklist v" for v
    by (simp_all add: wd_schedule_def wd_stat_def)
  then show "wd_blacklist (Watchdog_PeriodicCheck now w) = wd_blacklist (ReleaseExpiredBlacklist now (judged now w))"
    and "wd_stat x (Watchdog_PeriodicCheck now w) = rotated (wd_stat x (ReleaseExpiredBlacklist now (judged now w)))"
    unfolding PeriodicCheck_passes [OF assms] by (simp_all add: wd_stat_Rotate) (simp add: RotateMacWindows_def)
qed

lemma judged_config: "same_config w (judged now w)"
  unfolding judged_def using AgePending_config judge_all_config same_config_trans by blast

lemma judged_inv: "wd_inv now w \<Longrightarrow> 0 < now \<Longrightarrow> wd_inv now (judged now w)"
  unfolding judged_def
  by (rule wd_inv_fold) (auto intro: wd_inv_MaybeBlacklist wd_inv_AgePending)

lemma judged_convicts:
  assumes "wd_inv now w" "x \<notin> set (wd_blacklist w)" "x \<in> set (wd_blacklist (judged now w))"
  shows "convictable (wd_stat x (AgePending now w)) now w"
    and "wd_stat x (judged now w) = (wd_stat x (AgePending now w))\<lparr>ns_blacklistedAt := now\<rparr>"
proof -
  let ?w = "AgePending now w"
  have "wf_map (wd_neighborStats ?w)" using wd_inv_AgePending [OF assms(1)] by (simp add: wd_inv_def)
  note d = wf_map_distinct [OF this]
  have n: "x \<notin> set (wd_blacklist ?w)" using assms(2) aging_rel_AgePending by (simp add: aging_rel_def)
  from MaybeBlacklist_fold_convicts [OF d n assms(3) [unfolded judged_def]]
  show "convictable (wd_stat x ?w) now w"
    and "wd_stat x (judged now w) = (wd_stat x ?w)\<lparr>ns_blacklistedAt := now\<rparr>"
    unfolding judged_def convictable_config [OF AgePending_config] by blast+
qed

lemma MaybeBlacklist_listed: "a \<in> set (wd_blacklist w) \<Longrightarrow> MaybeBlacklist a now w = w"
  by (simp add: MaybeBlacklist_def)

lemma judged_listed:
  assumes "x \<in> set (wd_blacklist w)"
  shows "x \<in> set (wd_blacklist (judged now w)) \<and> wd_stat x (judged now w) = wd_stat x (AgePending now w)"
proof -
  have "x \<in> set (wd_blacklist v) \<Longrightarrow>
     x \<in> set (wd_blacklist (judge_all now xs v)) \<and> wd_stat x (judge_all now xs v) = wd_stat x v" for xs v
  proof (induction xs arbitrary: v)
    case (Cons p xs)
    have "x \<in> set (wd_blacklist (MaybeBlacklist (fst p) now v)) \<and> wd_stat x (MaybeBlacklist (fst p) now v) = wd_stat x v"
      using Cons.prems MaybeBlacklist_listed [of x v now] MaybeBlacklist_other [of x "fst p" now v]
      by (cases "x = fst p") simp_all
    then show ?case using Cons.IH [of "MaybeBlacklist (fst p) now v"] by (simp add: split_beta)
  qed simp
  moreover have "x \<in> set (wd_blacklist (AgePending now w))"
    using assms aging_rel_AgePending by (simp add: aging_rel_def)
  ultimately show ?thesis unfolding judged_def by blast
qed


text \<open>
  Switching the defense on or off wipes everything it learned and re-arms the warm-up: every size
  that \<open>DebugStateSizes\<close> reports is zero and no address is reported. Setting the value it has is a
  no-op.
\<close>

theorem watchdog_switch_resets:
  "Watchdog_SetEnabled (wd_enabled w) now w = w \<and>
   (let w' = Watchdog_SetEnabled (\<not> wd_enabled w) now w
    in Watchdog_DebugStateSizes w' =
         \<lparr>dbg_blacklist = 0, dbg_pendingNeighbors = 0, dbg_pendingTotal = 0, dbg_neighborStats = 0,
          dbg_macToIp = 0, dbg_selfDropsWindow = 0, dbg_selfDropsPrev = 0\<rparr> \<and>
       \<not> Watchdog_IsMalicious a w' \<and> Watchdog_GetBlacklist w' = [] \<and>
       wd_warmupUntil w' = now + wd_warmupDuration w \<and> wd_enabled w' = (\<not> wd_enabled w) \<and>
       wd_events w' = wd_events w)"
  by (simp add: Watchdog_SetEnabled_def ResetAccumulatedState_def Watchdog_DebugStateSizes_def Let_def
      Watchdog_IsMalicious_def Watchdog_GetBlacklist_def)

text \<open>
  While it is switched off, no hook, report or sniffed frame changes anything, nobody is reported
  malicious, and the periodic check does nothing but schedule its next run.
\<close>

theorem watchdog_off_inert:
  assumes "\<not> wd_enabled w"
    and "op \<in> {Wd_DataForwarded uid nh d, Wd_MacTxFailure n c, Wd_Sniffed f, Wd_PhyRxDrop, Wd_SelfReport c}"
  shows "wd_exec op s now w = w \<and> wd_exec Wd_PeriodicCheck s now w = wd_schedule now w \<and>
    \<not> Watchdog_IsMalicious a w \<and> Watchdog_GetBlacklist w = []"
proof -
  have "wd_exec op s now w = w"
    using assms by (cases f)
      (auto simp: Watchdog_OnDataPacketForwarded_def Watchdog_OnMacTxFailure_def PhyRxDropCallback_def
        Watchdog_OnSelfReliabilityReport_def)
  then show ?thesis
    using assms(1) by (simp add: Watchdog_PeriodicCheck_def Watchdog_IsMalicious_def Watchdog_GetBlacklist_def)
qed

theorem watchdog_off_inert_witness:
  "wd_exec Wd_PhyRxDrop OlsrState_init 5 (Watchdog_init\<lparr>wd_enabled := False\<rparr>) = Watchdog_init\<lparr>wd_enabled := False\<rparr>"
  using watchdog_off_inert [of "Watchdog_init\<lparr>wd_enabled := False\<rparr>" Wd_PhyRxDrop 0 0 0 0 0 Other_frame OlsrState_init 5]
  by (simp add: Watchdog_init_def)




text \<open>
  C16: a neighbor is convicted only after probation. If a check lists an address that was not listed,
  the address was already on probation when the check began and its probation was over; it has at
  least the threshold of evidence, at least half of the threshold of it gained during the probation,
  the minimum of overheard data frames, and a MAC failure ratio below the limit; the time of the
  listing is recorded.
\<close>

theorem watchdog_conviction_needs_probation:
  assumes "wd_run t w" "t \<le> now" "0 < now" "wd_enabled w"
    and "x \<notin> set (wd_blacklist w)" "x \<in> set (wd_blacklist (Watchdog_PeriodicCheck now w))"
  shows "let st = wd_stat x w; st' = wd_stat x (Watchdog_PeriodicCheck now w)
    in ns_onProbation st \<and> ns_probationUntil st \<le> now \<and>
       ns_notForwardedEvidence st' \<ge> wd_blacklistThreshold w \<and>
       ns_notForwardedEvidence st' - ns_evidenceAtProbationStart st \<ge> wd_blacklistThreshold w div 2 \<and>
       ns_dataFromThisNode st \<ge> wd_minDataObservations w \<and>
       (ns_packetsSentTo st = 0 \<or>
        of_nat (unat (ns_macTxFailures st)) / of_nat (unat (ns_packetsSentTo st)) < wd_macFailureRateThresh w) \<and>
       ns_blacklistedAt st' = now"
proof -
  have inv: "wd_inv now w" using wd_run_inv [OF assms(1)] wd_inv_later assms(2) by blast
  note obs = PeriodicCheck_observed [OF assms(4), where now = now]
  have jinv: "wd_inv now (judged now w)" using judged_inv [OF inv assms(3)] .
  have dur: "wd_blacklistDuration (judged now w) = wd_blacklistDuration w"
    using judged_config by (simp add: same_config_def)
  have in_j: "x \<in> set (wd_blacklist (judged now w)) \<and>
     wd_stat x (ReleaseExpiredBlacklist now (judged now w)) = wd_stat x (judged now w)"
  proof (cases "wd_blacklistDuration w = 0")
    case True
    then show ?thesis using assms(6) obs by (simp add: ReleaseExpiredBlacklist_def dur)
  next
    case False
    have x: "x \<in> set (wd_blacklist (ReleaseExpiredBlacklist now (judged now w)))" using assms(6) obs by simp
    then have "x \<in> set (wd_blacklist (judged now w))"
      using release_fold_other [of x "wd_blacklist (judged now w)" now "judged now w"]
      unfolding ReleaseExpiredBlacklist_def by (auto split: if_splits)
    with x show ?thesis
      using ReleaseExpiredBlacklist_result [of "judged now w" x now] jinv False dur
      by (simp add: wd_inv_def)
  qed
  note c = judged_convicts [OF inv assms(5) conjunct1 [OF in_j]]
  have "same_verdict (wd_stat x w) (wd_stat x (AgePending now w))"
    using aging_rel_AgePending by (simp add: aging_rel_def)
  with c in_j show ?thesis
    unfolding Let_def obs(2) convictable_def persistedMisbehavior_def same_verdict_def rotated_def
    by (auto simp: word_gt_0 not_le)
qed

text \<open>
  An entry of the blacklist does not outlive its duration. After a check every listed address was
  listed less than \<open>BlacklistDuration\<close> ago, and an address whose time is over is taken off the list
  with its evidence and probation cleared, while its data counters survive.
\<close>

theorem watchdog_blacklist_expires:
  assumes "wd_run t w" "t \<le> now" "0 < now" "wd_enabled w" "0 < wd_blacklistDuration w"
  shows "(\<forall>x\<in>set (wd_blacklist (Watchdog_PeriodicCheck now w)).
      now - ns_blacklistedAt (wd_stat x (Watchdog_PeriodicCheck now w)) < wd_blacklistDuration w) \<and>
    (\<forall>x\<in>set (wd_blacklist w).
      now - ns_blacklistedAt (wd_stat x w) \<ge> wd_blacklistDuration w \<longrightarrow>
      (let st' = wd_stat x (Watchdog_PeriodicCheck now w)
       in x \<notin> set (wd_blacklist (Watchdog_PeriodicCheck now w)) \<and> ns_notForwardedEvidence st' = 0 \<and>
          \<not> ns_onProbation st' \<and> ns_dataFromThisNode st' = ns_dataFromThisNode (wd_stat x w)))"
proof -
  let ?j = "judged now w"
  have inv: "wd_inv now w" using wd_run_inv [OF assms(1)] wd_inv_later assms(2) by blast
  have jinv: "wd_inv now ?j" using judged_inv [OF inv assms(3)] .
  have dur: "wd_blacklistDuration ?j = wd_blacklistDuration w" "wd_blacklistDuration ?j \<noteq> 0"
    using judged_config assms(5) by (simp_all add: same_config_def)
  note obs = PeriodicCheck_observed [OF assms(4), where now = now]
  have res: "(x \<in> set (wd_blacklist (ReleaseExpiredBlacklist now ?j)) \<longleftrightarrow> \<not> released now x ?j) \<and>
     wd_stat x (ReleaseExpiredBlacklist now ?j) = (if released now x ?j then cleared (wd_stat x ?j) else wd_stat x ?j)"
    if "x \<in> set (wd_blacklist ?j)" for x
    using ReleaseExpiredBlacklist_result [OF _ that dur(2)] jinv by (simp add: wd_inv_def)
  have "now - ns_blacklistedAt (wd_stat x (Watchdog_PeriodicCheck now w)) < wd_blacklistDuration w"
    if "x \<in> set (wd_blacklist (Watchdog_PeriodicCheck now w))" for x
  proof -
    have x: "x \<in> set (wd_blacklist ?j)"
      using that release_fold_other [of x "wd_blacklist ?j" now ?j] dur(2)
      unfolding obs ReleaseExpiredBlacklist_def by (auto split: if_splits)
    then have "\<not> released now x ?j" using that res [OF x] unfolding obs by blast
    then show ?thesis
      using res [OF x] x jinv unfolding obs(2) wd_inv_def
      by (auto simp: released_def rotated_def dur)
  qed
  moreover have "x \<notin> set (wd_blacklist (Watchdog_PeriodicCheck now w)) \<and>
      ns_notForwardedEvidence (wd_stat x (Watchdog_PeriodicCheck now w)) = 0 \<and>
      \<not> ns_onProbation (wd_stat x (Watchdog_PeriodicCheck now w)) \<and>
      ns_dataFromThisNode (wd_stat x (Watchdog_PeriodicCheck now w)) = ns_dataFromThisNode (wd_stat x w)"
    if "x \<in> set (wd_blacklist w)" "now - ns_blacklistedAt (wd_stat x w) \<ge> wd_blacklistDuration w" for x
  proof -
    note j = judged_listed [OF that(1), where now = now]
    have v: "same_verdict (wd_stat x w) (wd_stat x ?j)"
      using j aging_rel_AgePending by (simp add: aging_rel_def)
    have "x \<in> fst ` set (wd_neighborStats ?j)" "0 < ns_blacklistedAt (wd_stat x ?j)"
      using j jinv unfolding wd_inv_def by blast+
    then have "released now x ?j"
      using that(2) j v dur(1) by (simp add: released_def same_verdict_def)
    with res [OF conjunct1 [OF j]] v show ?thesis
      unfolding obs by (simp add: cleared_def rotated_def same_verdict_def)
  qed
  ultimately show ?thesis unfolding Let_def by blast
qed

text \<open>A neighbor that swallowed one packet, under a threshold of one, after its first check.\<close>

definition probation_example :: watchdog where
  "probation_example = Watchdog_PeriodicCheck (16 * second)
     (Watchdog_OnDataPacketForwarded 1 7 9 second
        (Watchdog_init\<lparr>wd_blacklistThreshold := 1, wd_minDataObservations := 0\<rparr>))"

lemma probation_example_run: "wd_run (16 * second) probation_example"
proof -
  let ?w = "Watchdog_init\<lparr>wd_blacklistThreshold := 1, wd_minDataObservations := 0\<rparr>"
  have "wd_run 0 ?w" by (rule wd_fresh) (simp_all add: Watchdog_init_def)
  from wd_call [OF this, of second "Wd_DataForwarded 1 7 9" OlsrState_init]
  have "wd_run second (Watchdog_OnDataPacketForwarded 1 7 9 second ?w)" by (simp add: second_def)
  from wd_call [OF this, of "16 * second" Wd_PeriodicCheck OlsrState_init]
  show ?thesis by (simp add: second_def probation_example_def)
qed

theorem watchdog_conviction_needs_probation_witness:
  "7 \<in> set (wd_blacklist (Watchdog_PeriodicCheck (19 * second) probation_example)) \<and>
   ns_onProbation (wd_stat 7 probation_example) \<and> ns_probationUntil (wd_stat 7 probation_example) \<le> 19 * second"
proof -
  have "7 \<in> set (wd_blacklist (Watchdog_PeriodicCheck (19 * second) probation_example))"
    "7 \<notin> set (wd_blacklist probation_example)" "wd_enabled probation_example" by code_simp+
  then show ?thesis
    using watchdog_conviction_needs_probation [OF probation_example_run, of "19 * second" 7]
    by (simp add: Let_def second_def)
qed

theorem watchdog_blacklist_expires_witness:
  "let w = Watchdog_PeriodicCheck (19 * second) probation_example
   in 7 \<in> set (wd_blacklist w) \<and> 7 \<notin> set (wd_blacklist (Watchdog_PeriodicCheck (49 * second) w))"
proof -
  let ?w = "Watchdog_PeriodicCheck (19 * second) probation_example"
  have run: "wd_run (19 * second) ?w"
    using wd_call [OF probation_example_run, of "19 * second" Wd_PeriodicCheck OlsrState_init]
    by (simp add: second_def)
  have x: "7 \<in> set (wd_blacklist ?w)" and e: "wd_enabled ?w" and d: "wd_blacklistDuration ?w = 30 * second"
    and at: "ns_blacklistedAt (wd_stat 7 ?w) = 19 * second" by code_simp+
  from watchdog_blacklist_expires [OF run, of "49 * second"] e d at x show ?thesis
    by (auto simp: Let_def second_def)
qed

text \<open>What is watched: the entries of the pending map.\<close>

definition pending_ok :: "time \<Rightarrow> (ipv4, pending_packet list) std_map \<Rightarrow> bool" where
  "pending_ok t m \<longleftrightarrow> (\<forall>a v. map_of m a = Some v \<longrightarrow>
     a \<noteq> ipv4_any \<and> a \<noteq> ipv4_broadcast \<and> \<not> ipv4_is_multicast a \<and>
     (\<forall>p\<in>set v. pp_finalDest p \<noteq> a \<and> pp_sentTime p \<le> t))"

lemma pending_okD: "pending_ok t m \<Longrightarrow> map_of m a = Some v \<Longrightarrow>
     a \<noteq> ipv4_any \<and> a \<noteq> ipv4_broadcast \<and> \<not> ipv4_is_multicast a \<and>
     (\<forall>p\<in>set v. pp_finalDest p \<noteq> a \<and> pp_sentTime p \<le> t)"
  by (simp add: pending_ok_def)

lemma pending_ok_put:
  assumes "pending_ok t m" "map_of m a = Some v" "set v' \<subseteq> set v"
  shows "pending_ok t (map_put a v' m)"
  using assms(1) pending_okD [OF assms(1,2)] assms(3) unfolding pending_ok_def by auto

lemma pending_ok_later: "pending_ok t m \<Longrightarrow> t \<le> t' \<Longrightarrow> pending_ok t' m"
  unfolding pending_ok_def by fastforce

lemma pending_ok_Forwarded:
  assumes "pending_ok now (wd_pendingByNeighbor w)"
  shows "pending_ok now (wd_pendingByNeighbor (Watchdog_OnDataPacketForwarded uid nh d now w))"
proof -
  have "pending_ok now (map_put nh (map_ref [] (wd_pendingByNeighbor w) nh @
      [\<lparr>pp_packetUid = uid, pp_finalDest = d, pp_sentTime = now\<rparr>]) (wd_pendingByNeighbor w))"
    if "nh \<noteq> d" "\<not> (nh = ipv4_broadcast \<or> nh = ipv4_any \<or> ipv4_is_multicast nh)"
  proof (cases "map_of (wd_pendingByNeighbor w) nh")
    case None
    then show ?thesis using assms that by (auto simp: pending_ok_def map_ref_def)
  next
    case (Some v)
    then show ?thesis using assms that pending_okD [OF assms Some] by (auto simp: pending_ok_def map_ref_def)
  qed
  then show ?thesis
    using assms by (simp add: Watchdog_OnDataPacketForwarded_def Let_def)
qed

lemma pending_ok_MacTxFailure:
  assumes "pending_ok t (wd_pendingByNeighbor w)"
  shows "pending_ok t (wd_pendingByNeighbor (Watchdog_OnMacTxFailure n c w))"
proof -
  have "pending_ok t (map_put n v (wd_pendingByNeighbor w))"
    if "map_of (wd_pendingByNeighbor w) n = Some (p # v)" for p v
    using pending_ok_put [OF assms that, of v] by auto
  then show ?thesis
    using assms by (simp add: Watchdog_OnMacTxFailure_def Let_def split: option.split list.split)
qed

lemma pending_ok_NeighborForwarded:
  assumes "pending_ok t (wd_pendingByNeighbor w)"
  shows "pending_ok t (wd_pendingByNeighbor (Watchdog_OnNeighborForwardedPacket tx rx uid s now w))"
proof -
  have "pending_ok t (map_put n (erase_first P v) (wd_pendingByNeighbor w))"
    if "map_of (wd_pendingByNeighbor w) n = Some v" for n P v
    using pending_ok_put [OF assms that set_erase_first_subset] .
  then show ?thesis
    using assms
    by (simp add: Watchdog_OnNeighborForwardedPacket_def Let_def del: find_first_None_iff split: option.split)
qed

lemma pending_ok_Sniffer:
  "pending_ok t (wd_pendingByNeighbor w) \<Longrightarrow> pending_ok t (wd_pendingByNeighbor (SnifferRxCallback f s now w))"
  by (cases f)
    (simp_all add: pending_ok_NeighborForwarded Watchdog_OnRtsReceived_def Watchdog_OnCtsReceived_def Let_def
      split: option.split)

lemma pending_ok_Age:
  assumes "pending_ok t (wd_pendingByNeighbor w)" "wf_map (wd_pendingByNeighbor w)"
  shows "pending_ok t (wd_pendingByNeighbor (AgePending now w))"
proof -
  have "a \<noteq> ipv4_any \<and> a \<noteq> ipv4_broadcast \<and> \<not> ipv4_is_multicast a \<and>
     (\<forall>p\<in>set v. pp_finalDest p \<noteq> a \<and> pp_sentTime p \<le> t)"
    if v: "map_of (wd_pendingByNeighbor (AgePending now w)) a = Some v" for a v
  proof -
    obtain v0 where "map_of (wd_pendingByNeighbor w) a = Some v0" "set v \<subseteq> set v0"
      using v unfolding AgePending_effect(2) [OF assms(2)]
      by (cases "map_of (wd_pendingByNeighbor w) a") (auto simp: still_pending_def Let_def split: if_splits)
    then show ?thesis using pending_okD [OF assms(1)] by blast
  qed
  then show ?thesis unfolding pending_ok_def by blast
qed

lemma judge_all_pending: "wd_pendingByNeighbor (judge_all now xs w) = wd_pendingByNeighbor w"
proof -
  have "wd_pendingByNeighbor (MaybeBlacklist a now v) = wd_pendingByNeighbor v" for a v
    using MaybeBlacklist_verdict [of a now v] by auto
  then show ?thesis by (induction xs arbitrary: w) (simp_all add: split_beta)
qed

lemma ReleaseExpiredBlacklist_pending:
  "wd_pendingByNeighbor (ReleaseExpiredBlacklist now w) = wd_pendingByNeighbor w"
proof -
  have "wd_pendingByNeighbor (release_one now a v) = wd_pendingByNeighbor v" for a v
    by (simp add: release_one_def split: option.split)
  then have "wd_pendingByNeighbor (fold (release_one now) xs v) = wd_pendingByNeighbor v" for xs v
    by (induction xs arbitrary: v) simp_all
  then show ?thesis by (simp add: ReleaseExpiredBlacklist_def)
qed

lemma pending_ok_PeriodicCheck:
  assumes "pending_ok t (wd_pendingByNeighbor w)" "wf_map (wd_pendingByNeighbor w)"
  shows "pending_ok t (wd_pendingByNeighbor (Watchdog_PeriodicCheck now w))"
  using pending_ok_Age [OF assms, of now] assms(1)
  by (simp add: Watchdog_PeriodicCheck_def Let_def wd_schedule_def RotateMacWindows_def
      ReleaseExpiredBlacklist_pending judge_all_pending)


lemma pending_ok_exec:
  assumes "pending_ok now (wd_pendingByNeighbor w)" "wd_inv now w"
  shows "pending_ok now (wd_pendingByNeighbor (wd_exec op s now w))"
proof -
  have empty: "pending_ok now []" by (simp add: pending_ok_def)
  show ?thesis
    using assms
    by (cases op)
      (simp_all add: pending_ok_PeriodicCheck wd_inv_wf pending_ok_Sniffer pending_ok_MacTxFailure
        pending_ok_Forwarded PhyRxDropCallback_def Watchdog_OnSelfReliabilityReport_def empty
        Watchdog_Setup_def wd_schedule_def Let_def Watchdog_DoDispose_def Watchdog_SetEnabled_def
        ResetAccumulatedState_def split: option.split)
qed

text \<open>
  At every moment of the life of the object, what it waits for is the forwarding of unicast
  packets by neighbors that are not their destination: no entry is kept for the unset, the broadcast
  or a multicast address, none holds a packet whose final destination is that neighbor, and none
  was handed over in the future.
\<close>

theorem watchdog_watches_relays_only:
  assumes "wd_run t w" "map_of (wd_pendingByNeighbor w) a = Some v"
  shows "a \<noteq> ipv4_any \<and> a \<noteq> ipv4_broadcast \<and> \<not> ipv4_is_multicast a \<and>
    (\<forall>p\<in>set v. pp_finalDest p \<noteq> a \<and> pp_sentTime p \<le> t)"
proof -
  have "wd_run t w \<Longrightarrow> pending_ok t (wd_pendingByNeighbor w)" for t w
  proof (induction rule: wd_run.induct)
    case (wd_fresh w t)
    then show ?case by (simp add: pending_ok_def)
  next
    case (wd_call t w now op s)
    then show ?case
      using pending_ok_exec pending_ok_later wd_inv_later wd_run_inv by blast
  qed
  from pending_okD [OF this [OF assms(1)] assms(2)] show ?thesis .
qed

theorem watchdog_watches_relays_only_witness:
  "let w = Watchdog_OnDataPacketForwarded 1 7 9 second Watchdog_init
   in map_of (wd_pendingByNeighbor w) 7 = Some [\<lparr>pp_packetUid = 1, pp_finalDest = 9, pp_sentTime = second\<rparr>] \<and>
      \<not> ipv4_is_multicast 7"
proof -
  have "wd_run 0 Watchdog_init" by (rule wd_fresh) (simp_all add: Watchdog_init_def)
  from wd_call [OF this, of second "Wd_DataForwarded 1 7 9" OlsrState_init]
  have "wd_run second (Watchdog_OnDataPacketForwarded 1 7 9 second Watchdog_init)" by (simp add: second_def)
  moreover have "map_of (wd_pendingByNeighbor (Watchdog_OnDataPacketForwarded 1 7 9 second Watchdog_init)) 7 =
      Some [\<lparr>pp_packetUid = 1, pp_finalDest = 9, pp_sentTime = second\<rparr>]" by code_simp
  ultimately show ?thesis using watchdog_watches_relays_only unfolding Let_def by blast
qed

text \<open>
  A neighbor is credited only for a packet it was handed and that it passed to a plausible hop.
  An overheard frame takes a packet off the watch of its transmitter exactly if the transmitter's
  address is known, that packet is pending for it, and the receiver is a plausible onward hop; then
  one forwarding is credited. Otherwise nothing pending changes and no forwarding is credited.
\<close>

theorem watchdog_credit_exact:
  assumes "wd_enabled w"
  shows "let w' = Watchdog_OnNeighborForwardedPacket tx rx uid s now w;
      n = LookupIpFromMac tx w; v = map_ref [] (wd_pendingByNeighbor w) n;
      credit = (n \<noteq> ipv4_any \<and> uid \<in> pp_packetUid ` set v \<and> IsPlausibleOnwardHop rx n s w)
    in ns_packetsForwarded (wd_stat x w') =
         ns_packetsForwarded (wd_stat x w) + (if credit \<and> x = n then 1 else 0) \<and>
       map_ref [] (wd_pendingByNeighbor w') x =
         (if credit \<and> x = n then erase_first (\<lambda>p. pp_packetUid p = uid) v
          else map_ref [] (wd_pendingByNeighbor w) x) \<and>
       ns_notForwardedEvidence (wd_stat x w') = ns_notForwardedEvidence (wd_stat x w)"
proof (cases "LookupIpFromMac tx w = ipv4_any")
  case True
  then show ?thesis using assms by (simp add: Watchdog_OnNeighborForwardedPacket_def Let_def)
next
  case known: False
  let ?n = "LookupIpFromMac tx w"
  have plausible: "IsPlausibleOnwardHop r f s (upd_stat a g w) = IsPlausibleOnwardHop r f s w" for r f a g
    by (simp add: IsPlausibleOnwardHop_def Let_def LookupIpFromMac_def IsKnownNode_def)
  show ?thesis
  proof (cases "map_of (wd_pendingByNeighbor w) ?n")
    case None
    then show ?thesis
      using assms known by (simp add: Watchdog_OnNeighborForwardedPacket_def Let_def map_ref_def)
  next
    case (Some v)
    show ?thesis
    proof (cases "uid \<in> pp_packetUid ` set v")
      case True
      then have "find_first (\<lambda>p. pp_packetUid p = uid) v \<noteq> None" by auto
      then show ?thesis
        using assms known Some True
        by (simp add: Watchdog_OnNeighborForwardedPacket_def Let_def map_ref_def plausible
            del: find_first_None_iff)
    next
      case False
      then have "find_first (\<lambda>p. pp_packetUid p = uid) v = None" by auto
      then show ?thesis
        using assms known Some False
        by (simp add: Watchdog_OnNeighborForwardedPacket_def Let_def map_ref_def
            del: find_first_None_iff)
    qed
  qed
qed

theorem watchdog_credit_exact_witness:
  "let w = Watchdog_init\<lparr>wd_macToIp := [(1, 7), (2, 5)], wd_myMacAddress := 3,
            wd_pendingByNeighbor := [(7, [\<lparr>pp_packetUid = 1, pp_finalDest = 9, pp_sentTime = 0\<rparr>])]\<rparr>
   in ns_packetsForwarded (wd_stat 7 (Watchdog_OnNeighborForwardedPacket 1 2 1 OlsrState_init 1 w)) = 0"
proof -
  let ?w = "Watchdog_init\<lparr>wd_macToIp := [(1, 7), (2, 5)], wd_myMacAddress := 3,
            wd_pendingByNeighbor := [(7, [\<lparr>pp_packetUid = 1, pp_finalDest = 9, pp_sentTime = 0\<rparr>])]\<rparr>"
  have "wd_enabled ?w" "\<not> IsPlausibleOnwardHop 2 (LookupIpFromMac 1 ?w) OlsrState_init ?w"
    "ns_packetsForwarded (wd_stat 7 ?w) = 0" by code_simp+
  then show ?thesis
    using watchdog_credit_exact [of ?w 1 2 1 OlsrState_init 1 7] by (simp only: Let_def simp_thms if_False add_0_right)
qed

text \<open>
  Every run of the periodic check schedules another one. Run as a due event it replaces itself,
  so their number stays the same; called directly, it adds one more chain of checks, whether the
  defense is on or off.
\<close>

theorem periodic_check_reschedules:
  "length (wd_events (Watchdog_PeriodicCheck now w)) = length (wd_events w) + 1 \<and>
   (now \<in> set (wd_events w) \<longrightarrow> length (wd_events (Watchdog_event now w)) = length (wd_events w))"
proof -
  have ev: "wd_events (Watchdog_PeriodicCheck now w) = wd_events w @ [now + wd_periodicInterval w]" for w
  proof (cases "wd_enabled w")
    case True
    have "same_config w (ReleaseExpiredBlacklist now (judged now w))"
      using judged_config ReleaseExpiredBlacklist_config same_config_trans by blast
    then show ?thesis
      unfolding PeriodicCheck_passes [OF True]
      by (simp add: wd_schedule_def RotateMacWindows_def same_config_def)
  qed (simp add: Watchdog_PeriodicCheck_def wd_schedule_def)
  then show ?thesis
    by (auto simp: Watchdog_event_def length_remove1 Suc_diff_1 dest: length_pos_if_in_set)
qed

theorem periodic_check_reschedules_witness:
  "length (wd_events (Watchdog_event 5 (Watchdog_init\<lparr>wd_events := [5]\<rparr>))) = 1"
  using periodic_check_reschedules [of 5 "Watchdog_init\<lparr>wd_events := [5]\<rparr>"] by simp

end
