(* ===== verification/Defense.thy ===== *)
theory Defense
  imports Gcop Watchdog
begin

text \<open>
  The strategy interface \<open>OlsrDefenseStrategy\<close> (olsr-defense-strategy.h) and its virtual dispatch: a
  strategy is an \<open>OlsrDefenseNull\<close>, an \<open>OlsrDefenseGcop\<close> or an \<open>OlsrWatchdogDefense\<close> object, and each
  method is the case distinction over the class of the object. Hooks that only log in every class are
  left out. The locale \<open>defense_strategy\<close> states what the routing protocol relies on: the blacklist
  and \<open>IsMalicious\<close> agree, and an object that is switched off or disposed reports nobody.
\<close>

section \<open>Dispatch\<close>

datatype defense =
    Null_defense
  | Gcop_defense gcop
  | Watchdog_defense watchdog

fun defense_Setup :: "ipv4 \<Rightarrow> mac option \<Rightarrow> time \<Rightarrow> defense \<Rightarrow> defense" where
  "defense_Setup nodeAddress myMac now Null_defense = Null_defense"
| "defense_Setup nodeAddress myMac now (Gcop_defense d) = Gcop_defense (Gcop_Setup nodeAddress now d)"
| "defense_Setup nodeAddress myMac now (Watchdog_defense w) =
     Watchdog_defense (Watchdog_Setup nodeAddress myMac now w)"

fun defense_DoDispose :: "defense \<Rightarrow> defense" where
  "defense_DoDispose Null_defense = Null_defense"
| "defense_DoDispose (Gcop_defense d) = Gcop_defense (Gcop_DoDispose d)"
| "defense_DoDispose (Watchdog_defense w) = Watchdog_defense (Watchdog_DoDispose w)"

fun defense_IsMalicious :: "ipv4 \<Rightarrow> defense \<Rightarrow> bool" where
  "defense_IsMalicious a Null_defense = False"
| "defense_IsMalicious a (Gcop_defense d) = Gcop_IsMalicious a d"
| "defense_IsMalicious a (Watchdog_defense w) = Watchdog_IsMalicious a w"

fun defense_GetBlacklist :: "defense \<Rightarrow> ipv4 std_set" where
  "defense_GetBlacklist Null_defense = []"
| "defense_GetBlacklist (Gcop_defense d) = Gcop_GetBlacklist d"
| "defense_GetBlacklist (Watchdog_defense w) = Watchdog_GetBlacklist w"

fun defense_OnRecvHello :: "ipv4 \<Rightarrow> olsr_state \<Rightarrow> defense \<Rightarrow> defense" where
  "defense_OnRecvHello sender s Null_defense = Null_defense"
| "defense_OnRecvHello sender s (Gcop_defense d) = Gcop_defense (Gcop_OnRecvHello sender s d)"
| "defense_OnRecvHello sender s (Watchdog_defense w) = Watchdog_defense w"

fun defense_OnDataPacketForwarded :: "64 word \<Rightarrow> ipv4 \<Rightarrow> ipv4 \<Rightarrow> time \<Rightarrow> defense \<Rightarrow> defense" where
  "defense_OnDataPacketForwarded uid nextHop finalDest now (Watchdog_defense w) =
     Watchdog_defense (Watchdog_OnDataPacketForwarded uid nextHop finalDest now w)"
| "defense_OnDataPacketForwarded uid nextHop finalDest now d = d"

fun defense_OnNeighborForwardedPacket ::
  "mac \<Rightarrow> mac \<Rightarrow> 64 word \<Rightarrow> olsr_state \<Rightarrow> time \<Rightarrow> defense \<Rightarrow> defense" where
  "defense_OnNeighborForwardedPacket transmitter receiver uid s now (Watchdog_defense w) =
     Watchdog_defense (Watchdog_OnNeighborForwardedPacket transmitter receiver uid s now w)"
| "defense_OnNeighborForwardedPacket transmitter receiver uid s now d = d"

fun defense_OnMacTxFailure :: "ipv4 \<Rightarrow> u32 \<Rightarrow> defense \<Rightarrow> defense" where
  "defense_OnMacTxFailure neighbor count (Watchdog_defense w) =
     Watchdog_defense (Watchdog_OnMacTxFailure neighbor count w)"
| "defense_OnMacTxFailure neighbor count d = d"

fun defense_OnSelfReliabilityReport :: "u32 \<Rightarrow> defense \<Rightarrow> defense" where
  "defense_OnSelfReliabilityReport localDropsCount (Watchdog_defense w) =
     Watchdog_defense (Watchdog_OnSelfReliabilityReport localDropsCount w)"
| "defense_OnSelfReliabilityReport localDropsCount d = d"

fun defense_OnRtsReceived :: "mac \<Rightarrow> defense \<Rightarrow> defense" where
  "defense_OnRtsReceived sender (Watchdog_defense w) = Watchdog_defense (Watchdog_OnRtsReceived sender w)"
| "defense_OnRtsReceived sender d = d"

fun defense_OnCtsReceived :: "mac \<Rightarrow> defense \<Rightarrow> defense" where
  "defense_OnCtsReceived receiver (Watchdog_defense w) = Watchdog_defense (Watchdog_OnCtsReceived receiver w)"
| "defense_OnCtsReceived receiver d = d"

fun defense_PeriodicCheck :: "time \<Rightarrow> defense \<Rightarrow> defense" where
  "defense_PeriodicCheck now Null_defense = Null_defense"
| "defense_PeriodicCheck now (Gcop_defense d) = Gcop_defense (Gcop_PeriodicCheck d)"
| "defense_PeriodicCheck now (Watchdog_defense w) = Watchdog_defense (Watchdog_PeriodicCheck now w)"

fun defense_RequiresFictitiousNode :: "olsr_state \<Rightarrow> defense \<Rightarrow> bool" where
  "defense_RequiresFictitiousNode s (Gcop_defense d) = Gcop_RequiresFictitiousNode s d"
| "defense_RequiresFictitiousNode s d = False"

text \<open>The \<open>Enabled\<close> attribute, which the null strategy does not have.\<close>

fun defense_SetEnabled :: "bool \<Rightarrow> time \<Rightarrow> defense \<Rightarrow> defense" where
  "defense_SetEnabled b now Null_defense = Null_defense"
| "defense_SetEnabled b now (Gcop_defense d) = Gcop_defense (Gcop_SetEnabled b d)"
| "defense_SetEnabled b now (Watchdog_defense w) = Watchdog_defense (Watchdog_SetEnabled b now w)"

fun defense_on :: "defense \<Rightarrow> bool" where
  "defense_on Null_defense = False"
| "defense_on (Gcop_defense d) = gc_enabled d"
| "defense_on (Watchdog_defense w) = wd_enabled w"

section \<open>What the routing protocol relies on\<close>

locale defense_strategy =
  fixes is_malicious :: "ipv4 \<Rightarrow> 'd \<Rightarrow> bool"
    and get_blacklist :: "'d \<Rightarrow> ipv4 std_set"
    and is_on :: "'d \<Rightarrow> bool"
    and dispose :: "'d \<Rightarrow> 'd"
    and requires_fictitious :: "olsr_state \<Rightarrow> 'd \<Rightarrow> bool"
  assumes malicious_iff: "is_malicious a d \<longleftrightarrow> a \<in> set (get_blacklist d)"
    and off_blacklist: "\<not> is_on d \<Longrightarrow> get_blacklist d = []"
    and off_fictitious: "\<not> is_on d \<Longrightarrow> \<not> requires_fictitious s d"
    and disposed_blacklist: "get_blacklist (dispose d) = []"
begin

lemma off_malicious: "\<not> is_on d \<Longrightarrow> \<not> is_malicious a d"
  by (simp add: malicious_iff off_blacklist)

lemma disposed_malicious: "\<not> is_malicious a (dispose d)"
  by (simp add: malicious_iff disposed_blacklist)

lemma empty_blacklist_iff: "get_blacklist d = [] \<longleftrightarrow> (\<forall>a. \<not> is_malicious a d)"
  by (cases "get_blacklist d") (auto simp: malicious_iff)

end

text \<open>The interpretations on the two classes with behaviour, and on the dispatch.\<close>

interpretation gcop_strategy: defense_strategy Gcop_IsMalicious Gcop_GetBlacklist gc_enabled
  Gcop_DoDispose Gcop_RequiresFictitiousNode
  by unfold_locales
    (auto simp: Gcop_IsMalicious_def Gcop_GetBlacklist_def Gcop_DoDispose_def Gcop_RequiresFictitiousNode_def)

interpretation watchdog_strategy: defense_strategy Watchdog_IsMalicious Watchdog_GetBlacklist wd_enabled
  Watchdog_DoDispose "\<lambda>s w. False"
  by unfold_locales
    (auto simp: Watchdog_IsMalicious_def Watchdog_GetBlacklist_def Watchdog_DoDispose_def split: option.split)

interpretation strategy: defense_strategy defense_IsMalicious defense_GetBlacklist defense_on
  defense_DoDispose defense_RequiresFictitiousNode
proof
  fix a s and d :: defense
  show "defense_IsMalicious a d \<longleftrightarrow> a \<in> set (defense_GetBlacklist d)"
    by (cases d) (simp_all add: gcop_strategy.malicious_iff watchdog_strategy.malicious_iff)
  show "\<not> defense_on d \<Longrightarrow> defense_GetBlacklist d = []"
    by (cases d) (simp_all add: gcop_strategy.off_blacklist watchdog_strategy.off_blacklist)
  show "\<not> defense_on d \<Longrightarrow> \<not> defense_RequiresFictitiousNode s d"
    by (cases d) (simp_all add: gcop_strategy.off_fictitious)
  show "defense_GetBlacklist (defense_DoDispose d) = []"
    by (cases d) (simp_all add: gcop_strategy.disposed_blacklist watchdog_strategy.disposed_blacklist)
qed

text \<open>A switched-off strategy stays as it is under every hook except the periodic check.\<close>

lemma defense_off_hooks:
  assumes "\<not> defense_on d"
  shows "defense_OnRecvHello sender s d = d"
    and "defense_OnDataPacketForwarded uid nh fd now d = d"
    and "defense_OnNeighborForwardedPacket tx rx uid s now d = d"
    and "defense_OnMacTxFailure n c d = d"
    and "defense_OnSelfReliabilityReport c d = d"
    and "defense_OnRtsReceived m d = d"
    and "defense_OnCtsReceived m d = d"
  using assms
  by (cases d; simp add: Gcop_OnRecvHello_def Watchdog_OnDataPacketForwarded_def
      Watchdog_OnNeighborForwardedPacket_def Watchdog_OnMacTxFailure_def
      Watchdog_OnSelfReliabilityReport_def Watchdog_OnRtsReceived_def Watchdog_OnCtsReceived_def)+

lemma defense_on_hooks [simp]:
  "defense_on (defense_OnRecvHello sender s d) = defense_on d"
  by (cases d) (simp_all add: Gcop_OnRecvHello_def EvaluateContradictionRules_def split: option.split)

end
