(* ===== verification/Protocol_State.thy ===== *)
theory Protocol_State
  imports Complex_Main Messages Mpr Routing_Table Defense
begin

text \<open>
  The state of one \<open>olsr::RoutingProtocol\<close> object (olsr-routing-protocol.h) and its elementary
  operations: the record \<open>node\<close>, the tuple \<open>Add...\<close>/\<open>Remove...\<close> methods, the sequence counters, the
  scheduled tuple timers, MPR selection and the routing table computation on the node's own
  information base. Handlers get the simulation time as \<open>now\<close> and return the node or an error.

  \<^item> \<open>nd_ifaces\<close> is \<open>m_ipv4\<close>: for every interface its (local address, mask) list; a device is
    identified with its interface index.
  \<^item> \<open>nd_events\<close> are the tuple timers that the simulator holds for the node, with their due times;
    the periodic timers are due times of their own, \<open>None\<close> when not running.
  \<^item> \<open>nd_jitter\<close> is the sequence of values that \<open>m_uniformRandomVariable\<close> will deliver (already in
    nanoseconds), \<open>nd_draws\<close> how many were drawn.
  \<^item> \<open>nd_sent\<close> records every \<open>SendTo\<close>: destination address and bytes.
\<close>

datatype event =
    Link_timer ipv4
  | Nb2hop_timer ipv4 ipv4
  | MprSel_timer ipv4
  | Topology_timer ipv4 ipv4
  | IfaceAssoc_timer ipv4
  | Association_timer ipv4 ipv4 ipv4
  | Dup_timer ipv4 u16

record node =
  nd_table :: table
  nd_tableAvoidingSuspects :: table
  nd_hnaRoutingTable :: "static_route list"
  nd_routingTableAssociation :: "static_route list option"
  nd_packetSequenceNumber :: u16
  nd_messageSequenceNumber :: u16
  nd_ansn :: u16
  nd_helloInterval :: time
  nd_tcInterval :: time
  nd_midInterval :: time
  nd_hnaInterval :: time
  nd_willingness :: willingness
  nd_state :: olsr_state
  nd_ifaces :: "(ipv4 \<times> ipv4) list list"
  nd_mainAddress :: ipv4
  nd_sendSockets :: "(ipv4 \<times> ipv4) list"
  nd_interfaceExclusions :: "nat list"
  nd_isMalicious :: bool
  nd_spoofedLinksCount :: u32
  nd_queuedMessages :: "MessageHeader list"
  nd_queuedMessagesTimer :: "time option"
  nd_helloTimer :: "time option"
  nd_tcTimer :: "time option"
  nd_midTimer :: "time option"
  nd_hnaTimer :: "time option"
  nd_defenseTimer :: "time option"
  nd_linkTupleTimerFirstTime :: bool
  nd_localRxDrops :: u32
  nd_defense :: "defense option"
  nd_events :: "(time \<times> event) list"
  nd_jitter :: "nat \<Rightarrow> time"
  nd_draws :: nat
  nd_sent :: "(ipv4 \<times> u8 list) list"

text \<open>An update of the information base through one of its methods.\<close>

definition on_state :: "(olsr_state \<Rightarrow> olsr_state) \<Rightarrow> node \<Rightarrow> node" where
  "on_state f nd = nd\<lparr>nd_state := f (nd_state nd)\<rparr>"

definition on_defense :: "(defense \<Rightarrow> defense) \<Rightarrow> node \<Rightarrow> node" where
  "on_defense f nd = nd\<lparr>nd_defense := map_option f (nd_defense nd)\<rparr>"

section \<open>Constants and timers\<close>

definition DELAY :: "time \<Rightarrow> time \<Rightarrow> time" where
  "DELAY now t = (if t < now then microsecond else t - now + microsecond)"

definition OLSR_NEIGHB_HOLD_TIME :: "node \<Rightarrow> time" where
  "OLSR_NEIGHB_HOLD_TIME nd = 3 * nd_helloInterval nd"

definition OLSR_TOP_HOLD_TIME :: "node \<Rightarrow> time" where
  "OLSR_TOP_HOLD_TIME nd = 3 * nd_tcInterval nd"

definition OLSR_DUP_HOLD_TIME :: time where "OLSR_DUP_HOLD_TIME = 30 * second"

definition OLSR_MID_HOLD_TIME :: "node \<Rightarrow> time" where
  "OLSR_MID_HOLD_TIME nd = 3 * nd_midInterval nd"

definition OLSR_HNA_HOLD_TIME :: "node \<Rightarrow> time" where
  "OLSR_HNA_HOLD_TIME nd = 3 * nd_hnaInterval nd"

definition OLSR_MAX_SEQ_NUM :: nat where "OLSR_MAX_SEQ_NUM = 65535"

text \<open>Assigned to a 16-bit counter.\<close>

definition max_seq :: u16 where "max_seq = of_nat OLSR_MAX_SEQ_NUM"

definition OLSR_MAX_MSGS :: nat where "OLSR_MAX_MSGS = 64"

definition schedule :: "time \<Rightarrow> time \<Rightarrow> event \<Rightarrow> node \<Rightarrow> node" where
  "schedule now delay e nd = nd\<lparr>nd_events := nd_events nd @ [(now + delay, e)]\<rparr>"

text \<open>\<open>JITTER\<close> draws the next random value.\<close>

definition JITTER :: "node \<Rightarrow> time \<times> node" where
  "JITTER nd = (nd_jitter nd (nd_draws nd), nd\<lparr>nd_draws := nd_draws nd + 1\<rparr>)"

section \<open>Sequence numbers\<close>

definition next_seq :: "u16 \<Rightarrow> u16" where
  "next_seq n = of_nat ((unat n + 1) mod (OLSR_MAX_SEQ_NUM + 1))"

definition IncrementAnsn :: "node \<Rightarrow> node" where
  "IncrementAnsn nd = nd\<lparr>nd_ansn := next_seq (nd_ansn nd)\<rparr>"

definition GetPacketSequenceNumber :: "node \<Rightarrow> u16 \<times> node" where
  "GetPacketSequenceNumber nd =
     (let n = next_seq (nd_packetSequenceNumber nd) in (n, nd\<lparr>nd_packetSequenceNumber := n\<rparr>))"

definition GetMessageSequenceNumber :: "node \<Rightarrow> u16 \<times> node" where
  "GetMessageSequenceNumber nd =
     (let n = next_seq (nd_messageSequenceNumber nd) in (n, nd\<lparr>nd_messageSequenceNumber := n\<rparr>))"

section \<open>Tuples\<close>

definition AddDuplicateTuple :: "duplicate_tuple \<Rightarrow> node \<Rightarrow> node" where
  "AddDuplicateTuple t = on_state (InsertDuplicateTuple t)"

definition RemoveDuplicateTuple :: "duplicate_tuple \<Rightarrow> node \<Rightarrow> node" where
  "RemoveDuplicateTuple t = on_state (EraseDuplicateTuple t)"

definition AddNeighborTuple :: "neighbor_tuple \<Rightarrow> node \<Rightarrow> node" where
  "AddNeighborTuple t nd = IncrementAnsn (on_state (InsertNeighborTuple t) nd)"

definition RemoveNeighborTuple :: "neighbor_tuple \<Rightarrow> node \<Rightarrow> node" where
  "RemoveNeighborTuple t nd = IncrementAnsn (on_state (EraseNeighborTuple t) nd)"

definition AddTwoHopNeighborTuple :: "two_hop_tuple \<Rightarrow> node \<Rightarrow> node" where
  "AddTwoHopNeighborTuple t = on_state (InsertTwoHopNeighborTuple t)"

definition RemoveTwoHopNeighborTuple :: "two_hop_tuple \<Rightarrow> node \<Rightarrow> node" where
  "RemoveTwoHopNeighborTuple t = on_state (EraseTwoHopNeighborTuple t)"

definition AddMprSelectorTuple :: "mpr_selector_tuple \<Rightarrow> node \<Rightarrow> node" where
  "AddMprSelectorTuple t nd = IncrementAnsn (on_state (InsertMprSelectorTuple t) nd)"

definition RemoveMprSelectorTuple :: "mpr_selector_tuple \<Rightarrow> node \<Rightarrow> node" where
  "RemoveMprSelectorTuple t nd = IncrementAnsn (on_state (EraseMprSelectorTuple t) nd)"

definition AddTopologyTuple :: "topology_tuple \<Rightarrow> node \<Rightarrow> node" where
  "AddTopologyTuple t = on_state (InsertTopologyTuple t)"

definition RemoveTopologyTuple :: "topology_tuple \<Rightarrow> node \<Rightarrow> node" where
  "RemoveTopologyTuple t = on_state (EraseTopologyTuple t)"

definition AddIfaceAssocTuple :: "iface_assoc_tuple \<Rightarrow> node \<Rightarrow> node" where
  "AddIfaceAssocTuple t = on_state (InsertIfaceAssocTuple t)"

definition RemoveIfaceAssocTuple :: "iface_assoc_tuple \<Rightarrow> node \<Rightarrow> node" where
  "RemoveIfaceAssocTuple t = on_state (EraseIfaceAssocTuple t)"

definition AddAssociationTuple :: "association_tuple \<Rightarrow> node \<Rightarrow> node" where
  "AddAssociationTuple t = on_state (InsertAssociationTuple t)"

definition RemoveAssociationTuple :: "association_tuple \<Rightarrow> node \<Rightarrow> node" where
  "RemoveAssociationTuple t = on_state (EraseAssociationTuple t)"

section \<open>The two computations\<close>

text \<open>\<open>m_defenseStrategy\<close> as the MPR selection sees it.\<close>

definition suspicion :: "node \<Rightarrow> (ipv4 \<Rightarrow> bool) option" where
  "suspicion nd = map_option (\<lambda>d a. defense_IsMalicious a d) (nd_defense nd)"

definition MprComputation :: "node \<Rightarrow> node res" where
  "MprComputation nd =
     (case MprSet (suspicion nd) (nd_mainAddress nd) (nd_state nd) of
        None \<Rightarrow> Inl Diverges
      | Some mprSet \<Rightarrow> Inr (on_state (SetMprSet mprSet) nd))"

definition GetBlacklist :: "node \<Rightarrow> ipv4 std_set" where
  "GetBlacklist nd = (case nd_defense nd of Some d \<Rightarrow> defense_GetBlacklist d | None \<Rightarrow> [])"

definition RoutingTableComputation :: "time \<Rightarrow> node \<Rightarrow> node res" where
  "RoutingTableComputation now nd =
     bindR (rt_tables now (nd_ifaces nd) (nd_mainAddress nd) (nd_state nd) (GetBlacklist nd)
              (nd_hnaRoutingTable nd))
       (\<lambda>(t, avoiding, routes).
          Inr (nd\<lparr>nd_table := t, nd_tableAvoidingSuspects := avoiding, nd_hnaRoutingTable := routes\<rparr>))"

section \<open>Access lemmas\<close>

lemma on_state_fields [simp]:
  "nd_state (on_state f nd) = f (nd_state nd)"
  "nd_mainAddress (on_state f nd) = nd_mainAddress nd"
  "nd_ifaces (on_state f nd) = nd_ifaces nd"
  "nd_defense (on_state f nd) = nd_defense nd"
  "nd_events (on_state f nd) = nd_events nd"
  "nd_ansn (on_state f nd) = nd_ansn nd"
  "nd_table (on_state f nd) = nd_table nd"
  by (simp_all add: on_state_def)

lemma next_seq_wraps [code]: "next_seq n = n + 1"
proof -
  have "unat (n + 1) = (unat n + 1) mod 2 ^ 16" by (simp only: unat_word_ariths unat_1 len_num1) simp
  then have "next_seq n = of_nat (unat (n + 1))" by (simp add: next_seq_def OLSR_MAX_SEQ_NUM_def)
  then show ?thesis by simp
qed

lemma max_seq_code [code]: "max_seq = 0xffff"
  by (simp add: max_seq_def OLSR_MAX_SEQ_NUM_def)

text \<open>MPR selection never diverges and only writes the MPR set.\<close>

lemma MprComputation_total:
  "\<exists>S. MprSet (suspicion nd) (nd_mainAddress nd) (nd_state nd) = Some S \<and>
     MprComputation nd = Inr (on_state (SetMprSet S) nd)"
proof -
  obtain S where "MprSet (suspicion nd) (nd_mainAddress nd) (nd_state nd) = Some S"
    using MprSet_inv by blast
  then show ?thesis by (simp add: MprComputation_def)
qed

lemma MprComputation_Inr:
  "MprComputation nd = Inr nd' \<Longrightarrow> \<exists>S. nd' = on_state (SetMprSet S) nd"
  using MprComputation_total [of nd] by auto

lemma RoutingTableComputation_Inr:
  "RoutingTableComputation now nd = Inr nd' \<Longrightarrow>
    \<exists>t a r. nd' = nd\<lparr>nd_table := t, nd_tableAvoidingSuspects := a, nd_hnaRoutingTable := r\<rparr>"
  by (auto simp: RoutingTableComputation_def res_simps)

end
