(* ===== verification/Message_Processing.thy ===== *)
theory Message_Processing
  imports Complex_Main Protocol_State
begin

text \<open>
  The handlers of received messages in olsr-routing-protocol.cc: link sensing and the neighbor,
  2-hop, MPR selector, topology, interface and association sets (\<open>ProcessHello\<close>, \<open>ProcessTc\<close>,
  \<open>ProcessMid\<close>, \<open>ProcessHna\<close>), and the default forwarding rule (\<open>ForwardDefault\<close>, \<open>QueueMessage\<close>).
  A pointer into a vector is the first tuple with its key; where the code holds such a pointer
  over a loop that writes only its target (\<open>LinkSensing\<close>), the target is kept as a value
  and written back before the set is read again.
\<close>

unbundle bit_operations_syntax

section \<open>Link codes\<close>

definition UNSPEC_LINK :: u8 where "UNSPEC_LINK = 0"
definition ASYM_LINK :: u8 where "ASYM_LINK = 1"
definition SYM_LINK :: u8 where "SYM_LINK = 2"
definition LOST_LINK :: u8 where "LOST_LINK = 3"

definition NOT_NEIGH :: u8 where "NOT_NEIGH = 0"
definition SYM_NEIGH :: u8 where "SYM_NEIGH = 1"
definition MPR_NEIGH :: u8 where "MPR_NEIGH = 2"

lemmas link_code_defs = UNSPEC_LINK_def ASYM_LINK_def SYM_LINK_def LOST_LINK_def NOT_NEIGH_def
  SYM_NEIGH_def MPR_NEIGH_def

definition link_type :: "u8 \<Rightarrow> u8" where "link_type code = code AND 0x03"

definition neighbor_type :: "u8 \<Rightarrow> u8" where "neighbor_type code = drop_bit 2 code AND 0x03"

section \<open>Link and neighbor tuples\<close>

definition LinkTupleAdded :: "time \<Rightarrow> link_tuple \<Rightarrow> willingness \<Rightarrow> node \<Rightarrow> node" where
  "LinkTupleAdded now l w nd =
     AddNeighborTuple
       \<lparr>nt_neighborMainAddr = GetMainAddress (lt_neighborIfaceAddr l) (nd_state nd),
        nt_status = (if lt_symTime l \<ge> now then STATUS_SYM else STATUS_NOT_SYM),
        nt_willingness = w\<rparr> nd"

definition hasSymmetricLink :: "time \<Rightarrow> ipv4 \<Rightarrow> olsr_state \<Rightarrow> bool" where
  "hasSymmetricLink now mainAddr s =
     (find_first (\<lambda>l. GetMainAddress (lt_neighborIfaceAddr l) s = mainAddr \<and> lt_symTime l \<ge> now)
        (m_linkSet s) \<noteq> None)"

definition LinkTupleUpdated :: "time \<Rightarrow> link_tuple \<Rightarrow> willingness \<Rightarrow> node \<Rightarrow> node" where
  "LinkTupleUpdated now l w nd =
     (let a = GetMainAddress (lt_neighborIfaceAddr l) (nd_state nd);
          nd = (if FindNeighborTuple a (nd_state nd) = None then LinkTupleAdded now l w nd else nd)
      in case FindNeighborTuple a (nd_state nd) of
           None \<Rightarrow> nd
         | Some nb \<Rightarrow>
             let sym = hasSymmetricLink now (nt_neighborMainAddr nb) (nd_state nd)
             in on_state (SetNeighborTuple a
                  (\<lambda>n. n\<lparr>nt_status := (if sym then STATUS_SYM else STATUS_NOT_SYM)\<rparr>)) nd)"

definition RemoveLinkTuple :: "link_tuple \<Rightarrow> node \<Rightarrow> node" where
  "RemoveLinkTuple l nd =
     on_state (EraseLinkTuple l)
       (on_state (EraseNeighborTupleAddr (GetMainAddress (lt_neighborIfaceAddr l) (nd_state nd))) nd)"

definition NeighborLoss :: "time \<Rightarrow> link_tuple \<Rightarrow> node \<Rightarrow> node res" where
  "NeighborLoss now l nd =
     (let nd = LinkTupleUpdated now l WILL_DEFAULT nd;
          nd = on_state (EraseTwoHopNeighborTuples (GetMainAddress (lt_neighborIfaceAddr l) (nd_state nd))) nd;
          nd = on_state (EraseMprSelectorTuples (GetMainAddress (lt_neighborIfaceAddr l) (nd_state nd))) nd
      in bindR (MprComputation nd) (RoutingTableComputation now))"

section \<open>HELLO\<close>

text \<open>The loop over the addresses of one link message stops at the first that is our interface.\<close>

fun sense_addresses ::
  "time \<Rightarrow> time \<Rightarrow> time \<Rightarrow> ipv4 \<Rightarrow> u8 \<Rightarrow> ipv4 list \<Rightarrow> link_tuple \<times> bool \<Rightarrow> (link_tuple \<times> bool) res"
where
  "sense_addresses now vtime hold receiverIface linkType [] (l, updated) = Inr (l, updated)"
| "sense_addresses now vtime hold receiverIface linkType (a # as) (l, updated) =
     (if a = receiverIface
      then (if linkType = LOST_LINK then Inr (l\<lparr>lt_symTime := now - second\<rparr>, True)
            else if linkType = SYM_LINK \<or> linkType = ASYM_LINK
            then Inr (l\<lparr>lt_symTime := now + vtime, lt_time := now + vtime + hold\<rparr>, True)
            else Inl Fatal_error)
      else sense_addresses now vtime hold receiverIface linkType as (l, updated))"

definition sense_message ::
  "time \<Rightarrow> time \<Rightarrow> time \<Rightarrow> ipv4 \<Rightarrow> LinkMessage \<Rightarrow> link_tuple \<times> bool \<Rightarrow> (link_tuple \<times> bool) res"
where
  "sense_message now vtime hold receiverIface lm st =
     (let linkType = link_type (linkCode lm); neighborType = neighbor_type (linkCode lm)
      in if (linkType = SYM_LINK \<and> neighborType = NOT_NEIGH) \<or>
            (neighborType \<noteq> SYM_NEIGH \<and> neighborType \<noteq> MPR_NEIGH \<and> neighborType \<noteq> NOT_NEIGH)
         then Inr st
         else sense_addresses now vtime hold receiverIface linkType (neighborInterfaceAddresses lm) st)"

definition LinkSensing ::
  "time \<Rightarrow> MessageHeader \<Rightarrow> Hello \<Rightarrow> ipv4 \<Rightarrow> ipv4 \<Rightarrow> node \<Rightarrow> node res" where
  "LinkSensing now msg hello receiverIface senderIface nd =
     assertR (GetVTime msg > 0)
       (let vtime = GetVTime msg;
            (nd, l, created) =
              (case FindLinkTuple senderIface (nd_state nd) of
                 None \<Rightarrow>
                   let l = \<lparr>lt_localIfaceAddr = receiverIface, lt_neighborIfaceAddr = senderIface,
                            lt_symTime = now - second, lt_asymTime = 0, lt_time = now + vtime\<rparr>
                   in (on_state (InsertLinkTuple l) nd, l, True)
               | Some l \<Rightarrow> (nd, l, False));
            l = l\<lparr>lt_asymTime := now + vtime\<rparr>
        in bindR (foldE (sense_message now vtime (OLSR_NEIGHB_HOLD_TIME nd) receiverIface)
                   (linkMessages hello) (l, \<not> created))
             (\<lambda>(l, updated).
                let l = l\<lparr>lt_time := max (lt_time l) (lt_asymTime l)\<rparr>;
                    nd = on_state (SetLinkTuple senderIface (\<lambda>_. l)) nd;
                    nd = (if updated then LinkTupleUpdated now l (h_willingness hello) nd else nd);
                    nd = (if created
                          then schedule now (DELAY now (min (lt_time l) (lt_symTime l)))
                                 (Link_timer (lt_neighborIfaceAddr l))
                                 (LinkTupleAdded now l (h_willingness hello) nd)
                          else nd)
                in Inr nd))"

definition PopulateNeighborSet :: "MessageHeader \<Rightarrow> Hello \<Rightarrow> node \<Rightarrow> node" where
  "PopulateNeighborSet msg hello =
     on_state (SetNeighborTuple (m_originatorAddress msg) (\<lambda>nb. nb\<lparr>nt_willingness := h_willingness hello\<rparr>))"

text \<open>One address of a link message, as a 2-hop neighbor behind the originator.\<close>

definition two_hop_address :: "time \<Rightarrow> MessageHeader \<Rightarrow> u8 \<Rightarrow> ipv4 \<Rightarrow> node \<Rightarrow> node" where
  "two_hop_address now msg neighborType addr nd =
     (let nb2hop_addr = GetMainAddress addr (nd_state nd); orig = m_originatorAddress msg in
      if neighborType = SYM_NEIGH \<or> neighborType = MPR_NEIGH
      then
        (if nb2hop_addr = nd_mainAddress nd then nd
         else case FindTwoHopNeighborTuple orig nb2hop_addr (nd_state nd) of
                None \<Rightarrow>
                  let t = \<lparr>th_neighborMainAddr = orig, th_twoHopNeighborAddr = nb2hop_addr,
                           th_expirationTime = now + GetVTime msg\<rparr>
                  in schedule now (DELAY now (th_expirationTime t)) (Nb2hop_timer orig nb2hop_addr)
                       (AddTwoHopNeighborTuple t nd)
              | Some _ \<Rightarrow>
                  on_state (SetTwoHopNeighborTuple orig nb2hop_addr
                    (\<lambda>t. t\<lparr>th_expirationTime := now + GetVTime msg\<rparr>)) nd)
      else if neighborType = NOT_NEIGH
      then on_state (EraseTwoHopNeighborTuples2 orig nb2hop_addr) nd
      else nd)"

definition PopulateTwoHopNeighborSet :: "time \<Rightarrow> MessageHeader \<Rightarrow> Hello \<Rightarrow> node \<Rightarrow> node" where
  "PopulateTwoHopNeighborSet now msg hello nd =
     fold (\<lambda>l nd.
         if GetMainAddress (lt_neighborIfaceAddr l) (nd_state nd) \<noteq> m_originatorAddress msg then nd
         else if lt_symTime l < now then nd
         else fold (\<lambda>lm nd. fold (two_hop_address now msg (neighbor_type (linkCode lm)))
                              (neighborInterfaceAddresses lm) nd)
                (linkMessages hello) nd)
       (m_linkSet (nd_state nd)) nd"

text \<open>Here the neighbor type is not masked to two bits.\<close>

definition mpr_selector_address :: "time \<Rightarrow> MessageHeader \<Rightarrow> ipv4 \<Rightarrow> node \<Rightarrow> node" where
  "mpr_selector_address now msg addr nd =
     (let orig = m_originatorAddress msg in
      if GetMainAddress addr (nd_state nd) = nd_mainAddress nd
      then (case FindMprSelectorTuple orig (nd_state nd) of
              None \<Rightarrow>
                let t = \<lparr>ms_mainAddr = orig, ms_expirationTime = now + GetVTime msg\<rparr>
                in schedule now (DELAY now (ms_expirationTime t)) (MprSel_timer orig)
                     (AddMprSelectorTuple t nd)
            | Some _ \<Rightarrow>
                on_state (SetMprSelectorTuple orig (\<lambda>t. t\<lparr>ms_expirationTime := now + GetVTime msg\<rparr>)) nd)
      else nd)"

definition PopulateMprSelectorSet :: "time \<Rightarrow> MessageHeader \<Rightarrow> Hello \<Rightarrow> node \<Rightarrow> node" where
  "PopulateMprSelectorSet now msg hello nd =
     fold (\<lambda>lm nd. if drop_bit 2 (linkCode lm) = MPR_NEIGH
                    then fold (mpr_selector_address now msg) (neighborInterfaceAddresses lm) nd else nd)
       (linkMessages hello) nd"

definition ProcessHello ::
  "time \<Rightarrow> MessageHeader \<Rightarrow> Hello \<Rightarrow> ipv4 \<Rightarrow> ipv4 \<Rightarrow> node \<Rightarrow> node res" where
  "ProcessHello now msg hello receiverIface senderIface nd =
     bindR (LinkSensing now msg hello receiverIface senderIface nd) (\<lambda>nd.
     bindR (MprComputation (PopulateTwoHopNeighborSet now msg hello (PopulateNeighborSet msg hello nd)))
       (\<lambda>nd. Inr (PopulateMprSelectorSet now msg hello nd)))"

section \<open>TC\<close>

definition tc_address :: "time \<Rightarrow> MessageHeader \<Rightarrow> Tc \<Rightarrow> ipv4 \<Rightarrow> node \<Rightarrow> node" where
  "tc_address now msg tc addr nd =
     (let orig = m_originatorAddress msg in
      case FindTopologyTuple addr orig (nd_state nd) of
        Some _ \<Rightarrow>
          on_state (SetTopologyTuple addr orig (\<lambda>t. t\<lparr>tt_expirationTime := now + GetVTime msg\<rparr>)) nd
      | None \<Rightarrow>
          let t = \<lparr>tt_destAddr = addr, tt_lastAddr = orig, tt_sequenceNumber = tc_ansn tc,
                   tt_expirationTime = now + GetVTime msg\<rparr>
          in schedule now (DELAY now (tt_expirationTime t)) (Topology_timer (tt_destAddr t) (tt_lastAddr t))
               (AddTopologyTuple t nd))"

definition ProcessTc :: "time \<Rightarrow> MessageHeader \<Rightarrow> Tc \<Rightarrow> ipv4 \<Rightarrow> node \<Rightarrow> node" where
  "ProcessTc now msg tc senderIface nd =
     (if FindSymLinkTuple senderIface now (nd_state nd) = None then nd
      else if FindNewerTopologyTuple (m_originatorAddress msg) (tc_ansn tc) (nd_state nd) \<noteq> None then nd
      else fold (tc_address now msg tc) (neighborAddresses tc)
             (on_state (EraseOlderTopologyTuples (m_originatorAddress msg) (tc_ansn tc)) nd))"

section \<open>MID\<close>

definition mid_address :: "time \<Rightarrow> MessageHeader \<Rightarrow> ipv4 \<Rightarrow> node \<Rightarrow> node" where
  "mid_address now msg addr nd =
     (let orig = m_originatorAddress msg;
          hit = (\<lambda>t. ia_ifaceAddr t = addr \<and> ia_mainAddr t = orig);
          updated = (find_first hit (m_ifaceAssocSet (nd_state nd)) \<noteq> None);
          nd = on_state (\<lambda>s. s\<lparr>m_ifaceAssocSet :=
                 map (\<lambda>t. if hit t then t\<lparr>ia_time := now + GetVTime msg\<rparr> else t) (m_ifaceAssocSet s)\<rparr>) nd
      in if updated then nd
         else
           let t = \<lparr>ia_ifaceAddr = addr, ia_mainAddr = orig, ia_time = now + GetVTime msg\<rparr>
           in schedule now (DELAY now (ia_time t)) (IfaceAssoc_timer (ia_ifaceAddr t))
                (AddIfaceAssocTuple t nd))"

definition ProcessMid :: "time \<Rightarrow> MessageHeader \<Rightarrow> Mid \<Rightarrow> ipv4 \<Rightarrow> node \<Rightarrow> node" where
  "ProcessMid now msg mid senderIface nd =
     (if FindSymLinkTuple senderIface now (nd_state nd) = None then nd
      else
        let nd = fold (mid_address now msg) (interfaceAddresses mid) nd
        in on_state (\<lambda>s. s\<lparr>
             m_neighborSet := map (\<lambda>n. n\<lparr>nt_neighborMainAddr := GetMainAddress (nt_neighborMainAddr n) s\<rparr>)
               (m_neighborSet s),
             m_twoHopNeighborSet := map (\<lambda>t. t\<lparr>
                 th_neighborMainAddr := GetMainAddress (th_neighborMainAddr t) s,
                 th_twoHopNeighborAddr := GetMainAddress (th_twoHopNeighborAddr t) s\<rparr>)
               (m_twoHopNeighborSet s)\<rparr>) nd)"

section \<open>HNA\<close>

definition hna_address :: "time \<Rightarrow> MessageHeader \<Rightarrow> HnaAssociation \<Rightarrow> node \<Rightarrow> node" where
  "hna_address now msg a nd =
     (let orig = m_originatorAddress msg in
      case FindAssociationTuple orig (ha_address a) (ha_mask a) (nd_state nd) of
        Some _ \<Rightarrow>
          on_state (SetAssociationTuple orig (ha_address a) (ha_mask a)
            (\<lambda>t. t\<lparr>at_expirationTime := now + GetVTime msg\<rparr>)) nd
      | None \<Rightarrow>
          let t = \<lparr>at_gatewayAddr = orig, at_networkAddr = ha_address a, at_netmask = ha_mask a,
                   at_expirationTime = now + GetVTime msg\<rparr>
          in schedule now (DELAY now (at_expirationTime t))
               (Association_timer (at_gatewayAddr t) (at_networkAddr t) (at_netmask t))
               (AddAssociationTuple t nd))"

definition ProcessHna :: "time \<Rightarrow> MessageHeader \<Rightarrow> Hna \<Rightarrow> ipv4 \<Rightarrow> node \<Rightarrow> node" where
  "ProcessHna now msg hna senderIface nd =
     (if FindSymLinkTuple senderIface now (nd_state nd) = None then nd
      else fold (hna_address now msg) (associations hna) nd)"

section \<open>Default forwarding\<close>

definition QueueMessage :: "time \<Rightarrow> MessageHeader \<Rightarrow> time \<Rightarrow> node \<Rightarrow> node" where
  "QueueMessage now message delay nd =
     (let nd = nd\<lparr>nd_queuedMessages := nd_queuedMessages nd @ [message]\<rparr>
      in if nd_queuedMessagesTimer nd = None
         then nd\<lparr>nd_queuedMessagesTimer := Some (now + delay)\<rparr> else nd)"

definition ForwardDefault ::
  "time \<Rightarrow> MessageHeader \<Rightarrow> duplicate_tuple option \<Rightarrow> ipv4 \<Rightarrow> ipv4 \<Rightarrow> node \<Rightarrow> node" where
  "ForwardDefault now m duplicated localIface senderAddress nd =
     (if FindSymLinkTuple senderAddress now (nd_state nd) = None then nd
      else if (case duplicated of Some d \<Rightarrow> dt_retransmitted d | None \<Rightarrow> False) then nd
      else
        let (nd, retransmitted) =
              (if m_timeToLive m > 1 \<and>
                  FindMprSelectorTuple (GetMainAddress senderAddress (nd_state nd)) (nd_state nd) \<noteq> None
               then
                 let m' = m\<lparr>m_timeToLive := m_timeToLive m - 1, m_hopCount := m_hopCount m + 1\<rparr>;
                     (jitter, nd) = JITTER nd
                 in (QueueMessage now m' jitter nd, True)
               else (nd, False))
        in case duplicated of
             Some _ \<Rightarrow>
               on_state (SetDuplicateTuple (m_originatorAddress m) (m_messageSequenceNumber m)
                 (\<lambda>d. d\<lparr>dt_expirationTime := now + OLSR_DUP_HOLD_TIME, dt_retransmitted := retransmitted,
                        dt_ifaceList := dt_ifaceList d @ [localIface]\<rparr>)) nd
           | None \<Rightarrow>
               schedule now OLSR_DUP_HOLD_TIME
                 (Dup_timer (m_originatorAddress m) (m_messageSequenceNumber m))
                 (AddDuplicateTuple
                    \<lparr>dt_address = m_originatorAddress m, dt_sequenceNumber = m_messageSequenceNumber m,
                     dt_retransmitted = retransmitted, dt_ifaceList = [localIface],
                     dt_expirationTime = now + OLSR_DUP_HOLD_TIME\<rparr> nd))"

end
