(* ===== verification/Timers.thy ===== *)
theory Timers
  imports Complex_Main Message_Processing
begin

text \<open>
  The expiration timers of the tuples (\<open>...TupleTimerExpire\<close> in olsr-routing-protocol.cc). The handler
  of a set looks its tuple up again by key, since the scheduled call may be older than the tuple:
  a tuple that is gone needs nothing, an expired one is removed, any other gets a new timer.
  The locale \<open>expiring_repo\<close> extends \<open>tuple_repo\<close> by this contract; it is interpreted on the five sets
  whose handlers have that shape. The link timer has a second expiration time, \<open>symTime\<close>, at which
  the neighbor is lost.
\<close>

section \<open>Handlers\<close>

definition DupTupleTimerExpire :: "time \<Rightarrow> ipv4 \<Rightarrow> u16 \<Rightarrow> node \<Rightarrow> node" where
  "DupTupleTimerExpire now address sequenceNumber nd =
     (case FindDuplicateTuple address sequenceNumber (nd_state nd) of
        None \<Rightarrow> nd
      | Some t \<Rightarrow>
          if dt_expirationTime t < now then RemoveDuplicateTuple t nd
          else schedule now (DELAY now (dt_expirationTime t)) (Dup_timer address sequenceNumber) nd)"

definition LinkTupleTimerExpire :: "time \<Rightarrow> ipv4 \<Rightarrow> node \<Rightarrow> node res" where
  "LinkTupleTimerExpire now neighborIfaceAddr nd =
     (case FindLinkTuple neighborIfaceAddr (nd_state nd) of
        None \<Rightarrow> Inr nd
      | Some t \<Rightarrow>
          if lt_time t < now then Inr (RemoveLinkTuple t nd)
          else if lt_symTime t < now
          then bindR (if nd_linkTupleTimerFirstTime nd
                      then Inr (nd\<lparr>nd_linkTupleTimerFirstTime := False\<rparr>)
                      else NeighborLoss now t nd)
                 (\<lambda>nd. Inr (schedule now (DELAY now (lt_time t)) (Link_timer neighborIfaceAddr) nd))
          else Inr (schedule now (DELAY now (min (lt_time t) (lt_symTime t)))
                      (Link_timer neighborIfaceAddr) nd))"

definition Nb2hopTupleTimerExpire :: "time \<Rightarrow> ipv4 \<Rightarrow> ipv4 \<Rightarrow> node \<Rightarrow> node" where
  "Nb2hopTupleTimerExpire now neighborMainAddr twoHopNeighborAddr nd =
     (case FindTwoHopNeighborTuple neighborMainAddr twoHopNeighborAddr (nd_state nd) of
        None \<Rightarrow> nd
      | Some t \<Rightarrow>
          if th_expirationTime t < now then RemoveTwoHopNeighborTuple t nd
          else schedule now (DELAY now (th_expirationTime t))
                 (Nb2hop_timer neighborMainAddr twoHopNeighborAddr) nd)"

definition MprSelTupleTimerExpire :: "time \<Rightarrow> ipv4 \<Rightarrow> node \<Rightarrow> node" where
  "MprSelTupleTimerExpire now mainAddr nd =
     (case FindMprSelectorTuple mainAddr (nd_state nd) of
        None \<Rightarrow> nd
      | Some t \<Rightarrow>
          if ms_expirationTime t < now then RemoveMprSelectorTuple t nd
          else schedule now (DELAY now (ms_expirationTime t)) (MprSel_timer mainAddr) nd)"

definition TopologyTupleTimerExpire :: "time \<Rightarrow> ipv4 \<Rightarrow> ipv4 \<Rightarrow> node \<Rightarrow> node" where
  "TopologyTupleTimerExpire now destAddr lastAddr nd =
     (case FindTopologyTuple destAddr lastAddr (nd_state nd) of
        None \<Rightarrow> nd
      | Some t \<Rightarrow>
          if tt_expirationTime t < now then RemoveTopologyTuple t nd
          else schedule now (DELAY now (tt_expirationTime t))
                 (Topology_timer (tt_destAddr t) (tt_lastAddr t)) nd)"

definition IfaceAssocTupleTimerExpire :: "time \<Rightarrow> ipv4 \<Rightarrow> node \<Rightarrow> node" where
  "IfaceAssocTupleTimerExpire now ifaceAddr nd =
     (case FindIfaceAssocTuple ifaceAddr (nd_state nd) of
        None \<Rightarrow> nd
      | Some t \<Rightarrow>
          if ia_time t < now then RemoveIfaceAssocTuple t nd
          else schedule now (DELAY now (ia_time t)) (IfaceAssoc_timer ifaceAddr) nd)"

definition AssociationTupleTimerExpire :: "time \<Rightarrow> ipv4 \<Rightarrow> ipv4 \<Rightarrow> ipv4 \<Rightarrow> node \<Rightarrow> node" where
  "AssociationTupleTimerExpire now gatewayAddr networkAddr netmask nd =
     (case FindAssociationTuple gatewayAddr networkAddr netmask (nd_state nd) of
        None \<Rightarrow> nd
      | Some t \<Rightarrow>
          if at_expirationTime t < now then RemoveAssociationTuple t nd
          else schedule now (DELAY now (at_expirationTime t))
                 (Association_timer gatewayAddr networkAddr netmask) nd)"

text \<open>The dispatch of a due event.\<close>

fun expire :: "time \<Rightarrow> event \<Rightarrow> node \<Rightarrow> node res" where
  "expire now (Link_timer a) nd = LinkTupleTimerExpire now a nd"
| "expire now (Nb2hop_timer n h) nd = Inr (Nb2hopTupleTimerExpire now n h nd)"
| "expire now (MprSel_timer a) nd = Inr (MprSelTupleTimerExpire now a nd)"
| "expire now (Topology_timer d l) nd = Inr (TopologyTupleTimerExpire now d l nd)"
| "expire now (IfaceAssoc_timer a) nd = Inr (IfaceAssocTupleTimerExpire now a nd)"
| "expire now (Association_timer g n m) nd = Inr (AssociationTupleTimerExpire now g n m nd)"
| "expire now (Dup_timer a q) nd = Inr (DupTupleTimerExpire now a q nd)"

text \<open>The simulator takes the event from its queue and runs the handler.\<close>

definition fire :: "time \<Rightarrow> event \<Rightarrow> node \<Rightarrow> node res" where
  "fire due e nd = expire due e (nd\<lparr>nd_events := remove1 (due, e) (nd_events nd)\<rparr>)"

section \<open>The contract of an expiring set\<close>

lemma schedule_fields [simp]:
  "nd_state (schedule now d e nd) = nd_state nd"
  "nd_events (schedule now d e nd) = nd_events nd @ [(now + d, e)]"
  by (simp_all add: schedule_def)

text \<open>
  \<open>pending k\<close>: a timer for key \<open>k\<close> is on the simulator's queue. \<open>handler\<close> is the timer function of the
  set, \<open>remove\<close> its \<open>Remove...\<close> method.
\<close>

locale expiring_repo = tuple_repo tuples key find insert erase
  for tuples :: "olsr_state \<Rightarrow> 't list" and key :: "'t \<Rightarrow> 'k"
    and find :: "'k \<Rightarrow> olsr_state \<Rightarrow> 't option"
    and insert :: "'t \<Rightarrow> olsr_state \<Rightarrow> olsr_state" and erase :: "'t \<Rightarrow> olsr_state \<Rightarrow> olsr_state" +
  fixes expiry :: "'t \<Rightarrow> time" and timer :: "'k \<Rightarrow> event"
    and remove :: "'t \<Rightarrow> node \<Rightarrow> node" and handler :: "time \<Rightarrow> 'k \<Rightarrow> node \<Rightarrow> node"
  assumes handler_eq: "handler now k nd =
      (case find k (nd_state nd) of
         None \<Rightarrow> nd
       | Some t \<Rightarrow> if expiry t < now then remove t nd
                   else schedule now (DELAY now (expiry t)) (timer k) nd)"
    and remove_state: "nd_state (remove t nd) = erase t (nd_state nd)"
    and remove_events: "nd_events (remove t nd) = nd_events nd"
begin

lemma expired_removed:
  assumes "distinct (map key (tuples (nd_state nd)))" "find k (nd_state nd) = Some t" "expiry t < now"
  shows "find k (nd_state (handler now k nd)) = None \<and>
    tuples (nd_state (handler now k nd)) = filter (\<lambda>t'. key t' \<noteq> k) (tuples (nd_state nd)) \<and>
    nd_events (handler now k nd) = nd_events nd"
proof -
  have t: "t \<in> set (tuples (nd_state nd))" "key t = k" using find_present assms(2) by auto
  have "nd_state (handler now k nd) = erase t (nd_state nd)"
    using assms(2,3) by (simp add: handler_eq remove_state)
  moreover have "nd_events (handler now k nd) = nd_events nd"
    using assms(2,3) by (simp add: handler_eq remove_events)
  ultimately show ?thesis
    using erase_present [OF t(1) assms(1)] find_erase_same [OF assms(1) t(1)] t(2) by simp
qed

lemma live_rescheduled:
  assumes "find k (nd_state nd) = Some t" "\<not> expiry t < now"
  shows "handler now k nd = schedule now (expiry t - now + microsecond) (timer k) nd"
  using assms by (simp add: handler_eq DELAY_def)

lemma absent_ignored:
  assumes "find k (nd_state nd) = None"
  shows "handler now k nd = nd"
  using assms by (simp add: handler_eq)

lemma handler_unique:
  assumes "distinct (map key (tuples (nd_state nd)))"
  shows "distinct (map key (tuples (nd_state (handler now k nd))))"
proof (cases "find k (nd_state nd)")
  case None
  then show ?thesis using assms by (simp add: handler_eq)
next
  case (Some t)
  then have "t \<in> set (tuples (nd_state nd))" using find_present by blast
  then show ?thesis
    using assms Some unique_erase by (simp add: handler_eq remove_state)
qed

text \<open>
  After the handler has run for the key of a popped timer, that key has a timer again or no tuple,
  and the other keys keep theirs.
\<close>

lemma handler_covers:
  assumes "distinct (map key (tuples (nd_state nd)))"
    and "\<forall>t\<in>set (tuples (nd_state nd)). key t \<noteq> k \<longrightarrow> timer (key t) \<in> snd ` set (nd_events nd)"
  shows "\<forall>t\<in>set (tuples (nd_state (handler now k nd))). timer (key t) \<in> snd ` set (nd_events (handler now k nd))"
proof (cases "find k (nd_state nd)")
  case None
  then have "\<forall>t\<in>set (tuples (nd_state nd)). key t \<noteq> k" using find_absent by fastforce
  then show ?thesis using assms(2) None by (simp add: handler_eq)
next
  case (Some t)
  show ?thesis
  proof (cases "expiry t < now")
    case True
    then show ?thesis using expired_removed [OF assms(1) Some True] assms(2) by auto
  next
    case False
    then show ?thesis using assms(2) live_rescheduled [OF Some False] by auto
  qed
qed

end

interpretation mprsel_timer: expiring_repo m_mprSelectorSet ms_mainAddr FindMprSelectorTuple
  InsertMprSelectorTuple EraseMprSelectorTuple ms_expirationTime MprSel_timer RemoveMprSelectorTuple
  MprSelTupleTimerExpire
  by unfold_locales
    (simp_all add: MprSelTupleTimerExpire_def RemoveMprSelectorTuple_def IncrementAnsn_def)

interpretation twohop_timer: expiring_repo m_twoHopNeighborSet
  "\<lambda>t. (th_neighborMainAddr t, th_twoHopNeighborAddr t)"
  "\<lambda>(n, h). FindTwoHopNeighborTuple n h" InsertTwoHopNeighborTuple EraseTwoHopNeighborTuple
  th_expirationTime "\<lambda>(n, h). Nb2hop_timer n h" RemoveTwoHopNeighborTuple
  "\<lambda>now (n, h). Nb2hopTupleTimerExpire now n h"
  by unfold_locales
    (auto simp: Nb2hopTupleTimerExpire_def RemoveTwoHopNeighborTuple_def split: option.split)

interpretation topo_timer: expiring_repo m_topologySet "\<lambda>t. (tt_destAddr t, tt_lastAddr t)"
  "\<lambda>(d, l). FindTopologyTuple d l" InsertTopologyTuple EraseTopologyTuple
  tt_expirationTime "\<lambda>(d, l). Topology_timer d l" RemoveTopologyTuple
  "\<lambda>now (d, l). TopologyTupleTimerExpire now d l"
proof
  fix now nd and k :: "ipv4 \<times> ipv4"
  show "(case k of (d, l) \<Rightarrow> TopologyTupleTimerExpire now d l) nd =
    (case (case k of (d, l) \<Rightarrow> FindTopologyTuple d l) (nd_state nd) of None \<Rightarrow> nd
     | Some t \<Rightarrow> if tt_expirationTime t < now then RemoveTopologyTuple t nd
        else schedule now (DELAY now (tt_expirationTime t)) (case k of (d, l) \<Rightarrow> Topology_timer d l) nd)"
    using topo.find_present [of k "nd_state nd"]
    by (cases k) (auto simp: TopologyTupleTimerExpire_def split: option.split)
qed (simp_all add: RemoveTopologyTuple_def)

interpretation dup_timer: expiring_repo m_duplicateSet "\<lambda>t. (dt_address t, dt_sequenceNumber t)"
  "\<lambda>(a, q). FindDuplicateTuple a q" InsertDuplicateTuple EraseDuplicateTuple
  dt_expirationTime "\<lambda>(a, q). Dup_timer a q" RemoveDuplicateTuple
  "\<lambda>now (a, q). DupTupleTimerExpire now a q"
  by unfold_locales (auto simp: DupTupleTimerExpire_def RemoveDuplicateTuple_def split: option.split)

interpretation hna_timer: expiring_repo m_associationSet
  "\<lambda>t. (at_gatewayAddr t, at_networkAddr t, at_netmask t)"
  "\<lambda>(g, n, m). FindAssociationTuple g n m" InsertAssociationTuple EraseAssociationTuple
  at_expirationTime "\<lambda>(g, n, m). Association_timer g n m" RemoveAssociationTuple
  "\<lambda>now (g, n, m). AssociationTupleTimerExpire now g n m"
  by unfold_locales (auto simp: AssociationTupleTimerExpire_def RemoveAssociationTuple_def split: option.split)

interpretation ifassoc_timer: expiring_repo m_ifaceAssocSet ia_ifaceAddr FindIfaceAssocTuple
  InsertIfaceAssocTuple EraseIfaceAssocTuple ia_time IfaceAssoc_timer RemoveIfaceAssocTuple
  IfaceAssocTupleTimerExpire
  by unfold_locales
    (simp_all add: IfaceAssocTupleTimerExpire_def RemoveIfaceAssocTuple_def split: option.split)

end
