(* ===== verification/Message_Sending.thy ===== *)
theory Message_Sending
  imports Complex_Main Message_Processing
begin

text \<open>
  The generation of messages in olsr-routing-protocol.cc (\<open>SendHello\<close>, \<open>SendTc\<close>, \<open>SendMid\<close>,
  \<open>SendHna\<close> with the attacker's and the defense's additions), the outgoing queue
  (\<open>SendQueuedMessages\<close>, \<open>SendPacket\<close>), the periodic timers, and the local HNA associations.
\<close>

unbundle bit_operations_syntax

section \<open>Packets\<close>

text \<open>\<open>SendTo\<close> on every socket, to the directed broadcast address of its subnet.\<close>

definition broadcast :: "u8 list \<Rightarrow> (ipv4 \<times> ipv4) \<Rightarrow> node \<Rightarrow> node res" where
  "broadcast bytes = (\<lambda>(local, netmask) nd.
     bindR (subnet_directed_broadcast local netmask) (\<lambda>bcast.
       Inr (nd\<lparr>nd_sent := nd_sent nd @ [(bcast, bytes)]\<rparr>)))"

definition SendPacket :: "u8 list \<Rightarrow> node \<Rightarrow> node res" where
  "SendPacket packet nd =
     (let (n, nd) = GetPacketSequenceNumber nd;
          header = \<lparr>m_packetLength = ucast (OLSR_PKT_HEADER_SIZE + of_nat (length packet)),
                    m_packetSequenceNumber = n\<rparr>
      in foldE (broadcast (PacketHeader_Serialize header @ packet)) (nd_sendSockets nd) nd)"

text \<open>One message of the queue: appended to the packet, which is sent when it is full.\<close>

definition pack_message :: "MessageHeader \<Rightarrow> u8 list \<times> nat \<times> node \<Rightarrow> (u8 list \<times> nat \<times> node) res" where
  "pack_message m = (\<lambda>(packet, numMessages, nd).
     let packet = packet @ Serialize m; numMessages = numMessages + 1
     in if numMessages = OLSR_MAX_MSGS
        then bindR (SendPacket packet nd) (\<lambda>nd. Inr ([], 0, nd))
        else Inr (packet, numMessages, nd))"

definition SendQueuedMessages :: "node \<Rightarrow> node res" where
  "SendQueuedMessages nd =
     bindR (foldE pack_message (nd_queuedMessages nd) ([], 0, nd)) (\<lambda>(packet, _, nd).
     bindR (if packet \<noteq> [] then SendPacket packet nd else Inr nd) (\<lambda>nd.
     Inr (nd\<lparr>nd_queuedMessages := []\<rparr>)))"

section \<open>The attacker's spoofed links\<close>

text \<open>
  \<open>BuildSpoofTargets\<close>: the candidates are visited in order, the own and neighbor addresses and
  repetitions are skipped, and the list ends when it has \<open>maxCount\<close> addresses.
\<close>

definition own_addresses :: "node \<Rightarrow> ipv4 list" where
  "own_addresses nd = map fst (concat (nd_ifaces nd))"

definition spoof_excluded :: "node \<Rightarrow> ipv4 std_set" where
  "spoof_excluded nd =
     (let ex = set_insert (nd_mainAddress nd) [];
          ex = fold set_insert (own_addresses nd) ex;
          ex = fold (\<lambda>n. set_insert (nt_neighborMainAddr n)) (m_neighborSet (nd_state nd)) ex
      in fold (\<lambda>l. set_insert (lt_neighborIfaceAddr l)) (m_linkSet (nd_state nd)) ex)"

definition spoof_candidates :: "node \<Rightarrow> ipv4 list" where
  "spoof_candidates nd =
     map th_twoHopNeighborAddr (m_twoHopNeighborSet (nd_state nd)) @
     concat (map (\<lambda>t. [tt_destAddr t, tt_lastAddr t]) (m_topologySet (nd_state nd)))"

fun spoof_loop :: "nat \<Rightarrow> ipv4 std_set \<Rightarrow> ipv4 list \<Rightarrow> ipv4 list \<Rightarrow> ipv4 list" where
  "spoof_loop maxCount ex [] result = result"
| "spoof_loop maxCount ex (a # as) result =
     (if \<not> set_count ex a \<and> a \<notin> set result
      then (if length result + 1 \<ge> maxCount then result @ [a]
            else spoof_loop maxCount ex as (result @ [a]))
      else spoof_loop maxCount ex as result)"

definition BuildSpoofTargets :: "u32 \<Rightarrow> node \<Rightarrow> ipv4 list" where
  "BuildSpoofTargets maxCount nd =
     (if maxCount = 0 then []
      else spoof_loop (unat maxCount) (spoof_excluded nd) (spoof_candidates nd) [])"

section \<open>HELLO\<close>

definition link_code :: "u8 \<Rightarrow> u8 \<Rightarrow> u8" where
  "link_code linkType neighborType = (linkType AND 0x03) OR (push_bit 2 neighborType AND 0x0f)"

text \<open>The link message for one link tuple; \<open>None\<close> where the code continues with the next link.\<close>

definition hello_link :: "time \<Rightarrow> node \<Rightarrow> link_tuple \<Rightarrow> LinkMessage option" where
  "hello_link now nd l =
     (let s = nd_state nd; a = GetMainAddress (lt_neighborIfaceAddr l) s in
      if \<not> (GetMainAddress (lt_localIfaceAddr l) s = nd_mainAddress nd \<and> lt_time l \<ge> now) then None
      else
        let linkType = (if lt_symTime l \<ge> now then SYM_LINK
                        else if lt_asymTime l \<ge> now then ASYM_LINK else LOST_LINK);
            neighborType =
              (if FindMprAddress a s then Some MPR_NEIGH
               else case find_first (\<lambda>nb. nt_neighborMainAddr nb = a) (m_neighborSet s) of
                      Some nb \<Rightarrow> Some (if nt_status nb = STATUS_SYM then SYM_NEIGH else NOT_NEIGH)
                    | None \<Rightarrow> None)
        in case neighborType of
             None \<Rightarrow> None
           | Some nt \<Rightarrow>
               Some \<lparr>linkCode = link_code linkType nt,
                     neighborInterfaceAddresses = lt_neighborIfaceAddr l #
                       FindNeighborInterfaces (lt_neighborIfaceAddr l) s\<rparr>)"

text \<open>The fictitious node: the main address plus 65536.\<close>

definition fictitious_address :: "node \<Rightarrow> ipv4" where
  "fictitious_address nd = nd_mainAddress nd + 65536"

definition wants_fictitious :: "node \<Rightarrow> bool" where
  "wants_fictitious nd \<longleftrightarrow> \<not> nd_isMalicious nd \<and>
     (case nd_defense nd of None \<Rightarrow> False | Some d \<Rightarrow> defense_RequiresFictitiousNode (nd_state nd) d)"

definition hello_links :: "time \<Rightarrow> node \<Rightarrow> LinkMessage list" where
  "hello_links now nd =
     List.map_filter (hello_link now nd) (m_linkSet (nd_state nd)) @
     (let targets = BuildSpoofTargets (nd_spoofedLinksCount nd) nd in
      if nd_isMalicious nd \<and> nd_spoofedLinksCount nd > 0 \<and> targets \<noteq> []
      then [\<lparr>linkCode = link_code SYM_LINK SYM_NEIGH, neighborInterfaceAddresses = targets\<rparr>] else []) @
     (if wants_fictitious nd
      then [\<lparr>linkCode = link_code SYM_LINK SYM_NEIGH, neighborInterfaceAddresses = [fictitious_address nd]\<rparr>]
      else [])"

text \<open>The header fields that every \<open>Send...\<close> function sets, with the next message sequence number.\<close>

definition new_message :: "time \<Rightarrow> u8 \<Rightarrow> (node \<Rightarrow> msg_body) \<Rightarrow> node \<Rightarrow> (MessageHeader \<times> node) res" where
  "new_message vtime ttl body nd =
     (let (n, nd) = GetMessageSequenceNumber nd
      in bindR (SetVTime vtime
                 \<lparr>m_vTime = 0, m_originatorAddress = nd_mainAddress nd, m_timeToLive = ttl, m_hopCount = 0,
                  m_messageSequenceNumber = n, m_messageSize = 0, m_message = body nd\<rparr>)
           (\<lambda>m. Inr (m, nd)))"

text \<open>\<open>QueueMessage(msg, JITTER)\<close>\<close>

definition queue_jittered :: "time \<Rightarrow> MessageHeader \<Rightarrow> node \<Rightarrow> node" where
  "queue_jittered now m nd = (let (jitter, nd) = JITTER nd in QueueMessage now m jitter nd)"

definition SendHello :: "time \<Rightarrow> node \<Rightarrow> node res" where
  "SendHello now nd =
     (let hello = \<lparr>hTime = 0, h_willingness = (if nd_isMalicious nd then WILL_ALWAYS else nd_willingness nd),
                   linkMessages = hello_links now nd\<rparr>
      in bindR (new_message (OLSR_NEIGHB_HOLD_TIME nd) 1 (\<lambda>_. HELLO_MESSAGE hello) nd) (\<lambda>(m, nd).
         bindR (SetHTime (nd_helloInterval nd) hello) (\<lambda>hello.
         Inr (queue_jittered now (m\<lparr>m_message := HELLO_MESSAGE hello\<rparr>) nd))))"

section \<open>TC, MID and HNA\<close>

text \<open>\<open>std::find\<close> guards the additions to the advertised list.\<close>

definition push_new :: "ipv4 \<Rightarrow> ipv4 list \<Rightarrow> ipv4 list" where
  "push_new a as = (if a \<in> set as then as else as @ [a])"

definition tc_addresses :: "node \<Rightarrow> ipv4 list" where
  "tc_addresses nd =
     (let as = map ms_mainAddr (m_mprSelectorSet (nd_state nd));
          as = (if wants_fictitious nd then push_new (fictitious_address nd) as else as)
      in if nd_isMalicious nd \<and> nd_spoofedLinksCount nd > 0
         then fold push_new (BuildSpoofTargets (nd_spoofedLinksCount nd) nd) as else as)"

definition poison_ansn :: "node \<Rightarrow> node" where
  "poison_ansn nd =
     (if nd_isMalicious nd
      then nd\<lparr>nd_ansn := of_nat ((unat (nd_ansn nd) + 200) mod OLSR_MAX_SEQ_NUM)\<rparr> else nd)"

definition SendTc :: "time \<Rightarrow> node \<Rightarrow> node res" where
  "SendTc now nd =
     bindR (new_message (OLSR_TOP_HOLD_TIME nd) 255
              (\<lambda>nd. TC_MESSAGE \<lparr>neighborAddresses = tc_addresses nd, tc_ansn = nd_ansn (poison_ansn nd)\<rparr>) nd)
       (\<lambda>(m, nd). Inr (queue_jittered now m (poison_ansn nd)))"

text \<open>The first local address of every interface that is not excluded, from index \<open>i\<close> on.\<close>

fun mid_interfaces :: "node \<Rightarrow> nat \<Rightarrow> (ipv4 \<times> ipv4) list list \<Rightarrow> ipv4 list res" where
  "mid_interfaces nd i [] = Inr []"
| "mid_interfaces nd i (addrs # ifaces) =
     (case addrs of
        [] \<Rightarrow> Inl Fatal_error
      | (addr, _) # _ \<Rightarrow>
          bindR (mid_interfaces nd (i + 1) ifaces) (\<lambda>as.
            Inr (if addr \<noteq> nd_mainAddress nd \<and> addr \<noteq> ipv4_loopback \<and> i \<notin> set (nd_interfaceExclusions nd)
                 then addr # as else as)))"

definition SendMid :: "time \<Rightarrow> node \<Rightarrow> node res" where
  "SendMid now nd =
     bindR (mid_interfaces nd 0 (nd_ifaces nd)) (\<lambda>as.
     if as = [] then Inr nd
     else bindR (new_message (OLSR_MID_HOLD_TIME nd) 255 (\<lambda>_. MID_MESSAGE \<lparr>interfaceAddresses = as\<rparr>) nd)
            (\<lambda>(m, nd). Inr (queue_jittered now m nd)))"

text \<open>A message sequence number is taken even when there is nothing to announce.\<close>

definition SendHna :: "time \<Rightarrow> node \<Rightarrow> node res" where
  "SendHna now nd =
     (let as = map (\<lambda>a. \<lparr>ha_address = as_networkAddr a, ha_mask = as_netmask a\<rparr>) (m_associations (nd_state nd))
      in bindR (new_message (OLSR_HNA_HOLD_TIME nd) 255 (\<lambda>_. HNA_MESSAGE \<lparr>associations = as\<rparr>) nd)
           (\<lambda>(m, nd). if as = [] then Inr nd else Inr (queue_jittered now m nd)))"

section \<open>Periodic timers\<close>

text \<open>\<open>Timer::Schedule\<close> stops the program if the timer is still running.\<close>

definition restart :: "time option \<Rightarrow> (time option \<Rightarrow> node) \<Rightarrow> time \<Rightarrow> node res" where
  "restart running put due = (if running = None then Inr (put (Some due)) else Inl Fatal_error)"

definition HelloTimerExpire :: "time \<Rightarrow> node \<Rightarrow> node res" where
  "HelloTimerExpire now nd =
     bindR (SendHello now nd) (\<lambda>nd.
       restart (nd_helloTimer nd) (\<lambda>t. nd\<lparr>nd_helloTimer := t\<rparr>) (now + nd_helloInterval nd))"

definition TcTimerExpire :: "time \<Rightarrow> node \<Rightarrow> node res" where
  "TcTimerExpire now nd =
     bindR (if m_mprSelectorSet (nd_state nd) \<noteq> [] then SendTc now nd else Inr nd) (\<lambda>nd.
       restart (nd_tcTimer nd) (\<lambda>t. nd\<lparr>nd_tcTimer := t\<rparr>) (now + nd_tcInterval nd))"

definition MidTimerExpire :: "time \<Rightarrow> node \<Rightarrow> node res" where
  "MidTimerExpire now nd =
     bindR (SendMid now nd) (\<lambda>nd.
       restart (nd_midTimer nd) (\<lambda>t. nd\<lparr>nd_midTimer := t\<rparr>) (now + nd_midInterval nd))"

definition HnaTimerExpire :: "time \<Rightarrow> node \<Rightarrow> node res" where
  "HnaTimerExpire now nd =
     bindR (if m_associations (nd_state nd) \<noteq> [] then SendHna now nd else Inr nd) (\<lambda>nd.
       restart (nd_hnaTimer nd) (\<lambda>t. nd\<lparr>nd_hnaTimer := t\<rparr>) (now + nd_hnaInterval nd))"

section \<open>Local HNA associations\<close>

definition AddHostNetworkAssociation :: "ipv4 \<Rightarrow> ipv4 \<Rightarrow> node \<Rightarrow> node" where
  "AddHostNetworkAssociation networkAddr netmask nd =
     (if find_first (\<lambda>a. as_networkAddr a = networkAddr \<and> as_netmask a = netmask)
           (m_associations (nd_state nd)) \<noteq> None
      then nd
      else on_state (InsertAssociation \<lparr>as_networkAddr = networkAddr, as_netmask = netmask\<rparr>) nd)"

definition RemoveHostNetworkAssociation :: "ipv4 \<Rightarrow> ipv4 \<Rightarrow> node \<Rightarrow> node" where
  "RemoveHostNetworkAssociation networkAddr netmask =
     on_state (EraseAssociation \<lparr>as_networkAddr = networkAddr, as_netmask = netmask\<rparr>)"

definition UsesNonOlsrOutgoingInterface :: "static_route \<Rightarrow> node \<Rightarrow> bool" where
  "UsesNonOlsrOutgoingInterface r nd \<longleftrightarrow> unat (sr_interface r) \<in> set (nd_interfaceExclusions nd)"

definition SetRoutingTableAssociation :: "static_route list \<Rightarrow> node \<Rightarrow> node" where
  "SetRoutingTableAssociation routingTable nd =
     (let nd = (case nd_routingTableAssociation nd of
                  None \<Rightarrow> nd
                | Some old \<Rightarrow>
                    fold (\<lambda>r nd. if UsesNonOlsrOutgoingInterface r nd
                                 then RemoveHostNetworkAssociation (sr_dest r) (sr_mask r) nd else nd) old nd);
          nd = nd\<lparr>nd_routingTableAssociation := Some routingTable\<rparr>
      in fold (\<lambda>r nd. if UsesNonOlsrOutgoingInterface r nd
                       then AddHostNetworkAssociation (sr_dest r) (sr_mask r) nd else nd) routingTable nd)"

end
