(* ===== verification/Forwarding.thy ===== *)
theory Forwarding
  imports Complex_Main Protocol_State
begin

text \<open>
  The data plane of olsr-routing-protocol.cc: \<open>RouteOutput\<close> for packets of the node itself,
  \<open>RouteInput\<close> for packets that arrive, with the black hole of a malicious node, the reroute around
  suspected next hops and the hook that tells the defense about every packet it hands to a next hop.
  A route is the record \<open>ipv4_route\<close> that the code fills; \<open>None\<close> is the null pointer, returned
  together with \<open>ERROR_NOROUTETOHOST\<close>. \<open>uid\<close> is the unique id of the packet. The hooks
  \<open>OnDataPacketReceived\<close> and \<open>OnDataPacketDropped\<close> do nothing in any strategy and are left out.
\<close>

section \<open>The functions\<close>

definition IsMyOwnAddress :: "ipv4 \<Rightarrow> node \<Rightarrow> bool" where
  "IsMyOwnAddress a nd \<longleftrightarrow> list_ex (\<lambda>(local, mask). a = local) (nd_sendSockets nd)"

definition suspected :: "ipv4 \<Rightarrow> node \<Rightarrow> bool" where
  "suspected a nd = (case nd_defense nd of None \<Rightarrow> False | Some d \<Rightarrow> defense_IsMalicious a d)"

text \<open>\<open>FindSendEntry\<close> on the main table, whose failure stops the program.\<close>

definition send_entry :: "RoutingTableEntry \<Rightarrow> node \<Rightarrow> RoutingTableEntry res" where
  "send_entry entry1 nd =
     (case FindSendEntry (nd_table nd) entry1 of
        None \<Rightarrow> Inl Diverges
      | Some None \<Rightarrow> Inl Fatal_error
      | Some (Some entry2) \<Rightarrow> Inr entry2)"

text \<open>The route object for a send entry: the interface must have exactly one address.\<close>

definition make_route :: "ipv4 \<Rightarrow> RoutingTableEntry \<Rightarrow> node \<Rightarrow> ipv4_route res" where
  "make_route dst entry2 nd =
     bindR (GetInterface (nd_ifaces nd) (rt_interface entry2)) (\<lambda>addrs.
     assertR (length addrs > 0)
       (if length addrs = 1
        then Inr \<lparr>ro_destination = dst, ro_source = fst (hd addrs), ro_gateway = rt_nextAddr entry2,
                  ro_oif = rt_interface entry2\<rparr>
        else Inl Fatal_error))"

text \<open>The reroute (IMP): a suspected next hop is replaced if the avoiding table has an alternative.\<close>

definition imp_reroute ::
  "ipv4 \<Rightarrow> node \<Rightarrow> RoutingTableEntry \<times> ipv4_route \<Rightarrow> (RoutingTableEntry \<times> ipv4_route) res" where
  "imp_reroute dst nd = (\<lambda>(entry2, rtentry).
     if suspected (rt_nextAddr entry2) nd
     then (case FindSuspectAvoidingSendEntry (nd_tableAvoidingSuspects nd) dst of
             None \<Rightarrow> Inl Diverges
           | Some None \<Rightarrow> Inr (entry2, rtentry)
           | Some (Some altEntry) \<Rightarrow>
               bindR (GetAddress0 (nd_ifaces nd) (rt_interface altEntry)) (\<lambda>altIfAddr.
               Inr (altEntry, rtentry\<lparr>ro_source := altIfAddr, ro_gateway := rt_nextAddr altEntry,
                                      ro_oif := rt_interface altEntry\<rparr>)))
     else Inr (entry2, rtentry))"

definition packet_forwarded :: "64 word \<Rightarrow> ipv4 \<Rightarrow> ipv4 \<Rightarrow> time \<Rightarrow> node \<Rightarrow> node" where
  "packet_forwarded uid nextHop dst now = on_defense (defense_OnDataPacketForwarded uid nextHop dst now)"

definition RouteOutput ::
  "time \<Rightarrow> 64 word \<Rightarrow> ipv4 \<Rightarrow> u32 option \<Rightarrow> node \<Rightarrow> (ipv4_route option \<times> node) res" where
  "RouteOutput now uid dst oif nd =
     (case Lookup dst (nd_table nd) of
        Some entry1 \<Rightarrow>
          bindR (send_entry entry1 nd) (\<lambda>entry2.
          if oif \<noteq> None \<and> oif \<noteq> Some (rt_interface entry2) then Inr (None, nd)
          else bindR (make_route dst entry2 nd) (\<lambda>rtentry.
               bindR (imp_reroute dst nd (entry2, rtentry)) (\<lambda>(entry2, rtentry).
               Inr (Some rtentry, packet_forwarded uid (rt_nextAddr entry2) dst now nd))))
      | None \<Rightarrow>
          bindR (SR_RouteOutput (nd_ifaces nd) dst oif (nd_hnaRoutingTable nd)) (\<lambda>route.
          case route of
            Some rtentry \<Rightarrow> Inr (Some rtentry, packet_forwarded uid (ro_gateway rtentry) dst now nd)
          | None \<Rightarrow> Inr (None, nd)))"

definition RouteInput ::
  "time \<Rightarrow> ipv4_config \<Rightarrow> bool \<Rightarrow> 64 word \<Rightarrow> ipv4 \<Rightarrow> ipv4 \<Rightarrow> u32 option \<Rightarrow> node \<Rightarrow> (verdict \<times> node) res"
where
  "RouteInput now cfg lcb uid origin dst idev nd =
     (if IsMyOwnAddress origin nd then Inr (Consumed, nd)
      else case idev of
        None \<Rightarrow> Inl Assertion_failed
      | Some iif \<Rightarrow>
          bindR (IsDestinationAddress (nd_ifaces nd) cfg dst iif) (\<lambda>mine.
          if mine then Inr (if lcb then Delivered iif else Not_handled, nd)
          else if nd_isMalicious nd then Inr (Consumed, nd)
          else case Lookup dst (nd_table nd) of
            Some entry1 \<Rightarrow>
              bindR (send_entry entry1 nd) (\<lambda>entry2.
              bindR (make_route dst entry2 nd) (\<lambda>rtentry.
              bindR (imp_reroute dst nd (entry2, rtentry)) (\<lambda>(entry2, rtentry).
              Inr (Forwarded rtentry, packet_forwarded uid (rt_nextAddr entry2) dst now nd))))
          | None \<Rightarrow>
              bindR (SR_RouteInput (nd_ifaces nd) cfg lcb dst idev (nd_hnaRoutingTable nd)) (\<lambda>v.
              Inr (v, nd))))"

section \<open>Forwarding over computed tables\<close>

text \<open>
  \<open>tables_of now s B nd\<close>: the node holds the tables that \<open>RoutingTableComputation\<close> derived from the
  information base \<open>s\<close> and blacklist \<open>B\<close>; every interface has one address.
\<close>

definition tables_of :: "time \<Rightarrow> olsr_state \<Rightarrow> ipv4 std_set \<Rightarrow> node \<Rightarrow> bool" where
  "tables_of now s B nd \<longleftrightarrow>
     rt_table now (nd_ifaces nd) (nd_mainAddress nd) s [] = Inr (nd_table nd) \<and>
     rt_table now (nd_ifaces nd) (nd_mainAddress nd) s B = Inr (nd_tableAvoidingSuspects nd) \<and>
     main_addresses s \<and> length (nd_ifaces nd) < 2 ^ 32 \<and> list_all (\<lambda>as. length as = 1) (nd_ifaces nd)"

lemma RoutingTableComputation_tables_of:
  assumes "RoutingTableComputation now nd = Inr nd'" "main_addresses (nd_state nd)"
    and "length (nd_ifaces nd) < 2 ^ 32" "list_all (\<lambda>as. length as = 1) (nd_ifaces nd)"
  shows "tables_of now (nd_state nd) (GetBlacklist nd) nd' \<and> nd_defense nd' = nd_defense nd"
proof -
  from assms(1) obtain t a r where
    r: "rt_tables now (nd_ifaces nd) (nd_mainAddress nd) (nd_state nd) (GetBlacklist nd)
          (nd_hnaRoutingTable nd) = Inr (t, a, r)" and
    nd': "nd' = nd\<lparr>nd_table := t, nd_tableAvoidingSuspects := a, nd_hnaRoutingTable := r\<rparr>"
    by (auto simp: RoutingTableComputation_def res_simps)
  have "rt_table now (nd_ifaces nd) (nd_mainAddress nd) (nd_state nd) [] = Inr t"
    "rt_table now (nd_ifaces nd) (nd_mainAddress nd) (nd_state nd) (GetBlacklist nd) = Inr a"
    using r ComputeRoutingTableCore_table by (auto simp: rt_tables_def res_simps split: if_splits)
  then show ?thesis using assms(2-) by (simp add: tables_of_def nd')
qed

lemma find_interface_range:
  "find_interface a i ifaces = Some j \<Longrightarrow> unat i + length ifaces < 2 ^ 32 \<Longrightarrow>
    unat i \<le> unat j \<and> unat j < unat i + length ifaces"
proof (induction a i ifaces rule: find_interface.induct)
  case (2 a i addrs ifaces)
  then have "unat i + 1 < 2 ^ 32" by simp
  then have "unat (i + 1) = unat i + 1" by (rule unat_Suc_u32)
  with 2 show ?case by (auto split: if_splits)
qed simp

lemma GetInterface_single:
  assumes "list_all (\<lambda>as. length as = 1) ifaces" "unat i < length ifaces"
  shows "\<exists>a m. GetInterface ifaces i = Inr [(a, m)] \<and> GetAddress0 ifaces i = Inr a"
proof -
  from assms have "length (ifaces ! unat i) = 1" by (simp add: list_all_length)
  then obtain x where "ifaces ! unat i = [x]" by (auto simp: length_Suc_conv)
  then show ?thesis using assms(2) by (cases x) (simp add: GetInterface_def GetAddress0_def)
qed

lemma first_hop_range:
  assumes "first_hop now ifaces s X nx i nb" "length ifaces < 2 ^ 32"
  shows "unat i < length ifaces"
proof -
  from assms(1) obtain a where "find_interface a 0 ifaces = Some i" by (auto simp: first_hop_def)
  from find_interface_range [OF this] assms(2) show ?thesis by simp
qed

lemma first_hop_mono: "first_hop now ifaces s X nx i nb \<Longrightarrow> first_hop now ifaces s {} nx i nb"
  by (simp add: first_hop_def)

lemma first_hop_main: "first_hop now ifaces s X nx i nb \<Longrightarrow> nt_neighborMainAddr nb = GetMainAddress nx s"
  by (auto simp: first_hop_def live_link_def)

text \<open>The exclusion set only removes routes, and the interface may be any that reaches the next hop.\<close>

lemma route_over:
  assumes "route now ifaces s X nx i d" "first_hop now ifaces s X nx j nb"
  shows "route now ifaces s {} nx j d"
  using assms(1)
proof (induction rule: route.induct)
  case (neighbor_iface nb')
  show ?case by (rule route.neighbor_iface [OF first_hop_mono [OF assms(2)]])
next
  case (neighbor_main nb')
  then have "nt_neighborMainAddr nb' = nt_neighborMainAddr nb" using first_hop_main assms(2) by metis
  then show ?case using route.neighbor_main [OF first_hop_mono [OF assms(2)]] by simp
qed (auto intro: route.intros)

text \<open>The send entry of a destination in a computed table.\<close>

lemma table_send_entry:
  assumes "rt_table now ifaces m s B = Inr t" "main_addresses s" "Lookup d t = Some e"
  shows "\<exists>e'. FindSendEntry t e = Some (Some e') \<and> route now ifaces s {} (rt_nextAddr e') (rt_interface e') d \<and>
    (\<exists>nb. first_hop now ifaces s (set B) (rt_nextAddr e') (rt_interface e') nb)"
proof -
  have ok: "table_ok now ifaces s (set B) t" by (rule rt_table_ok [OF assms(1)])
  then have e: "entry_ok now ifaces s (set B) d e" using assms(3) by (simp add: table_ok_def Lookup_def)
  then obtain e' where e': "FindSendEntry t e = Some (Some e')" "rt_nextAddr e' = rt_nextAddr e"
    "map_of t (rt_nextAddr e) = Some e'"
    using FindSendEntry_hops_ok [OF rt_table_hops_ok [OF assms(1,2)]] assms(3)
    by (fastforce simp: Lookup_def self_entry_def entry_ok_def)
  then obtain nb where nb: "first_hop now ifaces s (set B) (rt_nextAddr e') (rt_interface e') nb"
    using route_first_hop [OF table_ok_route [OF ok e'(3)]] by auto
  moreover have "route now ifaces s {} (rt_nextAddr e') (rt_interface e') d"
    using route_over [OF _ nb] e e'(2) by (auto simp: entry_ok_def)
  ultimately show ?thesis using e'(1) by blast
qed

text \<open>
  The common part of \<open>RouteOutput\<close> and \<open>RouteInput\<close> for a destination of the table: it ends with a
  genuine route. The usual next hop is kept unless its address is suspected and the avoiding table has a route.
\<close>

lemma forward_entry:
  assumes t: "tables_of tm s B nd" and e: "Lookup dst (nd_table nd) = Some e"
    and B: "GetBlacklist nd = B"
  shows "\<exists>e2 r e3 r3. send_entry e nd = Inr e2 \<and> make_route dst e2 nd = Inr r \<and>
    imp_reroute dst nd (e2, r) = Inr (e3, r3) \<and> rt_nextAddr e3 = ro_gateway r3 \<and> ro_destination r3 = dst \<and>
    route tm (nd_ifaces nd) s {} (ro_gateway r3) (ro_oif r3) dst \<and>
    (if rt_nextAddr e2 \<in> set B \<and> Lookup dst (nd_tableAvoidingSuspects nd) \<noteq> None
     then GetMainAddress (ro_gateway r3) s \<notin> set B else ro_gateway r3 = rt_nextAddr e2)"
proof -
  let ?if = "nd_ifaces nd"
  note tabs = t [unfolded tables_of_def]
  have sus: "suspected a nd \<longleftrightarrow> a \<in> set B" for a
    using B strategy.malicious_iff by (auto simp: suspected_def GetBlacklist_def split: option.splits)
  obtain e2 nb where e2: "FindSendEntry (nd_table nd) e = Some (Some e2)"
    "route tm ?if s {} (rt_nextAddr e2) (rt_interface e2) dst"
    "first_hop tm ?if s {} (rt_nextAddr e2) (rt_interface e2) nb"
    using table_send_entry [of tm ?if "nd_mainAddress nd" s "[]"] tabs e by (metis list.set(1))
  then have "send_entry e nd = Inr e2" by (simp add: send_entry_def)
  moreover obtain r where r: "make_route dst e2 nd = Inr r" "ro_gateway r = rt_nextAddr e2"
    "ro_oif r = rt_interface e2" "ro_destination r = dst"
  proof -
    have "unat (rt_interface e2) < length ?if" using first_hop_range [OF e2(3)] tabs by blast
    then obtain x m where "GetInterface ?if (rt_interface e2) = Inr [(x, m)]"
      using GetInterface_single tabs by blast
    then show ?thesis
      by (intro that [of "\<lparr>ro_destination = dst, ro_source = x, ro_gateway = rt_nextAddr e2,
        ro_oif = rt_interface e2\<rparr>"]) (simp_all add: make_route_def)
  qed
  moreover have "\<exists>e3 r3. imp_reroute dst nd (e2, r) = Inr (e3, r3) \<and> rt_nextAddr e3 = ro_gateway r3 \<and>
    ro_destination r3 = dst \<and> route tm ?if s {} (ro_gateway r3) (ro_oif r3) dst \<and>
    (if rt_nextAddr e2 \<in> set B \<and> Lookup dst (nd_tableAvoidingSuspects nd) \<noteq> None
     then GetMainAddress (ro_gateway r3) s \<notin> set B else ro_gateway r3 = rt_nextAddr e2)"
  proof (cases "suspected (rt_nextAddr e2) nd")
    case False
    then show ?thesis using r e2 sus by (simp add: imp_reroute_def)
  next
    case True
    show ?thesis
    proof (cases "Lookup dst (nd_tableAvoidingSuspects nd)")
      case None
      then show ?thesis using True r e2 by (simp add: imp_reroute_def FindSuspectAvoidingSendEntry_def)
    next
      case (Some a)
      obtain alt nb' where alt: "FindSendEntry (nd_tableAvoidingSuspects nd) a = Some (Some alt)"
        "route tm ?if s {} (rt_nextAddr alt) (rt_interface alt) dst"
        "first_hop tm ?if s (set B) (rt_nextAddr alt) (rt_interface alt) nb'"
        using table_send_entry [of tm ?if "nd_mainAddress nd" s B] tabs Some by metis
      then have "GetMainAddress (rt_nextAddr alt) s \<notin> set B"
        by (auto simp: first_hop_def live_link_def)
      moreover obtain src where "GetAddress0 ?if (rt_interface alt) = Inr src"
        using GetInterface_single first_hop_range [OF alt(3)] tabs by blast
      ultimately show ?thesis using True [unfolded sus] r alt Some
        by (simp add: sus imp_reroute_def FindSuspectAvoidingSendEntry_def)
    qed
  qed
  ultimately show ?thesis by blast
qed

section \<open>Properties\<close>


definition example_node :: node where
  "example_node =
     \<lparr>nd_table = [rt_entry 2 2 1, rt_entry 3 3 1, rt_entry 4 2 2],
      nd_tableAvoidingSuspects = [rt_entry 3 3 1, rt_entry 4 3 2],
      nd_hnaRoutingTable = [], nd_routingTableAssociation = None,
      nd_packetSequenceNumber = 0, nd_messageSequenceNumber = 0, nd_ansn = 0,
      nd_helloInterval = 2 * second, nd_tcInterval = 5 * second, nd_midInterval = 5 * second,
      nd_hnaInterval = 5 * second, nd_willingness = WILL_DEFAULT, nd_state = example_two_paths,
      nd_ifaces = example_ifaces, nd_mainAddress = 1, nd_sendSockets = [(1, 0xffffff00)],
      nd_interfaceExclusions = [], nd_isMalicious = False, nd_spoofedLinksCount = 0,
      nd_queuedMessages = [], nd_queuedMessagesTimer = None, nd_helloTimer = None, nd_tcTimer = None,
      nd_midTimer = None, nd_hnaTimer = None, nd_defenseTimer = None, nd_linkTupleTimerFirstTime = True,
      nd_localRxDrops = 0, nd_defense = Some (Gcop_defense (example_gcop\<lparr>gc_riskyNodes := [2]\<rparr>)),
      nd_events = [], nd_jitter = (\<lambda>_. 0), nd_draws = 0, nd_sent = []\<rparr>"

lemma example_node_tables: "tables_of 5 example_two_paths (GetBlacklist example_node) example_node"
proof -
  have "rt_table 5 example_ifaces 1 example_two_paths [] = Inr (nd_table example_node)"
    "rt_table 5 example_ifaces 1 example_two_paths [2] = Inr (nd_tableAvoidingSuspects example_node)"
    "main_addresses example_two_paths" by code_simp+
  moreover have "GetBlacklist example_node = [2]" by code_simp
  ultimately show ?thesis by (simp add: tables_of_def example_node_def example_ifaces_def)
qed


lemma map_sum_bindR: "map_sum id g (bindR m f) = bindR m (\<lambda>x. map_sum id g (f x))"
  by (cases m) simp_all

text \<open>
  The black hole. A malicious node reports every transit packet as handled and hands it to
  nobody, without any effect on its state; its own packets and those addressed to it are treated
  exactly as by an honest node.
\<close>

theorem black_hole:
  "let bad = nd\<lparr>nd_isMalicious := True\<rparr>; good = nd\<lparr>nd_isMalicious := False\<rparr>;
       mine = IsDestinationAddress (nd_ifaces nd) cfg dst iif;
       corrupt = (\<lambda>n. n\<lparr>nd_isMalicious := True\<rparr>)
   in RouteInput now cfg lcb uid origin dst (Some iif) bad =
        (if \<not> IsMyOwnAddress origin nd \<and> mine = Inr False then Inr (Consumed, bad)
         else map_sum id (map_prod id corrupt) (RouteInput now cfg lcb uid origin dst (Some iif) good)) \<and>
      RouteOutput now uid dst oif bad = map_sum id (map_prod id corrupt) (RouteOutput now uid dst oif good)"
proof -
  let ?bad = "nd\<lparr>nd_isMalicious := True\<rparr>" and ?good = "nd\<lparr>nd_isMalicious := False\<rparr>"
  let ?f = "\<lambda>n. n\<lparr>nd_isMalicious := True\<rparr>"
  have fields: "nd_table ?bad = nd_table ?good" "IsMyOwnAddress origin ?bad = IsMyOwnAddress origin nd"
    "IsMyOwnAddress origin ?good = IsMyOwnAddress origin nd" "nd_ifaces ?bad = nd_ifaces ?good"
    "send_entry e ?bad = send_entry e ?good" "make_route dst e ?bad = make_route dst e ?good"
    "imp_reroute dst ?bad p = imp_reroute dst ?good p"
    "(packet_forwarded uid x dst now ?good)\<lparr>nd_isMalicious := True\<rparr> = packet_forwarded uid x dst now ?bad"
    for e p x
    by (simp_all add: IsMyOwnAddress_def send_entry_def make_route_def imp_reroute_def suspected_def
        packet_forwarded_def on_defense_def split: prod.split option.split)
  have "RouteInput now cfg lcb uid origin dst (Some iif) ?bad =
        (if \<not> IsMyOwnAddress origin nd \<and> IsDestinationAddress (nd_ifaces nd) cfg dst iif = Inr False
         then Inr (Consumed, ?bad)
         else map_sum id (map_prod id ?f) (RouteInput now cfg lcb uid origin dst (Some iif) ?good))"
    by (cases "IsDestinationAddress (nd_ifaces nd) cfg dst iif") (auto simp: RouteInput_def fields)
  moreover have "RouteOutput now uid dst oif ?bad = map_sum id (map_prod id ?f) (RouteOutput now uid dst oif ?good)"
    unfolding RouteOutput_def fields
    by (auto simp: map_sum_bindR fields if_distrib split: option.split intro!: arg_cong2 [where f = bindR] ext)
  ultimately show ?thesis by (simp only: Let_def)
qed

end
