(* ===== verification/Node.thy ===== *)
theory Node
  imports Complex_Main Timers Message_Sending Forwarding
begin

text \<open>
  The whole \<open>olsr::RoutingProtocol\<close> object: construction and start (\<open>SetIpv4\<close>, \<open>DoInitialize\<close>,
  \<open>DoDispose\<close>), the reception of packets (\<open>RecvOlsr\<close>), the defense timer and the cross-layer
  callbacks, and the step function over everything that the simulator can call. The parsed wifi
  frames and addresses that reach the callbacks are their arguments.
\<close>

section \<open>Construction and start\<close>

definition RoutingProtocol_init :: "(nat \<Rightarrow> time) \<Rightarrow> node" where
  "RoutingProtocol_init jitter =
     \<lparr>nd_table = [], nd_tableAvoidingSuspects = [], nd_hnaRoutingTable = [],
      nd_routingTableAssociation = None, nd_packetSequenceNumber = 0, nd_messageSequenceNumber = 0,
      nd_ansn = 0, nd_helloInterval = 2 * second, nd_tcInterval = 5 * second,
      nd_midInterval = 5 * second, nd_hnaInterval = 5 * second, nd_willingness = WILL_DEFAULT,
      nd_state = OlsrState_init, nd_ifaces = [], nd_mainAddress = ipv4_any, nd_sendSockets = [],
      nd_interfaceExclusions = [], nd_isMalicious = False, nd_spoofedLinksCount = 0,
      nd_queuedMessages = [], nd_queuedMessagesTimer = None, nd_helloTimer = None, nd_tcTimer = None,
      nd_midTimer = None, nd_hnaTimer = None, nd_defenseTimer = None,
      nd_linkTupleTimerFirstTime = True, nd_localRxDrops = 0, nd_defense = None, nd_events = [],
      nd_jitter = jitter, nd_draws = 0, nd_sent = []\<rparr>"

definition SetIpv4 :: "(ipv4 \<times> ipv4) list list \<Rightarrow> node \<Rightarrow> node" where
  "SetIpv4 ifaces nd =
     nd\<lparr>nd_packetSequenceNumber := max_seq, nd_messageSequenceNumber := max_seq,
        nd_ansn := max_seq, nd_linkTupleTimerFirstTime := True, nd_ifaces := ifaces\<rparr>"

definition SetMainInterface :: "u32 \<Rightarrow> node \<Rightarrow> node res" where
  "SetMainInterface interface nd =
     bindR (GetAddress0 (nd_ifaces nd) interface) (\<lambda>a. Inr (nd\<lparr>nd_mainAddress := a\<rparr>))"

definition SetInterfaceExclusions :: "nat list \<Rightarrow> node \<Rightarrow> node" where
  "SetInterfaceExclusions exceptions nd = nd\<lparr>nd_interfaceExclusions := exceptions\<rparr>"

text \<open>\<open>DoInitialize\<close>: the first address that is not the loopback address.\<close>

fun pick_main :: "(ipv4 \<times> ipv4) list list \<Rightarrow> ipv4 res" where
  "pick_main [] = Inr ipv4_any"
| "pick_main (addrs # ifaces) =
     (case addrs of
        [] \<Rightarrow> Inl Fatal_error
      | (addr, _) # _ \<Rightarrow> if addr \<noteq> ipv4_loopback then Inr addr else pick_main ifaces)"

definition init_interface :: "nat \<times> (ipv4 \<times> ipv4) list \<Rightarrow> node \<times> bool \<Rightarrow> (node \<times> bool) res" where
  "init_interface = (\<lambda>(i, addrs) (nd, canRunOlsr).
     case addrs of
       [] \<Rightarrow> Inl Fatal_error
     | (addr, netmask) # _ \<Rightarrow>
         if addr = ipv4_loopback then Inr (nd, canRunOlsr)
         else
           let nd' = (if addr \<noteq> nd_mainAddress nd
                      then AddIfaceAssocTuple \<lparr>ia_ifaceAddr = addr, ia_mainAddr = nd_mainAddress nd, ia_time = 0\<rparr> nd
                      else nd)
           in assertR (addr \<noteq> nd_mainAddress nd \<longrightarrow> GetMainAddress addr (nd_state nd') = nd_mainAddress nd)
                (if i \<in> set (nd_interfaceExclusions nd') then Inr (nd', canRunOlsr)
                 else Inr (nd'\<lparr>nd_sendSockets := nd_sendSockets nd' @ [(addr, netmask)]\<rparr>, True)))"

definition start_defense :: "time \<Rightarrow> mac option \<Rightarrow> node \<Rightarrow> node res" where
  "start_defense now myMac nd =
     (case nd_defense nd of
        None \<Rightarrow> Inr nd
      | Some _ \<Rightarrow>
          restart (nd_defenseTimer nd)
            (\<lambda>t. on_defense (defense_Setup (nd_mainAddress nd) myMac now) (nd\<lparr>nd_defenseTimer := t\<rparr>))
            (now + second))"

definition DoInitialize :: "time \<Rightarrow> mac option \<Rightarrow> node \<Rightarrow> node res" where
  "DoInitialize now myMac nd =
     bindR (if nd_mainAddress nd = ipv4_any
            then bindR (pick_main (nd_ifaces nd)) (\<lambda>a. assertR (a \<noteq> ipv4_any) (Inr (nd\<lparr>nd_mainAddress := a\<rparr>)))
            else Inr nd) (\<lambda>nd.
     bindR (foldE init_interface (enumerate 0 (nd_ifaces nd)) (nd, False)) (\<lambda>(nd, canRunOlsr).
     bindR (start_defense now myMac nd) (\<lambda>nd.
     if canRunOlsr
     then bindR (HelloTimerExpire now nd) (\<lambda>nd. bindR (TcTimerExpire now nd) (\<lambda>nd.
          bindR (MidTimerExpire now nd) (HnaTimerExpire now)))
     else Inr nd)))"

definition ReactivateDefenseStrategy :: "time \<Rightarrow> mac option \<Rightarrow> node \<Rightarrow> node" where
  "ReactivateDefenseStrategy now myMac nd =
     (case nd_defense nd of
        None \<Rightarrow> nd
      | Some _ \<Rightarrow>
          let nd = on_defense (defense_Setup (nd_mainAddress nd) myMac now) nd
          in if nd_defenseTimer nd = None then nd\<lparr>nd_defenseTimer := Some (now + second)\<rparr> else nd)"

text \<open>\<open>DoDispose\<close>; the null pointers \<open>m_ipv4\<close> and \<open>m_hnaRoutingTable\<close> are an empty list each.\<close>

definition DoDispose :: "node \<Rightarrow> node" where
  "DoDispose nd =
     nd\<lparr>nd_defense := None, nd_defenseTimer := None, nd_ifaces := [], nd_hnaRoutingTable := [],
        nd_routingTableAssociation := None, nd_sendSockets := [], nd_table := []\<rparr>"

section \<open>Reception\<close>

definition process_message :: "time \<Rightarrow> MessageHeader \<Rightarrow> ipv4 \<Rightarrow> ipv4 \<Rightarrow> node \<Rightarrow> node res" where
  "process_message now m receiverIface senderIface nd =
     (case m_message m of
        HELLO_MESSAGE hello \<Rightarrow> ProcessHello now m hello receiverIface senderIface nd
      | TC_MESSAGE tc \<Rightarrow> Inr (ProcessTc now m tc senderIface nd)
      | MID_MESSAGE mid \<Rightarrow> Inr (ProcessMid now m mid senderIface nd)
      | HNA_MESSAGE hna \<Rightarrow> Inr (ProcessHna now m hna senderIface nd))"

definition is_hello :: "MessageHeader \<Rightarrow> bool" where
  "is_hello m \<longleftrightarrow> (case m_message m of HELLO_MESSAGE _ \<Rightarrow> True | _ \<Rightarrow> False)"

definition recv_message :: "time \<Rightarrow> ipv4 \<Rightarrow> ipv4 \<Rightarrow> MessageHeader \<Rightarrow> node \<Rightarrow> node res" where
  "recv_message now receiverIface senderIface m nd =
     (if m_timeToLive m = 0 \<or> m_originatorAddress m = nd_mainAddress nd then Inr nd
      else
        let nd = (if is_hello m then on_defense (defense_OnRecvHello senderIface (nd_state nd)) nd else nd);
            duplicated = FindDuplicateTuple (m_originatorAddress m) (m_messageSequenceNumber m) (nd_state nd);
            do_forwarding = (case duplicated of None \<Rightarrow> True | Some d \<Rightarrow> receiverIface \<notin> set (dt_ifaceList d))
        in bindR (if duplicated = None then process_message now m receiverIface senderIface nd else Inr nd)
             (\<lambda>nd. Inr (if do_forwarding \<and> \<not> is_hello m
                         then ForwardDefault now m duplicated receiverIface senderIface nd else nd)))"

definition OLSR_PORT_NUMBER :: u16 where "OLSR_PORT_NUMBER = 698"

definition RecvOlsr :: "time \<Rightarrow> u32 \<Rightarrow> ipv4 \<Rightarrow> u16 \<Rightarrow> u8 list \<Rightarrow> node \<Rightarrow> node res" where
  "RecvOlsr now recvInterfaceIndex senderIfaceAddr port bytes nd =
     (if unat recvInterfaceIndex \<in> set (nd_interfaceExclusions nd) then Inr nd
      else if senderIfaceAddr \<in> set (own_addresses nd) then Inr nd
      else bindR (GetAddress0 (nd_ifaces nd) recvInterfaceIndex) (\<lambda>receiverIfaceAddr.
        assertR (receiverIfaceAddr \<noteq> ipv4_any) (assertR (port = OLSR_PORT_NUMBER)
          (bindR (ReadPacket bytes) (\<lambda>(_, messages).
           bindR (foldE (recv_message now receiverIfaceAddr senderIfaceAddr) messages nd)
             (RoutingTableComputation now))))))"

section \<open>Defense timer and callbacks\<close>

definition HandleDefenseTimer :: "time \<Rightarrow> node \<Rightarrow> node res" where
  "HandleDefenseTimer now nd =
     (case nd_defense nd of
        None \<Rightarrow> Inr nd
      | Some _ \<Rightarrow>
          let nd = on_defense (defense_PeriodicCheck now) nd;
              nd = on_defense (defense_OnSelfReliabilityReport (nd_localRxDrops nd)) nd;
              nd = nd\<lparr>nd_localRxDrops := 0\<rparr>
          in restart (nd_defenseTimer nd) (\<lambda>t. nd\<lparr>nd_defenseTimer := t\<rparr>) (now + second))"

definition OnLocalRxDrop :: "node \<Rightarrow> node" where
  "OnLocalRxDrop nd = nd\<lparr>nd_localRxDrops := nd_localRxDrops nd + 1\<rparr>"

text \<open>
  \<open>MacTxDrop\<close>: \<open>retry_limit\<close> tells the reason of the drop, \<open>ipDestination\<close> the destination field of
  the packet when it is an IPv4 packet long enough to have one.
\<close>

definition MacTxDrop :: "bool \<Rightarrow> ipv4 option \<Rightarrow> node \<Rightarrow> node" where
  "MacTxDrop retry_limit ipDestination nd =
     (if \<not> retry_limit then nd
      else case ipDestination of
        None \<Rightarrow> nd
      | Some neighbor \<Rightarrow> on_defense (defense_OnMacTxFailure neighbor 1) nd)"

text \<open>\<open>ip_sized\<close>: what is left of a data frame behind its MAC and LLC headers can hold an IP header.\<close>

definition MonitorSnifferRx :: "time \<Rightarrow> wifi_frame \<Rightarrow> bool \<Rightarrow> node \<Rightarrow> node" where
  "MonitorSnifferRx now frame ip_sized nd =
     (case frame of
        Data_frame transmitter receiver uid _ \<Rightarrow>
          if ip_sized
          then on_defense (defense_OnNeighborForwardedPacket transmitter receiver uid (nd_state nd) now) nd
          else nd
      | Rts_frame transmitter _ \<Rightarrow> on_defense (defense_OnRtsReceived transmitter) nd
      | Cts_frame receiver \<Rightarrow> on_defense (defense_OnCtsReceived receiver) nd
      | Other_frame \<Rightarrow> nd)"

text \<open>The callbacks that a watchdog object has attached to the radio itself, and its own events.\<close>

fun on_watchdog :: "(watchdog \<Rightarrow> watchdog) \<Rightarrow> defense \<Rightarrow> defense" where
  "on_watchdog f (Watchdog_defense w) = Watchdog_defense (f w)"
| "on_watchdog f d = d"

section \<open>Steps\<close>

datatype input =
    Receive u32 ipv4 u16 "u8 list"
  | Tuple_timer event
  | Hello_timer
  | Tc_timer
  | Mid_timer
  | Hna_timer
  | Queue_timer
  | Defense_timer
  | Watchdog_timer
  | Send_packet "64 word" ipv4 "u32 option"
  | Transit_packet ipv4_config bool "64 word" ipv4 ipv4 "u32 option"
  | Frame_sniffed wifi_frame bool
  | Rx_drop
  | Mac_drop bool "ipv4 option"
  | Add_hna ipv4 ipv4
  | Remove_hna ipv4 ipv4
  | Set_hna_table "static_route list"
  | Set_malicious bool u32
  | Set_enabled bool
  | Reactivate "mac option"

definition drop_snd :: "('a \<times> node) res \<Rightarrow> node res" where
  "drop_snd m = bindR m (\<lambda>(_, nd). Inr nd)"

fun node_step :: "time \<Rightarrow> input \<Rightarrow> node \<Rightarrow> node res" where
  "node_step now (Receive i sender port bytes) nd = RecvOlsr now i sender port bytes nd"
| "node_step now (Tuple_timer e) nd = fire now e nd"
| "node_step now Hello_timer nd = HelloTimerExpire now (nd\<lparr>nd_helloTimer := None\<rparr>)"
| "node_step now Tc_timer nd = TcTimerExpire now (nd\<lparr>nd_tcTimer := None\<rparr>)"
| "node_step now Mid_timer nd = MidTimerExpire now (nd\<lparr>nd_midTimer := None\<rparr>)"
| "node_step now Hna_timer nd = HnaTimerExpire now (nd\<lparr>nd_hnaTimer := None\<rparr>)"
| "node_step now Queue_timer nd = SendQueuedMessages (nd\<lparr>nd_queuedMessagesTimer := None\<rparr>)"
| "node_step now Defense_timer nd = HandleDefenseTimer now (nd\<lparr>nd_defenseTimer := None\<rparr>)"
| "node_step now Watchdog_timer nd = Inr (on_defense (on_watchdog (Watchdog_event now)) nd)"
| "node_step now (Send_packet uid dst oif) nd = drop_snd (RouteOutput now uid dst oif nd)"
| "node_step now (Transit_packet cfg lcb uid origin dst idev) nd =
     drop_snd (RouteInput now cfg lcb uid origin dst idev nd)"
| "node_step now (Frame_sniffed frame ip_sized) nd =
     Inr (on_defense (on_watchdog (SnifferRxCallback frame (nd_state nd) now))
            (MonitorSnifferRx now frame ip_sized nd))"
| "node_step now Rx_drop nd = Inr (on_defense (on_watchdog PhyRxDropCallback) (OnLocalRxDrop nd))"
| "node_step now (Mac_drop retry dst) nd = Inr (MacTxDrop retry dst nd)"
| "node_step now (Add_hna n m) nd = Inr (AddHostNetworkAssociation n m nd)"
| "node_step now (Remove_hna n m) nd = Inr (RemoveHostNetworkAssociation n m nd)"
| "node_step now (Set_hna_table rs) nd = Inr (SetRoutingTableAssociation rs nd)"
| "node_step now (Set_malicious b c) nd = Inr (nd\<lparr>nd_isMalicious := b, nd_spoofedLinksCount := c\<rparr>)"
| "node_step now (Set_enabled b) nd = Inr (on_defense (defense_SetEnabled b now) nd)"
| "node_step now (Reactivate myMac) nd = Inr (ReactivateDefenseStrategy now myMac nd)"

text \<open>
  The states of a started node. Its defense object and configuration are any; a tuple timer fires
  when it is due, other calls come at any time in any order.
\<close>

inductive node_run :: "time \<Rightarrow> node \<Rightarrow> bool" where
  node_started: "nd_state nd0 = OlsrState_init \<Longrightarrow> nd_events nd0 = [] \<Longrightarrow>
    DoInitialize t myMac (SetIpv4 ifaces nd0) = Inr nd \<Longrightarrow> node_run t nd"
| node_steps: "node_run t nd \<Longrightarrow> t \<le> now \<Longrightarrow> (\<And>e. i = Tuple_timer e \<Longrightarrow> (now, e) \<in> set (nd_events nd)) \<Longrightarrow>
    node_step now i nd = Inr nd' \<Longrightarrow> node_run now nd'"

end
