(* ===== verification/Node_Invariants.thy ===== *)
theory Node_Invariants
  imports Complex_Main "HOL-Library.Sublist" "HOL-Library.Multiset" Node
begin

text \<open>
  The invariant of the running protocol: the link, MPR selector, topology, duplicate and association
  sets hold one tuple per key, and every tuple has an expiration timer pending in the simulator, so
  none can outlive its validity for good. \<open>live_keys\<close> lists the timers that the tuples need;
  \<open>shrinks\<close> relates a node to one with fewer keys and no timer less, which is what most operations
  do; the others add a tuple together with its timer.
\<close>

section \<open>Keys and timers\<close>

definition live_keys :: "olsr_state \<Rightarrow> event list" where
  "live_keys s =
     map (\<lambda>t. Link_timer (lt_neighborIfaceAddr t)) (m_linkSet s) @
     map (\<lambda>t. MprSel_timer (ms_mainAddr t)) (m_mprSelectorSet s) @
     map (\<lambda>t. Topology_timer (tt_destAddr t) (tt_lastAddr t)) (m_topologySet s) @
     map (\<lambda>t. Dup_timer (dt_address t) (dt_sequenceNumber t)) (m_duplicateSet s) @
     map (\<lambda>t. Association_timer (at_gatewayAddr t) (at_networkAddr t) (at_netmask t)) (m_associationSet s)"

definition pending :: "node \<Rightarrow> event set" where
  "pending nd = snd ` set (nd_events nd)"

definition node_inv :: "node \<Rightarrow> bool" where
  "node_inv nd \<longleftrightarrow> distinct (live_keys (nd_state nd)) \<and> set (live_keys (nd_state nd)) \<subseteq> pending nd"

definition shrinks :: "node \<Rightarrow> node \<Rightarrow> bool" where
  "shrinks nd nd' \<longleftrightarrow> subseq (live_keys (nd_state nd')) (live_keys (nd_state nd)) \<and> pending nd \<subseteq> pending nd'"

named_theorems shrink_intros "operations that add no key and drop no timer"

lemma shrinks_refl [intro, simp]: "shrinks nd nd"
  by (simp add: shrinks_def)

lemma shrinks_trans: "shrinks a b \<Longrightarrow> shrinks b c \<Longrightarrow> shrinks a c"
  unfolding shrinks_def by (meson subseq_order.trans order_trans)

lemma node_inv_shrinks: "node_inv nd \<Longrightarrow> shrinks nd nd' \<Longrightarrow> node_inv nd'"
  unfolding node_inv_def shrinks_def
  by (metis distinct_nthsI order_trans set_nths_subset subseq_conv_nths)

lemma shrinks_fold:
  "(\<And>x nd. x \<in> set xs \<Longrightarrow> shrinks nd (f x nd)) \<Longrightarrow> shrinks nd (fold f xs nd)"
proof (induction xs arbitrary: nd)
  case (Cons x xs)
  then show ?case using shrinks_trans [of nd "f x nd" "fold f xs (f x nd)"] by simp
qed simp

text \<open>What leaves the information base and the events alone.\<close>

lemma shrinks_same: "nd_state nd' = nd_state nd \<Longrightarrow> nd_events nd' = nd_events nd \<Longrightarrow> shrinks nd nd'"
  by (simp add: shrinks_def pending_def)

lemma shrinks_schedule [shrink_intros]: "shrinks nd (schedule now d e nd)"
  by (auto simp: shrinks_def pending_def)

lemma shrinks_on_defense [shrink_intros]: "shrinks nd (on_defense f nd)"
  by (rule shrinks_same) (simp_all add: on_defense_def)

lemma shrinks_IncrementAnsn [shrink_intros]: "shrinks nd (IncrementAnsn nd)"
  by (rule shrinks_same) (simp_all add: IncrementAnsn_def)

section \<open>Updates of the information base\<close>

lemma subseq_erase_first: "subseq (map g (erase_first P xs)) (map g xs)"
  by (induction xs) auto

lemma subseq_filter_map: "subseq (map g (filter P xs)) (map g xs)"
  by (rule subseq_map) simp

lemma shrinks_on_state:
  "subseq (live_keys (f (nd_state nd))) (live_keys (nd_state nd)) \<Longrightarrow> shrinks nd (on_state f nd)"
  by (simp add: shrinks_def pending_def)

lemmas live_keys_mono = list_emb_append_mono

lemma subseq_erase [simp]:
  "subseq (live_keys (EraseMprSelectorTuple a s)) (live_keys s)"
  "subseq (live_keys (EraseMprSelectorTuples m s)) (live_keys s)"
  "subseq (live_keys (EraseTopologyTuple b s)) (live_keys s)"
  "subseq (live_keys (EraseOlderTopologyTuples m q s)) (live_keys s)"
  "subseq (live_keys (EraseDuplicateTuple c s)) (live_keys s)"
  "subseq (live_keys (EraseLinkTuple d s)) (live_keys s)"
  "subseq (live_keys (EraseAssociationTuple e s)) (live_keys s)"
  unfolding live_keys_def mpr_selector_defs topology_defs duplicate_defs link_defs association_defs erase_all_filter
  by (simp; intro live_keys_mono subseq_order.refl subseq_erase_first subseq_filter_map)+

lemma live_keys_other [simp]:
  "live_keys (InsertNeighborTuple n s) = live_keys s"
  "live_keys (SetNeighborTuple a f s) = live_keys s"
  "live_keys (EraseNeighborTuple n s) = live_keys s"
  "live_keys (EraseNeighborTupleAddr a s) = live_keys s"
  "live_keys (InsertTwoHopNeighborTuple t s) = live_keys s"
  "live_keys (SetTwoHopNeighborTuple a b g s) = live_keys s"
  "live_keys (EraseTwoHopNeighborTuple t s) = live_keys s"
  "live_keys (EraseTwoHopNeighborTuples a s) = live_keys s"
  "live_keys (EraseTwoHopNeighborTuples2 a b s) = live_keys s"
  "live_keys (SetMprSet S s) = live_keys s"
  "live_keys (InsertIfaceAssocTuple i s) = live_keys s"
  "live_keys (EraseIfaceAssocTuple i s) = live_keys s"
  "live_keys (InsertAssociation j s) = live_keys s"
  "live_keys (EraseAssociation j s) = live_keys s"
  by (simp_all add: live_keys_def neighbor_defs two_hop_defs SetMprSet_def iface_assoc_defs association_defs)

text \<open>Writes through a pointer do not change keys.\<close>

lemma live_keys_set [simp]:
  "(\<And>t. ms_mainAddr (f1 t) = ms_mainAddr t) \<Longrightarrow> live_keys (SetMprSelectorTuple a f1 s) = live_keys s"
  "(\<And>t. tt_destAddr (f2 t) = tt_destAddr t \<and> tt_lastAddr (f2 t) = tt_lastAddr t) \<Longrightarrow>
     live_keys (SetTopologyTuple a b f2 s) = live_keys s"
  "(\<And>t. dt_address (f3 t) = dt_address t \<and> dt_sequenceNumber (f3 t) = dt_sequenceNumber t) \<Longrightarrow>
     live_keys (SetDuplicateTuple a q f3 s) = live_keys s"
  "(\<And>t. at_gatewayAddr (f4 t) = at_gatewayAddr t \<and> at_networkAddr (f4 t) = at_networkAddr t \<and>
     at_netmask (f4 t) = at_netmask t) \<Longrightarrow> live_keys (SetAssociationTuple a b c f4 s) = live_keys s"
  by (simp_all add: live_keys_def SetMprSelectorTuple_def SetTopologyTuple_def SetDuplicateTuple_def
      SetAssociationTuple_def map_update_first)

lemma live_keys_SetLinkTuple [simp]:
  "lt_neighborIfaceAddr l = a \<Longrightarrow> live_keys (SetLinkTuple a (\<lambda>_. l) s) = live_keys s"
proof -
  assume a: "lt_neighborIfaceAddr l = a"
  have "map lt_neighborIfaceAddr (update_first (\<lambda>it. lt_neighborIfaceAddr it = a) (\<lambda>_. l) xs) =
      map lt_neighborIfaceAddr xs" for xs
    using a by (induction xs) auto
  then have "map (Link_timer \<circ> lt_neighborIfaceAddr)
      (update_first (\<lambda>it. lt_neighborIfaceAddr it = a) (\<lambda>_. l) xs) = map (Link_timer \<circ> lt_neighborIfaceAddr) xs" for xs
    by (metis map_map)
  then show ?thesis by (simp add: live_keys_def SetLinkTuple_def comp_def)
qed

section \<open>New tuples\<close>

lemma node_inv_new:
  assumes "node_inv nd" and "e \<notin> set (live_keys (nd_state nd))"
    and "mset (live_keys (nd_state nd')) = mset (e # live_keys (nd_state nd))"
    and "pending nd \<subseteq> pending nd'" "e \<in> pending nd'"
  shows "node_inv nd'"
  using assms mset_eq_setD [OF assms(3)] mset_eq_imp_distinct_iff [OF assms(3)]
  by (auto simp: node_inv_def)

lemma find_absent_key:
  "FindLinkTuple a s = None \<Longrightarrow> Link_timer a \<notin> set (live_keys s)"
  "FindMprSelectorTuple a s = None \<Longrightarrow> MprSel_timer a \<notin> set (live_keys s)"
  "FindTopologyTuple a b s = None \<Longrightarrow> Topology_timer a b \<notin> set (live_keys s)"
  "FindDuplicateTuple a q s = None \<Longrightarrow> Dup_timer a q \<notin> set (live_keys s)"
  "FindAssociationTuple a b c s = None \<Longrightarrow> Association_timer a b c \<notin> set (live_keys s)"
  by (auto simp: live_keys_def FindLinkTuple_def FindMprSelectorTuple_def FindTopologyTuple_def
      FindDuplicateTuple_def FindAssociationTuple_def)

lemma live_keys_insert:
  "mset (live_keys (InsertLinkTuple l s)) = mset (Link_timer (lt_neighborIfaceAddr l) # live_keys s)"
  "mset (live_keys (InsertMprSelectorTuple m s)) = mset (MprSel_timer (ms_mainAddr m) # live_keys s)"
  "mset (live_keys (InsertTopologyTuple t s)) =
     mset (Topology_timer (tt_destAddr t) (tt_lastAddr t) # live_keys s)"
  "mset (live_keys (InsertDuplicateTuple d s)) =
     mset (Dup_timer (dt_address d) (dt_sequenceNumber d) # live_keys s)"
  "mset (live_keys (InsertAssociationTuple h s)) =
     mset (Association_timer (at_gatewayAddr h) (at_networkAddr h) (at_netmask h) # live_keys s)"
  by (simp_all add: live_keys_def link_defs mpr_selector_defs topology_defs duplicate_defs association_defs)

named_theorems inv_intros "operations that preserve the invariant"

lemma pending_schedule [simp]: "pending (schedule now d e nd) = insert e (pending nd)"
  by (auto simp: pending_def)

lemma node_inv_Add:
  "node_inv nd \<Longrightarrow> FindMprSelectorTuple (ms_mainAddr m) (nd_state nd) = None \<Longrightarrow>
    node_inv (schedule now d (MprSel_timer (ms_mainAddr m)) (AddMprSelectorTuple m nd))"
  "node_inv nd \<Longrightarrow> FindTopologyTuple (tt_destAddr t) (tt_lastAddr t) (nd_state nd) = None \<Longrightarrow>
    node_inv (schedule now d (Topology_timer (tt_destAddr t) (tt_lastAddr t)) (AddTopologyTuple t nd))"
  "node_inv nd \<Longrightarrow> FindDuplicateTuple (dt_address u) (dt_sequenceNumber u) (nd_state nd) = None \<Longrightarrow>
    node_inv (schedule now d (Dup_timer (dt_address u) (dt_sequenceNumber u)) (AddDuplicateTuple u nd))"
  "node_inv nd \<Longrightarrow> FindAssociationTuple (at_gatewayAddr h) (at_networkAddr h) (at_netmask h) (nd_state nd) = None \<Longrightarrow>
    node_inv (schedule now d (Association_timer (at_gatewayAddr h) (at_networkAddr h) (at_netmask h))
      (AddAssociationTuple h nd))"
  "node_inv nd \<Longrightarrow> FindLinkTuple (lt_neighborIfaceAddr l) (nd_state nd) = None \<Longrightarrow>
    node_inv (schedule now d (Link_timer (lt_neighborIfaceAddr l)) (on_state (InsertLinkTuple l) nd))"
  by (erule node_inv_new, erule find_absent_key,
      simp_all add: live_keys_insert pending_def AddMprSelectorTuple_def AddTopologyTuple_def
        AddDuplicateTuple_def AddAssociationTuple_def IncrementAnsn_def image_Un subset_insertI)+

section \<open>Handlers of messages\<close>

lemma shrinks_erase [shrink_intros]:
  "shrinks nd (on_state (EraseMprSelectorTuple a) nd)"
  "shrinks nd (on_state (EraseMprSelectorTuples m) nd)"
  "shrinks nd (on_state (EraseTopologyTuple b) nd)"
  "shrinks nd (on_state (EraseOlderTopologyTuples m q) nd)"
  "shrinks nd (on_state (EraseDuplicateTuple c) nd)"
  "shrinks nd (on_state (EraseLinkTuple d) nd)"
  "shrinks nd (on_state (EraseAssociationTuple e) nd)"
  by (rule shrinks_on_state, simp)+

lemma shrinks_other:
  "live_keys (f (nd_state nd)) = live_keys (nd_state nd) \<Longrightarrow> shrinks nd (on_state f nd)"
  by (rule shrinks_on_state) simp

lemma shrinks_AddNeighborTuple [shrink_intros]: "shrinks nd (AddNeighborTuple t nd)"
  unfolding AddNeighborTuple_def
  by (rule shrinks_trans [OF shrinks_other shrinks_IncrementAnsn]) simp

lemma shrinks_LinkTupleAdded [shrink_intros]: "shrinks nd (LinkTupleAdded now l w nd)"
  unfolding LinkTupleAdded_def by (rule shrinks_AddNeighborTuple)

lemma shrinks_LinkTupleUpdated [shrink_intros]: "shrinks nd (LinkTupleUpdated now l w nd)"
proof -
  have set_nb: "shrinks nd' (on_state (SetNeighborTuple a g) nd')" for nd' a g
    by (rule shrinks_other) simp
  show ?thesis
    unfolding LinkTupleUpdated_def Let_def
    by (auto split: option.split
        intro: set_nb shrinks_LinkTupleAdded shrinks_trans [OF shrinks_LinkTupleAdded set_nb])
qed

lemma shrinks_MprComputation: "MprComputation nd = Inr nd' \<Longrightarrow> shrinks nd nd'"
  by (drule MprComputation_Inr) (auto intro: shrinks_other)

lemma shrinks_RoutingTableComputation: "RoutingTableComputation now nd = Inr nd' \<Longrightarrow> shrinks nd nd'"
  by (drule RoutingTableComputation_Inr) (auto intro: shrinks_same)

lemma shrinks_NeighborLoss: "NeighborLoss now l nd = Inr nd' \<Longrightarrow> shrinks nd nd'"
proof -
  assume a: "NeighborLoss now l nd = Inr nd'"
  let ?nd1 = "LinkTupleUpdated now l WILL_DEFAULT nd"
  obtain b c nd2 where "MprComputation (on_state (EraseMprSelectorTuples c)
      (on_state (EraseTwoHopNeighborTuples b) ?nd1)) = Inr nd2" "RoutingTableComputation now nd2 = Inr nd'"
    using a by (auto simp: NeighborLoss_def Let_def res_simps)
  then have "shrinks (on_state (EraseMprSelectorTuples c) (on_state (EraseTwoHopNeighborTuples b) ?nd1)) nd'"
    using shrinks_MprComputation shrinks_RoutingTableComputation shrinks_trans by blast
  moreover have "shrinks ?nd1 (on_state (EraseTwoHopNeighborTuples b) ?nd1)" by (rule shrinks_other) simp
  ultimately show ?thesis
    using shrinks_LinkTupleUpdated shrinks_erase(2) shrinks_trans by metis
qed

lemma sense_message_key:
  "foldE (sense_message now vt hold ri) lms (l, u) = Inr (l', u') \<Longrightarrow>
    lt_neighborIfaceAddr l' = lt_neighborIfaceAddr l"
proof -
  have one: "lt_neighborIfaceAddr (fst p') = lt_neighborIfaceAddr (fst p)"
    if "sense_addresses now vt hold ri lt as p = Inr p'" for lt as p p'
    using that by (induction now vt hold ri lt as p arbitrary: p' rule: sense_addresses.induct)
      (auto split: if_splits)
  assume "foldE (sense_message now vt hold ri) lms (l, u) = Inr (l', u')"
  then have "lt_neighborIfaceAddr (fst (l', u')) = lt_neighborIfaceAddr l"
    by (rule foldE_invariant [where P = "\<lambda>p. lt_neighborIfaceAddr (fst p) = lt_neighborIfaceAddr l"])
      (auto simp: sense_message_def Let_def split: if_splits dest: one)
  then show ?thesis by simp
qed

lemma shrinks_schedule_both:
  "shrinks nd nd' \<Longrightarrow> shrinks (schedule t d e nd) (schedule t' d' e nd')"
  by (auto simp: shrinks_def)

lemma shrinks_if: "shrinks nd a \<Longrightarrow> shrinks nd b \<Longrightarrow> shrinks nd (if c then a else b)"
  by simp

lemma node_inv_LinkSensing [inv_intros]:
  assumes "LinkSensing now m h ri si nd = Inr nd'" "node_inv nd"
  shows "node_inv nd'"
proof -
  have upd: "shrinks nd1 (if u then LinkTupleUpdated now l w (on_state (SetLinkTuple si (\<lambda>_. l)) nd1)
      else on_state (SetLinkTuple si (\<lambda>_. l)) nd1)"
    if "lt_neighborIfaceAddr l = si" for l u nd1 w
    using that shrinks_other [of "SetLinkTuple si (\<lambda>_. l)" nd1] shrinks_LinkTupleUpdated shrinks_trans
    by (intro shrinks_if) (auto intro: shrinks_trans)
  show ?thesis
  proof (cases "FindLinkTuple si (nd_state nd)")
    case (Some l0)
    then have si: "lt_neighborIfaceAddr l0 = si" using link.find_present by blast
    from assms(1) Some obtain l1 u where
      f: "foldE (sense_message now (GetVTime m) (OLSR_NEIGHB_HOLD_TIME nd) ri) (linkMessages h)
           (l0\<lparr>lt_asymTime := now + GetVTime m\<rparr>, True) = Inr (l1, u)" and
      nd': "nd' = (let l = l1\<lparr>lt_time := max (lt_time l1) (lt_asymTime l1)\<rparr>;
           nd = on_state (SetLinkTuple si (\<lambda>_. l)) nd
         in if u then LinkTupleUpdated now l (h_willingness h) nd else nd)"
      by (auto simp: LinkSensing_def Let_def res_simps)
    have "lt_neighborIfaceAddr (l1\<lparr>lt_time := max (lt_time l1) (lt_asymTime l1)\<rparr>) = si"
      using sense_message_key [OF f] si by simp
    from upd [OF this] show ?thesis using assms(2) node_inv_shrinks unfolding nd' Let_def by blast
  next
    case None
    let ?l0 = "\<lparr>lt_localIfaceAddr = ri, lt_neighborIfaceAddr = si, lt_symTime = now - second,
      lt_asymTime = 0, lt_time = now + GetVTime m\<rparr>"
    let ?nd1 = "on_state (InsertLinkTuple ?l0) nd"
    have hold: "OLSR_NEIGHB_HOLD_TIME ?nd1 = OLSR_NEIGHB_HOLD_TIME nd"
      by (simp add: OLSR_NEIGHB_HOLD_TIME_def on_state_def)
    from assms(1) None obtain l1 u where
      f: "foldE (sense_message now (GetVTime m) (OLSR_NEIGHB_HOLD_TIME nd) ri) (linkMessages h)
           (?l0\<lparr>lt_asymTime := now + GetVTime m\<rparr>, False) = Inr (l1, u)" and
      nd': "nd' = (let l = l1\<lparr>lt_time := max (lt_time l1) (lt_asymTime l1)\<rparr>;
           nd = on_state (SetLinkTuple si (\<lambda>_. l)) ?nd1;
           nd = (if u then LinkTupleUpdated now l (h_willingness h) nd else nd)
         in schedule now (DELAY now (min (lt_time l) (lt_symTime l))) (Link_timer (lt_neighborIfaceAddr l))
              (LinkTupleAdded now l (h_willingness h) nd))"
      by (auto simp: LinkSensing_def Let_def res_simps hold)
    let ?l2 = "l1\<lparr>lt_time := max (lt_time l1) (lt_asymTime l1)\<rparr>"
    have si: "lt_neighborIfaceAddr ?l2 = si" using sense_message_key [OF f] by simp
    have "node_inv (schedule now 0 (Link_timer si) ?nd1)"
      using node_inv_Add(5) [OF assms(2), of ?l0] None by simp
    moreover have "shrinks (schedule now 0 (Link_timer si) ?nd1) nd'"
      unfolding nd' Let_def si
      by (rule shrinks_schedule_both [OF shrinks_trans [OF upd [OF si] shrinks_LinkTupleAdded]])
    ultimately show ?thesis by (rule node_inv_shrinks)
  qed
qed

lemma node_inv_fold:
  "(\<And>x nd. node_inv nd \<Longrightarrow> node_inv (f x nd)) \<Longrightarrow> node_inv nd \<Longrightarrow> node_inv (fold f xs nd)"
  by (rule fold_invariant_rule)

lemma shrinks_PopulateNeighborSet: "shrinks nd (PopulateNeighborSet m h nd)"
  unfolding PopulateNeighborSet_def by (rule shrinks_other) simp

lemma shrinks_two_hop_address: "shrinks nd (two_hop_address now m nt a nd)"
proof -
  have add: "shrinks nd (schedule t d e (AddTwoHopNeighborTuple x nd))" for t d e x
    unfolding AddTwoHopNeighborTuple_def
    by (rule shrinks_trans [OF shrinks_other shrinks_schedule]) simp
  have upd: "shrinks nd (on_state (SetTwoHopNeighborTuple b c g) nd)"
    "shrinks nd (on_state (EraseTwoHopNeighborTuples2 b c) nd)" for b c g
    by (rule shrinks_other, simp)+
  show ?thesis
    unfolding two_hop_address_def Let_def by (auto split: option.split intro: add upd)
qed

lemma shrinks_PopulateTwoHopNeighborSet: "shrinks nd (PopulateTwoHopNeighborSet now m h nd)"
  unfolding PopulateTwoHopNeighborSet_def
  by (rule shrinks_fold) (auto intro!: shrinks_fold shrinks_two_hop_address)

lemma node_inv_PopulateMprSelectorSet [inv_intros]:
  "node_inv nd \<Longrightarrow> node_inv (PopulateMprSelectorSet now m h nd)"
proof -
  have one: "node_inv (mpr_selector_address now m a nd)" if "node_inv nd" for a nd
  proof -
    have "shrinks nd (on_state (SetMprSelectorTuple (m_originatorAddress m)
        (\<lambda>t. t\<lparr>ms_expirationTime := now + GetVTime m\<rparr>)) nd)"
      by (rule shrinks_other) simp
    moreover have "node_inv (schedule now d (MprSel_timer (m_originatorAddress m))
        (AddMprSelectorTuple \<lparr>ms_mainAddr = m_originatorAddress m, ms_expirationTime = t\<rparr> nd))"
      if "FindMprSelectorTuple (m_originatorAddress m) (nd_state nd) = None" for d t
      using node_inv_Add(1) [OF \<open>node_inv nd\<close>, of "\<lparr>ms_mainAddr = m_originatorAddress m, ms_expirationTime = t\<rparr>"] that
      by simp
    ultimately show ?thesis
      using that node_inv_shrinks unfolding mpr_selector_address_def Let_def by (auto split: option.split)
  qed
  show "node_inv nd \<Longrightarrow> node_inv (PopulateMprSelectorSet now m h nd)"
    unfolding PopulateMprSelectorSet_def by (rule node_inv_fold) (auto intro: node_inv_fold one)
qed

lemma node_inv_ProcessHello [inv_intros]:
  assumes "ProcessHello now m h ri si nd = Inr nd'" "node_inv nd"
  shows "node_inv nd'"
proof -
  from assms(1) obtain nd1 nd2 where
    "LinkSensing now m h ri si nd = Inr nd1"
    "MprComputation (PopulateTwoHopNeighborSet now m h (PopulateNeighborSet m h nd1)) = Inr nd2"
    "nd' = PopulateMprSelectorSet now m h nd2"
    by (auto simp: ProcessHello_def res_simps)
  then show ?thesis
    using assms(2) node_inv_LinkSensing node_inv_shrinks shrinks_PopulateNeighborSet
      shrinks_PopulateTwoHopNeighborSet shrinks_MprComputation node_inv_PopulateMprSelectorSet by metis
qed

lemma node_inv_tc_address: "node_inv nd \<Longrightarrow> node_inv (tc_address now m tc a nd)"
proof -
  assume inv: "node_inv nd"
  have "shrinks nd (on_state (SetTopologyTuple a (m_originatorAddress m)
      (\<lambda>t. t\<lparr>tt_expirationTime := now + GetVTime m\<rparr>)) nd)"
    by (rule shrinks_other) simp
  then show "node_inv (tc_address now m tc a nd)"
    using inv node_inv_shrinks node_inv_Add(2) [OF inv, of "\<lparr>tt_destAddr = a, tt_lastAddr = m_originatorAddress m,
      tt_sequenceNumber = tc_ansn tc, tt_expirationTime = now + GetVTime m\<rparr>"]
    unfolding tc_address_def Let_def by (auto split: option.split)
qed

lemma node_inv_ProcessTc [inv_intros]: "node_inv nd \<Longrightarrow> node_inv (ProcessTc now m tc si nd)"
  unfolding ProcessTc_def
  by (auto intro!: node_inv_fold node_inv_tc_address intro: node_inv_shrinks shrinks_erase)

lemma shrinks_mid_address: "shrinks nd (mid_address now m a nd)"
proof -
  have set_if: "live_keys (s\<lparr>m_ifaceAssocSet := x\<rparr>) = live_keys s" for s x
    by (simp add: live_keys_def)
  have set_assoc: "shrinks nd (on_state (\<lambda>s. s\<lparr>m_ifaceAssocSet := g s\<rparr>) nd)" for g nd
    by (rule shrinks_other) (simp add: set_if)
  have add: "shrinks nd (schedule t d e (AddIfaceAssocTuple x nd))" for t d e x nd
    unfolding AddIfaceAssocTuple_def by (rule shrinks_trans [OF shrinks_other shrinks_schedule]) simp
  show ?thesis
    unfolding mid_address_def Let_def
    by (auto intro: set_assoc shrinks_trans [OF set_assoc add])
qed

lemma node_inv_ProcessMid [inv_intros]: "node_inv nd \<Longrightarrow> node_inv (ProcessMid now m mid si nd)"
proof -
  have rename: "shrinks nd (on_state (\<lambda>s. s\<lparr>m_neighborSet := g s, m_twoHopNeighborSet := k s\<rparr>) nd)" for g k nd
    by (rule shrinks_other) (simp add: live_keys_def)
  have "shrinks nd (ProcessMid now m mid si nd)"
    unfolding ProcessMid_def Let_def
    by (intro shrinks_if shrinks_refl shrinks_trans [OF shrinks_fold [OF shrinks_mid_address] rename])
  then show "node_inv nd \<Longrightarrow> ?thesis" using node_inv_shrinks by blast
qed

lemma node_inv_hna_address: "node_inv nd \<Longrightarrow> node_inv (hna_address now m a nd)"
proof -
  assume inv: "node_inv nd"
  have "shrinks nd (on_state (SetAssociationTuple (m_originatorAddress m) (ha_address a) (ha_mask a)
      (\<lambda>t. t\<lparr>at_expirationTime := now + GetVTime m\<rparr>)) nd)"
    by (rule shrinks_other) simp
  then show "node_inv (hna_address now m a nd)"
    using inv node_inv_shrinks node_inv_Add(4) [OF inv, of "\<lparr>at_gatewayAddr = m_originatorAddress m,
      at_networkAddr = ha_address a, at_netmask = ha_mask a, at_expirationTime = now + GetVTime m\<rparr>"]
    unfolding hna_address_def Let_def by (auto split: option.split)
qed

lemma node_inv_ProcessHna [inv_intros]: "node_inv nd \<Longrightarrow> node_inv (ProcessHna now m hna si nd)"
  unfolding ProcessHna_def by (auto intro: node_inv_fold node_inv_hna_address)

lemma QueueMessage_same:
  "nd_state (QueueMessage now m d nd) = nd_state nd" "nd_events (QueueMessage now m d nd) = nd_events nd"
  by (simp_all add: QueueMessage_def Let_def)

lemma ForwardDefault_eq:
  fixes m nd sa now
  defines "c \<equiv> m_timeToLive m > 1 \<and> FindMprSelectorTuple (GetMainAddress sa (nd_state nd)) (nd_state nd) \<noteq> None"
  defines "nd1 \<equiv> if c then QueueMessage now (m\<lparr>m_timeToLive := m_timeToLive m - 1, m_hopCount := m_hopCount m + 1\<rparr>)
                      (fst (JITTER nd)) (snd (JITTER nd)) else nd"
  shows "ForwardDefault now m dup li sa nd =
    (if FindSymLinkTuple sa now (nd_state nd) = None \<or> (\<exists>d. dup = Some d \<and> dt_retransmitted d) then nd
     else case dup of
       Some _ \<Rightarrow>
         on_state (SetDuplicateTuple (m_originatorAddress m) (m_messageSequenceNumber m)
           (\<lambda>d. d\<lparr>dt_expirationTime := now + OLSR_DUP_HOLD_TIME, dt_retransmitted := c,
                  dt_ifaceList := dt_ifaceList d @ [li]\<rparr>)) nd1
     | None \<Rightarrow>
         schedule now OLSR_DUP_HOLD_TIME (Dup_timer (m_originatorAddress m) (m_messageSequenceNumber m))
           (AddDuplicateTuple
              \<lparr>dt_address = m_originatorAddress m, dt_sequenceNumber = m_messageSequenceNumber m,
               dt_retransmitted = c, dt_ifaceList = [li], dt_expirationTime = now + OLSR_DUP_HOLD_TIME\<rparr> nd1))"
  unfolding ForwardDefault_def c_def [symmetric] nd1_def Let_def
  by (cases dup; cases c) (simp_all add: case_prod_beta)

lemma node_inv_ForwardDefault [inv_intros]:
  assumes "node_inv nd" and "dup = FindDuplicateTuple (m_originatorAddress m) (m_messageSequenceNumber m) (nd_state nd)"
  shows "node_inv (ForwardDefault now m dup li sa nd)"
proof -
  define c where "c \<longleftrightarrow> m_timeToLive m > 1 \<and>
      FindMprSelectorTuple (GetMainAddress sa (nd_state nd)) (nd_state nd) \<noteq> None"
  define nd1 where "nd1 = (if c then QueueMessage now (m\<lparr>m_timeToLive := m_timeToLive m - 1, m_hopCount := m_hopCount m + 1\<rparr>)
      (fst (JITTER nd)) (snd (JITTER nd)) else nd)"
  have same: "nd_state nd1 = nd_state nd" "nd_events nd1 = nd_events nd"
    by (simp_all add: nd1_def QueueMessage_same JITTER_def)
  have inv1: "node_inv nd1" using assms(1) same by (simp add: node_inv_def pending_def)
  have new: "node_inv (schedule now d (Dup_timer (m_originatorAddress m) (m_messageSequenceNumber m))
      (AddDuplicateTuple \<lparr>dt_address = m_originatorAddress m, dt_sequenceNumber = m_messageSequenceNumber m,
        dt_retransmitted = r, dt_ifaceList = [li], dt_expirationTime = t\<rparr> nd1))" if "dup = None" for d r t
    using node_inv_Add(3) [OF inv1, of "\<lparr>dt_address = m_originatorAddress m,
      dt_sequenceNumber = m_messageSequenceNumber m, dt_retransmitted = r, dt_ifaceList = [li], dt_expirationTime = t\<rparr>"]
      that assms(2) same by simp
  have old: "node_inv (on_state (SetDuplicateTuple (m_originatorAddress m) (m_messageSequenceNumber m)
      (\<lambda>d. d\<lparr>dt_expirationTime := t, dt_retransmitted := r, dt_ifaceList := dt_ifaceList d @ [li]\<rparr>)) nd1)" for t r
    by (rule node_inv_shrinks [OF inv1 shrinks_other]) simp
  show ?thesis
    unfolding ForwardDefault_eq c_def [symmetric] nd1_def [symmetric]
    using assms(1) new old by (cases dup) simp_all
qed

text \<open>The handlers of a message do not touch the duplicate set.\<close>

abbreviation dups :: "node \<Rightarrow> duplicate_tuple list" where
  "dups nd \<equiv> m_duplicateSet (nd_state nd)"

lemma dups_fold: "(\<And>x nd. dups (f x nd) = dups nd) \<Longrightarrow> dups (fold f xs nd) = dups nd"
  by (induction xs arbitrary: nd) simp_all

lemma dups_state [simp]:
  "m_duplicateSet (InsertNeighborTuple n s) = m_duplicateSet s"
  "m_duplicateSet (SetNeighborTuple a f s) = m_duplicateSet s"
  "m_duplicateSet (InsertTwoHopNeighborTuple t s) = m_duplicateSet s"
  "m_duplicateSet (SetTwoHopNeighborTuple a b g s) = m_duplicateSet s"
  "m_duplicateSet (EraseTwoHopNeighborTuples2 a b s) = m_duplicateSet s"
  "m_duplicateSet (SetMprSet S s) = m_duplicateSet s"
  "m_duplicateSet (InsertIfaceAssocTuple i s) = m_duplicateSet s"
  "m_duplicateSet (InsertLinkTuple l s) = m_duplicateSet s"
  "m_duplicateSet (SetLinkTuple a h s) = m_duplicateSet s"
  "m_duplicateSet (InsertMprSelectorTuple m s) = m_duplicateSet s"
  "m_duplicateSet (SetMprSelectorTuple a f1 s) = m_duplicateSet s"
  "m_duplicateSet (InsertTopologyTuple p s) = m_duplicateSet s"
  "m_duplicateSet (SetTopologyTuple a b f2 s) = m_duplicateSet s"
  "m_duplicateSet (EraseOlderTopologyTuples a q s) = m_duplicateSet s"
  "m_duplicateSet (InsertAssociationTuple u s) = m_duplicateSet s"
  "m_duplicateSet (SetAssociationTuple a b c f4 s) = m_duplicateSet s"
  by (simp_all add: neighbor_defs two_hop_defs SetMprSet_def iface_assoc_defs link_defs mpr_selector_defs
      topology_defs association_defs)

lemma state_IncrementAnsn [simp]: "nd_state (IncrementAnsn nd) = nd_state nd"
  by (simp add: IncrementAnsn_def)

lemma dups_LinkTupleUpdated [simp]:
  "dups (LinkTupleAdded now l w nd) = dups nd" "dups (LinkTupleUpdated now l w nd) = dups nd"
  by (simp_all add: LinkTupleAdded_def LinkTupleUpdated_def AddNeighborTuple_def Let_def split: option.split)

lemma dups_LinkSensing: "LinkSensing now m h ri si nd = Inr nd' \<Longrightarrow> dups nd' = dups nd"
  by (auto simp: LinkSensing_def Let_def res_simps split: option.splits)

lemma dups_ProcessHello: "ProcessHello now m h ri si nd = Inr nd' \<Longrightarrow> dups nd' = dups nd"
proof -
  have two_hop: "dups (two_hop_address now m nt a nd) = dups nd" for nt a nd
    by (simp add: two_hop_address_def AddTwoHopNeighborTuple_def Let_def split: option.split)
  have "dups (PopulateTwoHopNeighborSet now m h nd) = dups nd" for nd
    unfolding PopulateTwoHopNeighborSet_def by (rule dups_fold) (simp add: dups_fold two_hop)
  moreover have sel: "dups (mpr_selector_address now m a nd) = dups nd" for a nd
    by (simp add: mpr_selector_address_def AddMprSelectorTuple_def Let_def split: option.split)
  moreover have "dups (PopulateMprSelectorSet now m h nd) = dups nd" for nd
    unfolding PopulateMprSelectorSet_def by (rule dups_fold) (simp add: dups_fold sel)
  moreover have "dups (PopulateNeighborSet m h nd) = dups nd" for nd
    by (simp add: PopulateNeighborSet_def)
  moreover assume "ProcessHello now m h ri si nd = Inr nd'"
  ultimately show ?thesis
    by (auto simp: ProcessHello_def res_simps dest!: dups_LinkSensing MprComputation_Inr)
qed

lemma dups_process_message: "process_message now m ri si nd = Inr nd' \<Longrightarrow> dups nd' = dups nd"
proof -
  have tc: "dups (tc_address now m t a nd) = dups nd" for t a nd
    by (simp add: tc_address_def AddTopologyTuple_def Let_def split: option.split)
  have mid: "dups (mid_address now m a nd) = dups nd" for a nd
    by (simp add: mid_address_def AddIfaceAssocTuple_def Let_def)
  have hna: "dups (hna_address now m a nd) = dups nd" for a nd
    by (simp add: hna_address_def AddAssociationTuple_def Let_def split: option.split)
  assume "process_message now m ri si nd = Inr nd'"
  then show ?thesis
    by (auto simp: process_message_def ProcessTc_def ProcessMid_def ProcessHna_def Let_def dups_fold tc mid hna
        split: msg_body.splits dest: dups_ProcessHello)
qed

section \<open>Packets and steps\<close>

lemma node_inv_recv_message:
  assumes "recv_message now ri si m nd = Inr nd'" "node_inv nd"
  shows "node_inv nd'"
proof -
  define nd0 where "nd0 = (if is_hello m then on_defense (defense_OnRecvHello si (nd_state nd)) nd else nd)"
  have inv0: "node_inv nd0" using assms(2) node_inv_shrinks shrinks_on_defense by (simp add: nd0_def)
  let ?dup = "FindDuplicateTuple (m_originatorAddress m) (m_messageSequenceNumber m) (nd_state nd0)"
  show ?thesis
  proof (cases "m_timeToLive m = 0 \<or> m_originatorAddress m = nd_mainAddress nd")
    case True
    then show ?thesis using assms by (auto simp: recv_message_def)
  next
    case False
    then obtain nd1 fw where
      nd1: "(if ?dup = None then process_message now m ri si nd0 else Inr nd0) = Inr nd1" and
      nd': "nd' = (if fw then ForwardDefault now m ?dup ri si nd1 else nd1)"
      using assms(1) by (auto simp: recv_message_def nd0_def [symmetric] Let_def res_simps)
    have inv1: "node_inv nd1"
      using nd1 inv0 node_inv_ProcessHello
      by (auto simp: process_message_def inv_intros split: if_splits msg_body.splits)
    have "dups nd1 = dups nd0" using nd1 dups_process_message by (auto split: if_splits)
    then have "?dup = FindDuplicateTuple (m_originatorAddress m) (m_messageSequenceNumber m) (nd_state nd1)"
      by (simp add: FindDuplicateTuple_def)
    then show ?thesis using nd' inv1 node_inv_ForwardDefault by auto
  qed
qed

lemma node_inv_RecvOlsr:
  assumes "RecvOlsr now i sender port bytes nd = Inr nd'" "node_inv nd"
  shows "node_inv nd'"
proof -
  consider "nd' = nd"
    | ri ms nd1 where "foldE (recv_message now ri sender) ms nd = Inr nd1" "RoutingTableComputation now nd1 = Inr nd'"
    using assms(1) by (auto simp: RecvOlsr_def res_simps split: if_splits)
  then show ?thesis
  proof cases
    case 2
    have "node_inv nd1"
      by (rule foldE_invariant [where P = node_inv, OF 2(1) assms(2)]) (rule node_inv_recv_message)
    then show ?thesis using node_inv_shrinks shrinks_RoutingTableComputation [OF 2(2)] by blast
  qed (use assms(2) in simp)
qed

section \<open>Timers\<close>

definition inv_except :: "event \<Rightarrow> node \<Rightarrow> bool" where
  "inv_except e nd \<longleftrightarrow> distinct (live_keys (nd_state nd)) \<and> set (live_keys (nd_state nd)) - {e} \<subseteq> pending nd"

lemma inv_except_shrinks: "inv_except e nd \<Longrightarrow> shrinks nd nd' \<Longrightarrow> inv_except e nd'"
  unfolding inv_except_def shrinks_def
  by (metis Diff_mono distinct_nthsI order_refl order_trans set_nths_subset subseq_conv_nths)

lemma inv_except_scheduled: "inv_except e nd \<Longrightarrow> e \<in> pending nd \<Longrightarrow> node_inv nd"
  by (auto simp: inv_except_def node_inv_def)

lemma inv_except_gone: "inv_except e nd \<Longrightarrow> e \<notin> set (live_keys (nd_state nd)) \<Longrightarrow> node_inv nd"
  by (auto simp: inv_except_def node_inv_def)

lemma inv_except_popped:
  "node_inv nd \<Longrightarrow> inv_except e (nd\<lparr>nd_events := remove1 (t, e) (nd_events nd)\<rparr>)"
proof -
  assume inv: "node_inv nd"
  have "snd ` set evs - {e} \<subseteq> snd ` set (remove1 (t, e) evs)" for evs :: "(time \<times> event) list"
    by (induction evs) auto
  from this [of "nd_events nd"] inv show ?thesis
    unfolding inv_except_def node_inv_def pending_def by simp blast
qed

lemma shrinks_remove [shrink_intros]:
  "shrinks nd (RemoveMprSelectorTuple a nd)" "shrinks nd (RemoveTopologyTuple b nd)"
  "shrinks nd (RemoveDuplicateTuple c nd)" "shrinks nd (RemoveAssociationTuple d nd)"
  "shrinks nd (RemoveTwoHopNeighborTuple e nd)" "shrinks nd (RemoveIfaceAssocTuple f nd)"
  "shrinks nd (RemoveLinkTuple l nd)"
  unfolding RemoveMprSelectorTuple_def RemoveTopologyTuple_def RemoveDuplicateTuple_def
    RemoveAssociationTuple_def RemoveTwoHopNeighborTuple_def RemoveIfaceAssocTuple_def RemoveLinkTuple_def
  by (intro shrinks_erase shrinks_trans [OF shrinks_erase(1) shrinks_IncrementAnsn]
      shrinks_trans [OF shrinks_other shrinks_erase(6)] shrinks_other; simp)+

lemma distinct_live_keys:
  assumes "distinct (live_keys s)"
  shows "distinct (map lt_neighborIfaceAddr (m_linkSet s))" "distinct (map ms_mainAddr (m_mprSelectorSet s))"
    "distinct (map (\<lambda>t. (tt_destAddr t, tt_lastAddr t)) (m_topologySet s))"
    "distinct (map (\<lambda>t. (dt_address t, dt_sequenceNumber t)) (m_duplicateSet s))"
    "distinct (map (\<lambda>t. (at_gatewayAddr t, at_networkAddr t, at_netmask t)) (m_associationSet s))"
  using assms by (auto simp: live_keys_def distinct_map inj_on_def)

text \<open>A handler of the contract \<open>expiring_repo\<close> run for a popped timer restores the invariant.\<close>

context expiring_repo
begin

lemma handler_shrinks: "(\<And>t nd. shrinks nd (remove t nd)) \<Longrightarrow> shrinks nd (handler now k nd)"
  by (auto simp: handler_eq intro: shrinks_schedule split: option.split)

lemma handler_restores:
  assumes "inv_except (timer k) nd" "\<And>t nd. shrinks nd (remove t nd)"
    and "distinct (map key (tuples (nd_state nd)))"
    and "\<And>s. find k s = None \<Longrightarrow> timer k \<notin> set (live_keys s)"
  shows "node_inv (handler now k nd)"
proof -
  have ex: "inv_except (timer k) (handler now k nd)"
    by (rule inv_except_shrinks [OF assms(1) handler_shrinks [OF assms(2)]])
  show ?thesis
  proof (cases "find k (nd_state nd)")
    case None
    then show ?thesis using inv_except_gone [OF ex assms(4)] by (simp add: handler_eq)
  next
    case (Some t)
    show ?thesis
    proof (cases "expiry t < now")
      case True
      then show ?thesis using expired_removed [OF assms(3) Some True] inv_except_gone [OF ex assms(4)] by simp
    next
      case False
      then show ?thesis using live_rescheduled [OF Some False] inv_except_scheduled [OF ex] by simp
    qed
  qed
qed

end

lemma node_inv_link_timer:
  assumes "inv_except (Link_timer a) nd" "LinkTupleTimerExpire now a nd = Inr nd'"
  shows "node_inv nd'"
proof (cases "FindLinkTuple a (nd_state nd)")
  case None
  then show ?thesis using assms inv_except_gone [OF assms(1) find_absent_key(1)]
    by (simp add: LinkTupleTimerExpire_def)
next
  case (Some t)
  then have t: "t \<in> set (m_linkSet (nd_state nd))" "lt_neighborIfaceAddr t = a"
    using link.find_present by auto
  consider (removed) "nd' = RemoveLinkTuple t nd"
    | (lost) nd1 d where "shrinks nd nd1" "nd' = schedule now d (Link_timer a) nd1"
  proof (cases "lt_time t \<ge> now \<and> lt_symTime t < now")
    case True
    then obtain nd1 where nd1: "(if nd_linkTupleTimerFirstTime nd
        then Inr (nd\<lparr>nd_linkTupleTimerFirstTime := False\<rparr>) else NeighborLoss now t nd) = Inr nd1"
      "nd' = schedule now (DELAY now (lt_time t)) (Link_timer a) nd1"
      using assms(2) Some by (auto simp: LinkTupleTimerExpire_def res_simps)
    moreover have "shrinks nd nd1"
      using nd1(1) shrinks_NeighborLoss by (auto intro: shrinks_same split: if_splits)
    ultimately show ?thesis using lost by blast
  next
    case False
    then show ?thesis using assms(2) Some removed lost [OF shrinks_refl]
      by (auto simp: LinkTupleTimerExpire_def split: if_splits)
  qed
  then show ?thesis
  proof cases
    case removed
    let ?s = "EraseNeighborTupleAddr (GetMainAddress (lt_neighborIfaceAddr t) (nd_state nd)) (nd_state nd)"
    have "distinct (map lt_neighborIfaceAddr (m_linkSet ?s))" "t \<in> set (m_linkSet ?s)"
      using distinct_live_keys(1) assms(1) t(1) by (simp_all add: inv_except_def neighbor_defs)
    from link.find_erase_same [OF this] t(2) have "FindLinkTuple a (nd_state nd') = None"
      by (simp add: removed RemoveLinkTuple_def)
    then show ?thesis
      using inv_except_gone [OF inv_except_shrinks [OF assms(1) shrinks_remove(7)] find_absent_key(1)] removed by simp
  next
    case lost
    then have "shrinks nd nd'" using shrinks_trans shrinks_schedule by blast
    then show ?thesis using inv_except_scheduled [OF inv_except_shrinks [OF assms(1)]] lost(2) by simp
  qed
qed

lemma node_inv_fire:
  assumes "fire now e nd = Inr nd'" "node_inv nd"
  shows "node_inv nd'"
proof -
  define nd0 where "nd0 = nd\<lparr>nd_events := remove1 (now, e) (nd_events nd)\<rparr>"
  have ex: "inv_except e nd0" unfolding nd0_def by (rule inv_except_popped [OF assms(2)])
  then have d: "distinct (live_keys (nd_state nd0))" by (simp add: inv_except_def)
  have nd': "expire now e nd0 = Inr nd'" using assms(1) by (simp add: fire_def nd0_def)
  have gone: "node_inv nd1" if "shrinks nd0 nd1" "\<And>s. e \<notin> set (live_keys s)" for nd1
    using inv_except_gone [OF inv_except_shrinks [OF ex that(1)] that(2)] .
  show ?thesis
  proof (cases e)
    case (Link_timer a)
    then show ?thesis using node_inv_link_timer ex nd' by simp
  next
    case (Nb2hop_timer n h)
    have "shrinks nd0 (Nb2hopTupleTimerExpire now n h nd0)"
      using twohop_timer.handler_shrinks [of nd0 now "(n, h)"] shrinks_remove(5) by simp
    then show ?thesis using gone nd' Nb2hop_timer by (auto simp: live_keys_def)
  next
    case (MprSel_timer a)
    then show ?thesis
      using mprsel_timer.handler_restores [of a nd0 now] ex nd' shrinks_remove(1) distinct_live_keys(2) [OF d]
        find_absent_key(2) by simp
  next
    case (Topology_timer a b)
    then show ?thesis
      using topo_timer.handler_restores [of "(a, b)" nd0 now] ex nd' shrinks_remove(2) distinct_live_keys(3) [OF d]
        find_absent_key(3) by simp
  next
    case (IfaceAssoc_timer a)
    have "shrinks nd0 (IfaceAssocTupleTimerExpire now a nd0)"
      by (rule ifassoc_timer.handler_shrinks [OF shrinks_remove(6)])
    then show ?thesis using gone nd' IfaceAssoc_timer by (auto simp: live_keys_def)
  next
    case (Association_timer a b c)
    then show ?thesis
      using hna_timer.handler_restores [of "(a, b, c)" nd0 now] ex nd' shrinks_remove(4) distinct_live_keys(5) [OF d]
        find_absent_key(5) by simp
  next
    case (Dup_timer a q)
    then show ?thesis
      using dup_timer.handler_restores [of "(a, q)" nd0 now] ex nd' shrinks_remove(3) distinct_live_keys(4) [OF d]
        find_absent_key(4) by simp
  qed
qed

section \<open>Sending and data packets\<close>

definition same_info :: "node \<Rightarrow> node \<Rightarrow> bool" where
  "same_info nd nd' \<longleftrightarrow> nd_state nd' = nd_state nd \<and> nd_events nd' = nd_events nd"

lemma same_info_refl [simp]: "same_info nd nd"
  by (simp add: same_info_def)

lemma same_info_trans: "same_info a b \<Longrightarrow> same_info b c \<Longrightarrow> same_info a c"
  by (simp add: same_info_def)

lemma node_inv_same_info: "node_inv nd \<Longrightarrow> same_info nd nd' \<Longrightarrow> node_inv nd'"
  by (simp add: same_info_def node_inv_def pending_def)

lemma same_info_SendPacket: "SendPacket p nd = Inr nd' \<Longrightarrow> same_info nd nd'"
proof -
  assume a: "SendPacket p nd = Inr nd'"
  then obtain bs where "foldE (broadcast bs) (nd_sendSockets nd)
      (snd (GetPacketSequenceNumber nd)) = Inr nd'"
    by (auto simp: SendPacket_def GetPacketSequenceNumber_def Let_def)
  then have "same_info nd nd'"
    by (rule foldE_invariant [where P = "same_info nd"])
      (auto simp: broadcast_def res_simps same_info_def GetPacketSequenceNumber_def Let_def)
  then show ?thesis .
qed

lemma same_info_SendQueuedMessages: "SendQueuedMessages nd = Inr nd' \<Longrightarrow> same_info nd nd'"
proof -
  assume "SendQueuedMessages nd = Inr nd'"
  then obtain p k nd1 nd2 where
    f: "foldE pack_message (nd_queuedMessages nd) ([], 0, nd) = Inr (p, k, nd1)" and
    s: "(if p \<noteq> [] then SendPacket p nd1 else Inr nd1) = Inr nd2" and
    nd': "nd' = nd2\<lparr>nd_queuedMessages := []\<rparr>"
    by (auto simp: SendQueuedMessages_def res_simps)
  have "same_info nd (snd (snd (p, k, nd1)))"
    by (rule foldE_invariant [where P = "\<lambda>x. same_info nd (snd (snd x))", OF f])
      (auto simp: pack_message_def Let_def res_simps split: if_splits
        intro: same_info_trans [OF _ same_info_SendPacket])
  moreover have "same_info nd1 nd2" using s same_info_SendPacket by (auto split: if_splits)
  ultimately show ?thesis using same_info_trans by (fastforce simp: nd' same_info_def)
qed

lemma same_info_new_message: "new_message v ttl b nd = Inr (m, nd') \<Longrightarrow> same_info nd nd'"
  by (auto simp: new_message_def GetMessageSequenceNumber_def Let_def res_simps same_info_def)

lemma same_info_queue: "same_info nd (queue_jittered now m nd)"
  by (simp add: queue_jittered_def JITTER_def QueueMessage_def Let_def same_info_def)

lemma same_info_Send:
  "SendHello now nd = Inr nd' \<Longrightarrow> same_info nd nd'"
  "SendTc now nd = Inr nd' \<Longrightarrow> same_info nd nd'"
  "SendMid now nd = Inr nd' \<Longrightarrow> same_info nd nd'"
  "SendHna now nd = Inr nd' \<Longrightarrow> same_info nd nd'"
proof -
  have q: "same_info nd (queue_jittered now m nd1)" if "new_message v ttl b nd = Inr (m', nd1)" for v ttl b m m' nd1
    using same_info_new_message [OF that] same_info_queue same_info_trans by blast
  have poison: "same_info nd1 (poison_ansn nd1)" for nd1 by (simp add: poison_ansn_def same_info_def)
  show "SendHello now nd = Inr nd' \<Longrightarrow> same_info nd nd'"
    by (auto simp: SendHello_def Let_def res_simps dest: q)
  show "SendTc now nd = Inr nd' \<Longrightarrow> same_info nd nd'"
    by (auto simp: SendTc_def res_simps dest!: same_info_new_message
        intro: same_info_trans [OF same_info_trans [OF _ poison] same_info_queue])
  show "SendMid now nd = Inr nd' \<Longrightarrow> same_info nd nd'"
    by (auto simp: SendMid_def res_simps split: if_splits dest: q)
  show "SendHna now nd = Inr nd' \<Longrightarrow> same_info nd nd'"
    by (auto simp: SendHna_def Let_def res_simps split: if_splits dest: q same_info_new_message)
qed

lemma same_info_timers:
  "HelloTimerExpire now nd = Inr nd' \<Longrightarrow> same_info nd nd'"
  "TcTimerExpire now nd = Inr nd' \<Longrightarrow> same_info nd nd'"
  "MidTimerExpire now nd = Inr nd' \<Longrightarrow> same_info nd nd'"
  "HnaTimerExpire now nd = Inr nd' \<Longrightarrow> same_info nd nd'"
  by (auto simp: HelloTimerExpire_def TcTimerExpire_def MidTimerExpire_def HnaTimerExpire_def
      restart_def res_simps same_info_def dest!: same_info_Send split: if_splits)

lemma same_info_on_defense: "same_info nd (on_defense f nd)"
  by (simp add: same_info_def on_defense_def)

lemma same_info_RouteOutput: "RouteOutput now uid dst oif nd = Inr (r, nd') \<Longrightarrow> same_info nd nd'"
  by (auto simp: RouteOutput_def packet_forwarded_def res_simps same_info_on_defense
      split: option.splits if_splits)

lemma same_info_RouteInput: "RouteInput now cfg lcb uid o' dst idev nd = Inr (v, nd') \<Longrightarrow> same_info nd nd'"
  by (auto simp: RouteInput_def packet_forwarded_def res_simps same_info_on_defense
      split: option.splits if_splits)

section \<open>Steps\<close>

lemma same_info_hna:
  "same_info nd (nd\<lparr>nd_helloTimer := t\<rparr>)" "same_info nd (nd\<lparr>nd_tcTimer := t\<rparr>)"
  "same_info nd (nd\<lparr>nd_midTimer := t\<rparr>)" "same_info nd (nd\<lparr>nd_hnaTimer := t\<rparr>)"
  "same_info nd (nd\<lparr>nd_queuedMessagesTimer := t\<rparr>)" "same_info nd (nd\<lparr>nd_defenseTimer := t\<rparr>)"
  by (simp_all add: same_info_def)

lemma shrinks_hna:
  "shrinks nd (AddHostNetworkAssociation n m nd)" "shrinks nd (RemoveHostNetworkAssociation n m nd)"
  "shrinks nd (SetRoutingTableAssociation rs nd)"
proof -
  have add: "shrinks nd (AddHostNetworkAssociation n m nd)" for n m nd
    unfolding AddHostNetworkAssociation_def by (auto intro: shrinks_other)
  have rem: "shrinks nd (RemoveHostNetworkAssociation n m nd)" for n m nd
    unfolding RemoveHostNetworkAssociation_def by (rule shrinks_other) simp
  have put: "shrinks nd1 (nd1\<lparr>nd_routingTableAssociation := x\<rparr>)" for nd1 x
    by (rule shrinks_same) simp_all
  have adds: "shrinks nd1 (fold (\<lambda>r nd. if UsesNonOlsrOutgoingInterface r nd
      then AddHostNetworkAssociation (sr_dest r) (sr_mask r) nd else nd) rs nd1)" for nd1
    by (rule shrinks_fold) (simp add: add)
  have rems: "shrinks nd (fold (\<lambda>r nd. if UsesNonOlsrOutgoingInterface r nd
      then RemoveHostNetworkAssociation (sr_dest r) (sr_mask r) nd else nd) old nd)" for old
    by (rule shrinks_fold) (simp add: rem)
  show "shrinks nd (AddHostNetworkAssociation n m nd)" "shrinks nd (RemoveHostNetworkAssociation n m nd)"
    by (rule add, rule rem)
  show "shrinks nd (SetRoutingTableAssociation rs nd)"
    unfolding SetRoutingTableAssociation_def Let_def
    by (cases "nd_routingTableAssociation nd")
      (auto intro: shrinks_trans [OF put adds] shrinks_trans [OF shrinks_trans [OF rems put] adds])
qed

lemma same_info_HandleDefenseTimer: "HandleDefenseTimer now nd = Inr nd' \<Longrightarrow> same_info nd nd'"
  by (auto simp: HandleDefenseTimer_def restart_def on_defense_def same_info_def Let_def
      split: option.splits if_splits)

lemma node_inv_step:
  assumes "node_step now i nd = Inr nd'" "node_inv nd"
  shows "node_inv nd'"
proof (cases i)
  case (Receive x1 x2 x3 x4)
  then show ?thesis using assms node_inv_RecvOlsr by simp
next
  case (Tuple_timer e)
  then show ?thesis using assms node_inv_fire by simp
next
  case Hello_timer
  then show ?thesis using assms same_info_timers(1) same_info_hna(1) same_info_trans node_inv_same_info
    by (metis node_step.simps(3))
next
  case Tc_timer
  then show ?thesis using assms same_info_timers(2) same_info_hna(2) same_info_trans node_inv_same_info
    by (metis node_step.simps(4))
next
  case Mid_timer
  then show ?thesis using assms same_info_timers(3) same_info_hna(3) same_info_trans node_inv_same_info
    by (metis node_step.simps(5))
next
  case Hna_timer
  then show ?thesis using assms same_info_timers(4) same_info_hna(4) same_info_trans node_inv_same_info
    by (metis node_step.simps(6))
next
  case Queue_timer
  then show ?thesis using assms same_info_SendQueuedMessages same_info_hna(5) same_info_trans node_inv_same_info
    by (metis node_step.simps(7))
next
  case Defense_timer
  then show ?thesis using assms same_info_HandleDefenseTimer same_info_hna(6) same_info_trans node_inv_same_info
    by (metis node_step.simps(8))
next
  case (Send_packet u d o')
  then obtain r where "RouteOutput now u d o' nd = Inr (r, nd')" using assms(1) by (auto simp: drop_snd_def res_simps)
  then show ?thesis using same_info_RouteOutput node_inv_same_info assms(2) by blast
next
  case (Transit_packet c l u o' d v)
  then obtain r where "RouteInput now c l u o' d v nd = Inr (r, nd')"
    using assms(1) by (auto simp: drop_snd_def res_simps)
  then show ?thesis using same_info_RouteInput node_inv_same_info assms(2) by blast
next
  case (Add_hna n m)
  then show ?thesis using assms shrinks_hna node_inv_shrinks by auto
next
  case (Remove_hna n m)
  then show ?thesis using assms shrinks_hna node_inv_shrinks by auto
next
  case (Set_hna_table rs)
  then show ?thesis using assms shrinks_hna node_inv_shrinks by auto
qed (use assms in \<open>auto simp: on_defense_def MonitorSnifferRx_def MacTxDrop_def OnLocalRxDrop_def
      ReactivateDefenseStrategy_def Let_def node_inv_def pending_def split: wifi_frame.splits option.splits if_splits\<close>)

lemma same_keys_init_interface:
  assumes "foldE init_interface xs (nd, b) = Inr (nd', b')"
  shows "live_keys (nd_state nd') = live_keys (nd_state nd) \<and> nd_events nd' = nd_events nd"
proof -
  have "live_keys (nd_state (fst (nd', b'))) = live_keys (nd_state nd) \<and> nd_events (fst (nd', b')) = nd_events nd"
    by (rule foldE_invariant [OF assms, where P = "\<lambda>p. live_keys (nd_state (fst p)) = live_keys (nd_state nd) \<and>
      nd_events (fst p) = nd_events nd"])
      (auto simp: init_interface_def Let_def AddIfaceAssocTuple_def res_simps split: list.splits if_splits)
  then show ?thesis by simp
qed

lemma node_inv_DoInitialize:
  assumes "DoInitialize t myMac (SetIpv4 ifaces nd0) = Inr nd" "nd_state nd0 = OlsrState_init" "nd_events nd0 = []"
  shows "node_inv nd"
proof -
  let ?nd = "SetIpv4 ifaces nd0"
  from assms(1) obtain nd1 nd2 b nd3 where
    start: "(if nd_mainAddress ?nd = ipv4_any
            then bindR (pick_main (nd_ifaces ?nd)) (\<lambda>a. assertR (a \<noteq> ipv4_any) (Inr (?nd\<lparr>nd_mainAddress := a\<rparr>)))
            else Inr ?nd) = Inr nd1" and
    nd2: "foldE init_interface (enumerate 0 (nd_ifaces nd1)) (nd1, False) = Inr (nd2, b)" and
    nd3: "start_defense t myMac nd2 = Inr nd3" and
    r: "(if b then bindR (HelloTimerExpire t nd3) (\<lambda>nd. bindR (TcTimerExpire t nd) (\<lambda>nd.
          bindR (MidTimerExpire t nd) (HnaTimerExpire t))) else Inr nd3) = Inr nd"
    unfolding DoInitialize_def by (auto simp only: bindR_eq_Inr split_paired_Ex case_prod_conv)
  have nd1: "nd_state nd1 = OlsrState_init" "nd_events nd1 = []"
    using start assms(2,3) by (auto simp: SetIpv4_def res_simps split: if_splits)
  have "node_inv nd2"
    using same_keys_init_interface [OF nd2] nd1
    by (simp add: node_inv_def live_keys_def OlsrState_init_def)
  moreover have "same_info nd2 nd3" using nd3
    by (auto simp: start_defense_def restart_def same_info_def on_defense_def split: option.splits if_splits)
  moreover have "same_info nd3 nd"
    using r by (auto simp: res_simps split: if_splits dest!: same_info_timers intro: same_info_trans)
  ultimately show ?thesis using node_inv_same_info by blast
qed

lemma node_run_inv: "node_run t nd \<Longrightarrow> node_inv nd"
  by (induction rule: node_run.induct) (use node_inv_DoInitialize node_inv_step in blast)+

section \<open>Properties\<close>

text \<open>
  C3: at every moment of every run, whatever packets, timers, attacks and defense events it has
  seen, a node holds at most one tuple per key in its link, MPR selector, topology, duplicate and HNA
  association sets, and the expiration timer of each tuple of these five sets is pending. (Neighbor
  tuples have no timer; a 2-hop tuple can lack one, as \<open>two_hop_timer_orphaned\<close> shows.)
\<close>

theorem tuples_have_timers:
  assumes "node_run t nd"
  shows "let s = nd_state nd; timer = (\<lambda>e. \<exists>due. (due, e) \<in> set (nd_events nd)) in
    distinct (map lt_neighborIfaceAddr (m_linkSet s)) \<and>
    distinct (map ms_mainAddr (m_mprSelectorSet s)) \<and>
    distinct (map (\<lambda>t. (tt_destAddr t, tt_lastAddr t)) (m_topologySet s)) \<and>
    distinct (map (\<lambda>t. (dt_address t, dt_sequenceNumber t)) (m_duplicateSet s)) \<and>
    distinct (map (\<lambda>t. (at_gatewayAddr t, at_networkAddr t, at_netmask t)) (m_associationSet s)) \<and>
    (\<forall>t\<in>set (m_linkSet s). timer (Link_timer (lt_neighborIfaceAddr t))) \<and>
    (\<forall>t\<in>set (m_mprSelectorSet s). timer (MprSel_timer (ms_mainAddr t))) \<and>
    (\<forall>t\<in>set (m_topologySet s). timer (Topology_timer (tt_destAddr t) (tt_lastAddr t))) \<and>
    (\<forall>t\<in>set (m_duplicateSet s). timer (Dup_timer (dt_address t) (dt_sequenceNumber t))) \<and>
    (\<forall>t\<in>set (m_associationSet s).
       timer (Association_timer (at_gatewayAddr t) (at_networkAddr t) (at_netmask t)))"
proof -
  have inv: "node_inv nd" by (rule node_run_inv [OF assms])
  then have d: "distinct (live_keys (nd_state nd))" by (simp add: node_inv_def)
  have p: "(\<exists>due. (due, e) \<in> set (nd_events nd)) \<longleftrightarrow> e \<in> pending nd" for e
    by (force simp: pending_def)
  have k: "e \<in> pending nd" if "e \<in> set (live_keys (nd_state nd))" for e
    using inv that by (auto simp: node_inv_def)
  show ?thesis
    unfolding Let_def p using distinct_live_keys [OF d] by (auto intro!: k simp: live_keys_def)
qed

text \<open>
  A run: a node with address 1 starts and receives one packet from its neighbor 2, with a HELLO
  that lists the node and a neighbor 3, and a MID of the node 5 that declares 3 as its interface.
\<close>

definition example_start :: "node res" where
  "example_start = DoInitialize 0 None
     (SetIpv4 [[(ipv4_loopback, 0xff000000)], [(1, 0xffffff00)]] (RoutingProtocol_init (\<lambda>_. 0)))"

definition example_packet :: "u8 list" where
  "example_packet =
     [0, 52, 0, 1,
      1, 134, 0, 32, 0, 0, 0, 2, 1, 0, 0, 1, 0, 0, 5, 3, 5, 0, 0, 8, 0, 0, 0, 1, 6, 0, 0, 8, 0, 0, 0, 3,
      3, 134, 0, 16, 0, 0, 0, 5, 5, 1, 0, 9, 0, 0, 0, 3]"

definition example_received :: "node res" where
  "example_received = bindR example_start (node_step second (Receive 1 2 698 example_packet))"

lemma example_received_state:
  "case example_received of
     Inl _ \<Rightarrow> False
   | Inr nd \<Rightarrow> map lt_neighborIfaceAddr (m_linkSet (nd_state nd)) = [2] \<and>
       map (\<lambda>t. (th_neighborMainAddr t, th_twoHopNeighborAddr t)) (m_twoHopNeighborSet (nd_state nd)) = [(2, 5)] \<and>
       map snd (nd_events nd) = [Link_timer 2, Nb2hop_timer 2 3, IfaceAssoc_timer 3, Dup_timer 5 9]"
  by code_simp

lemma example_received_run:
  obtains nd where "node_run second nd" "map lt_neighborIfaceAddr (m_linkSet (nd_state nd)) = [2]"
    "map (\<lambda>t. (th_neighborMainAddr t, th_twoHopNeighborAddr t)) (m_twoHopNeighborSet (nd_state nd)) = [(2, 5)]"
    "map snd (nd_events nd) = [Link_timer 2, Nb2hop_timer 2 3, IfaceAssoc_timer 3, Dup_timer 5 9]"
proof (cases example_received)
  case (Inl e)
  from example_received_state have False unfolding Inl sum.case .
  then show ?thesis ..
next
  case r: (Inr nd)
  note s = example_received_state [unfolded r sum.case]
  from r obtain nd1 where start: "example_start = Inr nd1" and
    step: "node_step second (Receive 1 2 698 example_packet) nd1 = Inr nd"
    unfolding example_received_def bindR_eq_Inr by blast
  have "node_run 0 nd1"
    by (rule node_started [OF _ _ start [unfolded example_start_def]]) (simp_all add: RoutingProtocol_init_def)
  then have "node_run second nd"
    by (rule node_steps [OF _ _ _ step]) (simp_all add: second_def)
  with s show ?thesis by (elim conjE) (rule that)
qed

lemma map_singleton: "map f xs = [y] \<Longrightarrow> \<exists>x\<in>set xs. f x = y"
  by auto

theorem tuples_have_timers_witness:
  "\<exists>nd l due. node_run second nd \<and> l \<in> set (m_linkSet (nd_state nd)) \<and>
     (due, Link_timer (lt_neighborIfaceAddr l)) \<in> set (nd_events nd)"
proof -
  obtain nd where nd: "node_run second nd" "map lt_neighborIfaceAddr (m_linkSet (nd_state nd)) = [2]"
    by (rule example_received_run)
  obtain l where "l \<in> set (m_linkSet (nd_state nd))" using map_singleton [OF nd(2)] by blast
  with tuples_have_timers [OF nd(1)] nd(1) show ?thesis unfolding Let_def by blast
qed

text \<open>
  A 2-hop tuple can be without an expiration timer. A MID message renames the addresses of the
  2-hop tuples, which are the keys of their timers, without scheduling new ones; so a run reaches a
  state with a 2-hop tuple for whose addresses no timer is pending. The end of its
  validity does not remove such a tuple; the loss of its neighbor does.
\<close>

theorem two_hop_timer_orphaned:
  "\<exists>t nd x. node_run t nd \<and> x \<in> set (m_twoHopNeighborSet (nd_state nd)) \<and>
     Nb2hop_timer (th_neighborMainAddr x) (th_twoHopNeighborAddr x) \<notin> snd ` set (nd_events nd)"
proof -
  obtain nd where nd: "node_run second nd"
    "map (\<lambda>t. (th_neighborMainAddr t, th_twoHopNeighborAddr t)) (m_twoHopNeighborSet (nd_state nd)) = [(2, 5)]"
    "map snd (nd_events nd) = [Link_timer 2, Nb2hop_timer 2 3, IfaceAssoc_timer 3, Dup_timer 5 9]"
    by (rule example_received_run)
  obtain x where x: "x \<in> set (m_twoHopNeighborSet (nd_state nd))"
    "(th_neighborMainAddr x, th_twoHopNeighborAddr x) = (2, 5)"
    using map_singleton [OF nd(2)] by blast
  have "Nb2hop_timer 2 5 \<notin> set (map snd (nd_events nd))" unfolding nd(3) by simp
  then have "Nb2hop_timer (th_neighborMainAddr x) (th_twoHopNeighborAddr x) \<notin> snd ` set (nd_events nd)"
    using x(2) by simp
  then show ?thesis using nd(1) x(1) by blast
qed

end
