(* ===== verification/Message_Properties.thy ===== *)
theory Message_Properties
  imports Complex_Main Node_Invariants
begin

text \<open>
  What the message handlers achieve: the topology information after a TC message, the flooding rule
  of \<open>ForwardDefault\<close> inside \<open>RecvOlsr\<close>, the expiration of tuples, and the messages and links with
  which a neighbor stops or misleads the node.
\<close>

section \<open>Topology control\<close>

text \<open>
  One advertised address: the tuple of the originator for it carries the new expiration time, no
  other tuple changes, and an existing one keeps its sequence number.
\<close>

definition tc_inv :: "ipv4 \<Rightarrow> u16 \<Rightarrow> topology_tuple list \<Rightarrow> ipv4 set \<Rightarrow> topology_tuple list \<Rightarrow> bool" where
  "tc_inv orig ansn others dests T \<longleftrightarrow>
     filter (\<lambda>t. tt_lastAddr t \<noteq> orig) T = others \<and>
     (\<forall>t\<in>set T. tt_lastAddr t = orig \<longrightarrow> tt_sequenceNumber t = ansn) \<and>
     (\<forall>d. (\<exists>t\<in>set T. tt_destAddr t = d \<and> tt_lastAddr t = orig) \<longleftrightarrow> d \<in> dests)"

lemma tc_inv_refresh:
  assumes "tc_inv orig ansn others dests T" "find_first (\<lambda>t. tt_destAddr t = a \<and> tt_lastAddr t = orig) T \<noteq> None"
  shows "tc_inv orig ansn others (insert a dests)
    (update_first (\<lambda>t. tt_destAddr t = a \<and> tt_lastAddr t = orig) (\<lambda>t. t\<lparr>tt_expirationTime := e\<rparr>) T)"
proof -
  let ?u = "update_first (\<lambda>t. tt_destAddr t = a \<and> tt_lastAddr t = orig) (\<lambda>t. t\<lparr>tt_expirationTime := e\<rparr>)"
  have keys: "map (\<lambda>t. (tt_destAddr t, tt_lastAddr t, tt_sequenceNumber t)) (?u xs) =
      map (\<lambda>t. (tt_destAddr t, tt_lastAddr t, tt_sequenceNumber t)) xs" for xs :: "topology_tuple list"
    by (rule map_update_first) simp
  have filt: "filter (\<lambda>t. tt_lastAddr t \<noteq> orig) (?u xs) = filter (\<lambda>t. tt_lastAddr t \<noteq> orig) xs" for xs :: "topology_tuple list"
    by (induction xs) auto
  have img: "(\<lambda>t. (tt_destAddr t, tt_lastAddr t, tt_sequenceNumber t)) ` set (?u T) =
      (\<lambda>t. (tt_destAddr t, tt_lastAddr t, tt_sequenceNumber t)) ` set T"
    using arg_cong [OF keys [of T], of set] by simp
  have ex: "(\<exists>t\<in>set (?u T). P (tt_destAddr t) (tt_lastAddr t) (tt_sequenceNumber t)) \<longleftrightarrow>
      (\<exists>t\<in>set T. P (tt_destAddr t) (tt_lastAddr t) (tt_sequenceNumber t))" for P
    using arg_cong [OF img, of "\<lambda>S. \<exists>(d, l, q)\<in>S. P d l q"] by simp
  have "(\<exists>t\<in>set (?u T). tt_destAddr t = d \<and> tt_lastAddr t = orig) \<longleftrightarrow>
      (\<exists>t\<in>set T. tt_destAddr t = d \<and> tt_lastAddr t = orig)" for d
    by (rule ex [of "\<lambda>d' l q. d' = d \<and> l = orig"])
  moreover have "\<forall>t\<in>set (?u T). tt_lastAddr t = orig \<longrightarrow> tt_sequenceNumber t = ansn"
    using ex [of "\<lambda>d l q. l = orig \<and> q \<noteq> ansn"] assms(1) by (auto simp: tc_inv_def)
  moreover have "a \<in> dests"
    using assms find_first_SomeD by (force simp: tc_inv_def simp del: find_first_None_iff)
  ultimately show ?thesis using assms(1) filt unfolding tc_inv_def by (simp add: insert_absorb)
qed

lemma tc_address_topology:
  "m_topologySet (nd_state (tc_address now m tc a nd)) =
    (let T = m_topologySet (nd_state nd); orig = m_originatorAddress m in
     if find_first (\<lambda>t. tt_destAddr t = a \<and> tt_lastAddr t = orig) T \<noteq> None
     then update_first (\<lambda>t. tt_destAddr t = a \<and> tt_lastAddr t = orig)
            (\<lambda>t. t\<lparr>tt_expirationTime := now + GetVTime m\<rparr>) T
     else T @ [\<lparr>tt_destAddr = a, tt_lastAddr = orig, tt_sequenceNumber = tc_ansn tc,
                tt_expirationTime = now + GetVTime m\<rparr>])"
  by (auto simp: tc_address_def Let_def FindTopologyTuple_def SetTopologyTuple_def AddTopologyTuple_def
      InsertTopologyTuple_def split: option.split simp del: find_first_None_iff)

lemma tc_address_inv:
  assumes "tc_inv (m_originatorAddress m) (tc_ansn tc) others dests (m_topologySet (nd_state nd))"
  shows "tc_inv (m_originatorAddress m) (tc_ansn tc) others (insert a dests)
    (m_topologySet (nd_state (tc_address now m tc a nd)))"
proof (cases "find_first (\<lambda>t. tt_destAddr t = a \<and> tt_lastAddr t = m_originatorAddress m)
    (m_topologySet (nd_state nd)) = None")
  case True
  then show ?thesis
    using assms by (auto simp: tc_address_topology Let_def tc_inv_def simp del: find_first_None_iff)
next
  case False
  then show ?thesis using tc_inv_refresh [OF assms] by (simp add: tc_address_topology del: find_first_None_iff)
qed

definition refreshed :: "time \<Rightarrow> ipv4 \<Rightarrow> ipv4 \<Rightarrow> olsr_state \<Rightarrow> bool" where
  "refreshed e orig a s \<longleftrightarrow> (\<exists>t. FindTopologyTuple a orig s = Some t \<and> tt_expirationTime t = e)"

lemma tc_address_refreshes:
  "refreshed (now + GetVTime m) (m_originatorAddress m) a (nd_state (tc_address now m tc a nd))"
  by (auto simp: refreshed_def FindTopologyTuple_def tc_address_topology Let_def
      find_first_update_first find_first_append simp del: find_first_None_iff split: option.split)

lemma tc_address_keeps_refreshed:
  assumes "refreshed (now + GetVTime m) (m_originatorAddress m) b (nd_state nd)"
  shows "refreshed (now + GetVTime m) (m_originatorAddress m) b (nd_state (tc_address now m tc a nd))"
proof (cases "a = b")
  case True
  then show ?thesis using tc_address_refreshes by blast
next
  case False
  have "find_first (\<lambda>t. tt_destAddr t = b \<and> tt_lastAddr t = l) (update_first
      (\<lambda>t. tt_destAddr t = a \<and> tt_lastAddr t = l) (\<lambda>t. t\<lparr>tt_expirationTime := e\<rparr>) T) =
    find_first (\<lambda>t. tt_destAddr t = b \<and> tt_lastAddr t = l) T" for l e and T :: "topology_tuple list"
    using False by (induction T) auto
  with assms show ?thesis
    by (auto simp: refreshed_def FindTopologyTuple_def tc_address_topology Let_def
        find_first_append simp del: find_first_None_iff)
qed

lemma tc_fold:
  "tc_inv (m_originatorAddress m) (tc_ansn tc) others dests (m_topologySet (nd_state nd)) \<Longrightarrow>
    (\<forall>a\<in>A. refreshed (now + GetVTime m) (m_originatorAddress m) a (nd_state nd)) \<Longrightarrow>
    tc_inv (m_originatorAddress m) (tc_ansn tc) others (set as \<union> dests)
      (m_topologySet (nd_state (fold (tc_address now m tc) as nd))) \<and>
    (\<forall>a\<in>set as \<union> A. refreshed (now + GetVTime m) (m_originatorAddress m) a
      (nd_state (fold (tc_address now m tc) as nd)))"
proof (induction as arbitrary: nd dests A)
  case (Cons a as)
  show ?case
    using Cons.IH [OF tc_address_inv [OF Cons.prems(1)], of "insert a A"] Cons.prems(2)
      tc_address_refreshes tc_address_keeps_refreshed by simp
qed simp

text \<open>
  C15: a TC message is ignored when it does not come over a symmetric link or when a tuple of its
  originator has a larger sequence number (compared without wrap-around). Otherwise the topology
  tuples of the originator end up with the sequence number of the message, for exactly the
  advertised destinations and those already known under the same number; the advertised ones are
  valid for the validity time of the message; the tuples of other originators stay as they are.
\<close>

theorem tc_processing:
  "let orig = m_originatorAddress m; s = nd_state nd; nd' = ProcessTc now m tc si nd;
       known = (\<lambda>q d. \<exists>t\<in>set (m_topologySet s). tt_destAddr t = d \<and> tt_lastAddr t = orig \<and> tt_sequenceNumber t = q);
       others = filter (\<lambda>t. tt_lastAddr t \<noteq> orig)
   in if FindSymLinkTuple si now s = None \<or> (\<exists>d q. known q d \<and> tc_ansn tc < q) then nd' = nd
      else others (m_topologySet (nd_state nd')) = others (m_topologySet s) \<and>
        (\<forall>t\<in>set (m_topologySet (nd_state nd')). tt_lastAddr t = orig \<longrightarrow> tt_sequenceNumber t = tc_ansn tc) \<and>
        (\<forall>d. (\<exists>t\<in>set (m_topologySet (nd_state nd')). tt_destAddr t = d \<and> tt_lastAddr t = orig) \<longleftrightarrow>
             d \<in> set (neighborAddresses tc) \<or> known (tc_ansn tc) d) \<and>
        (\<forall>d\<in>set (neighborAddresses tc). \<exists>t. FindTopologyTuple d orig (nd_state nd') = Some t \<and>
             tt_expirationTime t = now + GetVTime m)"
proof -
  let ?orig = "m_originatorAddress m" and ?T = "m_topologySet (nd_state nd)"
  let ?known = "\<lambda>q d. \<exists>t\<in>set ?T. tt_destAddr t = d \<and> tt_lastAddr t = ?orig \<and> tt_sequenceNumber t = q"
  let ?nd1 = "on_state (EraseOlderTopologyTuples ?orig (tc_ansn tc)) nd"
  have newer: "FindNewerTopologyTuple ?orig (tc_ansn tc) (nd_state nd) \<noteq> None \<longleftrightarrow> (\<exists>d q. ?known q d \<and> tc_ansn tc < q)"
    by (auto simp: FindNewerTopologyTuple_def)
  show ?thesis
  proof (cases "FindSymLinkTuple si now (nd_state nd) = None \<or> (\<exists>d q. ?known q d \<and> tc_ansn tc < q)")
    case True
    then have "ProcessTc now m tc si nd = nd" unfolding newer [symmetric] by (auto simp: ProcessTc_def)
    then show ?thesis unfolding Let_def if_P [OF True] .
  next
    case False
    have T1: "m_topologySet (nd_state ?nd1) =
        filter (\<lambda>t. \<not> (tt_lastAddr t = ?orig \<and> tt_sequenceNumber t < tc_ansn tc)) ?T"
      by (simp add: EraseOlderTopologyTuples_def erase_all_filter)
    have keep: "tt_sequenceNumber t = tc_ansn tc \<longleftrightarrow> \<not> tt_sequenceNumber t < tc_ansn tc"
      if "t \<in> set ?T" "tt_lastAddr t = ?orig" for t
    proof -
      have "\<not> tc_ansn tc < tt_sequenceNumber t" using False that by blast
      then show ?thesis by auto
    qed
    have "tc_inv ?orig (tc_ansn tc) (filter (\<lambda>t. tt_lastAddr t \<noteq> ?orig) ?T) {d. ?known (tc_ansn tc) d}
        (m_topologySet (nd_state ?nd1))"
      unfolding tc_inv_def T1 using keep by (auto simp: filter_filter intro!: filter_cong)
    moreover have eq: "ProcessTc now m tc si nd = fold (tc_address now m tc) (neighborAddresses tc) ?nd1"
      using False unfolding newer [symmetric] by (auto simp: ProcessTc_def)
    ultimately have r: "tc_inv ?orig (tc_ansn tc) (filter (\<lambda>t. tt_lastAddr t \<noteq> ?orig) ?T)
        (set (neighborAddresses tc) \<union> {d. ?known (tc_ansn tc) d})
        (m_topologySet (nd_state (ProcessTc now m tc si nd)))"
      "\<forall>a\<in>set (neighborAddresses tc). refreshed (now + GetVTime m) ?orig a (nd_state (ProcessTc now m tc si nd))"
      using tc_fold [of m tc _ _ ?nd1 "{}" now "neighborAddresses tc"] by auto
    then show ?thesis unfolding tc_inv_def refreshed_def Let_def if_not_P [OF False] by simp
  qed
qed

theorem tc_processing_witness:
  "let m = \<lparr>m_vTime = 0x86, m_originatorAddress = 4, m_timeToLive = 255, m_hopCount = 1,
            m_messageSequenceNumber = 7, m_messageSize = 0,
            m_message = TC_MESSAGE \<lparr>neighborAddresses = [6], tc_ansn = 3\<rparr>\<rparr>
   in \<exists>t. FindTopologyTuple 6 4 (nd_state (ProcessTc 8 m \<lparr>neighborAddresses = [6], tc_ansn = 3\<rparr> 2 example_node)) = Some t"
proof -
  have "FindSymLinkTuple 2 8 (nd_state example_node) \<noteq> None" "m_topologySet (nd_state example_node) = []"
    by code_simp+
  then show ?thesis
    using tc_processing [of "\<lparr>m_vTime = 0x86, m_originatorAddress = 4, m_timeToLive = 255, m_hopCount = 1,
            m_messageSequenceNumber = 7, m_messageSize = 0,
            m_message = TC_MESSAGE \<lparr>neighborAddresses = [6], tc_ansn = 3\<rparr>\<rparr>" example_node 8
            "\<lparr>neighborAddresses = [6], tc_ansn = 3\<rparr>" 2]
    by (auto simp: Let_def simp del: find_first_None_iff)
qed

section \<open>Flooding\<close>

text \<open>The handlers of a message write the information base, its timers and the ANSN only.\<close>

definition info_only :: "node \<Rightarrow> node \<Rightarrow> bool" where
  "info_only nd nd' \<longleftrightarrow> (\<exists>s e a. nd' = nd\<lparr>nd_state := s, nd_events := e, nd_ansn := a\<rparr>)"

lemma info_only_refl [simp]: "info_only nd nd"
proof -
  have "nd = nd\<lparr>nd_state := nd_state nd, nd_events := nd_events nd, nd_ansn := nd_ansn nd\<rparr>" by simp
  then show ?thesis unfolding info_only_def by blast
qed

lemma info_only_trans:
  assumes "info_only a b" "info_only b c"
  shows "info_only a c"
proof -
  from assms obtain s e n s' e' n' where "b = a\<lparr>nd_state := s, nd_events := e, nd_ansn := n\<rparr>"
    "c = b\<lparr>nd_state := s', nd_events := e', nd_ansn := n'\<rparr>" unfolding info_only_def by blast
  then have "c = a\<lparr>nd_state := s', nd_events := e', nd_ansn := n'\<rparr>" by simp
  then show ?thesis unfolding info_only_def by blast
qed

lemma info_only_base:
  "info_only nd (on_state f nd)" "info_only nd (schedule now d e nd)" "info_only nd (IncrementAnsn nd)"
proof -
  have "nd\<lparr>nd_state := s\<rparr> = nd\<lparr>nd_state := s, nd_events := nd_events nd, nd_ansn := nd_ansn nd\<rparr>"
    "nd\<lparr>nd_events := e\<rparr> = nd\<lparr>nd_state := nd_state nd, nd_events := e, nd_ansn := nd_ansn nd\<rparr>"
    "nd\<lparr>nd_ansn := a\<rparr> = nd\<lparr>nd_state := nd_state nd, nd_events := nd_events nd, nd_ansn := a\<rparr>" for s e a
    by simp_all
  then show "info_only nd (on_state f nd)" "info_only nd (schedule now d e nd)" "info_only nd (IncrementAnsn nd)"
    unfolding info_only_def on_state_def schedule_def IncrementAnsn_def by blast+
qed

lemma info_only_fold: "(\<And>x nd. info_only nd (f x nd)) \<Longrightarrow> info_only nd (fold f xs nd)"
  by (induction xs arbitrary: nd) (auto intro: info_only_trans)

lemma info_only_fields:
  "info_only nd nd' \<Longrightarrow> nd_queuedMessages nd' = nd_queuedMessages nd"
  "info_only nd nd' \<Longrightarrow> nd_mainAddress nd' = nd_mainAddress nd"
  "info_only nd nd' \<Longrightarrow> nd_defense nd' = nd_defense nd"
  by (auto simp: info_only_def)

lemma info_only_steps:
  "info_only nd nd' \<Longrightarrow> info_only nd (on_state f nd')"
  "info_only nd nd' \<Longrightarrow> info_only nd (schedule now d e nd')"
  "info_only nd nd' \<Longrightarrow> info_only nd (IncrementAnsn nd')"
  using info_only_trans info_only_base by blast+

lemma info_only_LinkTupleUpdated:
  "info_only nd (LinkTupleAdded now l w nd)" "info_only nd (LinkTupleUpdated now l w nd)"
  by (auto simp: LinkTupleAdded_def LinkTupleUpdated_def AddNeighborTuple_def Let_def
      split: option.split intro!: info_only_steps)

lemma info_only_LinkSensing: "LinkSensing now m h ri si nd = Inr nd' \<Longrightarrow> info_only nd nd'"
  by (auto simp: LinkSensing_def Let_def res_simps split: option.splits
      intro!: info_only_steps info_only_trans [OF _ info_only_LinkTupleUpdated(1)]
        info_only_trans [OF _ info_only_LinkTupleUpdated(2)])

lemma info_only_ProcessHello: "ProcessHello now m h ri si nd = Inr nd' \<Longrightarrow> info_only nd nd'"
proof -
  have th: "info_only nd (two_hop_address now m nt a nd)" for nt a nd
    by (auto simp: two_hop_address_def AddTwoHopNeighborTuple_def Let_def split: option.split intro!: info_only_steps)
  have sel: "info_only nd (mpr_selector_address now m a nd)" for a nd
    by (auto simp: mpr_selector_address_def AddMprSelectorTuple_def Let_def split: option.split intro!: info_only_steps)
  have "info_only nd (PopulateTwoHopNeighborSet now m h nd)" for nd
    unfolding PopulateTwoHopNeighborSet_def by (rule info_only_fold) (auto intro!: info_only_fold th)
  moreover have "info_only nd (PopulateMprSelectorSet now m h nd)" for nd
    unfolding PopulateMprSelectorSet_def by (rule info_only_fold) (auto intro!: info_only_fold sel)
  moreover have "info_only nd (PopulateNeighborSet m h nd)" for nd
    by (simp add: PopulateNeighborSet_def info_only_base)
  moreover assume "ProcessHello now m h ri si nd = Inr nd'"
  ultimately show ?thesis
    by (auto simp: ProcessHello_def res_simps dest!: info_only_LinkSensing MprComputation_Inr)
      (meson info_only_trans info_only_base(1))
qed

lemma info_only_process_message: "process_message now m ri si nd = Inr nd' \<Longrightarrow> info_only nd nd'"
proof -
  have tc: "info_only nd (tc_address now m t a nd)" for t a nd
    by (auto simp: tc_address_def AddTopologyTuple_def Let_def split: option.split intro!: info_only_steps)
  have mid: "info_only nd (mid_address now m a nd)" for a nd
    by (auto simp: mid_address_def AddIfaceAssocTuple_def Let_def intro!: info_only_steps)
  have hna: "info_only nd (hna_address now m a nd)" for a nd
    by (auto simp: hna_address_def AddAssociationTuple_def Let_def split: option.split intro!: info_only_steps)
  have "info_only nd (ProcessTc now m t si nd)" for t
    by (auto simp: ProcessTc_def intro!: info_only_trans [OF info_only_base(1) info_only_fold] tc)
  moreover have "info_only nd (ProcessMid now m t si nd)" for t
    by (auto simp: ProcessMid_def Let_def intro!: info_only_steps info_only_fold mid)
  moreover have "info_only nd (ProcessHna now m t si nd)" for t
    by (auto simp: ProcessHna_def intro!: info_only_fold hna)
  moreover assume "process_message now m ri si nd = Inr nd'"
  ultimately show ?thesis
    by (auto simp: process_message_def split: msg_body.splits dest: info_only_ProcessHello)
qed

lemma FindDuplicate_Set:
  assumes "FindDuplicateTuple a q s = Some d" "\<And>d. dt_address (f d) = dt_address d \<and> dt_sequenceNumber (f d) = dt_sequenceNumber d"
  shows "FindDuplicateTuple a q (SetDuplicateTuple a q f s) = Some (f d)"
  using assms find_first_update_first [of "\<lambda>it. dt_address it = a \<and> dt_sequenceNumber it = q" f]
  by (simp add: FindDuplicateTuple_def SetDuplicateTuple_def)

text \<open>What \<open>ForwardDefault\<close> does to the queue and to the duplicate record of the message.\<close>

lemma ForwardDefault_effect:
  assumes "dup = FindDuplicateTuple (m_originatorAddress m) (m_messageSequenceNumber m) (nd_state nd)"
    and "nd' = ForwardDefault now m dup li sa nd"
  shows "(nd_queuedMessages nd' = nd_queuedMessages nd \<or>
      nd_queuedMessages nd' = nd_queuedMessages nd @ [m\<lparr>m_timeToLive := m_timeToLive m - 1, m_hopCount := m_hopCount m + 1\<rparr>] \<and>
      m_timeToLive m > 1 \<and> FindSymLinkTuple sa now (nd_state nd) \<noteq> None \<and>
      FindMprSelectorTuple (GetMainAddress sa (nd_state nd)) (nd_state nd) \<noteq> None \<and>
      (\<exists>d. FindDuplicateTuple (m_originatorAddress m) (m_messageSequenceNumber m) (nd_state nd') = Some d \<and>
         dt_retransmitted d)) \<and>
    ((\<exists>d. dup = Some d \<and> dt_retransmitted d) \<longrightarrow> nd' = nd)"
proof -
  define c where "c \<longleftrightarrow> m_timeToLive m > 1 \<and>
      FindMprSelectorTuple (GetMainAddress sa (nd_state nd)) (nd_state nd) \<noteq> None"
  define nd1 where "nd1 = (if c then QueueMessage now (m\<lparr>m_timeToLive := m_timeToLive m - 1, m_hopCount := m_hopCount m + 1\<rparr>)
      (fst (JITTER nd)) (snd (JITTER nd)) else nd)"
  note eq = ForwardDefault_eq [of now m dup li sa nd, folded c_def, folded nd1_def, folded assms(2)]
  have st: "nd_state nd1 = nd_state nd" by (simp add: nd1_def QueueMessage_def JITTER_def Let_def)
  have q1: "nd_queuedMessages nd1 = nd_queuedMessages nd @
      (if c then [m\<lparr>m_timeToLive := m_timeToLive m - 1, m_hopCount := m_hopCount m + 1\<rparr>] else [])"
    by (simp add: nd1_def QueueMessage_def JITTER_def Let_def)
  have sched: "nd_queuedMessages (schedule t d e (AddDuplicateTuple x nd1)) = nd_queuedMessages nd1"
    "nd_queuedMessages (on_state f nd1) = nd_queuedMessages nd1" for t d e x f
    by (simp_all add: schedule_def AddDuplicateTuple_def on_state_def)
  show ?thesis
  proof (cases "FindSymLinkTuple sa now (nd_state nd) = None \<or> (\<exists>d. dup = Some d \<and> dt_retransmitted d)")
    case True
    then have "nd' = nd" using eq by simp
    then show ?thesis by simp
  next
    case False
    note eq' = eq [unfolded if_not_P [OF False]]
    have rec: "\<exists>d. FindDuplicateTuple (m_originatorAddress m) (m_messageSequenceNumber m) (nd_state nd') = Some d \<and>
        dt_retransmitted d = c"
    proof (cases dup)
      case None
      then have "nd' = schedule now OLSR_DUP_HOLD_TIME (Dup_timer (m_originatorAddress m) (m_messageSequenceNumber m))
           (AddDuplicateTuple
              \<lparr>dt_address = m_originatorAddress m, dt_sequenceNumber = m_messageSequenceNumber m,
               dt_retransmitted = c, dt_ifaceList = [li], dt_expirationTime = now + OLSR_DUP_HOLD_TIME\<rparr> nd1)"
        using eq' None by simp
      then show ?thesis using None assms(1) st
        by (simp add: AddDuplicateTuple_def FindDuplicateTuple_def InsertDuplicateTuple_def find_first_append
            del: find_first_None_iff)
    next
      case (Some d)
      then have "nd' = on_state (SetDuplicateTuple (m_originatorAddress m) (m_messageSequenceNumber m)
           (\<lambda>d. d\<lparr>dt_expirationTime := now + OLSR_DUP_HOLD_TIME, dt_retransmitted := c,
                  dt_ifaceList := dt_ifaceList d @ [li]\<rparr>)) nd1"
        using eq' Some by simp
      then show ?thesis
        using FindDuplicate_Set [of "m_originatorAddress m" "m_messageSequenceNumber m" "nd_state nd" d
          "\<lambda>d. d\<lparr>dt_expirationTime := now + OLSR_DUP_HOLD_TIME, dt_retransmitted := c,
                  dt_ifaceList := dt_ifaceList d @ [li]\<rparr>"] assms(1) Some st by simp
    qed
    have "nd_queuedMessages nd' = nd_queuedMessages nd1"
      using eq' sched by (cases dup) simp_all
    then show ?thesis using False q1 rec c_def by (cases c) auto
  qed
qed

text \<open>
  C14: the flooding rule. Receiving a message queues at most one message, the received one with the
  time to live decremented and the hop count incremented, only for a message of another node that is
  no HELLO and has a time to live above 1, and then the duplicate record of the message says that it
  was retransmitted. A copy of a message with such a record changes neither the queue nor the
  duplicate set.
\<close>

theorem flooded_once:
  assumes "recv_message now ri si m nd = Inr nd'"
  shows "(nd_queuedMessages nd' = nd_queuedMessages nd \<or>
      nd_queuedMessages nd' = nd_queuedMessages nd @ [m\<lparr>m_timeToLive := m_timeToLive m - 1, m_hopCount := m_hopCount m + 1\<rparr>] \<and>
      \<not> is_hello m \<and> m_timeToLive m > 1 \<and> m_originatorAddress m \<noteq> nd_mainAddress nd \<and>
      (\<exists>d. FindDuplicateTuple (m_originatorAddress m) (m_messageSequenceNumber m) (nd_state nd') = Some d \<and>
         dt_retransmitted d)) \<and>
    ((\<exists>d. FindDuplicateTuple (m_originatorAddress m) (m_messageSequenceNumber m) (nd_state nd) = Some d \<and>
        dt_retransmitted d) \<longrightarrow>
      nd_queuedMessages nd' = nd_queuedMessages nd \<and> m_duplicateSet (nd_state nd') = m_duplicateSet (nd_state nd))"
proof (cases "m_timeToLive m = 0 \<or> m_originatorAddress m = nd_mainAddress nd")
  case True
  then show ?thesis using assms by (auto simp: recv_message_def)
next
  case False
  let ?dup = "FindDuplicateTuple (m_originatorAddress m) (m_messageSequenceNumber m) (nd_state nd)"
  define nd0 where "nd0 = (if is_hello m then on_defense (defense_OnRecvHello si (nd_state nd)) nd else nd)"
  have nd0: "nd_state nd0 = nd_state nd" "nd_queuedMessages nd0 = nd_queuedMessages nd"
    by (simp_all add: nd0_def on_defense_def)
  obtain nd1 fw where
    nd1: "(if ?dup = None then process_message now m ri si nd0 else Inr nd0) = Inr nd1" and
    nd': "nd' = (if fw \<and> \<not> is_hello m then ForwardDefault now m ?dup ri si nd1 else nd1)"
  proof -
    have "bindR (if ?dup = None then process_message now m ri si nd0 else Inr nd0)
        (\<lambda>nd. Inr (if (case ?dup of None \<Rightarrow> True | Some d \<Rightarrow> ri \<notin> set (dt_ifaceList d)) \<and> \<not> is_hello m
           then ForwardDefault now m ?dup ri si nd else nd)) = Inr nd'"
      using assms unfolding recv_message_def if_not_P [OF False] nd0_def [symmetric] Let_def nd0(1) .
    then show ?thesis unfolding bindR_eq_Inr by (elim exE conjE) (rule that, auto)
  qed
  have q1: "nd_queuedMessages nd1 = nd_queuedMessages nd"
    using nd1 nd0 info_only_fields(1) [OF info_only_process_message] by (auto split: if_splits)
  have d1: "m_duplicateSet (nd_state nd1) = m_duplicateSet (nd_state nd)"
    using nd1 nd0 dups_process_message by (auto split: if_splits)
  then have dup1: "?dup = FindDuplicateTuple (m_originatorAddress m) (m_messageSequenceNumber m) (nd_state nd1)"
    by (simp add: FindDuplicateTuple_def)
  show ?thesis
  proof (cases "fw \<and> \<not> is_hello m")
    case True
    then show ?thesis
      using ForwardDefault_effect [OF dup1 refl, of now ri si] nd' q1 d1 False by auto
  next
    case False
    then show ?thesis using nd' q1 d1 by auto
  qed
qed

definition example_flooded :: MessageHeader where
  "example_flooded = \<lparr>m_vTime = 0x86, m_originatorAddress = 4, m_timeToLive = 5, m_hopCount = 1,
     m_messageSequenceNumber = 7, m_messageSize = 0,
     m_message = TC_MESSAGE \<lparr>neighborAddresses = [6], tc_ansn = 3\<rparr>\<rparr>"

definition example_selected :: node where
  "example_selected = on_state (InsertMprSelectorTuple \<lparr>ms_mainAddr = 2, ms_expirationTime = 9 * second\<rparr>) example_node"

theorem flooded_once_witness:
  "\<exists>nd nd'. recv_message 8 1 2 example_flooded example_selected = Inr nd \<and>
     recv_message 8 1 2 example_flooded nd = Inr nd' \<and> length (nd_queuedMessages nd) = 1 \<and>
     nd_queuedMessages nd' = nd_queuedMessages nd"
proof -
  have run: "case recv_message 8 1 2 example_flooded example_selected of
      Inl _ \<Rightarrow> False
    | Inr nd \<Rightarrow> length (nd_queuedMessages nd) = 1 \<and> (case FindDuplicateTuple 4 7 (nd_state nd) of
          Some d \<Rightarrow> dt_retransmitted d | None \<Rightarrow> False) \<and>
        (case recv_message 8 1 2 example_flooded nd of Inr _ \<Rightarrow> True | Inl _ \<Rightarrow> False)"
    by code_simp
  show ?thesis
  proof (cases "recv_message 8 1 2 example_flooded example_selected")
    case (Inl e)
    then show ?thesis using run by simp
  next
    case (Inr nd)
    from run [unfolded Inr sum.case] obtain d nd' where
      d: "FindDuplicateTuple 4 7 (nd_state nd) = Some d" "dt_retransmitted d" and
      nd': "recv_message 8 1 2 example_flooded nd = Inr nd'" and q: "length (nd_queuedMessages nd) = 1"
      by (auto split: option.splits sum.splits)
    have key: "m_originatorAddress example_flooded = 4" "m_messageSequenceNumber example_flooded = 7"
      by (simp_all add: example_flooded_def)
    show ?thesis using flooded_once [OF nd', unfolded key] d Inr nd' q by blast
  qed
qed

unbundle bit_operations_syntax

section \<open>Links\<close>

lemma GetVTime_pos: "0 < GetVTime m"
proof -
  have "1 / 16 \<le> EmfToSeconds x" for x
  proof -
    have "(1::rat) * 1 \<le> (1 + of_nat a / 16) * 2 ^ b" for a b :: nat
      by (rule mult_mono) auto
    then have "(1 / 16 :: rat) * (1 * 1) \<le> 1 / 16 * ((1 + of_nat (unat (drop_bit 4 x)) / 16) * 2 ^ unat (x AND 0xf))"
      by (rule mult_left_mono) simp
    then show ?thesis by (simp only: EmfToSeconds_def OLSR_C_def Let_def mult.assoc mult_1_right)
  qed
  from mult_right_mono [OF this [of "m_vTime m"], of 1000000000]
  have "(62500000 :: rat) \<le> EmfToSeconds (m_vTime m) * 1000000000" by simp
  then have "round (62500000 :: rat) \<le> GetVTime m"
    unfolding GetVTime_def Seconds_def by (rule round_mono)
  then show ?thesis by simp
qed

lemma sense_addresses_absent:
  "ri \<notin> set as \<Longrightarrow> sense_addresses now vt hold ri lt as p = Inr p"
  by (induction now vt hold ri lt as p rule: sense_addresses.induct) auto

lemma sense_addresses_bad:
  "ri \<in> set as \<Longrightarrow> lt \<noteq> LOST_LINK \<Longrightarrow> lt \<noteq> SYM_LINK \<Longrightarrow> lt \<noteq> ASYM_LINK \<Longrightarrow>
    sense_addresses now vt hold ri lt as p = Inl Fatal_error"
  by (induction now vt hold ri lt as p rule: sense_addresses.induct) auto

lemma sense_message_absent:
  "ri \<notin> set (neighborInterfaceAddresses lm) \<Longrightarrow> sense_message now vt hold ri lm p = Inr p"
  by (simp add: sense_message_def Let_def sense_addresses_absent)

lemma sense_messages_absent:
  "\<forall>lm\<in>set lms. ri \<notin> set (neighborInterfaceAddresses lm) \<Longrightarrow> foldE (sense_message now vt hold ri) lms p = Inr p"
  by (induction lms) (simp_all add: sense_message_absent)

lemma is_helloI: "m_message m = HELLO_MESSAGE h \<Longrightarrow> is_hello m"
  by (simp add: is_hello_def)

text \<open>
  A neighbor can stop the program. A HELLO whose first link message has link type
  \<open>UNSPEC_LINK\<close> and neighbor type \<open>NOT_NEIGH\<close> and lists the address of the receiving interface runs
  into \<open>NS_FATAL_ERROR ("bad link type")\<close> instead of being ignored.
\<close>

theorem bad_link_type_stops:
  assumes "m_message m = HELLO_MESSAGE h" "linkMessages h = lm # lms"
    and "link_type (linkCode lm) = UNSPEC_LINK" "neighbor_type (linkCode lm) = NOT_NEIGH"
    and "ri \<in> set (neighborInterfaceAddresses lm)"
    and "m_timeToLive m \<noteq> 0" "m_originatorAddress m \<noteq> nd_mainAddress nd"
    and "FindDuplicateTuple (m_originatorAddress m) (m_messageSequenceNumber m) (nd_state nd) = None"
  shows "recv_message now ri si m nd = Inl Fatal_error"
proof -
  have "sense_message now vt hold ri lm p = Inl Fatal_error" for vt hold p
    using assms(3-5) by (simp add: sense_message_def sense_addresses_bad link_code_defs)
  then have "LinkSensing now m h ri si nd' = Inl Fatal_error" for nd'
    using GetVTime_pos assms(2) by (simp add: LinkSensing_def Let_def split: option.split)
  then have "process_message now m ri si nd' = Inl Fatal_error" for nd'
    using assms(1) by (simp add: process_message_def ProcessHello_def)
  moreover have "nd_state (if is_hello m then on_defense f nd else nd) = nd_state nd" for f
    by (simp add: on_defense_def)
  ultimately show ?thesis using assms(6-8) by (simp add: recv_message_def Let_def)
qed

theorem bad_link_type_stops_witness:
  "recv_message 8 1 7 \<lparr>m_vTime = 0x86, m_originatorAddress = 7, m_timeToLive = 1, m_hopCount = 0,
     m_messageSequenceNumber = 1, m_messageSize = 0,
     m_message = HELLO_MESSAGE \<lparr>hTime = 5, h_willingness = 3,
       linkMessages = [\<lparr>linkCode = 0, neighborInterfaceAddresses = [1]\<rparr>]\<rparr>\<rparr> example_node = Inl Fatal_error"
proof -
  have s: "nd_mainAddress example_node = 1" "m_duplicateSet (nd_state example_node) = []" by code_simp+
  show ?thesis
    by (rule bad_link_type_stops [where h = "\<lparr>hTime = 5, h_willingness = 3,
          linkMessages = [\<lparr>linkCode = 0, neighborInterfaceAddresses = [1]\<rparr>]\<rparr>" and lm = "\<lparr>linkCode = 0, neighborInterfaceAddresses = [1]\<rparr>" and lms = "[]"])
      (simp_all add: s link_type_def neighbor_type_def link_code_defs FindDuplicateTuple_def)
qed

text \<open>
  A HELLO over a new link that does not list the receiving interface marks its sender as not
  symmetric, even when the node has a symmetric link with the same neighbor over another interface:
  the neighbor tuple is overwritten from the new link alone.
\<close>

theorem new_link_degrades_neighbor:
  assumes "LinkSensing now m h ri si nd = Inr nd'" "FindLinkTuple si (nd_state nd) = None"
    and "\<forall>lm\<in>set (linkMessages h). ri \<notin> set (neighborInterfaceAddresses lm)"
  shows "\<exists>n. FindNeighborTuple (GetMainAddress si (nd_state nd)) (nd_state nd') = Some n \<and>
    nt_status n = STATUS_NOT_SYM \<and> nt_willingness n = h_willingness h"
proof -
  have main: "GetMainAddress si (SetLinkTuple a f (InsertLinkTuple l s)) = GetMainAddress si s" for a f l s
    by (simp add: GetMainAddress_def FindIfaceAssocTuple_def link_defs)
  have past: "\<not> now - second \<ge> now" by (simp add: second_def)
  have find: "FindNeighborTuple a (nd_state (schedule t d e (AddNeighborTuple n nd0))) = Some n"
    if "nt_neighborMainAddr n = a" for a n nd0 t d e
    using that by (simp add: AddNeighborTuple_def InsertNeighborTuple_def FindNeighborTuple_def find_insert_neighbor)
  have "nd' = (let l = \<lparr>lt_localIfaceAddr = ri, lt_neighborIfaceAddr = si, lt_symTime = now - second,
               lt_asymTime = now + GetVTime m, lt_time = max (now + GetVTime m) (now + GetVTime m)\<rparr>
     in schedule now (DELAY now (min (lt_time l) (lt_symTime l))) (Link_timer si)
          (LinkTupleAdded now l (h_willingness h)
            (on_state (SetLinkTuple si (\<lambda>_. l)) (on_state (InsertLinkTuple
               \<lparr>lt_localIfaceAddr = ri, lt_neighborIfaceAddr = si, lt_symTime = now - second,
                lt_asymTime = 0, lt_time = now + GetVTime m\<rparr>) nd))))"
    using assms(1,2) sense_messages_absent [OF assms(3)] by (simp add: LinkSensing_def Let_def res_simps)
  then show ?thesis using find past by (simp add: Let_def LinkTupleAdded_def main)
qed

definition example_two_ifaces :: node where
  "example_two_ifaces = on_state (InsertIfaceAssocTuple \<lparr>ia_ifaceAddr = 12, ia_mainAddr = 2, ia_time = 9 * second\<rparr>)
     example_node"

theorem new_link_degrades_neighbor_witness:
  "\<exists>nd' n. LinkSensing 8 \<lparr>m_vTime = 0x86, m_originatorAddress = 2, m_timeToLive = 1, m_hopCount = 0,
       m_messageSequenceNumber = 1, m_messageSize = 0,
       m_message = HELLO_MESSAGE \<lparr>hTime = 5, h_willingness = 3, linkMessages = []\<rparr>\<rparr>
       \<lparr>hTime = 5, h_willingness = 3, linkMessages = []\<rparr> 1 12 example_two_ifaces = Inr nd' \<and>
     FindNeighborTuple 2 (nd_state nd') = Some n \<and> nt_status n = STATUS_NOT_SYM \<and>
     hasSymmetricLink 8 2 (nd_state nd')"
proof -
  let ?h = "\<lparr>hTime = 5, h_willingness = 3, linkMessages = []\<rparr>"
  let ?m = "\<lparr>m_vTime = 0x86, m_originatorAddress = 2, m_timeToLive = 1, m_hopCount = 0,
       m_messageSequenceNumber = 1, m_messageSize = 0, m_message = HELLO_MESSAGE ?h\<rparr>"
  have run: "case LinkSensing 8 ?m ?h 1 12 example_two_ifaces of Inl _ \<Rightarrow> False
      | Inr nd' \<Rightarrow> hasSymmetricLink 8 2 (nd_state nd')"
    "FindLinkTuple 12 (nd_state example_two_ifaces) = None"
    "GetMainAddress 12 (nd_state example_two_ifaces) = 2"
    by code_simp+
  show ?thesis
  proof (cases "LinkSensing 8 ?m ?h 1 12 example_two_ifaces")
    case (Inl e)
    then show ?thesis using run(1) by simp
  next
    case (Inr nd')
    from new_link_degrades_neighbor [OF this run(2)] run(1) [unfolded Inr] run(3) Inr show ?thesis by auto
  qed
qed

section \<open>Expiration\<close>

text \<open>The expiration time of the tuple that a timer belongs to.\<close>

fun expiry_of :: "event \<Rightarrow> olsr_state \<Rightarrow> time option" where
  "expiry_of (Link_timer a) s = map_option lt_time (FindLinkTuple a s)"
| "expiry_of (Nb2hop_timer n h) s = map_option th_expirationTime (FindTwoHopNeighborTuple n h s)"
| "expiry_of (MprSel_timer a) s = map_option ms_expirationTime (FindMprSelectorTuple a s)"
| "expiry_of (Topology_timer d l) s = map_option tt_expirationTime (FindTopologyTuple d l s)"
| "expiry_of (IfaceAssoc_timer a) s = map_option ia_time (FindIfaceAssocTuple a s)"
| "expiry_of (Association_timer g n m) s = map_option at_expirationTime (FindAssociationTuple g n m s)"
| "expiry_of (Dup_timer a q) s = map_option dt_expirationTime (FindDuplicateTuple a q s)"

text \<open>The timers of the four sets whose only expiration time is that of the tuple.\<close>

fun plain_timer :: "event \<Rightarrow> bool" where
  "plain_timer (MprSel_timer a) = True"
| "plain_timer (Topology_timer d l) = True"
| "plain_timer (Association_timer g n m) = True"
| "plain_timer (Dup_timer a q) = True"
| "plain_timer e = False"

context expiring_repo
begin

lemma handler_cases:
  assumes "distinct (map key (tuples (nd_state nd)))"
  shows "case find k (nd_state nd) of
      None \<Rightarrow> handler now k nd = nd
    | Some t \<Rightarrow>
        if expiry t < now
        then find k (nd_state (handler now k nd)) = None \<and>
          (\<forall>k'. k' \<noteq> k \<longrightarrow> find k' (nd_state (handler now k nd)) = find k' (nd_state nd)) \<and>
          handler now k nd = remove t nd
        else handler now k nd = schedule now (expiry t - now + microsecond) (timer k) nd"
proof (cases "find k (nd_state nd)")
  case (Some t)
  then have t: "t \<in> set (tuples (nd_state nd))" "key t = k" using find_present by auto
  show ?thesis
  proof (cases "expiry t < now")
    case True
    have "find k' (erase t (nd_state nd)) = find k' (nd_state nd)" if "k' \<noteq> k" for k'
      using find_erase_other [OF assms t(1)] t(2) that by simp
    moreover have "handler now k nd = remove t nd" using Some True by (simp add: handler_eq)
    ultimately show ?thesis using Some True expired_removed [OF assms Some True] remove_state by simp
  qed (simp add: Some live_rescheduled [OF Some])
qed (simp add: absent_ignored)

end

lemma expiry_of_erase:
  "expiry_of e (EraseMprSelectorTuple m s) \<noteq> expiry_of e s \<Longrightarrow> \<exists>a. e = MprSel_timer a"
  "expiry_of e (EraseTopologyTuple t s) \<noteq> expiry_of e s \<Longrightarrow> \<exists>a b. e = Topology_timer a b"
  "expiry_of e (EraseAssociationTuple h s) \<noteq> expiry_of e s \<Longrightarrow> \<exists>a b c. e = Association_timer a b c"
  "expiry_of e (EraseDuplicateTuple d s) \<noteq> expiry_of e s \<Longrightarrow> \<exists>a b. e = Dup_timer a b"
  by (cases e; simp add: link_defs two_hop_defs topology_defs iface_assoc_defs association_defs
      duplicate_defs mpr_selector_defs)+

text \<open>The removal of a tuple changes the expiration time of its own key only.\<close>

lemma nd_state_remove:
  "nd_state (RemoveMprSelectorTuple m nd) = EraseMprSelectorTuple m (nd_state nd)"
  "nd_state (RemoveTopologyTuple t nd) = EraseTopologyTuple t (nd_state nd)"
  "nd_state (RemoveAssociationTuple h nd) = EraseAssociationTuple h (nd_state nd)"
  "nd_state (RemoveDuplicateTuple d nd) = EraseDuplicateTuple d (nd_state nd)"
  by (simp_all add: RemoveMprSelectorTuple_def RemoveTopologyTuple_def RemoveAssociationTuple_def
      RemoveDuplicateTuple_def IncrementAnsn_def)

lemma expiry_of_RemoveMprSelectorTuple:
  assumes "\<And>a'. a' \<noteq> a \<Longrightarrow> FindMprSelectorTuple a' (EraseMprSelectorTuple t s) = FindMprSelectorTuple a' s"
    and "e \<noteq> MprSel_timer a"
  shows "expiry_of e (EraseMprSelectorTuple t s) = expiry_of e s"
proof (cases "\<exists>a'. e = MprSel_timer a'")
  case True
  then obtain a' where e: "e = MprSel_timer a'" by blast
  then have "a' \<noteq> a" using assms(2) by auto
  from assms(1) [OF this] show ?thesis by (simp add: e)
next
  case False
  then show ?thesis using expiry_of_erase(1) [of e t s] by argo
qed

lemma expiry_of_RemoveTopologyTuple:
  assumes "\<And>a' b'. (a', b') \<noteq> (a, b) \<Longrightarrow> FindTopologyTuple a' b' (EraseTopologyTuple t s) = FindTopologyTuple a' b' s"
    and "e \<noteq> Topology_timer a b"
  shows "expiry_of e (EraseTopologyTuple t s) = expiry_of e s"
proof (cases "\<exists>a' b'. e = Topology_timer a' b'")
  case True
  then obtain a' b' where e: "e = Topology_timer a' b'" by blast
  then have "(a', b') \<noteq> (a, b)" using assms(2) by auto
  from assms(1) [OF this] show ?thesis by (simp add: e)
next
  case False
  then show ?thesis using expiry_of_erase(2) [of e t s] by argo
qed

lemma expiry_of_RemoveAssociationTuple:
  assumes "\<And>a' b' c'. (a', b', c') \<noteq> (a, b, c) \<Longrightarrow> FindAssociationTuple a' b' c' (EraseAssociationTuple t s) = FindAssociationTuple a' b' c' s"
    and "e \<noteq> Association_timer a b c"
  shows "expiry_of e (EraseAssociationTuple t s) = expiry_of e s"
proof (cases "\<exists>a' b' c'. e = Association_timer a' b' c'")
  case True
  then obtain a' b' c' where e: "e = Association_timer a' b' c'" by blast
  then have "(a', b', c') \<noteq> (a, b, c)" using assms(2) by auto
  from assms(1) [OF this] show ?thesis by (simp add: e)
next
  case False
  then show ?thesis using expiry_of_erase(3) [of e t s] by argo
qed

lemma expiry_of_RemoveDuplicateTuple:
  assumes "\<And>a' b'. (a', b') \<noteq> (a, b) \<Longrightarrow> FindDuplicateTuple a' b' (EraseDuplicateTuple t s) = FindDuplicateTuple a' b' s"
    and "e \<noteq> Dup_timer a b"
  shows "expiry_of e (EraseDuplicateTuple t s) = expiry_of e s"
proof (cases "\<exists>a' b'. e = Dup_timer a' b'")
  case True
  then obtain a' b' where e: "e = Dup_timer a' b'" by blast
  then have "(a', b') \<noteq> (a, b)" using assms(2) by auto
  from assms(1) [OF this] show ?thesis by (simp add: e)
next
  case False
  then show ?thesis using expiry_of_erase(4) [of e t s] by argo
qed

text \<open>
  C24: when the timer of an MPR selector, topology, association or duplicate tuple fires in any run,
  a tuple whose expiration time has passed is removed and no tuple of another key changes; a tuple
  that has been refreshed stays, with a timer one microsecond after its expiration time; a timer whose
  tuple is gone has no effect.
\<close>

theorem timer_removes_expired:
  assumes "node_run t nd" "plain_timer e"
  shows "\<exists>nd'. fire now e nd = Inr nd' \<and>
    (case expiry_of e (nd_state nd) of
       None \<Rightarrow> nd_state nd' = nd_state nd \<and> nd_events nd' = remove1 (now, e) (nd_events nd)
     | Some x \<Rightarrow>
         if x < now
         then expiry_of e (nd_state nd') = None \<and>
           (\<forall>e'. e' \<noteq> e \<longrightarrow> expiry_of e' (nd_state nd') = expiry_of e' (nd_state nd))
         else nd_state nd' = nd_state nd \<and>
           nd_events nd' = remove1 (now, e) (nd_events nd) @ [(x + microsecond, e)])"
proof -
  define nd0 where "nd0 = nd\<lparr>nd_events := remove1 (now, e) (nd_events nd)\<rparr>"
  have nd0: "nd_state nd0 = nd_state nd" "nd_events nd0 = remove1 (now, e) (nd_events nd)" by (simp_all add: nd0_def)
  have "distinct (live_keys (nd_state nd0))" using node_run_inv [OF assms(1)] nd0 by (simp add: node_inv_def)
  note d = distinct_live_keys [OF this]
  have fire: "fire now e nd = expire now e nd0" by (simp add: fire_def nd0_def)
  show ?thesis
  proof (cases e)
    case (MprSel_timer a)
    then show ?thesis
      using mprsel_timer.handler_cases [OF d(2), where k = a and now = now] nd0 fire expiry_of_RemoveMprSelectorTuple [of a _ "nd_state nd0"] nd_state_remove
      by (auto split: option.splits if_splits)
  next
    case (Topology_timer a b)
    then show ?thesis
      using topo_timer.handler_cases [OF d(3), where k = "(a, b)" and now = now] nd0 fire expiry_of_RemoveTopologyTuple [of a b _ "nd_state nd0"] nd_state_remove
      by (auto split: option.splits if_splits)
  next
    case (Association_timer a b c)
    then show ?thesis
      using hna_timer.handler_cases [OF d(5), where k = "(a, b, c)" and now = now] nd0 fire expiry_of_RemoveAssociationTuple [of a b c _ "nd_state nd0"] nd_state_remove
      by (auto split: option.splits if_splits)
  next
    case (Dup_timer a q)
    then show ?thesis
      using dup_timer.handler_cases [OF d(4), where k = "(a, q)" and now = now] nd0 fire expiry_of_RemoveDuplicateTuple [of a q _ "nd_state nd0"] nd_state_remove
      by (auto split: option.splits if_splits)
  qed (use assms in auto)
qed

theorem timer_removes_expired_witness:
  "\<exists>nd nd'. node_run second nd \<and> fire (40 * second) (Dup_timer 5 9) nd = Inr nd'"
proof -
  obtain nd where nd: "node_run second nd" by (rule example_received_run)
  from timer_removes_expired [OF this, of "Dup_timer 5 9" "40 * second"] nd show ?thesis by auto
qed

end
