(* ===== verification/Sending_Properties.thy ===== *)
theory Sending_Properties
  imports Complex_Main Message_Sending Forwarding
begin

text \<open>
  What a node puts on the air: the packets of \<open>SendQueuedMessages\<close> carry the queued messages in
  order and are read back by \<open>RecvOlsr\<close>; the links that an attacker invents; the contents of TC
  messages.
\<close>

unbundle bit_operations_syntax

section \<open>The outgoing queue\<close>

text \<open>\<open>sent_as sockets ms out\<close>: one packet that a receiver reads as \<open>ms\<close>, broadcast on every socket.\<close>

definition sent_as :: "(ipv4 \<times> ipv4) list \<Rightarrow> MessageHeader list \<Rightarrow> (ipv4 \<times> u8 list) list \<Rightarrow> bool" where
  "sent_as sockets ms out \<longleftrightarrow>
     (\<exists>h bytes. ReadPacket bytes = Inr (h, map with_size ms) \<and>
        out = map (\<lambda>(local, netmask). (local OR NOT netmask, bytes)) sockets)"

lemma broadcasts:
  "foldE (broadcast bytes) sockets nd = Inr nd' \<Longrightarrow>
    nd' = nd\<lparr>nd_sent := nd_sent nd @ map (\<lambda>(local, netmask). (local OR NOT netmask, bytes)) sockets\<rparr>"
proof (induction sockets arbitrary: nd)
  case (Cons s sockets)
  then obtain nd1 where nd1: "broadcast bytes s nd = Inr nd1" "foldE (broadcast bytes) sockets nd1 = Inr nd'"
    by (auto simp: res_simps)
  from nd1(1) have "nd1 = nd\<lparr>nd_sent := nd_sent nd @ [case s of (local, netmask) \<Rightarrow> (local OR NOT netmask, bytes)]\<rparr>"
    by (cases s) (auto simp: broadcast_def subnet_directed_broadcast_def res_simps)
  then show ?case using Cons.IH [OF nd1(2)] by (cases s) simp
qed simp

lemma SendPacket_effect:
  assumes "SendPacket (concat (map Serialize ms)) nd = Inr nd'"
    and "4 + length (concat (map Serialize ms)) < 65536"
  shows "\<exists>out. sent_as (nd_sendSockets nd) ms out \<and> nd_sent nd' = nd_sent nd @ out \<and>
    nd_sendSockets nd' = nd_sendSockets nd \<and> nd_queuedMessages nd' = nd_queuedMessages nd"
proof -
  let ?p = "concat (map Serialize ms)"
  let ?h = "\<lparr>m_packetLength = ucast (OLSR_PKT_HEADER_SIZE + of_nat (length ?p)),
              m_packetSequenceNumber = next_seq (nd_packetSequenceNumber nd)\<rparr>"
  from assms(1) have f: "foldE (broadcast (PacketHeader_Serialize ?h @ ?p)) (nd_sendSockets nd)
      (nd\<lparr>nd_packetSequenceNumber := next_seq (nd_packetSequenceNumber nd)\<rparr>) = Inr nd'"
    by (simp add: SendPacket_def GetPacketSequenceNumber_def Let_def)
  have "OLSR_PKT_HEADER_SIZE + of_nat (length ?p) = (of_nat (4 + length ?p) :: u32)"
    by (simp add: size_defs)
  then have "m_packetLength ?h = of_nat (4 + length ?p)"
    using ucast_u32_u16 [OF assms(2)] by (simp only: PacketHeader.select_convs)
  then have "ReadPacket (PacketHeader_Serialize ?h @ ?p) = Inr (?h, map with_size ms)"
    by (rule ReadPacket_Serialize) (rule assms(2))
  then have "sent_as (nd_sendSockets nd) ms
      (map (\<lambda>(local, netmask). (local OR NOT netmask, PacketHeader_Serialize ?h @ ?p)) (nd_sendSockets nd))"
    unfolding sent_as_def by blast
  then show ?thesis using broadcasts [OF f] by auto
qed

lemma Serialize_not_Nil: "Serialize m \<noteq> []"
  using length_Serialize [of m] by auto

lemma pack_loop:
  assumes "foldE pack_message ms (concat (map Serialize cur), length cur, nd) = Inr (packet, k, nd')"
    and "length cur < OLSR_MAX_MSGS" "4 + length (concat (map Serialize (cur @ ms))) < 65536"
  shows "\<exists>chunks rest outs. concat chunks @ rest = cur @ ms \<and> length rest < OLSR_MAX_MSGS \<and>
    (\<forall>c\<in>set chunks. length c = OLSR_MAX_MSGS) \<and> packet = concat (map Serialize rest) \<and>
    list_all2 (sent_as (nd_sendSockets nd)) chunks outs \<and> nd_sent nd' = nd_sent nd @ concat outs \<and>
    nd_sendSockets nd' = nd_sendSockets nd \<and> nd_queuedMessages nd' = nd_queuedMessages nd"
  using assms
proof (induction ms arbitrary: cur nd)
  case Nil
  then have "packet = concat (map Serialize cur)" "nd' = nd" by auto
  then show ?case using Nil.prems(2) by (intro exI [of _ "[]"] exI [of _ cur]) simp
next
  case (Cons m ms)
  let ?cur = "cur @ [m]"
  have bytes: "concat (map Serialize cur) @ Serialize m = concat (map Serialize ?cur)" by simp
  show ?case
  proof (cases "length ?cur = OLSR_MAX_MSGS")
    case True
    then have "pack_message m (concat (map Serialize cur), length cur, nd) =
        bindR (SendPacket (concat (map Serialize ?cur)) nd) (\<lambda>nd. Inr ([], 0, nd))"
      by (simp add: pack_message_def Let_def)
    with Cons.prems(1) obtain nd1 where nd1: "SendPacket (concat (map Serialize ?cur)) nd = Inr nd1"
      and "foldE pack_message ms ([], 0, nd1) = Inr (packet, k, nd')"
      by (auto simp: bindR_eq_Inr)
    then have rest: "foldE pack_message ms (concat (map Serialize []), length ([] :: MessageHeader list), nd1) =
        Inr (packet, k, nd')"
      by simp
    obtain out where out: "sent_as (nd_sendSockets nd) ?cur out" "nd_sent nd1 = nd_sent nd @ out"
      "nd_sendSockets nd1 = nd_sendSockets nd" "nd_queuedMessages nd1 = nd_queuedMessages nd"
      using SendPacket_effect [OF nd1] Cons.prems(3) by auto
    obtain chunks rs outs where c: "concat chunks @ rs = ms" "length rs < OLSR_MAX_MSGS"
      "\<forall>c\<in>set chunks. length c = OLSR_MAX_MSGS" "packet = concat (map Serialize rs)"
      "list_all2 (sent_as (nd_sendSockets nd)) chunks outs" "nd_sent nd' = nd_sent nd1 @ concat outs"
      "nd_sendSockets nd' = nd_sendSockets nd" "nd_queuedMessages nd' = nd_queuedMessages nd"
      using Cons.IH [OF rest] Cons.prems(3) out(3,4) by (auto simp: OLSR_MAX_MSGS_def simp del: foldE.simps)
    show ?thesis
      by (rule exI [of _ "?cur # chunks"], rule exI [of _ rs], rule exI [of _ "out # outs"])
        (use c out True in simp)
  next
    case False
    then have "pack_message m (concat (map Serialize cur), length cur, nd) =
        Inr (concat (map Serialize ?cur), length ?cur, nd)"
      by (simp add: pack_message_def Let_def)
    then have "foldE pack_message ms (concat (map Serialize ?cur), length ?cur, nd) = Inr (packet, k, nd')"
      using Cons.prems(1) by simp
    from Cons.IH [OF this] show ?thesis using Cons.prems(2,3) False by simp
  qed
qed

lemma SendQueuedMessages_effect:
  assumes "SendQueuedMessages nd = Inr nd'" "4 + length (concat (map Serialize (nd_queuedMessages nd))) < 65536"
  shows "nd_queuedMessages nd' = [] \<and>
    (\<exists>chunks outs. concat chunks = nd_queuedMessages nd \<and>
       (\<forall>c\<in>set chunks. c \<noteq> [] \<and> length c \<le> OLSR_MAX_MSGS) \<and>
       list_all2 (sent_as (nd_sendSockets nd)) chunks outs \<and> nd_sent nd' = nd_sent nd @ concat outs)"
proof -
  from assms(1) obtain packet k nd1 nd2 where
    f: "foldE pack_message (nd_queuedMessages nd) ([], 0, nd) = Inr (packet, k, nd1)" and
    s: "(if packet \<noteq> [] then SendPacket packet nd1 else Inr nd1) = Inr nd2" and
    nd': "nd' = nd2\<lparr>nd_queuedMessages := []\<rparr>"
    by (auto simp: SendQueuedMessages_def res_simps)
  from f have "foldE pack_message (nd_queuedMessages nd)
      (concat (map Serialize []), length ([] :: MessageHeader list), nd) = Inr (packet, k, nd1)"
    by simp
  from pack_loop [OF this] assms(2) obtain chunks rs outs where
    c: "concat chunks @ rs = nd_queuedMessages nd" "length rs < OLSR_MAX_MSGS"
      "\<forall>c\<in>set chunks. length c = OLSR_MAX_MSGS" "packet = concat (map Serialize rs)"
      "list_all2 (sent_as (nd_sendSockets nd)) chunks outs" "nd_sent nd1 = nd_sent nd @ concat outs"
      "nd_sendSockets nd1 = nd_sendSockets nd"
    by (auto simp: OLSR_MAX_MSGS_def)
  have full: "\<forall>c\<in>set chunks. c \<noteq> [] \<and> length c \<le> OLSR_MAX_MSGS" using c(3) by (force simp: OLSR_MAX_MSGS_def)
  show ?thesis
  proof (cases rs)
    case Nil
    then have "nd2 = nd1" using s c(4) by simp
    then show ?thesis using c full Nil nd' by auto
  next
    case (Cons r rs')
    then have "packet \<noteq> []" using c(4) Serialize_not_Nil by simp
    then have send: "SendPacket (concat (map Serialize rs)) nd1 = Inr nd2" using s c(4) by simp
    have "length (concat (map Serialize rs)) \<le> length (concat (map Serialize (nd_queuedMessages nd)))"
      unfolding c(1) [symmetric] by simp
    then have "4 + length (concat (map Serialize rs)) < 65536" using assms(2) by linarith
    from SendPacket_effect [OF send this] obtain out where out: "sent_as (nd_sendSockets nd) rs out"
      "nd_sent nd2 = nd_sent nd1 @ out" using c(7) by auto
    have "list_all2 (sent_as (nd_sendSockets nd)) (chunks @ [rs]) (outs @ [out])"
      using c(5) out(1) by (simp add: list_all2_appendI)
    then show ?thesis
      using c full Cons nd' out(2) by (intro conjI exI [of _ "chunks @ [rs]"] exI [of _ "outs @ [out]"]) auto
  qed
qed

lemma SendPacket_returns:
  assumes "\<And>l m. (l, m) \<in> set (nd_sendSockets nd) \<Longrightarrow> m \<noteq> 0xffffffff"
  shows "\<exists>nd'. SendPacket packet nd = Inr nd' \<and> nd_sendSockets nd' = nd_sendSockets nd"
proof -
  have "\<exists>s'. foldE (broadcast bytes) (nd_sendSockets nd) nd1 = Inr s' \<and> nd_sendSockets s' = nd_sendSockets nd"
    if "nd_sendSockets nd1 = nd_sendSockets nd" for bytes and nd1 :: node
    by (rule foldE_total [where P = "\<lambda>s. nd_sendSockets s = nd_sendSockets nd"])
      (use assms that in \<open>auto simp: broadcast_def subnet_directed_broadcast_def assertR_def\<close>)
  then show ?thesis by (simp add: SendPacket_def GetPacketSequenceNumber_def Let_def)
qed

lemma SendQueuedMessages_returns:
  assumes "\<And>l m. (l, m) \<in> set (nd_sendSockets nd) \<Longrightarrow> m \<noteq> 0xffffffff"
  shows "\<exists>nd'. SendQueuedMessages nd = Inr nd'"
proof -
  have "\<exists>s'. foldE pack_message (nd_queuedMessages nd) ([], 0, nd) = Inr s' \<and>
      (case s' of (_, _, nd') \<Rightarrow> nd_sendSockets nd' = nd_sendSockets nd)"
  proof (rule foldE_total [where P = "\<lambda>s. case s of (_, _, nd') \<Rightarrow> nd_sendSockets nd' = nd_sendSockets nd"])
    fix m and s :: "u8 list \<times> nat \<times> node"
    assume s: "case s of (_, _, nd') \<Rightarrow> nd_sendSockets nd' = nd_sendSockets nd"
    obtain p n nd1 where [simp]: "s = (p, n, nd1)" by (cases s)
    obtain nd2 where "SendPacket (p @ Serialize m) nd1 = Inr nd2" "nd_sendSockets nd2 = nd_sendSockets nd1"
      using SendPacket_returns [of nd1 "p @ Serialize m"] assms s by auto
    then show "\<exists>s'. pack_message m s = Inr s' \<and>
        (case s' of (_, _, nd') \<Rightarrow> nd_sendSockets nd' = nd_sendSockets nd)"
      using s by (simp add: pack_message_def Let_def)
  qed simp
  then obtain p n nd1 where f: "foldE pack_message (nd_queuedMessages nd) ([], 0, nd) = Inr (p, n, nd1)"
    and "nd_sendSockets nd1 = nd_sendSockets nd" by auto
  then obtain nd2 where "SendPacket p nd1 = Inr nd2" using SendPacket_returns [of nd1 p] assms by auto
  with f show ?thesis by (simp add: SendQueuedMessages_def)
qed

text \<open>
  C25: \<open>SendQueuedMessages\<close> neither loses, repeats nor reorders a message. If no interface has a
  host netmask and the queue fits the 16-bit length field, the call returns with the queue empty,
  having broadcast on every socket a sequence of packets, none empty and none of more than 64
  messages, each of which a receiver reads back (with the sizes filled in) as its share of the
  queue, and the shares together are the queue in its order.
\<close>

theorem queue_sent_in_order:
  assumes "\<forall>(l, m)\<in>set (nd_sendSockets nd). m \<noteq> 0xffffffff"
    and "4 + length (concat (map Serialize (nd_queuedMessages nd))) < 65536"
  shows "\<exists>nd' chunks outs. SendQueuedMessages nd = Inr nd' \<and> nd_queuedMessages nd' = [] \<and>
    concat chunks = nd_queuedMessages nd \<and> (\<forall>c. c \<in> set chunks \<longrightarrow> c \<noteq> [] \<and> length c \<le> OLSR_MAX_MSGS) \<and>
    list_all2 (sent_as (nd_sendSockets nd)) chunks outs \<and> nd_sent nd' = nd_sent nd @ concat outs"
proof -
  from SendQueuedMessages_returns [of nd] assms(1) obtain nd' where r: "SendQueuedMessages nd = Inr nd'"
    by auto
  from SendQueuedMessages_effect [OF r assms(2)] r show ?thesis by blast
qed

definition example_queue :: "MessageHeader list" where
  "example_queue =
     [\<lparr>m_vTime = 134, m_originatorAddress = 1, m_timeToLive = 255, m_hopCount = 0,
       m_messageSequenceNumber = 1, m_messageSize = 0,
       m_message = TC_MESSAGE \<lparr>neighborAddresses = [2, 3], tc_ansn = 7\<rparr>\<rparr>,
      \<lparr>m_vTime = 134, m_originatorAddress = 1, m_timeToLive = 255, m_hopCount = 0,
       m_messageSequenceNumber = 2, m_messageSize = 0,
       m_message = MID_MESSAGE \<lparr>interfaceAddresses = [9]\<rparr>\<rparr>]"

lemma example_queue_size: "length (concat (map Serialize example_queue)) = 40"
  by code_simp

theorem queue_sent_in_order_witness:
  "\<exists>nd' chunks outs. SendQueuedMessages (example_node\<lparr>nd_queuedMessages := example_queue\<rparr>) = Inr nd' \<and>
    nd_queuedMessages nd' = [] \<and> concat chunks = example_queue \<and>
    list_all2 (sent_as [(1, 0xffffff00)]) chunks outs \<and> nd_sent nd' = concat outs"
  using queue_sent_in_order [of "example_node\<lparr>nd_queuedMessages := example_queue\<rparr>"] example_queue_size
  by (auto simp: example_node_def)

section \<open>The links an attacker invents\<close>

lemma push_new_old [simp]: "a \<in> set as \<Longrightarrow> push_new a as = as"
  and push_new_new [simp]: "a \<notin> set as \<Longrightarrow> push_new a as = as @ [a]"
  by (simp_all add: push_new_def)

lemma take_fold_push_new: "take (length res) (fold push_new as res) = res"
proof (induction as arbitrary: res)
  case (Cons a as)
  show ?case
  proof (cases "a \<in> set res")
    case False
    have "take (length res) (fold push_new as (res @ [a])) =
        take (length res) (take (length (res @ [a])) (fold push_new as (res @ [a])))"
      unfolding take_take by simp
    also have "\<dots> = res" using Cons.IH [of "res @ [a]"] by (simp del: take_take)
    finally show ?thesis using False by simp
  qed (use Cons.IH in simp)
qed simp

lemma spoof_loop_take:
  "length res < n \<Longrightarrow> spoof_loop n ex as res = take n (fold push_new (filter (\<lambda>a. a \<notin> set ex) as) res)"
proof (induction as arbitrary: res)
  case (Cons a as)
  show ?case
  proof (cases "a \<notin> set ex \<and> a \<notin> set res \<and> length res + 1 \<ge> n")
    case True
    then have "n = length (res @ [a])" using Cons.prems by simp
    then show ?thesis using True take_fold_push_new [of "res @ [a]"] by simp
  next
    case False
    then show ?thesis using Cons by (cases "a \<in> set res") auto
  qed
qed simp

lemma fold_push_new: "fold push_new as [] = rev (remdups (rev as))"
proof (induction as rule: rev_induct)
  case (snoc a as)
  then show ?case by (cases "a \<in> set as") simp_all
qed simp

lemma set_fold_set_insert: "set (fold (\<lambda>x. set_insert (f x)) xs ys) = f ` set xs \<union> set ys"
  by (induction xs arbitrary: ys) auto

text \<open>
  \<open>BuildSpoofTargets\<close> returns the first \<open>maxCount\<close> of the distinct addresses that the node has
  heard of (2-hop neighbors, then both ends of the topology edges) and that are neither its own nor
  those of a neighbor or of the far end of a link: the advertised links are all false.
\<close>

theorem spoofed_links_are_false:
  "BuildSpoofTargets maxCount nd =
     take (unat maxCount) (rev (remdups (rev
       [a \<leftarrow> spoof_candidates nd.
          a \<noteq> nd_mainAddress nd \<and> a \<notin> fst ` \<Union> (set ` set (nd_ifaces nd)) \<and>
          a \<notin> nt_neighborMainAddr ` set (m_neighborSet (nd_state nd)) \<and>
          a \<notin> lt_neighborIfaceAddr ` set (m_linkSet (nd_state nd))])))"
proof (cases "maxCount = 0")
  case False
  then have "0 < unat maxCount" by (simp add: unat_gt_0)
  moreover have "set (spoof_excluded nd) =
      {nd_mainAddress nd} \<union> fst ` \<Union> (set ` set (nd_ifaces nd)) \<union>
      nt_neighborMainAddr ` set (m_neighborSet (nd_state nd)) \<union>
      lt_neighborIfaceAddr ` set (m_linkSet (nd_state nd))"
    using set_fold_set_insert [of "\<lambda>x. x"]
    by (auto simp: spoof_excluded_def Let_def set_fold_set_insert own_addresses_def)
  ultimately show ?thesis using False
    by (simp add: BuildSpoofTargets_def spoof_loop_take fold_push_new)
qed (simp add: BuildSpoofTargets_def)

end
