(* ===== verification/Defense_Off.thy ===== *)
theory Defense_Off
  imports Complex_Main Node
begin

text \<open>
  A defense object that is switched off leaves no trace in the protocol: the node with such an object
  and the node without any (\<open>bare\<close>) go through the same steps. The lemmas of \<open>bare_simps\<close> move \<open>bare\<close>
  out of every operation, those of \<open>off_simps\<close> say that the object stays switched off.
\<close>

named_theorems bare_simps "operations of a node without its defense object"
named_theorems off_simps "operations that keep the defense object switched off"

text \<open>The node without its defense object, the timer and the counter that only serve that object.\<close>

definition bare :: "node \<Rightarrow> node" where
  "bare nd = nd\<lparr>nd_defense := None, nd_defenseTimer := None, nd_localRxDrops := 0\<rparr>"

definition off :: "node \<Rightarrow> bool" where
  "off nd \<longleftrightarrow> (case nd_defense nd of None \<Rightarrow> True | Some d \<Rightarrow> \<not> defense_on d)"

text \<open>An operation that may fail, on the two nodes.\<close>

definition blind :: "(node \<Rightarrow> node res) \<Rightarrow> bool" where
  "blind f \<longleftrightarrow> (\<forall>nd. off nd \<longrightarrow> f (bare nd) = map_sum id bare (f nd) \<and> (\<forall>nd'. f nd = Inr nd' \<longrightarrow> off nd'))"

lemma blindI:
  "(\<And>nd. off nd \<Longrightarrow> f (bare nd) = map_sum id bare (f nd)) \<Longrightarrow>
    (\<And>nd nd'. off nd \<Longrightarrow> f nd = Inr nd' \<Longrightarrow> off nd') \<Longrightarrow> blind f"
  by (auto simp: blind_def)

lemma blind_eq: "blind f \<Longrightarrow> off nd \<Longrightarrow> f (bare nd) = map_sum id bare (f nd)"
  and blind_off: "blind f \<Longrightarrow> off nd \<Longrightarrow> f nd = Inr nd' \<Longrightarrow> off nd'"
  unfolding blind_def by blast+

lemma blind_Inr:
  "(\<And>nd. off nd \<Longrightarrow> g (bare nd) = bare (g nd)) \<Longrightarrow> (\<And>nd. off nd \<Longrightarrow> off (g nd)) \<Longrightarrow> blind (\<lambda>nd. Inr (g nd))"
  by (rule blindI) auto

lemma blind_Inl: "blind (\<lambda>nd. Inl e)"
  by (rule blindI) auto

lemma blind_bindR:
  assumes f: "blind f" and g: "blind g"
  shows "blind (\<lambda>nd. bindR (f nd) g)"
proof (rule blindI)
  show "bindR (f (bare nd)) g = map_sum id bare (bindR (f nd) g)" if "off nd" for nd
    unfolding blind_eq [OF f that] using blind_eq [OF g blind_off [OF f that]] by (cases "f nd") auto
  show "off nd'" if "off nd" "bindR (f nd) g = Inr nd'" for nd nd'
    using that blind_off [OF f that(1)] blind_off [OF g] unfolding bindR_eq_Inr by blast
qed

lemma blind_foldE: "(\<And>x. x \<in> set xs \<Longrightarrow> blind (f x)) \<Longrightarrow> blind (foldE f xs)"
proof (induction xs)
  case Nil
  have "foldE f [] = (\<lambda>nd. Inr nd)" by (rule ext) simp
  then show ?case by (simp add: blind_def)
next
  case (Cons x xs)
  then have "blind (\<lambda>nd. bindR (f x nd) (foldE f xs))" by (intro blind_bindR) simp_all
  moreover have "foldE f (x # xs) = (\<lambda>nd. bindR (f x nd) (foldE f xs))" by (rule ext) simp
  ultimately show ?case by simp
qed

lemma blind_if:
  assumes "\<And>nd. P (bare nd) = P nd" "blind f" "blind g"
  shows "blind (\<lambda>nd. if P nd then f nd else g nd)"
proof (rule blindI)
  fix nd assume off: "off nd"
  show "(if P (bare nd) then f (bare nd) else g (bare nd)) = map_sum id bare (if P nd then f nd else g nd)"
    unfolding assms(1) blind_eq [OF assms(2) off] blind_eq [OF assms(3) off] by (cases "P nd") simp_all
  show "off nd'" if "(if P nd then f nd else g nd) = Inr nd'" for nd'
    using that blind_off [OF assms(2) off] blind_off [OF assms(3) off] by (cases "P nd") simp_all
qed

section \<open>Information base and messages\<close>

lemma bare_fields [bare_simps]:
  "nd_state (bare nd) = nd_state nd" "nd_ifaces (bare nd) = nd_ifaces nd"
  "nd_mainAddress (bare nd) = nd_mainAddress nd" "nd_defense (bare nd) = None"
  "nd_helloInterval (bare nd) = nd_helloInterval nd" "nd_tcInterval (bare nd) = nd_tcInterval nd"
  "nd_midInterval (bare nd) = nd_midInterval nd" "nd_hnaInterval (bare nd) = nd_hnaInterval nd"
  "nd_willingness (bare nd) = nd_willingness nd" "nd_ansn (bare nd) = nd_ansn nd"
  "nd_isMalicious (bare nd) = nd_isMalicious nd" "nd_spoofedLinksCount (bare nd) = nd_spoofedLinksCount nd"
  "nd_interfaceExclusions (bare nd) = nd_interfaceExclusions nd"
  "nd_linkTupleTimerFirstTime (bare nd) = nd_linkTupleTimerFirstTime nd"
  "nd_table (bare nd) = nd_table nd" "nd_tableAvoidingSuspects (bare nd) = nd_tableAvoidingSuspects nd"
  "nd_hnaRoutingTable (bare nd) = nd_hnaRoutingTable nd" "nd_sendSockets (bare nd) = nd_sendSockets nd"
  "nd_queuedMessages (bare nd) = nd_queuedMessages nd" "nd_events (bare nd) = nd_events nd"
  "nd_helloTimer (bare nd) = nd_helloTimer nd" "nd_tcTimer (bare nd) = nd_tcTimer nd"
  "nd_midTimer (bare nd) = nd_midTimer nd" "nd_hnaTimer (bare nd) = nd_hnaTimer nd"
  "nd_queuedMessagesTimer (bare nd) = nd_queuedMessagesTimer nd"
  "nd_routingTableAssociation (bare nd) = nd_routingTableAssociation nd"
  "nd_packetSequenceNumber (bare nd) = nd_packetSequenceNumber nd"
  "nd_messageSequenceNumber (bare nd) = nd_messageSequenceNumber nd"
  "nd_jitter (bare nd) = nd_jitter nd" "nd_draws (bare nd) = nd_draws nd" "nd_sent (bare nd) = nd_sent nd"
  by (simp_all add: bare_def)

lemma off_bare [off_simps]: "off (bare nd)"
  by (simp add: off_def bare_def)

lemma bare_updates [bare_simps]:
  "(bare nd)\<lparr>nd_queuedMessages := q\<rparr> = bare (nd\<lparr>nd_queuedMessages := q\<rparr>)"
  "(bare nd)\<lparr>nd_queuedMessagesTimer := t\<rparr> = bare (nd\<lparr>nd_queuedMessagesTimer := t\<rparr>)"
  "(bare nd)\<lparr>nd_helloTimer := t\<rparr> = bare (nd\<lparr>nd_helloTimer := t\<rparr>)"
  "(bare nd)\<lparr>nd_tcTimer := t\<rparr> = bare (nd\<lparr>nd_tcTimer := t\<rparr>)"
  "(bare nd)\<lparr>nd_midTimer := t\<rparr> = bare (nd\<lparr>nd_midTimer := t\<rparr>)"
  "(bare nd)\<lparr>nd_hnaTimer := t\<rparr> = bare (nd\<lparr>nd_hnaTimer := t\<rparr>)"
  "(bare nd)\<lparr>nd_events := es\<rparr> = bare (nd\<lparr>nd_events := es\<rparr>)"
  "(bare nd)\<lparr>nd_sent := ss\<rparr> = bare (nd\<lparr>nd_sent := ss\<rparr>)"
  "(bare nd)\<lparr>nd_ansn := a\<rparr> = bare (nd\<lparr>nd_ansn := a\<rparr>)"
  "(bare nd)\<lparr>nd_draws := n\<rparr> = bare (nd\<lparr>nd_draws := n\<rparr>)"
  "(bare nd)\<lparr>nd_linkTupleTimerFirstTime := b\<rparr> = bare (nd\<lparr>nd_linkTupleTimerFirstTime := b\<rparr>)"
  "(bare nd)\<lparr>nd_packetSequenceNumber := p\<rparr> = bare (nd\<lparr>nd_packetSequenceNumber := p\<rparr>)"
  "(bare nd)\<lparr>nd_messageSequenceNumber := p\<rparr> = bare (nd\<lparr>nd_messageSequenceNumber := p\<rparr>)"
  "(bare nd)\<lparr>nd_isMalicious := b, nd_spoofedLinksCount := c\<rparr> =
     bare (nd\<lparr>nd_isMalicious := b, nd_spoofedLinksCount := c\<rparr>)"
  "(bare nd)\<lparr>nd_routingTableAssociation := ra\<rparr> = bare (nd\<lparr>nd_routingTableAssociation := ra\<rparr>)"
  "(bare nd)\<lparr>nd_table := x, nd_tableAvoidingSuspects := y, nd_hnaRoutingTable := z\<rparr> =
     bare (nd\<lparr>nd_table := x, nd_tableAvoidingSuspects := y, nd_hnaRoutingTable := z\<rparr>)"
  by (simp_all add: bare_def)

lemma off_updates [off_simps]:
  "off (nd\<lparr>nd_queuedMessages := q\<rparr>) = off nd" "off (nd\<lparr>nd_queuedMessagesTimer := t\<rparr>) = off nd"
  "off (nd\<lparr>nd_helloTimer := t\<rparr>) = off nd" "off (nd\<lparr>nd_tcTimer := t\<rparr>) = off nd"
  "off (nd\<lparr>nd_midTimer := t\<rparr>) = off nd" "off (nd\<lparr>nd_hnaTimer := t\<rparr>) = off nd"
  "off (nd\<lparr>nd_events := es\<rparr>) = off nd" "off (nd\<lparr>nd_sent := ss\<rparr>) = off nd"
  "off (nd\<lparr>nd_ansn := a\<rparr>) = off nd" "off (nd\<lparr>nd_draws := n\<rparr>) = off nd"
  "off (nd\<lparr>nd_linkTupleTimerFirstTime := b\<rparr>) = off nd"
  "off (nd\<lparr>nd_packetSequenceNumber := p\<rparr>) = off nd" "off (nd\<lparr>nd_messageSequenceNumber := p\<rparr>) = off nd"
  "off (nd\<lparr>nd_isMalicious := b, nd_spoofedLinksCount := c\<rparr>) = off nd"
  "off (nd\<lparr>nd_routingTableAssociation := ra\<rparr>) = off nd"
  "off (nd\<lparr>nd_table := x, nd_tableAvoidingSuspects := y, nd_hnaRoutingTable := z\<rparr>) = off nd"
  "off (nd\<lparr>nd_defenseTimer := t\<rparr>) = off nd" "off (nd\<lparr>nd_localRxDrops := k\<rparr>) = off nd"
  by (simp_all add: off_def)

lemma bare_hold [bare_simps]:
  "OLSR_NEIGHB_HOLD_TIME (bare nd) = OLSR_NEIGHB_HOLD_TIME nd" "OLSR_TOP_HOLD_TIME (bare nd) = OLSR_TOP_HOLD_TIME nd"
  "OLSR_MID_HOLD_TIME (bare nd) = OLSR_MID_HOLD_TIME nd" "OLSR_HNA_HOLD_TIME (bare nd) = OLSR_HNA_HOLD_TIME nd"
  by (simp_all add: OLSR_NEIGHB_HOLD_TIME_def OLSR_TOP_HOLD_TIME_def OLSR_MID_HOLD_TIME_def
      OLSR_HNA_HOLD_TIME_def bare_def)

lemma bare_basics [bare_simps]:
  "on_state f (bare nd) = bare (on_state f nd)"
  "schedule now d e (bare nd) = bare (schedule now d e nd)"
  "JITTER (bare nd) = map_prod id bare (JITTER nd)"
  "IncrementAnsn (bare nd) = bare (IncrementAnsn nd)"
  by (simp_all add: on_state_def schedule_def JITTER_def IncrementAnsn_def bare_def)

lemma off_basics [off_simps]:
  "off (on_state f nd) = off nd" "off (schedule now d e nd) = off nd"
  "off (snd (JITTER nd)) = off nd" "off (IncrementAnsn nd) = off nd"
  by (simp_all add: on_state_def schedule_def JITTER_def IncrementAnsn_def off_def)

lemma fold_bare: "(\<And>x nd. f x (bare nd) = bare (f x nd)) \<Longrightarrow> fold f xs (bare nd) = bare (fold f xs nd)"
  by (induction xs arbitrary: nd) simp_all

lemma fold_off: "(\<And>x nd. off (f x nd) = off nd) \<Longrightarrow> off (fold f xs nd) = off nd"
  by (induction xs arbitrary: nd) simp_all

lemmas tuple_methods = AddDuplicateTuple_def RemoveDuplicateTuple_def AddNeighborTuple_def
  RemoveNeighborTuple_def AddTwoHopNeighborTuple_def RemoveTwoHopNeighborTuple_def
  AddMprSelectorTuple_def RemoveMprSelectorTuple_def AddTopologyTuple_def RemoveTopologyTuple_def
  AddIfaceAssocTuple_def RemoveIfaceAssocTuple_def AddAssociationTuple_def RemoveAssociationTuple_def

lemma bare_links [bare_simps]:
  "LinkTupleAdded now l w (bare nd) = bare (LinkTupleAdded now l w nd)"
  "LinkTupleUpdated now l w (bare nd) = bare (LinkTupleUpdated now l w nd)"
  "RemoveLinkTuple l (bare nd) = bare (RemoveLinkTuple l nd)"
  by (auto simp: LinkTupleAdded_def LinkTupleUpdated_def RemoveLinkTuple_def tuple_methods bare_simps Let_def
      split: option.split)

lemma off_links [off_simps]:
  "off (LinkTupleAdded now l w nd) = off nd" "off (LinkTupleUpdated now l w nd) = off nd"
  "off (RemoveLinkTuple l nd) = off nd"
  by (auto simp: LinkTupleAdded_def LinkTupleUpdated_def RemoveLinkTuple_def tuple_methods off_simps Let_def
      split: option.split)

lemma bare_handlers [bare_simps]:
  "PopulateNeighborSet msg hello (bare nd) = bare (PopulateNeighborSet msg hello nd)"
  "two_hop_address now msg t a (bare nd) = bare (two_hop_address now msg t a nd)"
  "mpr_selector_address now msg a (bare nd) = bare (mpr_selector_address now msg a nd)"
  "tc_address now msg tc a (bare nd) = bare (tc_address now msg tc a nd)"
  "mid_address now msg a (bare nd) = bare (mid_address now msg a nd)"
  "hna_address now msg h (bare nd) = bare (hna_address now msg h nd)"
  by (auto simp: PopulateNeighborSet_def two_hop_address_def mpr_selector_address_def tc_address_def
      mid_address_def hna_address_def tuple_methods bare_simps Let_def split: option.split)

lemma off_handlers [off_simps]:
  "off (PopulateNeighborSet msg hello nd) = off nd" "off (two_hop_address now msg t a nd) = off nd"
  "off (mpr_selector_address now msg a nd) = off nd" "off (tc_address now msg tc a nd) = off nd"
  "off (mid_address now msg a nd) = off nd" "off (hna_address now msg h nd) = off nd"
  by (auto simp: PopulateNeighborSet_def two_hop_address_def mpr_selector_address_def tc_address_def
      mid_address_def hna_address_def tuple_methods off_simps Let_def split: option.split)

lemma bare_populate [bare_simps]:
  "PopulateTwoHopNeighborSet now msg hello (bare nd) = bare (PopulateTwoHopNeighborSet now msg hello nd)"
  "PopulateMprSelectorSet now msg hello (bare nd) = bare (PopulateMprSelectorSet now msg hello nd)"
  by (simp_all add: PopulateTwoHopNeighborSet_def PopulateMprSelectorSet_def bare_simps fold_bare)

lemma off_populate [off_simps]:
  "off (PopulateTwoHopNeighborSet now msg hello nd) = off nd"
  "off (PopulateMprSelectorSet now msg hello nd) = off nd"
  by (simp_all add: PopulateTwoHopNeighborSet_def PopulateMprSelectorSet_def off_simps fold_off)

lemma bare_messages [bare_simps]:
  "ProcessTc now msg tc si (bare nd) = bare (ProcessTc now msg tc si nd)"
  "ProcessMid now msg mid si (bare nd) = bare (ProcessMid now msg mid si nd)"
  "ProcessHna now msg hna si (bare nd) = bare (ProcessHna now msg hna si nd)"
  by (simp_all add: ProcessTc_def ProcessMid_def ProcessHna_def bare_simps fold_bare Let_def)

lemma off_messages [off_simps]:
  "off (ProcessTc now msg tc si nd) = off nd" "off (ProcessMid now msg mid si nd) = off nd"
  "off (ProcessHna now msg hna si nd) = off nd"
  by (simp_all add: ProcessTc_def ProcessMid_def ProcessHna_def off_simps fold_off Let_def)

lemma bare_queue [bare_simps]:
  "QueueMessage now m d (bare nd) = bare (QueueMessage now m d nd)"
  "queue_jittered now m (bare nd) = bare (queue_jittered now m nd)"
  by (simp add: QueueMessage_def bare_simps Let_def)
    (cases "JITTER nd", simp add: queue_jittered_def QueueMessage_def bare_simps Let_def)

lemma off_queue [off_simps]:
  "off (QueueMessage now m d nd) = off nd" "off (queue_jittered now m nd) = off nd"
  by (simp_all add: QueueMessage_def queue_jittered_def JITTER_def off_simps Let_def)

lemma bare_ForwardDefault [bare_simps]:
  "ForwardDefault now m d li sa (bare nd) = bare (ForwardDefault now m d li sa nd)"
  by (cases d; cases "JITTER nd") (auto simp: ForwardDefault_def AddDuplicateTuple_def bare_simps Let_def)

lemma off_ForwardDefault [off_simps]: "off (ForwardDefault now m d li sa nd) = off nd"
  by (cases d) (simp_all add: ForwardDefault_def AddDuplicateTuple_def JITTER_def off_simps Let_def)

section \<open>The two computations and the link handlers\<close>

lemma off_views:
  assumes "off nd"
  shows "GetBlacklist nd = []" "\<not> suspected a nd" "\<not> wants_fictitious nd"
    "MprSet (suspicion nd) a s = MprSet None a s"
proof -
  have d: "\<not> defense_on d" if "nd_defense nd = Some d" for d using assms that by (simp add: off_def)
  show "GetBlacklist nd = []" "\<not> suspected a nd" "\<not> wants_fictitious nd"
    using strategy.off_blacklist [OF d] strategy.off_malicious [OF d] strategy.off_fictitious [OF d]
    by (auto simp: GetBlacklist_def suspected_def wants_fictitious_def split: option.split)
  have "mpr_backup (Some (\<lambda>_. False)) s S = mpr_backup None s S" for S
    by (cases S) (simp_all add: mpr_backup_def)
  then have "mpr_backup (Some (\<lambda>_. False)) s = mpr_backup None s" by (rule ext)
  moreover have "suspicion nd = None \<or> suspicion nd = Some (\<lambda>_. False)"
    using strategy.off_malicious [OF d] by (cases "nd_defense nd") (auto simp: suspicion_def)
  ultimately show "MprSet (suspicion nd) a s = MprSet None a s" unfolding MprSet_def by presburger
qed

lemma suspicion_bare [bare_simps]: "suspicion (bare nd) = None" "GetBlacklist (bare nd) = []"
  "suspected a (bare nd) = False" "wants_fictitious (bare nd) = False"
  by (simp_all add: suspicion_def GetBlacklist_def suspected_def wants_fictitious_def bare_simps)

lemma blind_MprComputation: "blind MprComputation"
  by (rule blindI) (auto simp: MprComputation_def off_views bare_simps off_simps split: option.splits)

lemma blind_RoutingTableComputation: "blind (RoutingTableComputation now)"
proof (rule blindI)
  fix nd nd' assume off: "off nd"
  show "RoutingTableComputation now (bare nd) = map_sum id bare (RoutingTableComputation now nd)"
    unfolding RoutingTableComputation_def bare_simps off_views(1) [OF off]
    by (cases "rt_tables now (nd_ifaces nd) (nd_mainAddress nd) (nd_state nd) [] (nd_hnaRoutingTable nd)") auto
  show "off nd'" if "RoutingTableComputation now nd = Inr nd'"
    using RoutingTableComputation_Inr [OF that] off by (auto simp: off_simps)
qed

lemma blind_pure:
  "(\<And>nd. g (bare nd) = bare (g nd)) \<Longrightarrow> (\<And>nd. off (g nd) = off nd) \<Longrightarrow> blind f \<Longrightarrow> blind (\<lambda>nd. f (g nd))"
  by (auto simp: blind_def)

lemma blind_NeighborLoss: "blind (NeighborLoss now l)"
proof -
  have "blind (\<lambda>nd. bindR (MprComputation nd) (RoutingTableComputation now))"
    by (rule blind_bindR [OF blind_MprComputation blind_RoutingTableComputation])
  then show ?thesis unfolding NeighborLoss_def [abs_def] Let_def
    by (rule blind_pure [rotated 2]) (simp_all add: bare_simps off_simps)
qed

lemma blind_LinkSensing: "blind (LinkSensing now msg hello ri si)"
proof (rule blindI)
  fix nd nd' assume off: "off nd"
  show "LinkSensing now msg hello ri si (bare nd) = map_sum id bare (LinkSensing now msg hello ri si nd)"
    unfolding LinkSensing_def
    by (auto simp: bare_simps Let_def assertR_def map_sum_bindR split: option.split intro!: bindR_cong)
  show "off nd'" if "LinkSensing now msg hello ri si nd = Inr nd'"
    using that off unfolding LinkSensing_def
    by (auto simp: res_simps off_simps Let_def split: option.splits if_splits)
qed

lemma blind_ProcessHello: "blind (ProcessHello now msg hello ri si)"
proof -
  have mpr: "blind (\<lambda>nd. MprComputation (PopulateTwoHopNeighborSet now msg hello (PopulateNeighborSet msg hello nd)))"
    by (rule blind_pure [OF _ _ blind_MprComputation]) (simp_all add: bare_simps off_simps)
  have sel: "blind (\<lambda>nd. Inr (PopulateMprSelectorSet now msg hello nd))"
    by (rule blind_Inr) (simp_all add: bare_simps off_simps)
  show ?thesis
    unfolding ProcessHello_def [abs_def] by (rule blind_bindR [OF blind_LinkSensing blind_bindR [OF mpr sel]])
qed

section \<open>Messages sent\<close>

lemma blind_new_message:
  "(\<And>nd. off nd \<Longrightarrow> body (bare nd) = body nd) \<Longrightarrow> off nd \<Longrightarrow>
    new_message vtime ttl body (bare nd) = map_sum id (map_prod id bare) (new_message vtime ttl body nd)"
  by (cases "SetVTime vtime \<lparr>m_vTime = 0, m_originatorAddress = nd_mainAddress nd, m_timeToLive = ttl,
        m_hopCount = 0, m_messageSequenceNumber = next_seq (nd_messageSequenceNumber nd), m_messageSize = 0,
        m_message = body (nd\<lparr>nd_messageSequenceNumber := next_seq (nd_messageSequenceNumber nd)\<rparr>)\<rparr>")
    (auto simp: new_message_def GetMessageSequenceNumber_def bare_simps off_simps Let_def)

lemma new_message_off: "new_message vtime ttl body nd = Inr (m, nd') \<Longrightarrow> off nd \<Longrightarrow> off nd'"
  by (auto simp: new_message_def GetMessageSequenceNumber_def res_simps off_simps Let_def)

lemma bare_spoof [bare_simps]: "BuildSpoofTargets k (bare nd) = BuildSpoofTargets k nd"
  by (simp add: BuildSpoofTargets_def spoof_excluded_def spoof_candidates_def own_addresses_def bare_simps)

lemma off_hello_links: "off nd \<Longrightarrow> hello_links now (bare nd) = hello_links now nd"
  by (simp add: hello_links_def hello_link_def [abs_def] off_views bare_simps)

lemma off_tc_addresses: "off nd \<Longrightarrow> tc_addresses (bare nd) = tc_addresses nd"
  by (simp add: tc_addresses_def off_views bare_simps Let_def)

lemma bare_poison [bare_simps]: "poison_ansn (bare nd) = bare (poison_ansn nd)"
  and off_poison [off_simps]: "off (poison_ansn nd) = off nd"
  by (simp_all add: poison_ansn_def bare_simps off_simps)

text \<open>The shape of the four \<open>Send...\<close> functions: a message and what is done with it.\<close>

lemma blind_send:
  assumes "\<And>nd. off nd \<Longrightarrow> hold (bare nd) = hold nd" "\<And>nd. off nd \<Longrightarrow> body (bare nd) = body nd"
    and "\<And>m. blind (g m)"
  shows "blind (\<lambda>nd. bindR (new_message (hold nd) ttl body nd) (\<lambda>(m, nd). g m nd))"
proof (rule blindI)
  fix nd assume off: "off nd"
  have new: "new_message v ttl body (bare nd) = map_sum id (map_prod id bare) (new_message v ttl body nd)" for v
    by (rule blind_new_message) (use assms(2) off in auto)
  show "bindR (new_message (hold (bare nd)) ttl body (bare nd)) (\<lambda>(m, nd). g m nd) =
      map_sum id bare (bindR (new_message (hold nd) ttl body nd) (\<lambda>(m, nd). g m nd))"
    unfolding assms(1) [OF off] new
    using blind_eq [OF assms(3)] new_message_off [OF _ off] by (cases "new_message (hold nd) ttl body nd") auto
  show "off nd'" if "bindR (new_message (hold nd) ttl body nd) (\<lambda>(m, nd). g m nd) = Inr nd'" for nd'
  proof -
    from that obtain m nd1 where n: "new_message (hold nd) ttl body nd = Inr (m, nd1)" and g: "g m nd1 = Inr nd'"
      by (auto simp: bindR_eq_Inr)
    show ?thesis by (rule blind_off [OF assms(3) new_message_off [OF n off] g])
  qed
qed

lemma blind_queue: "blind (\<lambda>nd. Inr (queue_jittered now m nd))"
  by (rule blind_Inr) (simp_all add: bare_simps off_simps)

lemma blind_SendTc: "blind (SendTc now)"
proof -
  have "blind (\<lambda>nd. Inr (queue_jittered now m (poison_ansn nd)))" for m
    by (rule blind_Inr) (simp_all add: bare_simps off_simps)
  then show ?thesis unfolding SendTc_def [abs_def]
    by (intro blind_send) (simp_all add: off_tc_addresses bare_simps)
qed

lemma blind_SendHna: "blind (SendHna now)"
proof (rule blindI)
  fix nd nd' assume off: "off nd"
  let ?as = "\<lambda>nd. map (\<lambda>a. \<lparr>ha_address = as_networkAddr a, ha_mask = as_netmask a\<rparr>) (m_associations (nd_state nd))"
  have "blind (\<lambda>nd. bindR (new_message (OLSR_HNA_HOLD_TIME nd) 255 (\<lambda>_. HNA_MESSAGE \<lparr>associations = as\<rparr>) nd)
      (\<lambda>(m, nd). if as = [] then Inr nd else Inr (queue_jittered now m nd)))" for as
    by (rule blind_send) (auto simp: bare_simps intro!: blind_if blind_Inr blind_queue)
  note b = this [of "?as nd"]
  from blind_eq [OF b off] blind_off [OF b off]
  show "SendHna now (bare nd) = map_sum id bare (SendHna now nd)" "SendHna now nd = Inr nd' \<Longrightarrow> off nd'"
    unfolding SendHna_def bare_simps Let_def by blast+
qed

lemma bare_mid_interfaces [bare_simps]: "mid_interfaces (bare nd) i ifaces = mid_interfaces nd i ifaces"
  by (induction ifaces arbitrary: i) (simp_all add: bare_simps split: list.split)

lemma blind_SendMid: "blind (SendMid now)"
proof (rule blindI)
  fix nd nd' assume off: "off nd"
  have b: "blind (\<lambda>nd. bindR (new_message (OLSR_MID_HOLD_TIME nd) 255
      (\<lambda>_. MID_MESSAGE \<lparr>interfaceAddresses = as\<rparr>) nd) (\<lambda>(m, nd). Inr (queue_jittered now m nd)))" for as
    by (rule blind_send) (simp_all add: bare_simps blind_queue)
  show "SendMid now (bare nd) = map_sum id bare (SendMid now nd)" "SendMid now nd = Inr nd' \<Longrightarrow> off nd'"
    using blind_eq [OF b off] blind_off [OF b off] off
    by (cases "mid_interfaces nd 0 (nd_ifaces nd)"; simp add: SendMid_def bare_simps split: if_splits)+
qed

lemma blind_SendHello: "blind (SendHello now)"
proof (rule blindI)
  fix nd nd' assume off: "off nd"
  have b: "blind (\<lambda>nd. bindR (new_message (OLSR_NEIGHB_HOLD_TIME nd) 1 (\<lambda>_. HELLO_MESSAGE hello) nd) (\<lambda>(m, nd).
      bindR (SetHTime (nd_helloInterval nd) hello) (\<lambda>hello.
        Inr (queue_jittered now (m\<lparr>m_message := HELLO_MESSAGE hello\<rparr>) nd))))" for hello
  proof (rule blind_send)
    fix m
    show "blind (\<lambda>nd. bindR (SetHTime (nd_helloInterval nd) hello) (\<lambda>hello.
        Inr (queue_jittered now (m\<lparr>m_message := HELLO_MESSAGE hello\<rparr>) nd)))"
    proof (rule blindI)
      fix nd nd' assume "off nd"
      then show "bindR (SetHTime (nd_helloInterval (bare nd)) hello) (\<lambda>hello.
          Inr (queue_jittered now (m\<lparr>m_message := HELLO_MESSAGE hello\<rparr>) (bare nd))) =
          map_sum id bare (bindR (SetHTime (nd_helloInterval nd) hello) (\<lambda>hello.
          Inr (queue_jittered now (m\<lparr>m_message := HELLO_MESSAGE hello\<rparr>) nd)))"
        and "bindR (SetHTime (nd_helloInterval nd) hello) (\<lambda>hello.
          Inr (queue_jittered now (m\<lparr>m_message := HELLO_MESSAGE hello\<rparr>) nd)) = Inr nd' \<Longrightarrow> off nd'"
        by (cases "SetHTime (nd_helloInterval nd) hello"; auto simp: bare_simps off_simps)+
    qed
  qed (simp_all add: bare_simps)
  from blind_eq [OF b off] blind_off [OF b off]
  show "SendHello now (bare nd) = map_sum id bare (SendHello now nd)" "SendHello now nd = Inr nd' \<Longrightarrow> off nd'"
    unfolding SendHello_def off_hello_links [OF off] bare_simps Let_def by blast+
qed

lemma blind_restart:
  assumes "\<And>nd. running (bare nd) = running nd" "\<And>nd. due (bare nd) = due nd"
    and "\<And>t nd. put t (bare nd) = bare (put t nd)" "\<And>t nd. off (put t nd) = off nd"
  shows "blind (\<lambda>nd. restart (running nd) (\<lambda>t. put t nd) (due nd))"
  by (rule blindI) (auto simp: restart_def assms split: if_splits)

lemma blind_timers:
  "blind (HelloTimerExpire now)" "blind (TcTimerExpire now)" "blind (MidTimerExpire now)"
  "blind (HnaTimerExpire now)"
  unfolding HelloTimerExpire_def [abs_def] TcTimerExpire_def [abs_def] MidTimerExpire_def [abs_def]
    HnaTimerExpire_def [abs_def]
  by (intro blind_bindR blind_restart blind_SendHello blind_SendMid blind_if blind_SendTc blind_SendHna blind_Inr;
      simp add: bare_simps off_simps)+

lemma blind_broadcast: "blind (broadcast bytes s)"
proof (rule blindI)
  fix nd nd'
  obtain l m where s: "s = (l, m)" by (cases s)
  show "broadcast bytes s (bare nd) = map_sum id bare (broadcast bytes s nd)"
    by (cases "subnet_directed_broadcast l m") (simp_all add: s broadcast_def bare_simps)
  show "off nd \<Longrightarrow> broadcast bytes s nd = Inr nd' \<Longrightarrow> off nd'"
    by (auto simp: s broadcast_def res_simps off_simps)
qed

lemma blind_SendPacket: "blind (SendPacket packet)"
proof (rule blindI)
  fix nd nd' assume off: "off nd"
  let ?nd = "nd\<lparr>nd_packetSequenceNumber := next_seq (nd_packetSequenceNumber nd)\<rparr>"
  have b: "blind (foldE (broadcast bytes) ss)" for bytes ss by (rule blind_foldE) (rule blind_broadcast)
  have "off ?nd" using off by (simp add: off_simps)
  from blind_eq [OF b this] blind_off [OF b this]
  show "SendPacket packet (bare nd) = map_sum id bare (SendPacket packet nd)"
    "SendPacket packet nd = Inr nd' \<Longrightarrow> off nd'"
    by (simp_all add: SendPacket_def GetPacketSequenceNumber_def bare_simps Let_def)
qed

lemma pack_step:
  "pack_message m (p, n, nd) =
    (if n + 1 = OLSR_MAX_MSGS then bindR (SendPacket (p @ Serialize m) nd) (\<lambda>nd. Inr ([], 0, nd))
     else Inr (p @ Serialize m, n + 1, nd))"
  by (simp add: pack_message_def Let_def)

lemma pack_bare:
  "off nd \<Longrightarrow> foldE pack_message ms (p, n, bare nd) =
    map_sum id (map_prod id (map_prod id bare)) (foldE pack_message ms (p, n, nd))"
  and pack_off: "off nd \<Longrightarrow> foldE pack_message ms (p, n, nd) = Inr (p', n', nd') \<Longrightarrow> off nd'"
proof (induction ms arbitrary: p n nd)
  case (Cons m ms)
  {
    case 1
    have b: "SendPacket (p @ Serialize m) (bare nd) = map_sum id bare (SendPacket (p @ Serialize m) nd)"
      by (rule blind_eq [OF blind_SendPacket 1])
    show ?case
    proof (cases "n + 1 = OLSR_MAX_MSGS")
      case True
      then show ?thesis using Cons.IH(1) b blind_off [OF blind_SendPacket 1]
        by (cases "SendPacket (p @ Serialize m) nd") (simp_all add: pack_step)
    qed (use Cons.IH(1) [OF 1] in \<open>simp add: pack_step\<close>)
  next
    case 2
    show ?case
    proof (cases "n + 1 = OLSR_MAX_MSGS")
      case True
      then obtain nd1 where "SendPacket (p @ Serialize m) nd = Inr nd1"
        "foldE pack_message ms ([], 0, nd1) = Inr (p', n', nd')"
        using 2(2) by (auto simp: pack_step bindR_eq_Inr)
      then show ?thesis using Cons.IH(2) blind_off [OF blind_SendPacket 2(1)] by blast
    qed (use Cons.IH(2) [OF 2(1)] 2(2) in \<open>simp add: pack_step\<close>)
  }
qed simp_all

lemma blind_SendQueuedMessages: "blind SendQueuedMessages"
proof (rule blindI)
  fix nd nd' assume off: "off nd"
  have b: "blind (\<lambda>nd. bindR (if packet \<noteq> [] then SendPacket packet nd else Inr nd)
      (\<lambda>nd. Inr (nd\<lparr>nd_queuedMessages := []\<rparr>)))" for packet
    by (intro blind_bindR blind_if blind_SendPacket blind_Inr) (simp_all add: bare_simps off_simps)
  show "SendQueuedMessages (bare nd) = map_sum id bare (SendQueuedMessages nd)"
    unfolding SendQueuedMessages_def bare_simps pack_bare [OF off]
    by (cases "foldE pack_message (nd_queuedMessages nd) ([], 0, nd)")
      (auto simp: blind_eq [OF b] pack_off [OF off])
  show "SendQueuedMessages nd = Inr nd' \<Longrightarrow> off nd'"
    unfolding SendQueuedMessages_def bindR_eq_Inr [of "foldE pack_message (nd_queuedMessages nd) ([], 0, nd)"]
    using pack_off [OF off] blind_off [OF b] by fastforce
qed

lemma bare_hna [bare_simps]:
  "AddHostNetworkAssociation n m (bare nd) = bare (AddHostNetworkAssociation n m nd)"
  "RemoveHostNetworkAssociation n m (bare nd) = bare (RemoveHostNetworkAssociation n m nd)"
  "UsesNonOlsrOutgoingInterface r (bare nd) = UsesNonOlsrOutgoingInterface r nd"
  by (auto simp: AddHostNetworkAssociation_def RemoveHostNetworkAssociation_def
      UsesNonOlsrOutgoingInterface_def bare_simps)

lemma off_hna [off_simps]:
  "off (AddHostNetworkAssociation n m nd) = off nd" "off (RemoveHostNetworkAssociation n m nd) = off nd"
  by (simp_all add: AddHostNetworkAssociation_def RemoveHostNetworkAssociation_def off_simps)

lemma bare_SetRoutingTableAssociation [bare_simps]:
  "SetRoutingTableAssociation rs (bare nd) = bare (SetRoutingTableAssociation rs nd)"
  by (cases "nd_routingTableAssociation nd")
    (simp_all add: SetRoutingTableAssociation_def bare_simps fold_bare Let_def)

lemma off_SetRoutingTableAssociation [off_simps]: "off (SetRoutingTableAssociation rs nd) = off nd"
  by (auto simp: SetRoutingTableAssociation_def off_simps fold_off Let_def split: option.split)

section \<open>Timers, reception and forwarding\<close>

lemma bare_expire [bare_simps]:
  "DupTupleTimerExpire now a q (bare nd) = bare (DupTupleTimerExpire now a q nd)"
  "Nb2hopTupleTimerExpire now n h (bare nd) = bare (Nb2hopTupleTimerExpire now n h nd)"
  "MprSelTupleTimerExpire now a (bare nd) = bare (MprSelTupleTimerExpire now a nd)"
  "TopologyTupleTimerExpire now d l (bare nd) = bare (TopologyTupleTimerExpire now d l nd)"
  "IfaceAssocTupleTimerExpire now a (bare nd) = bare (IfaceAssocTupleTimerExpire now a nd)"
  "AssociationTupleTimerExpire now g n m (bare nd) = bare (AssociationTupleTimerExpire now g n m nd)"
  by (simp_all add: DupTupleTimerExpire_def Nb2hopTupleTimerExpire_def MprSelTupleTimerExpire_def
      TopologyTupleTimerExpire_def IfaceAssocTupleTimerExpire_def AssociationTupleTimerExpire_def
      tuple_methods bare_simps split: option.split)

lemma off_expire [off_simps]:
  "off (DupTupleTimerExpire now a q nd) = off nd" "off (Nb2hopTupleTimerExpire now n h nd) = off nd"
  "off (MprSelTupleTimerExpire now a nd) = off nd" "off (TopologyTupleTimerExpire now d l nd) = off nd"
  "off (IfaceAssocTupleTimerExpire now a nd) = off nd"
  "off (AssociationTupleTimerExpire now g n m nd) = off nd"
  by (simp_all add: DupTupleTimerExpire_def Nb2hopTupleTimerExpire_def MprSelTupleTimerExpire_def
      TopologyTupleTimerExpire_def IfaceAssocTupleTimerExpire_def AssociationTupleTimerExpire_def
      tuple_methods off_simps split: option.split)

lemma blind_LinkTupleTimerExpire: "blind (LinkTupleTimerExpire now a)"
proof (rule blindI)
  fix nd nd' assume off: "off nd"
  have b: "blind (\<lambda>nd. bindR (if nd_linkTupleTimerFirstTime nd then Inr (nd\<lparr>nd_linkTupleTimerFirstTime := False\<rparr>)
      else NeighborLoss now t nd) (\<lambda>nd. Inr (schedule now d e nd)))" for t d e
    by (intro blind_bindR blind_if blind_NeighborLoss blind_Inr) (simp_all add: bare_simps off_simps)
  from blind_eq [OF b off] blind_off [OF b off] off
  show "LinkTupleTimerExpire now a (bare nd) = map_sum id bare (LinkTupleTimerExpire now a nd)"
    "LinkTupleTimerExpire now a nd = Inr nd' \<Longrightarrow> off nd'"
    by (auto simp: LinkTupleTimerExpire_def bare_simps off_simps split: option.splits if_splits)
qed

lemma blind_fire: "blind (fire due e)"
proof -
  have "blind (expire due e)"
  proof (rule blindI)
    fix nd nd' assume off: "off nd"
    show "expire due e (bare nd) = map_sum id bare (expire due e nd)"
      by (cases e) (simp_all add: bare_simps blind_eq [OF blind_LinkTupleTimerExpire off])
    show "off nd'" if "expire due e nd = Inr nd'"
    proof (cases e)
      case (Link_timer a)
      then show ?thesis using that by (intro blind_off [OF blind_LinkTupleTimerExpire off]) simp
    qed (use that off off_expire in \<open>auto simp only: expire.simps sum.inject\<close>)
  qed
  then have "blind (\<lambda>nd. expire due e (nd\<lparr>nd_events := remove1 (due, e) (nd_events nd)\<rparr>))"
    by (rule blind_pure [rotated 2]) (simp_all add: bare_simps off_simps)
  then show ?thesis unfolding fire_def [abs_def] .
qed

text \<open>A change of the defense object is invisible; a hook does not change a switched-off object.\<close>

lemma bare_on_defense [bare_simps]: "bare (on_defense f nd) = bare nd" "on_defense f (bare nd) = bare nd"
  by (simp_all add: on_defense_def bare_def)

lemma off_on_defense: "off nd \<Longrightarrow> (\<And>d. \<not> defense_on d \<Longrightarrow> \<not> defense_on (f d)) \<Longrightarrow> off (on_defense f nd)"
  by (auto simp: off_def on_defense_def split: option.splits)

lemma blind_recv_message: "blind (recv_message now ri si m)"
proof (rule blindI)
  fix nd nd' assume off: "off nd"
  let ?h = "\<lambda>nd. if is_hello m then on_defense (defense_OnRecvHello si (nd_state nd)) nd else nd"
  have proc: "blind (process_message now m ri si)"
    unfolding process_message_def [abs_def]
    by (cases "m_message m") (auto intro!: blind_Inr simp: blind_ProcessHello bare_simps off_simps)
  have b: "blind (\<lambda>nd. bindR (if dup = None then process_message now m ri si nd else Inr nd)
      (\<lambda>nd. Inr (if fwd \<and> \<not> is_hello m then ForwardDefault now m dup ri si nd else nd)))" for dup fwd
    by (intro blind_bindR blind_if proc blind_Inr) (simp_all add: bare_simps off_simps)
  have h: "off (?h nd)" using off by (simp add: off_on_defense)
  have s: "nd_state (?h nd) = nd_state nd" by (simp add: on_defense_def)
  have eq: "(if is_hello m then on_defense f (bare nd) else bare nd) = bare (?h nd)" for f
    by (simp add: bare_simps)
  let ?dup = "FindDuplicateTuple (m_originatorAddress m) (m_messageSequenceNumber m) (nd_state nd)"
  let ?fwd = "case ?dup of None \<Rightarrow> True | Some d \<Rightarrow> ri \<notin> set (dt_ifaceList d)"
  show "recv_message now ri si m (bare nd) = map_sum id bare (recv_message now ri si m nd)"
  proof (cases "m_timeToLive m = 0 \<or> m_originatorAddress m = nd_mainAddress nd")
    case False
    show ?thesis unfolding recv_message_def Let_def bare_fields if_not_P [OF False] eq s
      by (rule blind_eq [OF b h, of ?dup ?fwd])
  qed (simp add: recv_message_def bare_simps)
  show "off nd'" if "recv_message now ri si m nd = Inr nd'"
  proof (cases "m_timeToLive m = 0 \<or> m_originatorAddress m = nd_mainAddress nd")
    case False
    from that show ?thesis unfolding recv_message_def Let_def s if_not_P [OF False]
      by (rule blind_off [OF b h, of ?dup ?fwd])
  qed (use that off in \<open>simp add: recv_message_def\<close>)
qed

lemma blind_RecvOlsr: "blind (RecvOlsr now i sender port bytes)"
proof (rule blindI)
  fix nd nd' assume off: "off nd"
  have own: "own_addresses (bare nd) = own_addresses nd" by (simp add: own_addresses_def bare_simps)
  have b: "blind (\<lambda>nd. bindR (foldE (recv_message now ri sender) messages nd) (RoutingTableComputation now))"
    for ri messages
    by (intro blind_bindR blind_foldE blind_recv_message blind_RoutingTableComputation)
  show "RecvOlsr now i sender port bytes (bare nd) = map_sum id bare (RecvOlsr now i sender port bytes nd)"
    unfolding RecvOlsr_def own bare_fields
    by (cases "GetAddress0 (nd_ifaces nd) i"; cases "ReadPacket bytes")
      (auto simp: assertR_def blind_eq [OF b off])
  show "off nd'" if "RecvOlsr now i sender port bytes nd = Inr nd'"
    using that off unfolding RecvOlsr_def
    by (auto simp: bindR_eq_Inr [of "GetAddress0 _ _"] bindR_eq_Inr [of "ReadPacket _"] assertR_eq_Inr
        split: if_splits intro: blind_off [OF b off])
qed

lemma defense_stays_off:
  assumes "\<not> defense_on d"
  shows "\<not> defense_on (defense_Setup a mac now d)" "\<not> defense_on (defense_PeriodicCheck now d)"
    "\<not> defense_on (defense_SetEnabled False now d)" "\<not> defense_on (on_watchdog (Watchdog_event now) d)"
    "on_watchdog (SnifferRxCallback frame s now) d = d" "on_watchdog PhyRxDropCallback d = d"
proof -
  have sched: "wd_enabled (wd_schedule now w) = wd_enabled w" for w by (simp add: wd_schedule_def)
  show "\<not> defense_on (defense_Setup a mac now d)" "\<not> defense_on (defense_PeriodicCheck now d)"
    "\<not> defense_on (defense_SetEnabled False now d)" "\<not> defense_on (on_watchdog (Watchdog_event now) d)"
    "on_watchdog PhyRxDropCallback d = d"
    using assms by (cases d; simp add: Gcop_Setup_def Watchdog_Setup_def Gcop_PeriodicCheck_def
        Watchdog_PeriodicCheck_def Gcop_SetEnabled_def Watchdog_SetEnabled_def Watchdog_event_def
        PhyRxDropCallback_def sched Let_def split: option.split)+
  show "on_watchdog (SnifferRxCallback frame s now) d = d" using assms by (cases d; cases frame) simp_all
qed

lemma on_defense_off:
  "off nd \<Longrightarrow> (\<And>d. \<not> defense_on d \<Longrightarrow> f d = d) \<Longrightarrow> on_defense f nd = nd"
  by (cases "nd_defense nd") (simp_all add: on_defense_def off_def)

lemma off_packet_forwarded: "off nd \<Longrightarrow> packet_forwarded uid nh dst now nd = nd"
  unfolding packet_forwarded_def by (rule on_defense_off) (simp_all add: defense_off_hooks)

lemma bare_packet_forwarded [bare_simps]: "packet_forwarded uid nh dst now (bare nd) = bare nd"
  by (simp add: packet_forwarded_def bare_simps)

lemma bare_entries [bare_simps]:
  "send_entry e (bare nd) = send_entry e nd" "make_route dst e (bare nd) = make_route dst e nd"
  "IsMyOwnAddress a (bare nd) = IsMyOwnAddress a nd"
  by (simp_all add: send_entry_def make_route_def IsMyOwnAddress_def bare_simps)

lemma off_imp_reroute: "off nd \<Longrightarrow> imp_reroute dst nd er = Inr er"
  by (cases er) (simp add: imp_reroute_def off_views)

lemma RouteOutput_off:
  assumes off: "off nd"
  shows "RouteOutput now uid dst oif (bare nd) = map_sum id (map_prod id bare) (RouteOutput now uid dst oif nd) \<and>
    (\<forall>r nd'. RouteOutput now uid dst oif nd = Inr (r, nd') \<longrightarrow> nd' = nd)"
proof (cases "Lookup dst (nd_table nd)")
  case None
  then show ?thesis using off
    by (cases "SR_RouteOutput (nd_ifaces nd) dst oif (nd_hnaRoutingTable nd)")
      (auto simp: RouteOutput_def bare_simps off_packet_forwarded split: option.splits)
next
  case (Some e)
  have i: "imp_reroute dst (bare nd) er = Inr er" "imp_reroute dst nd er = Inr er" for er
    using off by (simp_all add: off_imp_reroute off_bare)
  show ?thesis
  proof (cases "send_entry e nd")
    case (Inr e2)
    then show ?thesis using Some off
      by (cases "make_route dst e2 nd") (auto simp: RouteOutput_def bare_simps off_packet_forwarded i)
  qed (use Some in \<open>simp add: RouteOutput_def bare_simps\<close>)
qed

lemma RouteInput_off:
  assumes off: "off nd"
  shows "RouteInput now cfg lcb uid origin dst idev (bare nd) =
      map_sum id (map_prod id bare) (RouteInput now cfg lcb uid origin dst idev nd) \<and>
    (\<forall>v nd'. RouteInput now cfg lcb uid origin dst idev nd = Inr (v, nd') \<longrightarrow> nd' = nd)"
proof -
  have i: "imp_reroute dst (bare nd) er = Inr er" "imp_reroute dst nd er = Inr er" for er
    using off by (simp_all add: off_imp_reroute off_bare)
  have fwd: "(case Lookup dst (nd_table nd) of
        Some entry1 \<Rightarrow>
          bindR (send_entry entry1 n) (\<lambda>entry2.
          bindR (make_route dst entry2 n) (\<lambda>rtentry.
          bindR (imp_reroute dst n (entry2, rtentry)) (\<lambda>(entry2, rtentry).
          Inr (Forwarded rtentry, packet_forwarded uid (rt_nextAddr entry2) dst now n))))
      | None \<Rightarrow>
          bindR (SR_RouteInput (nd_ifaces nd) cfg lcb dst idev (nd_hnaRoutingTable nd)) (\<lambda>v. Inr (v, n))) =
    map_sum id (\<lambda>v. (v, n)) (case Lookup dst (nd_table nd) of
        Some entry1 \<Rightarrow> bindR (send_entry entry1 nd) (\<lambda>entry2.
          bindR (make_route dst entry2 nd) (\<lambda>rtentry. Inr (Forwarded rtentry)))
      | None \<Rightarrow> SR_RouteInput (nd_ifaces nd) cfg lcb dst idev (nd_hnaRoutingTable nd))"
    if "n = nd \<or> n = bare nd" for n
    using that off
    by (auto simp: bare_simps i off_packet_forwarded map_sum_bindR split: option.split intro!: bindR_cong)
      (cases "SR_RouteInput (nd_ifaces nd) cfg lcb dst idev (nd_hnaRoutingTable nd)"; simp)+
  let ?m = "case Lookup dst (nd_table nd) of
        Some entry1 \<Rightarrow> bindR (send_entry entry1 nd) (\<lambda>entry2.
          bindR (make_route dst entry2 nd) (\<lambda>rtentry. Inr (Forwarded rtentry)))
      | None \<Rightarrow> SR_RouteInput (nd_ifaces nd) cfg lcb dst idev (nd_hnaRoutingTable nd)"
  obtain k where "RouteInput now cfg lcb uid origin dst idev n = map_sum id (\<lambda>v. (v, n)) k"
    if "n = nd \<or> n = bare nd" for n
  proof (rule that)
    fix n assume n: "n = nd \<or> n = bare nd"
    show "RouteInput now cfg lcb uid origin dst idev n = map_sum id (\<lambda>v. (v, n))
        (if IsMyOwnAddress origin nd then Inr Consumed
         else case idev of None \<Rightarrow> Inl Assertion_failed
         | Some iif \<Rightarrow> bindR (IsDestinationAddress (nd_ifaces nd) cfg dst iif) (\<lambda>mine.
             if mine then Inr (if lcb then Delivered iif else Not_handled)
             else if nd_isMalicious nd then Inr Consumed else ?m))"
      using n fwd [OF n]
      by (auto simp: RouteInput_def bare_simps map_sum_bindR split: option.split intro!: bindR_cong)
  qed
  from this [of nd] this [of "bare nd"] show ?thesis by (cases k) auto
qed

section \<open>The whole node\<close>

lemma blind_HandleDefenseTimer: "blind (\<lambda>nd. HandleDefenseTimer now (nd\<lparr>nd_defenseTimer := None\<rparr>))"
proof (rule blindI)
  fix nd nd' assume off: "off nd"
  have timer: "nd_defenseTimer (on_defense f nd0) = nd_defenseTimer nd0" for f and nd0 :: node
    by (simp add: on_defense_def)
  have bare: "bare (nd0\<lparr>nd_defenseTimer := t\<rparr>) = bare nd0" "bare (nd0\<lparr>nd_localRxDrops := k\<rparr>) = bare nd0"
    for t k and nd0 :: node by (simp_all add: bare_def)
  have none: "nd_defense nd = None \<Longrightarrow> bare nd = bare nd\<lparr>nd_defenseTimer := None\<rparr>" by (simp add: bare_def)
  show "HandleDefenseTimer now ((bare nd)\<lparr>nd_defenseTimer := None\<rparr>) =
      map_sum id bare (HandleDefenseTimer now (nd\<lparr>nd_defenseTimer := None\<rparr>))"
    by (cases "nd_defense nd") (simp_all add: HandleDefenseTimer_def restart_def Let_def timer bare bare_on_defense(1),
        simp_all add: bare_def)
  show "off nd'" if "HandleDefenseTimer now (nd\<lparr>nd_defenseTimer := None\<rparr>) = Inr nd'"
    using that off by (auto simp: HandleDefenseTimer_def restart_def Let_def timer off_updates
        defense_stays_off defense_off_hooks off_on_defense split: option.splits)
qed

lemma off_callbacks:
  assumes "off nd"
  shows "MacTxDrop retry dst nd = nd" "MonitorSnifferRx now frame ip nd = nd"
    "on_defense (on_watchdog (SnifferRxCallback frame s now)) nd = nd"
    "on_defense (on_watchdog PhyRxDropCallback) nd = nd"
  using on_defense_off [OF assms] defense_off_hooks defense_stays_off(5,6)
  by (auto simp: MacTxDrop_def MonitorSnifferRx_def split: option.split wifi_frame.split)

lemma blind_timer_steps:
  "blind (\<lambda>nd. HelloTimerExpire now (nd\<lparr>nd_helloTimer := None\<rparr>))"
  "blind (\<lambda>nd. TcTimerExpire now (nd\<lparr>nd_tcTimer := None\<rparr>))"
  "blind (\<lambda>nd. MidTimerExpire now (nd\<lparr>nd_midTimer := None\<rparr>))"
  "blind (\<lambda>nd. HnaTimerExpire now (nd\<lparr>nd_hnaTimer := None\<rparr>))"
  "blind (\<lambda>nd. SendQueuedMessages (nd\<lparr>nd_queuedMessagesTimer := None\<rparr>))"
  by (rule blind_pure [rotated 2], use blind_timers blind_SendQueuedMessages in \<open>simp_all add: bare_simps off_simps\<close>)+

lemma node_step_bare:
  assumes "i \<noteq> Rx_drop" and off: "off nd"
  shows "node_step now i (bare nd) = map_sum id bare (node_step now i nd)"
proof -
  have bare: "bare (nd0\<lparr>nd_defenseTimer := t\<rparr>) = bare nd0" "bare (nd0\<lparr>nd_localRxDrops := k\<rparr>) = bare nd0"
    for t k and nd0 :: node by (simp_all add: bare_def)
  note eqs = blind_eq [OF _ off]
  show ?thesis
  proof (cases i)
    case (Send_packet uid dst oif)
    then show ?thesis using RouteOutput_off [OF off, of now uid dst oif]
      by (cases "RouteOutput now uid dst oif nd") (auto simp: drop_snd_def)
  next
    case (Transit_packet cfg lcb uid origin dst idev)
    then show ?thesis using RouteInput_off [OF off, of now cfg lcb uid origin dst idev]
      by (cases "RouteInput now cfg lcb uid origin dst idev nd") (auto simp: drop_snd_def)
  next
    case Rx_drop
    then show ?thesis using assms(1) by simp
  next
    case (Reactivate mac)
    then show ?thesis
      by (cases "nd_defense nd") (simp_all add: ReactivateDefenseStrategy_def bare_simps bare Let_def)
  qed (simp_all add: eqs [OF blind_RecvOlsr] eqs [OF blind_fire] eqs [OF blind_HandleDefenseTimer]
      blind_timers [THEN blind_eq] blind_eq [OF blind_SendQueuedMessages] bare_simps off_updates
      off_callbacks off off_bare)
qed

lemma node_step_off:
  assumes "i \<noteq> Set_enabled True" "i \<noteq> Rx_drop" and off: "off nd" and "node_step now i nd = Inr nd'"
  shows "off nd'"
proof -
  note that = assms(4)
  show ?thesis
  proof (cases i)
    case (Send_packet uid dst oif)
    then show ?thesis using that RouteOutput_off [OF off, of now uid dst oif] off
      by (auto simp: drop_snd_def bindR_eq_Inr)
  next
    case (Transit_packet cfg lcb uid origin dst idev)
    then show ?thesis using that RouteInput_off [OF off, of now cfg lcb uid origin dst idev] off
      by (auto simp: drop_snd_def bindR_eq_Inr)
  next
    case (Set_enabled b)
    then have "b = False" using assms(1) by simp
    then show ?thesis using that Set_enabled off by (auto intro: off_on_defense simp: defense_stays_off)
  next
    case (Reactivate mac)
    then show ?thesis using that off
      by (auto simp: ReactivateDefenseStrategy_def off_updates off_on_defense Let_def defense_stays_off
          split: option.splits if_splits)
  next
    case Rx_drop
    then show ?thesis using assms(2) by simp
  next
    case Watchdog_timer
    then show ?thesis using that off by (auto intro: off_on_defense simp: defense_stays_off)
  qed (use that off blind_off [OF blind_RecvOlsr off] blind_off [OF blind_fire off]
      blind_off [OF blind_HandleDefenseTimer off] blind_timer_steps [THEN blind_off, OF off] in
      \<open>auto simp: off_simps off_callbacks\<close>)
qed

lemma blind_node_step: "i \<noteq> Set_enabled True \<Longrightarrow> i \<noteq> Rx_drop \<Longrightarrow> blind (node_step now i)"
  by (rule blindI) (auto intro: node_step_bare node_step_off)

text \<open>
  \<open>alike\<close>: two nodes that differ at most in switched-off defense objects. The counter of reception
  drops, which only the defense timer resets, is the reason why this is not an equation on \<open>bare\<close>.
\<close>

definition alike :: "node \<Rightarrow> node \<Rightarrow> bool" where
  "alike nd nd' \<longleftrightarrow> off nd \<and> off nd' \<and> bare nd = bare nd'"

lemma alike_step:
  assumes "i \<noteq> Set_enabled True" "alike nd1 nd2"
  shows "rel_sum (=) alike (node_step now i nd1) (node_step now i nd2)"
proof (cases "i = Rx_drop")
  case True
  have "bare (nd\<lparr>nd_localRxDrops := k\<rparr>) = bare nd" for k and nd :: node by (simp add: bare_def)
  then show ?thesis using assms(2) True
    by (simp add: alike_def OnLocalRxDrop_def off_updates off_callbacks)
next
  case False
  note b = blind_node_step [OF assms(1) False]
  from assms(2) have off: "off nd1" "off nd2" and eq: "bare nd1 = bare nd2" by (simp_all add: alike_def)
  have "map_sum id bare (node_step now i nd1) = map_sum id bare (node_step now i nd2)"
    using blind_eq [OF b off(1)] blind_eq [OF b off(2)] eq by metis
  then show ?thesis using blind_off [OF b off(1)] blind_off [OF b off(2)]
    by (cases "node_step now i nd1"; cases "node_step now i nd2") (simp_all add: alike_def)
qed

text \<open>A sequence of timed inputs, in the order in which the simulator delivers them.\<close>

definition node_exec :: "(time \<times> input) list \<Rightarrow> node \<Rightarrow> node res" where
  "node_exec = foldE (\<lambda>(now, i). node_step now i)"

lemma alike_exec:
  assumes "\<And>now. (now, Set_enabled True) \<notin> set inputs" "alike nd1 nd2"
  shows "rel_sum (=) alike (node_exec inputs nd1) (node_exec inputs nd2)"
  using assms
proof (induction inputs arbitrary: nd1 nd2)
  case (Cons x inputs)
  obtain now i where x: "x = (now, i)" by (cases x)
  have "i \<noteq> Set_enabled True" using Cons.prems(1) [of now] x by auto
  from alike_step [OF this Cons.prems(2), of now] Cons.IH Cons.prems(1) show ?case
    by (cases "node_step now i nd1"; cases "node_step now i nd2") (simp_all add: node_exec_def x)
qed (simp add: node_exec_def)

text \<open>
  C8: a switched-off defense is no defense. From any state of a node whose strategy object is
  disabled, every sequence of packets, timers, radio events and configuration calls that does not
  enable it leads to the same tables, messages, counters and information base (or the same failure)
  as for the same node without a strategy object: MPR selection, both routing tables, the HELLO and
  TC messages and the forwarding decisions carry no trace of it.
\<close>

theorem defense_off_transparent:
  assumes "off nd" and "\<forall>now. (now, Set_enabled True) \<notin> set inputs"
  shows "map_sum id bare (node_exec inputs nd) =
    map_sum id bare (node_exec inputs (nd\<lparr>nd_defense := None, nd_defenseTimer := None\<rparr>))"
proof -
  have "alike nd (nd\<lparr>nd_defense := None, nd_defenseTimer := None\<rparr>)"
    using assms(1) by (simp add: alike_def off_def bare_def)
  from alike_exec [OF _ this, of inputs] assms(2) show ?thesis
    by (auto simp: rel_sum.simps alike_def)
qed

definition example_inputs :: "(time \<times> input) list" where
  "example_inputs =
     [(5, Set_enabled False), (6, Hello_timer), (7, Send_packet 1 4 None),
      (8, Transit_packet \<lparr>ic_strongEndSystem = False, ic_forwarding = [True, True]\<rparr> True 2 9 4 (Some 1))]"

theorem defense_off_transparent_witness:
  "map_sum id bare (node_exec example_inputs (on_defense (defense_SetEnabled False 5) example_node)) =
    map_sum id bare (node_exec example_inputs
      ((on_defense (defense_SetEnabled False 5) example_node)\<lparr>nd_defense := None, nd_defenseTimer := None\<rparr>))"
proof (rule defense_off_transparent)
  show "off (on_defense (defense_SetEnabled False 5) example_node)"
    by (simp add: off_def on_defense_def example_node_def Gcop_SetEnabled_def)
qed (simp add: example_inputs_def)

end
