(* ===== verification/Fpnt_Net.thy ===== *)
theory Fpnt_Net
  imports Complex_Main Header_Codec
begin

text \<open>
  The trust reasoning of the FPNT defense (olsr-defense-fpnt.cc): the fuzzy Petri net with its two
  incidence matrices and the three matrix operators (\<open>RunFuzzyPetriNet\<close>, Algorithm 1), and the
  slander-filtering aggregation of evaluation vectors (\<open>AggregateEvaluations\<close>, Equations 1 to 3).
  A \<open>std::vector<double>\<close> is a list of rationals, so arithmetic is exact where the C++ rounds to
  doubles. A conversion of a number outside 0..255 to \<open>uint8_t\<close> is \<open>Inl Undefined\<close>.
\<close>

section \<open>The net\<close>

definition NUM_PLACES :: nat where "NUM_PLACES = 15"

definition NUM_TRANSITIONS :: nat where "NUM_TRANSITIONS = 11"

text \<open>The transitions in order: R1a, R1b, R1c, R2, R3, R4, R5, R6a, R6b, R6c, R7.\<close>

definition TH :: "rat list" where
  "TH = [0.4, 0.4, 0.5, 0.5, 0.5, 0.7, 0.8, 0.4, 0.4, 0.4, 0.6]"

definition W_T :: "rat list list" where
  "W_T = [
    [1, 0, 0, 0, 0, 0, 0, 0, 0, 0, 0, 0, 0, 0, 0],
    [0, 0, 0, 1, 0, 0, 0, 0, 0, 0, 0, 0, 0, 0, 0],
    [0, 0, 0, 0, 1, 0, 0, 0, 0, 0, 0, 0, 0, 0, 0],
    [0, 0.6, 0, 0, 0.4, 0, 0, 0, 0, 0, 0, 0, 0, 0, 0],
    [0, 0, 0, 0, 0, 0, 1, 0, 0, 0, 0, 0, 0, 0, 0],
    [0, 0.1, 0.6, 0, 0, 0.3, 0, 0, 0, 0, 0, 0, 0, 0, 0],
    [0, 0, 0, 0, 0, 0, 0, 1, 0, 0, 0, 0, 0, 0, 0],
    [0, 0, 0, 0, 0, 0, 0, 0, 1, 0, 0, 0, 0, 0, 0],
    [0, 0, 0, 0, 0, 0, 0, 0, 0, 1, 0, 0, 0, 0, 0],
    [0, 0, 0, 0, 0, 0, 0, 0, 0, 0, 1, 0, 0, 0, 0],
    [0, 0, 0, 0, 0, 0, 0, 0, 0, 0, 0, 0.5, 0.5, 0, 0]]"

definition U_MAT :: "rat list list" where
  "U_MAT = [
    [0, 0, 0, 0, 0, 0, 0, 0, 0, 0, 0],
    [0, 0, 0, 0, 0, 0, 0, 0, 0, 0, 0],
    [0, 0, 0, 0, 0, 0, 0, 0, 0, 0, 0],
    [0, 0, 0, 0, 0, 0, 0, 0, 0, 0, 0],
    [0, 0, 0, 0, 0, 0, 0, 0, 0, 0, 0],
    [0, 0, 0, 0, 0, 0, 0, 0, 0, 0, 0],
    [0, 0, 0, 0, 0, 0, 0, 0, 0, 0, 0],
    [0, 0, 0, 0, 0, 0, 0, 0, 0, 0, 0],
    [0.9, 0.9, 0.6, 0, 0, 0, 0, 0, 0, 0, 0],
    [0, 0, 0, 0.8, 0, 0, 0, 0, 0, 0, 0],
    [0, 0, 0, 0, 0.9, 0, 0, 0, 0, 0, 0],
    [0, 0, 0, 0, 0, 0.9, 0, 0, 0, 0, 0],
    [0, 0, 0, 0, 0, 0, 1, 0, 0, 0, 0],
    [0, 0, 0, 0, 0, 0, 0, 0.9, 0.7, 0.9, 0],
    [0, 0, 0, 0, 0, 0, 0, 0, 0, 0, 0.9]]"

definition MAX_FPN_ITERATIONS :: nat where "MAX_FPN_ITERATIONS = 10"

definition MatrixOp_Threshold :: "rat list \<Rightarrow> rat list \<Rightarrow> rat list res" where
  "MatrixOp_Threshold input threshold =
     assertR (length input = length threshold)
       (Inr (map2 (\<lambda>a b. if a > b then a else 0) input threshold))"

definition MatrixOp_Max :: "rat list \<Rightarrow> rat list \<Rightarrow> rat list res" where
  "MatrixOp_Max a b = assertR (length a = length b) (Inr (map2 max a b))"

definition MatrixOp_WeightedMax :: "rat list list \<Rightarrow> rat list \<Rightarrow> rat list" where
  "MatrixOp_WeightedMax U G =
     map (\<lambda>p. fold (\<lambda>r maxVal. let val = U ! p ! r * G ! r in if val > maxVal then val else maxVal)
                [0..<NUM_TRANSITIONS] 0)
       [0..<NUM_PLACES]"

text \<open>Step 1, the equivalent input of every transition; steps 2 to 4, one round of the loop.\<close>

definition fpn_input :: "rat list \<Rightarrow> rat list" where
  "fpn_input S =
     map (\<lambda>r. fold (\<lambda>p acc. acc + W_T ! r ! p * S ! p) [0..<NUM_PLACES] 0) [0..<NUM_TRANSITIONS]"

definition fpn_step :: "rat list \<Rightarrow> rat list res" where
  "fpn_step S =
     bindR (MatrixOp_Threshold (fpn_input S) TH) (\<lambda>G.
     MatrixOp_Max S (MatrixOp_WeightedMax U_MAT G))"

text \<open>The loop, with the number of rounds that are left.\<close>

fun fpn_loop :: "nat \<Rightarrow> rat list \<Rightarrow> rat list res" where
  "fpn_loop 0 S = Inr S"
| "fpn_loop (Suc k) S =
     bindR (fpn_step S) (\<lambda>S_next. if S_next = S then Inr S else fpn_loop k S_next)"

record EvaluationVector =
  ev_trust :: u8
  ev_distrust :: u8
  ev_uncertain :: u8
  ev_reserved :: u8

definition EvaluationVector_init :: EvaluationVector where
  "EvaluationVector_init = \<lparr>ev_trust = 0, ev_distrust = 0, ev_uncertain = 0, ev_reserved = 0\<rparr>"

text \<open>\<open>std::round\<close>, which rounds halves away from zero, and the cast to a byte.\<close>

definition std_round :: "rat \<Rightarrow> int" where
  "std_round x = (if x \<ge> 0 then \<lfloor>x + 1 / 2\<rfloor> else - \<lfloor>- x + 1 / 2\<rfloor>)"

definition to_uint8 :: "int \<Rightarrow> u8 res" where
  "to_uint8 n = (if 0 \<le> n \<and> n \<le> 255 then Inr (word_of_int n) else Inl Undefined)"

definition P14_DISTRUST :: nat where "P14_DISTRUST = 13"

definition P15_TRUST :: nat where "P15_TRUST = 14"

text \<open>Step 6, the evaluation triple.\<close>

definition evaluation_triple :: "rat list \<Rightarrow> rat \<times> rat \<times> rat" where
  "evaluation_triple S =
     (let sTrust = S ! P15_TRUST; sDistrust = S ! P14_DISTRUST
      in if sTrust + sDistrust < 1 then (sTrust, sDistrust, 1 - sTrust - sDistrust)
         else (sTrust, 1 - sTrust, 0))"

definition encode_triple :: "rat \<times> rat \<times> rat \<Rightarrow> EvaluationVector res" where
  "encode_triple = (\<lambda>(eTrust, eDistrust, eUncertain).
     bindR (to_uint8 (std_round (eTrust * 255))) (\<lambda>t.
     bindR (to_uint8 (std_round (eDistrust * 255))) (\<lambda>d.
     bindR (to_uint8 (std_round (eUncertain * 255))) (\<lambda>u.
     Inr (EvaluationVector_init\<lparr>ev_trust := t, ev_distrust := d, ev_uncertain := u\<rparr>)))))"

definition RunFuzzyPetriNet :: "rat list \<Rightarrow> EvaluationVector res" where
  "RunFuzzyPetriNet s0 =
     assertR (length s0 = NUM_PLACES)
       (bindR (fpn_loop MAX_FPN_ITERATIONS s0) (\<lambda>S. encode_triple (evaluation_triple S)))"

section \<open>The rule base\<close>

text \<open>
  The seven rules as the source's comment lists them: weighted input places, threshold, output
  place and certainty of each transition, with places numbered from 0. One forward pass over the
  rules in this order is the reference semantics of the net.
\<close>

type_synonym fpn_rule = "(nat \<times> rat) list \<times> rat \<times> nat \<times> rat"

definition fpn_rules :: "fpn_rule list" where
  "fpn_rules =
    [([(0, 1)], 0.4, 8, 0.9),
     ([(3, 1)], 0.4, 8, 0.9),
     ([(4, 1)], 0.5, 8, 0.6),
     ([(1, 0.6), (4, 0.4)], 0.5, 9, 0.8),
     ([(6, 1)], 0.5, 10, 0.9),
     ([(2, 0.6), (5, 0.3), (1, 0.1)], 0.7, 11, 0.9),
     ([(7, 1)], 0.8, 12, 1),
     ([(8, 1)], 0.4, 13, 0.9),
     ([(9, 1)], 0.4, 13, 0.7),
     ([(10, 1)], 0.4, 13, 0.9),
     ([(11, 0.5), (12, 0.5)], 0.6, 14, 0.9)]"

definition rule_fire :: "rat list \<Rightarrow> fpn_rule \<Rightarrow> rat" where
  "rule_fire S = (\<lambda>(ins, tau, out, mu).
     let i = (\<Sum>(p, w) \<leftarrow> ins. w * S ! p) in if i > tau then mu * i else 0)"

definition apply_rule :: "fpn_rule \<Rightarrow> rat list \<Rightarrow> rat list" where
  "apply_rule rule S =
     (case rule of (ins, tau, out, mu) \<Rightarrow> S[out := max (S ! out) (rule_fire S rule)])"

definition forward_chain :: "rat list \<Rightarrow> rat list" where
  "forward_chain S = fold apply_rule fpn_rules S"

section \<open>One round of the net in closed form\<close>

text \<open>Loops over the indices of two vectors are loops over their paired elements.\<close>

lemma fold_nth2:
  "length xs = length ys \<Longrightarrow>
    fold (\<lambda>i. f (xs ! i) (ys ! i)) [0..<length xs] a = fold (\<lambda>(x, y). f x y) (zip xs ys) a"
proof (induction xs ys arbitrary: a rule: rev_induct2)
  case (4 x xs y ys)
  have "fold (\<lambda>i. f ((xs @ [x]) ! i) ((ys @ [y]) ! i)) [0..<length xs] a
      = fold (\<lambda>i. f (xs ! i) (ys ! i)) [0..<length xs] a"
    using 4(2) by (intro fold_cong) (auto simp: nth_append)
  with 4 show ?case by (simp add: nth_append)
qed simp_all

lemma map_nth_rows: "length M = n \<Longrightarrow> map (\<lambda>r. f (M ! r)) [0..<n] = map f M"
  by (metis map_nth map_map comp_apply map_cong)

definition thr :: "rat \<Rightarrow> rat \<Rightarrow> rat" where "thr t x = (if x > t then x else 0)"

lemma thr_nonneg [simp]: "0 \<le> t \<Longrightarrow> 0 \<le> thr t x"
  by (simp add: thr_def)

lemma thr_mono: "0 \<le> t \<Longrightarrow> x \<le> y \<Longrightarrow> thr t x \<le> thr t y"
  by (auto simp: thr_def)

lemma thr_le: "0 \<le> x \<Longrightarrow> thr t x \<le> x"
  by (simp add: thr_def)

lemma fpn_input_rows:
  "length S = 15 \<Longrightarrow> fpn_input S = map (\<lambda>row. fold (\<lambda>(w, s) acc. acc + w * s) (zip row S) 0) W_T"
proof -
  assume S: "length S = 15"
  have rows: "\<forall>row\<in>set W_T. length row = 15" by (simp add: W_T_def)
  have "fpn_input S = map (\<lambda>row. fold (\<lambda>p. (\<lambda>w s acc. acc + w * s) (row ! p) (S ! p)) [0..<15] 0) W_T"
    unfolding fpn_input_def NUM_PLACES_def NUM_TRANSITIONS_def
    by (rule map_nth_rows) (simp add: W_T_def)
  also have "\<dots> = map (\<lambda>row. fold (\<lambda>(w, s) acc. acc + w * s) (zip row S) 0) W_T"
  proof (rule map_cong [OF refl])
    fix row assume "row \<in> set W_T"
    with rows have "length row = 15" by blast
    with S fold_nth2 [of row S "\<lambda>w s acc. acc + w * s" 0]
    show "fold (\<lambda>p. (\<lambda>w s acc. acc + w * s) (row ! p) (S ! p)) [0..<15] 0
        = fold (\<lambda>(w, s) acc. acc + w * s) (zip row S) 0" by simp
  qed
  finally show ?thesis .
qed

lemma fpn_input_closed:
  "fpn_input [p1, p2, p3, p4, p5, p6, p7, p8, p9, p10, p11, p12, p13, p14, p15] =
     [p1, p4, p5, 0.6 * p2 + 0.4 * p5, p7, 0.1 * p2 + 0.6 * p3 + 0.3 * p6, p8, p9, p10, p11,
      0.5 * p12 + 0.5 * p13]"
  by (simp add: fpn_input_rows W_T_def)

lemma weighted_max_rows:
  assumes "length G = 11"
  shows "MatrixOp_WeightedMax U_MAT G = map (\<lambda>row. fold (\<lambda>(u, g) m. max m (u * g)) (zip row G) 0) U_MAT"
proof -
  have rows: "\<forall>row\<in>set U_MAT. length row = 11" by (simp add: U_MAT_def)
  have max_if: "(let val = u * g in if val > m then val else m) = max m (u * g)" for u g m :: rat
    by (simp add: Let_def max_def)
  have "MatrixOp_WeightedMax U_MAT G
      = map (\<lambda>row. fold (\<lambda>r. (\<lambda>u g m. max m (u * g)) (row ! r) (G ! r)) [0..<11] 0) U_MAT"
    unfolding MatrixOp_WeightedMax_def NUM_PLACES_def NUM_TRANSITIONS_def max_if
    by (rule map_nth_rows) (simp add: U_MAT_def)
  also have "\<dots> = map (\<lambda>row. fold (\<lambda>(u, g) m. max m (u * g)) (zip row G) 0) U_MAT"
  proof (rule map_cong [OF refl])
    fix row assume "row \<in> set U_MAT"
    with rows have "length row = 11" by blast
    with assms fold_nth2 [of row G "\<lambda>u g m. max m (u * g)" 0]
    show "fold (\<lambda>r. (\<lambda>u g m. max m (u * g)) (row ! r) (G ! r)) [0..<11] 0
        = fold (\<lambda>(u, g) m. max m (u * g)) (zip row G) 0" by simp
  qed
  finally show ?thesis .
qed

lemma weighted_max_closed:
  assumes "0 \<le> g1" "0 \<le> g2" "0 \<le> g3" "0 \<le> g4" "0 \<le> g5" "0 \<le> g6" "0 \<le> g7" "0 \<le> g8" "0 \<le> g9"
    "0 \<le> g10" "0 \<le> g11"
  shows "MatrixOp_WeightedMax U_MAT [g1, g2, g3, g4, g5, g6, g7, g8, g9, g10, g11] =
     [0, 0, 0, 0, 0, 0, 0, 0, max (max (0.9 * g1) (0.9 * g2)) (0.6 * g3), 0.8 * g4, 0.9 * g5,
      0.9 * g6, g7, max (max (0.9 * g8) (0.7 * g9)) (0.9 * g10), 0.9 * g11]"
  using assms
  by (subst weighted_max_rows) (simp_all add: U_MAT_def max_absorb1 max_absorb2 le_max_iff_disj)

lemma threshold_closed:
  "MatrixOp_Threshold [i1, i2, i3, i4, i5, i6, i7, i8, i9, i10, i11] TH =
     Inr [thr 0.4 i1, thr 0.4 i2, thr 0.5 i3, thr 0.5 i4, thr 0.5 i5, thr 0.7 i6, thr 0.8 i7,
          thr 0.4 i8, thr 0.4 i9, thr 0.4 i10, thr 0.6 i11]"
  unfolding MatrixOp_Threshold_def TH_def thr_def by simp

lemma fpn_step_closed:
  "fpn_step [p1, p2, p3, p4, p5, p6, p7, p8, p9, p10, p11, p12, p13, p14, p15] =
     Inr [max p1 0, max p2 0, max p3 0, max p4 0, max p5 0, max p6 0, max p7 0, max p8 0,
          max p9 (max (max (0.9 * thr 0.4 p1) (0.9 * thr 0.4 p4)) (0.6 * thr 0.5 p5)),
          max p10 (0.8 * thr 0.5 (0.6 * p2 + 0.4 * p5)),
          max p11 (0.9 * thr 0.5 p7),
          max p12 (0.9 * thr 0.7 (0.1 * p2 + 0.6 * p3 + 0.3 * p6)),
          max p13 (thr 0.8 p8),
          max p14 (max (max (0.9 * thr 0.4 p9) (0.7 * thr 0.4 p10)) (0.9 * thr 0.4 p11)),
          max p15 (0.9 * thr 0.6 (0.5 * p12 + 0.5 * p13))]"
  by (simp only: fpn_step_def fpn_input_closed threshold_closed bindR.simps)
     (subst weighted_max_closed, simp_all add: MatrixOp_Max_def)


section \<open>The loop reaches the fixed point\<close>

definition fuzzy :: "rat list \<Rightarrow> bool" where
  "fuzzy S \<longleftrightarrow> length S = NUM_PLACES \<and> (\<forall>x\<in>set S. 0 \<le> x \<and> x \<le> 1)"

lemma length15E:
  assumes "length S = NUM_PLACES"
  obtains p1 p2 p3 p4 p5 p6 p7 p8 p9 p10 p11 p12 p13 p14 p15
  where "S = [p1, p2, p3, p4, p5, p6, p7, p8, p9, p10, p11, p12, p13, p14, p15]"
  using assms by (auto simp: NUM_PLACES_def numeral_eq_Suc length_Suc_conv)

text \<open>The places after the net has settled: two strata of rules over the evidence places.\<close>

definition settle :: "rat list \<Rightarrow> rat list" where
  "settle S = (case S of
     [p1, p2, p3, p4, p5, p6, p7, p8, p9, p10, p11, p12, p13, p14, p15] \<Rightarrow>
       (let q9 = max p9 (max (max (0.9 * thr 0.4 p1) (0.9 * thr 0.4 p4)) (0.6 * thr 0.5 p5));
            q10 = max p10 (0.8 * thr 0.5 (0.6 * p2 + 0.4 * p5));
            q11 = max p11 (0.9 * thr 0.5 p7);
            q12 = max p12 (0.9 * thr 0.7 (0.1 * p2 + 0.6 * p3 + 0.3 * p6));
            q13 = max p13 (thr 0.8 p8);
            q14 = max p14 (max (max (0.9 * thr 0.4 q9) (0.7 * thr 0.4 q10)) (0.9 * thr 0.4 q11));
            q15 = max p15 (0.9 * thr 0.6 (0.5 * q12 + 0.5 * q13))
        in [p1, p2, p3, p4, p5, p6, p7, p8, q9, q10, q11, q12, q13, q14, q15])
   | _ \<Rightarrow> S)"

lemmas settle_closed =
  settle_def [of "[p1, p2, p3, p4, p5, p6, p7, p8, p9, p10, p11, p12, p13, p14, p15]", unfolded list.case]
  for p1 p2 p3 p4 p5 p6 p7 p8 p9 p10 p11 p12 p13 p14 p15

lemma max_mono_chain: "(a::rat) \<le> b \<Longrightarrow> max (max p a) b = max p b"
  by auto

lemma settle_two_steps:
  assumes "length S = NUM_PLACES" and "\<forall>x\<in>set S. 0 \<le> x"
  shows "bindR (fpn_step S) fpn_step = Inr (settle S) \<and> fpn_step (settle S) = Inr (settle S)"
proof -
  obtain p1 p2 p3 p4 p5 p6 p7 p8 p9 p10 p11 p12 p13 p14 p15
    where S: "S = [p1, p2, p3, p4, p5, p6, p7, p8, p9, p10, p11, p12, p13, p14, p15]"
    by (rule length15E [OF assms(1)])
  define a9 where "a9 = max (max (0.9 * thr 0.4 p1) (0.9 * thr 0.4 p4)) (0.6 * thr 0.5 p5)"
  define a10 where "a10 = 0.8 * thr 0.5 (0.6 * p2 + 0.4 * p5)"
  define a11 where "a11 = 0.9 * thr 0.5 p7"
  define a12 where "a12 = 0.9 * thr 0.7 (0.1 * p2 + 0.6 * p3 + 0.3 * p6)"
  define a13 where "a13 = thr 0.8 p8"
  have pos: "0 \<le> p1" "0 \<le> p2" "0 \<le> p3" "0 \<le> p4" "0 \<le> p5" "0 \<le> p6" "0 \<le> p7" "0 \<le> p8"
    "0 \<le> p9" "0 \<le> p10" "0 \<le> p11" "0 \<le> p12" "0 \<le> p13" "0 \<le> p14" "0 \<le> p15"
    using assms(2) by (simp_all add: S)
  define q where "q = (\<lambda>x9 x10 x11. max (max (0.9 * thr 0.4 x9) (0.7 * thr 0.4 x10)) (0.9 * thr 0.4 x11))"
  define r where "r = (\<lambda>x12 x13. 0.9 * thr 0.6 (0.5 * x12 + 0.5 * x13))"
  have q_mono: "q p9 p10 p11 \<le> q (max p9 a9) (max p10 a10) (max p11 a11)"
    unfolding q_def by (intro max.mono mult_left_mono thr_mono) auto
  have r_mono: "r p12 p13 \<le> r (max p12 a12) (max p13 a13)"
    unfolding r_def by (intro mult_left_mono thr_mono add_mono) auto
  have closed: "fpn_step [p1, p2, p3, p4, p5, p6, p7, p8, x9, x10, x11, x12, x13, x14, x15] =
      Inr [p1, p2, p3, p4, p5, p6, p7, p8, max x9 a9, max x10 a10, max x11 a11, max x12 a12,
           max x13 a13, max x14 (q x9 x10 x11), max x15 (r x12 x13)]" for x9 x10 x11 x12 x13 x14 x15
    unfolding fpn_step_closed a9_def a10_def a11_def a12_def a13_def q_def r_def
    by (simp add: pos max_absorb1)
  have settled: "settle S = [p1, p2, p3, p4, p5, p6, p7, p8, max p9 a9, max p10 a10, max p11 a11,
      max p12 a12, max p13 a13, max p14 (q (max p9 a9) (max p10 a10) (max p11 a11)),
      max p15 (r (max p12 a12) (max p13 a13))]"
    unfolding S settle_closed Let_def a9_def a10_def a11_def a12_def a13_def q_def r_def by (rule refl)
  show ?thesis
    unfolding settled unfolding S by (simp add: closed max_mono_chain [OF q_mono] max_mono_chain [OF r_mono])
qed

lemma fpn_loop_fixpoint: "fpn_step S = Inr S \<Longrightarrow> fpn_loop k S = Inr S"
  by (cases k) simp_all

lemma fpn_loop_settles:
  assumes "length S = NUM_PLACES" and "\<forall>x\<in>set S. 0 \<le> x"
  shows "fpn_loop (Suc (Suc k)) S = Inr (settle S)"
proof -
  note two = settle_two_steps [OF assms]
  then obtain S1 where S1: "fpn_step S = Inr S1" "fpn_step S1 = Inr (settle S)"
    by (auto simp: bindR_eq_Inr)
  show ?thesis
    using S1 two fpn_loop_fixpoint [of "settle S" k] by auto
qed

text \<open>The effect of each rule on the vector of places.\<close>

lemma rule_fire_thr: "rule_fire S (ins, tau, out, mu) = mu * thr tau (\<Sum>(p, w) \<leftarrow> ins. w * S ! p)"
  by (simp add: rule_fire_def thr_def Let_def)

lemma apply_rule_closed:
  "apply_rule ([(0, 1)], 0.4, 8, 0.9) [p1, p2, p3, p4, p5, p6, p7, p8, p9, p10, p11, p12, p13, p14, p15] =
     [p1, p2, p3, p4, p5, p6, p7, p8, max p9 (0.9 * thr 0.4 p1), p10, p11, p12, p13, p14, p15]"
  "apply_rule ([(3, 1)], 0.4, 8, 0.9) [p1, p2, p3, p4, p5, p6, p7, p8, p9, p10, p11, p12, p13, p14, p15] =
     [p1, p2, p3, p4, p5, p6, p7, p8, max p9 (0.9 * thr 0.4 p4), p10, p11, p12, p13, p14, p15]"
  "apply_rule ([(4, 1)], 0.5, 8, 0.6) [p1, p2, p3, p4, p5, p6, p7, p8, p9, p10, p11, p12, p13, p14, p15] =
     [p1, p2, p3, p4, p5, p6, p7, p8, max p9 (0.6 * thr 0.5 p5), p10, p11, p12, p13, p14, p15]"
  "apply_rule ([(1, 0.6), (4, 0.4)], 0.5, 9, 0.8) [p1, p2, p3, p4, p5, p6, p7, p8, p9, p10, p11, p12, p13, p14, p15] =
     [p1, p2, p3, p4, p5, p6, p7, p8, p9, max p10 (0.8 * thr 0.5 (0.6 * p2 + 0.4 * p5)), p11, p12, p13, p14, p15]"
  "apply_rule ([(6, 1)], 0.5, 10, 0.9) [p1, p2, p3, p4, p5, p6, p7, p8, p9, p10, p11, p12, p13, p14, p15] =
     [p1, p2, p3, p4, p5, p6, p7, p8, p9, p10, max p11 (0.9 * thr 0.5 p7), p12, p13, p14, p15]"
  "apply_rule ([(2, 0.6), (5, 0.3), (1, 0.1)], 0.7, 11, 0.9) [p1, p2, p3, p4, p5, p6, p7, p8, p9, p10, p11, p12, p13, p14, p15] =
     [p1, p2, p3, p4, p5, p6, p7, p8, p9, p10, p11, max p12 (0.9 * thr 0.7 (0.1 * p2 + 0.6 * p3 + 0.3 * p6)), p13, p14, p15]"
  "apply_rule ([(7, 1)], 0.8, 12, 1) [p1, p2, p3, p4, p5, p6, p7, p8, p9, p10, p11, p12, p13, p14, p15] =
     [p1, p2, p3, p4, p5, p6, p7, p8, p9, p10, p11, p12, max p13 (thr 0.8 p8), p14, p15]"
  "apply_rule ([(8, 1)], 0.4, 13, 0.9) [p1, p2, p3, p4, p5, p6, p7, p8, p9, p10, p11, p12, p13, p14, p15] =
     [p1, p2, p3, p4, p5, p6, p7, p8, p9, p10, p11, p12, p13, max p14 (0.9 * thr 0.4 p9), p15]"
  "apply_rule ([(9, 1)], 0.4, 13, 0.7) [p1, p2, p3, p4, p5, p6, p7, p8, p9, p10, p11, p12, p13, p14, p15] =
     [p1, p2, p3, p4, p5, p6, p7, p8, p9, p10, p11, p12, p13, max p14 (0.7 * thr 0.4 p10), p15]"
  "apply_rule ([(10, 1)], 0.4, 13, 0.9) [p1, p2, p3, p4, p5, p6, p7, p8, p9, p10, p11, p12, p13, p14, p15] =
     [p1, p2, p3, p4, p5, p6, p7, p8, p9, p10, p11, p12, p13, max p14 (0.9 * thr 0.4 p11), p15]"
  "apply_rule ([(11, 0.5), (12, 0.5)], 0.6, 14, 0.9) [p1, p2, p3, p4, p5, p6, p7, p8, p9, p10, p11, p12, p13, p14, p15] =
     [p1, p2, p3, p4, p5, p6, p7, p8, p9, p10, p11, p12, p13, p14, max p15 (0.9 * thr 0.6 (0.5 * p12 + 0.5 * p13))]"
  by (simp_all add: apply_rule_def rule_fire_thr add.commute add.left_commute
      del: times_divide_eq_left times_divide_eq_right)

lemma forward_chain_settle:
  assumes "length S = NUM_PLACES"
  shows "forward_chain S = settle S"
proof -
  obtain p1 p2 p3 p4 p5 p6 p7 p8 p9 p10 p11 p12 p13 p14 p15
    where S: "S = [p1, p2, p3, p4, p5, p6, p7, p8, p9, p10, p11, p12, p13, p14, p15]"
    by (rule length15E [OF assms])
  show ?thesis
    by (simp only: S forward_chain_def fpn_rules_def fold.simps id_apply comp_apply apply_rule_closed
        settle_closed Let_def max.assoc)
qed

section \<open>The slander filter\<close>

definition DIF_EPS :: rat where "DIF_EPS = 1 / 1000000000"

text \<open>A byte decoded to the unit interval, and the distance of two vectors in Equation (1).\<close>

definition decode :: "u8 \<Rightarrow> rat" where "decode b = of_nat (unat b) / 255"

definition ev_distance :: "EvaluationVector \<Rightarrow> EvaluationVector \<Rightarrow> rat" where
  "ev_distance k v =
     \<bar>decode (ev_trust k) - decode (ev_trust v)\<bar>
     + \<bar>decode (ev_distrust k) - decode (ev_distrust v)\<bar>
     + \<bar>decode (ev_uncertain k) - decode (ev_uncertain v)\<bar>"

definition ev_dif :: "EvaluationVector list \<Rightarrow> EvaluationVector \<Rightarrow> rat" where
  "ev_dif evs k = (\<Sum>v \<leftarrow> evs. ev_distance k v)"

text \<open>The weights of Equation (2); a division by zero is \<open>Inl Undefined\<close>.\<close>

definition ev_weights :: "EvaluationVector list \<Rightarrow> rat list res" where
  "ev_weights evs =
     (let n = length evs;
          dif = map (ev_dif evs) evs;
          maxDif = fold max (tl dif) (hd dif)
      in if maxDif < DIF_EPS then Inr (replicate n (1 / of_nat n))
         else if 0 \<in> set dif then Inl Undefined
         else let sumInvDif = (\<Sum>d \<leftarrow> dif. 1 / d)
              in Inr (map (\<lambda>d. (1 / d) / sumInvDif) dif))"

definition clamp :: "rat \<Rightarrow> rat \<Rightarrow> rat \<Rightarrow> rat" where
  "clamp x lo hi = (if x < lo then lo else if hi < x then hi else x)"

text \<open>\<open>AggregateEvaluations\<close>: the pair (\<open>outTrust\<close>, \<open>outUncertain\<close>) of Equation (3).\<close>

definition AggregateEvaluations :: "EvaluationVector list \<Rightarrow> (rat \<times> rat) res" where
  "AggregateEvaluations evs =
     assertR (evs \<noteq> [])
       (bindR (ev_weights evs) (\<lambda>alpha.
          let outTrust = (\<Sum>(a, ev) \<leftarrow> zip alpha evs. a * decode (ev_trust ev));
              outUncertain = (\<Sum>(a, ev) \<leftarrow> zip alpha evs. a * decode (ev_uncertain ev))
          in Inr (clamp outTrust 0 1, clamp outUncertain 0 1)))"

section \<open>The aggregate is a convex combination\<close>

lemma unat_u8_le: "unat (b :: u8) \<le> 255"
  using unsigned_less [of b, where 'a = nat] by simp

lemma decode_bounds [simp]: "0 \<le> decode b" "decode b \<le> 1"
proof -
  have "(of_nat (unat b) :: rat) \<le> of_nat 255" using unat_u8_le [of b] by (subst of_nat_le_iff)
  then show "decode b \<le> 1" by (simp add: decode_def del: of_nat_unat)
qed (simp add: decode_def del: of_nat_unat)

lemma decode_eq_iff [simp]: "decode a = decode b \<longleftrightarrow> a = b"
  by (simp add: decode_def word_unat_eq_iff del: of_nat_unat)

lemma ev_distance_nonneg [simp]: "0 \<le> ev_distance k v"
  by (simp add: ev_distance_def)

lemma ev_distance_0: "ev_distance k v = 0 \<longleftrightarrow>
    ev_trust k = ev_trust v \<and> ev_distrust k = ev_distrust v \<and> ev_uncertain k = ev_uncertain v"
  unfolding ev_distance_def by (simp add: add_nonneg_eq_0_iff)

lemma ev_distance_sym: "ev_distance k v = ev_distance v k"
  by (simp add: ev_distance_def abs_minus_commute)

lemma ev_dif_nonneg [simp]: "0 \<le> ev_dif evs k"
  unfolding ev_dif_def by (rule sum_list_nonneg) auto

lemma fold_max_ge: "x \<in> set (m # xs) \<Longrightarrow> (x::rat) \<le> fold max xs m"
  by (metis Max.set_eq_fold Max_ge finite_set)

lemma fold_max_mem: "fold max xs (m::rat) \<in> set (m # xs)"
  by (metis Max.set_eq_fold Max_in finite_set list.simps(3) set_empty)

lemma sum_list_zeroD:
  "(\<Sum>x \<leftarrow> xs. f x) = (0::rat) \<Longrightarrow> (\<And>x. 0 \<le> f x) \<Longrightarrow> x \<in> set xs \<Longrightarrow> f x = 0"
proof (induction xs)
  case (Cons y ys)
  have "0 \<le> (\<Sum>x \<leftarrow> ys. f x)" by (rule sum_list_nonneg) (auto simp: Cons.prems(2))
  then show ?case using Cons by (auto simp: add_nonneg_eq_0_iff)
qed simp

text \<open>A vector at distance 0 from all others makes all distances 0.\<close>

lemma ev_dif_zero_all:
  assumes "k \<in> set evs" and "ev_dif evs k = 0" and "k' \<in> set evs"
  shows "ev_dif evs k' = 0"
proof -
  have zero: "ev_distance k v = 0" if "v \<in> set evs" for v
    using sum_list_zeroD [OF assms(2) [unfolded ev_dif_def] _ that] by simp
  have "ev_distance k' v = 0" if "v \<in> set evs" for v
    using zero [OF that] zero [OF assms(3)] by (simp add: ev_distance_0)
  then show ?thesis unfolding ev_dif_def by (induction evs) auto
qed

lemma ev_weights_cases:
  assumes "evs \<noteq> []"
  obtains (equal) "\<forall>d\<in>ev_dif evs ` set evs. d < DIF_EPS"
      "ev_weights evs = Inr (replicate (length evs) (1 / of_nat (length evs)))"
    | (inverse) "\<forall>d\<in>ev_dif evs ` set evs. 0 < d" "\<exists>d\<in>ev_dif evs ` set evs. DIF_EPS \<le> d"
      "ev_weights evs = Inr (map (\<lambda>k. (1 / ev_dif evs k) / (\<Sum>k \<leftarrow> evs. 1 / ev_dif evs k)) evs)"
proof -
  define dif where "dif = map (ev_dif evs) evs"
  have ne: "dif \<noteq> []" using assms by (simp add: dif_def)
  have set_dif: "set dif = ev_dif evs ` set evs" by (simp add: dif_def)
  define m where "m = fold max (tl dif) (hd dif)"
  have upper: "d \<le> m" if "d \<in> set dif" for d
    using that ne fold_max_ge [of d "hd dif" "tl dif"] by (simp add: m_def)
  have mem: "m \<in> set dif"
    using ne fold_max_mem [of "tl dif" "hd dif"] by (simp add: m_def)
  show thesis
  proof (cases "m < DIF_EPS")
    case True
    then show thesis
      using upper set_dif by (intro equal) (force, simp add: ev_weights_def m_def dif_def Let_def)
  next
    case False
    then have "m \<noteq> 0" by (auto simp: DIF_EPS_def)
    then have nz: "0 \<notin> set dif" using ev_dif_zero_all mem set_dif by (metis imageE)
    then have pos: "\<forall>d\<in>ev_dif evs ` set evs. 0 < d"
      using set_dif ev_dif_nonneg by (metis imageE order_le_less)
    moreover have "\<exists>d\<in>ev_dif evs ` set evs. DIF_EPS \<le> d" using False mem set_dif by (metis not_less)
    moreover have "ev_weights evs =
        Inr (map (\<lambda>k. (1 / ev_dif evs k) / (\<Sum>k \<leftarrow> evs. 1 / ev_dif evs k)) evs)"
      using False nz by (simp add: ev_weights_def m_def dif_def Let_def comp_def)
    ultimately show thesis by (rule inverse)
  qed
qed

lemma sum_list_divide: "(\<Sum>x \<leftarrow> xs. f x / (c::rat)) = (\<Sum>x \<leftarrow> xs. f x) / c"
  by (induction xs) (simp_all add: add_divide_distrib)

lemma sum_list_pos: "xs \<noteq> [] \<Longrightarrow> \<forall>x\<in>set xs. 0 < f x \<Longrightarrow> (0::rat) < (\<Sum>x \<leftarrow> xs. f x)"
proof (induction xs)
  case (Cons x xs)
  then show ?case by (cases "xs = []") (auto simp: add_pos_pos)
qed simp

lemma ev_weights_convex:
  assumes "evs \<noteq> []"
  shows "\<exists>alpha. ev_weights evs = Inr alpha \<and> length alpha = length evs \<and> (\<forall>a\<in>set alpha. 0 \<le> a)
    \<and> sum_list alpha = 1"
  using assms
proof (cases rule: ev_weights_cases)
  case equal
  then show ?thesis using assms by (simp add: sum_list_replicate)
next
  case inverse
  have "0 < (\<Sum>k \<leftarrow> evs. 1 / ev_dif evs k)"
    using inverse(1) by (intro sum_list_pos [OF assms]) auto
  then have "(\<Sum>k \<leftarrow> evs. (1 / ev_dif evs k) / (\<Sum>k \<leftarrow> evs. 1 / ev_dif evs k)) = 1"
    by (simp add: sum_list_divide del: divide_divide_eq_left)
  with inverse(3) show ?thesis
    by (intro exI conjI) (auto intro!: divide_nonneg_nonneg sum_list_nonneg simp del: divide_divide_eq_left)
qed

lemma convex_bounds:
  assumes "length alpha = length xs" and "\<forall>a\<in>set alpha. 0 \<le> (a::rat)"
    and "\<forall>x\<in>set xs. lo \<le> f x \<and> f x \<le> hi"
  shows "sum_list alpha * lo \<le> (\<Sum>(a, x) \<leftarrow> zip alpha xs. a * f x)
    \<and> (\<Sum>(a, x) \<leftarrow> zip alpha xs. a * f x) \<le> sum_list alpha * hi"
  using assms
  by (induction alpha xs rule: list_induct2)
     (auto simp: distrib_right intro!: add_mono mult_left_mono)

lemma clamp_id: "lo \<le> x \<Longrightarrow> x \<le> hi \<Longrightarrow> clamp x lo hi = x"
  by (simp add: clamp_def)

lemma clamp_bounds: "lo \<le> hi \<Longrightarrow> lo \<le> clamp x lo hi \<and> clamp x lo hi \<le> hi"
  by (simp add: clamp_def)

lemma AggregateEvaluations_sum:
  assumes "evs \<noteq> []"
  shows "\<exists>alpha. ev_weights evs = Inr alpha \<and> length alpha = length evs
    \<and> AggregateEvaluations evs = Inr (\<Sum>(a, ev) \<leftarrow> zip alpha evs. a * decode (ev_trust ev),
                                      \<Sum>(a, ev) \<leftarrow> zip alpha evs. a * decode (ev_uncertain ev))"
proof -
  obtain alpha where alpha: "ev_weights evs = Inr alpha" "length alpha = length evs"
      "\<forall>a\<in>set alpha. 0 \<le> a" "sum_list alpha = 1"
    using ev_weights_convex [OF assms] by blast
  have unit: "0 \<le> (\<Sum>(a, ev) \<leftarrow> zip alpha evs. a * decode (f ev))
      \<and> (\<Sum>(a, ev) \<leftarrow> zip alpha evs. a * decode (f ev)) \<le> 1" for f
    using convex_bounds [of alpha evs 0 "\<lambda>ev. decode (f ev)" 1] alpha by auto
  then show ?thesis
    using assms alpha unit [of ev_trust] unit [of ev_uncertain]
    by (simp add: AggregateEvaluations_def clamp_id)
qed

section \<open>Bounds of the settled places and of the triple\<close>

definition unit :: "rat \<Rightarrow> bool" where "unit x \<longleftrightarrow> 0 \<le> x \<and> x \<le> 1"

lemma unit_max: "unit x \<Longrightarrow> unit y \<Longrightarrow> unit (max x y)"
  by (simp add: unit_def max_def)

lemma unit_thr: "unit x \<Longrightarrow> unit (thr t x)"
  by (simp add: unit_def thr_def)

lemma unit_scale: "0 \<le> c \<Longrightarrow> c \<le> 1 \<Longrightarrow> unit x \<Longrightarrow> unit (c * x)"
  by (simp add: unit_def mult_le_one)

lemma unit_mix2: "0 \<le> c \<Longrightarrow> 0 \<le> d \<Longrightarrow> c + d = 1 \<Longrightarrow> unit x \<Longrightarrow> unit y \<Longrightarrow> unit (c * x + d * y)"
  unfolding unit_def using convex_bound_le [of x 1 y c d] by simp

lemma unit_mix3:
  assumes "0 \<le> c" "0 \<le> d" "0 \<le> e" "c + d + e = 1" "unit x" "unit y" "unit z"
  shows "unit (c * x + d * y + e * z)"
proof -
  have "c * x \<le> c * 1" "d * y \<le> d * 1" "e * z \<le> e * 1"
    using assms by (auto simp: unit_def mult_left_le)
  then show ?thesis using assms by (simp add: unit_def)
qed

lemmas unit_rules = unit_max unit_thr unit_scale unit_mix2 unit_mix3

lemma fuzzy_settle: "fuzzy S \<Longrightarrow> fuzzy (settle S)"
proof -
  assume F: "fuzzy S"
  then have len: "length S = NUM_PLACES" by (simp add: fuzzy_def)
  obtain p1 p2 p3 p4 p5 p6 p7 p8 p9 p10 p11 p12 p13 p14 p15
    where S: "S = [p1, p2, p3, p4, p5, p6, p7, p8, p9, p10, p11, p12, p13, p14, p15]"
    by (rule length15E [OF len])
  have p: "unit p1" "unit p2" "unit p3" "unit p4" "unit p5" "unit p6" "unit p7" "unit p8" "unit p9"
    "unit p10" "unit p11" "unit p12" "unit p13" "unit p14" "unit p15"
    using F by (simp_all add: fuzzy_def S unit_def)
  define a9 where "a9 = max p9 (max (max (0.9 * thr 0.4 p1) (0.9 * thr 0.4 p4)) (0.6 * thr 0.5 p5))"
  define a10 where "a10 = max p10 (0.8 * thr 0.5 (0.6 * p2 + 0.4 * p5))"
  define a11 where "a11 = max p11 (0.9 * thr 0.5 p7)"
  define a12 where "a12 = max p12 (0.9 * thr 0.7 (0.1 * p2 + 0.6 * p3 + 0.3 * p6))"
  define a13 where "a13 = max p13 (thr 0.8 p8)"
  have a: "unit a9" "unit a10" "unit a11" "unit a12" "unit a13"
    unfolding a9_def a10_def a11_def a12_def a13_def by (intro unit_rules p; simp)+
  define a14 where "a14 = max p14 (max (max (0.9 * thr 0.4 a9) (0.7 * thr 0.4 a10)) (0.9 * thr 0.4 a11))"
  define a15 where "a15 = max p15 (0.9 * thr 0.6 (0.5 * a12 + 0.5 * a13))"
  have b: "unit a14" "unit a15"
    unfolding a14_def a15_def by (intro unit_rules p a; simp)+
  have "settle S = [p1, p2, p3, p4, p5, p6, p7, p8, a9, a10, a11, a12, a13, a14, a15]"
    unfolding S settle_closed Let_def a9_def a10_def a11_def a12_def a13_def a14_def a15_def by (rule refl)
  then show ?thesis using p a b by (simp add: fuzzy_def NUM_PLACES_def unit_def)
qed

lemma fpn_loop_fuzzy: "fuzzy S \<Longrightarrow> fpn_loop MAX_FPN_ITERATIONS S = Inr (settle S)"
  using fpn_loop_settles [of S 8] by (simp add: fuzzy_def MAX_FPN_ITERATIONS_def eval_nat_numeral)

lemma fuzzy_nth: "fuzzy S \<Longrightarrow> i < 15 \<Longrightarrow> 0 \<le> S ! i \<and> S ! i \<le> 1"
  by (auto simp: fuzzy_def NUM_PLACES_def)

text \<open>The triple is a partition of unity.\<close>

lemma evaluation_triple_unity:
  assumes "fuzzy S" and "evaluation_triple S = (t, d, u)"
  shows "0 \<le> t \<and> 0 \<le> d \<and> 0 \<le> u \<and> t + d + u = 1"
  using assms fuzzy_nth [of S 13] fuzzy_nth [of S 14]
  by (auto simp: evaluation_triple_def P14_DISTRUST_def P15_TRUST_def Let_def split: if_splits)

lemma std_round_bounds:
  assumes "0 \<le> x" and "x \<le> 1"
  shows "0 \<le> std_round (x * 255) \<and> std_round (x * 255) \<le> 255
    \<and> of_int (std_round (x * 255)) \<le> x * 255 + 1 / 2 \<and> x * 255 < of_int (std_round (x * 255)) + 1 / 2"
proof -
  have "\<lfloor>x * 255 + 1 / 2\<rfloor> < 256" using assms by (simp add: floor_less_iff)
  moreover have "0 \<le> \<lfloor>x * 255 + 1 / 2\<rfloor>" using assms by (simp add: zero_le_floor)
  moreover have "of_int \<lfloor>x * 255 + 1 / 2\<rfloor> \<le> x * 255 + 1 / 2" by (rule of_int_floor_le)
  moreover have "x * 255 + 1 / 2 < of_int \<lfloor>x * 255 + 1 / 2\<rfloor> + 1" by linarith
  ultimately show ?thesis using assms by (simp add: std_round_def)
qed

lemma to_uint8_Inr: "to_uint8 n = Inr b \<longleftrightarrow> 0 \<le> n \<and> n \<le> 255 \<and> int (unat b) = n"
proof -
  have "uint (word_of_int n :: u8) = n" if "0 \<le> n" "n \<le> 255"
    using that by (simp add: uint_word_of_int)
  moreover have "word_of_int (int (unat b)) = b" by simp
  ultimately show ?thesis by (auto simp: to_uint8_def uint_nat [symmetric] split: if_splits)
qed

lemma encode_triple_total:
  assumes "0 \<le> t" "0 \<le> d" "0 \<le> u" "t + d + u = 1"
  shows "\<exists>ev. encode_triple (t, d, u) = Inr ev \<and> ev_reserved ev = 0
    \<and> int (unat (ev_trust ev)) = std_round (t * 255) \<and> int (unat (ev_distrust ev)) = std_round (d * 255)
    \<and> int (unat (ev_uncertain ev)) = std_round (u * 255)"
proof -
  have u8: "\<exists>b. to_uint8 (std_round (x * 255)) = Inr b \<and> int (unat b) = std_round (x * 255)"
    if "0 \<le> x" "x \<le> 1" for x
    using std_round_bounds [OF that] to_uint8_Inr [of "std_round (x * 255)"]
    by (metis to_uint8_def)
  obtain bt bd bu where b: "to_uint8 (std_round (t * 255)) = Inr bt" "int (unat bt) = std_round (t * 255)"
      "to_uint8 (std_round (d * 255)) = Inr bd" "int (unat bd) = std_round (d * 255)"
      "to_uint8 (std_round (u * 255)) = Inr bu" "int (unat bu) = std_round (u * 255)"
    using u8 [of t] u8 [of d] u8 [of u] assms by force
  then show ?thesis
    by (simp add: encode_triple_def EvaluationVector_init_def)
qed

lemma RunFuzzyPetriNet_fuzzy:
  "fuzzy S \<Longrightarrow> RunFuzzyPetriNet S = encode_triple (evaluation_triple (settle S))"
  using fpn_loop_fuzzy by (simp add: RunFuzzyPetriNet_def fuzzy_def)

lemma RunFuzzyPetriNet_total:
  assumes "fuzzy S"
  shows "\<exists>ev. RunFuzzyPetriNet S = Inr ev"
proof -
  obtain t d u where tdu: "evaluation_triple (settle S) = (t, d, u)" by (metis prod_cases3)
  with evaluation_triple_unity [OF fuzzy_settle [OF assms]] encode_triple_total [of t d u]
  show ?thesis by (auto simp: RunFuzzyPetriNet_fuzzy [OF assms])
qed

section \<open>Two opinions\<close>

text \<open>When the vectors are copies of two opinions, every loop is a weighted pair.\<close>

lemma sum_list_two:
  assumes "set xs \<subseteq> {a, b}" and "a \<noteq> b"
  shows "(\<Sum>x \<leftarrow> xs. f x) = of_nat (count_list xs a) * f a + of_nat (count_list xs b) * (f b :: rat)"
  using assms(1) by (induction xs) (use assms(2) in \<open>auto simp: algebra_simps\<close>)

lemma zip_map_sum: "(\<Sum>(a, x) \<leftarrow> zip (map w xs) xs. a * f x) = (\<Sum>x \<leftarrow> xs. w x * (f x :: rat))"
  by (induction xs) auto

lemma decode_gap: "a \<noteq> b \<Longrightarrow> 1 / 255 \<le> \<bar>decode a - decode b\<bar>"
proof -
  assume "a \<noteq> b"
  then have "int (unat a) \<noteq> int (unat b)" by (metis of_nat_eq_iff word_unat_eq_iff)
  then have "1 \<le> \<bar>int (unat a) - int (unat b)\<bar>" by linarith
  then have "(1::rat) \<le> of_int \<bar>int (unat a) - int (unat b)\<bar>" by (subst of_int_1 [symmetric], subst of_int_le_iff)
  then have "1 \<le> \<bar>of_nat (unat a) - of_nat (unat b) :: rat\<bar>" by (simp del: of_nat_unat)
  moreover have "\<bar>decode a - decode b\<bar> = \<bar>of_nat (unat a) - of_nat (unat b)\<bar> / 255"
    by (simp add: decode_def abs_divide diff_divide_distrib [symmetric] del: of_nat_unat)
  ultimately show ?thesis by simp
qed

lemma ev_distance_self [simp]: "ev_distance k k = 0"
  by (simp add: ev_distance_def)

definition same_opinion :: "EvaluationVector \<Rightarrow> EvaluationVector \<Rightarrow> bool" where
  "same_opinion k v \<longleftrightarrow>
     ev_trust k = ev_trust v \<and> ev_distrust k = ev_distrust v \<and> ev_uncertain k = ev_uncertain v"

lemma ev_distance_gap: "\<not> same_opinion k v \<Longrightarrow> 1 / 255 \<le> ev_distance k v"
  unfolding ev_distance_def same_opinion_def
  using decode_gap [of "ev_trust k" "ev_trust v"] decode_gap [of "ev_distrust k" "ev_distrust v"]
    decode_gap [of "ev_uncertain k" "ev_uncertain v"] by fastforce

lemma aggregate_two:
  fixes m s :: rat
  assumes "set evs \<subseteq> {h, b}" and "\<not> same_opinion h b"
    and m: "m = of_nat (count_list evs h)" "0 < m" and s: "s = of_nat (count_list evs b)" "0 < s"
  shows "AggregateEvaluations evs =
    Inr ((m * m * decode (ev_trust h) + s * s * decode (ev_trust b)) / (m * m + s * s),
         (m * m * decode (ev_uncertain h) + s * s * decode (ev_uncertain b)) / (m * m + s * s))"
proof -
  have hb: "h \<noteq> b" using assms(2) by (auto simp: same_opinion_def)
  define d where "d = ev_distance h b"
  have d: "0 < d" "1 / 255 \<le> d" using ev_distance_gap [OF assms(2)] by (simp_all add: d_def)
  have ne: "evs \<noteq> []" using m by auto
  have two: "(\<Sum>x \<leftarrow> evs. f x) = m * f h + s * f b" for f
    using sum_list_two [OF assms(1) hb] m s by simp
  have dif: "ev_dif evs h = s * d" "ev_dif evs b = m * d"
    unfolding ev_dif_def two d_def by (simp_all add: ev_distance_sym [of b h])
  have s1: "1 \<le> s" using s by simp
  have large: "1 / 255 \<le> ev_dif evs h" using d s1 mult_mono [of 1 s "1 / 255" d] by (simp add: dif)
  have "count_list evs h \<noteq> 0" using m by auto
  then have h_in: "h \<in> set evs" by (simp add: count_list_0_iff)
  obtain alpha where alpha: "ev_weights evs = Inr alpha"
      "AggregateEvaluations evs = Inr (\<Sum>(a, ev) \<leftarrow> zip alpha evs. a * decode (ev_trust ev),
                                      \<Sum>(a, ev) \<leftarrow> zip alpha evs. a * decode (ev_uncertain ev))"
    using AggregateEvaluations_sum [OF ne] by blast
  define W where "W = (\<Sum>k \<leftarrow> evs. 1 / ev_dif evs k)"
  have W: "W = (m * m + s * s) / (m * s * d)"
    unfolding W_def two dif using m s d by (simp add: field_simps)
  from ne have "alpha = map (\<lambda>k. (1 / ev_dif evs k) / W) evs"
  proof (cases rule: ev_weights_cases)
    case equal
    then have "ev_dif evs h < DIF_EPS" using h_in by blast
    with large show ?thesis by (simp add: DIF_EPS_def)
  next
    case inverse
    then show ?thesis using alpha(1) by (simp add: W_def)
  qed
  then have agg: "AggregateEvaluations evs =
      Inr (\<Sum>x \<leftarrow> evs. (1 / ev_dif evs x) / W * decode (ev_trust x),
           \<Sum>x \<leftarrow> evs. (1 / ev_dif evs x) / W * decode (ev_uncertain x))"
    using alpha(2) by (simp only: zip_map_sum)
  have share: "m * ((1 / (s * d)) / W * x) + s * ((1 / (m * d)) / W * y)
      = (m * m * x + s * s * y) / (m * m + s * s)" for x y
  proof -
    have pos: "0 < m * m + s * s" "0 < m * s * d" using m s d by (simp_all add: add_pos_pos)
    have "(1 / (s * d)) / W = m / (m * m + s * s)" "(1 / (m * d)) / W = s / (m * m + s * s)"
      unfolding W using m s d pos by (simp_all add: field_simps)
    then show ?thesis by (simp add: add_divide_distrib)
  qed
  show ?thesis unfolding agg two dif share by (rule refl)
qed

section \<open>Evidence of a neighbor that forwards nothing\<close>

lemma blackhole_places:
  assumes "fuzzy [p1, p2, 0, 1, p5, p6, p7, p8, 0, 0, 0, 0, 0, 0, 0]" (is "fuzzy ?S")
  shows "settle ?S ! 13 = 0.81 \<and> settle ?S ! 14 = 0"
proof -
  have p: "0 \<le> p1" "p1 \<le> 1" "0 \<le> p2" "p2 \<le> 1" "0 \<le> p5" "p5 \<le> 1" "0 \<le> p6" "p6 \<le> 1" "0 \<le> p7" "p7 \<le> 1"
    "0 \<le> p8" "p8 \<le> 1"
    using assms by (simp_all add: fuzzy_def)
  have thr1: "0 \<le> t \<Longrightarrow> 0 \<le> x \<Longrightarrow> x \<le> 1 \<Longrightarrow> 0 \<le> thr t x \<and> thr t x \<le> 1" for t x by (simp add: thr_def)
  have q9: "max 0 (max (max (0.9 * thr 0.4 p1) (0.9 * thr 0.4 1)) (0.6 * thr 0.5 p5)) = 0.9"
    using p thr1 [of "0.4" p1] thr1 [of "0.5" p5] by (simp add: thr_def)
  define q10 where "q10 = max 0 (0.8 * thr 0.5 (0.6 * p2 + 0.4 * p5))"
  have q10: "0 \<le> q10" "q10 \<le> 0.8" using p thr1 [of "0.5" "0.6 * p2 + 0.4 * p5"] by (simp_all add: q10_def)
  define q11 where "q11 = max 0 (0.9 * thr 0.5 p7)"
  have q11: "0 \<le> q11" "q11 \<le> 0.9" using p thr1 [of "0.5" p7] by (simp_all add: q11_def)
  have q12: "max 0 (0.9 * thr 0.7 (0.1 * p2 + 0.6 * 0 + 0.3 * p6)) = 0" using p by (simp add: thr_def)
  define q13 where "q13 = max 0 (thr 0.8 p8)"
  have q13: "0 \<le> q13" "q13 \<le> 1" using p by (simp_all add: q13_def thr_def)
  define q14 where "q14 = max 0 (max (max (0.9 * thr 0.4 0.9) (0.7 * thr 0.4 q10)) (0.9 * thr 0.4 q11))"
  define q15 where "q15 = max 0 (0.9 * thr 0.6 (0.5 * 0 + 0.5 * q13))"
  have "settle ?S = [p1, p2, 0, 1, p5, p6, p7, p8, 0.9, q10, q11, 0, q13, q14, q15]"
    unfolding settle_closed Let_def q9 q12 q10_def q11_def q13_def q14_def q15_def by (rule refl)
  moreover have "q14 = 0.81"
  proof -
    have "0.7 * thr 0.4 q10 \<le> 0.81" "0.9 * thr 0.4 q11 \<le> 0.81"
      using q10 q11 thr_le [of q10 "0.4"] thr_le [of q11 "0.4"] by simp_all
    moreover have "thr 0.4 0.9 = 0.9" by (simp add: thr_def)
    ultimately show ?thesis by (simp add: q14_def max_absorb1)
  qed
  moreover have "q15 = 0" using q13 by (simp add: q15_def thr_def)
  ultimately show ?thesis by simp
qed

lemma floor_rat_numeral [simp]: "\<lfloor>numeral a / numeral b :: rat\<rfloor> = numeral a div numeral b"
  using floor_divide_of_int_eq [of "numeral a" "numeral b", where 'a = rat] by simp

lemma floor_rat_inverse [simp]: "\<lfloor>1 / numeral b :: rat\<rfloor> = 1 div numeral b"
  using floor_divide_of_int_eq [of 1 "numeral b", where 'a = rat] by simp

lemma blackhole_vector:
  assumes "fuzzy [p1, p2, 0, 1, p5, p6, p7, p8, 0, 0, 0, 0, 0, 0, 0]"
  shows "RunFuzzyPetriNet [p1, p2, 0, 1, p5, p6, p7, p8, 0, 0, 0, 0, 0, 0, 0] =
    Inr (EvaluationVector_init\<lparr>ev_distrust := 207, ev_uncertain := 48\<rparr>)"
  unfolding RunFuzzyPetriNet_fuzzy [OF assms] evaluation_triple_def P14_DISTRUST_def P15_TRUST_def
    blackhole_places [OF assms, THEN conjunct1] blackhole_places [OF assms, THEN conjunct2]
  by (simp add: encode_triple_def std_round_def to_uint8_def EvaluationVector_init_def)

section \<open>Properties\<close>

text \<open>
  The matrix form of the net implements its rule base. For every vector of 15 truth values the
  loop of \<open>RunFuzzyPetriNet\<close> ends with the result of one forward pass over the seven rules in the
  order R1 to R7; this vector is a fixed point of a round, and two rounds reach it, so the bound of
  ten rounds never cuts the computation short.
\<close>

theorem net_equals_rule_base:
  assumes "fuzzy S"
  shows "fpn_loop MAX_FPN_ITERATIONS S = Inr (forward_chain S)
    \<and> fpn_loop 2 S = Inr (forward_chain S)
    \<and> fpn_step (forward_chain S) = Inr (forward_chain S)"
proof -
  have S: "length S = NUM_PLACES" "\<forall>x\<in>set S. 0 \<le> x" using assms by (auto simp: fuzzy_def)
  have "fpn_loop 2 S = Inr (settle S)"
    using fpn_loop_settles [OF S, of 0] by (simp add: numeral_2_eq_2)
  then show ?thesis
    using fpn_loop_fuzzy [OF assms] settle_two_steps [OF S] forward_chain_settle [OF S(1)] by simp
qed

definition example_places :: "rat list" where
  "example_places = [0, 1, 1, 0, 0, 1, 0, 1, 0, 0, 0, 0, 0, 0, 0]"

theorem net_equals_rule_base_witness:
  "fpn_loop MAX_FPN_ITERATIONS example_places = Inr (forward_chain example_places)"
  using net_equals_rule_base [of example_places] by (simp add: example_places_def fuzzy_def NUM_PLACES_def)

text \<open>
  An evaluation vector is total and nearly a partition of 255. On truth values
  \<open>RunFuzzyPetriNet\<close> never stops the program (its conversions to bytes stay in range), the bytes
  for trust, distrust and uncertainty add up to 255 up to one unit of rounding, the reserved byte
  is 0, and the trust byte is the truth value of "node can be trusted" to within half a unit.
\<close>

theorem evaluation_vector_partition:
  assumes "fuzzy S"
  shows "\<exists>ev. RunFuzzyPetriNet S = Inr ev \<and> ev_reserved ev = 0
    \<and> \<bar>int (unat (ev_trust ev)) + int (unat (ev_distrust ev)) + int (unat (ev_uncertain ev)) - 255\<bar> \<le> 1
    \<and> \<bar>of_nat (unat (ev_trust ev)) - 255 * forward_chain S ! P15_TRUST\<bar> \<le> 1 / 2"
proof -
  have settled: "forward_chain S = settle S" using assms forward_chain_settle by (simp add: fuzzy_def)
  obtain t d u where tdu: "evaluation_triple (settle S) = (t, d, u)" by (metis prod_cases3)
  note unity = evaluation_triple_unity [OF fuzzy_settle [OF assms] tdu]
  then obtain ev where ev: "encode_triple (t, d, u) = Inr ev" "ev_reserved ev = 0"
      and bytes: "int (unat (ev_trust ev)) = std_round (t * 255)"
      "int (unat (ev_distrust ev)) = std_round (d * 255)" "int (unat (ev_uncertain ev)) = std_round (u * 255)"
    using encode_triple_total by blast
  have t: "t = forward_chain S ! P15_TRUST"
    using tdu by (auto simp: settled evaluation_triple_def Let_def split: if_splits)
  define a b c where "a = std_round (t * 255)" and "b = std_round (d * 255)" and "c = std_round (u * 255)"
  have round: "of_int (std_round (x * 255)) \<le> x * 255 + 1 / 2 \<and> x * 255 < of_int (std_round (x * 255)) + 1 / 2"
    if "0 \<le> x" "x \<le> 1" for x using std_round_bounds [OF that] by simp
  have "t * 255 + d * 255 + u * 255 = (t + d + u) * 255" by (simp only: distrib_right)
  then have "t * 255 + d * 255 + u * 255 = 255" using unity by simp
  then have "of_int (a + b + c - 255) < (2::rat)" "(-2::rat) < of_int (a + b + c - 255)"
    using round [of t] round [of d] round [of u] unity by (simp_all add: a_def b_def c_def)
  then have sum: "\<bar>a + b + c - 255\<bar> \<le> 1" by linarith
  have "of_nat (unat (ev_trust ev)) = (of_int (std_round (t * 255)) :: rat)"
    by (metis bytes(1) of_int_of_nat_eq)
  then have "\<bar>of_nat (unat (ev_trust ev)) - 255 * t\<bar> \<le> 1 / 2"
    using round [of t] unity by linarith
  then show ?thesis
    using ev bytes sum unfolding RunFuzzyPetriNet_fuzzy [OF assms] tdu a_def b_def c_def t [symmetric]
    by metis
qed

theorem evaluation_vector_partition_witness:
  "\<exists>ev. RunFuzzyPetriNet example_places = Inr ev \<and> ev_reserved ev = 0"
  using evaluation_vector_partition [of example_places]
  by (auto simp: example_places_def fuzzy_def NUM_PLACES_def)

text \<open>
  Rule R2 ("load is low and forwarding delay is high: jellyfish") fires on light load alone.
  When "load is low" has a truth value above 5/6, the places "lightly malicious" and "node cannot
  be trusted" are raised above 0.4 and 0.28, whatever is known about the forwarding delay.
\<close>

theorem jellyfish_without_delay:
  assumes "fuzzy S" and "5 / 6 < S ! 1"
  shows "2 / 5 < forward_chain S ! 9 \<and> 7 / 25 < forward_chain S ! P14_DISTRUST"
proof -
  have len: "length S = NUM_PLACES" using assms(1) by (simp add: fuzzy_def)
  obtain p1 p2 p3 p4 p5 p6 p7 p8 p9 p10 p11 p12 p13 p14 p15
    where S: "S = [p1, p2, p3, p4, p5, p6, p7, p8, p9, p10, p11, p12, p13, p14, p15]"
    by (rule length15E [OF len])
  have p: "5 / 6 < p2" "0 \<le> p5" using assms by (simp_all add: S fuzzy_def)
  define q10 where "q10 = max p10 (0.8 * thr 0.5 (0.6 * p2 + 0.4 * p5))"
  have q10: "2 / 5 < q10" using p by (simp add: q10_def thr_def less_max_iff_disj)
  define q14 where "q14 = (\<lambda>q9 q11. max p14 (max (max (0.9 * thr 0.4 q9) (0.7 * thr 0.4 q10)) (0.9 * thr 0.4 q11)))"
  have q14: "7 / 25 < q14 q9 q11" for q9 q11 using q10 by (simp add: q14_def thr_def less_max_iff_disj)
  have "\<exists>q9 q11 q12 q13 q15. forward_chain S =
      [p1, p2, p3, p4, p5, p6, p7, p8, q9, q10, q11, q12, q13, q14 q9 q11, q15]"
    unfolding forward_chain_settle [OF len] unfolding S settle_closed Let_def q10_def q14_def
    by (intro exI) (rule refl)
  with q10 q14 show ?thesis by (auto simp: P14_DISTRUST_def)
qed

theorem jellyfish_without_delay_witness: "7 / 25 < forward_chain example_places ! P14_DISTRUST"
  using jellyfish_without_delay [of example_places] by (simp add: example_places_def fuzzy_def NUM_PLACES_def)

text \<open>
  The slander filter never divides by zero and its result is a convex combination. For every
  non-empty list of evaluation vectors \<open>AggregateEvaluations\<close> returns, and the aggregated trust and
  uncertainty lie between the least and the greatest value among the vectors.
\<close>

theorem aggregate_within_opinions:
  assumes "evs \<noteq> []"
  shows "\<exists>t u. AggregateEvaluations evs = Inr (t, u)
    \<and> Min ((decode \<circ> ev_trust) ` set evs) \<le> t \<and> t \<le> Max ((decode \<circ> ev_trust) ` set evs)
    \<and> Min ((decode \<circ> ev_uncertain) ` set evs) \<le> u \<and> u \<le> Max ((decode \<circ> ev_uncertain) ` set evs)"
proof -
  obtain alpha where alpha: "ev_weights evs = Inr alpha" "length alpha = length evs"
      "\<forall>a\<in>set alpha. 0 \<le> a" "sum_list alpha = 1"
    using ev_weights_convex [OF assms] by blast
  have bounds: "Min ((decode \<circ> f) ` set evs) \<le> (\<Sum>(a, ev) \<leftarrow> zip alpha evs. a * decode (f ev))
      \<and> (\<Sum>(a, ev) \<leftarrow> zip alpha evs. a * decode (f ev)) \<le> Max ((decode \<circ> f) ` set evs)" for f
    using convex_bounds [of alpha evs "Min ((decode \<circ> f) ` set evs)" "\<lambda>ev. decode (f ev)"
        "Max ((decode \<circ> f) ` set evs)"] alpha
    by simp
  show ?thesis
    using AggregateEvaluations_sum [OF assms] alpha(1) bounds [of ev_trust] bounds [of ev_uncertain] by auto
qed

theorem aggregate_within_opinions_witness:
  "\<exists>t u. AggregateEvaluations [EvaluationVector_init\<lparr>ev_trust := 255\<rparr>] = Inr (t, u) \<and> 1 \<le> t"
  using aggregate_within_opinions [of "[EvaluationVector_init\<lparr>ev_trust := 255\<rparr>]"]
  by (auto simp: EvaluationVector_init_def decode_def)

text \<open>
  How far colluding slanderers move the verdict. When \<open>m\<close> evaluations agree on one opinion and
  \<open>s\<close> others on a different one, the aggregated trust and uncertainty are the mean of the two
  opinions with weights \<open>m\<^sup>2\<close> and \<open>s\<^sup>2\<close>, in whatever order the evaluations arrive: a
  minority is weighted down quadratically, a majority of slanderers is weighted up.
\<close>

theorem slander_filter_quadratic:
  assumes "set evs \<subseteq> {h, b}" and "\<not> same_opinion h b"
    and "0 < count_list evs h" and "0 < count_list evs b"
    and "m = (of_nat (count_list evs h) :: rat)" and "s = (of_nat (count_list evs b) :: rat)"
  shows "AggregateEvaluations evs =
    Inr ((m\<^sup>2 * decode (ev_trust h) + s\<^sup>2 * decode (ev_trust b)) / (m\<^sup>2 + s\<^sup>2),
         (m\<^sup>2 * decode (ev_uncertain h) + s\<^sup>2 * decode (ev_uncertain b)) / (m\<^sup>2 + s\<^sup>2))"
  using aggregate_two [OF assms(1,2,5) _ assms(6)] assms(3-6) by (simp add: power2_eq_square)

definition honest_vector :: EvaluationVector where
  "honest_vector = EvaluationVector_init\<lparr>ev_trust := 255\<rparr>"

definition slander_vector :: EvaluationVector where
  "slander_vector = EvaluationVector_init\<lparr>ev_distrust := 255\<rparr>"

theorem slander_filter_quadratic_witness:
  "AggregateEvaluations [honest_vector, slander_vector, honest_vector, honest_vector] = Inr (9 / 10, 0)"
proof -
  let ?evs = "[honest_vector, slander_vector, honest_vector, honest_vector]"
  have ne: "honest_vector \<noteq> slander_vector"
    by (simp add: honest_vector_def slander_vector_def EvaluationVector_init_def)
  then have counts: "count_list ?evs honest_vector = 3" "count_list ?evs slander_vector = 1" by simp_all
  have "\<not> same_opinion honest_vector slander_vector"
    by (simp add: same_opinion_def honest_vector_def slander_vector_def EvaluationVector_init_def)
  from slander_filter_quadratic [of ?evs honest_vector slander_vector, OF _ this _ _ refl refl]
  show ?thesis using ne
    by (simp add: counts) (simp add: honest_vector_def slander_vector_def EvaluationVector_init_def decode_def)
qed

end
