(* ===== verification/Fpnt_Defense.thy ===== *)
theory Fpnt_Defense
  imports Fpnt_Net Olsr_State Watchdog "HOL-Library.Product_Lexorder"
begin

unbundle bit_operations_syntax

text \<open>
  The FPNT defense (src/files for all defenses/FPNT/olsr-defense-fpnt.cc and .h): the per-neighbor
  counters, the monitoring hooks that fill them, the deviation rules D1 and D2, and the trust
  reasoning cycle \<open>PeriodicCheck\<close>. \<open>m_protocol\<close> is the flag \<open>f_protocol\<close> (attached or null); what
  the code reads through it (neighbors, MPR set, MPR selectors, \<open>TcInterval\<close>) is an argument \<open>s\<close> or
  \<open>tcInterval\<close>. \<open>SetEnabled\<close> and \<open>PeriodicCheck\<close> also return whether they call
  \<open>RunTrustDijkstra\<close>. \<open>NodeList\<close> and the ARP caches are the argument \<open>env\<close> of \<open>MacToIpv4\<close>. Hooks
  with an empty body are left out.
\<close>

section \<open>State\<close>

record NodeBehaviorMetrics =
  countLoad :: u32
  countRcv :: u32
  countFwd :: u32
  countRCheat :: u32
  totalDelay :: rat

definition NodeBehaviorMetrics_init :: NodeBehaviorMetrics where
  "NodeBehaviorMetrics_init =
     \<lparr>countLoad = 0, countRcv = 0, countFwd = 0, countRCheat = 0, totalDelay = 0\<rparr>"

record fpnt =
  f_protocol :: bool
  f_selfAddress :: ipv4
  f_metrics :: "(ipv4, NodeBehaviorMetrics) std_map"
  f_trustTable :: "(ipv4, rat) std_map"
  f_directEvaluationVectors :: "(ipv4, EvaluationVector) std_map"
  f_lastSValues :: "(ipv4, rat list) std_map"
  f_recommendations :: "(ipv4 \<times> ipv4, EvaluationVector) std_map"
  f_pendingArrivals :: "(ipv4, (64 word, time) std_map) std_map"
  f_lastTcTime :: "(ipv4, time) std_map"
  f_mprSelectionTime :: "(ipv4, time) std_map"
  f_checkInterval :: time
  f_maliciousThreshold :: rat
  f_uncertaintyBeta :: rat
  f_fadingFactor :: rat
  f_maxLoad :: rat
  f_maxDelay :: rat
  f_cheatThreshold :: u32
  f_enabled :: bool

definition Fpnt_init :: fpnt where
  "Fpnt_init =
     \<lparr>f_protocol = False, f_selfAddress = ipv4_any, f_metrics = [], f_trustTable = [],
      f_directEvaluationVectors = [], f_lastSValues = [], f_recommendations = [],
      f_pendingArrivals = [], f_lastTcTime = [], f_mprSelectionTime = [],
      f_checkInterval = 5 * second, f_maliciousThreshold = 1 / 5, f_uncertaintyBeta = 3 / 5,
      f_fadingFactor = 7 / 10, f_maxLoad = 1000000, f_maxDelay = 1 / 2, f_cheatThreshold = 2,
      f_enabled = True\<rparr>"

definition Fpnt_Setup :: "ipv4 \<Rightarrow> fpnt \<Rightarrow> fpnt" where
  "Fpnt_Setup nodeAddress d = d\<lparr>f_protocol := True, f_selfAddress := nodeAddress\<rparr>"

definition Fpnt_DoDispose :: "fpnt \<Rightarrow> fpnt" where
  "Fpnt_DoDispose d =
     d\<lparr>f_metrics := [], f_trustTable := [], f_directEvaluationVectors := [], f_lastSValues := [],
       f_recommendations := [], f_pendingArrivals := [], f_lastTcTime := [], f_protocol := False\<rparr>"

text \<open>The new state, and whether the routing table is recomputed with \<open>RunTrustDijkstra\<close>.\<close>

definition Fpnt_SetEnabled :: "bool \<Rightarrow> fpnt \<Rightarrow> fpnt \<times> bool" where
  "Fpnt_SetEnabled enabled d =
     (if f_enabled d = enabled then (d\<lparr>f_enabled := enabled\<rparr>, False)
      else (d\<lparr>f_enabled := enabled, f_metrics := [], f_pendingArrivals := [], f_recommendations := [],
              f_directEvaluationVectors := [], f_lastSValues := [], f_trustTable := [],
              f_lastTcTime := [], f_mprSelectionTime := []\<rparr>, f_protocol d))"

definition Fpnt_GetEnabled :: "fpnt \<Rightarrow> bool" where "Fpnt_GetEnabled d = f_enabled d"

definition Fpnt_IsTrustRoutingEnabled :: "fpnt \<Rightarrow> bool" where
  "Fpnt_IsTrustRoutingEnabled d = f_enabled d"

section \<open>Trust queries\<close>

definition Fpnt_IsMalicious :: "ipv4 \<Rightarrow> fpnt \<Rightarrow> bool" where
  "Fpnt_IsMalicious addr d =
     (if \<not> f_enabled d then False
      else case map_of (f_trustTable d) addr of
             None \<Rightarrow> False
           | Some trust \<Rightarrow> trust < f_maliciousThreshold d)"

definition Fpnt_GetBlacklist :: "fpnt \<Rightarrow> ipv4 std_set" where
  "Fpnt_GetBlacklist d =
     (if \<not> f_enabled d then []
      else fold (\<lambda>(addr, trust) blacklist.
             if trust < f_maliciousThreshold d then set_insert addr blacklist else blacklist)
             (f_trustTable d) [])"

definition Fpnt_GetEvaluationVectors :: "ipv4 list \<Rightarrow> fpnt \<Rightarrow> EvaluationVector list" where
  "Fpnt_GetEvaluationVectors neighbors d =
     (if \<not> f_enabled d then []
      else map (\<lambda>addr. case map_of (f_directEvaluationVectors d) addr of
                 Some ev \<Rightarrow> ev
               | None \<Rightarrow> EvaluationVector_init\<lparr>ev_trust := 0, ev_distrust := 0, ev_uncertain := 255\<rparr>)
             neighbors)"

text \<open>\<open>seenInRealState\<close>: the node is a neighbor, a 2-hop neighbor, or announces one.\<close>

definition seenInRealState :: "ipv4 \<Rightarrow> olsr_state \<Rightarrow> bool" where
  "seenInRealState node s =
     (if find_first (\<lambda>nb. nt_neighborMainAddr nb = node) (m_neighborSet s) \<noteq> None then True
      else find_first (\<lambda>nb2. th_twoHopNeighborAddr nb2 = node \<or> th_neighborMainAddr nb2 = node)
             (m_twoHopNeighborSet s) \<noteq> None)"

definition Fpnt_GetNodeTrust :: "olsr_state \<Rightarrow> ipv4 \<Rightarrow> fpnt \<Rightarrow> rat" where
  "Fpnt_GetNodeTrust s node d =
     (if \<not> f_enabled d then f_uncertaintyBeta d
      else case map_of (f_trustTable d) node of
             Some trust \<Rightarrow> trust
           | None \<Rightarrow>
               if f_protocol d \<and> \<not> seenInRealState node s
               then max (f_maliciousThreshold d + 1 / 100) (f_uncertaintyBeta d * (1 / 2))
               else f_uncertaintyBeta d)"

text \<open>\<open>DebugStateSizes\<close> in the order of its fields.\<close>

definition Fpnt_GetDebugStateSizes :: "fpnt \<Rightarrow> nat list" where
  "Fpnt_GetDebugStateSizes d =
     [length (f_metrics d), length (f_trustTable d), length (f_directEvaluationVectors d),
      length (f_lastSValues d), length (f_recommendations d), length (f_pendingArrivals d),
      length (f_lastTcTime d), length (f_mprSelectionTime d), length (Fpnt_GetBlacklist d)]"

section \<open>Recommendations and rule D2\<close>

definition Fpnt_OnRecvEvaluationVectors ::
  "ipv4 \<Rightarrow> ipv4 list \<Rightarrow> EvaluationVector list \<Rightarrow> fpnt \<Rightarrow> fpnt" where
  "Fpnt_OnRecvEvaluationVectors sender advertisedNeighbors vectors d =
     (if length advertisedNeighbors \<noteq> length vectors then d
      else d\<lparr>f_recommendations :=
               fold (\<lambda>(target, ev). map_put (sender, target) ev) (zip advertisedNeighbors vectors)
                 (f_recommendations d)\<rparr>)"

definition D1_HOLD_MULTIPLIER :: int where "D1_HOLD_MULTIPLIER = 3"

text \<open>\<open>auto& metrics = m_metrics[addr]\<close> and a write through it.\<close>

definition on_metrics :: "ipv4 \<Rightarrow> (NodeBehaviorMetrics \<Rightarrow> NodeBehaviorMetrics) \<Rightarrow> fpnt \<Rightarrow> fpnt" where
  "on_metrics addr f d =
     d\<lparr>f_metrics := map_put addr (f (map_ref NodeBehaviorMetrics_init (f_metrics d) addr)) (f_metrics d)\<rparr>"

definition count_cheat :: "NodeBehaviorMetrics \<Rightarrow> NodeBehaviorMetrics" where
  "count_cheat m = m\<lparr>countRCheat := countRCheat m + 1\<rparr>"

definition Fpnt_OnRecvTc :: "time \<Rightarrow> time \<Rightarrow> olsr_state \<Rightarrow> ipv4 \<Rightarrow> ipv4 list \<Rightarrow> fpnt \<Rightarrow> fpnt" where
  "Fpnt_OnRecvTc now tcInterval s originator advertised d =
     (let d = d\<lparr>f_lastTcTime := map_put originator now (f_lastTcTime d)\<rparr>
      in if \<not> f_protocol d then d
         else if \<not> set_count (m_mprSet s) originator then d
         else case map_of (f_mprSelectionTime d) originator of
                None \<Rightarrow> d\<lparr>f_mprSelectionTime := map_put originator now (f_mprSelectionTime d)\<rparr>
              | Some selectedSince \<Rightarrow>
                  if now - selectedSince < tcInterval * D1_HOLD_MULTIPLIER then d
                  else if f_selfAddress d \<in> set advertised then d
                  else on_metrics originator count_cheat d)"

section \<open>Monitoring of the data plane\<close>

record ip_header =
  ip_source :: ipv4
  ip_destination :: ipv4
  ip_identification :: u16
  ip_payloadSize :: u16

definition xorshift :: "nat \<Rightarrow> 64 word \<Rightarrow> 64 word" where
  "xorshift k v = v XOR drop_bit k v"

definition HashIpv4Header :: "ip_header \<Rightarrow> 64 word" where
  "HashIpv4Header h =
     (let v = push_bit 32 (ucast (ip_source h)) OR ucast (ip_destination h);
          v = v XOR (push_bit 16 (ucast (ip_identification h)) OR ucast (ip_payloadSize h));
          v = xorshift 30 v * 0xbf58476d1ce4e5b9;
          v = xorshift 27 v * 0x94d049bb133111eb
      in xorshift 31 v)"

definition isOurSelector :: "ipv4 \<Rightarrow> olsr_state \<Rightarrow> bool" where
  "isOurSelector addr s = (find_first (\<lambda>sel. ms_mainAddr sel = addr) (m_mprSelectorSet s) \<noteq> None)"

text \<open>A packet that the neighbor is expected to forward: the counter and the arrival seed.\<close>

definition expect_forward :: "time \<Rightarrow> ipv4 \<Rightarrow> 64 word \<Rightarrow> fpnt \<Rightarrow> fpnt" where
  "expect_forward now addr key d =
     (let d = on_metrics addr (\<lambda>m. m\<lparr>countRcv := countRcv m + 1\<rparr>) d;
          pending = map_ref [] (f_pendingArrivals d) addr
      in d\<lparr>f_pendingArrivals := map_put addr
             (if map_of pending key = None then map_put key now pending else pending)
             (f_pendingArrivals d)\<rparr>)"

definition add_load :: "u32 \<Rightarrow> NodeBehaviorMetrics \<Rightarrow> NodeBehaviorMetrics" where
  "add_load bytes m = m\<lparr>countLoad := countLoad m + bytes\<rparr>"

definition Fpnt_OnDataPacketForwarded ::
  "time \<Rightarrow> olsr_state \<Rightarrow> ip_header \<Rightarrow> u32 \<Rightarrow> ipv4 \<Rightarrow> ipv4 \<Rightarrow> fpnt \<Rightarrow> fpnt" where
  "Fpnt_OnDataPacketForwarded now s header bytes nextHop finalDest d =
     (if nextHop = ipv4_broadcast then d
      else if nextHop = ipv4_any then d
      else if \<not> f_protocol d then d
      else if \<not> isOurSelector nextHop s then d
      else
        let d = on_metrics nextHop (add_load bytes) d
        in if nextHop \<noteq> finalDest then expect_forward now nextHop (HashIpv4Header header) d else d)"

text \<open>The two halves of \<open>OnNeighborForwardedPacket\<close>: the transmitter and the receiver of a frame.\<close>

definition observe_transmitter :: "time \<Rightarrow> olsr_state \<Rightarrow> ipv4 \<Rightarrow> 64 word \<Rightarrow> fpnt \<Rightarrow> fpnt" where
  "observe_transmitter now s txAddr fingerprint d =
     (if txAddr \<noteq> ipv4_any \<and> isOurSelector txAddr s
      then
        let pending = map_ref [] (f_pendingArrivals d) txAddr;
            d = d\<lparr>f_pendingArrivals := map_put txAddr pending (f_pendingArrivals d)\<rparr>
        in case map_of pending fingerprint of
             None \<Rightarrow> d
           | Some arrivalTime \<Rightarrow>
               let delay = GetSeconds (now - arrivalTime);
                   d = on_metrics txAddr (\<lambda>m. m\<lparr>countFwd := countFwd m + 1,
                         totalDelay := (if delay \<ge> 0 then totalDelay m + delay else totalDelay m)\<rparr>) d
               in d\<lparr>f_pendingArrivals := map_put txAddr (map_erase fingerprint pending) (f_pendingArrivals d)\<rparr>
      else d)"

definition observe_receiver ::
  "time \<Rightarrow> olsr_state \<Rightarrow> ipv4 \<Rightarrow> ipv4 \<Rightarrow> u32 \<Rightarrow> 64 word \<Rightarrow> fpnt \<Rightarrow> fpnt" where
  "observe_receiver now s rxAddr dest bytes fingerprint d =
     (if rxAddr = ipv4_any then d
      else if \<not> isOurSelector rxAddr s then d
      else
        let d = on_metrics rxAddr (add_load bytes) d
        in if dest \<noteq> rxAddr then expect_forward now rxAddr fingerprint d else d)"

text \<open>
  \<open>MacToIpv4\<close>. \<open>me_interfaces\<close> is \<open>None\<close> when the node has no \<open>Ipv4L3Protocol\<close>, otherwise the ARP
  cache of every interface (\<open>None\<close> for an interface without one): the entry of an address is
  whether it is alive and its MAC address. \<open>me_nodes\<close> is \<open>NodeList\<close>: whether the entry is the own
  node, the MAC addresses of its WiFi devices, and the local addresses of its IPv4 interfaces.
\<close>

type_synonym arp_cache = "(ipv4, bool \<times> mac) std_map"

record listed_node =
  ln_self :: bool
  ln_wifi :: "mac list"
  ln_ipv4 :: "ipv4 list list option"

record mac_env =
  me_node :: bool
  me_interfaces :: "arp_cache option list option"
  me_nodes :: "listed_node list"

definition arp_match :: "mac \<Rightarrow> arp_cache \<Rightarrow> neighbor_tuple \<Rightarrow> bool" where
  "arp_match mac arp nb = (map_of arp (nt_neighborMainAddr nb) = Some (True, mac))"

fun arp_lookup :: "mac \<Rightarrow> neighbor_tuple list \<Rightarrow> arp_cache option list \<Rightarrow> ipv4 option" where
  "arp_lookup mac neighbors [] = None"
| "arp_lookup mac neighbors (None # ifaces) = arp_lookup mac neighbors ifaces"
| "arp_lookup mac neighbors (Some arp # ifaces) =
     (case find_first (arp_match mac arp) neighbors of
        Some nb \<Rightarrow> Some (nt_neighborMainAddr nb)
      | None \<Rightarrow> arp_lookup mac neighbors ifaces)"

definition recognised :: "olsr_state \<Rightarrow> ipv4 std_set" where
  "recognised s =
     fold (\<lambda>nb2 r. set_insert (th_twoHopNeighborAddr nb2) (set_insert (th_neighborMainAddr nb2) r))
       (m_twoHopNeighborSet s)
       (fold (\<lambda>nb. set_insert (nt_neighborMainAddr nb)) (m_neighborSet s) [])"

fun pick_address :: "ipv4 std_set \<Rightarrow> ipv4 \<Rightarrow> ipv4 list \<Rightarrow> ipv4" where
  "pick_address known fallback [] = fallback"
| "pick_address known fallback (addr # addrs) =
     (if set_count known addr then addr
      else pick_address known (if fallback = ipv4_any then addr else fallback) addrs)"

fun scan_nodes :: "mac \<Rightarrow> ipv4 std_set \<Rightarrow> listed_node list \<Rightarrow> ipv4" where
  "scan_nodes mac known [] = ipv4_any"
| "scan_nodes mac known (n # nodes) =
     (if ln_self n then scan_nodes mac known nodes
      else if mac \<notin> set (ln_wifi n) then scan_nodes mac known nodes
      else case ln_ipv4 n of
             None \<Rightarrow> scan_nodes mac known nodes
           | Some ifaces \<Rightarrow> pick_address known ipv4_any (concat (drop 1 ifaces)))"

definition Fpnt_MacToIpv4 :: "mac_env \<Rightarrow> olsr_state \<Rightarrow> mac \<Rightarrow> fpnt \<Rightarrow> ipv4" where
  "Fpnt_MacToIpv4 env s mac d =
     (if \<not> f_protocol d then ipv4_any
      else if \<not> me_node env then ipv4_any
      else case (case me_interfaces env of
                   None \<Rightarrow> None
                 | Some ifaces \<Rightarrow> arp_lookup mac (m_neighborSet s) ifaces) of
             Some addr \<Rightarrow> addr
           | None \<Rightarrow> scan_nodes mac (recognised s) (me_nodes env))"

text \<open>\<open>header\<close> is \<open>None\<close> when the packet has no IPv4 header; \<open>bytes\<close> is its size.\<close>

definition Fpnt_OnNeighborForwardedPacket ::
  "time \<Rightarrow> mac_env \<Rightarrow> olsr_state \<Rightarrow> mac \<Rightarrow> mac \<Rightarrow> ip_header option \<Rightarrow> u32 \<Rightarrow> fpnt \<Rightarrow> fpnt" where
  "Fpnt_OnNeighborForwardedPacket now env s transmitter receiver header bytes d =
     (if \<not> f_protocol d then d
      else case header of
             None \<Rightarrow> d
           | Some ipHeader \<Rightarrow>
               let fingerprint = HashIpv4Header ipHeader;
                   d = observe_transmitter now s (Fpnt_MacToIpv4 env s transmitter d) fingerprint d
               in if mac_IsGroup receiver then d
                  else observe_receiver now s (Fpnt_MacToIpv4 env s receiver d)
                         (ip_destination ipHeader) bytes fingerprint d)"

definition Fpnt_OnMacTxFailure :: "ipv4 \<Rightarrow> u32 \<Rightarrow> fpnt \<Rightarrow> fpnt" where
  "Fpnt_OnMacTxFailure neighbor count d =
     (if \<not> f_enabled d then d
      else if neighbor = ipv4_any then d
      else if neighbor = ipv4_broadcast then d
      else case map_of (f_metrics d) neighbor of
             None \<Rightarrow> d
           | Some m \<Rightarrow>
               d\<lparr>f_metrics := map_put neighbor
                    (m\<lparr>countRcv := (if countRcv m \<ge> count then countRcv m - count else 0)\<rparr>)
                    (f_metrics d)\<rparr>)"

section \<open>The trust reasoning cycle\<close>

text \<open>Counters of nodes that are no longer our MPR selectors are dropped with their history.\<close>

definition currentSelectors :: "olsr_state \<Rightarrow> ipv4 std_set" where
  "currentSelectors s = fold (\<lambda>sel. set_insert (ms_mainAddr sel)) (m_mprSelectorSet s) []"

definition drop_unselected :: "olsr_state \<Rightarrow> fpnt \<Rightarrow> fpnt" where
  "drop_unselected s d =
     fold (\<lambda>(addr, m) d.
         if \<not> set_count (currentSelectors s) addr
         then d\<lparr>f_pendingArrivals := map_erase addr (f_pendingArrivals d),
                f_directEvaluationVectors := map_erase addr (f_directEvaluationVectors d),
                f_lastSValues := map_erase addr (f_lastSValues d),
                f_metrics := map_erase addr (f_metrics d)\<rparr>
         else d)
       (f_metrics d) d"

text \<open>Rule D1 for one MPR; \<open>silent_since\<close> is the start of its silence.\<close>

definition scan_mpr :: "time \<Rightarrow> time \<Rightarrow> ipv4 \<Rightarrow> fpnt \<Rightarrow> fpnt" where
  "scan_mpr now holdTime mpr d =
     (case map_of (f_mprSelectionTime d) mpr of
        None \<Rightarrow> d\<lparr>f_mprSelectionTime := map_put mpr now (f_mprSelectionTime d)\<rparr>
      | Some selectedSince \<Rightarrow>
          if now - selectedSince < holdTime then d
          else
            let age = (case map_of (f_lastTcTime d) mpr of
                         None \<Rightarrow> now - selectedSince
                       | Some t \<Rightarrow> now - t)
            in if age > holdTime then on_metrics mpr count_cheat d else d)"

definition ScanDeviationRuleD1 :: "time \<Rightarrow> time \<Rightarrow> olsr_state \<Rightarrow> fpnt \<Rightarrow> fpnt" where
  "ScanDeviationRuleD1 now tcInterval s d =
     (if \<not> f_protocol d then d
      else
        let d = d\<lparr>f_mprSelectionTime :=
                    filter (\<lambda>(a, t). set_count (m_mprSet s) a) (f_mprSelectionTime d)\<rparr>
        in fold (scan_mpr now (tcInterval * D1_HOLD_MULTIPLIER)) (m_mprSet s) d)"

definition ExpireStaleArrivals :: "time \<Rightarrow> fpnt \<Rightarrow> fpnt" where
  "ExpireStaleArrivals now d =
     (let cutoff = now - f_checkInterval d * 2
      in d\<lparr>f_pendingArrivals :=
             map (\<lambda>(neighbor, pending). (neighbor, filter (\<lambda>(key, t). \<not> t < cutoff) pending))
               (f_pendingArrivals d)\<rparr>)"

text \<open>
  \<open>MetricsToS0\<close>: the truth values of the eight evidence places in pairs. A factor without
  observations keeps its values of the last period.
\<close>

definition last_pair :: "rat list option \<Rightarrow> nat \<Rightarrow> rat list" where
  "last_pair history i = (case history of None \<Rightarrow> [0, 0] | Some S \<Rightarrow> [S ! i, S ! (i + 1)])"

definition load_places :: "fpnt \<Rightarrow> NodeBehaviorMetrics \<Rightarrow> rat list option \<Rightarrow> rat list" where
  "load_places d m history =
     (if countLoad m > 0
      then
        let t = GetSeconds (f_checkInterval d);
            tSafe = (if t > 0 then t else 1);
            loadBps = (of_nat (unat (countLoad m)) * 8) / tSafe;
            s1 = clamp (loadBps / f_maxLoad d) 0 1
        in [s1, 1 - s1]
      else last_pair history 0)"

definition forwarding_places :: "NodeBehaviorMetrics \<Rightarrow> rat list option \<Rightarrow> rat list" where
  "forwarding_places m history =
     (if countRcv m > 0
      then
        let pfr = clamp (of_nat (unat (countFwd m)) / of_nat (unat (countRcv m))) 0 1
        in [pfr, 1 - pfr]
      else last_pair history 2)"

definition delay_places :: "fpnt \<Rightarrow> NodeBehaviorMetrics \<Rightarrow> rat list option \<Rightarrow> rat list" where
  "delay_places d m history =
     (if countFwd m > 0 \<and> totalDelay m > 0
      then
        let avgDelay = totalDelay m / of_nat (unat (countFwd m));
            s5 = clamp (avgDelay / f_maxDelay d) 0 1
        in [s5, 1 - s5]
      else last_pair history 4)"

definition deviation_places :: "fpnt \<Rightarrow> NodeBehaviorMetrics \<Rightarrow> rat list" where
  "deviation_places d m = (if countRCheat m > f_cheatThreshold d then [1, 0] else [0, 1])"

definition MetricsToS0 :: "ipv4 \<Rightarrow> NodeBehaviorMetrics \<Rightarrow> fpnt \<Rightarrow> rat list" where
  "MetricsToS0 addr m d =
     (let history = map_of (f_lastSValues d) addr
      in load_places d m history @ forwarding_places m history @ delay_places d m history
         @ deviation_places d m @ replicate 7 0)"

text \<open>Step 1, the direct evaluations; step 2, the targets.\<close>

definition refresh_direct :: "ipv4 \<times> NodeBehaviorMetrics \<Rightarrow> fpnt \<Rightarrow> fpnt res" where
  "refresh_direct = (\<lambda>(addr, m) d.
     let s0 = MetricsToS0 addr m d
     in bindR (RunFuzzyPetriNet s0) (\<lambda>ev.
          Inr (d\<lparr>f_lastSValues := map_put addr s0 (f_lastSValues d),
                 f_directEvaluationVectors := map_put addr ev (f_directEvaluationVectors d)\<rparr>)))"

definition trust_targets :: "fpnt \<Rightarrow> ipv4 std_set" where
  "trust_targets d =
     fold (\<lambda>((sender, target), ev). set_insert target) (f_recommendations d)
       (fold (\<lambda>(addr, ev). set_insert addr) (f_directEvaluationVectors d) [])"

text \<open>Step 3 for one target: Equations (1) to (5).\<close>

definition evidence :: "ipv4 \<Rightarrow> fpnt \<Rightarrow> EvaluationVector list" where
  "evidence addr d =
     (case map_of (f_directEvaluationVectors d) addr of None \<Rightarrow> [] | Some ev \<Rightarrow> [ev])
     @ map snd (filter (\<lambda>((sender, target), ev). target = addr) (f_recommendations d))"

definition update_trust :: "ipv4 \<Rightarrow> fpnt \<times> bool \<Rightarrow> (fpnt \<times> bool) res" where
  "update_trust addr = (\<lambda>(d, needsReactiveUpdate).
     let evs = evidence addr d
     in if evs = [] then Inr (d, needsReactiveUpdate)
        else bindR (AggregateEvaluations evs) (\<lambda>(aggTrust, aggUncertain).
          let Tc = clamp (aggTrust + f_uncertaintyBeta d * aggUncertain) 0 1;
              old = map_of (f_trustTable d) addr;
              finalTrust = (case old of
                              Some T \<Rightarrow> (1 - f_fadingFactor d) * Tc + f_fadingFactor d * T
                            | None \<Rightarrow> Tc);
              wasMalicious = (case old of Some T \<Rightarrow> T < f_maliciousThreshold d | None \<Rightarrow> False);
              isMalicious = (finalTrust < f_maliciousThreshold d)
          in Inr (d\<lparr>f_trustTable := map_put addr finalTrust (f_trustTable d)\<rparr>,
                  if wasMalicious \<noteq> isMalicious then True else needsReactiveUpdate)))"

text \<open>The new state, and whether \<open>RunTrustDijkstra\<close> is called.\<close>

definition Fpnt_PeriodicCheck :: "time \<Rightarrow> time \<Rightarrow> olsr_state \<Rightarrow> fpnt \<Rightarrow> (fpnt \<times> bool) res" where
  "Fpnt_PeriodicCheck now tcInterval s d =
     (if \<not> f_enabled d
      then Inr (d\<lparr>f_metrics := [], f_recommendations := [], f_pendingArrivals := []\<rparr>, False)
      else
        let d = (if f_protocol d then drop_unselected s d else d);
            d = ExpireStaleArrivals now (ScanDeviationRuleD1 now tcInterval s d)
        in bindR (foldE refresh_direct (f_metrics d) d) (\<lambda>d.
           bindR (foldE update_trust (trust_targets d) (d, False)) (\<lambda>(d, needsReactiveUpdate).
           Inr (d\<lparr>f_metrics := [], f_recommendations := []\<rparr>, needsReactiveUpdate \<and> f_protocol d))))"

end
