(* ===== verification/Fpnt_Invariants.thy ===== *)
theory Fpnt_Invariants
  imports Fpnt_Defense
begin

text \<open>
  What the FPNT defense guarantees: the hooks that only collect evidence leave the verdicts alone
  (\<open>same_verdicts\<close>), every run of events keeps all trust values in the unit interval and never
  stops the program (\<open>fpnt_ok\<close>), and how evidence, recommendations and the two deviation rules
  decide who is called malicious.
\<close>

section \<open>The invariant of the state\<close>

text \<open>
  What the attribute checkers promise of the parameters, and what every operation keeps: all
  trust values and all stored truth values lie between 0 and 1, and the counters are an ordered map.
\<close>

definition params_ok :: "fpnt \<Rightarrow> bool" where
  "params_ok d \<longleftrightarrow> unit (f_maliciousThreshold d) \<and> unit (f_uncertaintyBeta d) \<and> unit (f_fadingFactor d)
     \<and> 1 \<le> f_maxLoad d \<and> 1 / 1000 \<le> f_maxDelay d"

definition fpnt_ok :: "fpnt \<Rightarrow> bool" where
  "fpnt_ok d \<longleftrightarrow> params_ok d \<and> (\<forall>(a, t)\<in>set (f_trustTable d). unit t)
     \<and> (\<forall>(a, S)\<in>set (f_lastSValues d). fuzzy S) \<and> wf_map (f_metrics d)"

datatype fpnt_event =
    Ev_Setup ipv4
  | Ev_DoDispose
  | Ev_SetEnabled bool
  | Ev_RecvVectors ipv4 "ipv4 list" "EvaluationVector list"
  | Ev_RecvTc time time olsr_state ipv4 "ipv4 list"
  | Ev_Forwarded time olsr_state ip_header u32 ipv4 ipv4
  | Ev_Overheard time mac_env olsr_state mac mac "ip_header option" u32
  | Ev_TxFailure ipv4 u32
  | Ev_Periodic time time olsr_state

fun fpnt_event_step :: "fpnt_event \<Rightarrow> fpnt \<Rightarrow> fpnt res" where
  "fpnt_event_step (Ev_Setup a) d = Inr (Fpnt_Setup a d)"
| "fpnt_event_step Ev_DoDispose d = Inr (Fpnt_DoDispose d)"
| "fpnt_event_step (Ev_SetEnabled b) d = Inr (fst (Fpnt_SetEnabled b d))"
| "fpnt_event_step (Ev_RecvVectors a ns vs) d = Inr (Fpnt_OnRecvEvaluationVectors a ns vs d)"
| "fpnt_event_step (Ev_RecvTc now tcI s a ns) d = Inr (Fpnt_OnRecvTc now tcI s a ns d)"
| "fpnt_event_step (Ev_Forwarded now s h n a b) d = Inr (Fpnt_OnDataPacketForwarded now s h n a b d)"
| "fpnt_event_step (Ev_Overheard now env s tx rx h n) d =
     Inr (Fpnt_OnNeighborForwardedPacket now env s tx rx h n d)"
| "fpnt_event_step (Ev_TxFailure a n) d = Inr (Fpnt_OnMacTxFailure a n d)"
| "fpnt_event_step (Ev_Periodic now tcI s) d = bindR (Fpnt_PeriodicCheck now tcI s d) (\<lambda>(d, r). Inr d)"

definition fpnt_run :: "fpnt_event list \<Rightarrow> fpnt \<Rightarrow> fpnt res" where
  "fpnt_run events d = foldE fpnt_event_step events d"

lemma set_map_put_subset: "set (map_put k v m) \<subseteq> insert (k, v) (set m)"
  by (induction k v m rule: map_put.induct) auto

lemma ball_map_put: "\<forall>x\<in>set m. P x \<Longrightarrow> P (k, v) \<Longrightarrow> \<forall>x\<in>set (map_put k v m). P x"
  using set_map_put_subset [of k v m] by blast

lemma ball_map_erase: "\<forall>x\<in>set m. P x \<Longrightarrow> \<forall>x\<in>set (map_erase k m). P x"
  by (auto simp: map_erase_def)

text \<open>
  The part of the state that the monitoring hooks leave alone; the counters they write stay an
  ordered map.
\<close>

definition same_verdicts :: "fpnt \<Rightarrow> fpnt \<Rightarrow> bool" where
  "same_verdicts d d' \<longleftrightarrow> f_trustTable d' = f_trustTable d \<and> f_lastSValues d' = f_lastSValues d
     \<and> f_directEvaluationVectors d' = f_directEvaluationVectors d
     \<and> f_enabled d' = f_enabled d \<and> f_protocol d' = f_protocol d \<and> f_selfAddress d' = f_selfAddress d
     \<and> f_maliciousThreshold d' = f_maliciousThreshold d \<and> f_uncertaintyBeta d' = f_uncertaintyBeta d
     \<and> f_fadingFactor d' = f_fadingFactor d \<and> f_maxLoad d' = f_maxLoad d \<and> f_maxDelay d' = f_maxDelay d
     \<and> f_cheatThreshold d' = f_cheatThreshold d \<and> f_checkInterval d' = f_checkInterval d
     \<and> (wf_map (f_metrics d) \<longrightarrow> wf_map (f_metrics d'))"

named_theorems fpnt_hook "hooks that leave the verdicts alone"

lemma same_verdicts_refl [simp]: "same_verdicts d d"
  by (simp add: same_verdicts_def)

lemma same_verdicts_trans: "same_verdicts d d' \<Longrightarrow> same_verdicts d' d'' \<Longrightarrow> same_verdicts d d''"
  by (simp add: same_verdicts_def)

lemma on_metrics_hook [fpnt_hook]: "same_verdicts d (on_metrics a f d)"
  by (simp add: same_verdicts_def on_metrics_def)

lemma expect_forward_hook [fpnt_hook]: "same_verdicts d (expect_forward now a key d)"
  by (simp add: same_verdicts_def expect_forward_def on_metrics_def Let_def)

lemma observe_transmitter_hook [fpnt_hook]: "same_verdicts d (observe_transmitter now s a key d)"
  by (simp add: same_verdicts_def observe_transmitter_def on_metrics_def Let_def split: option.split)

lemma observe_receiver_hook [fpnt_hook]: "same_verdicts d (observe_receiver now s a dest n key d)"
  by (simp add: same_verdicts_def observe_receiver_def expect_forward_def on_metrics_def Let_def)

lemma OnDataPacketForwarded_hook [fpnt_hook]:
  "same_verdicts d (Fpnt_OnDataPacketForwarded now s h n a b d)"
  by (simp add: same_verdicts_def Fpnt_OnDataPacketForwarded_def expect_forward_def on_metrics_def Let_def)

lemma OnNeighborForwardedPacket_hook [fpnt_hook]:
  "same_verdicts d (Fpnt_OnNeighborForwardedPacket now env s tx rx h n d)"
  unfolding Fpnt_OnNeighborForwardedPacket_def Let_def
  by (auto split: option.split intro: same_verdicts_trans fpnt_hook)

lemma OnMacTxFailure_hook [fpnt_hook]: "same_verdicts d (Fpnt_OnMacTxFailure a n d)"
  by (simp add: same_verdicts_def Fpnt_OnMacTxFailure_def split: option.split)

lemma OnRecvTc_hook [fpnt_hook]: "same_verdicts d (Fpnt_OnRecvTc now tcI s a ns d)"
  by (simp add: same_verdicts_def Fpnt_OnRecvTc_def on_metrics_def Let_def split: option.split)

lemma OnRecvEvaluationVectors_hook [fpnt_hook]:
  "same_verdicts d (Fpnt_OnRecvEvaluationVectors a ns vs d)"
  by (simp add: same_verdicts_def Fpnt_OnRecvEvaluationVectors_def)

lemma scan_mpr_hook [fpnt_hook]: "same_verdicts d (scan_mpr now hold a d)"
  by (simp add: same_verdicts_def scan_mpr_def on_metrics_def Let_def split: option.split)

lemma ScanDeviationRuleD1_hook [fpnt_hook]: "same_verdicts d (ScanDeviationRuleD1 now tcI s d)"
proof -
  have "same_verdicts d (fold (scan_mpr now h) xs d')" if "same_verdicts d d'" for h xs d'
    by (rule fold_invariant_rule [where P = "same_verdicts d"])
       (use that in \<open>auto intro: same_verdicts_trans fpnt_hook\<close>)
  moreover have "same_verdicts d (d\<lparr>f_mprSelectionTime := x\<rparr>)" for x by (simp add: same_verdicts_def)
  ultimately show ?thesis by (simp add: ScanDeviationRuleD1_def Let_def)
qed

lemma ExpireStaleArrivals_hook [fpnt_hook]: "same_verdicts d (ExpireStaleArrivals now d)"
  by (simp add: same_verdicts_def ExpireStaleArrivals_def Let_def)

lemma fpnt_ok_hook: "same_verdicts d d' \<Longrightarrow> fpnt_ok d \<Longrightarrow> fpnt_ok d'"
  by (simp add: fpnt_ok_def params_ok_def same_verdicts_def)

section \<open>The evidence is a vector of truth values\<close>

lemma clamp_unit: "unit (clamp x 0 1)"
  by (simp add: clamp_def unit_def)

lemma unit_minus: "unit x \<Longrightarrow> unit (1 - x)"
  by (simp add: unit_def)

lemma fuzzy_unit_nth: "fuzzy S \<Longrightarrow> i < 15 \<Longrightarrow> unit (S ! i)"
  using fuzzy_nth by (simp add: unit_def)

lemma last_pair_unit:
  "(\<And>S. history = Some S \<Longrightarrow> fuzzy S) \<Longrightarrow> i < 14 \<Longrightarrow>
    length (last_pair history i) = 2 \<and> (\<forall>x\<in>set (last_pair history i). unit x)"
  by (cases history) (auto simp: last_pair_def fuzzy_unit_nth, simp_all add: unit_def)

lemma MetricsToS0_fuzzy:
  assumes "fpnt_ok d"
  shows "fuzzy (MetricsToS0 addr m d)"
proof -
  let ?h = "map_of (f_lastSValues d) addr"
  have h: "fuzzy S" if "?h = Some S" for S
    using assms map_of_SomeD [OF that] by (auto simp: fpnt_ok_def)
  have "length (load_places d m ?h) = 2 \<and> (\<forall>x\<in>set (load_places d m ?h). unit x)"
    using last_pair_unit [where i = 0, OF h]
    by (auto simp: load_places_def Let_def intro!: clamp_unit unit_minus)
  moreover have "length (forwarding_places m ?h) = 2 \<and> (\<forall>x\<in>set (forwarding_places m ?h). unit x)"
    using last_pair_unit [where i = 2, OF h]
    by (auto simp: forwarding_places_def Let_def intro!: clamp_unit unit_minus)
  moreover have "length (delay_places d m ?h) = 2 \<and> (\<forall>x\<in>set (delay_places d m ?h). unit x)"
    using last_pair_unit [where i = 4, OF h]
    by (auto simp: delay_places_def Let_def intro!: clamp_unit unit_minus)
  moreover have "length (deviation_places d m) = 2 \<and> (\<forall>x\<in>set (deviation_places d m). unit x)"
    by (auto simp: deviation_places_def unit_def)
  ultimately show ?thesis
    by (auto simp: MetricsToS0_def Let_def fuzzy_def NUM_PLACES_def unit_def)
qed

section \<open>The cycle keeps the invariant and never stops the program\<close>

lemma refresh_direct_Inr:
  assumes "fpnt_ok d"
  shows "\<exists>ev. RunFuzzyPetriNet (MetricsToS0 addr m d) = Inr ev
    \<and> refresh_direct (addr, m) d =
        Inr (d\<lparr>f_lastSValues := map_put addr (MetricsToS0 addr m d) (f_lastSValues d),
               f_directEvaluationVectors := map_put addr ev (f_directEvaluationVectors d)\<rparr>)"
  using RunFuzzyPetriNet_total [OF MetricsToS0_fuzzy [OF assms, of addr m]]
  by (auto simp: refresh_direct_def Let_def)

lemma refresh_direct_ok:
  assumes "fpnt_ok d"
  shows "\<exists>d'. refresh_direct x d = Inr d' \<and> fpnt_ok d'"
proof -
  obtain addr m where x: "x = (addr, m)" by (cases x)
  obtain ev where ev: "refresh_direct x d =
      Inr (d\<lparr>f_lastSValues := map_put addr (MetricsToS0 addr m d) (f_lastSValues d),
             f_directEvaluationVectors := map_put addr ev (f_directEvaluationVectors d)\<rparr>)"
    using refresh_direct_Inr [OF assms, of addr m] x by blast
  have "\<forall>(a, S)\<in>set (map_put addr (MetricsToS0 addr m d) (f_lastSValues d)). fuzzy S"
    using assms MetricsToS0_fuzzy [OF assms] by (intro ball_map_put) (auto simp: fpnt_ok_def)
  then show ?thesis using assms by (simp add: ev fpnt_ok_def params_ok_def)
qed

text \<open>Equation (5) as the step of one trust value.\<close>

definition smooth :: "fpnt \<Rightarrow> rat option \<Rightarrow> rat \<Rightarrow> rat" where
  "smooth d old Tc =
     (case old of Some T \<Rightarrow> (1 - f_fadingFactor d) * Tc + f_fadingFactor d * T | None \<Rightarrow> Tc)"

lemma smooth_unit:
  "params_ok d \<Longrightarrow> unit Tc \<Longrightarrow> (\<And>T. old = Some T \<Longrightarrow> unit T) \<Longrightarrow> unit (smooth d old Tc)"
  by (cases old) (auto simp: smooth_def params_ok_def unit_def [of "f_fadingFactor d"] intro!: unit_mix2)

definition period_trust :: "fpnt \<Rightarrow> rat \<times> rat \<Rightarrow> rat" where
  "period_trust d = (\<lambda>(aggTrust, aggUncertain). clamp (aggTrust + f_uncertaintyBeta d * aggUncertain) 0 1)"

definition below_threshold :: "fpnt \<Rightarrow> rat option \<Rightarrow> bool" where
  "below_threshold d old = (case old of Some T \<Rightarrow> T < f_maliciousThreshold d | None \<Rightarrow> False)"

lemma update_trust_eq:
  assumes "evidence addr d \<noteq> []" and "AggregateEvaluations (evidence addr d) = Inr agg"
  shows "update_trust addr (d, b) =
    (let T = smooth d (map_of (f_trustTable d) addr) (period_trust d agg)
     in Inr (d\<lparr>f_trustTable := map_put addr T (f_trustTable d)\<rparr>,
             below_threshold d (map_of (f_trustTable d) addr) \<noteq> (T < f_maliciousThreshold d) \<or> b))"
  using assms
  by (cases agg) (simp add: update_trust_def Let_def smooth_def period_trust_def below_threshold_def)

lemma update_trust_cases:
  "evidence addr d = [] \<and> update_trust addr (d, b) = Inr (d, b)
   \<or> (\<exists>Tc b'. evidence addr d \<noteq> [] \<and> unit Tc \<and>
        update_trust addr (d, b) = Inr (d\<lparr>f_trustTable :=
          map_put addr (smooth d (map_of (f_trustTable d) addr) Tc) (f_trustTable d)\<rparr>, b'))"
proof (cases "evidence addr d = []")
  case False
  obtain agg where agg: "AggregateEvaluations (evidence addr d) = Inr agg"
    using AggregateEvaluations_sum [OF False] by blast
  have "unit (period_trust d agg)" by (cases agg) (simp add: period_trust_def clamp_unit)
  then show ?thesis using False update_trust_eq [OF False agg, of b] by (auto simp: Let_def)
qed (simp add: update_trust_def)

lemma update_trust_ok:
  assumes "fpnt_ok d"
  shows "\<exists>d' b'. update_trust addr (d, b) = Inr (d', b') \<and> fpnt_ok d'"
  using update_trust_cases [of addr d b]
proof (elim disjE exE conjE)
  fix Tc b'
  assume Tc: "unit Tc" and upd: "update_trust addr (d, b) = Inr (d\<lparr>f_trustTable :=
          map_put addr (smooth d (map_of (f_trustTable d) addr) Tc) (f_trustTable d)\<rparr>, b')"
  have "unit T" if "map_of (f_trustTable d) addr = Some T" for T
    using assms map_of_SomeD [OF that] by (auto simp: fpnt_ok_def)
  then have "unit (smooth d (map_of (f_trustTable d) addr) Tc)"
    using assms Tc by (intro smooth_unit) (auto simp: fpnt_ok_def)
  then have "\<forall>(a, t)\<in>set (map_put addr (smooth d (map_of (f_trustTable d) addr) Tc) (f_trustTable d)). unit t"
    using assms by (intro ball_map_put) (auto simp: fpnt_ok_def)
  then show ?thesis using assms by (simp add: upd fpnt_ok_def params_ok_def)
qed (use assms in auto)

lemma wf_map_filter: "wf_map m \<Longrightarrow> wf_map (filter P m)"
  unfolding wf_map_def by (induction m) auto

text \<open>The loop over \<open>m_metrics\<close> removes every counter of a node that is not a selector.\<close>

definition keep_selected :: "olsr_state \<Rightarrow> ipv4 set \<Rightarrow> (ipv4 \<times> 'a) list \<Rightarrow> (ipv4 \<times> 'a) list" where
  "keep_selected s as m = filter (\<lambda>(a, x). \<not> (a \<in> as \<and> \<not> set_count (currentSelectors s) a)) m"

lemma keep_selected_empty [simp]: "keep_selected s {} m = m"
  by (simp add: keep_selected_def)

lemma keep_selected_insert:
  "set_count (currentSelectors s) a \<Longrightarrow> keep_selected s (insert a as) m = keep_selected s as m"
  "\<not> set_count (currentSelectors s) a \<Longrightarrow> keep_selected s (insert a as) m = keep_selected s as (map_erase a m)"
  by (auto simp: keep_selected_def map_erase_def intro!: filter_cong)

lemma drop_unselected_eq:
  "drop_unselected s d = d\<lparr>
     f_pendingArrivals := keep_selected s (fst ` set (f_metrics d)) (f_pendingArrivals d),
     f_directEvaluationVectors := keep_selected s (fst ` set (f_metrics d)) (f_directEvaluationVectors d),
     f_lastSValues := keep_selected s (fst ` set (f_metrics d)) (f_lastSValues d),
     f_metrics := keep_selected s (fst ` set (f_metrics d)) (f_metrics d)\<rparr>"
proof -
  define step where "step = (\<lambda>(addr, m :: NodeBehaviorMetrics) d :: fpnt.
         if \<not> set_count (currentSelectors s) addr
         then d\<lparr>f_pendingArrivals := map_erase addr (f_pendingArrivals d),
                f_directEvaluationVectors := map_erase addr (f_directEvaluationVectors d),
                f_lastSValues := map_erase addr (f_lastSValues d),
                f_metrics := map_erase addr (f_metrics d)\<rparr>
         else d)"
  have "fold step xs d = d\<lparr>f_pendingArrivals := keep_selected s (fst ` set xs) (f_pendingArrivals d),
      f_directEvaluationVectors := keep_selected s (fst ` set xs) (f_directEvaluationVectors d),
      f_lastSValues := keep_selected s (fst ` set xs) (f_lastSValues d),
      f_metrics := keep_selected s (fst ` set xs) (f_metrics d)\<rparr>" for xs
  proof (induction xs arbitrary: d)
    case (Cons x xs)
    obtain a m where x: "x = (a, m)" by (cases x)
    have drop: "\<not> set_count (currentSelectors s) a \<Longrightarrow> step x d =
        d\<lparr>f_pendingArrivals := map_erase a (f_pendingArrivals d),
          f_directEvaluationVectors := map_erase a (f_directEvaluationVectors d),
          f_lastSValues := map_erase a (f_lastSValues d), f_metrics := map_erase a (f_metrics d)\<rparr>"
      and skip: "set_count (currentSelectors s) a \<Longrightarrow> step x d = d"
      by (simp_all add: step_def x)
    show ?case
    proof (cases "set_count (currentSelectors s) a")
      case True
      then show ?thesis by (simp add: skip [OF True, unfolded x] Cons.IH x keep_selected_insert)
    next
      case False
      then show ?thesis by (simp add: drop [OF False, unfolded x] Cons.IH x keep_selected_insert)
    qed
  qed simp
  then show ?thesis unfolding drop_unselected_def step_def [symmetric] .
qed

lemma drop_unselected_ok: "fpnt_ok d \<Longrightarrow> fpnt_ok (drop_unselected s d)"
  by (auto simp: drop_unselected_eq fpnt_ok_def params_ok_def keep_selected_def wf_map_filter)

text \<open>The state in which the period is evaluated.\<close>

definition check_ready :: "time \<Rightarrow> time \<Rightarrow> olsr_state \<Rightarrow> fpnt \<Rightarrow> fpnt" where
  "check_ready now tcI s d =
     ExpireStaleArrivals now (ScanDeviationRuleD1 now tcI s (if f_protocol d then drop_unselected s d else d))"

lemma PeriodicCheck_enabled:
  "f_enabled d \<Longrightarrow> Fpnt_PeriodicCheck now tcI s d =
     bindR (foldE refresh_direct (f_metrics (check_ready now tcI s d)) (check_ready now tcI s d)) (\<lambda>d.
     bindR (foldE update_trust (trust_targets d) (d, False)) (\<lambda>(d, b).
     Inr (d\<lparr>f_metrics := [], f_recommendations := []\<rparr>, b \<and> f_protocol d)))"
  by (simp add: Fpnt_PeriodicCheck_def Let_def check_ready_def)

lemma check_ready_ok: "fpnt_ok d \<Longrightarrow> fpnt_ok (check_ready now tcI s d)"
  unfolding check_ready_def
  by (intro fpnt_ok_hook [OF ExpireStaleArrivals_hook] fpnt_ok_hook [OF ScanDeviationRuleD1_hook])
     (simp add: drop_unselected_ok)

lemma refresh_all_ok:
  assumes "fpnt_ok d"
  shows "\<exists>d'. foldE refresh_direct ms d = Inr d' \<and> fpnt_ok d'"
  by (rule foldE_total [where P = fpnt_ok, OF assms]) (rule refresh_direct_ok)

lemma update_all_ok:
  assumes "fpnt_ok d"
  shows "\<exists>d' b'. foldE update_trust as (d, b) = Inr (d', b') \<and> fpnt_ok d'"
proof -
  have "\<exists>p. foldE update_trust as (d, b) = Inr p \<and> fpnt_ok (fst p)"
  proof (rule foldE_total [where P = "\<lambda>p. fpnt_ok (fst p)"])
    fix addr :: ipv4 and p :: "fpnt \<times> bool"
    assume "fpnt_ok (fst p)"
    then show "\<exists>p'. update_trust addr p = Inr p' \<and> fpnt_ok (fst p')"
      using update_trust_ok [of "fst p" addr "snd p"] by force
  qed (use assms in simp)
  then show ?thesis by force
qed

lemma PeriodicCheck_ok:
  assumes "fpnt_ok d"
  shows "\<exists>d' b. Fpnt_PeriodicCheck now tcI s d = Inr (d', b) \<and> fpnt_ok d'"
proof (cases "f_enabled d")
  case True
  obtain d2 where d2: "foldE refresh_direct (f_metrics (check_ready now tcI s d)) (check_ready now tcI s d) = Inr d2"
      "fpnt_ok d2"
    using refresh_all_ok [OF check_ready_ok [OF assms]] by blast
  obtain d3 b where "foldE update_trust (trust_targets d2) (d2, False) = Inr (d3, b)" "fpnt_ok d3"
    using update_all_ok [OF d2(2)] by blast
  then show ?thesis using True d2(1) by (simp add: PeriodicCheck_enabled) (simp add: fpnt_ok_def params_ok_def)
qed (use assms in \<open>auto simp: Fpnt_PeriodicCheck_def fpnt_ok_def params_ok_def\<close>)

lemma fpnt_event_step_ok: "fpnt_ok d \<Longrightarrow> \<exists>d'. fpnt_event_step e d = Inr d' \<and> fpnt_ok d'"
proof (cases e)
  case (Ev_Periodic now tcI s)
  assume "fpnt_ok d"
  then show ?thesis using PeriodicCheck_ok [of d now tcI s] Ev_Periodic by auto
qed (auto intro: fpnt_ok_hook fpnt_hook
      simp: Fpnt_Setup_def Fpnt_DoDispose_def Fpnt_SetEnabled_def,
     auto simp: fpnt_ok_def params_ok_def)

section \<open>What a period does to one neighbor\<close>

text \<open>The parameters and the part of the state that the evaluation of a period only reads.\<close>

definition same_rules :: "fpnt \<Rightarrow> fpnt \<Rightarrow> bool" where
  "same_rules d d' \<longleftrightarrow> f_recommendations d' = f_recommendations d \<and> f_protocol d' = f_protocol d
     \<and> f_enabled d' = f_enabled d \<and> f_cheatThreshold d' = f_cheatThreshold d
     \<and> f_maliciousThreshold d' = f_maliciousThreshold d \<and> f_uncertaintyBeta d' = f_uncertaintyBeta d
     \<and> f_fadingFactor d' = f_fadingFactor d \<and> f_maxLoad d' = f_maxLoad d \<and> f_maxDelay d' = f_maxDelay d
     \<and> f_checkInterval d' = f_checkInterval d \<and> f_metrics d' = f_metrics d
     \<and> f_selfAddress d' = f_selfAddress d"

lemma same_rules_refl [simp]: "same_rules d d"
  by (simp add: same_rules_def)

lemma same_rules_trans: "same_rules d d' \<Longrightarrow> same_rules d' d'' \<Longrightarrow> same_rules d d''"
  by (simp add: same_rules_def)

lemma MetricsToS0_cong:
  "same_rules d d' \<Longrightarrow> map_of (f_lastSValues d') addr = map_of (f_lastSValues d) addr \<Longrightarrow>
    MetricsToS0 addr m d' = MetricsToS0 addr m d"
  by (simp add: MetricsToS0_def load_places_def delay_places_def deviation_places_def same_rules_def Let_def)

text \<open>Step 1: every counted neighbor is evaluated from its own counters and history.\<close>

definition refreshed :: "fpnt \<Rightarrow> (ipv4, NodeBehaviorMetrics) std_map \<Rightarrow> fpnt \<Rightarrow> bool" where
  "refreshed d ms d' \<longleftrightarrow> same_rules d d' \<and> f_trustTable d' = f_trustTable d
     \<and> (\<forall>addr. case map_of ms addr of
          None \<Rightarrow> map_of (f_lastSValues d') addr = map_of (f_lastSValues d) addr
            \<and> map_of (f_directEvaluationVectors d') addr = map_of (f_directEvaluationVectors d) addr
        | Some m \<Rightarrow> map_of (f_lastSValues d') addr = Some (MetricsToS0 addr m d)
            \<and> (\<exists>ev. map_of (f_directEvaluationVectors d') addr = Some ev
                 \<and> RunFuzzyPetriNet (MetricsToS0 addr m d) = Inr ev))"

lemma refresh_all:
  assumes "fpnt_ok d" and "distinct (map fst ms)" and "foldE refresh_direct ms d = Inr d'"
  shows "refreshed d ms d'"
  using assms
proof (induction ms arbitrary: d)
  case (Cons x ms)
  obtain a m where x: "x = (a, m)" by (cases x)
  obtain ev where ev: "RunFuzzyPetriNet (MetricsToS0 a m d) = Inr ev"
      "refresh_direct (a, m) d =
        Inr (d\<lparr>f_lastSValues := map_put a (MetricsToS0 a m d) (f_lastSValues d),
               f_directEvaluationVectors := map_put a ev (f_directEvaluationVectors d)\<rparr>)" (is "_ = Inr ?d1")
    using refresh_direct_Inr [OF Cons.prems(1), of a m] by blast
  have "fpnt_ok ?d1" using refresh_direct_ok [OF Cons.prems(1), of "(a, m)"] ev(2) by auto
  moreover have "foldE refresh_direct ms ?d1 = Inr d'" using Cons.prems(3) by (simp add: x ev(2))
  ultimately have rest: "refreshed ?d1 ms d'" using Cons.prems(2) by (intro Cons.IH) auto
  have rules: "same_rules d ?d1" by (simp add: same_rules_def)
  have a: "map_of ms a = None" using Cons.prems(2) by (simp add: x map_of_eq_None_iff)
  have other: "map_of (f_lastSValues ?d1) b = map_of (f_lastSValues d) b
      \<and> map_of (f_directEvaluationVectors ?d1) b = map_of (f_directEvaluationVectors d) b
      \<and> MetricsToS0 b n ?d1 = MetricsToS0 b n d" if "b \<noteq> a" for b n
    using that MetricsToS0_cong [OF rules, of b n] by simp
  show ?case
    unfolding refreshed_def
  proof (intro conjI allI)
    show "same_rules d d'" using rest rules by (auto simp: refreshed_def intro: same_rules_trans)
    show "f_trustTable d' = f_trustTable d" using rest by (simp add: refreshed_def)
  next
    fix addr
    show "case map_of (x # ms) addr of
        None \<Rightarrow> map_of (f_lastSValues d') addr = map_of (f_lastSValues d) addr
          \<and> map_of (f_directEvaluationVectors d') addr = map_of (f_directEvaluationVectors d) addr
      | Some m \<Rightarrow> map_of (f_lastSValues d') addr = Some (MetricsToS0 addr m d)
          \<and> (\<exists>ev. map_of (f_directEvaluationVectors d') addr = Some ev
               \<and> RunFuzzyPetriNet (MetricsToS0 addr m d) = Inr ev)"
    proof (cases "addr = a")
      case True
      then show ?thesis using rest a ev(1) by (auto simp: x refreshed_def dest: spec [of _ a])
    next
      case False
      have "case map_of ms addr of
          None \<Rightarrow> map_of (f_lastSValues d') addr = map_of (f_lastSValues ?d1) addr
            \<and> map_of (f_directEvaluationVectors d') addr = map_of (f_directEvaluationVectors ?d1) addr
        | Some m \<Rightarrow> map_of (f_lastSValues d') addr = Some (MetricsToS0 addr m ?d1)
            \<and> (\<exists>ev. map_of (f_directEvaluationVectors d') addr = Some ev
                 \<and> RunFuzzyPetriNet (MetricsToS0 addr m ?d1) = Inr ev)"
        using rest unfolding refreshed_def by blast
      then show ?thesis using False other [OF False] by (simp add: x split: option.splits)
    qed
  qed
qed (simp add: refreshed_def)

text \<open>Steps 2 and 3: every target gets its trust value from its own evidence.\<close>

lemma evidence_trust [simp]: "evidence addr (d\<lparr>f_trustTable := t\<rparr>) = evidence addr d"
  by (simp add: evidence_def)

lemma smooth_trust [simp]: "smooth (d\<lparr>f_trustTable := t\<rparr>) = smooth d"
  by (rule ext)+ (simp add: smooth_def split: option.split)

lemma period_trust_trust [simp]: "period_trust (d\<lparr>f_trustTable := t\<rparr>) = period_trust d"
  by (rule ext) (simp add: period_trust_def)

definition trust_after :: "fpnt \<Rightarrow> ipv4 \<Rightarrow> rat option \<Rightarrow> rat option \<Rightarrow> bool" where
  "trust_after d addr old new \<longleftrightarrow>
     (if evidence addr d = [] then new = old
      else \<exists>agg. AggregateEvaluations (evidence addr d) = Inr agg
             \<and> new = Some (smooth d old (period_trust d agg)))"

lemma update_trust_none: "evidence addr d = [] \<Longrightarrow> update_trust addr (d, b) = Inr (d, b)"
  by (simp add: update_trust_def)

lemma update_all:
  assumes "distinct as" and "foldE update_trust as (d, b) = Inr (d', b')"
  shows "(\<exists>t. d' = d\<lparr>f_trustTable := t\<rparr>)
    \<and> (\<forall>addr. if addr \<in> set as then trust_after d addr (map_of (f_trustTable d) addr) (map_of (f_trustTable d') addr)
              else map_of (f_trustTable d') addr = map_of (f_trustTable d) addr)"
  using assms
proof (induction as arbitrary: d b)
  case Nil
  then have "d' = d" by simp
  then show ?case by (intro conjI exI [of _ "f_trustTable d"]) simp_all
next
  case (Cons a as)
  show ?case
  proof (cases "evidence a d = []")
    case True
    then have "foldE update_trust as (d, b) = Inr (d', b')"
      using Cons.prems(2) by (simp add: update_trust_none)
    then have IH: "(\<exists>t. d' = d\<lparr>f_trustTable := t\<rparr>)
        \<and> (\<forall>addr. if addr \<in> set as then trust_after d addr (map_of (f_trustTable d) addr) (map_of (f_trustTable d') addr)
              else map_of (f_trustTable d') addr = map_of (f_trustTable d) addr)"
      using Cons by simp
    have "map_of (f_trustTable d') a = map_of (f_trustTable d) a" using IH Cons.prems(1) by (meson distinct.simps(2))
    then have "trust_after d a (map_of (f_trustTable d) a) (map_of (f_trustTable d') a)"
      using True by (simp add: trust_after_def)
    then show ?thesis using IH by auto
  next
    case False
    obtain agg where agg: "AggregateEvaluations (evidence a d) = Inr agg"
      using AggregateEvaluations_sum [OF False] by blast
    define T where "T = smooth d (map_of (f_trustTable d) a) (period_trust d agg)"
    define d1 where "d1 = d\<lparr>f_trustTable := map_put a T (f_trustTable d)\<rparr>"
    obtain b1 where "update_trust a (d, b) = Inr (d1, b1)"
      using update_trust_eq [OF False agg, of b] by (simp add: Let_def T_def d1_def)
    then have "foldE update_trust as (d1, b1) = Inr (d', b')" using Cons.prems(2) by simp
    then have IH: "(\<exists>t. d' = d1\<lparr>f_trustTable := t\<rparr>)
        \<and> (\<forall>addr. if addr \<in> set as then trust_after d1 addr (map_of (f_trustTable d1) addr) (map_of (f_trustTable d') addr)
              else map_of (f_trustTable d') addr = map_of (f_trustTable d1) addr)"
      using Cons.IH [of d1 b1] Cons.prems(1) by simp
    have after: "trust_after d1 addr old new = trust_after d addr old new" for addr old new
      by (simp add: trust_after_def d1_def)
    have "map_of (f_trustTable d') a = Some T"
      using IH Cons.prems(1) by (simp add: d1_def)
    then have at_a: "trust_after d a (map_of (f_trustTable d) a) (map_of (f_trustTable d') a)"
      using False agg by (simp add: trust_after_def T_def)
    have "map_of (f_trustTable d1) addr = map_of (f_trustTable d) addr" if "addr \<noteq> a" for addr
      using that by (simp add: d1_def)
    then have "if addr \<in> set (a # as) then trust_after d addr (map_of (f_trustTable d) addr) (map_of (f_trustTable d') addr)
        else map_of (f_trustTable d') addr = map_of (f_trustTable d) addr" for addr
      using IH [THEN conjunct2, THEN spec, of addr] at_a by (cases "addr = a") (auto simp: after split: if_splits)
    moreover have "\<exists>t. d' = d\<lparr>f_trustTable := t\<rparr>" using IH by (auto simp: d1_def)
    ultimately show ?thesis by blast
  qed
qed

lemma wf_trust_targets: "wf_set (trust_targets d)"
proof -
  have "wf_set (fold (\<lambda>(addr, ev). set_insert addr) xs [])" for xs :: "(ipv4 \<times> EvaluationVector) list"
    by (rule fold_invariant_rule) auto
  then show ?thesis unfolding trust_targets_def by (rule fold_invariant_rule) auto
qed

lemma set_trust_targets:
  "set (trust_targets d) = fst ` set (f_directEvaluationVectors d) \<union> (snd \<circ> fst) ` set (f_recommendations d)"
proof -
  have direct: "set (fold (\<lambda>(addr, ev). set_insert addr) xs r) = fst ` set xs \<union> set r"
    for xs :: "(ipv4 \<times> EvaluationVector) list" and r
    by (induction xs arbitrary: r) auto
  have "set (fold (\<lambda>((sender, target), ev). set_insert target) xs r) = (snd \<circ> fst) ` set xs \<union> set r"
    for xs :: "((ipv4 \<times> ipv4) \<times> EvaluationVector) list" and r
    by (induction xs arbitrary: r) auto
  then show ?thesis by (auto simp: trust_targets_def direct)
qed

lemma evidence_target: "evidence addr d \<noteq> [] \<longleftrightarrow> addr \<in> set (trust_targets d)"
proof -
  have "map_of (f_directEvaluationVectors d) addr = None \<longleftrightarrow> addr \<notin> fst ` set (f_directEvaluationVectors d)"
    by (rule map_of_eq_None_iff)
  then show ?thesis
    unfolding set_trust_targets evidence_def
    by (cases "map_of (f_directEvaluationVectors d) addr") (auto simp: filter_empty_conv, force+)
qed

lemma period_outcome:
  assumes "fpnt_ok d" and "f_enabled d"
  shows "\<exists>d2 d' b. Fpnt_PeriodicCheck now tcI s d = Inr (d', b)
    \<and> refreshed (check_ready now tcI s d) (f_metrics (check_ready now tcI s d)) d2
    \<and> f_metrics d' = [] \<and> f_recommendations d' = [] \<and> f_lastSValues d' = f_lastSValues d2
    \<and> f_directEvaluationVectors d' = f_directEvaluationVectors d2
    \<and> (\<forall>addr. trust_after d2 addr (map_of (f_trustTable d) addr) (map_of (f_trustTable d') addr))"
proof -
  let ?d1 = "check_ready now tcI s d"
  note d1 = check_ready_ok [OF assms(1), of now tcI s]
  obtain d2 where d2: "foldE refresh_direct (f_metrics ?d1) ?d1 = Inr d2" "fpnt_ok d2"
    using refresh_all_ok [OF d1] by blast
  have "distinct (map fst (f_metrics ?d1))" using d1 by (simp add: fpnt_ok_def wf_map_distinct)
  then have ref: "refreshed ?d1 (f_metrics ?d1) d2" using refresh_all [OF d1 _ d2(1)] by blast
  obtain d3 b where d3: "foldE update_trust (trust_targets d2) (d2, False) = Inr (d3, b)"
    using update_all_ok [OF d2(2)] by blast
  have "f_trustTable ?d1 = f_trustTable d"
    using ExpireStaleArrivals_hook ScanDeviationRuleD1_hook
    by (simp add: check_ready_def same_verdicts_def drop_unselected_eq)
  then have t2: "f_trustTable d2 = f_trustTable d" using ref by (simp add: refreshed_def)
  note upd = update_all [OF wf_set_distinct [OF wf_trust_targets] d3]
  have "trust_after d2 addr (map_of (f_trustTable d) addr) (map_of (f_trustTable d3) addr)" for addr
  proof (cases "addr \<in> set (trust_targets d2)")
    case True
    then show ?thesis using upd [THEN conjunct2, THEN spec, of addr] by (simp add: t2)
  next
    case False
    then show ?thesis
      using upd [THEN conjunct2, THEN spec, of addr] evidence_target [of addr d2] by (simp add: t2 trust_after_def)
  qed
  moreover obtain t where "d3 = d2\<lparr>f_trustTable := t\<rparr>" using upd by blast
  ultimately show ?thesis
    using d2(1) d3 ref by (auto simp: PeriodicCheck_enabled [OF assms(2)])
qed

end
