(* ===== verification/Fpnt_Properties.thy ===== *)
theory Fpnt_Properties
  imports Fpnt_Invariants
begin

text \<open>
  The properties of the FPNT defense: safety of every run, the fate of a neighbor that forwards
  nothing, how fast a verdict can move, what a single recommendation can do, what the deviation
  rules D1 and D2 achieve, the packet fingerprint, and the switch.
\<close>

section \<open>Helpers\<close>

lemma set_currentSelectors: "set_count (currentSelectors s) a \<longleftrightarrow> isOurSelector a s"
proof -
  have "set (fold (\<lambda>sel. set_insert (ms_mainAddr sel)) xs r) = ms_mainAddr ` set xs \<union> set r" for xs r
    by (induction xs arbitrary: r) auto
  then show ?thesis unfolding currentSelectors_def isOurSelector_def set_count_iff by auto
qed

lemma map_of_filter_key: "map_of (filter (\<lambda>(a, x). P a) m) k = (if P k then map_of m k else None)"
  by (induction m) auto

lemma map_of_keep_selected:
  "map_of (keep_selected s as m) a = (if a \<in> as \<and> \<not> isOurSelector a s then None else map_of m a)"
  unfolding keep_selected_def map_of_filter_key set_currentSelectors by simp

text \<open>The deviation rule only touches one counter of a record.\<close>

lemma scan_keeps_counters:
  assumes "map_of (f_metrics d) a = Some (m\<lparr>countRCheat := c\<rparr>)"
  shows "\<exists>c'. map_of (f_metrics (scan_mpr now hold mpr d)) a = Some (m\<lparr>countRCheat := c'\<rparr>)"
proof -
  have "\<exists>c'. map_of (f_metrics (on_metrics mpr count_cheat d)) a = Some (m\<lparr>countRCheat := c'\<rparr>)"
    using assms by (cases "mpr = a") (auto simp: on_metrics_def count_cheat_def map_ref_def)
  then show ?thesis using assms by (auto simp: scan_mpr_def Let_def split: option.split)
qed

lemma D1_keeps_counters:
  assumes "map_of (f_metrics d) a = Some m"
  shows "\<exists>c. map_of (f_metrics (ScanDeviationRuleD1 now tcI s d)) a = Some (m\<lparr>countRCheat := c\<rparr>)"
proof -
  have start: "\<exists>c. map_of (f_metrics d) a = Some (m\<lparr>countRCheat := c\<rparr>)"
    using assms by (intro exI [of _ "countRCheat m"]) simp
  have "\<exists>c. map_of (f_metrics (fold (scan_mpr now h) xs d')) a = Some (m\<lparr>countRCheat := c\<rparr>)"
    if "f_metrics d' = f_metrics d" for h xs d'
    by (rule fold_invariant_rule [where P = "\<lambda>d. \<exists>c. map_of (f_metrics d) a = Some (m\<lparr>countRCheat := c\<rparr>)"])
       (use start that scan_keeps_counters in auto)
  then show ?thesis using start by (auto simp: ScanDeviationRuleD1_def Let_def)
qed

lemma ready_counters:
  assumes "map_of (f_metrics d) a = Some m" and "isOurSelector a s"
  shows "\<exists>c. map_of (f_metrics (check_ready now tcI s d)) a = Some (m\<lparr>countRCheat := c\<rparr>)"
proof -
  have "map_of (f_metrics (if f_protocol d then drop_unselected s d else d)) a = Some m"
    using assms by (simp add: drop_unselected_eq map_of_keep_selected)
  then show ?thesis
    using D1_keeps_counters unfolding check_ready_def ExpireStaleArrivals_def by (simp add: Let_def)
qed

lemma scan_recommendations: "f_recommendations (scan_mpr now hold mpr d) = f_recommendations d"
  by (simp add: scan_mpr_def on_metrics_def Let_def split: option.split)

lemma D1_recommendations [simp]:
  "f_recommendations (ScanDeviationRuleD1 now tcI s d) = f_recommendations d"
proof -
  have "f_recommendations (fold (scan_mpr now h) xs d') = f_recommendations d'" for h xs d'
    by (rule fold_invariant_rule [where P = "\<lambda>d. f_recommendations d = f_recommendations d'"])
       (simp_all add: scan_recommendations)
  then show ?thesis by (simp add: ScanDeviationRuleD1_def Let_def)
qed

lemma ready_recommendations [simp]: "f_recommendations (check_ready now tcI s d) = f_recommendations d"
  by (simp add: check_ready_def ExpireStaleArrivals_def drop_unselected_eq Let_def)

lemma ready_rules:
  "f_fadingFactor (check_ready now tcI s d) = f_fadingFactor d"
  "f_uncertaintyBeta (check_ready now tcI s d) = f_uncertaintyBeta d"
  "f_maliciousThreshold (check_ready now tcI s d) = f_maliciousThreshold d"
  "f_enabled (check_ready now tcI s d) = f_enabled d"
  "f_trustTable (check_ready now tcI s d) = f_trustTable d"
  "f_cheatThreshold (check_ready now tcI s d) = f_cheatThreshold d"
  using ExpireStaleArrivals_hook ScanDeviationRuleD1_hook
  by (simp_all add: check_ready_def same_verdicts_def drop_unselected_eq)

lemma aggregate_single:
  "AggregateEvaluations [ev] = Inr (decode (ev_trust ev), decode (ev_uncertain ev))"
  by (simp add: AggregateEvaluations_def ev_weights_def ev_dif_def DIF_EPS_def clamp_id Let_def)

definition recommended :: "ipv4 \<Rightarrow> fpnt \<Rightarrow> EvaluationVector list" where
  "recommended addr d = map snd (filter (\<lambda>((sender, target), ev). target = addr) (f_recommendations d))"

text \<open>After a check the switch and the parameters are the old ones.\<close>

lemma period_keeps_rules:
  assumes "Fpnt_PeriodicCheck now tcI s d = Inr (d', b)"
  shows "f_enabled d' = f_enabled d \<and> f_maliciousThreshold d' = f_maliciousThreshold d
    \<and> f_cheatThreshold d' = f_cheatThreshold d \<and> f_selfAddress d' = f_selfAddress d \<and> f_protocol d' = f_protocol d"
proof -
  define P where "P = (\<lambda>d0 :: fpnt. f_enabled d0 = f_enabled d \<and> f_maliciousThreshold d0 = f_maliciousThreshold d
    \<and> f_cheatThreshold d0 = f_cheatThreshold d \<and> f_selfAddress d0 = f_selfAddress d \<and> f_protocol d0 = f_protocol d)"
  have ready: "P (check_ready now tcI s d)"
    using ExpireStaleArrivals_hook ScanDeviationRuleD1_hook
    by (simp add: P_def check_ready_def same_verdicts_def drop_unselected_eq)
  have refresh: "P d0 \<Longrightarrow> refresh_direct x d0 = Inr d1 \<Longrightarrow> P d1" for x d0 d1
    by (auto simp: refresh_direct_def P_def Let_def res_simps split: prod.splits)
  have update: "P (fst p) \<Longrightarrow> update_trust x p = Inr p' \<Longrightarrow> P (fst p')" for x p p'
    using update_trust_cases [of x "fst p" "snd p"] by (auto simp: P_def)
  show ?thesis
  proof (cases "f_enabled d")
    case True
    from assms obtain d2 d3 b3 where
      "foldE refresh_direct (f_metrics (check_ready now tcI s d)) (check_ready now tcI s d) = Inr d2"
      "foldE update_trust (trust_targets d2) (d2, False) = Inr (d3, b3)"
      "d' = d3\<lparr>f_metrics := [], f_recommendations := []\<rparr>"
      by (auto simp: PeriodicCheck_enabled [OF True] res_simps)
    moreover from this have "P d2" using foldE_invariant [where P = P] ready refresh by metis
    ultimately have "P d3"
      using foldE_invariant [where P = "\<lambda>p. P (fst p)" and s = "(d2, False)" and s' = "(d3, b3)"] update by fastforce
    then show ?thesis using \<open>d' = _\<close> by (simp add: P_def)
  qed (use assms in \<open>auto simp: Fpnt_PeriodicCheck_def\<close>)
qed

section \<open>Properties\<close>

text \<open>
  C26: No sequence of events stops the defense or drives a trust value out of the unit interval.
  From a state whose parameters passed the attribute checkers, every run of hooks, switches,
  received evaluations and periodic checks returns, and all trust values and stored truth values
  of the resulting state lie between 0 and 1.
\<close>

theorem fpnt_never_stops:
  assumes "fpnt_ok d"
  shows "\<exists>d'. fpnt_run events d = Inr d' \<and> fpnt_ok d'"
  unfolding fpnt_run_def
  by (rule foldE_total [where P = fpnt_ok, OF assms]) (rule fpnt_event_step_ok)

definition example_selector :: mpr_selector_tuple where
  "example_selector = \<lparr>ms_mainAddr = 2, ms_expirationTime = 0\<rparr>"

definition example_selectors :: olsr_state where
  "example_selectors = OlsrState_init\<lparr>m_mprSelectorSet := [example_selector]\<rparr>"

definition example_header :: ip_header where
  "example_header = \<lparr>ip_source = 1, ip_destination = 9, ip_identification = 7, ip_payloadSize = 64\<rparr>"

lemma Fpnt_init_ok: "fpnt_ok Fpnt_init"
  by (simp add: fpnt_ok_def params_ok_def Fpnt_init_def unit_def)

theorem fpnt_never_stops_witness:
  "\<exists>d'. fpnt_run [Ev_Setup 1, Ev_Forwarded 0 example_selectors example_header 84 2 9,
                   Ev_Periodic 5 5 example_selectors] Fpnt_init = Inr d' \<and> fpnt_ok d'"
  using fpnt_never_stops [OF Fpnt_init_ok] by blast

text \<open>
  C29: The trust of a neighbor that forwards nothing moves geometrically to a low value. When an MPR
  selector was given packets to forward in a period, none of them was overheard, and no other node sent a
  recommendation about it, the check gives it the trust value \<open>c\<close> = \<open>beta * 48 / 255\<close> if it had none, and
  otherwise shrinks its distance to \<open>c\<close> by the fading factor, whatever its load, delay and routing
  behavior. So trust above \<open>c\<close> falls, but not below \<open>c\<close>; trust below \<open>c\<close> rises towards it.
\<close>

theorem blackhole_loses_trust:
  assumes "fpnt_ok d" and "f_enabled d" and "isOurSelector addr s"
    and "map_of (f_metrics d) addr = Some m" and "countRcv m > 0" and "countFwd m = 0"
    and "recommended addr d = []" and "c = f_uncertaintyBeta d * (48 / 255)"
  shows "\<exists>d' b T'. Fpnt_PeriodicCheck now tcI s d = Inr (d', b) \<and> map_of (f_trustTable d') addr = Some T'
    \<and> (case map_of (f_trustTable d) addr of
         None \<Rightarrow> T' = c
       | Some T \<Rightarrow> T' - c = f_fadingFactor d * (T - c) \<and>
           (c < T \<and> f_fadingFactor d < 1 \<longrightarrow> c \<le> T' \<and> T' < T))"
proof -
  let ?d1 = "check_ready now tcI s d"
  obtain d2 d' b where run: "Fpnt_PeriodicCheck now tcI s d = Inr (d', b)"
      and ref: "refreshed ?d1 (f_metrics ?d1) d2"
      and after: "trust_after d2 addr (map_of (f_trustTable d) addr) (map_of (f_trustTable d') addr)"
    using period_outcome [OF assms(1,2), of now tcI s] by blast
  obtain c1 where m1: "map_of (f_metrics ?d1) addr = Some (m\<lparr>countRCheat := c1\<rparr>)" (is "_ = Some ?m1")
    using ready_counters [OF assms(4,3)] by blast
  obtain ev where ev: "map_of (f_directEvaluationVectors d2) addr = Some ev"
      "RunFuzzyPetriNet (MetricsToS0 addr ?m1 ?d1) = Inr ev"
    using ref m1 unfolding refreshed_def by (auto dest!: spec [of _ addr])
  have "\<exists>p1 p2 p5 p6 p7 p8. MetricsToS0 addr ?m1 ?d1 = [p1, p2, 0, 1, p5, p6, p7, p8, 0, 0, 0, 0, 0, 0, 0]"
    using assms(5,6)
    by (auto simp: MetricsToS0_def Let_def load_places_def forwarding_places_def delay_places_def
        deviation_places_def last_pair_def clamp_def eval_nat_numeral split: option.split)
  then obtain p1 p2 p5 p6 p7 p8 where
    S: "MetricsToS0 addr ?m1 ?d1 = [p1, p2, 0, 1, p5, p6, p7, p8, 0, 0, 0, 0, 0, 0, 0]" by blast
  have "ev = EvaluationVector_init\<lparr>ev_distrust := 207, ev_uncertain := 48\<rparr>"
    using blackhole_vector MetricsToS0_fuzzy [OF check_ready_ok [OF assms(1)]] ev(2) unfolding S [symmetric]
    by (metis S sum.inject(2))
  moreover have "evidence addr d2 = [ev]"
    using ev(1) ref assms(7) by (simp add: evidence_def refreshed_def same_rules_def recommended_def)
  ultimately have T': "map_of (f_trustTable d') addr =
      Some (smooth d2 (map_of (f_trustTable d) addr) (period_trust d2 (0, 48 / 255)))"
    using after by (simp add: trust_after_def aggregate_single EvaluationVector_init_def decode_def)
  have rules: "f_fadingFactor d2 = f_fadingFactor d" "f_uncertaintyBeta d2 = f_uncertaintyBeta d"
    using ref ready_rules by (simp_all add: refreshed_def same_rules_def)
  have "0 \<le> f_uncertaintyBeta d" "f_uncertaintyBeta d \<le> 1"
    using assms(1) by (simp_all add: fpnt_ok_def params_ok_def unit_def)
  then have "period_trust d2 (0, 48 / 255) = c"
    by (simp add: period_trust_def rules assms(8) clamp_def)
  moreover have falls: "c \<le> f_fadingFactor d * T + (1 - f_fadingFactor d) * c \<and> f_fadingFactor d * T + (1 - f_fadingFactor d) * c < T"
    if "c < T" "f_fadingFactor d < 1" for T
  proof -
    have "0 \<le> f_fadingFactor d * (T - c)" "0 < (1 - f_fadingFactor d) * (T - c)"
      using that assms(1) by (simp_all add: fpnt_ok_def params_ok_def unit_def)
    then show ?thesis by (simp add: algebra_simps)
  qed
  ultimately show ?thesis
    using run T' by (auto simp: smooth_def rules algebra_simps split: option.split)
qed

definition example_blackhole :: fpnt where
  "example_blackhole = Fpnt_init\<lparr>f_protocol := True,
     f_metrics := [(2, NodeBehaviorMetrics_init\<lparr>countLoad := 84, countRcv := 1\<rparr>)]\<rparr>"

lemma example_blackhole_ok: "fpnt_ok example_blackhole"
  by (simp add: fpnt_ok_def params_ok_def Fpnt_init_def unit_def example_blackhole_def wf_map_def)

text \<open>From full trust to seven tenths of the way down to \<open>c\<close>, and from no trust value to \<open>c\<close>.\<close>

theorem blackhole_loses_trust_witness:
  "(\<exists>d' b. Fpnt_PeriodicCheck 5 5 example_selectors example_blackhole = Inr (d', b)
     \<and> map_of (f_trustTable d') 2 = Some (3 / 5 * (48 / 255))) \<and>
   (\<exists>d' b T'. Fpnt_PeriodicCheck 5 5 example_selectors (example_blackhole\<lparr>f_trustTable := [(2, 1)]\<rparr>) = Inr (d', b)
     \<and> map_of (f_trustTable d') 2 = Some T' \<and> T' < 1 \<and> T' - 3 / 5 * (48 / 255) = 7 / 10 * (1 - 3 / 5 * (48 / 255)))"
proof -
  let ?m = "NodeBehaviorMetrics_init\<lparr>countLoad := 84, countRcv := 1\<rparr>"
  let ?known = "example_blackhole\<lparr>f_trustTable := [(2, 1)]\<rparr>"
  have m: "countRcv ?m > 0" "countFwd ?m = 0" by (simp_all add: NodeBehaviorMetrics_init_def)
  have sel: "isOurSelector 2 example_selectors"
    by (simp add: isOurSelector_def example_selectors_def OlsrState_init_def example_selector_def)
  have new: "f_enabled example_blackhole" "map_of (f_metrics example_blackhole) 2 = Some ?m"
    "recommended 2 example_blackhole = []" "3 / 5 * (48 / 255) = f_uncertaintyBeta example_blackhole * (48 / 255)"
    "map_of (f_trustTable example_blackhole) 2 = None"
    by (simp_all add: example_blackhole_def Fpnt_init_def recommended_def)
  have known: "fpnt_ok ?known" "f_enabled ?known" "map_of (f_metrics ?known) 2 = Some ?m" "recommended 2 ?known = []"
    "3 / 5 * (48 / 255) = f_uncertaintyBeta ?known * (48 / 255)"
    "map_of (f_trustTable ?known) 2 = Some 1" "f_fadingFactor ?known = 7 / 10"
    by (simp_all add: example_blackhole_def Fpnt_init_def recommended_def fpnt_ok_def params_ok_def unit_def wf_map_def)
  show ?thesis
    using blackhole_loses_trust [OF example_blackhole_ok new(1) sel new(2) m new(3,4), of 5 5]
      blackhole_loses_trust [OF known(1,2) sel known(3) m known(4,5), of 5 5]
    unfolding new(5) known(6,7) by fastforce
qed

text \<open>
  C22: Verdicts about known nodes move slowly. Whatever evidence and recommendations a period
  brings, honest or forged, the check returns, the trust value of a node that had one changes by at
  most \<open>1 - lambda\<close> (\<open>lambda\<close> the fading factor), and it keeps at least the share \<open>lambda\<close> of what it was.
\<close>

theorem trust_moves_slowly:
  assumes "fpnt_ok d" and "f_enabled d" and "map_of (f_trustTable d) addr = Some T"
  shows "\<exists>d' b T'. Fpnt_PeriodicCheck now tcI s d = Inr (d', b) \<and> map_of (f_trustTable d') addr = Some T'
    \<and> \<bar>T' - T\<bar> \<le> 1 - f_fadingFactor d \<and> f_fadingFactor d * T \<le> T'"
proof -
  obtain d2 d' b where run: "Fpnt_PeriodicCheck now tcI s d = Inr (d', b)"
      and ref: "refreshed (check_ready now tcI s d) (f_metrics (check_ready now tcI s d)) d2"
      and after: "trust_after d2 addr (Some T) (map_of (f_trustTable d') addr)"
    using period_outcome [OF assms(1,2), of now tcI s] assms(3) by metis
  have T: "0 \<le> T" "T \<le> 1"
    using assms(1) map_of_SomeD [OF assms(3)] by (auto simp: fpnt_ok_def unit_def)
  have l: "0 \<le> f_fadingFactor d" "f_fadingFactor d \<le> 1"
    using assms(1) by (simp_all add: fpnt_ok_def params_ok_def unit_def)
  have rules: "f_fadingFactor d2 = f_fadingFactor d"
    using ref ready_rules by (simp add: refreshed_def same_rules_def)
  show ?thesis
  proof (cases "evidence addr d2 = []")
    case True
    then show ?thesis using run after T l mult_left_le_one_le [of T "f_fadingFactor d"]
      by (simp add: trust_after_def)
  next
    case False
    then obtain agg where "map_of (f_trustTable d') addr = Some (smooth d2 (Some T) (period_trust d2 agg))"
      using after by (auto simp: trust_after_def)
    moreover define Tc where "Tc = period_trust d2 agg"
    ultimately have T': "map_of (f_trustTable d') addr = Some ((1 - f_fadingFactor d) * Tc + f_fadingFactor d * T)"
      by (simp add: smooth_def rules)
    have Tc: "0 \<le> Tc" "Tc \<le> 1"
      using clamp_unit by (cases agg, simp_all add: Tc_def period_trust_def unit_def)+
    have "(1 - f_fadingFactor d) * Tc + f_fadingFactor d * T - T = (1 - f_fadingFactor d) * (Tc - T)"
      by (simp add: algebra_simps)
    moreover have "\<bar>(1 - f_fadingFactor d) * (Tc - T)\<bar> \<le> (1 - f_fadingFactor d) * 1"
      unfolding abs_mult using l T Tc by (intro mult_mono) auto
    ultimately show ?thesis using run T' l Tc by auto
  qed
qed

definition example_known :: fpnt where
  "example_known = Fpnt_init\<lparr>f_protocol := True, f_trustTable := [(2, 1)],
     f_recommendations := [((3, 2), slander_vector)]\<rparr>"

theorem trust_moves_slowly_witness:
  "\<exists>d' b T'. Fpnt_PeriodicCheck 5 5 example_selectors example_known = Inr (d', b)
     \<and> map_of (f_trustTable d') 2 = Some T' \<and> 7 / 10 \<le> T'"
proof -
  have ok: "fpnt_ok example_known"
    by (simp add: fpnt_ok_def params_ok_def Fpnt_init_def unit_def example_known_def)
  have "f_enabled example_known" "map_of (f_trustTable example_known) 2 = Some 1"
    "f_fadingFactor example_known = 7 / 10"
    by (simp_all add: example_known_def Fpnt_init_def)
  with trust_moves_slowly [OF ok, of 2 1 5 5 example_selectors] show ?thesis by fastforce
qed

text \<open>
  The first word about a node is final for its period. When a node without trust value and
  without direct evaluation is the subject of a single recommendation, its trust becomes exactly
  that recommendation's trust plus beta times its uncertainty: one slanderer suffices to have an
  unobserved node called malicious.
\<close>

theorem first_recommendation_decides:
  assumes "fpnt_ok d" and "f_enabled d" and "map_of (f_trustTable d) addr = None"
    and "map_of (f_metrics (check_ready now tcI s d)) addr = None"
    and "map_of (f_directEvaluationVectors (check_ready now tcI s d)) addr = None"
    and "recommended addr d = [ev]"
  shows "\<exists>d' b. Fpnt_PeriodicCheck now tcI s d = Inr (d', b)
    \<and> map_of (f_trustTable d') addr =
        Some (clamp (decode (ev_trust ev) + f_uncertaintyBeta d * decode (ev_uncertain ev)) 0 1)
    \<and> (ev_trust ev = 0 \<and> ev_uncertain ev = 0 \<and> 0 < f_maliciousThreshold d \<longrightarrow> Fpnt_IsMalicious addr d')"
proof -
  let ?d1 = "check_ready now tcI s d"
  obtain d2 d' b where run: "Fpnt_PeriodicCheck now tcI s d = Inr (d', b)"
      and ref: "refreshed ?d1 (f_metrics ?d1) d2"
      and after: "trust_after d2 addr None (map_of (f_trustTable d') addr)"
    using period_outcome [OF assms(1,2), of now tcI s] assms(3) by metis
  have "map_of (f_directEvaluationVectors d2) addr = None"
    using ref assms(4,5) unfolding refreshed_def by (auto dest!: spec [of _ addr])
  then have "evidence addr d2 = [ev]"
    using ref assms(6) by (simp add: evidence_def refreshed_def same_rules_def recommended_def)
  then have "map_of (f_trustTable d') addr =
      Some (period_trust d2 (decode (ev_trust ev), decode (ev_uncertain ev)))"
    using after by (simp add: trust_after_def aggregate_single smooth_def)
  moreover have "f_uncertaintyBeta d2 = f_uncertaintyBeta d"
    using ref ready_rules by (simp add: refreshed_def same_rules_def)
  ultimately have "map_of (f_trustTable d') addr =
      Some (clamp (decode (ev_trust ev) + f_uncertaintyBeta d * decode (ev_uncertain ev)) 0 1)"
    by (simp add: period_trust_def)
  then show ?thesis
    using run period_keeps_rules [OF run] assms(2) by (auto simp: Fpnt_IsMalicious_def decode_def clamp_def)
qed

definition example_slandered :: fpnt where
  "example_slandered = Fpnt_init\<lparr>f_protocol := True, f_recommendations := [((3, 8), slander_vector)]\<rparr>"

theorem first_recommendation_decides_witness:
  "\<exists>d' b. Fpnt_PeriodicCheck 5 5 example_selectors example_slandered = Inr (d', b) \<and> Fpnt_IsMalicious 8 d'"
proof -
  have ok: "fpnt_ok example_slandered"
    by (simp add: fpnt_ok_def params_ok_def Fpnt_init_def unit_def example_slandered_def)
  have "check_ready 5 5 example_selectors example_slandered = example_slandered"
    by (simp add: check_ready_def drop_unselected_def ScanDeviationRuleD1_def ExpireStaleArrivals_def
        example_slandered_def Fpnt_init_def example_selectors_def OlsrState_init_def)
  then show ?thesis
    using first_recommendation_decides [OF ok, of 8 5 5 example_selectors slander_vector]
    by (simp add: example_slandered_def Fpnt_init_def recommended_def slander_vector_def EvaluationVector_init_def)
       blast
qed

section \<open>The deviation rules\<close>

text \<open>Bounds of the deviation counters; no deviation on record, in counters or truth values.\<close>

definition no_cheat :: "(ipv4 \<Rightarrow> nat) \<Rightarrow> fpnt \<Rightarrow> bool" where
  "no_cheat n d \<longleftrightarrow> (\<forall>(a, m)\<in>set (f_metrics d). unat (countRCheat m) \<le> n a)"

definition quiet :: "fpnt \<Rightarrow> bool" where
  "quiet d \<longleftrightarrow> no_cheat (\<lambda>a. 0) d \<and> (\<forall>(a, S)\<in>set (f_lastSValues d). S ! 6 = 0)"

text \<open>A TC message of one of our MPRs that omits us, and a change of our own address.\<close>

fun accuses :: "ipv4 \<Rightarrow> fpnt_event \<Rightarrow> bool" where
  "accuses self (Ev_RecvTc now tcI s originator advertised) \<longleftrightarrow>
     set_count (m_mprSet s) originator \<and> self \<notin> set advertised"
| "accuses self (Ev_Setup a) \<longleftrightarrow> a \<noteq> self"
| "accuses self e \<longleftrightarrow> False"

text \<open>\<open>MprSet\<close> is a \<open>std::set\<close>: no element twice.\<close>

fun proper_event :: "fpnt_event \<Rightarrow> bool" where
  "proper_event (Ev_Periodic now tcI s) \<longleftrightarrow> distinct (m_mprSet s)"
| "proper_event e \<longleftrightarrow> True"

lemma no_cheat_put:
  "no_cheat n d \<Longrightarrow> unat (countRCheat m) \<le> n a \<Longrightarrow> no_cheat n (d\<lparr>f_metrics := map_put a m (f_metrics d)\<rparr>)"
  using ball_map_put [of "f_metrics d" "\<lambda>(a, m). unat (countRCheat m) \<le> n a" a m] by (simp add: no_cheat_def)

lemma no_cheat_mono: "no_cheat n d \<Longrightarrow> (\<And>a. n a \<le> n' a) \<Longrightarrow> no_cheat n' d"
  unfolding no_cheat_def by (fast intro: order_trans)

lemma no_cheat_ref:
  "no_cheat n d \<Longrightarrow> unat (countRCheat (map_ref NodeBehaviorMetrics_init (f_metrics d) a)) \<le> n a"
  by (auto simp: map_ref_def no_cheat_def NodeBehaviorMetrics_init_def split: option.split dest: map_of_SomeD)

lemma no_cheat_on_metrics:
  "no_cheat n d \<Longrightarrow> (\<And>m. countRCheat (f m) = countRCheat m) \<Longrightarrow> no_cheat n (on_metrics a f d)"
  unfolding on_metrics_def by (rule no_cheat_put) (simp_all add: no_cheat_ref)

lemma no_cheat_fields [simp]:
  "no_cheat n (d\<lparr>f_pendingArrivals := p\<rparr>) = no_cheat n d"
  "no_cheat n (d\<lparr>f_recommendations := r\<rparr>) = no_cheat n d"
  "no_cheat n (d\<lparr>f_lastTcTime := t\<rparr>) = no_cheat n d"
  "no_cheat n (d\<lparr>f_mprSelectionTime := t\<rparr>) = no_cheat n d"
  by (simp_all add: no_cheat_def)

lemma no_cheat_expect: "no_cheat n d \<Longrightarrow> no_cheat n (expect_forward now a key d)"
  by (simp add: expect_forward_def Let_def no_cheat_on_metrics)

lemma no_cheat_load: "no_cheat n d \<Longrightarrow> no_cheat n (on_metrics a (add_load k) d)"
  by (rule no_cheat_on_metrics) (simp_all add: add_load_def)

lemma no_cheat_forwarded: "no_cheat n d \<Longrightarrow> no_cheat n (Fpnt_OnDataPacketForwarded now s h k a b d)"
  by (simp add: Fpnt_OnDataPacketForwarded_def Let_def no_cheat_load no_cheat_expect)

lemma no_cheat_overheard: "no_cheat n d \<Longrightarrow> no_cheat n (Fpnt_OnNeighborForwardedPacket now env s tx rx h k d)"
proof -
  assume d: "no_cheat n d"
  have tx: "no_cheat n (observe_transmitter now s a key d)" for a key
    using d by (auto simp: observe_transmitter_def Let_def split: option.split intro!: no_cheat_on_metrics)
  have "no_cheat n d' \<Longrightarrow> no_cheat n (observe_receiver now s a dest k key d')" for d' a dest key
    by (simp add: observe_receiver_def Let_def no_cheat_load no_cheat_expect)
  then show ?thesis
    using d tx by (simp add: Fpnt_OnNeighborForwardedPacket_def Let_def split: option.split)
qed

lemma no_cheat_txfailure:
  assumes "no_cheat n d"
  shows "no_cheat n (Fpnt_OnMacTxFailure a k d)"
proof -
  have "unat (countRCheat m) \<le> n a" if "map_of (f_metrics d) a = Some m" for m
    using assms map_of_SomeD [OF that] by (auto simp: no_cheat_def)
  then show ?thesis
    using assms by (auto simp: Fpnt_OnMacTxFailure_def split: option.split intro!: no_cheat_put)
qed

lemma no_cheat_recv_tc:
  "no_cheat n d \<Longrightarrow> \<not> accuses (f_selfAddress d) (Ev_RecvTc now tcI s a adv) \<Longrightarrow>
    no_cheat n (Fpnt_OnRecvTc now tcI s a adv d)"
  by (auto simp: Fpnt_OnRecvTc_def Let_def split: option.split)

text \<open>One scan charges a node at most once.\<close>

lemma count_cheat_le: "unat (countRCheat (count_cheat m)) \<le> Suc (unat (countRCheat m))"
  by (simp add: count_cheat_def unat_word_ariths mod_less_eq_dividend le_Suc_eq)
     (metis mod_less_eq_dividend le_Suc_eq)

lemma ScanD1_charges_once:
  assumes "no_cheat (\<lambda>a. 0) d" and "distinct (m_mprSet s)"
  shows "no_cheat (\<lambda>a. 1) (ScanDeviationRuleD1 now tcI s d)"
proof -
  define charged :: "ipv4 list \<Rightarrow> ipv4 \<Rightarrow> nat"
    where "charged = (\<lambda>xs a. if a \<in> set xs then 0 else 1)"
  have "distinct xs \<Longrightarrow> no_cheat (charged xs) d \<Longrightarrow> no_cheat (\<lambda>a. 1) (fold (scan_mpr now h) xs d)"
    for xs h and d :: fpnt
  proof (induction xs arbitrary: d)
    case Nil
    then show ?case by (simp add: charged_def)
  next
    case (Cons x xs)
    have rest: "no_cheat (charged xs) d"
      by (rule no_cheat_mono [OF Cons.prems(2)]) (simp add: charged_def)
    have "unat (countRCheat (map_ref NodeBehaviorMetrics_init (f_metrics d) x)) = 0"
      using no_cheat_ref [OF Cons.prems(2), of x] by (simp add: charged_def)
    then have "unat (countRCheat (count_cheat (map_ref NodeBehaviorMetrics_init (f_metrics d) x))) \<le> charged xs x"
      using count_cheat_le [of "map_ref NodeBehaviorMetrics_init (f_metrics d) x"] Cons.prems(1)
      by (simp add: charged_def)
    then have "no_cheat (charged xs) (on_metrics x count_cheat d)"
      unfolding on_metrics_def by (rule no_cheat_put [OF rest])
    then have "no_cheat (charged xs) (scan_mpr now h x d)"
      using rest by (simp add: scan_mpr_def Let_def split: option.split)
    then show ?case using Cons by simp
  qed
  moreover have "no_cheat (charged (m_mprSet s)) (d\<lparr>f_mprSelectionTime := t\<rparr>)" for t
    using assms(1) by (auto simp: charged_def no_cheat_def)
  moreover have "no_cheat (\<lambda>a. 1) d" using assms(1) by (auto simp: no_cheat_def)
  ultimately show ?thesis using assms(2) by (simp add: ScanDeviationRuleD1_def Let_def)
qed


text \<open>A period without accusations raises no flag.\<close>

lemma places_length:
  "length (load_places d m h) = 2" "length (forwarding_places m h) = 2" "length (delay_places d m h) = 2"
  by (simp_all add: load_places_def forwarding_places_def delay_places_def last_pair_def Let_def split: option.split)

lemma deviation_place: "MetricsToS0 addr m d ! 6 = (if countRCheat m > f_cheatThreshold d then 1 else 0)"
  by (simp add: MetricsToS0_def Let_def nth_append places_length deviation_places_def)

lemma drop_unselected_subset:
  "set (f_metrics (drop_unselected s d)) \<subseteq> set (f_metrics d)"
  "set (f_lastSValues (drop_unselected s d)) \<subseteq> set (f_lastSValues d)"
  by (auto simp: drop_unselected_eq keep_selected_def)

lemma ready_quiet:
  assumes "quiet d" and "distinct (m_mprSet s)"
  shows "no_cheat (\<lambda>a. 1) (check_ready now tcI s d) \<and> (\<forall>(a, S)\<in>set (f_lastSValues (check_ready now tcI s d)). S ! 6 = 0)"
proof -
  let ?d0 = "if f_protocol d then drop_unselected s d else d"
  have d0: "no_cheat (\<lambda>a. 0) ?d0" "\<forall>(a, S)\<in>set (f_lastSValues ?d0). S ! 6 = 0"
    using assms(1) drop_unselected_subset [of s d] unfolding quiet_def no_cheat_def by (auto split: if_splits)
  have "f_lastSValues (check_ready now tcI s d) = f_lastSValues ?d0"
    using ExpireStaleArrivals_hook ScanDeviationRuleD1_hook by (simp add: check_ready_def same_verdicts_def)
  moreover have "no_cheat (\<lambda>a. 1) (check_ready now tcI s d)"
    using ScanD1_charges_once [OF d0(1) assms(2), of now tcI]
    by (simp add: check_ready_def ExpireStaleArrivals_def Let_def)
  ultimately show ?thesis using d0(2) by simp
qed

lemma refresh_all_quiet:
  assumes "foldE refresh_direct ms d = Inr d'"
    and "\<forall>(a, m)\<in>set ms. countRCheat m \<le> f_cheatThreshold d" and "\<forall>(a, S)\<in>set (f_lastSValues d). S ! 6 = 0"
  shows "\<forall>(a, S)\<in>set (f_lastSValues d'). S ! 6 = 0"
  using assms
proof (induction ms arbitrary: d)
  case (Cons x ms)
  obtain a m where x: "x = (a, m)" by (cases x)
  from Cons.prems(1) obtain ev where rest: "foldE refresh_direct ms
      (d\<lparr>f_lastSValues := map_put a (MetricsToS0 a m d) (f_lastSValues d),
         f_directEvaluationVectors := map_put a ev (f_directEvaluationVectors d)\<rparr>) = Inr d'"
    by (auto simp: x refresh_direct_def Let_def res_simps)
  have "MetricsToS0 a m d ! 6 = 0" using Cons.prems(2) by (simp add: x deviation_place linorder_not_less)
  then have "\<forall>(a, S)\<in>set (map_put a (MetricsToS0 a m d) (f_lastSValues d)). S ! 6 = 0"
    using Cons.prems(3) by (intro ball_map_put) auto
  then show ?case using Cons.prems(2) by (intro Cons.IH [OF rest]) auto
qed simp

lemma PeriodicCheck_quiet:
  assumes "fpnt_ok d" and "quiet d" and "distinct (m_mprSet s)" and "1 \<le> f_cheatThreshold d"
    and "Fpnt_PeriodicCheck now tcI s d = Inr (d', b)"
  shows "quiet d'"
proof (cases "f_enabled d")
  case True
  let ?d1 = "check_ready now tcI s d"
  note ready = ready_quiet [OF assms(2,3), of now tcI]
  obtain d2 d3 b3 where run: "foldE refresh_direct (f_metrics ?d1) ?d1 = Inr d2"
      "foldE update_trust (trust_targets d2) (d2, False) = Inr (d3, b3)"
      "d' = d3\<lparr>f_metrics := [], f_recommendations := []\<rparr>"
    using assms(5) by (auto simp: PeriodicCheck_enabled [OF True] res_simps)
  have "countRCheat m \<le> f_cheatThreshold ?d1" if "(a, m) \<in> set (f_metrics ?d1)" for a m
    using that ready assms(4) unfolding ready_rules
    by (auto simp: no_cheat_def word_le_nat_alt)
  then have "\<forall>(a, S)\<in>set (f_lastSValues d2). S ! 6 = 0"
    using refresh_all_quiet [OF run(1)] ready by blast
  moreover have "f_lastSValues d3 = f_lastSValues d2"
    using update_all [OF wf_set_distinct [OF wf_trust_targets] run(2)] by auto
  ultimately show ?thesis by (simp add: quiet_def no_cheat_def run(3))
next
  case False
  then show ?thesis using assms by (auto simp: Fpnt_PeriodicCheck_def quiet_def no_cheat_def)
qed

unbundle bit_operations_syntax

lemma event_step_rules:
  assumes "fpnt_event_step e d = Inr d'"
  shows "f_cheatThreshold d' = f_cheatThreshold d
    \<and> (\<not> accuses (f_selfAddress d) e \<longrightarrow> f_selfAddress d' = f_selfAddress d)"
proof (cases e)
  case (Ev_Periodic now tcI s)
  then show ?thesis using assms period_keeps_rules by (auto simp: res_simps split: prod.splits)
qed (use assms OnDataPacketForwarded_hook OnNeighborForwardedPacket_hook OnMacTxFailure_hook OnRecvTc_hook
      OnRecvEvaluationVectors_hook in
    \<open>auto simp: Fpnt_Setup_def Fpnt_DoDispose_def Fpnt_SetEnabled_def same_verdicts_def\<close>)

lemma event_step_quiet:
  assumes "fpnt_ok d" and "quiet d" and "1 \<le> f_cheatThreshold d"
    and "\<not> accuses (f_selfAddress d) e" and "proper_event e" and "fpnt_event_step e d = Inr d'"
  shows "quiet d'"
proof (cases e)
  case (Ev_Periodic now tcI s)
  then show ?thesis
    using assms PeriodicCheck_quiet [OF assms(1,2) _ assms(3)] by (auto simp: res_simps split: prod.splits)
next
  case (Ev_RecvTc now tcI s a adv)
  moreover have "same_verdicts d (Fpnt_OnRecvTc now tcI s a adv d)" by (rule OnRecvTc_hook)
  ultimately show ?thesis
    using assms no_cheat_recv_tc by (auto simp: quiet_def same_verdicts_def)
next
  case (Ev_Forwarded now s h k a b)
  moreover have "same_verdicts d (Fpnt_OnDataPacketForwarded now s h k a b d)" by (rule OnDataPacketForwarded_hook)
  ultimately show ?thesis
    using assms no_cheat_forwarded by (auto simp: quiet_def same_verdicts_def)
next
  case (Ev_Overheard now env s tx rx h k)
  moreover have "same_verdicts d (Fpnt_OnNeighborForwardedPacket now env s tx rx h k d)"
    by (rule OnNeighborForwardedPacket_hook)
  ultimately show ?thesis
    using assms no_cheat_overheard by (auto simp: quiet_def same_verdicts_def)
next
  case (Ev_TxFailure a k)
  moreover have "same_verdicts d (Fpnt_OnMacTxFailure a k d)" by (rule OnMacTxFailure_hook)
  ultimately show ?thesis
    using assms no_cheat_txfailure by (auto simp: quiet_def same_verdicts_def)
qed (use assms in \<open>auto simp: quiet_def no_cheat_def Fpnt_Setup_def Fpnt_DoDispose_def Fpnt_SetEnabled_def
      Fpnt_OnRecvEvaluationVectors_def split: if_splits\<close>)

text \<open>
  Rule D1 alone never raises the deviation flag. As long as no TC message of one of our MPRs
  omits us, an MPR may stay silent for any number of periods: the counter it is charged on is
  cleared with every check and a scan adds one, so with the default threshold of 2 (and any
  threshold of at least 1) the place "routing deviation observed" stays at 0 for every node.
\<close>

theorem silent_mpr_never_flagged:
  assumes "fpnt_ok d" and "quiet d" and "1 \<le> f_cheatThreshold d"
    and "\<forall>e\<in>set events. proper_event e \<and> \<not> accuses (f_selfAddress d) e"
    and "fpnt_run events d = Inr d'"
  shows "\<forall>(a, S)\<in>set (f_lastSValues d'). S ! 6 = 0"
proof -
  define I where "I = (\<lambda>d1 :: fpnt. fpnt_ok d1 \<and> quiet d1 \<and> f_cheatThreshold d1 = f_cheatThreshold d
    \<and> f_selfAddress d1 = f_selfAddress d)"
  have "I d'"
  proof (rule foldE_invariant [where P = I])
    show "foldE fpnt_event_step events d = Inr d'" using assms(5) by (simp add: fpnt_run_def)
    show "I d" using assms(1,2) by (simp add: I_def)
  next
    fix e d1 d2
    assume e: "e \<in> set events" and d1: "I d1" and step: "fpnt_event_step e d1 = Inr d2"
    have ok: "proper_event e" "\<not> accuses (f_selfAddress d1) e"
      using assms(4) e d1 by (auto simp: I_def)
    have "quiet d2" using event_step_quiet [OF _ _ _ ok(2,1) step] d1 assms(3) by (simp add: I_def)
    moreover have "fpnt_ok d2" using fpnt_event_step_ok [of d1 e] step d1 by (auto simp: I_def)
    ultimately show "I d2" using event_step_rules [OF step] ok(2) d1 by (simp add: I_def)
  qed
  then show ?thesis by (simp add: I_def quiet_def)
qed

definition example_mpr_set :: olsr_state where
  "example_mpr_set = OlsrState_init\<lparr>m_mprSet := [3]\<rparr>"

theorem silent_mpr_never_flagged_witness:
  "\<exists>d'. fpnt_run [Ev_Setup 0, Ev_Periodic 5 5 example_mpr_set, Ev_Periodic 100 5 example_mpr_set] Fpnt_init = Inr d'
     \<and> list_all (\<lambda>(a, S). S ! 6 = 0) (f_lastSValues d')"
proof -
  let ?events = "[Ev_Setup 0, Ev_Periodic 5 5 example_mpr_set, Ev_Periodic 100 5 example_mpr_set]"
  have ok: "fpnt_ok Fpnt_init" by (rule Fpnt_init_ok)
  have "\<exists>d'. fpnt_run ?events Fpnt_init = Inr d' \<and> fpnt_ok d'"
    unfolding fpnt_run_def by (rule foldE_total [where P = fpnt_ok, OF ok]) (rule fpnt_event_step_ok)
  then obtain d' where run: "fpnt_run ?events Fpnt_init = Inr d'" by blast
  have "\<forall>e\<in>set ?events. proper_event e \<and> \<not> accuses (f_selfAddress Fpnt_init) e"
    by (simp add: example_mpr_set_def Fpnt_init_def ipv4_any_def)
  moreover have "quiet Fpnt_init" "1 \<le> f_cheatThreshold Fpnt_init"
    by (simp_all add: quiet_def no_cheat_def Fpnt_init_def)
  ultimately have "\<forall>(a, S)\<in>set (f_lastSValues d'). S ! 6 = 0"
    by (intro silent_mpr_never_flagged [OF ok _ _ _ run]) auto
  then show ?thesis using run by (auto simp: list_all_iff)
qed

lemma filter_map_put: "\<not> P a \<Longrightarrow> filter (\<lambda>(k, x). P k) (map_put a v m) = filter (\<lambda>(k, x). P k) m"
  by (induction a v m rule: map_put.induct) auto

text \<open>
  What rule D2 finds out about an MPR is thrown away. The rules D1 and D2 accuse our MPRs, but
  the check starts by dropping the counters of all nodes that are not our MPR selectors: when an
  MPR has not selected us as well, the outcome of the check is the same whatever its counters say.
\<close>

theorem mpr_evidence_discarded:
  assumes "f_protocol d" and "\<not> isOurSelector mpr s" and "map_of (f_metrics d) mpr = Some m"
  shows "Fpnt_PeriodicCheck now tcI s (on_metrics mpr f d) = Fpnt_PeriodicCheck now tcI s d"
proof -
  define v where "v = f (map_ref NodeBehaviorMetrics_init (f_metrics d) mpr)"
  have "mpr \<in> fst ` set (f_metrics d)" using map_of_SomeD [OF assms(3)] by force
  then have keys: "insert mpr (fst ` set (f_metrics d)) = fst ` set (f_metrics d)" by (rule insert_absorb)
  have "keep_selected s (fst ` set (f_metrics d)) (map_put mpr v (f_metrics d)) =
      keep_selected s (fst ` set (f_metrics d)) (f_metrics d)"
    unfolding keep_selected_def
    using filter_map_put [of "\<lambda>a. \<not> (a \<in> fst ` set (f_metrics d) \<and> \<not> set_count (currentSelectors s) a)" mpr v "f_metrics d"]
      assms(2) map_of_SomeD [OF assms(3)] by (force simp: set_currentSelectors [symmetric])
  then have "drop_unselected s (on_metrics mpr f d) = drop_unselected s d"
    by (simp add: drop_unselected_eq on_metrics_def v_def [symmetric] keys)
  then have ready: "check_ready now tcI s (on_metrics mpr f d) = check_ready now tcI s d"
    using assms(1) by (simp add: check_ready_def) (simp add: on_metrics_def)
  have switch: "f_enabled (on_metrics mpr f d) = f_enabled d" by (simp add: on_metrics_def)
  show ?thesis
  proof (cases "f_enabled d")
    case True
    then show ?thesis by (simp add: PeriodicCheck_enabled switch ready)
  qed (simp add: Fpnt_PeriodicCheck_def on_metrics_def)
qed

theorem mpr_evidence_discarded_witness:
  "Fpnt_PeriodicCheck 5 5 example_mpr_set (on_metrics 3 count_cheat (example_blackhole\<lparr>f_metrics := [(3, NodeBehaviorMetrics_init)]\<rparr>)) =
   Fpnt_PeriodicCheck 5 5 example_mpr_set (example_blackhole\<lparr>f_metrics := [(3, NodeBehaviorMetrics_init)]\<rparr>)"
  by (rule mpr_evidence_discarded)
     (simp_all add: example_blackhole_def isOurSelector_def example_mpr_set_def OlsrState_init_def)

section \<open>The fingerprint of a packet\<close>

lemma bit_xorshift: "bit (xorshift k v) n \<longleftrightarrow> bit v n \<noteq> bit v (k + n)"
  by (simp add: xorshift_def bit_xor_iff bit_drop_bit_eq)

lemma xorshift_inj:
  assumes "0 < k" and "xorshift k v = xorshift k w"
  shows "v = w"
proof -
  have "bit v n = bit w n" for n
  proof (induction "64 - n" arbitrary: n rule: less_induct)
    case less
    show ?case
    proof (cases "n < 64")
      case True
      then have "bit v (k + n) = bit w (k + n)" using less assms(1) by simp
      then show ?thesis using assms(2) bit_xorshift [of k v n] bit_xorshift [of k w n] by auto
    next
      case False
      then show ?thesis using bit_imp_le_length [of v n] bit_imp_le_length [of w n] by auto
    qed
  qed
  then show ?thesis by (rule bit_word_eqI)
qed

lemma unit_factor_inj: "(c :: 64 word) * c' = 1 \<Longrightarrow> v * c = w * c \<Longrightarrow> v = w"
proof -
  assume c: "c * c' = 1" and eq: "v * c = w * c"
  have "v * c * c' = w * c * c'" by (simp only: eq)
  then show "v = w" by (simp only: mult.assoc c mult_1_right)
qed

text \<open>The two odd constants have inverses modulo \<open>2^64\<close>, so the mixing loses nothing.\<close>

lemma mix_inj:
  fixes v w :: "64 word"
  assumes "xorshift 31 (xorshift 27 (xorshift 30 v * 0xbf58476d1ce4e5b9) * 0x94d049bb133111eb) =
    xorshift 31 (xorshift 27 (xorshift 30 w * 0xbf58476d1ce4e5b9) * 0x94d049bb133111eb)"
  shows "v = w"
proof -
  have "(0xbf58476d1ce4e5b9 :: 64 word) * 0x96de1b173f119089 = 1"
    "(0x94d049bb133111eb :: 64 word) * 0x319642b2d24d8ec3 = 1" by simp_all
  note mul = unit_factor_inj [OF this(1)] unit_factor_inj [OF this(2)]
  show ?thesis
    by (rule xorshift_inj [of 30], simp, rule mul(1), rule xorshift_inj [of 27], simp, rule mul(2),
        rule xorshift_inj [of 31], simp, rule assms)
qed

text \<open>The 32 bits into which destination, identification and payload size are folded.\<close>

definition folded_fields :: "ip_header \<Rightarrow> u32" where
  "folded_fields h =
     ip_destination h XOR (push_bit 16 (ucast (ip_identification h)) OR ucast (ip_payloadSize h))"

lemma header_word:
  "(push_bit 32 (ucast (ip_source h)) OR ucast (ip_destination h))
     XOR (push_bit 16 (ucast (ip_identification h)) OR ucast (ip_payloadSize h))
   = push_bit 32 (ucast (ip_source h)) OR (ucast (folded_fields h) :: 64 word)"
  unfolding folded_fields_def
  by (rule bit_word_eqI) (auto simp: bit_simps dest: bit_imp_le_length)

lemma pair_word_inj:
  fixes a a' b b' :: u32
  shows "push_bit 32 (ucast a) OR (ucast b :: 64 word) = push_bit 32 (ucast a') OR ucast b' \<longleftrightarrow> a = a' \<and> b = b'"
proof
  assume eq: "push_bit 32 (ucast a) OR (ucast b :: 64 word) = push_bit 32 (ucast a') OR ucast b'"
  have low: "ucast (push_bit 32 (ucast a) OR (ucast b :: 64 word)) = b" for a b :: u32
    by (rule bit_word_eqI) (auto simp: bit_simps)
  have high: "ucast (drop_bit 32 (push_bit 32 (ucast a) OR (ucast b :: 64 word))) = a" for a b :: u32
    by (rule bit_word_eqI) (auto simp: bit_simps dest: bit_imp_le_length)
  show "a = a' \<and> b = b'" using eq low high by metis
qed simp

text \<open>
  What the packet fingerprint identifies. Two IPv4 headers have the same fingerprint exactly
  when their sources agree and the words in which destination, identification and payload size are
  folded together agree: the mixing of \<open>HashIpv4Header\<close> is injective, the folding before it is not.
\<close>

theorem fingerprint_equal_iff:
  "HashIpv4Header h = HashIpv4Header h' \<longleftrightarrow> ip_source h = ip_source h' \<and> folded_fields h = folded_fields h'"
proof -
  have "HashIpv4Header h = HashIpv4Header h' \<longleftrightarrow>
      push_bit 32 (ucast (ip_source h)) OR (ucast (folded_fields h) :: 64 word) =
      push_bit 32 (ucast (ip_source h')) OR ucast (folded_fields h')"
    unfolding HashIpv4Header_def Let_def header_word by (rule iffI, erule mix_inj, simp)
  then show ?thesis by (simp only: pair_word_inj)
qed

section \<open>The switch\<close>

text \<open>
  Switching is a cold start in both directions. A call of \<open>SetEnabled\<close> that changes the state
  leaves every container empty (all of \<open>DebugStateSizes\<close> are 0) and recomputes the routes when the
  defense is attached; a call that does not change it leaves the state alone. While the defense is
  off nobody is malicious, every node has the same trust, and no evaluation is sent.
\<close>

theorem fpnt_switch_cold_start:
  "(f_enabled d \<noteq> e \<longrightarrow> Fpnt_GetDebugStateSizes (fst (Fpnt_SetEnabled e d)) = replicate 9 0
      \<and> snd (Fpnt_SetEnabled e d) = f_protocol d)
   \<and> (f_enabled d = e \<longrightarrow> Fpnt_SetEnabled e d = (d, False))
   \<and> (\<not> f_enabled d \<longrightarrow> \<not> Fpnt_IsMalicious a d \<and> Fpnt_GetBlacklist d = []
      \<and> Fpnt_GetNodeTrust s a d = f_uncertaintyBeta d \<and> Fpnt_GetEvaluationVectors ns d = [])"
  by (auto simp: Fpnt_SetEnabled_def Fpnt_GetDebugStateSizes_def Fpnt_GetBlacklist_def Fpnt_IsMalicious_def
      Fpnt_GetNodeTrust_def Fpnt_GetEvaluationVectors_def eval_nat_numeral)

theorem fpnt_switch_cold_start_witness:
  "Fpnt_GetDebugStateSizes (fst (Fpnt_SetEnabled False example_blackhole)) = replicate 9 0"
  using fpnt_switch_cold_start [of example_blackhole False] by (simp add: example_blackhole_def Fpnt_init_def)

end
