(* ===== verification/Fpnt_Routing.thy ===== *)
theory Fpnt_Routing
  imports Fpnt_Defense Routing_Table
begin

text \<open>
  \<open>RunTrustDijkstra\<close> (src/files for all defenses/FPNT/olsr-routing-protocol.cc): the trust-based
  routing table of the FPNT build. The search maximizes the path trust, the least trust of the nodes
  between source and destination, and prefers fewer hops among equal trust. \<open>trust\<close> is
  \<open>m_defenseStrategy->GetNodeTrust\<close>, \<open>None\<close> for a null strategy; \<open>now\<close>, \<open>ifaces\<close>, \<open>mainAddress\<close> and
  \<open>s\<close> are as in theory \<open>Routing_Table\<close>. A search that never ends is \<open>Inl Diverges\<close>.
\<close>

section \<open>The graph\<close>

type_synonym td_graph = "(ipv4, ipv4 std_set) std_map"

definition addEdge :: "ipv4 \<Rightarrow> ipv4 \<Rightarrow> td_graph \<times> ipv4 std_set \<Rightarrow> td_graph \<times> ipv4 std_set" where
  "addEdge a b = (\<lambda>(graph, allNodes).
     if a = b then (graph, allNodes)
     else
       let graph = map_put a (set_insert b (map_ref [] graph a)) graph;
           graph = map_put b (set_insert a (map_ref [] graph b)) graph
       in (graph, set_insert b (set_insert a allNodes)))"

definition trust_graph :: "ipv4 \<Rightarrow> olsr_state \<Rightarrow> td_graph \<times> ipv4 std_set" where
  "trust_graph mainAddress s =
     (let g = ([], [mainAddress]);
          g = fold (\<lambda>nb g. if nt_status nb = STATUS_SYM
                           then addEdge mainAddress (nt_neighborMainAddr nb) g else g) (m_neighborSet s) g;
          g = fold (\<lambda>nb2. addEdge (th_neighborMainAddr nb2) (th_twoHopNeighborAddr nb2)) (m_twoHopNeighborSet s) g
      in fold (\<lambda>topo g. if tt_lastAddr topo = mainAddress \<or> tt_destAddr topo = mainAddress then g
                        else addEdge (tt_lastAddr topo) (tt_destAddr topo) g) (m_topologySet s) g)"

section \<open>The priority queue\<close>

text \<open>\<open>PathState\<close> and its \<open>operator<\<close>: more trust first, then fewer hops, then the address.\<close>

datatype path_state = PathState (ps_trust: rat) (ps_hops: u32) (ps_addr: ipv4)

definition path_before :: "path_state \<Rightarrow> path_state \<Rightarrow> bool" where
  "path_before p q \<longleftrightarrow>
     (if ps_trust p \<noteq> ps_trust q then ps_trust p > ps_trust q
      else if ps_hops p \<noteq> ps_hops q then ps_hops p < ps_hops q
      else ps_addr p < ps_addr q)"

instantiation path_state :: linorder
begin

definition less_path_state :: "path_state \<Rightarrow> path_state \<Rightarrow> bool" where
  "p < q \<longleftrightarrow> path_before p q"

definition less_eq_path_state :: "path_state \<Rightarrow> path_state \<Rightarrow> bool" where
  "(p :: path_state) \<le> q \<longleftrightarrow> p < q \<or> p = q"

instance
proof
  fix p q r :: path_state
  show less: "p < q \<longleftrightarrow> p \<le> q \<and> \<not> q \<le> p"
    by (cases p; cases q) (auto simp: less_path_state_def path_before_def less_eq_path_state_def)
  show "p \<le> p" by (simp add: less_eq_path_state_def)
  show "p \<le> q \<Longrightarrow> q \<le> r \<Longrightarrow> p \<le> r"
    by (cases p; cases q; cases r) (auto simp: less_path_state_def path_before_def less_eq_path_state_def split: if_splits)
  show "p \<le> q \<Longrightarrow> q \<le> p \<Longrightarrow> p = q"
    by (cases p; cases q) (auto simp: less_path_state_def path_before_def less_eq_path_state_def split: if_splits)
  show "p \<le> q \<or> q \<le> p"
    by (cases p; cases q) (auto simp: less_path_state_def path_before_def less_eq_path_state_def split: if_splits)
qed

end

record td =
  td_maxTrust :: "(ipv4, rat) std_map"
  td_parent :: "(ipv4, ipv4) std_map"
  td_hops :: "(ipv4, u32) std_map"
  td_queue :: "path_state std_set"

definition td_init :: "ipv4 \<Rightarrow> ipv4 std_set \<Rightarrow> td" where
  "td_init mainAddress allNodes =
     \<lparr>td_maxTrust = map_put mainAddress 1 (map (\<lambda>n. (n, - 1)) allNodes),
      td_parent = [],
      td_hops = map_put mainAddress 0 (map (\<lambda>n. (n, 0xffffffff)) allNodes),
      td_queue = [PathState 1 0 mainAddress]\<rparr>"

text \<open>The trust of the node that is traversed, 1 for the source.\<close>

definition traversed_trust :: "ipv4 \<Rightarrow> (ipv4 \<Rightarrow> rat) option \<Rightarrow> ipv4 \<Rightarrow> rat" where
  "traversed_trust mainAddress trust u =
     (case trust of Some f \<Rightarrow> if u \<noteq> mainAddress then f u else 1 | None \<Rightarrow> 1)"

text \<open>The relaxation of one edge \<open>(u, v)\<close>.\<close>

definition td_relax :: "ipv4 \<Rightarrow> (ipv4 \<Rightarrow> rat) option \<Rightarrow> path_state \<Rightarrow> ipv4 \<Rightarrow> td \<Rightarrow> td" where
  "td_relax mainAddress trust best v st =
     (let pathTrust = min (ps_trust best) (traversed_trust mainAddress trust (ps_addr best));
          pathHops = ps_hops best + 1;
          oldTrust = map_ref 0 (td_maxTrust st) v;
          oldHops = map_ref 0 (td_hops st) v
      in if pathTrust > oldTrust \<or> pathTrust = oldTrust \<and> pathHops < oldHops
         then
           let q = (if oldTrust \<noteq> - 1 then set_erase (PathState oldTrust oldHops v) (td_queue st)
                    else td_queue st)
           in st\<lparr>td_maxTrust := map_put v pathTrust (td_maxTrust st),
                 td_hops := map_put v pathHops (td_hops st),
                 td_parent := map_put v (ps_addr best) (td_parent st),
                 td_queue := set_insert (PathState pathTrust pathHops v) q\<rparr>
         else st)"

text \<open>One round of the loop: the best path is taken off the queue and its edges are relaxed.\<close>

definition td_round :: "ipv4 \<Rightarrow> (ipv4 \<Rightarrow> rat) option \<Rightarrow> td_graph \<Rightarrow> path_state \<Rightarrow> td \<Rightarrow> td" where
  "td_round mainAddress trust graph best st =
     (case map_of graph (ps_addr best) of
        None \<Rightarrow> st
      | Some adjacent \<Rightarrow> fold (td_relax mainAddress trust best) adjacent st)"

partial_function (option) td_loop ::
  "ipv4 \<Rightarrow> (ipv4 \<Rightarrow> rat) option \<Rightarrow> td_graph \<Rightarrow> td \<Rightarrow> td option" where
  [code]: "td_loop mainAddress trust graph st =
     (case td_queue st of
        [] \<Rightarrow> Some st
      | best # q \<Rightarrow>
          td_loop mainAddress trust graph (td_round mainAddress trust graph best (st\<lparr>td_queue := q\<rparr>)))"

section \<open>From parents to routes\<close>

text \<open>The walk back to the first hop, with the number of steps that are left.\<close>

fun td_backtrack :: "nat \<Rightarrow> ipv4 \<Rightarrow> (ipv4, ipv4) std_map \<Rightarrow> ipv4 \<Rightarrow> ipv4 option" where
  "td_backtrack 0 mainAddress parent cur = None"
| "td_backtrack (Suc k) mainAddress parent cur =
     (case map_of parent cur of
        None \<Rightarrow> None
      | Some p \<Rightarrow> if p = mainAddress then Some cur else td_backtrack k mainAddress parent p)"

definition td_sanity :: nat where "td_sanity = 255"

text \<open>The first live link to the next hop whose local address belongs to an interface.\<close>

definition td_link ::
  "time \<Rightarrow> (ipv4 \<times> ipv4) list list \<Rightarrow> olsr_state \<Rightarrow> ipv4 \<Rightarrow> (ipv4 \<times> u32) option" where
  "td_link now ifaces s nextHop =
     (case find_first (\<lambda>l. GetMainAddress (lt_neighborIfaceAddr l) s = nextHop \<and> lt_symTime l \<ge> now
                         \<and> find_interface (lt_localIfaceAddr l) 0 ifaces \<noteq> None) (m_linkSet s) of
        None \<Rightarrow> None
      | Some l \<Rightarrow> map_option (\<lambda>i. (lt_neighborIfaceAddr l, i)) (find_interface (lt_localIfaceAddr l) 0 ifaces))"

definition td_route ::
  "time \<Rightarrow> (ipv4 \<times> ipv4) list list \<Rightarrow> ipv4 \<Rightarrow> olsr_state \<Rightarrow> td \<Rightarrow> ipv4 \<times> ipv4 \<Rightarrow> table \<Rightarrow> table res" where
  "td_route now ifaces mainAddress s st = (\<lambda>(dest, p) t.
     if dest = mainAddress then Inr t
     else case td_backtrack td_sanity mainAddress (td_parent st) dest of
            None \<Rightarrow> Inr t
          | Some nextHop \<Rightarrow>
              (case td_link now ifaces s nextHop of
                 None \<Rightarrow> Inr t
               | Some (nextAddr, interface) \<Rightarrow>
                   AddEntry dest nextAddr interface (map_ref 0 (td_hops st) dest) t))"

text \<open>Step 6, the HNA routes.\<close>

definition td_hna :: "olsr_state \<Rightarrow> table \<Rightarrow> association_tuple \<Rightarrow> static_route list \<Rightarrow> static_route list" where
  "td_hna s t tuple routes =
     (if find_first (\<lambda>a. as_networkAddr a = at_networkAddr tuple \<and> as_netmask a = at_netmask tuple)
           (m_associations s) \<noteq> None
      then routes
      else case Lookup (at_gatewayAddr tuple) t of
             None \<Rightarrow> routes
           | Some g \<Rightarrow> AddNetworkRouteTo (at_networkAddr tuple) (at_netmask tuple) (rt_nextAddr g)
                         (rt_interface g) (rt_distance g) routes)"

definition td_search :: "ipv4 \<Rightarrow> (ipv4 \<Rightarrow> rat) option \<Rightarrow> olsr_state \<Rightarrow> td option" where
  "td_search mainAddress trust s =
     (case trust_graph mainAddress s of
        (graph, allNodes) \<Rightarrow> td_loop mainAddress trust graph (td_init mainAddress allNodes))"

text \<open>The new \<open>m_table\<close> and \<open>m_hnaRoutingTable\<close>.\<close>

definition RunTrustDijkstra ::
  "time \<Rightarrow> (ipv4 \<times> ipv4) list list \<Rightarrow> ipv4 \<Rightarrow> olsr_state \<Rightarrow> (ipv4 \<Rightarrow> rat) option \<Rightarrow> static_route list \<Rightarrow>
     (table \<times> static_route list) res" where
  "RunTrustDijkstra now ifaces mainAddress s trust routes =
     (case td_search mainAddress trust s of
        None \<Rightarrow> Inl Diverges
      | Some st \<Rightarrow>
          bindR (foldE (td_route now ifaces mainAddress s st) (td_parent st) []) (\<lambda>t.
          bindR (hna_clear 0 routes) (\<lambda>routes.
          Inr (t, fold (td_hna s t) (m_associationSet s) routes))))"

end
