(* ===== verification/Fpnt_Dijkstra.thy ===== *)
theory Fpnt_Dijkstra
  imports Fpnt_Routing
begin

text \<open>
  Correctness of the search of \<open>RunTrustDijkstra\<close>: the graph is the undirected graph of the OLSR
  information (\<open>olsr_edge\<close>), the loop ends after at most one round per node, and the path trust it
  stores is the largest trust of a walk to the node. \<open>td_inv\<close> is the invariant of the outer loop
  (\<open>popped\<close> are the nodes that were taken off the queue), \<open>td_mid\<close> the one of the relaxations of one
  round.
\<close>

section \<open>The graph\<close>

definition neighbors_of :: "td_graph \<Rightarrow> ipv4 \<Rightarrow> ipv4 set" where
  "neighbors_of graph u = set (map_ref [] graph u)"

definition olsr_link :: "ipv4 \<Rightarrow> olsr_state \<Rightarrow> ipv4 \<Rightarrow> ipv4 \<Rightarrow> bool" where
  "olsr_link mainAddress s a b \<longleftrightarrow>
     a = mainAddress \<and> (\<exists>nb\<in>set (m_neighborSet s). nt_status nb = STATUS_SYM \<and> nt_neighborMainAddr nb = b) \<or>
     (\<exists>nb2\<in>set (m_twoHopNeighborSet s). th_neighborMainAddr nb2 = a \<and> th_twoHopNeighborAddr nb2 = b) \<or>
     a \<noteq> mainAddress \<and> b \<noteq> mainAddress \<and>
       (\<exists>topo\<in>set (m_topologySet s). tt_lastAddr topo = a \<and> tt_destAddr topo = b)"

definition olsr_edge :: "ipv4 \<Rightarrow> olsr_state \<Rightarrow> ipv4 \<Rightarrow> ipv4 \<Rightarrow> bool" where
  "olsr_edge mainAddress s a b \<longleftrightarrow> a \<noteq> b \<and> (olsr_link mainAddress s a b \<or> olsr_link mainAddress s b a)"

definition graph_ok :: "td_graph \<times> ipv4 std_set \<Rightarrow> bool" where
  "graph_ok g \<longleftrightarrow> wf_map (fst g) \<and> wf_set (snd g) \<and>
     (\<forall>u v. v \<in> neighbors_of (fst g) u \<longrightarrow> u \<in> set (snd g) \<and> v \<in> set (snd g))"

lemma map_ref_put [simp]: "map_ref d (map_put k v m) x = (if x = k then v else map_ref d m x)"
  by (simp add: map_ref_def)

lemma neighbors_addEdge:
  "neighbors_of (fst (addEdge a b g)) u =
     neighbors_of (fst g) u \<union> (if a = b then {} else if u = a then {b} else if u = b then {a} else {})"
  by (cases g) (auto simp: addEdge_def neighbors_of_def Let_def)

lemma nodes_addEdge: "a \<noteq> b \<Longrightarrow> set (snd (addEdge a b g)) = {a, b} \<union> set (snd g)"
  by (cases g) (auto simp: addEdge_def Let_def)

lemma nodes_addEdge_mono: "set (snd g) \<subseteq> set (snd (addEdge a b g))"
  by (cases g) (auto simp: addEdge_def Let_def)

lemma wf_addEdge: "wf_map (fst g) \<Longrightarrow> wf_set (snd g) \<Longrightarrow>
    wf_map (fst (addEdge a b g)) \<and> wf_set (snd (addEdge a b g))"
  by (cases g) (auto simp: addEdge_def Let_def)

lemma graph_ok_addEdge: "graph_ok g \<Longrightarrow> graph_ok (addEdge a b g)"
proof (cases "a = b")
  case True
  then show "graph_ok g \<Longrightarrow> graph_ok (addEdge a b g)" by (cases g) (simp add: addEdge_def)
next
  case False
  then show "graph_ok g \<Longrightarrow> graph_ok (addEdge a b g)"
    using wf_addEdge [of g a b] nodes_addEdge [of a b g]
    by (auto simp: graph_ok_def neighbors_addEdge split: if_splits)
qed

text \<open>A loop that adds the edges of some tuples.\<close>

lemma fold_addEdge:
  fixes P :: "'a \<Rightarrow> bool" and f h :: "'a \<Rightarrow> ipv4" and xs :: "'a list"
  assumes "graph_ok g"
  defines "g' \<equiv> fold (\<lambda>x g. if P x then addEdge (f x) (h x) g else g) xs g"
  shows "graph_ok g'"
    and "set (snd g) \<subseteq> set (snd g')"
    and "v \<in> neighbors_of (fst g') u \<longleftrightarrow> v \<in> neighbors_of (fst g) u \<or>
           u \<noteq> v \<and> (\<exists>x\<in>set xs. P x \<and> (f x = u \<and> h x = v \<or> f x = v \<and> h x = u))"
proof -
  have "graph_ok g' \<and> set (snd g) \<subseteq> set (snd g') \<and>
      (v \<in> neighbors_of (fst g') u \<longleftrightarrow> v \<in> neighbors_of (fst g) u \<or>
        u \<noteq> v \<and> (\<exists>x\<in>set xs. P x \<and> (f x = u \<and> h x = v \<or> f x = v \<and> h x = u)))"
    using assms(1) unfolding g'_def
  proof (induction xs arbitrary: g)
    case (Cons x xs)
    show ?case
    proof (cases "P x")
      case True
      have ok: "graph_ok (addEdge (f x) (h x) g)" using Cons.prems by (rule graph_ok_addEdge)
      show ?thesis using Cons.IH [OF ok] True nodes_addEdge_mono [of g "f x" "h x"]
        by (auto simp: neighbors_addEdge split: if_splits)
    next
      case False
      then show ?thesis using Cons.IH [OF Cons.prems] by simp
    qed
  qed simp
  then show "graph_ok g'" "set (snd g) \<subseteq> set (snd g')"
    "v \<in> neighbors_of (fst g') u \<longleftrightarrow> v \<in> neighbors_of (fst g) u \<or>
           u \<noteq> v \<and> (\<exists>x\<in>set xs. P x \<and> (f x = u \<and> h x = v \<or> f x = v \<and> h x = u))"
    by auto
qed

lemma trust_graph_folds:
  "trust_graph mainAddress s =
     fold (\<lambda>topo g. if tt_lastAddr topo \<noteq> mainAddress \<and> tt_destAddr topo \<noteq> mainAddress
                    then addEdge (tt_lastAddr topo) (tt_destAddr topo) g else g) (m_topologySet s)
      (fold (\<lambda>nb2 g. if True then addEdge (th_neighborMainAddr nb2) (th_twoHopNeighborAddr nb2) g else g)
        (m_twoHopNeighborSet s)
      (fold (\<lambda>nb g. if nt_status nb = STATUS_SYM then addEdge mainAddress (nt_neighborMainAddr nb) g else g)
        (m_neighborSet s) ([], [mainAddress])))"
  unfolding trust_graph_def Let_def
  by (intro arg_cong2 [where f = "\<lambda>f. fold f (m_topologySet s)"] ext) (auto simp: fun_eq_iff)

lemma graph_ok_start: "graph_ok ([], [mainAddress])"
  by (simp add: graph_ok_def neighbors_of_def map_ref_def wf_set_def)

lemma trust_graph_ok:
  assumes "trust_graph mainAddress s = (graph, allNodes)"
  shows "graph_ok (graph, allNodes)" and "mainAddress \<in> set allNodes"
    and "v \<in> neighbors_of graph u \<longleftrightarrow> olsr_edge mainAddress s u v"
proof -
  define g1 where "g1 = fold (\<lambda>nb g. if nt_status nb = STATUS_SYM
      then addEdge mainAddress (nt_neighborMainAddr nb) g else g) (m_neighborSet s) ([], [mainAddress])"
  define g2 where "g2 = fold (\<lambda>nb2 g. if True
      then addEdge (th_neighborMainAddr nb2) (th_twoHopNeighborAddr nb2) g else g) (m_twoHopNeighborSet s) g1"
  define g3 where "g3 = fold (\<lambda>topo g. if tt_lastAddr topo \<noteq> mainAddress \<and> tt_destAddr topo \<noteq> mainAddress
                    then addEdge (tt_lastAddr topo) (tt_destAddr topo) g else g) (m_topologySet s) g2"
  have eq: "(graph, allNodes) = g3"
    using assms by (simp add: trust_graph_folds g3_def g2_def g1_def)
  note f1 = fold_addEdge [OF graph_ok_start [of mainAddress], where P = "\<lambda>nb. nt_status nb = STATUS_SYM"
      and f = "\<lambda>_. mainAddress" and h = nt_neighborMainAddr and xs = "m_neighborSet s", folded g1_def]
  note f2 = fold_addEdge [OF f1(1), where P = "\<lambda>_. True" and f = th_neighborMainAddr and h = th_twoHopNeighborAddr
      and xs = "m_twoHopNeighborSet s", folded g2_def]
  note f3 = fold_addEdge [OF f2(1), where P = "\<lambda>topo. tt_lastAddr topo \<noteq> mainAddress \<and> tt_destAddr topo \<noteq> mainAddress"
      and f = tt_lastAddr and h = tt_destAddr and xs = "m_topologySet s", folded g3_def]
  show "graph_ok (graph, allNodes)" using f3(1) eq by simp
  have parts: "fst g3 = graph" "snd g3 = allNodes" using eq by (metis fst_conv, metis snd_conv)
  have "mainAddress \<in> set (snd g3)" using f1(2) f2(2) f3(2) by auto
  then show "mainAddress \<in> set allNodes" by (simp add: parts)
  have none: "v \<notin> neighbors_of (fst ([] :: td_graph, [mainAddress])) u"
    by (simp add: neighbors_of_def map_ref_def)
  show "v \<in> neighbors_of graph u \<longleftrightarrow> olsr_edge mainAddress s u v"
    unfolding parts(1) [symmetric] f3(3) f2(3) f1(3) olsr_edge_def olsr_link_def
    by (rule iffI; elim disjE conjE bexE exE; use none in blast)
qed

section \<open>The search\<close>

text \<open>The stored trust and hop count of a node, and its entry of the queue.\<close>

abbreviation trust_to :: "td \<Rightarrow> ipv4 \<Rightarrow> rat" where
  "trust_to st v \<equiv> map_ref 0 (td_maxTrust st) v"

abbreviation hops_to :: "td \<Rightarrow> ipv4 \<Rightarrow> u32" where
  "hops_to st v \<equiv> map_ref 0 (td_hops st) v"

definition queue_key :: "td \<Rightarrow> ipv4 \<Rightarrow> path_state" where
  "queue_key st v = PathState (trust_to st v) (hops_to st v) v"

text \<open>The order of the queue without the addresses.\<close>

definition no_worse :: "rat \<times> u32 \<Rightarrow> rat \<times> u32 \<Rightarrow> bool" where
  "no_worse = (\<lambda>(t, h) (t', h'). t > t' \<or> t = t' \<and> h \<le> h')"

abbreviation value_of :: "td \<Rightarrow> ipv4 \<Rightarrow> rat \<times> u32" where
  "value_of st v \<equiv> (trust_to st v, hops_to st v)"

lemma no_worse_refl [simp]: "no_worse p p"
  by (cases p) (simp add: no_worse_def)

lemma no_worse_trans: "no_worse p q \<Longrightarrow> no_worse q r \<Longrightarrow> no_worse p r"
  by (cases p; cases q; cases r) (auto simp: no_worse_def)

lemma less_eq_no_worse: "p \<le> q \<Longrightarrow> no_worse (ps_trust p, ps_hops p) (ps_trust q, ps_hops q)"
  by (cases p; cases q) (auto simp: less_eq_path_state_def less_path_state_def path_before_def no_worse_def split: if_splits)

text \<open>
  What holds between two relaxations: \<open>popped\<close> nodes are final, the queue holds the other nodes that
  were reached, every reached node has a popped parent, and the edges in \<open>relaxed\<close> are satisfied.
\<close>

definition td_mid ::
  "ipv4 \<Rightarrow> (ipv4 \<Rightarrow> rat) \<Rightarrow> td_graph \<Rightarrow> ipv4 set \<Rightarrow> ipv4 set \<Rightarrow> (ipv4 \<times> ipv4) set \<Rightarrow> td \<Rightarrow> bool" where
  "td_mid mainAddress nt graph nodes popped relaxed st \<longleftrightarrow>
     set (td_queue st) = queue_key st ` {v \<in> nodes - popped. trust_to st v \<noteq> - 1} \<and>
     wf_set (td_queue st) \<and> wf_map (td_parent st) \<and>
     popped \<subseteq> nodes \<and> (\<forall>w\<in>popped. trust_to st w \<noteq> - 1) \<and>
     (\<forall>w\<in>popped. \<forall>v\<in>nodes - popped. trust_to st v \<noteq> - 1 \<longrightarrow> no_worse (value_of st w) (value_of st v)) \<and>
     (\<forall>v\<in>nodes. v \<noteq> mainAddress \<longrightarrow> trust_to st v \<noteq> - 1 \<longrightarrow>
        (\<exists>u\<in>popped. map_of (td_parent st) v = Some u \<and> v \<in> neighbors_of graph u \<and>
           value_of st v = (min (trust_to st u) (nt u), hops_to st u + 1))) \<and>
     (\<forall>v. map_of (td_parent st) v \<noteq> None \<longrightarrow> v \<in> nodes \<and> v \<noteq> mainAddress \<and> trust_to st v \<noteq> - 1) \<and>
     (\<forall>v\<in>nodes. trust_to st v = - 1 \<or> 0 \<le> trust_to st v \<and> trust_to st v \<le> 1 \<and>
        unat (hops_to st v) \<le> card popped) \<and>
     value_of st mainAddress = (1, 0) \<and> mainAddress \<in> nodes \<and>
     (\<forall>(u, v)\<in>relaxed. no_worse (value_of st v) (min (trust_to st u) (nt u), hops_to st u + 1))"

definition out_edges :: "td_graph \<Rightarrow> ipv4 set \<Rightarrow> (ipv4 \<times> ipv4) set" where
  "out_edges graph popped = {(u, v). u \<in> popped \<and> v \<in> neighbors_of graph u}"

definition td_inv :: "ipv4 \<Rightarrow> (ipv4 \<Rightarrow> rat) \<Rightarrow> td_graph \<Rightarrow> ipv4 set \<Rightarrow> ipv4 set \<Rightarrow> td \<Rightarrow> bool" where
  "td_inv mainAddress nt graph nodes popped st \<longleftrightarrow>
     td_mid mainAddress nt graph nodes popped (out_edges graph popped) st"

lemma td_init_inv:
  assumes "wf_set allNodes" and "mainAddress \<in> set allNodes"
  shows "td_inv mainAddress nt graph (set allNodes) {} (td_init mainAddress allNodes)"
proof -
  have ref: "v \<in> set allNodes \<Longrightarrow> map_ref 0 (map (\<lambda>n. (n, - 1 :: rat)) allNodes) v = - 1" for v
    by (induction allNodes) (auto simp: map_ref_def)
  have "{v \<in> set allNodes. trust_to (td_init mainAddress allNodes) v \<noteq> - 1} = {mainAddress}"
    using assms(2) ref by (auto simp: td_init_def)
  then show ?thesis using assms(2) ref
    by (simp add: td_inv_def td_mid_def out_edges_def queue_key_def)
       (auto simp: td_init_def queue_key_def wf_set_def)
qed

text \<open>One relaxation of an edge out of the node taken off the queue.\<close>

lemma td_relax_skip:
  assumes "no_worse (value_of st v) (min (ps_trust best) (traversed_trust mainAddress trust (ps_addr best)), ps_hops best + 1)"
  shows "td_relax mainAddress trust best v st = st"
  using assms by (auto simp: td_relax_def no_worse_def Let_def)

lemma td_midD:
  assumes "td_mid mainAddress nt graph nodes popped relaxed st"
  shows "set (td_queue st) = queue_key st ` {v \<in> nodes - popped. trust_to st v \<noteq> - 1}"
    and "wf_set (td_queue st)" and "wf_map (td_parent st)" and "popped \<subseteq> nodes"
    and "w \<in> popped \<Longrightarrow> trust_to st w \<noteq> - 1"
    and "w \<in> popped \<Longrightarrow> v \<in> nodes - popped \<Longrightarrow> trust_to st v \<noteq> - 1 \<Longrightarrow>
           no_worse (value_of st w) (value_of st v)"
    and "v \<in> nodes \<Longrightarrow> v \<noteq> mainAddress \<Longrightarrow> trust_to st v \<noteq> - 1 \<Longrightarrow>
           \<exists>u\<in>popped. map_of (td_parent st) v = Some u \<and> v \<in> neighbors_of graph u \<and>
             value_of st v = (min (trust_to st u) (nt u), hops_to st u + 1)"
    and "map_of (td_parent st) v = Some p \<Longrightarrow> v \<in> nodes \<and> v \<noteq> mainAddress \<and> trust_to st v \<noteq> - 1"
    and "v \<in> nodes \<Longrightarrow> trust_to st v \<noteq> - 1 \<Longrightarrow>
           0 \<le> trust_to st v \<and> trust_to st v \<le> 1 \<and> unat (hops_to st v) \<le> card popped"
    and "value_of st mainAddress = (1, 0)" and "mainAddress \<in> nodes"
    and "(u, v) \<in> relaxed \<Longrightarrow> no_worse (value_of st v) (min (trust_to st u) (nt u), hops_to st u + 1)"
  using assms unfolding td_mid_def by blast+

lemma td_midI:
  assumes "set (td_queue st) = queue_key st ` {v \<in> nodes - popped. trust_to st v \<noteq> - 1}"
    and "wf_set (td_queue st)" and "wf_map (td_parent st)" and "popped \<subseteq> nodes"
    and "\<forall>w\<in>popped. trust_to st w \<noteq> - 1"
    and "\<forall>w\<in>popped. \<forall>v\<in>nodes - popped. trust_to st v \<noteq> - 1 \<longrightarrow> no_worse (value_of st w) (value_of st v)"
    and "\<forall>v\<in>nodes. v \<noteq> mainAddress \<longrightarrow> trust_to st v \<noteq> - 1 \<longrightarrow>
      (\<exists>u\<in>popped. map_of (td_parent st) v = Some u \<and> v \<in> neighbors_of graph u \<and>
         value_of st v = (min (trust_to st u) (nt u), hops_to st u + 1))"
    and "\<forall>v. map_of (td_parent st) v \<noteq> None \<longrightarrow> v \<in> nodes \<and> v \<noteq> mainAddress \<and> trust_to st v \<noteq> - 1"
    and "\<forall>v\<in>nodes. trust_to st v = - 1 \<or> 0 \<le> trust_to st v \<and> trust_to st v \<le> 1 \<and>
        unat (hops_to st v) \<le> card popped"
    and "value_of st mainAddress = (1, 0)" and "mainAddress \<in> nodes"
    and "\<forall>(u, v)\<in>relaxed. no_worse (value_of st v) (min (trust_to st u) (nt u), hops_to st u + 1)"
  shows "td_mid mainAddress nt graph nodes popped relaxed st"
  unfolding td_mid_def by (intro conjI assms)

definition td_improve :: "rat \<Rightarrow> u32 \<Rightarrow> ipv4 \<Rightarrow> ipv4 \<Rightarrow> td \<Rightarrow> td" where
  "td_improve pt ph u v st =
     st\<lparr>td_maxTrust := map_put v pt (td_maxTrust st), td_hops := map_put v ph (td_hops st),
        td_parent := map_put v u (td_parent st),
        td_queue := set_insert (PathState pt ph v)
          (if trust_to st v \<noteq> - 1 then set_erase (queue_key st v) (td_queue st) else td_queue st)\<rparr>"

lemma td_relax_cases:
  assumes "best = queue_key st u" and "pt = min (trust_to st u) (traversed_trust mainAddress trust u)"
    and "ph = hops_to st u + 1"
  shows "td_relax mainAddress trust best v st =
    (if pt > trust_to st v \<or> pt = trust_to st v \<and> ph < hops_to st v then td_improve pt ph u v st else st)"
  unfolding td_relax_def td_improve_def Let_def assms by (simp add: queue_key_def)

lemma td_improve_value [simp]:
  "trust_to (td_improve pt ph u v st) w = (if w = v then pt else trust_to st w)"
  "hops_to (td_improve pt ph u v st) w = (if w = v then ph else hops_to st w)"
  "map_of (td_parent (td_improve pt ph u v st)) w = (if w = v then Some u else map_of (td_parent st) w)"
  by (simp_all add: td_improve_def)

lemma queue_key_improve: "queue_key (td_improve pt ph u v st) w = (if w = v then PathState pt ph v else queue_key st w)"
  by (simp add: queue_key_def)

lemma queue_key_eq [simp]: "queue_key st v = queue_key st w \<longleftrightarrow> v = w"
  by (auto simp: queue_key_def)

lemma td_improve_queue:
  assumes q: "set (td_queue st) = queue_key st ` {v \<in> R. trust_to st v \<noteq> - 1}" and v: "v \<in> R" "pt \<noteq> - 1"
  shows "set (td_queue (td_improve pt ph u v st)) =
    queue_key (td_improve pt ph u v st) ` {x \<in> R. trust_to (td_improve pt ph u v st) x \<noteq> - 1}"
proof -
  have "set (td_queue (td_improve pt ph u v st)) =
      insert (PathState pt ph v) (queue_key st ` {w \<in> R. trust_to st w \<noteq> - 1 \<and> w \<noteq> v})"
    using q by (auto simp: td_improve_def)
  also have "\<dots> = queue_key (td_improve pt ph u v st) ` {x \<in> R. trust_to (td_improve pt ph u v st) x \<noteq> - 1}"
    using v by (auto simp: queue_key_improve image_iff)
  finally show ?thesis .
qed

lemma td_improve_mid:
  assumes mid: "td_mid mainAddress nt graph nodes popped relaxed st"
    and u: "u \<in> popped" and v: "v \<in> nodes" "v \<in> neighbors_of graph u" "v \<notin> popped" "v \<noteq> mainAddress"
    and low: "\<forall>w\<in>popped. no_worse (value_of st w) (value_of st u)"
    and pos: "0 \<le> nt u" and pt: "pt = min (trust_to st u) (nt u)"
    and ph: "ph = hops_to st u + 1" "unat ph = unat (hops_to st u) + 1" "unat ph \<le> card popped"
    and better: "no_worse (pt, ph) (value_of st v)"
    and rel: "relaxed \<subseteq> popped \<times> UNIV"
  shows "td_mid mainAddress nt graph nodes popped (insert (u, v) relaxed) (td_improve pt ph u v st)"
proof -
  note D = td_midD [OF mid]
  let ?st = "td_improve pt ph u v st"
  have un: "u \<in> nodes" using u D(4) by auto
  have Tu: "0 \<le> trust_to st u \<and> trust_to st u \<le> 1" using D(5) [OF u] D(9) [OF un] by auto
  have pt01: "0 \<le> pt" "pt \<le> 1" "pt \<noteq> - 1" using Tu pos by (auto simp: pt min_def)
  have uv: "u \<noteq> v" using u v by auto
  have ulow: "no_worse (value_of st u) (pt, ph)"
    using ph(2) by (auto simp: no_worse_def pt word_le_nat_alt)
  have q: "set (td_queue ?st) = queue_key ?st ` {x \<in> nodes - popped. trust_to ?st x \<noteq> - 1}"
    using td_improve_queue [OF D(1) _ pt01(3)] v by auto
  have wf: "wf_set (td_queue ?st)" "wf_map (td_parent ?st)" using D(2,3) by (auto simp: td_improve_def)
  have par: "\<forall>x\<in>nodes. x \<noteq> mainAddress \<longrightarrow> trust_to ?st x \<noteq> - 1 \<longrightarrow>
      (\<exists>y\<in>popped. map_of (td_parent ?st) x = Some y \<and> x \<in> neighbors_of graph y \<and>
        value_of ?st x = (min (trust_to ?st y) (nt y), hops_to ?st y + 1))"
  proof (intro ballI impI)
    fix x assume x: "x \<in> nodes" "x \<noteq> mainAddress" "trust_to ?st x \<noteq> - 1"
    show "\<exists>y\<in>popped. map_of (td_parent ?st) x = Some y \<and> x \<in> neighbors_of graph y \<and>
        value_of ?st x = (min (trust_to ?st y) (nt y), hops_to ?st y + 1)"
    proof (cases "x = v")
      case True
      then show ?thesis using u v uv pt ph by (intro bexI [of _ u]) auto
    next
      case False
      then obtain y where y: "y \<in> popped" "map_of (td_parent st) x = Some y" "x \<in> neighbors_of graph y"
        "value_of st x = (min (trust_to st y) (nt y), hops_to st y + 1)"
        using D(7) [of x] x by auto
      moreover have "y \<noteq> v" using y v by auto
      ultimately show ?thesis using False by (intro bexI [of _ y]) auto
    qed
  qed
  have ord: "\<forall>w\<in>popped. \<forall>x\<in>nodes - popped. trust_to ?st x \<noteq> - 1 \<longrightarrow> no_worse (value_of ?st w) (value_of ?st x)"
  proof (intro ballI impI)
    fix w x assume w: "w \<in> popped" and x: "x \<in> nodes - popped" "trust_to ?st x \<noteq> - 1"
    have "w \<noteq> v" using w v by auto
    moreover have "no_worse (value_of st w) (pt, ph)" using low w ulow no_worse_trans by blast
    ultimately show "no_worse (value_of ?st w) (value_of ?st x)" using D(6) [OF w x(1)] x(2) by auto
  qed
  have edges: "\<forall>(x, y)\<in>insert (u, v) relaxed. no_worse (value_of ?st y) (min (trust_to ?st x) (nt x), hops_to ?st x + 1)"
  proof (intro ballI, clarify)
    fix x y assume xy: "(x, y) \<in> insert (u, v) relaxed"
    then have x: "x \<noteq> v" using rel u v by auto
    show "no_worse (value_of ?st y) (min (trust_to ?st x) (nt x), hops_to ?st x + 1)"
    proof (cases "(x, y) = (u, v)")
      case True
      then show ?thesis using x pt ph by auto
    next
      case False
      then have "no_worse (value_of st y) (min (trust_to st x) (nt x), hops_to st x + 1)"
        using D(12) xy by auto
      then show ?thesis using x no_worse_trans [OF better] by (cases "y = v") auto
    qed
  qed
  have rest: "\<forall>w\<in>popped. trust_to ?st w \<noteq> - 1"
    "\<forall>x. map_of (td_parent ?st) x \<noteq> None \<longrightarrow> x \<in> nodes \<and> x \<noteq> mainAddress \<and> trust_to ?st x \<noteq> - 1"
    "\<forall>x\<in>nodes. trust_to ?st x = - 1 \<or> 0 \<le> trust_to ?st x \<and> trust_to ?st x \<le> 1 \<and> unat (hops_to ?st x) \<le> card popped"
    "value_of ?st mainAddress = (1, 0)"
    using D(5) D(8) D(9) D(10) v pt01 ph(3) by auto
  show ?thesis by (rule td_midI [OF q wf D(4) rest(1) ord par rest(2-4) D(11) edges])
qed

lemma td_relax_mid:
  assumes mid: "td_mid mainAddress (traversed_trust mainAddress trust) graph nodes popped relaxed st"
    and u: "u \<in> popped" and best: "best = queue_key st u"
    and v: "v \<in> nodes" "v \<in> neighbors_of graph u"
    and low: "\<forall>w\<in>popped. no_worse (value_of st w) (value_of st u)"
    and pos: "0 \<le> traversed_trust mainAddress trust u"
    and small: "unat (hops_to st u) < card popped" "card popped < 2 ^ 32"
    and rel: "relaxed \<subseteq> popped \<times> UNIV"
  defines "st' \<equiv> td_relax mainAddress trust best v st"
  shows "td_mid mainAddress (traversed_trust mainAddress trust) graph nodes popped (insert (u, v) relaxed) st'
    \<and> (\<forall>w\<in>popped. value_of st' w = value_of st w)"
proof -
  note D = td_midD [OF mid]
  define pt where "pt = min (trust_to st u) (traversed_trust mainAddress trust u)"
  define ph where "ph = hops_to st u + 1"
  have ph_u: "unat ph = unat (hops_to st u) + 1"
    using small unfolding ph_def by (subst unat_plus_simple [THEN iffD1]) (auto simp: word_le_nat_alt unat_word_ariths)
  have Tu: "trust_to st u \<le> 1" using D(4,5,9) u by blast
  show ?thesis
  proof (cases "pt > trust_to st v \<or> pt = trust_to st v \<and> ph < hops_to st v")
    case True
    then have st': "st' = td_improve pt ph u v st"
      unfolding st'_def using td_relax_cases [OF best pt_def ph_def] by simp
    have main: "v \<noteq> mainAddress"
      using True D(10) Tu by (auto simp: pt_def min_def split: if_splits)
    have vp: "v \<notin> popped"
    proof
      assume "v \<in> popped"
      with low have "no_worse (value_of st v) (value_of st u)" by blast
      moreover have "hops_to st u < ph" using ph_u by (simp add: word_less_nat_alt)
      moreover have "pt \<le> trust_to st u" by (simp add: pt_def)
      ultimately show False using True by (auto simp: no_worse_def)
    qed
    have better: "no_worse (pt, ph) (value_of st v)" using True by (auto simp: no_worse_def)
    have "unat ph \<le> card popped" using small ph_u by simp
    from td_improve_mid [OF mid u v vp main low pos pt_def ph_def ph_u this better rel]
    have "td_mid mainAddress (traversed_trust mainAddress trust) graph nodes popped (insert (u, v) relaxed) st'"
      unfolding st' .
    then show ?thesis using vp by (auto simp: st')
  next
    case False
    then have st': "st' = st"
      unfolding st'_def td_relax_cases [OF best pt_def ph_def] by (rule if_not_P)
    have "no_worse (value_of st v) (pt, ph)" using False by (auto simp: no_worse_def)
    then have rel': "\<forall>(x, y)\<in>insert (u, v) relaxed. no_worse (value_of st y)
        (min (trust_to st x) (traversed_trust mainAddress trust x), hops_to st x + 1)"
      using D(12) unfolding pt_def ph_def by blast
    have "td_mid mainAddress (traversed_trust mainAddress trust) graph nodes popped (insert (u, v) relaxed) st"
      using mid unfolding td_mid_def by (elim conjE) (intro conjI rel'; assumption)
    then show ?thesis by (simp add: st')
  qed
qed

text \<open>Taking the best entry off the queue.\<close>

lemma td_pop_mid:
  assumes inv: "td_inv mainAddress nt graph nodes popped st" and q: "td_queue st = best # q"
    and fin: "finite nodes"
  defines "u \<equiv> ps_addr best" and "st1 \<equiv> st\<lparr>td_queue := q\<rparr>"
  shows "best = queue_key st1 u" and "u \<in> nodes - popped"
    and "td_mid mainAddress nt graph nodes (insert u popped) (out_edges graph popped) st1"
    and "\<forall>w\<in>insert u popped. no_worse (value_of st1 w) (value_of st1 u)"
    and "unat (hops_to st1 u) < card (insert u popped)"
proof -
  note mid = inv [unfolded td_inv_def]
  note D = td_midD [OF mid]
  have "best \<in> queue_key st ` {v \<in> nodes - popped. trust_to st v \<noteq> - 1}" using D(1) q by auto
  then have best: "best = queue_key st u" and u: "u \<in> nodes - popped" "trust_to st u \<noteq> - 1"
    by (auto simp: u_def queue_key_def)
  have st1: "trust_to st1 v = trust_to st v" "hops_to st1 v = hops_to st v" "queue_key st1 v = queue_key st v"
    "map_of (td_parent st1) v = map_of (td_parent st) v" "td_queue st1 = q" "td_parent st1 = td_parent st" for v
    by (simp_all add: st1_def queue_key_def)
  show "best = queue_key st1 u" "u \<in> nodes - popped" using best u by (simp_all add: st1)
  have sorted: "\<forall>x\<in>set q. best < x" "wf_set q" using D(2) q by (auto simp: wf_set_def)
  have setq: "set q = queue_key st ` {v \<in> nodes - insert u popped. trust_to st v \<noteq> - 1}"
  proof -
    have "set q = set (td_queue st) - {queue_key st u}" using q sorted best by auto
    then show ?thesis using D(1) by auto
  qed
  have after: "no_worse (value_of st u) (value_of st v)"
    if "v \<in> nodes - insert u popped" "trust_to st v \<noteq> - 1" for v
  proof -
    have "best < queue_key st v" using that setq sorted by blast
    then show ?thesis using less_eq_no_worse [of best "queue_key st v"] best by (simp add: queue_key_def)
  qed
  have low: "\<forall>w\<in>popped. no_worse (value_of st w) (value_of st u)" using D(6) u by blast
  then show "\<forall>w\<in>insert u popped. no_worse (value_of st1 w) (value_of st1 u)" by (simp add: st1)
  have card: "card (insert u popped) = Suc (card popped)"
    using u fin D(4) by (meson DiffD2 card_insert_disjoint finite_subset)
  show "unat (hops_to st1 u) < card (insert u popped)" using D(9) [of u] u by (simp add: st1 card less_Suc_eq_le)
  have par: "\<forall>v\<in>nodes. v \<noteq> mainAddress \<longrightarrow> trust_to st v \<noteq> - 1 \<longrightarrow>
      (\<exists>y\<in>insert u popped. map_of (td_parent st) v = Some y \<and> v \<in> neighbors_of graph y \<and>
         value_of st v = (min (trust_to st y) (nt y), hops_to st y + 1))"
    using D(7) by blast
  have ord: "\<forall>w\<in>insert u popped. \<forall>v\<in>nodes - insert u popped. trust_to st v \<noteq> - 1 \<longrightarrow>
      no_worse (value_of st w) (value_of st v)"
    using after D(6) by blast
  have bound: "\<forall>v\<in>nodes. trust_to st v = - 1 \<or> 0 \<le> trust_to st v \<and> trust_to st v \<le> 1 \<and>
      unat (hops_to st v) \<le> card (insert u popped)"
    using D(9) card by force
  show "td_mid mainAddress nt graph nodes (insert u popped) (out_edges graph popped) st1"
    unfolding td_mid_def st1
    using setq sorted(2) D(3,4,5,8,10,11,12) u par ord bound by (intro conjI; blast)
qed

lemma td_round_mid:
  assumes "td_mid mainAddress (traversed_trust mainAddress trust) graph nodes popped relaxed st"
    and "u \<in> popped" and "best = queue_key st u"
    and "set xs \<subseteq> nodes \<inter> neighbors_of graph u"
    and "\<forall>w\<in>popped. no_worse (value_of st w) (value_of st u)"
    and "0 \<le> traversed_trust mainAddress trust u"
    and "unat (hops_to st u) < card popped" and "card popped < 2 ^ 32"
    and "relaxed \<subseteq> popped \<times> UNIV"
  shows "td_mid mainAddress (traversed_trust mainAddress trust) graph nodes popped (relaxed \<union> {u} \<times> set xs)
      (fold (td_relax mainAddress trust best) xs st)"
  using assms
proof (induction xs arbitrary: st relaxed)
  case (Cons x xs)
  define st' where "st' = td_relax mainAddress trust best x st"
  have x: "x \<in> nodes" "x \<in> neighbors_of graph u" using Cons.prems(4) by auto
  from td_relax_mid [OF Cons.prems(1-3) x Cons.prems(5-9)]
  have mid: "td_mid mainAddress (traversed_trust mainAddress trust) graph nodes popped (insert (u, x) relaxed) st'"
    and same: "\<forall>w\<in>popped. value_of st' w = value_of st w" unfolding st'_def by auto
  have best: "best = queue_key st' u" using same Cons.prems(2,3) by (simp add: queue_key_def)
  have low: "\<forall>w\<in>popped. no_worse (value_of st' w) (value_of st' u)" using Cons.prems(2,5) same by auto
  have "td_mid mainAddress (traversed_trust mainAddress trust) graph nodes popped
      (insert (u, x) relaxed \<union> {u} \<times> set xs) (fold (td_relax mainAddress trust best) xs st')"
  proof (rule Cons.IH [OF mid Cons.prems(2) best _ low Cons.prems(6) _ Cons.prems(8)])
    show "set xs \<subseteq> nodes \<inter> neighbors_of graph u" using Cons.prems(4) by auto
    show "unat (hops_to st' u) < card popped" using Cons.prems(2,7) same by simp
    show "insert (u, x) relaxed \<subseteq> popped \<times> UNIV" using Cons.prems(2,9) by auto
  qed
  moreover have "insert (u, x) relaxed \<union> {u} \<times> set xs = relaxed \<union> {u} \<times> set (x # xs)" by auto
  ultimately show ?case by (simp add: st'_def)
qed simp

lemma td_round_fold:
  "td_round mainAddress trust graph best st =
     fold (td_relax mainAddress trust best) (map_ref [] graph (ps_addr best)) st"
  by (simp add: td_round_def map_ref_def split: option.splits)

lemma td_round_inv:
  assumes inv: "td_inv mainAddress (traversed_trust mainAddress trust) graph nodes popped st"
    and q: "td_queue st = best # q" and fin: "finite nodes" "card nodes < 2 ^ 32"
    and edges: "\<And>u v. v \<in> neighbors_of graph u \<Longrightarrow> v \<in> nodes"
    and pos: "\<And>u. 0 \<le> traversed_trust mainAddress trust u"
  shows "ps_addr best \<in> nodes - popped"
    and "td_inv mainAddress (traversed_trust mainAddress trust) graph nodes (insert (ps_addr best) popped)
           (td_round mainAddress trust graph best (st\<lparr>td_queue := q\<rparr>))"
proof -
  define u where "u = ps_addr best"
  define st1 where "st1 = st\<lparr>td_queue := q\<rparr>"
  define adj where "adj = map_ref [] graph u"
  note pop = td_pop_mid [OF inv q fin(1), folded u_def st1_def]
  have sub: "insert u popped \<subseteq> nodes" using td_midD(4) [OF pop(3)] .
  have small: "card (insert u popped) < 2 ^ 32"
    using card_mono [OF fin(1) sub] fin(2) by linarith
  have adj: "set adj = neighbors_of graph u" by (simp add: adj_def neighbors_of_def)
  have "out_edges graph popped \<union> {u} \<times> set adj = out_edges graph (insert u popped)"
    by (auto simp: out_edges_def adj)
  moreover have "set adj \<subseteq> nodes \<inter> neighbors_of graph u" using edges by (auto simp: adj)
  moreover have "out_edges graph popped \<subseteq> insert u popped \<times> UNIV" by (auto simp: out_edges_def)
  ultimately have "td_inv mainAddress (traversed_trust mainAddress trust) graph nodes (insert u popped)
      (fold (td_relax mainAddress trust best) adj st1)"
    using td_round_mid [OF pop(3) insertI1 pop(1) _ pop(4) pos pop(5) small, of adj]
    by (simp add: td_inv_def)
  then show "td_inv mainAddress (traversed_trust mainAddress trust) graph nodes (insert (ps_addr best) popped)
           (td_round mainAddress trust graph best (st\<lparr>td_queue := q\<rparr>))"
    by (simp add: td_round_fold u_def st1_def adj_def)
  show "ps_addr best \<in> nodes - popped" using pop(2) by (simp add: u_def)
qed

lemma td_loop_inv:
  assumes "td_inv mainAddress (traversed_trust mainAddress trust) graph nodes popped st"
    and "finite nodes" "card nodes < 2 ^ 32"
    and "\<And>u v. v \<in> neighbors_of graph u \<Longrightarrow> v \<in> nodes"
    and "\<And>u. 0 \<le> traversed_trust mainAddress trust u"
  shows "\<exists>popped' st'. td_loop mainAddress trust graph st = Some st' \<and> td_queue st' = [] \<and>
    td_inv mainAddress (traversed_trust mainAddress trust) graph nodes popped' st'"
  using assms(1)
proof (induction "card (nodes - popped)" arbitrary: popped st rule: less_induct)
  case less
  show ?case
  proof (cases "td_queue st")
    case Nil
    then show ?thesis using less.prems by (subst td_loop.simps) auto
  next
    case (Cons best q)
    note round = td_round_inv [OF less.prems Cons assms(2-5)]
    have "card (nodes - insert (ps_addr best) popped) < card (nodes - popped)"
      using round(1) assms(2) by (intro psubset_card_mono) auto
    from less.hyps [OF this round(2)] show ?thesis
      by (subst td_loop.simps) (simp add: Cons)
  qed
qed

section \<open>Walks\<close>

text \<open>
  A path is the list of the nodes after its source. Its trust (Definition 9 of the FPNT paper) is the
  least trust of the nodes between source and destination, 1 when there is none.
\<close>

fun walk :: "(ipv4 \<Rightarrow> ipv4 \<Rightarrow> bool) \<Rightarrow> ipv4 \<Rightarrow> ipv4 list \<Rightarrow> bool" where
  "walk edge a [] \<longleftrightarrow> True"
| "walk edge a (b # p) \<longleftrightarrow> edge a b \<and> walk edge b p"

definition path_trust :: "(ipv4 \<Rightarrow> rat) \<Rightarrow> ipv4 list \<Rightarrow> rat" where
  "path_trust nt p = fold min (map nt (butlast p)) 1"

definition path_to :: "(ipv4 \<Rightarrow> ipv4 \<Rightarrow> bool) \<Rightarrow> ipv4 \<Rightarrow> ipv4 list \<Rightarrow> ipv4 \<Rightarrow> bool" where
  "path_to edge a p b \<longleftrightarrow> p \<noteq> [] \<and> walk edge a p \<and> last p = b"

lemma walk_snoc [simp]: "walk edge a (p @ [b]) \<longleftrightarrow> walk edge a p \<and> edge (last (a # p)) b"
  by (induction p arbitrary: a) auto

lemma path_trust_single [simp]: "path_trust nt [b] = 1"
  by (simp add: path_trust_def)

lemma path_trust_snoc: "p \<noteq> [] \<Longrightarrow> path_trust nt (p @ [b]) = min (path_trust nt p) (nt (last p))"
proof -
  assume "p \<noteq> []"
  then have "map nt p = map nt (butlast p) @ [nt (last p)]"
    by (metis append_butlast_last_id list.simps(8,9) map_append)
  then show ?thesis by (simp add: path_trust_def min.commute)
qed

lemma path_trust_ge: "\<theta> \<le> path_trust nt p \<longleftrightarrow> \<theta> \<le> 1 \<and> (\<forall>v\<in>set (butlast p). \<theta> \<le> nt v)"
proof -
  have "\<theta> \<le> fold min xs c \<longleftrightarrow> \<theta> \<le> c \<and> (\<forall>x\<in>set xs. \<theta> \<le> x)" for xs and c :: rat
    by (induction xs arbitrary: c) auto
  then show ?thesis by (simp add: path_trust_def)
qed

text \<open>What the search leaves behind.\<close>

definition td_final :: "ipv4 \<Rightarrow> (ipv4 \<Rightarrow> rat) \<Rightarrow> (ipv4 \<Rightarrow> ipv4 \<Rightarrow> bool) \<Rightarrow> td \<Rightarrow> bool" where
  "td_final mainAddress nt edge st \<longleftrightarrow>
     wf_map (td_parent st) \<and>
     (\<forall>v p. map_of (td_parent st) v = Some p \<longrightarrow>
        v \<noteq> mainAddress \<and> edge p v \<and> 0 < unat (hops_to st v) \<and>
        (if p = mainAddress then value_of st v = (1, 1)
         else map_of (td_parent st) p \<noteq> None \<and> trust_to st v = min (trust_to st p) (nt p) \<and>
           unat (hops_to st v) = unat (hops_to st p) + 1)) \<and>
     (\<forall>p v. v \<noteq> mainAddress \<longrightarrow> path_to edge mainAddress p v \<longrightarrow>
        map_of (td_parent st) v \<noteq> None \<and> path_trust nt p \<le> trust_to st v)"

lemma td_inv_final:
  assumes inv: "td_inv mainAddress nt graph nodes popped st" and q: "td_queue st = []"
    and fin: "finite nodes" "card nodes < 2 ^ 32 - 1"
    and edges: "\<And>u v. v \<in> neighbors_of graph u \<longleftrightarrow> edge u v" "\<And>u v. edge u v \<Longrightarrow> v \<in> nodes"
    and main: "nt mainAddress = 1" and pos: "\<And>u. 0 \<le> nt u"
  shows "td_final mainAddress nt edge st"
proof -
  note D = td_midD [OF inv [unfolded td_inv_def]]
  have popped: "v \<in> popped" if "v \<in> nodes" "trust_to st v \<noteq> - 1" for v
    using D(1) q that by auto
  have small: "card popped < 2 ^ 32 - 1" using card_mono [OF fin(1) D(4)] fin(2) by linarith
  have nowrap: "unat (hops_to st u + 1) = unat (hops_to st u) + 1" if "u \<in> popped" for u
  proof -
    have "unat (hops_to st u) \<le> card popped" using that D(4,5,9) by blast
    then show ?thesis using small by (simp add: unat_word_ariths)
  qed
  have parent: "v \<noteq> mainAddress \<and> edge p v \<and> 0 < unat (hops_to st v) \<and>
        (if p = mainAddress then value_of st v = (1, 1)
         else map_of (td_parent st) p \<noteq> None \<and> trust_to st v = min (trust_to st p) (nt p) \<and>
           unat (hops_to st v) = unat (hops_to st p) + 1)"
    if "map_of (td_parent st) v = Some p" for v p
  proof -
    have v: "v \<in> nodes" "v \<noteq> mainAddress" "trust_to st v \<noteq> - 1" using D(8) [OF that] by auto
    from D(7) [OF v] that have p: "p \<in> popped" "edge p v"
      and val: "value_of st v = (min (trust_to st p) (nt p), hops_to st p + 1)" by (auto simp: edges(1))
    have "map_of (td_parent st) p \<noteq> None" if "p \<noteq> mainAddress"
      using D(7) [of p] D(4,5) p(1) that by blast
    then show ?thesis using v p(2) val D(10) main nowrap [OF p(1)] by auto
  qed
  have reach: "v \<in> nodes \<and> trust_to st v \<noteq> - 1 \<and> path_trust nt p \<le> trust_to st v"
    if "path_to edge mainAddress p v" for p v
    using that
  proof (induction p arbitrary: v rule: rev_induct)
    case (snoc b p)
    then have v: "b = v" by (simp add: path_to_def)
    define u where "u = last (mainAddress # p)"
    have e: "edge u v" using snoc.prems v by (simp add: path_to_def u_def)
    have u: "u \<in> nodes \<and> trust_to st u \<noteq> - 1 \<and> path_trust nt (p @ [b]) \<le> min (trust_to st u) (nt u)"
    proof (cases "p = []")
      case True
      then show ?thesis using D(10,11) main by (simp add: u_def)
    next
      case False
      then have "path_to edge mainAddress p u" using snoc.prems by (simp add: path_to_def u_def)
      from snoc.IH [OF this] show ?thesis using False
        by (auto simp: path_trust_snoc u_def intro: min.coboundedI1)
    qed
    then have "no_worse (value_of st v) (min (trust_to st u) (nt u), hops_to st u + 1)"
      using D(12) popped e by (auto simp: out_edges_def edges(1))
    then have ge: "min (trust_to st u) (nt u) \<le> trust_to st v" by (auto simp: no_worse_def)
    have "0 \<le> trust_to st u" using u D(9) by blast
    then have "trust_to st v \<noteq> - 1" using ge pos [of u] by (auto simp: min_def split: if_splits)
    then show ?case using ge u edges(2) [OF e] by auto
  qed (simp add: path_to_def)
  have "map_of (td_parent st) v \<noteq> None \<and> path_trust nt p \<le> trust_to st v"
    if "v \<noteq> mainAddress" "path_to edge mainAddress p v" for p v
    using reach [OF that(2)] D(7) [of v] that(1) by blast
  then show ?thesis unfolding td_final_def using D(3) parent by blast
qed

definition trust_nonneg :: "(ipv4 \<Rightarrow> rat) option \<Rightarrow> bool" where
  "trust_nonneg trust \<longleftrightarrow> (case trust of None \<Rightarrow> True | Some f \<Rightarrow> \<forall>u. 0 \<le> f u)"

definition few_nodes :: "ipv4 \<Rightarrow> olsr_state \<Rightarrow> bool" where
  "few_nodes mainAddress s \<longleftrightarrow> length (snd (trust_graph mainAddress s)) < 2 ^ 32 - 1"

lemma traversed_trust_nonneg: "trust_nonneg trust \<Longrightarrow> 0 \<le> traversed_trust mainAddress trust u"
  by (simp add: trust_nonneg_def traversed_trust_def split: option.splits)

lemma td_search_final:
  assumes "trust_nonneg trust" and "few_nodes mainAddress s"
  shows "\<exists>st. td_search mainAddress trust s = Some st \<and>
    td_final mainAddress (traversed_trust mainAddress trust) (olsr_edge mainAddress s) st"
proof -
  obtain graph allNodes where g: "trust_graph mainAddress s = (graph, allNodes)" by fastforce
  note G = trust_graph_ok [OF g]
  have wf: "wf_set allNodes" using G(1) by (simp add: graph_ok_def)
  have nodes: "v \<in> neighbors_of graph u \<Longrightarrow> v \<in> set allNodes" for u v
    using G(1) by (auto simp: graph_ok_def)
  have card: "card (set allNodes) < 2 ^ 32 - 1"
    using assms(2) g wf_set_card [OF wf] by (simp add: few_nodes_def)
  obtain popped st where st: "td_loop mainAddress trust graph (td_init mainAddress allNodes) = Some st"
    "td_queue st = []" "td_inv mainAddress (traversed_trust mainAddress trust) graph (set allNodes) popped st"
    using td_loop_inv [OF td_init_inv [OF wf G(2)], where trust = trust and graph = graph] nodes card
      traversed_trust_nonneg [OF assms(1)] by auto
  have "td_final mainAddress (traversed_trust mainAddress trust) (olsr_edge mainAddress s) st"
  proof (rule td_inv_final [OF st(3,2) _ card G(3)])
    show "olsr_edge mainAddress s u v \<Longrightarrow> v \<in> set allNodes" for u v using nodes G(3) by blast
  qed (simp_all add: traversed_trust_nonneg [OF assms(1)], simp add: traversed_trust_def split: option.splits)
  then show ?thesis using st(1) g by (simp add: td_search_def)
qed

section \<open>The walk back to the first hop\<close>

lemma td_backtrack_path:
  assumes final: "td_final mainAddress nt edge st" and v: "map_of (td_parent st) v = Some q"
  shows "\<exists>p. path_to edge mainAddress p v \<and> path_trust nt p = trust_to st v \<and>
    length p = unat (hops_to st v) \<and> distinct p \<and> mainAddress \<notin> set p \<and>
    map_of (td_parent st) (hd p) = Some mainAddress \<and>
    (\<forall>w\<in>set p. unat (hops_to st w) \<le> unat (hops_to st v)) \<and>
    (\<forall>k. td_backtrack k mainAddress (td_parent st) v = (if length p \<le> k then Some (hd p) else None))"
  using v
proof (induction "unat (hops_to st v)" arbitrary: v q rule: less_induct)
  case less
  have F: "v \<noteq> mainAddress" "edge q v"
    "if q = mainAddress then value_of st v = (1, 1)
         else map_of (td_parent st) q \<noteq> None \<and> trust_to st v = min (trust_to st q) (nt q) \<and>
           unat (hops_to st v) = unat (hops_to st q) + 1"
    using final less.prems unfolding td_final_def by blast+
  have step: "td_backtrack k mainAddress (td_parent st) v =
      (case k of 0 \<Rightarrow> None | Suc k \<Rightarrow> if q = mainAddress then Some v
        else td_backtrack k mainAddress (td_parent st) q)" for k
    using less.prems by (cases k) auto
  show ?case
  proof (cases "q = mainAddress")
    case True
    then show ?thesis using F less.prems
      by (intro exI [of _ "[v]"]) (auto simp: path_to_def step split: nat.splits)
  next
    case False
    then obtain r where r: "map_of (td_parent st) q = Some r"
      and T: "trust_to st v = min (trust_to st q) (nt q)" and H: "unat (hops_to st v) = unat (hops_to st q) + 1"
      using F(3) by auto
    from less.hyps [OF _ r] H obtain p where p: "path_to edge mainAddress p q" "path_trust nt p = trust_to st q"
      "length p = unat (hops_to st q)" "distinct p" "mainAddress \<notin> set p"
      "map_of (td_parent st) (hd p) = Some mainAddress"
      "\<forall>w\<in>set p. unat (hops_to st w) \<le> unat (hops_to st q)"
      "\<forall>k. td_backtrack k mainAddress (td_parent st) q = (if length p \<le> k then Some (hd p) else None)"
      by auto
    have "v \<notin> set p" using p(7) H by auto
    then show ?thesis using p F T H False less.prems
      by (intro exI [of _ "p @ [v]"])
        (auto simp: path_to_def path_trust_snoc step less_eq_nat.simps split: nat.splits)
  qed
qed

end
