(* ===== verification/Fpnt_Routes.thy ===== *)
theory Fpnt_Routes
  imports Fpnt_Dijkstra Fpnt_Invariants
begin

text \<open>
  What \<open>RunTrustDijkstra\<close> installs: the table of the FPNT build, stated over the paths of the OLSR
  graph (\<open>path_to\<close>, \<open>path_trust\<close> of theory \<open>Fpnt_Dijkstra\<close>), and what \<open>FindSendEntry\<close> makes of it.
\<close>

section \<open>The table\<close>

definition td_entry ::
  "time \<Rightarrow> (ipv4 \<times> ipv4) list list \<Rightarrow> ipv4 \<Rightarrow> olsr_state \<Rightarrow> td \<Rightarrow> ipv4 \<Rightarrow> RoutingTableEntry option" where
  "td_entry now ifaces mainAddress s st dest =
     (case td_backtrack td_sanity mainAddress (td_parent st) dest of
        None \<Rightarrow> None
      | Some nextHop \<Rightarrow> map_option (\<lambda>(a, i). \<lparr>rt_destAddr = dest, rt_nextAddr = a, rt_interface = i,
                                               rt_distance = hops_to st dest\<rparr>) (td_link now ifaces s nextHop))"

lemma foldE_map_put:
  assumes "\<And>k p t. (k, p) \<in> set m \<Longrightarrow> f (k, p) t = Inr (case g k of None \<Rightarrow> t | Some e \<Rightarrow> map_put k e t)"
    and "distinct (map fst m)"
  shows "\<exists>t'. foldE f m t = Inr t' \<and>
    (\<forall>d. map_of t' d = (if d \<in> fst ` set m then case g d of None \<Rightarrow> map_of t d | Some e \<Rightarrow> Some e else map_of t d))"
  using assms
proof (induction m arbitrary: t)
  case (Cons x m)
  obtain k p where x: "x = (k, p)" by fastforce
  define t1 where "t1 = (case g k of None \<Rightarrow> t | Some e \<Rightarrow> map_put k e t)"
  have f: "f x t = Inr t1" using Cons.prems(1) x by (simp add: t1_def)
  obtain t' where "foldE f m t1 = Inr t'"
    "\<forall>d. map_of t' d = (if d \<in> fst ` set m then case g d of None \<Rightarrow> map_of t1 d | Some e \<Rightarrow> Some e else map_of t1 d)"
    using Cons.IH [of t1] Cons.prems by auto
  moreover have "k \<notin> fst ` set m" using Cons.prems(2) x by auto
  ultimately show ?case using f x by (auto simp: t1_def split: option.splits)
qed simp

lemma td_routes:
  assumes final: "td_final mainAddress nt edge st"
  shows "\<exists>t. foldE (td_route now ifaces mainAddress s st) (td_parent st) [] = Inr t \<and>
    (\<forall>d. Lookup d t = (if map_of (td_parent st) d = None then None
                       else td_entry now ifaces mainAddress s st d))"
proof -
  have wf: "wf_map (td_parent st)" using final by (simp add: td_final_def)
  have step: "td_route now ifaces mainAddress s st (k, p) t =
      Inr (case td_entry now ifaces mainAddress s st k of None \<Rightarrow> t | Some e \<Rightarrow> map_put k e t)"
    if "(k, p) \<in> set (td_parent st)" for k p t
  proof -
    have "map_of (td_parent st) k = Some p" using that wf by (simp add: wf_map_distinct)
    then have "k \<noteq> mainAddress" "0 < unat (hops_to st k)" using final unfolding td_final_def by blast+
    then have "k \<noteq> mainAddress" "hops_to st k > 0" by (auto simp: word_gt_0)
    then show ?thesis
      by (auto simp: td_route_def td_entry_def AddEntry_def split: option.splits prod.splits)
  qed
  from foldE_map_put [of "td_parent st" _ _ "[]", OF step wf_map_distinct [OF wf], unfolded map_of.simps]
  obtain t where t: "foldE (td_route now ifaces mainAddress s st) (td_parent st) [] = Inr t"
    "\<forall>d. map_of t d = (if d \<in> fst ` set (td_parent st)
        then case td_entry now ifaces mainAddress s st d of None \<Rightarrow> None | Some e \<Rightarrow> Some e else None)"
    by auto
  have "map_of (td_parent st) d = None \<longleftrightarrow> d \<notin> fst ` set (td_parent st)" for d
    by (rule map_of_eq_None_iff)
  then show ?thesis using t by (intro exI [of _ t]) (simp add: Lookup_def split: option.splits)
qed

text \<open>A path that no other path to the same destination beats, without repeated nodes.\<close>

definition best_path ::
  "(ipv4 \<Rightarrow> rat) \<Rightarrow> (ipv4 \<Rightarrow> ipv4 \<Rightarrow> bool) \<Rightarrow> ipv4 \<Rightarrow> ipv4 list \<Rightarrow> ipv4 \<Rightarrow> bool" where
  "best_path nt edge a p b \<longleftrightarrow> path_to edge a p b \<and> distinct p \<and> a \<notin> set p \<and>
     (\<forall>p'. path_to edge a p' b \<longrightarrow> path_trust nt p' \<le> path_trust nt p)"

text \<open>The entry that a path gives, when it is not longer than the walk back allows and a link is live.\<close>

definition path_entry ::
  "time \<Rightarrow> (ipv4 \<times> ipv4) list list \<Rightarrow> olsr_state \<Rightarrow> ipv4 list \<Rightarrow> ipv4 \<Rightarrow> RoutingTableEntry option" where
  "path_entry now ifaces s p dest =
     (if td_sanity < length p then None
      else map_option (\<lambda>(a, i). \<lparr>rt_destAddr = dest, rt_nextAddr = a, rt_interface = i,
                                 rt_distance = of_nat (length p)\<rparr>) (td_link now ifaces s (hd p)))"

lemma td_entry_path:
  assumes final: "td_final mainAddress nt edge st" and d: "map_of (td_parent st) d \<noteq> None"
  shows "\<exists>p. best_path nt edge mainAddress p d \<and> length p < 2 ^ 32 \<and>
    map_of (td_parent st) (hd p) = Some mainAddress \<and>
    td_entry now ifaces mainAddress s st d = path_entry now ifaces s p d"
proof -
  from d obtain q where q: "map_of (td_parent st) d = Some q" by auto
  from td_backtrack_path [OF final this] obtain p where p: "path_to edge mainAddress p d"
    "path_trust nt p = trust_to st d" "length p = unat (hops_to st d)" "distinct p" "mainAddress \<notin> set p"
    "map_of (td_parent st) (hd p) = Some mainAddress"
    "\<forall>k. td_backtrack k mainAddress (td_parent st) d = (if length p \<le> k then Some (hd p) else None)"
    by auto
  have "d \<noteq> mainAddress" using final q unfolding td_final_def by blast
  then have "path_to edge mainAddress p' d \<longrightarrow> path_trust nt p' \<le> path_trust nt p" for p'
    using final p(2) unfolding td_final_def by auto
  then have "best_path nt edge mainAddress p d" using p by (simp add: best_path_def)
  moreover have "of_nat (length p) = hops_to st d" using p(3) by simp
  moreover have "length p < 2 ^ 32" using p(3) unsigned_less [of "hops_to st d"] by simp
  ultimately show ?thesis using p(6,7)
    by (intro exI [of _ p]) (auto simp: td_entry_def path_entry_def)
qed

text \<open>
  The run as a whole: what \<open>RunTrustDijkstra\<close> returns, as a predicate of the table. The first hop of
  the path behind an entry has an entry of its own, over the direct link.
\<close>

definition trust_table ::
  "time \<Rightarrow> (ipv4 \<times> ipv4) list list \<Rightarrow> ipv4 \<Rightarrow> olsr_state \<Rightarrow> (ipv4 \<Rightarrow> rat) option \<Rightarrow> table \<Rightarrow> bool" where
  "trust_table now ifaces mainAddress s trust t \<longleftrightarrow>
     (\<forall>d. if d \<noteq> mainAddress \<and> (\<exists>p. path_to (olsr_edge mainAddress s) mainAddress p d)
          then \<exists>p. best_path (traversed_trust mainAddress trust) (olsr_edge mainAddress s) mainAddress p d \<and>
                 length p < 2 ^ 32 \<and> Lookup d t = path_entry now ifaces s p d \<and>
                 Lookup (hd p) t = path_entry now ifaces s [hd p] (hd p)
          else Lookup d t = None)"

lemma RunTrustDijkstra_table:
  assumes "trust_nonneg trust" and "few_nodes mainAddress s"
  shows "\<exists>t hna. RunTrustDijkstra now ifaces mainAddress s trust routes = Inr (t, hna) \<and>
    trust_table now ifaces mainAddress s trust t"
proof -
  define nt where "nt = traversed_trust mainAddress trust"
  define edge where "edge = olsr_edge mainAddress s"
  obtain st where st: "td_search mainAddress trust s = Some st" and final: "td_final mainAddress nt edge st"
    using td_search_final [OF assms(1,2)] unfolding nt_def edge_def by blast
  obtain t where t: "foldE (td_route now ifaces mainAddress s st) (td_parent st) [] = Inr t"
    "\<And>d. Lookup d t = (if map_of (td_parent st) d = None then None else td_entry now ifaces mainAddress s st d)"
    using td_routes [OF final] by blast
  have parent: "map_of (td_parent st) d \<noteq> None \<longleftrightarrow> d \<noteq> mainAddress \<and> (\<exists>p. path_to edge mainAddress p d)" for d
  proof
    assume "map_of (td_parent st) d \<noteq> None"
    then show "d \<noteq> mainAddress \<and> (\<exists>p. path_to edge mainAddress p d)"
      using td_backtrack_path [OF final] final unfolding td_final_def by fastforce
  qed (use final in \<open>unfold td_final_def, blast\<close>)
  have entry: "\<exists>p. best_path nt edge mainAddress p d \<and> length p < 2 ^ 32 \<and>
      Lookup d t = path_entry now ifaces s p d \<and> Lookup (hd p) t = path_entry now ifaces s [hd p] (hd p)"
    if "map_of (td_parent st) d \<noteq> None" for d
  proof -
    from td_entry_path [OF final that] obtain p where p: "best_path nt edge mainAddress p d" "length p < 2 ^ 32"
      "map_of (td_parent st) (hd p) = Some mainAddress"
      "td_entry now ifaces mainAddress s st d = path_entry now ifaces s p d" by blast
    have "value_of st (hd p) = (1, 1)" using final p(3) unfolding td_final_def by fastforce
    moreover have "td_backtrack td_sanity mainAddress (td_parent st) (hd p) = Some (hd p)"
      by (simp add: td_sanity_def numeral_eq_Suc p(3))
    ultimately have "td_entry now ifaces mainAddress s st (hd p) = path_entry now ifaces s [hd p] (hd p)"
      by (simp add: td_entry_def path_entry_def td_sanity_def)
    then show ?thesis using p t(2) [of d] t(2) [of "hd p"] that by auto
  qed
  have "RunTrustDijkstra now ifaces mainAddress s trust routes =
      Inr (t, fold (td_hna s t) (m_associationSet s) (drop ((length routes + 1) div 2) routes))"
    using t(1) by (simp add: RunTrustDijkstra_def st hna_clear_drop)
  moreover have "trust_table now ifaces mainAddress s trust t"
    unfolding trust_table_def nt_def [symmetric] edge_def [symmetric] parent [symmetric]
  proof
    fix d
    show "if map_of (td_parent st) d \<noteq> None
      then \<exists>p. best_path nt edge mainAddress p d \<and> length p < 2 ^ 32 \<and>
        Lookup d t = path_entry now ifaces s p d \<and> Lookup (hd p) t = path_entry now ifaces s [hd p] (hd p)
      else Lookup d t = None"
      by (rule if_split [THEN iffD2]) (use entry [of d] t(2) [of d] in auto)
  qed
  ultimately show ?thesis by blast
qed

text \<open>What an entry of the table says.\<close>

lemma trust_table_entry:
  assumes "trust_table now ifaces mainAddress s trust t" and "Lookup d t = Some e"
  obtains p a i where "best_path (traversed_trust mainAddress trust) (olsr_edge mainAddress s) mainAddress p d"
    and "d \<noteq> mainAddress" and "td_link now ifaces s (hd p) = Some (a, i)"
    and "e = \<lparr>rt_destAddr = d, rt_nextAddr = a, rt_interface = i, rt_distance = of_nat (length p)\<rparr>"
    and "unat (rt_distance e) = length p" and "length p \<le> 255"
    and "Lookup (hd p) t = Some \<lparr>rt_destAddr = hd p, rt_nextAddr = a, rt_interface = i, rt_distance = 1\<rparr>"
proof -
  have d: "d \<noteq> mainAddress \<and> (\<exists>p. path_to (olsr_edge mainAddress s) mainAddress p d)"
    using assms unfolding trust_table_def by (metis option.distinct(1))
  then obtain p where p: "best_path (traversed_trust mainAddress trust) (olsr_edge mainAddress s) mainAddress p d"
    "length p < 2 ^ 32" "Lookup d t = path_entry now ifaces s p d"
    "Lookup (hd p) t = path_entry now ifaces s [hd p] (hd p)"
    using assms(1) unfolding trust_table_def by metis
  then have entry: "path_entry now ifaces s p d = Some e" using assms(2) by simp
  then obtain a i where link: "td_link now ifaces s (hd p) = Some (a, i)" and len: "length p \<le> 255"
    and e: "e = \<lparr>rt_destAddr = d, rt_nextAddr = a, rt_interface = i, rt_distance = of_nat (length p)\<rparr>"
    by (auto simp: path_entry_def td_sanity_def split: if_splits)
  have "unat (of_nat (length p) :: u32) = length p" using p(2) by (simp add: unat_of_nat)
  then show ?thesis
    using that [OF p(1) _ link e _ len] d p(4) link e by (simp add: path_entry_def td_sanity_def)
qed

lemma td_link_Some:
  assumes "td_link now ifaces s f = Some (a, i)"
  obtains l where "l \<in> set (m_linkSet s)" and "GetMainAddress a s = f" and "now \<le> lt_symTime l"
    and "a = lt_neighborIfaceAddr l" and "find_interface (lt_localIfaceAddr l) 0 ifaces = Some i"
  using assms by (auto simp: td_link_def dest!: find_first_SomeD split: option.splits)

section \<open>Properties\<close>

definition mesh_trust :: "ipv4 \<Rightarrow> rat" where
  "mesh_trust u = (if u = 3 \<or> u = 5 then 1 / 2 else 1)"

definition mesh_link :: "ipv4 \<Rightarrow> link_tuple" where
  "mesh_link a = \<lparr>lt_localIfaceAddr = 1, lt_neighborIfaceAddr = a, lt_symTime = 9, lt_asymTime = 9, lt_time = 9\<rparr>"

definition mesh_neighbor :: "ipv4 \<Rightarrow> neighbor_tuple" where
  "mesh_neighbor a = \<lparr>nt_neighborMainAddr = a, nt_status = STATUS_SYM, nt_willingness = WILL_DEFAULT\<rparr>"

text \<open>Node 1 reaches 5 over 2 and 4, or over 3; node 6 is behind 5.\<close>

definition mesh :: olsr_state where
  "mesh = OlsrState_init\<lparr>
     m_linkSet := [mesh_link 2, mesh_link 3], m_neighborSet := [mesh_neighbor 2, mesh_neighbor 3],
     m_twoHopNeighborSet := [\<lparr>th_neighborMainAddr = 2, th_twoHopNeighborAddr = 4, th_expirationTime = 9\<rparr>,
       \<lparr>th_neighborMainAddr = 3, th_twoHopNeighborAddr = 5, th_expirationTime = 9\<rparr>],
     m_topologySet := [\<lparr>tt_destAddr = 5, tt_lastAddr = 4, tt_sequenceNumber = 1, tt_expirationTime = 9\<rparr>,
       \<lparr>tt_destAddr = 6, tt_lastAddr = 5, tt_sequenceNumber = 1, tt_expirationTime = 9\<rparr>]\<rparr>"

definition mesh_entry :: "ipv4 \<Rightarrow> ipv4 \<Rightarrow> u32 \<Rightarrow> RoutingTableEntry" where
  "mesh_entry d a n = \<lparr>rt_destAddr = d, rt_nextAddr = a, rt_interface = 1, rt_distance = n\<rparr>"

definition mesh_table :: table where
  "mesh_table = map (\<lambda>(d, a, n). (d, mesh_entry d a n)) [(2, 2, 1), (3, 3, 1), (4, 2, 2), (5, 2, 3), (6, 2, 4)]"

lemma td_loop_Nil: "td_queue st = [] \<Longrightarrow> td_loop mainAddress trust graph st = Some st"
  by (subst td_loop.simps) simp

lemma td_loop_Cons:
  "td_queue st = best # q \<Longrightarrow> td_loop mainAddress trust graph st =
    td_loop mainAddress trust graph (td_round mainAddress trust graph best (st\<lparr>td_queue := q\<rparr>))"
  by (subst td_loop.simps) simp

lemma mesh_graph:
  "trust_graph 1 mesh =
     ([(1, [2, 3]), (2, [1, 4]), (3, [1, 5]), (4, [2, 5]), (5, [3, 4, 6]), (6, [5])], [1, 2, 3, 4, 5, 6])"
  by (simp add: trust_graph_def mesh_def OlsrState_init_def mesh_neighbor_def addEdge_def map_ref_def)

lemmas td_eval = td_round_def td_relax_def traversed_trust_def map_ref_def less_path_state_def path_before_def set_erase_def

lemma mesh_search:
  "td_search 1 (Some mesh_trust) mesh =
     Some \<lparr>td_maxTrust = [(1, 1), (2, 1), (3, 1), (4, 1), (5, 1), (6, 1 / 2)],
           td_parent = [(2, 1), (3, 1), (4, 2), (5, 4), (6, 5)],
           td_hops = [(1, 0), (2, 1), (3, 1), (4, 2), (5, 3), (6, 4)], td_queue = []\<rparr>"
  by (simp add: td_search_def mesh_graph td_init_def td_loop_Cons td_loop_Nil td_eval mesh_trust_def Let_def)

lemma td_backtrack_step:
  "0 < k \<Longrightarrow> td_backtrack k mainAddress parent cur =
     (case map_of parent cur of None \<Rightarrow> None
      | Some p \<Rightarrow> if p = mainAddress then Some cur else td_backtrack (k - 1) mainAddress parent p)"
  by (cases k) (auto split: option.splits)

lemma mesh_fields: "m_linkSet mesh = [mesh_link 2, mesh_link 3]" "m_ifaceAssocSet mesh = []"
    "m_associationSet mesh = []"
  by (simp_all add: mesh_def OlsrState_init_def)

lemmas mesh_link_eval = td_link_def mesh_fields mesh_link_def GetMainAddress_def
  FindIfaceAssocTuple_def example_ifaces_def ipv4_loopback_def

lemma mesh_run: "RunTrustDijkstra 5 example_ifaces 1 mesh (Some mesh_trust) [] = Inr (mesh_table, [])"
  by (simp add: RunTrustDijkstra_def mesh_search td_route_def td_backtrack_step td_sanity_def map_ref_def
      AddEntry_def hna_clear_drop mesh_link_eval mesh_table_def mesh_entry_def)

lemma mesh_ok: "trust_nonneg (Some mesh_trust)" "few_nodes 1 mesh"
  by (simp_all add: trust_nonneg_def mesh_trust_def few_nodes_def mesh_graph)

lemma if_cong_mono: "(if b then A else B) \<Longrightarrow> (A \<Longrightarrow> A') \<Longrightarrow> (if b then A' else B)"
  by simp

text \<open>
  C4: The trust routing of the FPNT build always ends and installs best paths. When no trust value is
  negative, the search returns, no assertion fails, and a destination has a route exactly when it
  is connected in the OLSR graph, its chosen path has at most 255 hops and a live link leads to the
  first hop; the chosen path repeats no node, no other path to the destination has a larger path
  trust (the least trust of the nodes in between), and its length is the distance of the entry.
\<close>

theorem trust_routing_optimal:
  assumes "trust_nonneg trust" and "few_nodes mainAddress s"
  shows "\<exists>t hna. RunTrustDijkstra now ifaces mainAddress s trust routes = Inr (t, hna) \<and>
    (\<forall>d. if d \<noteq> mainAddress \<and> (\<exists>p. path_to (olsr_edge mainAddress s) mainAddress p d)
         then \<exists>p. best_path (traversed_trust mainAddress trust) (olsr_edge mainAddress s) mainAddress p d \<and>
                length p < 2 ^ 32 \<and> Lookup d t = path_entry now ifaces s p d
         else Lookup d t = None)"
proof -
  obtain t hna where run: "RunTrustDijkstra now ifaces mainAddress s trust routes = Inr (t, hna)"
    "trust_table now ifaces mainAddress s trust t" using RunTrustDijkstra_table [OF assms] by blast
  have "if d \<noteq> mainAddress \<and> (\<exists>p. path_to (olsr_edge mainAddress s) mainAddress p d)
      then \<exists>p. best_path (traversed_trust mainAddress trust) (olsr_edge mainAddress s) mainAddress p d \<and>
             length p < 2 ^ 32 \<and> Lookup d t = path_entry now ifaces s p d
      else Lookup d t = None" for d
    using run(2) [unfolded trust_table_def, THEN spec, of d]
    by (rule if_cong_mono) blast
  then show ?thesis using run(1) by blast
qed

theorem trust_routing_optimal_witness:
  "\<exists>t hna. RunTrustDijkstra 5 example_ifaces 1 mesh (Some mesh_trust) [] = Inr (t, hna) \<and>
     Lookup 6 t = Some (mesh_entry 6 2 4) \<and> Lookup 7 t = None"
proof -
  from trust_routing_optimal [OF mesh_ok, of 5 example_ifaces "[]"]
  have "fst (projr (RunTrustDijkstra 5 example_ifaces 1 mesh (Some mesh_trust) [])) = mesh_table"
    unfolding mesh_run by simp
  then show ?thesis unfolding mesh_run by (simp add: mesh_table_def mesh_entry_def Lookup_def)
qed

text \<open>
  Distrusted nodes are avoided whenever that is possible. When some path to the destination only
  passes nodes of trust at least \<open>theta\<close>, the route installed for it stands for such a path too: its
  distance is the length of a path without node of less trust in between, and its next hop is the
  interface address of that path's first node, on a live link.
\<close>

theorem distrusted_nodes_avoided:
  assumes "trust_nonneg trust" and "few_nodes mainAddress s"
    and "RunTrustDijkstra now ifaces mainAddress s trust routes = Inr (t, hna)" and "Lookup d t = Some e"
    and "path_to (olsr_edge mainAddress s) mainAddress p d" and "theta \<le> 1"
    and "\<forall>v\<in>set (butlast p). theta \<le> traversed_trust mainAddress trust v"
  shows "\<exists>q l. path_to (olsr_edge mainAddress s) mainAddress q d \<and> unat (rt_distance e) = length q \<and>
    (\<forall>v\<in>set (butlast q). theta \<le> traversed_trust mainAddress trust v) \<and>
    l \<in> set (m_linkSet s) \<and> now \<le> lt_symTime l \<and> rt_nextAddr e = lt_neighborIfaceAddr l \<and>
    GetMainAddress (rt_nextAddr e) s = hd q"
proof -
  have table: "trust_table now ifaces mainAddress s trust t"
    using RunTrustDijkstra_table [OF assms(1,2), of now ifaces routes] assms(3) by auto
  obtain q a i where q: "best_path (traversed_trust mainAddress trust) (olsr_edge mainAddress s) mainAddress q d"
    "td_link now ifaces s (hd q) = Some (a, i)" "rt_nextAddr e = a" "unat (rt_distance e) = length q"
    using trust_table_entry [OF table assms(4)] by (metis RoutingTableEntry.select_convs(2))
  obtain l where l: "l \<in> set (m_linkSet s)" "GetMainAddress a s = hd q" "now \<le> lt_symTime l" "a = lt_neighborIfaceAddr l"
    using td_link_Some [OF q(2)] by metis
  have "theta \<le> path_trust (traversed_trust mainAddress trust) p" using assms(6,7) by (simp add: path_trust_ge)
  then have "theta \<le> path_trust (traversed_trust mainAddress trust) q"
    using q(1) assms(5) unfolding best_path_def by (meson order_trans)
  then show ?thesis using q l unfolding best_path_def path_trust_ge by blast
qed

lemma mesh_paths: "path_to (olsr_edge 1 mesh) 1 [2, 4, 5] 5" "path_to (olsr_edge 1 mesh) 1 [3, 5, 6] 6"
    "path_to (olsr_edge 1 mesh) 1 [2, 4, 5, 6] 6"
  by (simp_all add: path_to_def olsr_edge_def olsr_link_def mesh_def OlsrState_init_def mesh_neighbor_def)

theorem distrusted_nodes_avoided_witness:
  "\<exists>q l. path_to (olsr_edge 1 mesh) 1 q 5 \<and> unat (rt_distance (mesh_entry 5 2 3)) = length q \<and>
    (\<forall>v. \<not> (v \<in> set (butlast q) \<and> traversed_trust 1 (Some mesh_trust) v < 1)) \<and>
    l \<in> set (m_linkSet mesh) \<and> 5 \<le> lt_symTime l \<and> rt_nextAddr (mesh_entry 5 2 3) = lt_neighborIfaceAddr l \<and>
    GetMainAddress (rt_nextAddr (mesh_entry 5 2 3)) mesh = hd q"
proof -
  have look: "Lookup 5 mesh_table = Some (mesh_entry 5 2 3)"
    by (simp add: Lookup_def mesh_table_def)
  have "\<forall>v\<in>set (butlast [2, 4, 5]). 1 \<le> traversed_trust 1 (Some mesh_trust) v"
    by (simp add: traversed_trust_def mesh_trust_def)
  from distrusted_nodes_avoided [OF mesh_ok mesh_run look mesh_paths(1) order_refl this]
  show ?thesis by (simp add: not_less) (metis not_less)
qed

text \<open>
  The fewest-hops preference among equally trusted paths does not reach the destination. In a
  mesh where the last hop bounds the trust, the search installs the 4-hop route to node 6 over two
  fully trusted nodes although a path of 3 hops has the same path trust: the hop count only decides
  between paths whose trust is equal at every node on the way.
\<close>

theorem fewest_hops_not_chosen:
  "\<exists>t p. RunTrustDijkstra 5 example_ifaces 1 mesh (Some mesh_trust) [] = Inr (t, []) \<and>
    Lookup 6 t = Some (mesh_entry 6 2 4) \<and> path_to (olsr_edge 1 mesh) 1 p 6 \<and> length p = 3 \<and>
    best_path (traversed_trust 1 (Some mesh_trust)) (olsr_edge 1 mesh) 1 p 6"
proof -
  have edge: "olsr_edge 1 mesh x 6 \<longleftrightarrow> x = 5" for x
    by (auto simp: olsr_edge_def olsr_link_def mesh_def OlsrState_init_def mesh_neighbor_def)
  let ?nt = "traversed_trust 1 (Some mesh_trust)"
  have nt5: "?nt 5 = 1 / 2" by (simp add: traversed_trust_def mesh_trust_def)
  have le: "path_trust ?nt p \<le> 1 / 2" if path: "path_to (olsr_edge 1 mesh) 1 p 6" for p
  proof -
    obtain ps where ps: "p = ps @ [6]" using path by (cases p rule: rev_cases) (auto simp: path_to_def)
    then have last: "last (1 # ps) = 5" using path edge by (simp add: path_to_def)
    then have "ps \<noteq> []" "last ps = 5" by (auto split: if_splits)
    then show ?thesis by (simp add: ps path_trust_snoc nt5)
  qed
  have eq: "path_trust ?nt [3, 5, 6] = 1 / 2"
    by (simp add: path_trust_def traversed_trust_def mesh_trust_def)
  have "best_path ?nt (olsr_edge 1 mesh) 1 [3, 5, 6] 6"
    using le mesh_paths(2) unfolding best_path_def eq by simp
  then show ?thesis using mesh_run mesh_paths(2)
    by (intro exI [of _ mesh_table] exI [of _ "[3, 5, 6]"]) (simp add: Lookup_def mesh_table_def)
qed

text \<open>
  With one interface per neighbor every trust route is usable. When every link's neighbor
  interface has the neighbor's main address, the walk of \<open>FindSendEntry\<close> from any entry of the
  trust table ends at the entry of the first hop, with the same next address and interface, so
  \<open>RouteOutput\<close> and \<open>RouteInput\<close> find the outgoing link instead of stopping with a fatal error.
\<close>

theorem trust_routes_resolve:
  assumes "trust_nonneg trust" and "few_nodes mainAddress s"
    and "RunTrustDijkstra now ifaces mainAddress s trust routes = Inr (t, hna)" and "Lookup d t = Some e"
    and "\<forall>l\<in>set (m_linkSet s). GetMainAddress (lt_neighborIfaceAddr l) s = lt_neighborIfaceAddr l"
  shows "\<exists>e'. FindSendEntry t e = Some (Some e') \<and> rt_nextAddr e' = rt_nextAddr e \<and>
    rt_interface e' = rt_interface e \<and> rt_distance e' = 1"
proof -
  have table: "trust_table now ifaces mainAddress s trust t"
    using RunTrustDijkstra_table [OF assms(1,2), of now ifaces routes] assms(3) by auto
  obtain p a i where link: "td_link now ifaces s (hd p) = Some (a, i)"
    and e: "rt_destAddr e = d" "rt_nextAddr e = a" "rt_interface e = i"
    and hop: "Lookup (hd p) t = Some \<lparr>rt_destAddr = hd p, rt_nextAddr = a, rt_interface = i, rt_distance = 1\<rparr>"
    using trust_table_entry [OF table assms(4)] by (metis RoutingTableEntry.select_convs(1-3))
  have a: "a = hd p" using td_link_Some [OF link] assms(5) by metis
  define e' where "e' = \<lparr>rt_destAddr = a, rt_nextAddr = a, rt_interface = i, rt_distance = 1\<rparr>"
  have "FindSendEntry t e' = Some (Some e')" by (subst FindSendEntry.simps) (simp add: e'_def)
  then have "FindSendEntry t e = Some (Some e')"
    using hop assms(4) e a by (subst FindSendEntry.simps) (auto simp: e'_def)
  then show ?thesis using e by (auto simp: e'_def)
qed

theorem trust_routes_resolve_witness:
  "\<exists>e'. FindSendEntry mesh_table (mesh_entry 6 2 4) = Some (Some e') \<and> rt_nextAddr e' = 2 \<and> rt_distance e' = 1"
proof -
  have look: "Lookup 6 mesh_table = Some (mesh_entry 6 2 4)" by (simp add: Lookup_def mesh_table_def)
  have "\<forall>l\<in>set (m_linkSet mesh). GetMainAddress (lt_neighborIfaceAddr l) mesh = lt_neighborIfaceAddr l"
    by (simp add: mesh_fields mesh_link_def GetMainAddress_def FindIfaceAssocTuple_def)
  from trust_routes_resolve [OF mesh_ok mesh_run look this]
  show ?thesis by (auto simp: mesh_entry_def)
qed

text \<open>Neighbor 2 is linked over its second interface, 12.\<close>

definition two_interfaces :: olsr_state where
  "two_interfaces = OlsrState_init\<lparr>
     m_linkSet := [mesh_link 12], m_neighborSet := [mesh_neighbor 2],
     m_ifaceAssocSet := [\<lparr>ia_ifaceAddr = 12, ia_mainAddr = 2, ia_time = 9\<rparr>]\<rparr>"

lemma two_interfaces_fields: "m_linkSet two_interfaces = [mesh_link 12]"
    "m_ifaceAssocSet two_interfaces = [\<lparr>ia_ifaceAddr = 12, ia_mainAddr = 2, ia_time = 9\<rparr>]"
    "m_associationSet two_interfaces = []" "m_neighborSet two_interfaces = [mesh_neighbor 2]"
    "m_twoHopNeighborSet two_interfaces = []" "m_topologySet two_interfaces = []"
  by (simp_all add: two_interfaces_def OlsrState_init_def)

lemma two_interfaces_search:
  "td_search 1 None two_interfaces =
     Some \<lparr>td_maxTrust = [(1, 1), (2, 1)], td_parent = [(2, 1)], td_hops = [(1, 0), (2, 1)], td_queue = []\<rparr>"
  by (simp add: td_search_def trust_graph_def two_interfaces_fields mesh_neighbor_def addEdge_def
      td_init_def td_loop_Cons td_loop_Nil td_eval Let_def)

text \<open>
  A neighbor that is linked over another interface than its main address makes the trust routes
  unusable. The trust table then has an entry for the neighbor whose next address is the interface
  address, and no entry for that address, so \<open>FindSendEntry\<close> fails and \<open>RouteOutput\<close> stops the
  program; from the same state the standard computation adds both entries and the walk succeeds.
\<close>

theorem secondary_interface_unresolved:
  "\<exists>t e t' e1 e2. RunTrustDijkstra 5 example_ifaces 1 two_interfaces None [] = Inr (t, []) \<and>
    Lookup 2 t = Some e \<and> rt_nextAddr e = 12 \<and> FindSendEntry t e = Some None \<and>
    ComputeRoutingTableCore 5 example_ifaces 1 two_interfaces [] [] = Inr (t', []) \<and>
    Lookup 2 t' = Some e1 \<and> FindSendEntry t' e1 = Some (Some e2) \<and> rt_nextAddr e2 = 12"
proof -
  have main: "GetMainAddress 12 two_interfaces = 2"
    by (simp add: GetMainAddress_def FindIfaceAssocTuple_def two_interfaces_fields)
  have run: "RunTrustDijkstra 5 example_ifaces 1 two_interfaces None [] = Inr ([(2, mesh_entry 2 12 1)], [])"
    by (simp add: RunTrustDijkstra_def two_interfaces_search td_route_def td_backtrack_step td_sanity_def
        map_ref_def AddEntry_def hna_clear_drop td_link_def two_interfaces_fields mesh_link_def main
        example_ifaces_def ipv4_loopback_def mesh_entry_def)
  have unresolved: "FindSendEntry [(2, mesh_entry 2 12 1)] (mesh_entry 2 12 1) = Some None"
    by (subst FindSendEntry.simps) (simp add: mesh_entry_def Lookup_def)
  have core: "ComputeRoutingTableCore 5 example_ifaces 1 two_interfaces [] [] =
      Inr ([(2, mesh_entry 2 12 1), (12, mesh_entry 12 12 1)], [])"
    by code_simp
  have step: "FindSendEntry t (mesh_entry 12 12 1) = Some (Some (mesh_entry 12 12 1))" for t
    by (subst FindSendEntry.simps) (simp add: mesh_entry_def)
  have "FindSendEntry [(2, mesh_entry 2 12 1), (12, mesh_entry 12 12 1)] (mesh_entry 2 12 1) =
      Some (Some (mesh_entry 12 12 1))"
    by (subst FindSendEntry.simps) (simp add: mesh_entry_def Lookup_def step [unfolded mesh_entry_def])
  then show ?thesis using run unresolved core
    by (intro exI conjI) (auto simp: Lookup_def mesh_entry_def)
qed

section \<open>With the verdicts of the FPNT defense\<close>

lemma Fpnt_trust_nonneg: "fpnt_ok d \<Longrightarrow> trust_nonneg (Some (\<lambda>u. Fpnt_GetNodeTrust s u d))"
  by (auto simp: trust_nonneg_def Fpnt_GetNodeTrust_def fpnt_ok_def params_ok_def unit_def
      split: option.splits dest!: map_of_SomeD)

lemma not_malicious_trust:
  assumes "f_maliciousThreshold d \<le> f_uncertaintyBeta d" and "f_enabled d"
  shows "Fpnt_IsMalicious u d \<longleftrightarrow> Fpnt_GetNodeTrust s u d < f_maliciousThreshold d"
  using assms by (auto simp: Fpnt_IsMalicious_def Fpnt_GetNodeTrust_def split: option.splits)

text \<open>A usable link to a neighbor: symmetric at the time and with a local interface of the node.\<close>

lemma td_link_exists:
  "td_link now ifaces s f \<noteq> None \<longleftrightarrow>
     (\<exists>l\<in>set (m_linkSet s). GetMainAddress (lt_neighborIfaceAddr l) s = f \<and> now \<le> lt_symTime l \<and>
        find_interface (lt_localIfaceAddr l) 0 ifaces \<noteq> None)"
  by (auto simp: td_link_def dest: find_first_SomeD split: option.splits)

text \<open>
  C9: Destinations are reached around the nodes that the FPNT defense calls malicious. Let a run of the
  defense, from a state whose parameters passed the attribute checkers, end with the defense on, and let
  its threshold not be above the trust of unknown nodes. Then for every information base (of fewer than
  \<open>2 ^ 32 - 1\<close> nodes) the trust routing returns a table. When some path to a destination has no malicious
  node in between, the search chooses such a path too, and the destination is routed along it: there is
  an entry with the length of that path whose next hop is an interface of the first node of the path. The
  two cases without an entry are that the chosen path has more than 255 hops, and that its first node has
  no symmetric link over an interface of the node although the information base names it as a neighbor.
\<close>

theorem fpnt_routes_avoid_malicious:
  assumes "fpnt_ok d0" and "fpnt_run events d0 = Inr d" and "f_enabled d"
    and "f_maliciousThreshold d \<le> f_uncertaintyBeta d" and "few_nodes mainAddress s"
  shows "\<exists>t hna. RunTrustDijkstra now ifaces mainAddress s (Some (\<lambda>u. Fpnt_GetNodeTrust s u d)) routes = Inr (t, hna) \<and>
    (\<forall>dest p. dest \<noteq> mainAddress \<longrightarrow> path_to (olsr_edge mainAddress s) mainAddress p dest \<longrightarrow>
      (\<forall>v\<in>set (butlast p) - {mainAddress}. \<not> Fpnt_IsMalicious v d) \<longrightarrow>
      (\<exists>q. path_to (olsr_edge mainAddress s) mainAddress q dest \<and>
         (\<forall>v\<in>set (butlast q). v \<noteq> mainAddress \<and> \<not> Fpnt_IsMalicious v d) \<and>
         (if length q \<le> 255 \<and> (\<exists>l\<in>set (m_linkSet s). GetMainAddress (lt_neighborIfaceAddr l) s = hd q \<and>
               now \<le> lt_symTime l \<and> find_interface (lt_localIfaceAddr l) 0 ifaces \<noteq> None)
          then \<exists>e. Lookup dest t = Some e \<and> rt_destAddr e = dest \<and> unat (rt_distance e) = length q \<and>
            GetMainAddress (rt_nextAddr e) s = hd q
          else Lookup dest t = None)))"
proof -
  have ok: "fpnt_ok d"
    using foldE_invariant [where P = fpnt_ok, OF assms(2) [unfolded fpnt_run_def] assms(1)] fpnt_event_step_ok
    by (metis Inr_inject)
  let ?trust = "Some (\<lambda>u. Fpnt_GetNodeTrust s u d)"
  let ?nt = "traversed_trust mainAddress ?trust"
  obtain t hna where run: "RunTrustDijkstra now ifaces mainAddress s ?trust routes = Inr (t, hna)"
    and table: "trust_table now ifaces mainAddress s ?trust t"
    using RunTrustDijkstra_table [OF Fpnt_trust_nonneg [OF ok] assms(5)] by blast
  have thr: "f_maliciousThreshold d \<le> 1" using ok by (simp add: fpnt_ok_def params_ok_def unit_def)
  have good: "f_maliciousThreshold d \<le> ?nt v \<longleftrightarrow> v = mainAddress \<or> \<not> Fpnt_IsMalicious v d" for v
    using thr not_malicious_trust [OF assms(4,3), of v s] by (auto simp: traversed_trust_def)
  have "\<exists>q. path_to (olsr_edge mainAddress s) mainAddress q dest \<and>
      (\<forall>v\<in>set (butlast q). v \<noteq> mainAddress \<and> \<not> Fpnt_IsMalicious v d) \<and>
      (if length q \<le> 255 \<and> (\<exists>l\<in>set (m_linkSet s). GetMainAddress (lt_neighborIfaceAddr l) s = hd q \<and>
            now \<le> lt_symTime l \<and> find_interface (lt_localIfaceAddr l) 0 ifaces \<noteq> None)
       then \<exists>e. Lookup dest t = Some e \<and> rt_destAddr e = dest \<and> unat (rt_distance e) = length q \<and>
         GetMainAddress (rt_nextAddr e) s = hd q
       else Lookup dest t = None)"
    if p: "dest \<noteq> mainAddress" "path_to (olsr_edge mainAddress s) mainAddress p dest"
      "\<forall>v\<in>set (butlast p) - {mainAddress}. \<not> Fpnt_IsMalicious v d" for dest p
  proof -
    obtain q where q: "best_path ?nt (olsr_edge mainAddress s) mainAddress q dest"
      "Lookup dest t = path_entry now ifaces s q dest"
      using table p(1,2) unfolding trust_table_def by metis
    have "f_maliciousThreshold d \<le> path_trust ?nt p" using p(3) thr good by (auto simp: path_trust_ge)
    then have "f_maliciousThreshold d \<le> path_trust ?nt q"
      using q(1) p(2) unfolding best_path_def by (meson order_trans)
    then have "\<forall>v\<in>set (butlast q). v = mainAddress \<or> \<not> Fpnt_IsMalicious v d"
      using good by (simp add: path_trust_ge)
    moreover have "mainAddress \<notin> set (butlast q)" using q(1) in_set_butlastD [of mainAddress q]
      unfolding best_path_def by blast
    moreover have "GetMainAddress a s = hd q" if "td_link now ifaces s (hd q) = Some (a, i)" for a i
      using td_link_Some [OF that] by metis
    moreover have "unat (of_nat (length q) :: u32) = length q" if "length q \<le> 255"
      using that by (simp add: unat_of_nat)
    ultimately show ?thesis using q(1) unfolding best_path_def q(2) path_entry_def td_sanity_def td_link_exists [symmetric]
      by (intro exI [of _ q]) (cases "td_link now ifaces s (hd q)", auto)
  qed
  then show ?thesis using run by blast
qed

definition suspicious :: fpnt where
  "suspicious = Fpnt_init\<lparr>f_protocol := True, f_selfAddress := 1, f_trustTable := [(3, 1 / 10)]\<rparr>"

lemma suspicious_trust:
  "Fpnt_GetNodeTrust mesh a suspicious =
     (if a = 3 then 1 / 10 else if a = 2 \<or> a = 4 \<or> a = 5 then 3 / 5 else 3 / 10)"
  by (auto simp: Fpnt_GetNodeTrust_def suspicious_def Fpnt_init_def seenInRealState_def mesh_def OlsrState_init_def
      mesh_neighbor_def)

lemma suspicious_search:
  "td_search 1 (Some (\<lambda>a. Fpnt_GetNodeTrust mesh a suspicious)) mesh =
     Some \<lparr>td_maxTrust = [(1, 1), (2, 1), (3, 1), (4, 3 / 5), (5, 3 / 5), (6, 3 / 5)],
           td_parent = [(2, 1), (3, 1), (4, 2), (5, 4), (6, 5)],
           td_hops = [(1, 0), (2, 1), (3, 1), (4, 2), (5, 3), (6, 4)], td_queue = []\<rparr>"
  by (simp add: td_search_def mesh_graph td_init_def td_loop_Cons td_loop_Nil td_eval suspicious_trust Let_def)

lemma suspicious_run:
  "RunTrustDijkstra 5 example_ifaces 1 mesh (Some (\<lambda>a. Fpnt_GetNodeTrust mesh a suspicious)) [] = Inr (mesh_table, [])"
  by (simp add: RunTrustDijkstra_def suspicious_search td_route_def td_backtrack_step td_sanity_def map_ref_def
      AddEntry_def hna_clear_drop mesh_link_eval mesh_table_def mesh_entry_def)

text \<open>Node 5 is two hops away over the malicious node 3; its entry has three hops and the next hop 2.\<close>

theorem fpnt_routes_avoid_malicious_witness:
  "Fpnt_IsMalicious 3 suspicious \<and> path_to (olsr_edge 1 mesh) 1 [3, 5] 5 \<and>
   (\<exists>t hna e q. RunTrustDijkstra 5 example_ifaces 1 mesh (Some (\<lambda>u. Fpnt_GetNodeTrust mesh u suspicious)) [] = Inr (t, hna) \<and>
      Lookup 5 t = Some e \<and> rt_nextAddr e = 2 \<and> unat (rt_distance e) = 3 \<and>
      path_to (olsr_edge 1 mesh) 1 q 5 \<and> length q = 3 \<and> hd q = 2 \<and> 3 \<notin> set (butlast q))"
proof -
  have ok: "fpnt_ok suspicious"
    by (simp add: suspicious_def fpnt_ok_def params_ok_def Fpnt_init_def unit_def)
  have run: "fpnt_run [] suspicious = Inr suspicious" by (simp add: fpnt_run_def)
  have thr: "f_enabled suspicious" "f_maliciousThreshold suspicious \<le> f_uncertaintyBeta suspicious"
    by (simp_all add: suspicious_def Fpnt_init_def)
  have flagged: "Fpnt_IsMalicious v suspicious \<longleftrightarrow> v = 3" for v
    by (simp add: Fpnt_IsMalicious_def suspicious_def Fpnt_init_def)
  have look: "Lookup 5 mesh_table = Some (mesh_entry 5 2 3)"
    by (simp add: Lookup_def mesh_table_def)
  let ?live = "\<lambda>q. length q \<le> 255 \<and> (\<exists>l\<in>set (m_linkSet mesh). GetMainAddress (lt_neighborIfaceAddr l) mesh = hd q \<and>
      5 \<le> lt_symTime l \<and> find_interface (lt_localIfaceAddr l) 0 example_ifaces \<noteq> None)"
  let ?routed = "\<lambda>t q. \<exists>e. Lookup 5 t = Some e \<and> rt_destAddr e = 5 \<and> unat (rt_distance e) = length q \<and>
      GetMainAddress (rt_nextAddr e) mesh = hd q"
  have "(5 :: ipv4) \<noteq> 1" "\<forall>v\<in>set (butlast [2, 4, 5]) - {1}. \<not> Fpnt_IsMalicious v suspicious" by (simp_all add: flagged)
  then obtain t hna q where t: "Inr (mesh_table, [] :: static_route list) = (Inr (t, hna) :: (table \<times> static_route list) res)"
    and q: "path_to (olsr_edge 1 mesh) 1 q 5" "\<forall>v\<in>set (butlast q). v \<noteq> 1 \<and> \<not> Fpnt_IsMalicious v suspicious"
    and routed: "if ?live q then ?routed t q else Lookup 5 t = None"
    using fpnt_routes_avoid_malicious [OF ok run thr mesh_ok(2), of 5 example_ifaces "[]", unfolded suspicious_run]
      mesh_paths(1) by blast
  have "t = mesh_table" using t by simp
  from routed [unfolded this] have "?routed mesh_table q" using look by (simp only: option.distinct if_False split: if_splits)
  then have e: "unat (rt_distance (mesh_entry 5 2 3)) = length q" "GetMainAddress (rt_nextAddr (mesh_entry 5 2 3)) mesh = hd q"
    using look by auto
  have "GetMainAddress 2 mesh = 2" by (simp add: mesh_link_eval)
  then have "length q = 3" "hd q = 2" "3 \<notin> set (butlast q)"
    using q(2) e flagged by (auto simp: mesh_entry_def)
  moreover have "path_to (olsr_edge 1 mesh) 1 [3, 5] 5"
    by (simp add: path_to_def olsr_edge_def olsr_link_def mesh_def OlsrState_init_def mesh_neighbor_def)
  moreover have "rt_nextAddr (mesh_entry 5 2 3) = 2" "unat (rt_distance (mesh_entry 5 2 3)) = 3"
    by (simp_all add: mesh_entry_def)
  ultimately show ?thesis using suspicious_run look q(1) flagged by blast
qed

end
