(* ===== verification/Fpnt_Codec.thy ===== *)
theory Fpnt_Codec
  imports Fpnt_Net Messages
begin

text \<open>
  The TC body of the FPNT build (src/files for all defenses/FPNT/olsr-header.cc): the TC message of
  theory \<open>Messages\<close> extended by the evaluation vectors of its addresses. A magic number in the
  reserved field tells the extended layout from the standard one.
\<close>

record Fpnt_Tc = Tc +
  evaluationVectors :: "EvaluationVector list"

definition FPNT_TC_MAGIC :: u16 where "FPNT_TC_MAGIC = 0xFAE0"

definition FpntTc_GetSerializedSize :: "Fpnt_Tc \<Rightarrow> u32" where
  "FpntTc_GetSerializedSize t =
     (let sz = 4 + of_nat (length (neighborAddresses t)) * IPV4_ADDRESS_SIZE
      in if evaluationVectors t \<noteq> [] then sz + of_nat (length (evaluationVectors t)) * 4 else sz)"

definition emitEvs :: "Fpnt_Tc \<Rightarrow> bool" where
  "emitEvs t \<longleftrightarrow> evaluationVectors t \<noteq> [] \<and> length (evaluationVectors t) = length (neighborAddresses t)"

definition WriteVector :: "EvaluationVector \<Rightarrow> u8 list" where
  "WriteVector ev = WriteU8 (ev_trust ev) @ WriteU8 (ev_distrust ev) @ WriteU8 (ev_uncertain ev) @ WriteU8 0"

definition FpntTc_Serialize :: "Fpnt_Tc \<Rightarrow> u8 list" where
  "FpntTc_Serialize t =
     WriteHtonU16 (tc_ansn t) @ WriteHtonU16 (if emitEvs t then FPNT_TC_MAGIC else 0) @
     WriteAddresses (neighborAddresses t) @
     (if emitEvs t then concat (map WriteVector (evaluationVectors t)) else [])"

fun ReadVectors :: "nat \<Rightarrow> u8 list \<Rightarrow> (EvaluationVector list \<times> u8 list) res" where
  "ReadVectors 0 i = Inr ([], i)"
| "ReadVectors (Suc n) i =
     bindR (ReadU8 i) (\<lambda>(t, i).
     bindR (ReadU8 i) (\<lambda>(d, i).
     bindR (ReadU8 i) (\<lambda>(u, i).
     bindR (ReadU8 i) (\<lambda>(_, i).
     bindR (ReadVectors n i) (\<lambda>(evs, i).
     Inr (EvaluationVector_init\<lparr>ev_trust := t, ev_distrust := d, ev_uncertain := u\<rparr> # evs, i))))))"

definition FpntTc_Deserialize :: "u8 list \<Rightarrow> u32 \<Rightarrow> (Fpnt_Tc \<times> u32) res" where
  "FpntTc_Deserialize i messageSize =
     assertR (messageSize \<ge> 4)
       (bindR (ReadNtohU16 i) (\<lambda>(ansn, i).
        bindR (ReadNtohU16 i) (\<lambda>(reserved, i).
          let hasEvs = (reserved = FPNT_TC_MAGIC);
              payloadSize = messageSize - 4;
              empty = \<lparr>neighborAddresses = [], tc_ansn = ansn, evaluationVectors = []\<rparr>
          in if hasEvs \<and> payloadSize mod 8 \<noteq> 0 then Inr (empty, messageSize)
             else if \<not> hasEvs \<and> payloadSize mod IPV4_ADDRESS_SIZE \<noteq> 0 then Inr (empty, messageSize)
             else
               let numAddresses = unat (if hasEvs then payloadSize div 8 else payloadSize div IPV4_ADDRESS_SIZE)
               in bindR (ReadAddresses numAddresses i) (\<lambda>(xs, i).
                  bindR (if hasEvs then ReadVectors numAddresses i else Inr ([], i)) (\<lambda>(evs, i).
                  Inr (empty\<lparr>neighborAddresses := xs, evaluationVectors := evs\<rparr>, messageSize))))))"

section \<open>Reading back\<close>

lemma length_WriteVector [simp]: "length (WriteVector ev) = 4"
  by (simp add: WriteVector_def)

lemma length_WriteVectors [simp]: "length (concat (map WriteVector evs)) = 4 * length evs"
  by (induction evs) simp_all

lemma ReadVectors_WriteVector:
  "\<forall>ev\<in>set evs. ev_reserved ev = 0 \<Longrightarrow>
    ReadVectors (length evs) (concat (map WriteVector evs) @ i) = Inr (evs, i)"
proof (induction evs)
  case (Cons ev evs)
  have "EvaluationVector_init\<lparr>ev_trust := ev_trust ev, ev_distrust := ev_distrust ev,
      ev_uncertain := ev_uncertain ev\<rparr> = ev"
    using Cons.prems by (cases ev) (simp add: EvaluationVector_init_def)
  with Cons show ?case by (simp add: WriteVector_def codec_simps)
qed simp

lemma length_FpntTc_Serialize:
  "length (FpntTc_Serialize t) =
     4 + 4 * length (neighborAddresses t) + (if emitEvs t then 4 * length (evaluationVectors t) else 0)"
  by (simp add: FpntTc_Serialize_def)

lemma ReadAddresses_total:
  "4 * n \<le> length i \<Longrightarrow> \<exists>xs i'. ReadAddresses n i = Inr (xs, i') \<and> length xs = n \<and> length i' = length i - 4 * n"
proof (induction n arbitrary: i)
  case (Suc n)
  obtain a b c d i1 where i: "i = a # b # c # d # i1"
    using Suc.prems by (cases i rule: ReadNtohU32.cases) auto
  show ?case using Suc.IH [of i1] Suc.prems by (auto simp: i)
qed simp

lemma ReadVectors_total:
  "4 * n \<le> length i \<Longrightarrow> \<exists>evs i'. ReadVectors n i = Inr (evs, i') \<and> length evs = n"
proof (induction n arbitrary: i)
  case (Suc n)
  obtain a b c d i1 where i: "i = a # b # c # d # i1"
    using Suc.prems by (cases i rule: ReadNtohU32.cases) auto
  show ?case using Suc.IH [of i1] Suc.prems by (auto simp: i)
qed simp

text \<open>Messages as the protocol builds them: no vector, or one for every address.\<close>

definition vectors_match :: "Fpnt_Tc \<Rightarrow> bool" where
  "vectors_match t \<longleftrightarrow> (evaluationVectors t = [] \<or> length (evaluationVectors t) = length (neighborAddresses t))
     \<and> (\<forall>ev\<in>set (evaluationVectors t). ev_reserved ev = 0)"

lemma FpntTc_reads_back:
  assumes "vectors_match t" and "length (FpntTc_Serialize t) < 65524"
  shows "FpntTc_GetSerializedSize t = of_nat (length (FpntTc_Serialize t))
    \<and> FpntTc_Deserialize (FpntTc_Serialize t @ rest) (FpntTc_GetSerializedSize t) =
        Inr (t, FpntTc_GetSerializedSize t)"
proof (cases "emitEvs t")
  case True
  then have n: "length (evaluationVectors t) = length (neighborAddresses t)" "evaluationVectors t \<noteq> []"
    by (simp_all add: emitEvs_def)
  define k where "k = length (neighborAddresses t)"
  have len: "length (FpntTc_Serialize t) = 4 + 8 * k"
    using n True by (simp add: length_FpntTc_Serialize k_def)
  have sz: "FpntTc_GetSerializedSize t = 4 + 8 * of_nat k"
    using n by (simp add: FpntTc_GetSerializedSize_def k_def size_defs)
  have k: "8 * k < 65520" using assms(2) len by simp
  then have div8: "(8 * of_nat k :: u32) mod 8 = 0" "unat ((8 * of_nat k :: u32) div 8) = k"
    using unat_u32 [of "8 * k"] u32_div_mod_8 [of k] by (simp_all add: unat_div)
  have ge4: "(4::u32) \<le> 4 + 8 * of_nat k" using u32_ge4 [of "8 * k"] k by simp
  have rd: "ReadAddresses k (WriteAddresses (neighborAddresses t) @ i) = Inr (neighborAddresses t, i)"
    "ReadVectors k (concat (map WriteVector (evaluationVectors t)) @ i) = Inr (evaluationVectors t, i)" for i
    using ReadAddresses_WriteAddresses [of "neighborAddresses t" i]
      ReadVectors_WriteVector [of "evaluationVectors t" i] assms(1) n by (simp_all add: k_def vectors_match_def)
  have whole: "\<lparr>neighborAddresses = neighborAddresses t, tc_ansn = tc_ansn t,
      evaluationVectors = evaluationVectors t\<rparr> = t" by (cases t) simp
  have "FpntTc_GetSerializedSize t = of_nat (length (FpntTc_Serialize t))" by (simp add: sz len)
  moreover have "FpntTc_Deserialize (FpntTc_Serialize t @ rest) (4 + 8 * of_nat k) = Inr (t, 4 + 8 * of_nat k)"
    using True ge4 div8 by (simp add: FpntTc_Deserialize_def FpntTc_Serialize_def codec_simps Let_def rd whole)
  ultimately show ?thesis by (simp only: sz)
next
  case False
  then have evs: "evaluationVectors t = []" using assms(1) by (auto simp: emitEvs_def vectors_match_def)
  define k where "k = length (neighborAddresses t)"
  have len: "length (FpntTc_Serialize t) = 4 + 4 * k"
    using False by (simp add: length_FpntTc_Serialize k_def)
  have sz: "FpntTc_GetSerializedSize t = 4 + 4 * of_nat k"
    using evs by (simp add: FpntTc_GetSerializedSize_def k_def size_defs)
  have k: "4 * k < 65520" using assms(2) len by simp
  have rd: "ReadAddresses k (WriteAddresses (neighborAddresses t) @ i) = Inr (neighborAddresses t, i)" for i
    using ReadAddresses_WriteAddresses [of "neighborAddresses t" i] by (simp add: k_def)
  have whole: "\<lparr>neighborAddresses = neighborAddresses t, tc_ansn = tc_ansn t, evaluationVectors = []\<rparr> = t"
    using evs by (cases t) simp
  have "(4::u32) \<le> 4 + 4 * of_nat k" using u32_ge4 [of "4 * k"] k by simp
  then have "FpntTc_Deserialize (FpntTc_Serialize t @ rest) (4 + 4 * of_nat k) = Inr (t, 4 + 4 * of_nat k)"
    using False k by (simp add: FpntTc_Deserialize_def FpntTc_Serialize_def FPNT_TC_MAGIC_def codec_simps
        Let_def size_defs u32_div_mod_4 rd whole)
  moreover have "FpntTc_GetSerializedSize t = of_nat (length (FpntTc_Serialize t))" by (simp add: sz len)
  ultimately show ?thesis by (simp only: sz)
qed

section \<open>Properties\<close>

text \<open>
  The extended TC body survives the trip. For a message with no evaluation vector or one per
  address, the announced size is the number of bytes written, and \<open>Deserialize\<close> of these bytes,
  whatever follows them, gives the message back; the layout is recognized by the magic number.
\<close>

theorem fpnt_tc_roundtrip:
  assumes "vectors_match t" and "length (FpntTc_Serialize t) < 65524"
  shows "FpntTc_GetSerializedSize t = of_nat (length (FpntTc_Serialize t))
    \<and> FpntTc_Deserialize (FpntTc_Serialize t @ rest) (FpntTc_GetSerializedSize t) =
        Inr (t, FpntTc_GetSerializedSize t)"
  by (rule FpntTc_reads_back [OF assms])

definition example_tc :: Fpnt_Tc where
  "example_tc = \<lparr>neighborAddresses = [2, 3], tc_ansn = 5, evaluationVectors =
     [EvaluationVector_init\<lparr>ev_trust := 218, ev_distrust := 37\<rparr>, EvaluationVector_init\<lparr>ev_uncertain := 255\<rparr>]\<rparr>"

theorem fpnt_tc_roundtrip_witness:
  "FpntTc_Deserialize (FpntTc_Serialize example_tc @ [1, 2]) 20 = Inr (example_tc, 20)"
proof -
  have "vectors_match example_tc" "length (FpntTc_Serialize example_tc) = 20" "FpntTc_GetSerializedSize example_tc = 20"
    by (simp_all add: vectors_match_def example_tc_def EvaluationVector_init_def length_FpntTc_Serialize
        emitEvs_def FpntTc_GetSerializedSize_def size_defs)
  with fpnt_tc_roundtrip [of example_tc "[1, 2]"] show ?thesis by simp
qed

text \<open>
  C39: A malformed TC body cannot stop the receiver. For every announced size of at least 4 and every
  buffer that holds that many bytes, \<open>Deserialize\<close> of the FPNT build returns and consumes the
  announced size; the message it yields has no evaluation vector or one per address, so the check
  of \<open>OnRecvEvaluationVectors\<close> always passes. (The standard build fails an assertion when the size
  is not a multiple of 4.)
\<close>

theorem fpnt_tc_decode_total:
  assumes "4 \<le> messageSize" and "unat messageSize \<le> length i"
  shows "\<exists>t. FpntTc_Deserialize i messageSize = Inr (t, messageSize)
    \<and> (evaluationVectors t = [] \<or> length (evaluationVectors t) = length (neighborAddresses t))"
proof -
  have "4 \<le> unat messageSize" using assms(1) by (simp add: word_le_nat_alt)
  then have n: "unat (messageSize - 4) = unat messageSize - 4" using assms(1) by (simp add: unat_sub)
  obtain a b c d i1 where i: "i = a # b # c # d # i1"
    using assms(2) \<open>4 \<le> unat messageSize\<close> by (cases i rule: ReadNtohU32.cases) auto
  have rest: "unat (messageSize - 4) \<le> length i1" using assms(2) by (simp add: n i)
  show ?thesis
  proof (cases "be16 c d = FPNT_TC_MAGIC")
    case True
    define k where "k = unat ((messageSize - 4) div 8)"
    have k: "8 * k \<le> length i1" using rest by (simp add: k_def unat_div)
    obtain xs i2 where xs: "ReadAddresses k i1 = Inr (xs, i2)" "length xs = k" "length i2 = length i1 - 4 * k"
      using ReadAddresses_total [of k i1] k by auto
    obtain evs i3 where "ReadVectors k i2 = Inr (evs, i3)" "length evs = k"
    proof -
      have "4 * k \<le> length i2" using xs(3) k by linarith
      then show thesis using ReadVectors_total [of k i2] that by blast
    qed
    then show ?thesis
      using assms(1) True xs by (simp add: FpntTc_Deserialize_def i Let_def k_def)
  next
    case False
    define k where "k = unat ((messageSize - 4) div 4)"
    have "4 * k \<le> length i1" using rest by (simp add: k_def unat_div)
    then obtain xs i2 where "ReadAddresses k i1 = Inr (xs, i2)" using ReadAddresses_total [of k i1] by auto
    then show ?thesis
      using assms(1) False by (simp add: FpntTc_Deserialize_def i Let_def k_def size_defs)
  qed
qed

theorem fpnt_tc_decode_total_witness:
  "\<exists>t. FpntTc_Deserialize [0, 1, 0xFA, 0xE0, 7, 7] 6 = Inr (t, 6)"
  using fpnt_tc_decode_total [of 6 "[0, 1, 0xFA, 0xE0, 7, 7]"] by auto

end
