(* ===== verification/Fpnt_Mpr.thy ===== *)
theory Fpnt_Mpr
  imports Complex_Main Mpr
begin

text \<open>
  \<open>RoutingProtocol::MprComputation\<close> of the FPNT build (src/files for all defenses/FPNT/
  olsr-routing-protocol.cc): the blacklist filters on the candidate sets, which are off while the
  trust routing is on, the FPNT-OLSR(R) variant that covers every 2-hop neighbor twice, and the
  standard steps 1 to 4, whose code is that of theory \<open>Mpr\<close>. \<open>defense\<close> is \<open>None\<close> for a null
  \<open>m_defenseStrategy\<close>, otherwise the three queries that the computation asks. The loop of the
  variant has no bound in the code; \<open>None\<close> is a loop that never ends.
\<close>

section \<open>Candidate sets\<close>

record defense_view =
  dv_IsMalicious :: "ipv4 \<Rightarrow> bool"
  dv_IsTrustRoutingEnabled :: bool
  dv_GetNodeTrust :: "ipv4 \<Rightarrow> rat"

definition blacklisted :: "defense_view option \<Rightarrow> ipv4 \<Rightarrow> bool" where
  "blacklisted defense a =
     (case defense of None \<Rightarrow> False
      | Some v \<Rightarrow> dv_IsMalicious v a \<and> \<not> dv_IsTrustRoutingEnabled v)"

definition fpnt_N :: "defense_view option \<Rightarrow> olsr_state \<Rightarrow> neighbor_tuple list" where
  "fpnt_N defense s =
     fold (\<lambda>neighbor N. if nt_status neighbor = STATUS_SYM
                        then (if blacklisted defense (nt_neighborMainAddr neighbor) then N else N @ [neighbor])
                        else N) (m_neighborSet s) []"

definition fpnt_N2 ::
  "defense_view option \<Rightarrow> ipv4 \<Rightarrow> neighbor_tuple list \<Rightarrow> olsr_state \<Rightarrow> two_hop_tuple list" where
  "fpnt_N2 defense mainAddress N s =
     fold (\<lambda>t N2. if blacklisted defense (th_neighborMainAddr t) then N2
                  else if in_N2 mainAddress N t then N2 @ [t] else N2) (m_twoHopNeighborSet s) []"

section \<open>The redundant variant\<close>

type_synonym coverage = "(ipv4, nat) std_map"

definition REDUNDANCY :: nat where "REDUNDANCY = 2"

text \<open>\<open>coverage[t.twoHopNeighborAddr]++\<close> for every tuple of one neighbor.\<close>

definition cover_from :: "ipv4 \<Rightarrow> two_hop_tuple list \<Rightarrow> coverage \<Rightarrow> coverage" where
  "cover_from a N2 coverage =
     fold (\<lambda>t c. if th_neighborMainAddr t = a
                 then map_put (th_twoHopNeighborAddr t) (map_ref 0 c (th_twoHopNeighborAddr t) + 1) c
                 else c) N2 coverage"

definition redundant_seed :: "neighbor_tuple list \<Rightarrow> two_hop_tuple list \<Rightarrow> ipv4 std_set \<times> coverage" where
  "redundant_seed N N2 =
     (let coverage = fold (\<lambda>t. map_put (th_twoHopNeighborAddr t) 0) N2 []
      in fold (\<lambda>nb (mprs, coverage).
           if nt_willingness nb = WILL_ALWAYS
           then (set_insert (nt_neighborMainAddr nb) mprs, cover_from (nt_neighborMainAddr nb) N2 coverage)
           else (mprs, coverage)) N ([], coverage))"

text \<open>How many tuples of the neighbor are not covered often enough.\<close>

definition newly_covered :: "two_hop_tuple list \<Rightarrow> coverage \<Rightarrow> neighbor_tuple \<Rightarrow> nat" where
  "newly_covered N2 coverage nb =
     fold (\<lambda>t n. if th_neighborMainAddr t = nt_neighborMainAddr nb \<and>
                    map_ref 0 coverage (th_twoHopNeighborAddr t) < REDUNDANCY then n + 1 else n) N2 0"

text \<open>One iteration over \<open>N\<close>; the state is \<open>bestNode\<close>, \<open>bestCovered\<close> and \<open>bestTrust\<close>.\<close>

definition redundant_candidate ::
  "(ipv4 \<Rightarrow> rat) \<Rightarrow> two_hop_tuple list \<Rightarrow> ipv4 std_set \<Rightarrow> coverage \<Rightarrow> neighbor_tuple \<Rightarrow>
     neighbor_tuple option \<times> nat \<times> rat \<Rightarrow> neighbor_tuple option \<times> nat \<times> rat" where
  "redundant_candidate trust N2 mprs coverage nb = (\<lambda>(bestNode, bestCovered, bestTrust).
     if set_count mprs (nt_neighborMainAddr nb) then (bestNode, bestCovered, bestTrust)
     else
       let covered = newly_covered N2 coverage nb;
           nbTrust = trust (nt_neighborMainAddr nb)
       in if covered = 0 then (bestNode, bestCovered, bestTrust)
          else if covered > bestCovered \<or> covered = bestCovered \<and> nbTrust > bestTrust
          then (Some nb, covered, nbTrust)
          else (bestNode, bestCovered, bestTrust))"

definition redundant_best ::
  "(ipv4 \<Rightarrow> rat) \<Rightarrow> neighbor_tuple list \<Rightarrow> two_hop_tuple list \<Rightarrow> ipv4 std_set \<Rightarrow> coverage \<Rightarrow>
     neighbor_tuple option \<times> nat \<times> rat" where
  "redundant_best trust N N2 mprs coverage =
     fold (redundant_candidate trust N2 mprs coverage) N (None, 0, - 1)"

partial_function (option) redundant_loop ::
  "(ipv4 \<Rightarrow> rat) \<Rightarrow> neighbor_tuple list \<Rightarrow> two_hop_tuple list \<Rightarrow> ipv4 std_set \<Rightarrow> coverage \<Rightarrow>
     ipv4 std_set option" where
  [code]: "redundant_loop trust N N2 mprs coverage =
     (if find_first (\<lambda>(a, n). n < REDUNDANCY) coverage = None then Some mprs
      else case redundant_best trust N N2 mprs coverage of
             (None, _) \<Rightarrow> Some mprs
           | (Some nb, _) \<Rightarrow>
               redundant_loop trust N N2 (set_insert (nt_neighborMainAddr nb) mprs)
                 (cover_from (nt_neighborMainAddr nb) N2 coverage))"

definition fpnt_MprSet ::
  "defense_view option \<Rightarrow> bool \<Rightarrow> ipv4 \<Rightarrow> olsr_state \<Rightarrow> ipv4 std_set option" where
  "fpnt_MprSet defense redundantMprCoverage mainAddress s =
     (let N = fpnt_N defense s;
          N2 = fpnt_N2 defense mainAddress N s;
          standard = (let (mprSet, N2) = mpr_step3 (mpr_step1 N N2) in mpr_step4 s N mprSet N2)
      in case defense of
           None \<Rightarrow> standard
         | Some v \<Rightarrow>
             if dv_IsTrustRoutingEnabled v \<and> redundantMprCoverage
             then (let (mprs, coverage) = redundant_seed N N2
                   in redundant_loop (dv_GetNodeTrust v) N N2 mprs coverage)
             else standard)"

section \<open>What the loops compute\<close>

lemma fpnt_N_filter:
  "fpnt_N defense s = filter (\<lambda>nb. nt_status nb = STATUS_SYM \<and> \<not> blacklisted defense (nt_neighborMainAddr nb))
     (m_neighborSet s)"
proof -
  have "fold (\<lambda>nb N. if nt_status nb = STATUS_SYM
      then (if blacklisted defense (nt_neighborMainAddr nb) then N else N @ [nb]) else N) xs acc =
    acc @ filter (\<lambda>nb. nt_status nb = STATUS_SYM \<and> \<not> blacklisted defense (nt_neighborMainAddr nb)) xs"
    for xs :: "neighbor_tuple list" and acc
    by (induction xs arbitrary: acc) auto
  then show ?thesis by (simp add: fpnt_N_def)
qed

lemma fpnt_N2_filter:
  "fpnt_N2 defense mainAddress N s =
     filter (\<lambda>t. \<not> blacklisted defense (th_neighborMainAddr t) \<and> in_N2 mainAddress N t) (m_twoHopNeighborSet s)"
proof -
  have "fold (\<lambda>t N2. if blacklisted defense (th_neighborMainAddr t) then N2
      else if in_N2 mainAddress N t then N2 @ [t] else N2) xs acc =
    acc @ filter (\<lambda>t. \<not> blacklisted defense (th_neighborMainAddr t) \<and> in_N2 mainAddress N t) xs"
    for xs :: "two_hop_tuple list" and acc
    by (induction xs arbitrary: acc) auto
  then show ?thesis by (simp add: fpnt_N2_def)
qed

text \<open>The number of tuples of \<open>N2\<close> for one 2-hop node whose neighbor is in \<open>S\<close>.\<close>

definition times_covered :: "two_hop_tuple list \<Rightarrow> ipv4 set \<Rightarrow> ipv4 \<Rightarrow> nat" where
  "times_covered N2 S x = length (filter (\<lambda>t. th_twoHopNeighborAddr t = x \<and> th_neighborMainAddr t \<in> S) N2)"

definition coverage_ok :: "two_hop_tuple list \<Rightarrow> ipv4 std_set \<Rightarrow> coverage \<Rightarrow> bool" where
  "coverage_ok N2 mprs coverage \<longleftrightarrow> wf_map coverage \<and>
     (\<forall>x. map_of coverage x = (if x \<in> th_twoHopNeighborAddr ` set N2 then Some (times_covered N2 (set mprs) x) else None))"

lemma map_of_cover_from:
  "map_of (cover_from a M coverage) x =
     (let n = length (filter (\<lambda>t. th_neighborMainAddr t = a \<and> th_twoHopNeighborAddr t = x) M)
      in if n = 0 then map_of coverage x else Some (map_ref 0 coverage x + n))"
  unfolding cover_from_def
  by (induction M arbitrary: coverage) (auto simp: Let_def map_ref_def)

lemma wf_cover_from: "wf_map coverage \<Longrightarrow> wf_map (cover_from a M coverage)"
  unfolding cover_from_def by (rule fold_invariant_rule) auto

lemma times_covered_insert:
  assumes "a \<notin> S"
  shows "times_covered N2 (insert a S) x =
    times_covered N2 S x + length (filter (\<lambda>t. th_neighborMainAddr t = a \<and> th_twoHopNeighborAddr t = x) N2)"
  unfolding times_covered_def using assms by (induction N2) auto

lemma coverage_ok_cover:
  assumes "coverage_ok N2 mprs coverage" and "a \<notin> set mprs"
  shows "coverage_ok N2 (set_insert a mprs) (cover_from a N2 coverage)"
proof -
  have "map_of (cover_from a N2 coverage) x =
      (if x \<in> th_twoHopNeighborAddr ` set N2 then Some (times_covered N2 (insert a (set mprs)) x) else None)" for x
  proof -
    define n where "n = length (filter (\<lambda>t. th_neighborMainAddr t = a \<and> th_twoHopNeighborAddr t = x) N2)"
    have "n = 0" if "x \<notin> th_twoHopNeighborAddr ` set N2" using that by (auto simp: n_def filter_empty_conv)
    then show ?thesis using assms times_covered_insert [OF assms(2), of N2 x]
      by (auto simp: map_of_cover_from coverage_ok_def map_ref_def Let_def n_def [symmetric])
  qed
  then show ?thesis using assms(1) by (simp add: coverage_ok_def wf_cover_from)
qed

lemma newly_covered_count:
  "newly_covered N2 coverage nb = length (filter (\<lambda>t. th_neighborMainAddr t = nt_neighborMainAddr nb \<and>
     map_ref 0 coverage (th_twoHopNeighborAddr t) < REDUNDANCY) N2)"
proof -
  have "fold (\<lambda>t n. if P t then n + 1 else n) xs n = n + length (filter P xs)"
    for P :: "two_hop_tuple \<Rightarrow> bool" and xs n
    by (induction xs arbitrary: n) auto
  then show ?thesis by (simp add: newly_covered_def)
qed

lemma newly_covered_pos:
  "0 < newly_covered N2 coverage nb \<longleftrightarrow> (\<exists>t\<in>set N2. th_neighborMainAddr t = nt_neighborMainAddr nb \<and>
     map_ref 0 coverage (th_twoHopNeighborAddr t) < REDUNDANCY)"
  by (auto simp: newly_covered_count filter_empty_conv)

lemma redundant_best_spec:
  "case redundant_best trust N N2 mprs coverage of
     (None, c, t) \<Rightarrow> c = 0 \<and> (\<forall>nb\<in>set N. nt_neighborMainAddr nb \<in> set mprs \<or> newly_covered N2 coverage nb = 0)
   | (Some nb, c, t) \<Rightarrow> nb \<in> set N \<and> nt_neighborMainAddr nb \<notin> set mprs \<and> 0 < c \<and>
       c = newly_covered N2 coverage nb \<and> t = trust (nt_neighborMainAddr nb) \<and>
       (\<forall>nb'\<in>set N. nt_neighborMainAddr nb' \<in> set mprs \<or> newly_covered N2 coverage nb' < c \<or>
          newly_covered N2 coverage nb' = c \<and> trust (nt_neighborMainAddr nb') \<le> t)"
proof (induction N rule: rev_induct)
  case Nil
  then show ?case by (simp add: redundant_best_def)
next
  case (snoc nb N)
  obtain b c t where b: "redundant_best trust N N2 mprs coverage = (b, c, t)" by (metis prod_cases3)
  have step: "redundant_best trust (N @ [nb]) N2 mprs coverage =
      redundant_candidate trust N2 mprs coverage nb (b, c, t)"
    using b by (simp add: redundant_best_def)
  show ?case
  proof (cases b)
    case None
    then show ?thesis using snoc.IH b unfolding step
      by (auto simp: redundant_candidate_def Let_def)
  next
    case (Some nb0)
    then show ?thesis using snoc.IH b unfolding step
      by (auto simp: redundant_candidate_def Let_def)
  qed
qed

section \<open>What the variant selects\<close>

text \<open>
  The invariant of the loop: the coverage counts are those of the selected set, which contains only
  neighbors of \<open>N\<close> that are willing; \<open>A\<close> are the addresses that were selected first.
\<close>

definition redundant_inv ::
  "neighbor_tuple list \<Rightarrow> two_hop_tuple list \<Rightarrow> ipv4 set \<Rightarrow> ipv4 std_set \<Rightarrow> coverage \<Rightarrow> bool" where
  "redundant_inv N N2 A mprs coverage \<longleftrightarrow> coverage_ok N2 mprs coverage \<and> wf_set mprs \<and> A \<subseteq> set mprs \<and>
     set mprs \<subseteq> A \<union> {a \<in> nt_neighborMainAddr ` set N. \<exists>t\<in>set N2. th_neighborMainAddr t = a}"

text \<open>Every 2-hop node of \<open>N2\<close> is covered twice, or all its neighbors are selected.\<close>

definition twice_or_all :: "two_hop_tuple list \<Rightarrow> ipv4 set \<Rightarrow> bool" where
  "twice_or_all N2 S \<longleftrightarrow> (\<forall>t\<in>set N2. REDUNDANCY \<le> times_covered N2 S (th_twoHopNeighborAddr t) \<or>
     (\<forall>u\<in>set N2. th_twoHopNeighborAddr u = th_twoHopNeighborAddr t \<longrightarrow> th_neighborMainAddr u \<in> S))"

lemma redundant_stop:
  assumes inv: "redundant_inv N N2 A mprs coverage" and N: "\<forall>t\<in>set N2. th_neighborMainAddr t \<in> nt_neighborMainAddr ` set N"
    and stop: "find_first (\<lambda>(a, n). n < REDUNDANCY) coverage = None \<or>
      (\<forall>nb\<in>set N. nt_neighborMainAddr nb \<in> set mprs \<or> newly_covered N2 coverage nb = 0)"
  shows "twice_or_all N2 (set mprs)"
  unfolding twice_or_all_def
proof (intro ballI disjCI impI)
  fix t u assume t: "t \<in> set N2" and few: "\<not> (\<forall>u\<in>set N2. th_twoHopNeighborAddr u = th_twoHopNeighborAddr t \<longrightarrow>
      th_neighborMainAddr u \<in> set mprs)"
  let ?x = "th_twoHopNeighborAddr t"
  have cov: "map_of coverage ?x = Some (times_covered N2 (set mprs) ?x)"
    using inv t by (simp add: redundant_inv_def coverage_ok_def)
  obtain u where u: "u \<in> set N2" "th_twoHopNeighborAddr u = ?x" "th_neighborMainAddr u \<notin> set mprs"
    using few by blast
  show "REDUNDANCY \<le> times_covered N2 (set mprs) ?x"
  proof (rule ccontr)
    assume less: "\<not> REDUNDANCY \<le> times_covered N2 (set mprs) ?x"
    then have "\<exists>p\<in>set coverage. case p of (a, n) \<Rightarrow> n < REDUNDANCY"
      using map_of_SomeD [OF cov] by (intro bexI) auto
    then have all: "\<forall>nb\<in>set N. nt_neighborMainAddr nb \<in> set mprs \<or> newly_covered N2 coverage nb = 0"
      using stop by auto
    obtain nb where nb: "nb \<in> set N" "nt_neighborMainAddr nb = th_neighborMainAddr u" using N u(1) by force
    have "0 < newly_covered N2 coverage nb"
      unfolding newly_covered_pos using u nb less cov by (intro bexI [of _ u]) (simp_all add: map_ref_def)
    then show False using all nb u(3) by auto
  qed
qed

lemma redundant_loop_spec:
  assumes "redundant_inv N N2 A mprs coverage"
    and "\<forall>t\<in>set N2. th_neighborMainAddr t \<in> nt_neighborMainAddr ` set N"
  shows "\<exists>M coverage'. redundant_loop trust N N2 mprs coverage = Some M \<and> redundant_inv N N2 A M coverage' \<and>
    twice_or_all N2 (set M)"
  using assms(1)
proof (induction "card (nt_neighborMainAddr ` set N - set mprs)" arbitrary: mprs coverage rule: less_induct)
  case less
  show ?case
  proof (cases "find_first (\<lambda>(a, n). n < REDUNDANCY) coverage = None")
    case True
    then have "redundant_loop trust N N2 mprs coverage = Some mprs" by (subst redundant_loop.simps) simp
    then show ?thesis using less.prems redundant_stop [OF less.prems assms(2)] True by blast
  next
    case False
    obtain b c t where b: "redundant_best trust N N2 mprs coverage = (b, c, t)" by (metis prod_cases3)
    note spec = redundant_best_spec [where trust = trust and N = N and ?N2.0 = N2 and mprs = mprs and coverage = coverage,
        unfolded b prod.case]
    show ?thesis
    proof (cases b)
      case None
      then have "redundant_loop trust N N2 mprs coverage = Some mprs"
        using False b by (subst redundant_loop.simps) simp
      moreover have "twice_or_all N2 (set mprs)"
        using redundant_stop [OF less.prems assms(2)] spec None by simp
      ultimately show ?thesis using less.prems by blast
    next
      case (Some nb)
      define a where "a = nt_neighborMainAddr nb"
      have nb: "nb \<in> set N" "a \<notin> set mprs" "0 < newly_covered N2 coverage nb"
        using spec Some by (auto simp: a_def)
      have inv: "redundant_inv N N2 A (set_insert a mprs) (cover_from a N2 coverage)"
        using less.prems nb coverage_ok_cover [of N2 mprs coverage a]
        by (auto simp: redundant_inv_def a_def newly_covered_pos)
      have "card (nt_neighborMainAddr ` set N - set (set_insert a mprs)) < card (nt_neighborMainAddr ` set N - set mprs)"
        using nb by (intro psubset_card_mono) (auto simp: a_def)
      note IH = less.hyps [OF this inv]
      have "redundant_loop trust N N2 mprs coverage =
          redundant_loop trust N N2 (set_insert a mprs) (cover_from a N2 coverage)"
        by (subst redundant_loop.simps, subst if_not_P [OF False]) (simp add: b Some a_def)
      then show ?thesis using IH by simp
    qed
  qed
qed

lemma redundant_start: "coverage_ok N2 [] (fold (\<lambda>t. map_put (th_twoHopNeighborAddr t) 0) N2 [])"
proof -
  have "map_of (fold (\<lambda>t. map_put (th_twoHopNeighborAddr t) (0 :: nat)) M c) x =
      (if x \<in> th_twoHopNeighborAddr ` set M then Some 0 else map_of c x)" for M :: "two_hop_tuple list" and c x
    by (induction M arbitrary: c) auto
  moreover have "wf_map (fold (\<lambda>t. map_put (th_twoHopNeighborAddr t) (0 :: nat)) N2 [])"
    by (rule fold_invariant_rule) auto
  ultimately show ?thesis by (simp add: coverage_ok_def times_covered_def)
qed

definition always_addrs :: "neighbor_tuple list \<Rightarrow> ipv4 set" where
  "always_addrs N = nt_neighborMainAddr ` {nb \<in> set N. nt_willingness nb = WILL_ALWAYS}"

lemma redundant_seed_inv:
  assumes "distinct (map nt_neighborMainAddr N)" and "redundant_seed N N2 = (mprs, coverage)"
  shows "redundant_inv N N2 (always_addrs N) mprs coverage"
proof -
  define step where "step = (\<lambda>nb :: neighbor_tuple. \<lambda>(mprs, coverage). if nt_willingness nb = WILL_ALWAYS
      then (set_insert (nt_neighborMainAddr nb) mprs, cover_from (nt_neighborMainAddr nb) N2 coverage)
      else (mprs, coverage))"
  define c0 where "c0 = fold (\<lambda>t. map_put (th_twoHopNeighborAddr t) (0 :: nat)) N2 []"
  have "distinct (map nt_neighborMainAddr M) \<Longrightarrow>
      case fold step M ([], c0) of (mprs, coverage) \<Rightarrow>
        coverage_ok N2 mprs coverage \<and> wf_set mprs \<and> set mprs = always_addrs M" for M
  proof (induction M rule: rev_induct)
    case Nil
    then show ?case using redundant_start by (simp add: c0_def always_addrs_def)
  next
    case (snoc nb M)
    obtain mprs coverage where M: "fold step M ([], c0) = (mprs, coverage)" by fastforce
    have IH: "coverage_ok N2 mprs coverage" "wf_set mprs" "set mprs = always_addrs M"
      using snoc M by auto
    have "nt_neighborMainAddr nb \<notin> set mprs" using snoc.prems IH(3) by (auto simp: always_addrs_def)
    from coverage_ok_cover [OF IH(1) this] show ?case
      using IH M by (auto simp: step_def always_addrs_def)
  qed
  from this [OF assms(1)] show ?thesis
    using assms(2) unfolding redundant_seed_def Let_def step_def [symmetric] c0_def [symmetric]
    by (simp add: redundant_inv_def)
qed

section \<open>Properties\<close>

text \<open>
  C31: The FPNT-OLSR(R) variant of the MPR selection always ends and covers every 2-hop node twice
  where the topology allows it. Let no two neighbor tuples share a main address. With trust routing on,
  the selected set contains every neighbor of willingness ALWAYS and no neighbor of willingness NEVER,
  and each 2-hop node of the candidate set is reached over two 2-hop tuples of selected neighbors, or
  over all its tuples of the candidate set. The coverage is counted in tuples: these belong to two
  different neighbors when no two 2-hop tuples share both addresses. \<open>ProcessMid\<close> can rename a tuple so
  that it equals another one; then one neighbor is counted twice.
\<close>

theorem redundant_mpr_covers_twice:
  assumes "dv_IsTrustRoutingEnabled v" and "distinct (map nt_neighborMainAddr (m_neighborSet s))"
    and "N = fpnt_N (Some v) s" and "N2 = fpnt_N2 (Some v) mainAddress N s"
  shows "\<exists>M. fpnt_MprSet (Some v) True mainAddress s = Some M \<and> set M \<subseteq> nt_neighborMainAddr ` set N \<and>
    (\<forall>nb\<in>set N. nt_willingness nb = WILL_ALWAYS \<longrightarrow> nt_neighborMainAddr nb \<in> set M) \<and>
    (\<forall>nb\<in>set N. nt_willingness nb = WILL_NEVER \<longrightarrow> nt_neighborMainAddr nb \<notin> set M) \<and>
    (\<forall>t\<in>set N2. let tuples = [u \<leftarrow> N2. th_twoHopNeighborAddr u = th_twoHopNeighborAddr t \<and> th_neighborMainAddr u \<in> set M]
      in (2 \<le> length tuples \<or>
          (\<forall>u\<in>set N2. th_twoHopNeighborAddr u = th_twoHopNeighborAddr t \<longrightarrow> th_neighborMainAddr u \<in> set M)) \<and>
         (distinct (map (\<lambda>t. (th_neighborMainAddr t, th_twoHopNeighborAddr t)) (m_twoHopNeighborSet s)) \<longrightarrow>
          length tuples = card {a \<in> set M. \<exists>u\<in>set N2. th_neighborMainAddr u = a \<and>
                                 th_twoHopNeighborAddr u = th_twoHopNeighborAddr t}))"
proof -
  have dN: "distinct (map nt_neighborMainAddr N)" using assms(2,3) by (simp add: fpnt_N_filter distinct_map_filter)
  have willing: "\<exists>nb\<in>set N. nt_neighborMainAddr nb = th_neighborMainAddr t \<and> nt_willingness nb \<noteq> WILL_NEVER"
    if "t \<in> set N2" for t
    using that assms(4) by (auto simp: fpnt_N2_filter in_N2_def Let_def dest!: find_first_SomeD split: option.splits if_splits)
  obtain mprs coverage where seed: "redundant_seed N N2 = (mprs, coverage)" by fastforce
  have "\<forall>t\<in>set N2. th_neighborMainAddr t \<in> nt_neighborMainAddr ` set N" using willing by force
  from redundant_loop_spec [OF redundant_seed_inv [OF dN seed] this, of "dv_GetNodeTrust v"]
  obtain M c where M: "redundant_loop (dv_GetNodeTrust v) N N2 mprs coverage = Some M"
    "redundant_inv N N2 (always_addrs N) M c" "twice_or_all N2 (set M)" by blast
  have run: "fpnt_MprSet (Some v) True mainAddress s = Some M"
    using assms(1,3,4) M(1) seed by (simp add: fpnt_MprSet_def Let_def)
  have sub: "set M \<subseteq> nt_neighborMainAddr ` set N" using M(2) by (auto simp: redundant_inv_def always_addrs_def)
  have never: "nt_neighborMainAddr nb \<notin> set M" if nb: "nb \<in> set N" "nt_willingness nb = WILL_NEVER" for nb
  proof
    assume "nt_neighborMainAddr nb \<in> set M"
    then obtain nb' where "nb' \<in> set N" "nt_neighborMainAddr nb' = nt_neighborMainAddr nb" "nt_willingness nb' \<noteq> WILL_NEVER"
      using M(2) willing unfolding redundant_inv_def always_addrs_def
      by (force simp: WILL_ALWAYS_def WILL_NEVER_def)
    then show False using nb dN by (metis distinct_map inj_onD)
  qed
  let ?F = "\<lambda>x. [u \<leftarrow> N2. th_twoHopNeighborAddr u = x \<and> th_neighborMainAddr u \<in> set M]"
  have card: "length (?F x) = card {a \<in> set M. \<exists>u\<in>set N2. th_neighborMainAddr u = a \<and> th_twoHopNeighborAddr u = x}"
    if d: "distinct (map (\<lambda>t. (th_neighborMainAddr t, th_twoHopNeighborAddr t)) (m_twoHopNeighborSet s))" for x
  proof -
    have "distinct (map (\<lambda>t. (th_neighborMainAddr t, th_twoHopNeighborAddr t)) N2)"
      using d assms(4) by (simp add: fpnt_N2_filter distinct_map_filter)
    then have inj: "distinct (map th_neighborMainAddr (?F x))" by (auto simp: distinct_map inj_on_def)
    have "{a \<in> set M. \<exists>u\<in>set N2. th_neighborMainAddr u = a \<and> th_twoHopNeighborAddr u = x} = th_neighborMainAddr ` set (?F x)"
      by auto
    then show ?thesis using distinct_card [OF inj] by simp
  qed
  show ?thesis
  proof (intro exI conjI)
    show "fpnt_MprSet (Some v) True mainAddress s = Some M" "set M \<subseteq> nt_neighborMainAddr ` set N" by (fact run, fact sub)
    show "\<forall>nb\<in>set N. nt_willingness nb = WILL_ALWAYS \<longrightarrow> nt_neighborMainAddr nb \<in> set M"
      using M(2) by (auto simp: redundant_inv_def always_addrs_def)
    show "\<forall>nb\<in>set N. nt_willingness nb = WILL_NEVER \<longrightarrow> nt_neighborMainAddr nb \<notin> set M" using never by blast
  qed (use M(3) card in \<open>simp add: Let_def twice_or_all_def times_covered_def REDUNDANCY_def\<close>)
qed

definition two_relays :: olsr_state where
  "two_relays = OlsrState_init\<lparr>
     m_neighborSet := [\<lparr>nt_neighborMainAddr = 2, nt_status = STATUS_SYM, nt_willingness = WILL_DEFAULT\<rparr>,
       \<lparr>nt_neighborMainAddr = 3, nt_status = STATUS_SYM, nt_willingness = WILL_HIGH\<rparr>],
     m_twoHopNeighborSet := [\<lparr>th_neighborMainAddr = 2, th_twoHopNeighborAddr = 9, th_expirationTime = 9\<rparr>,
       \<lparr>th_neighborMainAddr = 3, th_twoHopNeighborAddr = 9, th_expirationTime = 9\<rparr>]\<rparr>"

definition trusting :: defense_view where
  "trusting = \<lparr>dv_IsMalicious = (\<lambda>a. a = 3), dv_IsTrustRoutingEnabled = True, dv_GetNodeTrust = (\<lambda>_. 1 / 2)\<rparr>"

theorem redundant_mpr_covers_twice_witness:
  "\<exists>M. fpnt_MprSet (Some trusting) True 1 two_relays = Some M \<and> 2 \<in> set M \<and> 3 \<in> set M"
proof -
  define N where "N = fpnt_N (Some trusting) two_relays"
  define N2 where "N2 = fpnt_N2 (Some trusting) 1 N two_relays"
  have N: "N = m_neighborSet two_relays"
    by (simp add: N_def fpnt_N_filter two_relays_def blacklisted_def trusting_def)
  have N2: "N2 = m_twoHopNeighborSet two_relays"
    by (simp add: N2_def N fpnt_N2_filter two_relays_def blacklisted_def trusting_def in_N2_def willingness_defs)
  have "dv_IsTrustRoutingEnabled trusting" "distinct (map nt_neighborMainAddr (m_neighborSet two_relays))"
    by (simp_all add: trusting_def two_relays_def)
  from redundant_mpr_covers_twice [OF this N_def N2_def]
  obtain M where M: "fpnt_MprSet (Some trusting) True 1 two_relays = Some M"
    and twice: "\<And>t. t \<in> set N2 \<Longrightarrow>
        2 \<le> length [u \<leftarrow> N2. th_twoHopNeighborAddr u = th_twoHopNeighborAddr t \<and> th_neighborMainAddr u \<in> set M] \<or>
        (\<forall>u\<in>set N2. th_twoHopNeighborAddr u = th_twoHopNeighborAddr t \<longrightarrow> th_neighborMainAddr u \<in> set M)"
    by (auto simp: Let_def)
  have "hd N2 \<in> set N2" by (simp add: N2 two_relays_def)
  from twice [OF this] show ?thesis using M by (auto simp: N2 two_relays_def split: if_splits)
qed

end
