(* ===== verification/Fpnt_Protocol.thy ===== *)
theory Fpnt_Protocol
  imports Fpnt_Routes Fpnt_Codec Fpnt_Mpr Node
begin

text \<open>
  The routing protocol of the FPNT build (src/files for all defenses/FPNT/olsr-routing-protocol.cc)
  where it differs from the standard one: MPR selection and routing by trust, the hooks that feed
  received and sent TC messages, forwarded packets and cross-layer callbacks to the FPNT defense,
  and the filter on control messages. The record \<open>fpnt_proto\<close> adds the FPNT object and the attribute
  \<open>RedundantMprCoverage\<close> to the node of theory \<open>Protocol_State\<close>, whose own \<open>nd_defense\<close> stays
  \<open>None\<close>; the functions whose code is the same in both builds are those of the standard theories.
  The evaluation vectors of a TC message are passed beside it. Hooks with an empty body in
  olsr-defense-fpnt.cc are left out.
\<close>

record fpnt_proto =
  fp_node :: node
  fp_defense :: "fpnt option"
  fp_redundant :: bool

definition on_fpnt :: "(fpnt \<Rightarrow> fpnt) \<Rightarrow> fpnt_proto \<Rightarrow> fpnt_proto" where
  "on_fpnt f p = p\<lparr>fp_defense := map_option f (fp_defense p)\<rparr>"

section \<open>MPR selection and routing table\<close>

definition fpnt_view :: "olsr_state \<Rightarrow> fpnt \<Rightarrow> defense_view" where
  "fpnt_view s d =
     \<lparr>dv_IsMalicious = (\<lambda>a. Fpnt_IsMalicious a d),
      dv_IsTrustRoutingEnabled = Fpnt_IsTrustRoutingEnabled d,
      dv_GetNodeTrust = (\<lambda>a. Fpnt_GetNodeTrust s a d)\<rparr>"

definition Fpnt_MprComputation :: "fpnt_proto \<Rightarrow> fpnt_proto res" where
  "Fpnt_MprComputation p =
     (let nd = fp_node p in
      case fpnt_MprSet (map_option (fpnt_view (nd_state nd)) (fp_defense p)) (fp_redundant p)
             (nd_mainAddress nd) (nd_state nd) of
        None \<Rightarrow> Inl Diverges
      | Some mprSet \<Rightarrow> Inr (p\<lparr>fp_node := on_state (SetMprSet mprSet) nd\<rparr>))"

text \<open>\<open>RunTrustDijkstra\<close> on the node.\<close>

definition trust_routes :: "time \<Rightarrow> fpnt_proto \<Rightarrow> fpnt_proto res" where
  "trust_routes now p =
     (let nd = fp_node p in
      bindR (RunTrustDijkstra now (nd_ifaces nd) (nd_mainAddress nd) (nd_state nd)
               (map_option (\<lambda>d a. Fpnt_GetNodeTrust (nd_state nd) a d) (fp_defense p)) (nd_hnaRoutingTable nd))
        (\<lambda>(t, routes). Inr (p\<lparr>fp_node := nd\<lparr>nd_table := t, nd_hnaRoutingTable := routes\<rparr>\<rparr>)))"

text \<open>The addresses that the standard computation asks \<open>IsMalicious\<close> about and that are malicious.\<close>

definition fpnt_excluded :: "fpnt_proto \<Rightarrow> ipv4 std_set" where
  "fpnt_excluded p =
     (let s = nd_state (fp_node p) in
      case fp_defense p of
        None \<Rightarrow> []
      | Some d \<Rightarrow> filter (\<lambda>a. Fpnt_IsMalicious a d)
                    (map nt_neighborMainAddr (m_neighborSet s) @ map tt_lastAddr (m_topologySet s) @
                     map at_gatewayAddr (m_associationSet s)))"

definition Fpnt_RoutingTableComputation :: "time \<Rightarrow> fpnt_proto \<Rightarrow> fpnt_proto res" where
  "Fpnt_RoutingTableComputation now p =
     (let nd = fp_node p in
      if (case fp_defense p of None \<Rightarrow> False | Some d \<Rightarrow> Fpnt_IsTrustRoutingEnabled d)
      then trust_routes now p
      else bindR (ComputeRoutingTableCore now (nd_ifaces nd) (nd_mainAddress nd) (nd_state nd)
                    (fpnt_excluded p) (nd_hnaRoutingTable nd))
             (\<lambda>(t, routes). Inr (p\<lparr>fp_node := nd\<lparr>nd_table := t, nd_hnaRoutingTable := routes\<rparr>\<rparr>)))"

section \<open>Reception\<close>

definition Fpnt_ProcessHello ::
  "time \<Rightarrow> MessageHeader \<Rightarrow> Hello \<Rightarrow> ipv4 \<Rightarrow> ipv4 \<Rightarrow> fpnt_proto \<Rightarrow> fpnt_proto res" where
  "Fpnt_ProcessHello now msg hello receiverIface senderIface p =
     bindR (LinkSensing now msg hello receiverIface senderIface (fp_node p)) (\<lambda>nd.
     bindR (Fpnt_MprComputation
              (p\<lparr>fp_node := PopulateTwoHopNeighborSet now msg hello (PopulateNeighborSet msg hello nd)\<rparr>))
       (\<lambda>p. Inr (p\<lparr>fp_node := PopulateMprSelectorSet now msg hello (fp_node p)\<rparr>)))"

definition Fpnt_ProcessTc ::
  "time \<Rightarrow> MessageHeader \<Rightarrow> Tc \<Rightarrow> EvaluationVector list \<Rightarrow> ipv4 \<Rightarrow> fpnt_proto \<Rightarrow> fpnt_proto" where
  "Fpnt_ProcessTc now msg tc evs senderIface p =
     (let s = nd_state (fp_node p) in
      if FindSymLinkTuple senderIface now s = None then p
      else if FindNewerTopologyTuple (m_originatorAddress msg) (tc_ansn tc) s \<noteq> None then p
      else
        let p = (if evs \<noteq> []
                 then on_fpnt (Fpnt_OnRecvEvaluationVectors (m_originatorAddress msg) (neighborAddresses tc) evs) p
                 else p)
        in p\<lparr>fp_node := fold (tc_address now msg tc) (neighborAddresses tc)
               (on_state (EraseOlderTopologyTuples (m_originatorAddress msg) (tc_ansn tc)) (fp_node p))\<rparr>)"

definition Fpnt_process_message ::
  "time \<Rightarrow> MessageHeader \<Rightarrow> EvaluationVector list \<Rightarrow> ipv4 \<Rightarrow> ipv4 \<Rightarrow> fpnt_proto \<Rightarrow> fpnt_proto res" where
  "Fpnt_process_message now m evs receiverIface senderIface p =
     (case m_message m of
        HELLO_MESSAGE hello \<Rightarrow> Fpnt_ProcessHello now m hello receiverIface senderIface p
      | TC_MESSAGE tc \<Rightarrow> Inr (Fpnt_ProcessTc now m tc evs senderIface p)
      | MID_MESSAGE mid \<Rightarrow> Inr (p\<lparr>fp_node := ProcessMid now m mid senderIface (fp_node p)\<rparr>)
      | HNA_MESSAGE hna \<Rightarrow> Inr (p\<lparr>fp_node := ProcessHna now m hna senderIface (fp_node p)\<rparr>))"

text \<open>The defense sees every TC message, before the filter and before the duplicate check.\<close>

definition tc_seen :: "time \<Rightarrow> MessageHeader \<Rightarrow> fpnt_proto \<Rightarrow> fpnt_proto" where
  "tc_seen now m p =
     (case m_message m of
        TC_MESSAGE tc \<Rightarrow>
          on_fpnt (Fpnt_OnRecvTc now (nd_tcInterval (fp_node p)) (nd_state (fp_node p))
                     (m_originatorAddress m) (neighborAddresses tc)) p
      | _ \<Rightarrow> p)"

definition silenced :: "MessageHeader \<Rightarrow> ipv4 \<Rightarrow> fpnt_proto \<Rightarrow> bool" where
  "silenced m senderIface p \<longleftrightarrow>
     (case fp_defense p of
        None \<Rightarrow> False
      | Some d \<Rightarrow> \<not> Fpnt_IsTrustRoutingEnabled d \<and>
          (Fpnt_IsMalicious (m_originatorAddress m) d \<or>
           Fpnt_IsMalicious (GetMainAddress senderIface (nd_state (fp_node p))) d))"

definition Fpnt_recv_message ::
  "time \<Rightarrow> ipv4 \<Rightarrow> ipv4 \<Rightarrow> MessageHeader \<times> EvaluationVector list \<Rightarrow> fpnt_proto \<Rightarrow> fpnt_proto res" where
  "Fpnt_recv_message now receiverIface senderIface = (\<lambda>(m, evs) p.
     if m_timeToLive m = 0 \<or> m_originatorAddress m = nd_mainAddress (fp_node p) then Inr p
     else
       let p = tc_seen now m p
       in if silenced m senderIface p then Inr p
          else
            let duplicated = FindDuplicateTuple (m_originatorAddress m) (m_messageSequenceNumber m)
                               (nd_state (fp_node p));
                do_forwarding = (case duplicated of None \<Rightarrow> True | Some d \<Rightarrow> receiverIface \<notin> set (dt_ifaceList d))
            in bindR (if duplicated = None then Fpnt_process_message now m evs receiverIface senderIface p else Inr p)
                 (\<lambda>p. Inr (if do_forwarding \<and> \<not> is_hello m
                           then p\<lparr>fp_node := ForwardDefault now m duplicated receiverIface senderIface (fp_node p)\<rparr>
                           else p)))"

text \<open>What \<open>RecvOlsr\<close> does with the messages of a packet that passed its checks.\<close>

definition Fpnt_recv_packet ::
  "time \<Rightarrow> ipv4 \<Rightarrow> ipv4 \<Rightarrow> (MessageHeader \<times> EvaluationVector list) list \<Rightarrow> fpnt_proto \<Rightarrow> fpnt_proto res" where
  "Fpnt_recv_packet now receiverIface senderIface messages p =
     bindR (foldE (Fpnt_recv_message now receiverIface senderIface) messages p) (Fpnt_RoutingTableComputation now)"

section \<open>The TC message of \<open>SendTc\<close>\<close>

definition fpnt_tc_addresses :: "node \<Rightarrow> ipv4 list" where
  "fpnt_tc_addresses nd =
     (let as = map ms_mainAddr (m_mprSelectorSet (nd_state nd))
      in if nd_isMalicious nd \<and> nd_spoofedLinksCount nd > 0
         then fold push_new (BuildSpoofTargets (nd_spoofedLinksCount nd) nd) as else as)"

definition fpnt_tc_body :: "fpnt_proto \<Rightarrow> Fpnt_Tc" where
  "fpnt_tc_body p =
     (let nd = fp_node p; ns = fpnt_tc_addresses nd
      in \<lparr>neighborAddresses = ns, tc_ansn = nd_ansn (poison_ansn nd),
          evaluationVectors = (case fp_defense p of None \<Rightarrow> [] | Some d \<Rightarrow> Fpnt_GetEvaluationVectors ns d)\<rparr>)"

section \<open>The data plane\<close>

definition fpnt_packet_forwarded :: "time \<Rightarrow> ip_header \<Rightarrow> u32 \<Rightarrow> ipv4 \<Rightarrow> fpnt_proto \<Rightarrow> fpnt_proto" where
  "fpnt_packet_forwarded now header bytes gateway p =
     on_fpnt (Fpnt_OnDataPacketForwarded now (nd_state (fp_node p)) header bytes gateway (ip_destination header)) p"

definition Fpnt_RouteOutput ::
  "time \<Rightarrow> ip_header \<Rightarrow> u32 \<Rightarrow> u32 option \<Rightarrow> fpnt_proto \<Rightarrow> (ipv4_route option \<times> fpnt_proto) res" where
  "Fpnt_RouteOutput now header bytes oif p =
     (let nd = fp_node p; dst = ip_destination header in
      case Lookup dst (nd_table nd) of
        Some entry1 \<Rightarrow>
          bindR (send_entry entry1 nd) (\<lambda>entry2.
          if oif \<noteq> None \<and> oif \<noteq> Some (rt_interface entry2) then Inr (None, p)
          else bindR (make_route dst entry2 nd) (\<lambda>rtentry.
               Inr (Some rtentry, fpnt_packet_forwarded now header bytes (ro_gateway rtentry) p)))
      | None \<Rightarrow>
          bindR (SR_RouteOutput (nd_ifaces nd) dst oif (nd_hnaRoutingTable nd)) (\<lambda>route.
          case route of
            Some rtentry \<Rightarrow> Inr (Some rtentry, fpnt_packet_forwarded now header bytes (ro_gateway rtentry) p)
          | None \<Rightarrow> Inr (None, p)))"

definition Fpnt_RouteInput ::
  "time \<Rightarrow> ipv4_config \<Rightarrow> bool \<Rightarrow> ip_header \<Rightarrow> u32 \<Rightarrow> u32 option \<Rightarrow> fpnt_proto \<Rightarrow> (verdict \<times> fpnt_proto) res"
where
  "Fpnt_RouteInput now cfg lcb header bytes idev p =
     (let nd = fp_node p; dst = ip_destination header in
      if IsMyOwnAddress (ip_source header) nd then Inr (Consumed, p)
      else case idev of
        None \<Rightarrow> Inl Assertion_failed
      | Some iif \<Rightarrow>
          bindR (IsDestinationAddress (nd_ifaces nd) cfg dst iif) (\<lambda>mine.
          if mine then Inr (if lcb then Delivered iif else Not_handled, p)
          else if nd_isMalicious nd then Inr (Consumed, p)
          else case Lookup dst (nd_table nd) of
            Some entry1 \<Rightarrow>
              bindR (send_entry entry1 nd) (\<lambda>entry2.
              bindR (make_route dst entry2 nd) (\<lambda>rtentry.
              Inr (Forwarded rtentry, fpnt_packet_forwarded now header bytes (ro_gateway rtentry) p)))
          | None \<Rightarrow>
              bindR (SR_RouteInput (nd_ifaces nd) cfg lcb dst idev (nd_hnaRoutingTable nd)) (\<lambda>v.
              Inr (v, p))))"

section \<open>Timer and cross-layer callbacks\<close>

definition Fpnt_HandleDefenseTimer :: "time \<Rightarrow> fpnt_proto \<Rightarrow> fpnt_proto res" where
  "Fpnt_HandleDefenseTimer now p =
     (case fp_defense p of
        None \<Rightarrow> Inr p
      | Some d \<Rightarrow>
          bindR (Fpnt_PeriodicCheck now (nd_tcInterval (fp_node p)) (nd_state (fp_node p)) d) (\<lambda>(d, reroute).
          bindR (let p = p\<lparr>fp_defense := Some d\<rparr> in if reroute then trust_routes now p else Inr p) (\<lambda>p.
          bindR (restart (nd_defenseTimer (fp_node p)) (\<lambda>t. (fp_node p)\<lparr>nd_defenseTimer := t\<rparr>)
                   (now + f_checkInterval d)) (\<lambda>nd.
          Inr (p\<lparr>fp_node := nd\<rparr>)))))"

text \<open>
  \<open>header\<close> is the IPv4 header behind the MAC and LLC headers, \<open>None\<close> when there is none, \<open>bytes\<close> the
  size of what is left; \<open>ownMacs\<close> are the MAC addresses of the node's WiFi devices.
\<close>

definition Fpnt_MonitorSnifferRx ::
  "time \<Rightarrow> mac_env \<Rightarrow> mac list \<Rightarrow> bool \<Rightarrow> mac \<Rightarrow> mac \<Rightarrow> ip_header option \<Rightarrow> u32 \<Rightarrow> fpnt_proto \<Rightarrow> fpnt_proto" where
  "Fpnt_MonitorSnifferRx now env ownMacs isData transmitter receiver header bytes p =
     (if fp_defense p = None then p
      else if \<not> isData then p
      else if transmitter \<in> set ownMacs then p
      else if header = None then p
      else on_fpnt (Fpnt_OnNeighborForwardedPacket now env (nd_state (fp_node p)) transmitter receiver header bytes) p)"

text \<open>The neighbor of a MAC address in the ARP caches; 0.0.0.0 when there is none.\<close>

fun drop_neighbor :: "mac \<Rightarrow> neighbor_tuple list \<Rightarrow> arp_cache option list \<Rightarrow> ipv4" where
  "drop_neighbor nextHopMac neighbors [] = ipv4_any"
| "drop_neighbor nextHopMac neighbors (None # ifaces) = drop_neighbor nextHopMac neighbors ifaces"
| "drop_neighbor nextHopMac neighbors (Some arp # ifaces) =
     (case find_first (arp_match nextHopMac arp) neighbors of
        None \<Rightarrow> drop_neighbor nextHopMac neighbors ifaces
      | Some nb \<Rightarrow>
          if nt_neighborMainAddr nb = ipv4_any then drop_neighbor nextHopMac neighbors ifaces
          else nt_neighborMainAddr nb)"

definition Fpnt_MacTxDrop ::
  "bool \<Rightarrow> mac option \<Rightarrow> arp_cache option list option \<Rightarrow> fpnt_proto \<Rightarrow> fpnt_proto" where
  "Fpnt_MacTxDrop retry_limit mpdu interfaces p =
     (if \<not> retry_limit then p
      else case mpdu of
        None \<Rightarrow> p
      | Some nextHopMac \<Rightarrow>
          if nextHopMac = mac_broadcast \<or> mac_IsGroup nextHopMac then p
          else
            let neighbor = (case interfaces of None \<Rightarrow> ipv4_any
                            | Some ifaces \<Rightarrow> drop_neighbor nextHopMac (m_neighborSet (nd_state (fp_node p))) ifaces)
            in if neighbor = ipv4_any then p else on_fpnt (Fpnt_OnMacTxFailure neighbor 1) p)"

end
