(* ===== verification/Fpnt_Protocol_Properties.thy ===== *)
theory Fpnt_Protocol_Properties
  imports Fpnt_Protocol Message_Properties
begin

text \<open>
  Properties of the FPNT build as a whole: the verdicts leave the OLSR information base alone, the
  opinions of one node reach the aggregation of another unchanged, packets follow the best trusted
  path, and the bookkeeping of failed transmissions.
\<close>

section \<open>The control plane\<close>

definition project :: "fpnt_proto res \<Rightarrow> node res" where
  "project r = bindR r (\<lambda>p. Inr (fp_node p))"

lemma project_simps [simp]:
  "project (Inr p) = Inr (fp_node p)" "project (Inl e) = Inl e"
  "project (bindR r f) = bindR r (\<lambda>p. project (f p))"
  by (simp_all add: project_def) (cases r; simp)

lemma bindR_Inr [simp]: "bindR r Inr = r"
  by (cases r) simp_all

lemma bindR_assoc: "bindR (bindR r f) g = bindR r (\<lambda>x. bindR (f x) g)"
  by (cases r) simp_all

lemma not_blacklisted [simp]:
  "\<not> blacklisted (map_option (fpnt_view s) d) a"
  by (auto simp: blacklisted_def fpnt_view_def Fpnt_IsMalicious_def Fpnt_IsTrustRoutingEnabled_def split: option.splits)

lemma fpnt_MprSet_standard:
  "fpnt_MprSet (map_option (fpnt_view s) d) False mainAddress s = MprSet None mainAddress s"
proof -
  have "fpnt_N (map_option (fpnt_view s) d) s = mpr_N s"
    by (simp add: fpnt_N_filter mpr_N_filter)
  moreover have "fpnt_N2 (map_option (fpnt_view s) d) mainAddress (mpr_N s) s = mpr_N2 mainAddress s"
    by (simp add: fpnt_N2_filter mpr_N2_filter)
  moreover have "mpr_backup None s = id" by (auto simp: mpr_backup_def)
  ultimately show ?thesis
    by (auto simp: fpnt_MprSet_def MprSet_def Let_def option.map_id split: prod.splits option.splits)
qed

lemma project_MprComputation:
  assumes "nd_defense (fp_node p) = None" and "\<not> fp_redundant p"
  shows "project (Fpnt_MprComputation p) = MprComputation (fp_node p)"
  using assms by (simp add: Fpnt_MprComputation_def MprComputation_def suspicion_def fpnt_MprSet_standard
      Let_def split: option.split)

lemma nd_defense_fold: "(\<And>x nd. nd_defense (f x nd) = nd_defense nd) \<Longrightarrow> nd_defense (fold f xs nd) = nd_defense nd"
  by (induction xs arbitrary: nd) simp_all

lemma nd_defense_populate:
  "nd_defense (PopulateTwoHopNeighborSet now msg hello (PopulateNeighborSet msg hello nd)) = nd_defense nd"
proof -
  have "nd_defense (two_hop_address now msg nt a nd) = nd_defense nd" for nt a nd
    by (simp add: two_hop_address_def AddTwoHopNeighborTuple_def schedule_def on_state_def Let_def split: option.split)
  then have "nd_defense (PopulateTwoHopNeighborSet now msg hello nd) = nd_defense nd" for nd
    unfolding PopulateTwoHopNeighborSet_def by (intro nd_defense_fold) (simp add: nd_defense_fold)
  then show ?thesis by (simp add: PopulateNeighborSet_def on_state_def)
qed

text \<open>What a reception keeps of the record: the switch, and that the base node has no strategy.\<close>

definition standard_proto :: "fpnt_proto \<Rightarrow> bool" where
  "standard_proto p \<longleftrightarrow> nd_defense (fp_node p) = None \<and> \<not> fp_redundant p"

lemma project_ProcessHello:
  assumes "standard_proto p"
  shows "project (Fpnt_ProcessHello now msg hello ri si p) = ProcessHello now msg hello ri si (fp_node p)"
proof (cases "LinkSensing now msg hello ri si (fp_node p)")
  case (Inr nd)
  define nd1 where "nd1 = PopulateTwoHopNeighborSet now msg hello (PopulateNeighborSet msg hello nd)"
  have "nd_defense nd1 = None"
    using info_only_fields(3) [OF info_only_LinkSensing [OF Inr]] assms
    by (simp add: nd1_def nd_defense_populate standard_proto_def)
  then have "project (Fpnt_MprComputation (p\<lparr>fp_node := nd1\<rparr>)) = MprComputation nd1"
    using project_MprComputation [of "p\<lparr>fp_node := nd1\<rparr>"] assms by (simp add: standard_proto_def)
  then have "MprComputation nd1 = bindR (Fpnt_MprComputation (p\<lparr>fp_node := nd1\<rparr>)) (\<lambda>p. Inr (fp_node p))"
    by (simp add: project_def)
  then show ?thesis
    by (simp add: Fpnt_ProcessHello_def ProcessHello_def Inr nd1_def [symmetric] bindR_assoc)
qed (simp add: Fpnt_ProcessHello_def ProcessHello_def)

lemma not_silenced: "\<not> silenced m si p"
  by (auto simp: silenced_def Fpnt_IsMalicious_def Fpnt_IsTrustRoutingEnabled_def split: option.splits)

lemma fp_node_on_fpnt [simp]: "fp_node (on_fpnt f p) = fp_node p" "fp_redundant (on_fpnt f p) = fp_redundant p"
  by (simp_all add: on_fpnt_def)

lemma tc_seen_fields [simp]: "fp_node (tc_seen now m p) = fp_node p" "fp_redundant (tc_seen now m p) = fp_redundant p"
  by (simp_all add: tc_seen_def split: msg_body.split)

lemma project_process_message:
  assumes "standard_proto p"
  shows "project (Fpnt_process_message now m evs ri si p) = process_message now m ri si (fp_node p)"
  using project_ProcessHello [OF assms]
  by (simp add: Fpnt_process_message_def process_message_def Fpnt_ProcessTc_def ProcessTc_def Let_def
      split: msg_body.split)

lemma project_recv_message:
  assumes "standard_proto p"
  shows "project (Fpnt_recv_message now ri si (m, evs) p) = recv_message now ri si m (fp_node p)"
proof -
  define p1 where "p1 = tc_seen now m p"
  have p1: "standard_proto p1" "fp_node p1 = fp_node p" using assms by (simp_all add: p1_def standard_proto_def)
  have hello: "on_defense f (fp_node p) = fp_node p" for f
    using assms by (simp add: on_defense_def standard_proto_def)
  have "process_message now m ri si (fp_node p) =
      bindR (Fpnt_process_message now m evs ri si p1) (\<lambda>p. Inr (fp_node p))"
    using project_process_message [OF p1(1), of now m evs ri si] p1(2) by (simp add: project_def)
  then show ?thesis
    by (simp add: Fpnt_recv_message_def recv_message_def p1_def [symmetric] p1(2) not_silenced hello Let_def bindR_assoc)
qed

lemma standard_proto_step:
  assumes "standard_proto p" and "Fpnt_recv_message now ri si (m, evs) p = Inr p'"
  shows "standard_proto p'"
proof -
  have run: "recv_message now ri si m (fp_node p) = Inr (fp_node p')"
    using project_recv_message [OF assms(1), of now ri si m evs] assms(2) by simp
  have hello: "on_defense f (fp_node p) = fp_node p" for f
    using assms by (simp add: on_defense_def standard_proto_def)
  have fwd: "nd_defense (ForwardDefault now m dup ri si nd) = nd_defense nd" for dup nd
    by (simp add: ForwardDefault_def schedule_def AddDuplicateTuple_def on_state_def QueueMessage_def JITTER_def
        Let_def split: option.split)
  have "fp_node p' = fp_node p \<or> (\<exists>nd1 dup. (process_message now m ri si (fp_node p) = Inr nd1 \<or> nd1 = fp_node p) \<and>
      (fp_node p' = nd1 \<or> fp_node p' = ForwardDefault now m dup ri si nd1))"
    using run hello by (auto simp: recv_message_def Let_def res_simps split: if_splits; metis)
  then have "nd_defense (fp_node p') = nd_defense (fp_node p)"
    using fwd info_only_fields(3) [OF info_only_process_message] by metis
  then have "nd_defense (fp_node p') = None" using assms(1) by (simp add: standard_proto_def)
  moreover have "fp_redundant p' = fp_redundant p"
    using assms(2)
    by (auto simp: Fpnt_recv_message_def Fpnt_process_message_def Fpnt_ProcessHello_def Fpnt_MprComputation_def
        Fpnt_ProcessTc_def Let_def res_simps split: if_splits msg_body.splits option.splits)
  ultimately show ?thesis using assms(1) by (simp add: standard_proto_def)
qed

lemma foldE_Nil_Inr: "foldE f [] = Inr"
  by (rule ext) simp

section \<open>Properties\<close>

text \<open>
  C19: The verdicts of the FPNT defense never touch the OLSR information base. Without the redundant
  MPR variant, the messages of a packet change a node of the FPNT build, whatever its defense
  believes, exactly as they change a standard node without defense: links, neighbors, MPRs,
  topology, duplicates, queued messages and the errors are the same, no message is filtered, and
  trust acts on the routing table alone.
\<close>

theorem fpnt_control_plane_standard:
  assumes "nd_defense (fp_node p) = None" and "\<not> fp_redundant p"
  shows "bindR (foldE (Fpnt_recv_message now receiverIface senderIface) messages p) (\<lambda>p. Inr (fp_node p)) =
    foldE (recv_message now receiverIface senderIface) (map fst messages) (fp_node p)"
proof -
  have "standard_proto p" using assms by (simp add: standard_proto_def)
  then have "project (foldE (Fpnt_recv_message now receiverIface senderIface) messages p) =
      foldE (recv_message now receiverIface senderIface) (map fst messages) (fp_node p)"
  proof (induction messages arbitrary: p)
    case (Cons x messages)
    obtain m evs where x: "x = (m, evs)" by fastforce
    note step = project_recv_message [OF Cons.prems, of now receiverIface senderIface m evs]
    show ?case
    proof (cases "Fpnt_recv_message now receiverIface senderIface (m, evs) p")
      case (Inr p')
      then show ?thesis using Cons.IH [OF standard_proto_step [OF Cons.prems Inr]] step x by (simp flip: step)
    qed (use step x in \<open>simp flip: step\<close>)
  qed simp
  then show ?thesis by (simp add: project_def)
qed

definition lone_node :: "olsr_state \<Rightarrow> node" where
  "lone_node s = (RoutingProtocol_init (\<lambda>_. 0))\<lparr>nd_mainAddress := 1, nd_ifaces := example_ifaces, nd_state := s\<rparr>"

definition mesh_node :: fpnt_proto where
  "mesh_node = \<lparr>fp_node = lone_node mesh, fp_defense = Some suspicious, fp_redundant = False\<rparr>"

definition mesh_tc :: MessageHeader where
  "mesh_tc = \<lparr>m_vTime = 0x86, m_originatorAddress = 4, m_timeToLive = 9, m_hopCount = 1,
     m_messageSequenceNumber = 3, m_messageSize = 0,
     m_message = TC_MESSAGE \<lparr>neighborAddresses = [5, 7], tc_ansn = 2\<rparr>\<rparr>"

theorem fpnt_control_plane_standard_witness:
  "bindR (foldE (Fpnt_recv_message 5 1 2) [(mesh_tc, [EvaluationVector_init, EvaluationVector_init])] mesh_node)
     (\<lambda>p. Inr (fp_node p)) = recv_message 5 1 2 mesh_tc (lone_node mesh)"
proof -
  have "nd_defense (fp_node mesh_node) = None" "\<not> fp_redundant mesh_node"
    by (simp_all add: mesh_node_def lone_node_def RoutingProtocol_init_def)
  from fpnt_control_plane_standard [OF this, of 5 1 2 "[(mesh_tc, [EvaluationVector_init, EvaluationVector_init])]"]
  show ?thesis by (simp add: mesh_node_def foldE_Nil_Inr)
qed

section \<open>Opinions\<close>

definition unknown_opinion :: EvaluationVector where
  "unknown_opinion = EvaluationVector_init\<lparr>ev_trust := 0, ev_distrust := 0, ev_uncertain := 255\<rparr>"

definition opinion_of :: "fpnt \<Rightarrow> ipv4 \<Rightarrow> EvaluationVector" where
  "opinion_of d a = (case map_of (f_directEvaluationVectors d) a of Some ev \<Rightarrow> ev | None \<Rightarrow> unknown_opinion)"

lemma fold_recommendations:
  "map_of (fold (\<lambda>(target, ev). map_put (a, target) ev) (zip ns (map f ns)) m) (b, n) =
     (if b = a \<and> n \<in> set ns then Some (f n) else map_of m (b, n))"
  by (induction ns arbitrary: m) auto

text \<open>
  C11: The opinions of one node reach another one unchanged. When a node with the defense on announces
  MPR selectors, its TC body decodes to itself at every receiver; a receiver that accepts the
  message (symmetric sender, sequence number not outdated) then holds, under the originator's
  address, exactly the sender's direct evaluation of every advertised node, and the vector
  (0, 0, 255) for nodes the sender has no evaluation of; recommendations of others are untouched. A
  receiver that discards the message learns nothing.
\<close>

theorem opinions_travel:
  assumes "fp_defense sender = Some dS" and "f_enabled dS"
    and "\<forall>(a, ev)\<in>set (f_directEvaluationVectors dS). ev_reserved ev = 0"
    and "tc = fpnt_tc_body sender" and "length (neighborAddresses tc) < 8190"
    and "fp_defense receiver = Some dR"
    and "accepted \<longleftrightarrow> FindSymLinkTuple senderIface now (nd_state (fp_node receiver)) \<noteq> None \<and>
      FindNewerTopologyTuple (m_originatorAddress msg) (tc_ansn tc) (nd_state (fp_node receiver)) = None"
  shows "FpntTc_Deserialize (FpntTc_Serialize tc @ rest) (FpntTc_GetSerializedSize tc) =
      Inr (tc, FpntTc_GetSerializedSize tc) \<and>
    (\<exists>d. fp_defense (Fpnt_ProcessTc now msg (Tc.truncate tc) (evaluationVectors tc) senderIface receiver) = Some d \<and>
       (\<forall>a n. map_of (f_recommendations d) (a, n) =
          (if accepted \<and> a = m_originatorAddress msg \<and> n \<in> set (neighborAddresses tc) then Some (opinion_of dS n)
           else map_of (f_recommendations dR) (a, n))))"
proof -
  have evs: "evaluationVectors tc = map (opinion_of dS) (neighborAddresses tc)"
    using assms(1,2,4)
    by (auto simp: fpnt_tc_body_def Fpnt_GetEvaluationVectors_def opinion_of_def unknown_opinion_def Let_def
        split: option.split)
  have reserved: "ev_reserved (opinion_of dS n) = 0" for n
    using assms(3) by (auto simp: opinion_of_def unknown_opinion_def EvaluationVector_init_def
        split: option.split dest!: map_of_SomeD)
  have "vectors_match tc" using evs reserved by (auto simp: vectors_match_def)
  moreover have "length (FpntTc_Serialize tc) < 65524"
    using assms(5) evs by (simp add: length_FpntTc_Serialize)
  ultimately have codec: "FpntTc_Deserialize (FpntTc_Serialize tc @ rest) (FpntTc_GetSerializedSize tc) =
      Inr (tc, FpntTc_GetSerializedSize tc)"
    using FpntTc_reads_back [of tc rest] by blast
  have ns: "neighborAddresses (Tc.truncate tc) = neighborAddresses tc" "tc_ansn (Tc.truncate tc) = tc_ansn tc"
    by (simp_all add: Tc.truncate_def)
  show ?thesis
  proof (cases accepted)
    case False
    then show ?thesis using codec assms(6,7) by (auto simp: Fpnt_ProcessTc_def Let_def ns)
  next
    case True
    then show ?thesis using codec assms(6,7)
      by (auto simp: Fpnt_ProcessTc_def Let_def ns evs on_fpnt_def Fpnt_OnRecvEvaluationVectors_def
          fold_recommendations)
  qed
qed

definition mesh_relay :: fpnt_proto where
  "mesh_relay = \<lparr>fp_node = (lone_node (OlsrState_init\<lparr>m_mprSelectorSet := [\<lparr>ms_mainAddr = 5, ms_expirationTime = 9\<rparr>]\<rparr>))
       \<lparr>nd_mainAddress := 4, nd_ansn := 7\<rparr>,
     fp_defense = Some (Fpnt_init\<lparr>f_directEvaluationVectors := [(5, EvaluationVector_init\<lparr>ev_distrust := 200\<rparr>)]\<rparr>),
     fp_redundant = False\<rparr>"

theorem opinions_travel_witness:
  "\<exists>d. fp_defense (Fpnt_ProcessTc 5 mesh_tc (Tc.truncate (fpnt_tc_body mesh_relay))
      (evaluationVectors (fpnt_tc_body mesh_relay)) 2 mesh_node) = Some d \<and>
    map_of (f_recommendations d) (4, 5) = Some (EvaluationVector_init\<lparr>ev_distrust := 200\<rparr>)"
proof -
  define dS where "dS = Fpnt_init\<lparr>f_directEvaluationVectors := [(5, EvaluationVector_init\<lparr>ev_distrust := 200\<rparr>)]\<rparr>"
  define tc where "tc = fpnt_tc_body mesh_relay"
  have tc: "neighborAddresses tc = [5]" "tc_ansn tc = 7"
    by (simp_all add: tc_def fpnt_tc_body_def fpnt_tc_addresses_def poison_ansn_def mesh_relay_def
        lone_node_def RoutingProtocol_init_def Let_def)
  have acc: "FindSymLinkTuple 2 5 (nd_state (fp_node mesh_node)) \<noteq> None \<and>
      FindNewerTopologyTuple (m_originatorAddress mesh_tc) (tc_ansn tc) (nd_state (fp_node mesh_node)) = None"
    by (simp add: tc mesh_node_def lone_node_def mesh_tc_def FindSymLinkTuple_def FindNewerTopologyTuple_def
        mesh_fields mesh_link_def) (simp add: mesh_def OlsrState_init_def)
  have "fp_defense mesh_relay = Some dS" "f_enabled dS"
    "\<forall>(a, ev)\<in>set (f_directEvaluationVectors dS). ev_reserved ev = 0" "length (neighborAddresses tc) < 8190"
    by (simp_all add: mesh_relay_def dS_def Fpnt_init_def tc EvaluationVector_init_def)
  from opinions_travel [OF this(1-3) tc_def this(4), of mesh_node suspicious True 2 5 mesh_tc "[]"]
  have "\<exists>d. fp_defense (Fpnt_ProcessTc 5 mesh_tc (Tc.truncate tc) (evaluationVectors tc) 2 mesh_node) = Some d \<and>
      map_of (f_recommendations d) (4, 5) = Some (opinion_of dS 5)"
    using acc by (auto simp: mesh_node_def mesh_tc_def tc)
  moreover have "opinion_of dS 5 = EvaluationVector_init\<lparr>ev_distrust := 200\<rparr>"
    by (simp add: opinion_of_def dS_def)
  ultimately show ?thesis by (simp add: tc_def)
qed

section \<open>The data plane\<close>

text \<open>
  C10: Packets of the FPNT build follow a best trusted path. Let the routing table be computed at time
  \<open>now\<close> with the defense on, let every link of the node lead to the main address of a neighbor (without
  that the program may stop, as \<open>secondary_interface_unresolved\<close> shows), and let every interface of the
  node have one address (and let there be fewer than \<open>2 ^ 32 - 1\<close> nodes). Then at any later time, as long as the table is the same, every packet for a
  destination in the table is handed to the first hop of a path that no other path beats in trust, over
  a link that was symmetric when the table was computed. This holds for the packets that the node
  itself sends and for those that an honest node relays; the only other effect is that the defense
  counts the packet for exactly that next hop.
\<close>

theorem packets_follow_best_path:
  assumes "Fpnt_RoutingTableComputation now p0 = Inr p" and "fp_defense p0 = Some d" and "fpnt_ok d" and "f_enabled d"
    and "nd = fp_node p" and "s = nd_state nd" and "few_nodes (nd_mainAddress nd) s"
    and "\<forall>l\<in>set (m_linkSet s). GetMainAddress (lt_neighborIfaceAddr l) s = lt_neighborIfaceAddr l"
    and "list_all (\<lambda>as. length as = 1) (nd_ifaces nd)" and "length (nd_ifaces nd) < 2 ^ 32"
    and "dst = ip_destination header" and "Lookup dst (nd_table nd) \<noteq> None"
  shows "\<exists>r q l. (\<not> IsMyOwnAddress (ip_source header) nd \<and> \<not> nd_isMalicious nd \<and>
      IsDestinationAddress (nd_ifaces nd) cfg dst iif = Inr False \<longrightarrow>
      Fpnt_RouteInput t cfg lcb header bytes (Some iif) p =
        Inr (Forwarded r, on_fpnt (Fpnt_OnDataPacketForwarded t s header bytes (hd q) dst) p)) \<and>
    Fpnt_RouteOutput t header bytes None p =
      Inr (Some r, on_fpnt (Fpnt_OnDataPacketForwarded t s header bytes (hd q) dst) p) \<and>
    best_path (traversed_trust (nd_mainAddress nd) (Some (\<lambda>a. Fpnt_GetNodeTrust s a d)))
      (olsr_edge (nd_mainAddress nd) s) (nd_mainAddress nd) q dst \<and>
    ro_destination r = dst \<and> ro_gateway r = hd q \<and>
    l \<in> set (m_linkSet s) \<and> lt_neighborIfaceAddr l = hd q \<and> now \<le> lt_symTime l \<and>
    find_interface (lt_localIfaceAddr l) 0 (nd_ifaces nd) = Some (ro_oif r)"
proof -
  let ?trust = "Some (\<lambda>a. Fpnt_GetNodeTrust s a d)"
  obtain tab routes where run: "RunTrustDijkstra now (nd_ifaces (fp_node p0)) (nd_mainAddress (fp_node p0))
      (nd_state (fp_node p0)) (Some (\<lambda>a. Fpnt_GetNodeTrust (nd_state (fp_node p0)) a d))
      (nd_hnaRoutingTable (fp_node p0)) = Inr (tab, routes)"
    and p: "p = p0\<lparr>fp_node := (fp_node p0)\<lparr>nd_table := tab, nd_hnaRoutingTable := routes\<rparr>\<rparr>"
    using assms(1,2,4) by (auto simp: Fpnt_RoutingTableComputation_def Fpnt_IsTrustRoutingEnabled_def
        trust_routes_def Let_def res_simps)
  have same: "nd_ifaces (fp_node p0) = nd_ifaces nd" "nd_mainAddress (fp_node p0) = nd_mainAddress nd"
    "nd_state (fp_node p0) = s" "nd_table nd = tab"
    using assms(5,6) by (simp_all add: p)
  have table: "trust_table now (nd_ifaces nd) (nd_mainAddress nd) s ?trust tab"
    using RunTrustDijkstra_table [OF Fpnt_trust_nonneg [OF assms(3)] assms(7)] run same by (metis Inr_inject Pair_inject)
  obtain e where e: "Lookup dst tab = Some e" using assms(12) same by auto
  obtain q a i where q: "best_path (traversed_trust (nd_mainAddress nd) ?trust)
      (olsr_edge (nd_mainAddress nd) s) (nd_mainAddress nd) q dst" "td_link now (nd_ifaces nd) s (hd q) = Some (a, i)"
    "e = \<lparr>rt_destAddr = dst, rt_nextAddr = a, rt_interface = i, rt_distance = of_nat (length q)\<rparr>"
    "Lookup (hd q) tab = Some \<lparr>rt_destAddr = hd q, rt_nextAddr = a, rt_interface = i, rt_distance = 1\<rparr>"
    using trust_table_entry [OF table e] by metis
  obtain l where l: "l \<in> set (m_linkSet s)" "GetMainAddress a s = hd q" "now \<le> lt_symTime l"
    "a = lt_neighborIfaceAddr l" "find_interface (lt_localIfaceAddr l) 0 (nd_ifaces nd) = Some i"
    using td_link_Some [OF q(2)] by metis
  have a: "a = hd q" using l assms(8) by metis
  define e2 where "e2 = \<lparr>rt_destAddr = a, rt_nextAddr = a, rt_interface = i,
      rt_distance = (if dst = a then of_nat (length q) else 1)\<rparr>"
  have "FindSendEntry tab e2 = Some (Some e2)" by (subst FindSendEntry.simps) (simp add: e2_def)
  then have "FindSendEntry tab e = Some (Some e2)"
    using q(3,4) a by (subst FindSendEntry.simps) (auto simp: e2_def)
  then have send: "send_entry e nd = Inr e2" using same by (simp add: send_entry_def)
  have "unat i < length (nd_ifaces nd)" using find_interface_range [OF l(5)] assms(10) by simp
  then obtain x m where "GetInterface (nd_ifaces nd) i = Inr [(x, m)]"
    using GetInterface_single [OF assms(9)] by blast
  then obtain r where r: "make_route dst e2 nd = Inr r" "ro_destination r = dst" "ro_gateway r = a" "ro_oif r = i"
    by (auto simp: make_route_def e2_def)
  have "Lookup dst (nd_table (fp_node p)) = Some e" using e same assms(5) by simp
  then show ?thesis using send r assms(5,6,11) q(1) l a
    by (intro exI [of _ r] exI [of _ q] exI [of _ l])
      (simp add: Fpnt_RouteInput_def Fpnt_RouteOutput_def fpnt_packet_forwarded_def Let_def)
qed

definition strong_cfg :: ipv4_config where
  "strong_cfg = \<lparr>ic_strongEndSystem = True, ic_forwarding = [True, True]\<rparr>"

definition transit_header :: ip_header where
  "transit_header = \<lparr>ip_source = 9, ip_destination = 6, ip_identification = 1, ip_payloadSize = 64\<rparr>"

lemma mesh_sets: "m_neighborSet mesh = [mesh_neighbor 2, mesh_neighbor 3]"
    "map th_neighborMainAddr (m_twoHopNeighborSet mesh) = [2, 3]"
    "map th_twoHopNeighborAddr (m_twoHopNeighborSet mesh) = [4, 5]"
  by (simp_all add: mesh_def OlsrState_init_def)

definition routed_node :: fpnt_proto where
  "routed_node = mesh_node\<lparr>fp_node := (lone_node mesh)\<lparr>nd_table := mesh_table\<rparr>\<rparr>"

lemma mesh_node_routes: "Fpnt_RoutingTableComputation 5 mesh_node = Inr routed_node"
proof -
  show ?thesis using suspicious_run
    by (simp add: Fpnt_RoutingTableComputation_def trust_routes_def mesh_node_def lone_node_def RoutingProtocol_init_def
        routed_node_def Fpnt_IsTrustRoutingEnabled_def suspicious_def Fpnt_init_def Let_def)
qed

theorem packets_follow_best_path_witness:
  "\<exists>r q. Fpnt_RouteInput 6 strong_cfg True transit_header 84 (Some 1) routed_node =
     Inr (Forwarded r, on_fpnt (Fpnt_OnDataPacketForwarded 6 mesh transit_header 84 (hd q) 6) routed_node) \<and>
     Fpnt_RouteOutput 6 transit_header 84 None routed_node =
     Inr (Some r, on_fpnt (Fpnt_OnDataPacketForwarded 6 mesh transit_header 84 (hd q) 6) routed_node) \<and>
     path_to (olsr_edge 1 mesh) 1 q 6 \<and> ro_gateway r = hd q"
proof -
  have defs: "fp_defense mesh_node = Some suspicious" "fpnt_ok suspicious" "f_enabled suspicious"
    by (simp_all add: mesh_node_def suspicious_def fpnt_ok_def params_ok_def Fpnt_init_def unit_def)
  have nd: "nd_ifaces (fp_node routed_node) = example_ifaces" "nd_mainAddress (fp_node routed_node) = 1"
    "nd_state (fp_node routed_node) = mesh" "nd_table (fp_node routed_node) = mesh_table"
    "\<not> nd_isMalicious (fp_node routed_node)" "nd_sendSockets (fp_node routed_node) = []"
    by (simp_all add: routed_node_def mesh_node_def lone_node_def RoutingProtocol_init_def)
  have links: "\<forall>l\<in>set (m_linkSet mesh). GetMainAddress (lt_neighborIfaceAddr l) mesh = lt_neighborIfaceAddr l"
    by (simp add: mesh_fields mesh_link_def GetMainAddress_def FindIfaceAssocTuple_def)
  have rest: "list_all (\<lambda>as. length as = 1) example_ifaces" "length example_ifaces < 2 ^ 32"
    "Lookup (ip_destination transit_header) mesh_table \<noteq> None"
    by (simp_all add: example_ifaces_def Lookup_def mesh_table_def transit_header_def)
  have own: "\<not> IsMyOwnAddress (ip_source transit_header) (fp_node routed_node)"
    by (simp add: IsMyOwnAddress_def nd)
  have dest: "IsDestinationAddress example_ifaces strong_cfg (ip_destination transit_header) 1 = Inr False"
    by code_simp
  have "few_nodes 1 mesh" by (rule mesh_ok)
  from packets_follow_best_path [OF mesh_node_routes defs refl refl, unfolded nd, OF this links rest(1,2) refl rest(3),
      of strong_cfg 1 6 True 84]
  obtain r q where "Fpnt_RouteInput 6 strong_cfg True transit_header 84 (Some 1) routed_node =
      Inr (Forwarded r, on_fpnt (Fpnt_OnDataPacketForwarded 6 mesh transit_header 84 (hd q) (ip_destination transit_header)) routed_node)"
    "Fpnt_RouteOutput 6 transit_header 84 None routed_node =
      Inr (Some r, on_fpnt (Fpnt_OnDataPacketForwarded 6 mesh transit_header 84 (hd q) (ip_destination transit_header)) routed_node)"
    "path_to (olsr_edge 1 mesh) 1 q (ip_destination transit_header)" "ro_gateway r = hd q"
    using own nd(5) dest unfolding best_path_def by blast
  then show ?thesis by (auto simp: transit_header_def)
qed

text \<open>
  What a failed transmission does to the evidence. A packet handed to an MPR selector adds its size
  to the selector's load, and one more expected forward when the selector is not its destination. If
  the MAC layer then gives up on the frame, one expected forward is taken back even when none had
  been added: for a packet to the selector itself an earlier expectation is lost, so a selector that
  drops the packets it should forward gains from its own unreachability.
\<close>

theorem mac_failure_bookkeeping:
  assumes "fp_defense p = Some d" and "f_enabled d" and "f_protocol d"
    and "s = nd_state (fp_node p)" and "isOurSelector n s" and "n \<noteq> ipv4_any" and "n \<noteq> ipv4_broadcast"
    and "map_of (f_metrics d) n = Some m" and "countRcv m \<noteq> 0xffffffff"
    and "\<not> mac_IsGroup addr" and "addr \<noteq> mac_broadcast" and "drop_neighbor addr (m_neighborSet s) ifaces = n"
  shows "\<exists>d' m'. fp_defense (Fpnt_MacTxDrop True (Some addr) (Some ifaces) (fpnt_packet_forwarded now header bytes n p)) = Some d' \<and>
    map_of (f_metrics d') n = Some m' \<and> countLoad m' = countLoad m + bytes \<and> countFwd m' = countFwd m \<and>
    countRcv m' = (if ip_destination header \<noteq> n then countRcv m else if countRcv m = 0 then 0 else countRcv m - 1)"
proof -
  define d1 where "d1 = Fpnt_OnDataPacketForwarded now s header bytes n (ip_destination header) d"
  define m1 where "m1 = add_load bytes m"
  have inc: "1 \<le> countRcv m + 1"
  proof -
    have "(0xffffffff :: u32) = - 1" by code_simp
    then have "countRcv m \<noteq> - 1" using assms(9) by metis
    then have "countRcv m + 1 \<noteq> 0" by (simp add: eq_neg_iff_add_eq_0)
    then show ?thesis by (simp add: word_le_nat_alt Suc_le_eq unat_gt_0)
  qed
  have d1: "f_enabled d1" "map_of (f_metrics d1) n =
      Some (if ip_destination header \<noteq> n then m1\<lparr>countRcv := countRcv m1 + 1\<rparr> else m1)"
    using assms(2,3,5-8) by (auto simp: d1_def m1_def Fpnt_OnDataPacketForwarded_def expect_forward_def on_metrics_def
        map_ref_def Let_def)
  have drop: "fp_defense (Fpnt_MacTxDrop True (Some addr) (Some ifaces) (fpnt_packet_forwarded now header bytes n p)) =
      Some (Fpnt_OnMacTxFailure n 1 d1)"
    using assms(1,4,6,10-12) by (simp add: Fpnt_MacTxDrop_def fpnt_packet_forwarded_def on_fpnt_def d1_def)
  have zero: "(1 :: u32) \<le> c \<longleftrightarrow> c \<noteq> 0" for c
    by (simp add: word_le_nat_alt Suc_le_eq unat_gt_0)
  show ?thesis
    unfolding drop using d1 assms(6,7) inc zero
    by (auto simp: Fpnt_OnMacTxFailure_def m1_def add_load_def)
qed

definition relay_under_watch :: fpnt_proto where
  "relay_under_watch = \<lparr>
     fp_node = lone_node (mesh\<lparr>m_mprSelectorSet := [\<lparr>ms_mainAddr = 2, ms_expirationTime = 9\<rparr>]\<rparr>),
     fp_defense = Some (suspicious\<lparr>f_metrics := [(2, NodeBehaviorMetrics_init\<lparr>countRcv := 1\<rparr>)]\<rparr>),
     fp_redundant = False\<rparr>"

theorem mac_failure_bookkeeping_witness:
  "\<exists>d' m'. fp_defense (Fpnt_MacTxDrop True (Some 7) (Some [Some [(2, (True, 7))]])
       (fpnt_packet_forwarded 5 (transit_header\<lparr>ip_destination := 2\<rparr>) 84 2 relay_under_watch)) = Some d' \<and>
     map_of (f_metrics d') 2 = Some m' \<and> countRcv m' = 0 \<and> countFwd m' = 0"
proof -
  define s where "s = mesh\<lparr>m_mprSelectorSet := [\<lparr>ms_mainAddr = 2, ms_expirationTime = 9\<rparr>]\<rparr>"
  define m where "m = NodeBehaviorMetrics_init\<lparr>countRcv := 1\<rparr>"
  define d where "d = suspicious\<lparr>f_metrics := [(2, m)]\<rparr>"
  have p: "fp_defense relay_under_watch = Some d" "s = nd_state (fp_node relay_under_watch)"
    by (simp_all add: relay_under_watch_def d_def m_def s_def lone_node_def)
  have d: "f_enabled d" "f_protocol d" "map_of (f_metrics d) 2 = Some m" "countRcv m \<noteq> 0xffffffff"
    by (simp_all add: d_def m_def suspicious_def Fpnt_init_def)
  have sel: "isOurSelector 2 s" "(2 :: ipv4) \<noteq> ipv4_any" "(2 :: ipv4) \<noteq> ipv4_broadcast"
    by (simp_all add: isOurSelector_def s_def ipv4_any_def ipv4_broadcast_def)
  have mac: "\<not> mac_IsGroup 7" "7 \<noteq> mac_broadcast" by code_simp+
  have arp: "drop_neighbor 7 (m_neighborSet s) [Some [(2, (True, 7))]] = 2"
    by (simp add: s_def mesh_sets arp_match_def mesh_neighbor_def ipv4_any_def)
  from mac_failure_bookkeeping [OF p(1) d(1,2) p(2) sel d(3,4) mac arp, of 5 "transit_header\<lparr>ip_destination := 2\<rparr>" 84]
  show ?thesis by (auto simp: m_def NodeBehaviorMetrics_init_def)
qed

section \<open>The periodic check\<close>

text \<open>Who is called malicious depends on four fields, which only \<open>update_trust\<close> writes in a check.\<close>

definition same_core :: "fpnt \<Rightarrow> fpnt \<Rightarrow> bool" where
  "same_core d d' \<longleftrightarrow> f_trustTable d' = f_trustTable d \<and> f_maliciousThreshold d' = f_maliciousThreshold d \<and>
     f_enabled d' = f_enabled d \<and> f_protocol d' = f_protocol d"

lemma same_core_trans: "same_core d d' \<Longrightarrow> same_core d' d'' \<Longrightarrow> same_core d d''"
  by (simp add: same_core_def)

lemma same_core_check_ready: "same_core d (check_ready now tcI s d)"
proof -
  let ?d = "if f_protocol d then drop_unselected s d else d"
  have "same_core d ?d" by (simp add: same_core_def drop_unselected_eq)
  moreover have "same_verdicts ?d (check_ready now tcI s d)"
    unfolding check_ready_def by (intro same_verdicts_trans [OF ScanDeviationRuleD1_hook ExpireStaleArrivals_hook])
  ultimately show ?thesis by (simp add: same_core_def same_verdicts_def)
qed

lemma same_core_refresh: "refresh_direct x d = Inr d' \<Longrightarrow> same_core d d'"
  by (auto simp: refresh_direct_def Let_def res_simps same_core_def split: prod.splits)

lemma same_core_malicious: "same_core d d' \<Longrightarrow> Fpnt_IsMalicious a d' = Fpnt_IsMalicious a d"
  by (auto simp: same_core_def Fpnt_IsMalicious_def split: option.split)

text \<open>The flag that asks for new routes is set when a verdict changes.\<close>

definition flip_seen :: "fpnt \<Rightarrow> fpnt \<times> bool \<Rightarrow> bool" where
  "flip_seen d0 = (\<lambda>(d, b). f_maliciousThreshold d = f_maliciousThreshold d0 \<and> f_enabled d = f_enabled d0 \<and>
     f_protocol d = f_protocol d0 \<and> (b \<or> (\<forall>a. Fpnt_IsMalicious a d = Fpnt_IsMalicious a d0)))"

lemma flip_seen_update:
  assumes "flip_seen d0 (d, b)" and "update_trust addr (d, b) = Inr r"
  shows "flip_seen d0 r"
proof (cases "evidence addr d = []")
  case True
  then show ?thesis using assms by (simp add: update_trust_def)
next
  case False
  then obtain agg where agg: "AggregateEvaluations (evidence addr d) = Inr agg"
    using AggregateEvaluations_sum by blast
  define T where "T = smooth d (map_of (f_trustTable d) addr) (period_trust d agg)"
  have r: "r = (d\<lparr>f_trustTable := map_put addr T (f_trustTable d)\<rparr>,
      below_threshold d (map_of (f_trustTable d) addr) \<noteq> (T < f_maliciousThreshold d) \<or> b)"
    using assms(2) update_trust_eq [OF False agg, of b] by (simp add: T_def Let_def)
  have "Fpnt_IsMalicious a (d\<lparr>f_trustTable := map_put addr T (f_trustTable d)\<rparr>) = Fpnt_IsMalicious a d"
    if "below_threshold d (map_of (f_trustTable d) addr) = (T < f_maliciousThreshold d)" for a
    using that by (auto simp: Fpnt_IsMalicious_def below_threshold_def split: option.splits)
  then show ?thesis using assms(1) unfolding r by (auto simp: flip_seen_def)
qed

lemma PeriodicCheck_flip:
  assumes "fpnt_ok d" and "f_enabled d" and "f_protocol d"
  obtains d' b where "Fpnt_PeriodicCheck now tcI s d = Inr (d', b)" and "fpnt_ok d'" and "f_enabled d'"
    and "(\<exists>a. Fpnt_IsMalicious a d' \<noteq> Fpnt_IsMalicious a d) \<longrightarrow> b"
proof -
  obtain d' b where run: "Fpnt_PeriodicCheck now tcI s d = Inr (d', b)" and ok: "fpnt_ok d'"
    using PeriodicCheck_ok [OF assms(1)] by blast
  obtain d1 d2 b2 where d1: "foldE refresh_direct (f_metrics (check_ready now tcI s d)) (check_ready now tcI s d) = Inr d1"
    and d2: "foldE update_trust (trust_targets d1) (d1, False) = Inr (d2, b2)"
    and res: "d' = d2\<lparr>f_metrics := [], f_recommendations := []\<rparr>" "b = (b2 \<and> f_protocol d2)"
    using run unfolding PeriodicCheck_enabled [OF assms(2)] res_simps by (auto simp: res_simps)
  have core: "same_core d d1"
    by (rule foldE_invariant [where P = "same_core d", OF d1 same_core_check_ready])
      (rule same_core_trans [OF _ same_core_refresh])
  have "flip_seen d (d1, False)"
    using core [unfolded same_core_def] by (simp add: flip_seen_def same_core_malicious [OF core])
  then have "flip_seen d (d2, b2)"
  proof (rule foldE_invariant [where P = "flip_seen d", OF d2])
    fix x p r assume "flip_seen d p" "update_trust x p = Inr r"
    then show "flip_seen d r" by (cases p) (simp add: flip_seen_update)
  qed
  moreover have "Fpnt_IsMalicious a d' = Fpnt_IsMalicious a d2" for a
    by (rule same_core_malicious) (simp add: res(1) same_core_def)
  ultimately show ?thesis using that [OF run ok] assms(2,3) by (auto simp: flip_seen_def res)
qed

text \<open>
  C20: A changed verdict changes the routes at once. When the defense timer fires, the check returns
  and the timer is set again for the configured interval; if the check called a node malicious or
  cleared one, the routing table of the node is recomputed from the new trust values in the same
  event, so that it is again a table of best trusted paths.
\<close>

theorem verdict_change_reroutes:
  assumes "fp_defense p = Some d" and "fpnt_ok d" and "f_enabled d" and "f_protocol d"
    and "nd_defenseTimer (fp_node p) = None" and "few_nodes (nd_mainAddress (fp_node p)) (nd_state (fp_node p))"
  shows "\<exists>p' d'. Fpnt_HandleDefenseTimer now p = Inr p' \<and> fp_defense p' = Some d' \<and> fpnt_ok d' \<and>
    nd_defenseTimer (fp_node p') = Some (now + f_checkInterval d') \<and> nd_state (fp_node p') = nd_state (fp_node p) \<and>
    ((\<exists>a. Fpnt_IsMalicious a d' \<noteq> Fpnt_IsMalicious a d) \<longrightarrow>
       (\<exists>routes. RunTrustDijkstra now (nd_ifaces (fp_node p)) (nd_mainAddress (fp_node p)) (nd_state (fp_node p))
            (Some (\<lambda>a. Fpnt_GetNodeTrust (nd_state (fp_node p)) a d')) (nd_hnaRoutingTable (fp_node p)) =
          Inr (nd_table (fp_node p'), routes)))"
proof -
  let ?nd = "fp_node p"
  obtain d' b where run: "Fpnt_PeriodicCheck now (nd_tcInterval ?nd) (nd_state ?nd) d = Inr (d', b)"
    and ok: "fpnt_ok d'" and flip: "(\<exists>a. Fpnt_IsMalicious a d' \<noteq> Fpnt_IsMalicious a d) \<longrightarrow> b"
    using PeriodicCheck_flip [OF assms(2-4)] by metis
  obtain t routes where table: "RunTrustDijkstra now (nd_ifaces ?nd) (nd_mainAddress ?nd) (nd_state ?nd)
      (Some (\<lambda>a. Fpnt_GetNodeTrust (nd_state ?nd) a d')) (nd_hnaRoutingTable ?nd) = Inr (t, routes)"
    using RunTrustDijkstra_table [OF Fpnt_trust_nonneg [OF ok] assms(6)] by blast
  define p1 where "p1 = (if b then p\<lparr>fp_defense := Some d', fp_node := ?nd\<lparr>nd_table := t, nd_hnaRoutingTable := routes\<rparr>\<rparr>
      else p\<lparr>fp_defense := Some d'\<rparr>)"
  define p2 where "p2 = p1\<lparr>fp_node := (fp_node p1)\<lparr>nd_defenseTimer := Some (now + f_checkInterval d')\<rparr>\<rparr>"
  have "Fpnt_HandleDefenseTimer now p = Inr p2"
    using assms(1,5) run table
    by (simp add: Fpnt_HandleDefenseTimer_def trust_routes_def restart_def p2_def p1_def Let_def)
  moreover have "fp_defense p2 = Some d'" "nd_defenseTimer (fp_node p2) = Some (now + f_checkInterval d')"
    "nd_state (fp_node p2) = nd_state ?nd" "b \<longrightarrow> nd_table (fp_node p2) = t"
    by (simp_all add: p2_def p1_def)
  ultimately show ?thesis using ok flip table by (intro exI [of _ p2] exI [of _ d']) auto
qed

theorem verdict_change_reroutes_witness:
  "\<exists>p' d'. Fpnt_HandleDefenseTimer 5 mesh_node = Inr p' \<and> fp_defense p' = Some d' \<and>
     nd_defenseTimer (fp_node p') = Some (5 + f_checkInterval d')"
proof -
  have "fp_defense mesh_node = Some suspicious" "fpnt_ok suspicious" "f_enabled suspicious" "f_protocol suspicious"
    by (simp_all add: mesh_node_def suspicious_def fpnt_ok_def params_ok_def Fpnt_init_def unit_def)
  moreover have "nd_defenseTimer (fp_node mesh_node) = None"
    "few_nodes (nd_mainAddress (fp_node mesh_node)) (nd_state (fp_node mesh_node))"
    using mesh_ok(2) by (simp_all add: mesh_node_def lone_node_def RoutingProtocol_init_def)
  ultimately show ?thesis using verdict_change_reroutes [of mesh_node suspicious 5] by blast
qed

end
