(* ===== verification/Node_Settings.thy ===== *)
theory Node_Settings
  imports Complex_Main Node
begin

text \<open>
  What only the attribute setters of a node change. \<open>switches\<close> are the attacker attributes and the
  defense object; no handler touches them except through a hook of the defense object, and no hook
  changes its class, its \<open>Enabled\<close> attribute or its configuration. The lemmas of \<open>switch_simps\<close> say
  so for each operation, \<open>settings_step\<close> for every step of a node.
\<close>

named_theorems switch_simps "operations that leave the attributes and the defense object alone"

definition switches :: "node \<Rightarrow> bool \<times> u32 \<times> defense option" where
  "switches nd = (nd_isMalicious nd, nd_spoofedLinksCount nd, nd_defense nd)"

text \<open>Class and \<open>Enabled\<close> attribute of a defense object.\<close>

fun defense_mode :: "defense \<Rightarrow> nat \<times> bool" where
  "defense_mode Null_defense = (0, False)"
| "defense_mode (Gcop_defense d) = (1, gc_enabled d)"
| "defense_mode (Watchdog_defense w) = (2, wd_enabled w)"

definition settings :: "node \<Rightarrow> bool \<times> u32 \<times> (nat \<times> bool) option" where
  "settings nd = (nd_isMalicious nd, nd_spoofedLinksCount nd, map_option defense_mode (nd_defense nd))"

lemma settings_switches: "switches nd' = switches nd \<Longrightarrow> settings nd' = settings nd"
  by (simp add: switches_def settings_def)

section \<open>Operations that leave the defense object alone\<close>

lemma switches_updates [switch_simps]:
  "switches (nd\<lparr>nd_queuedMessages := q\<rparr>) = switches nd"
  "switches (nd\<lparr>nd_queuedMessagesTimer := t\<rparr>) = switches nd"
  "switches (nd\<lparr>nd_helloTimer := t\<rparr>) = switches nd"
  "switches (nd\<lparr>nd_tcTimer := t\<rparr>) = switches nd"
  "switches (nd\<lparr>nd_midTimer := t\<rparr>) = switches nd"
  "switches (nd\<lparr>nd_hnaTimer := t\<rparr>) = switches nd"
  "switches (nd\<lparr>nd_defenseTimer := t\<rparr>) = switches nd"
  "switches (nd\<lparr>nd_events := es\<rparr>) = switches nd"
  "switches (nd\<lparr>nd_sent := ss\<rparr>) = switches nd"
  "switches (nd\<lparr>nd_ansn := a\<rparr>) = switches nd"
  "switches (nd\<lparr>nd_draws := n\<rparr>) = switches nd"
  "switches (nd\<lparr>nd_localRxDrops := r\<rparr>) = switches nd"
  "switches (nd\<lparr>nd_linkTupleTimerFirstTime := b\<rparr>) = switches nd"
  "switches (nd\<lparr>nd_packetSequenceNumber := p\<rparr>) = switches nd"
  "switches (nd\<lparr>nd_messageSequenceNumber := p\<rparr>) = switches nd"
  "switches (nd\<lparr>nd_routingTableAssociation := ra\<rparr>) = switches nd"
  "switches (nd\<lparr>nd_table := x, nd_tableAvoidingSuspects := y, nd_hnaRoutingTable := z\<rparr>) = switches nd"
  "switches (on_state f nd) = switches nd"
  by (simp_all add: switches_def on_state_def)

lemma switches_fold: "(\<And>x nd. switches (f x nd) = switches nd) \<Longrightarrow> switches (fold f xs nd) = switches nd"
  by (induction xs arbitrary: nd) simp_all

lemma switches_foldE:
  "foldE f xs nd = Inr nd' \<Longrightarrow> (\<And>x nd nd'. f x nd = Inr nd' \<Longrightarrow> switches nd' = switches nd) \<Longrightarrow> switches nd' = switches nd"
  using foldE_invariant [where P = "\<lambda>n. switches n = switches nd"] by metis

lemma switches_base [switch_simps]:
  "switches (schedule now d e nd) = switches nd"
  "switches (IncrementAnsn nd) = switches nd"
  "switches (snd (JITTER nd)) = switches nd"
  "switches (snd (GetPacketSequenceNumber nd)) = switches nd"
  "switches (snd (GetMessageSequenceNumber nd)) = switches nd"
  by (simp_all add: schedule_def IncrementAnsn_def JITTER_def GetPacketSequenceNumber_def
      GetMessageSequenceNumber_def Let_def switch_simps)

lemmas tuple_method_defs = AddDuplicateTuple_def RemoveDuplicateTuple_def AddNeighborTuple_def RemoveNeighborTuple_def
  AddTwoHopNeighborTuple_def RemoveTwoHopNeighborTuple_def AddMprSelectorTuple_def RemoveMprSelectorTuple_def
  AddTopologyTuple_def RemoveTopologyTuple_def AddIfaceAssocTuple_def RemoveIfaceAssocTuple_def
  AddAssociationTuple_def RemoveAssociationTuple_def

lemma switches_computations:
  "MprComputation nd = Inr nd' \<Longrightarrow> switches nd' = switches nd"
  "RoutingTableComputation now nd = Inr nd' \<Longrightarrow> switches nd' = switches nd"
  by (auto simp: MprComputation_def RoutingTableComputation_def res_simps switch_simps split: option.splits)

lemma switches_links [switch_simps]:
  "switches (LinkTupleAdded now l w nd) = switches nd"
  "switches (LinkTupleUpdated now l w nd) = switches nd"
  "switches (RemoveLinkTuple l nd) = switches nd"
  by (simp_all add: LinkTupleAdded_def LinkTupleUpdated_def RemoveLinkTuple_def tuple_method_defs Let_def
      switch_simps split: option.split)

lemma switches_NeighborLoss: "NeighborLoss now l nd = Inr nd' \<Longrightarrow> switches nd' = switches nd"
  by (auto simp: NeighborLoss_def Let_def res_simps switch_simps dest!: switches_computations)

lemma switches_LinkSensing: "LinkSensing now m h ri si nd = Inr nd' \<Longrightarrow> switches nd' = switches nd"
  by (auto simp: LinkSensing_def Let_def res_simps switch_simps split: option.splits)

lemma switches_populate [switch_simps]:
  "switches (PopulateNeighborSet m h nd) = switches nd"
  "switches (two_hop_address now m nt a nd) = switches nd"
  "switches (PopulateTwoHopNeighborSet now m h nd) = switches nd"
  "switches (mpr_selector_address now m a nd) = switches nd"
  "switches (PopulateMprSelectorSet now m h nd) = switches nd"
proof -
  show th: "switches (two_hop_address now m nt a nd) = switches nd" for nt a nd
    by (simp add: two_hop_address_def tuple_method_defs Let_def switch_simps split: option.split)
  show ms: "switches (mpr_selector_address now m a nd) = switches nd" for a nd
    by (simp add: mpr_selector_address_def tuple_method_defs Let_def switch_simps split: option.split)
  show "switches (PopulateNeighborSet m h nd) = switches nd"
    by (simp add: PopulateNeighborSet_def switch_simps)
  show "switches (PopulateTwoHopNeighborSet now m h nd) = switches nd"
    unfolding PopulateTwoHopNeighborSet_def by (rule switches_fold) (simp add: switches_fold th)
  show "switches (PopulateMprSelectorSet now m h nd) = switches nd"
    unfolding PopulateMprSelectorSet_def by (rule switches_fold) (simp add: switches_fold ms)
qed

lemma switches_ProcessHello: "ProcessHello now m h ri si nd = Inr nd' \<Longrightarrow> switches nd' = switches nd"
  by (auto simp: ProcessHello_def res_simps switch_simps dest!: switches_LinkSensing switches_computations(1))

lemma switches_messages [switch_simps]:
  "switches (ProcessTc now m tc si nd) = switches nd"
  "switches (ProcessMid now m mid si nd) = switches nd"
  "switches (ProcessHna now m hna si nd) = switches nd"
proof -
  have "switches (tc_address now m tc a nd) = switches nd" for a nd
    by (simp add: tc_address_def tuple_method_defs Let_def switch_simps split: option.split)
  moreover have "switches (mid_address now m a nd) = switches nd" for a nd
    by (simp add: mid_address_def tuple_method_defs Let_def switch_simps)
  moreover have "switches (hna_address now m a nd) = switches nd" for a nd
    by (simp add: hna_address_def tuple_method_defs Let_def switch_simps split: option.split)
  ultimately show "switches (ProcessTc now m tc si nd) = switches nd"
    "switches (ProcessMid now m mid si nd) = switches nd" "switches (ProcessHna now m hna si nd) = switches nd"
    by (simp_all add: ProcessTc_def ProcessMid_def ProcessHna_def Let_def switch_simps switches_fold)
qed

lemma switches_QueueMessage [switch_simps]: "switches (QueueMessage now m d nd) = switches nd"
  by (simp add: QueueMessage_def Let_def switch_simps)

lemma switches_queue_jittered [switch_simps]: "switches (queue_jittered now m nd) = switches nd"
  by (simp add: queue_jittered_def JITTER_def switch_simps)

lemma switches_ForwardDefault [switch_simps]: "switches (ForwardDefault now m dup li sa nd) = switches nd"
  by (simp add: ForwardDefault_def JITTER_def AddDuplicateTuple_def Let_def switch_simps split: option.split)

lemma switches_process_message: "process_message now m ri si nd = Inr nd' \<Longrightarrow> switches nd' = switches nd"
  by (auto simp: process_message_def switch_simps dest: switches_ProcessHello split: msg_body.splits)

lemma switches_fire: "fire t e nd = Inr nd' \<Longrightarrow> switches nd' = switches nd"
  by (cases e) (auto simp: fire_def LinkTupleTimerExpire_def Nb2hopTupleTimerExpire_def MprSelTupleTimerExpire_def
      TopologyTupleTimerExpire_def IfaceAssocTupleTimerExpire_def AssociationTupleTimerExpire_def
      DupTupleTimerExpire_def tuple_method_defs res_simps switch_simps dest: switches_NeighborLoss
      split: option.splits if_splits)

section \<open>Sending\<close>

lemma switches_SendPacket: "SendPacket p nd = Inr nd' \<Longrightarrow> switches nd' = switches nd"
proof -
  assume "SendPacket p nd = Inr nd'"
  then obtain bs where "foldE (broadcast bs) (nd_sendSockets nd) (snd (GetPacketSequenceNumber nd)) = Inr nd'"
    by (auto simp: SendPacket_def GetPacketSequenceNumber_def Let_def)
  then have "switches nd' = switches (snd (GetPacketSequenceNumber nd))"
    by (rule switches_foldE) (auto simp: broadcast_def res_simps switch_simps)
  then show ?thesis by (simp add: switch_simps)
qed

lemma switches_SendQueuedMessages: "SendQueuedMessages nd = Inr nd' \<Longrightarrow> switches nd' = switches nd"
proof -
  assume "SendQueuedMessages nd = Inr nd'"
  then obtain p k nd1 nd2 where
    f: "foldE pack_message (nd_queuedMessages nd) ([], 0, nd) = Inr (p, k, nd1)" and
    s: "(if p \<noteq> [] then SendPacket p nd1 else Inr nd1) = Inr nd2" and
    nd': "nd' = nd2\<lparr>nd_queuedMessages := []\<rparr>"
    by (auto simp: SendQueuedMessages_def res_simps)
  have "switches (snd (snd (p, k, nd1))) = switches nd"
    by (rule foldE_invariant [where P = "\<lambda>x. switches (snd (snd x)) = switches nd", OF f])
      (auto simp: pack_message_def Let_def res_simps dest!: switches_SendPacket split: if_splits)
  moreover have "switches nd2 = switches nd1" using s switches_SendPacket by (auto split: if_splits)
  ultimately show ?thesis by (simp add: nd' switch_simps)
qed

lemma switches_new_message: "new_message v ttl b nd = Inr (m, nd') \<Longrightarrow> switches nd' = switches nd"
  by (auto simp: new_message_def GetMessageSequenceNumber_def Let_def res_simps switch_simps)

lemma switches_timers:
  "HelloTimerExpire now nd = Inr nd' \<Longrightarrow> switches nd' = switches nd"
  "TcTimerExpire now nd = Inr nd' \<Longrightarrow> switches nd' = switches nd"
  "MidTimerExpire now nd = Inr nd' \<Longrightarrow> switches nd' = switches nd"
  "HnaTimerExpire now nd = Inr nd' \<Longrightarrow> switches nd' = switches nd"
  by (auto simp: HelloTimerExpire_def TcTimerExpire_def MidTimerExpire_def HnaTimerExpire_def restart_def
      SendHello_def SendTc_def SendMid_def SendHna_def poison_ansn_def Let_def res_simps switch_simps
      dest!: switches_new_message split: if_splits)

lemma switches_hna [switch_simps]:
  "switches (AddHostNetworkAssociation n m nd) = switches nd"
  "switches (RemoveHostNetworkAssociation n m nd) = switches nd"
  "switches (SetRoutingTableAssociation rs nd) = switches nd"
  by (simp_all add: AddHostNetworkAssociation_def RemoveHostNetworkAssociation_def SetRoutingTableAssociation_def
      Let_def switch_simps switches_fold split: option.split)

section \<open>Hooks of the defense object\<close>

text \<open>The blacklist of a GCOP object is a set.\<close>

fun blacklist_ok :: "defense \<Rightarrow> bool" where
  "blacklist_ok (Gcop_defense d) \<longleftrightarrow> wf_set (gc_riskyNodes d)"
| "blacklist_ok d \<longleftrightarrow> True"

definition tame :: "(defense \<Rightarrow> defense) \<Rightarrow> bool" where
  "tame f \<longleftrightarrow> (\<forall>d. defense_mode (f d) = defense_mode d \<and> (blacklist_ok d \<longrightarrow> blacklist_ok (f d)))"

definition node_ok :: "node \<Rightarrow> bool" where
  "node_ok nd \<longleftrightarrow> (\<forall>d. nd_defense nd = Some d \<longrightarrow> blacklist_ok d)"

definition keeps :: "node \<Rightarrow> node \<Rightarrow> bool" where
  "keeps nd nd' \<longleftrightarrow> settings nd' = settings nd \<and> (node_ok nd \<longrightarrow> node_ok nd')"

lemma keeps_switches: "switches nd' = switches nd \<Longrightarrow> keeps nd nd'"
  by (simp add: keeps_def switches_def settings_def node_ok_def)

lemma keeps_trans: "keeps a b \<Longrightarrow> keeps b c \<Longrightarrow> keeps a c"
  by (simp add: keeps_def)

lemma keeps_on_defense: "tame f \<Longrightarrow> keeps nd (on_defense f nd)"
  by (cases "nd_defense nd") (auto simp: tame_def keeps_def settings_def node_ok_def on_defense_def)

lemma wd_enabled_fold: "(\<And>x w. wd_enabled (f x w) = wd_enabled w) \<Longrightarrow> wd_enabled (fold f xs w) = wd_enabled w"
  by (induction xs arbitrary: w) simp_all

lemma wd_enabled_hooks:
  "wd_enabled (Watchdog_OnDataPacketForwarded uid n dst now w) = wd_enabled w"
  "wd_enabled (Watchdog_OnMacTxFailure n c w) = wd_enabled w"
  "wd_enabled (Watchdog_OnNeighborForwardedPacket tx rx uid s now w) = wd_enabled w"
  "wd_enabled (Watchdog_OnRtsReceived m w) = wd_enabled w"
  "wd_enabled (Watchdog_OnCtsReceived m w) = wd_enabled w"
  "wd_enabled (SnifferRxCallback fr s now w) = wd_enabled w"
  "wd_enabled (PhyRxDropCallback w) = wd_enabled w"
  "wd_enabled (Watchdog_OnSelfReliabilityReport c w) = wd_enabled w"
proof -
  show f: "wd_enabled (Watchdog_OnNeighborForwardedPacket tx rx uid s now w) = wd_enabled w" for tx rx uid w
    by (simp add: Watchdog_OnNeighborForwardedPacket_def Let_def split: option.split)
  show r: "wd_enabled (Watchdog_OnRtsReceived m w) = wd_enabled w" for m
    by (simp add: Watchdog_OnRtsReceived_def Let_def)
  show c: "wd_enabled (Watchdog_OnCtsReceived m w) = wd_enabled w" for m
    by (simp add: Watchdog_OnCtsReceived_def Let_def)
  show "wd_enabled (SnifferRxCallback fr s now w) = wd_enabled w"
    by (cases fr) (simp_all add: f r c Let_def split: option.split)
qed (simp_all add: Watchdog_OnDataPacketForwarded_def Watchdog_OnMacTxFailure_def PhyRxDropCallback_def
    Watchdog_OnSelfReliabilityReport_def Let_def split: option.split list.split)

lemma wd_enabled_PeriodicCheck: "wd_enabled (Watchdog_PeriodicCheck now w) = wd_enabled w"
proof -
  have e: "wd_enabled (EvaluateMissingForward n now w) = wd_enabled w" for n w
    by (simp add: EvaluateMissingForward_def Let_def)
  have "wd_enabled (age_neighbor now x w) = wd_enabled w" for x w
    by (cases x) (simp add: age_neighbor_def Let_def wd_enabled_fold e)
  then have a: "wd_enabled (AgePending now w) = wd_enabled w" for w
    unfolding AgePending_def by (rule wd_enabled_fold)
  have b: "wd_enabled (fold (\<lambda>(a, st) w. MaybeBlacklist a now w) xs w) = wd_enabled w" for xs w
    by (rule wd_enabled_fold) (simp add: MaybeBlacklist_def split: prod.split option.split)
  have "wd_enabled (release_one now a w) = wd_enabled w" for a w
    by (simp add: release_one_def split: option.split)
  then have r: "wd_enabled (ReleaseExpiredBlacklist now w) = wd_enabled w" for w
    unfolding ReleaseExpiredBlacklist_def by (simp add: wd_enabled_fold)
  show ?thesis
    by (simp add: Watchdog_PeriodicCheck_def wd_schedule_def RotateMacWindows_def a b r Let_def)
qed

lemma tame_hooks:
  "tame (defense_OnRecvHello sender s)"
  "tame (defense_OnDataPacketForwarded uid n dst now)"
  "tame (defense_OnNeighborForwardedPacket tx rx uid s now)"
  "tame (defense_OnMacTxFailure n c)"
  "tame (defense_OnSelfReliabilityReport c)"
  "tame (defense_OnRtsReceived m)"
  "tame (defense_OnCtsReceived m)"
  "tame (defense_PeriodicCheck now)"
  "tame (defense_Setup a mm now)"
  "tame (on_watchdog (Watchdog_event now))"
  "tame (on_watchdog (SnifferRxCallback fr s now))"
  "tame (on_watchdog PhyRxDropCallback)"
proof -
  have gcop: "gc_enabled (Gcop_OnRecvHello sender s d) = gc_enabled d \<and>
      (wf_set (gc_riskyNodes d) \<longrightarrow> wf_set (gc_riskyNodes (Gcop_OnRecvHello sender s d)))" for d
    by (simp add: Gcop_OnRecvHello_def EvaluateContradictionRules_def Let_def split: option.split)
  have per: "wd_enabled (Watchdog_event now w) = wd_enabled w" for w
    by (simp add: Watchdog_event_def wd_enabled_PeriodicCheck)
  have set: "wd_enabled (Watchdog_Setup a mm now w) = wd_enabled w" for w
    by (simp add: Watchdog_Setup_def wd_schedule_def Let_def split: option.split)
  show "tame (defense_OnRecvHello sender s)"
    unfolding tame_def by (intro allI) (rename_tac d, case_tac d, simp_all add: gcop)
  show "tame (defense_PeriodicCheck now)"
    unfolding tame_def by (intro allI) (rename_tac d, case_tac d, simp_all add: wd_enabled_PeriodicCheck Gcop_PeriodicCheck_def)
  show "tame (defense_Setup a mm now)"
    unfolding tame_def by (intro allI) (rename_tac d, case_tac d, simp_all add: Gcop_Setup_def set)
  show "tame (on_watchdog (Watchdog_event now))"
    unfolding tame_def by (intro allI) (rename_tac d, case_tac d, simp_all add: per)
qed (unfold tame_def, (intro allI, rename_tac d, case_tac d, simp_all add: wd_enabled_hooks)+)

section \<open>Steps\<close>

lemma keeps_recv_message: "recv_message now ri si m nd = Inr nd' \<Longrightarrow> keeps nd nd'"
proof (cases "m_timeToLive m = 0 \<or> m_originatorAddress m = nd_mainAddress nd")
  case False
  let ?nd = "if is_hello m then on_defense (defense_OnRecvHello si (nd_state nd)) nd else nd"
  assume "recv_message now ri si m nd = Inr nd'"
  then have "switches nd' = switches ?nd"
    using False unfolding recv_message_def Let_def
    by (auto simp: res_simps switch_simps simp del: if_split dest!: switches_process_message split: if_split_asm)
  then have "keeps ?nd nd'" by (rule keeps_switches)
  moreover have "keeps nd ?nd"
    using keeps_on_defense [OF tame_hooks(1)] keeps_switches [OF refl] by (cases "is_hello m") simp_all
  ultimately show ?thesis using keeps_trans by blast
qed (simp add: recv_message_def keeps_switches)

lemma keeps_RecvOlsr: "RecvOlsr now i sender port bytes nd = Inr nd' \<Longrightarrow> keeps nd nd'"
proof -
  assume a: "RecvOlsr now i sender port bytes nd = Inr nd'"
  show ?thesis
  proof (cases "nd' = nd")
    case False
    with a obtain ri ms nd1 where f: "foldE (recv_message now ri sender) ms nd = Inr nd1"
      and r: "RoutingTableComputation now nd1 = Inr nd'"
      by (auto simp: RecvOlsr_def res_simps split: if_splits)
    have "keeps nd nd1"
      by (rule foldE_invariant [where P = "keeps nd", OF f])
        (auto intro: keeps_switches keeps_trans keeps_recv_message)
    moreover have "keeps nd1 nd'" using switches_computations(2) [OF r] by (rule keeps_switches)
    ultimately show ?thesis by (rule keeps_trans)
  qed (simp add: keeps_switches)
qed

lemma keeps_packet: "keeps nd (packet_forwarded uid n dst now nd)"
  unfolding packet_forwarded_def by (rule keeps_on_defense [OF tame_hooks(2)])

lemma keeps_refl: "keeps nd nd"
  by (rule keeps_switches) simp

lemma keeps_routes:
  "RouteOutput now uid dst oif nd = Inr (r, nd') \<Longrightarrow> keeps nd nd'"
  "RouteInput now cfg lcb uid o' dst idev nd = Inr (v, nd') \<Longrightarrow> keeps nd nd'"
  by (auto simp: RouteOutput_def RouteInput_def res_simps keeps_packet keeps_refl split: option.splits if_splits)

lemma keeps_HandleDefenseTimer: "HandleDefenseTimer now nd = Inr nd' \<Longrightarrow> keeps nd nd'"
proof (cases "nd_defense nd")
  case (Some d)
  let ?nd1 = "on_defense (defense_PeriodicCheck now) nd"
  let ?nd2 = "on_defense (defense_OnSelfReliabilityReport (nd_localRxDrops ?nd1)) ?nd1"
  assume "HandleDefenseTimer now nd = Inr nd'"
  then have "switches nd' = switches ?nd2"
    using Some by (auto simp: HandleDefenseTimer_def restart_def Let_def switch_simps split: if_splits)
  then have "keeps ?nd2 nd'" by (rule keeps_switches)
  then show ?thesis
    using keeps_on_defense [OF tame_hooks(8)] keeps_on_defense [OF tame_hooks(5)] keeps_trans by blast
qed (simp add: HandleDefenseTimer_def keeps_refl)

text \<open>The inputs that are not attribute setters.\<close>

fun is_setter :: "input \<Rightarrow> bool" where
  "is_setter (Set_malicious b c) = True"
| "is_setter (Set_enabled b) = True"
| "is_setter i = False"

lemma keeps_step:
  assumes "node_step now i nd = Inr nd'" and "\<not> is_setter i"
  shows "keeps nd nd'"
proof -
  show ?thesis
  proof (cases i)
    case (Receive x1 x2 x3 x4)
    then show ?thesis using assms(1) keeps_RecvOlsr by simp
  next
    case Defense_timer
    then have "HandleDefenseTimer now (nd\<lparr>nd_defenseTimer := None\<rparr>) = Inr nd'" using assms(1) by simp
    from keeps_HandleDefenseTimer [OF this] show ?thesis
      by (rule keeps_trans [rotated]) (rule keeps_switches, simp add: switch_simps)
  next
    case (Frame_sniffed fr sz)
    have "keeps nd (MonitorSnifferRx now fr sz nd)"
      by (simp add: MonitorSnifferRx_def keeps_on_defense tame_hooks keeps_refl split: wifi_frame.split)
    then show ?thesis using assms(1) Frame_sniffed keeps_on_defense [OF tame_hooks(11)] keeps_trans by fastforce
  next
    case (Mac_drop b d)
    then show ?thesis
      using assms(1) by (auto simp: MacTxDrop_def keeps_refl keeps_on_defense tame_hooks split: option.split)
  next
    case (Reactivate mm)
    have "keeps nd (ReactivateDefenseStrategy now mm nd)"
    proof (cases "nd_defense nd")
      case (Some d)
      let ?nd = "on_defense (defense_Setup (nd_mainAddress nd) mm now) nd"
      have "switches (ReactivateDefenseStrategy now mm nd) = switches ?nd"
        by (simp add: ReactivateDefenseStrategy_def Some Let_def switch_simps)
      then show ?thesis using keeps_switches keeps_on_defense [OF tame_hooks(9)] keeps_trans by blast
    qed (simp add: ReactivateDefenseStrategy_def keeps_refl)
    then show ?thesis using assms(1) Reactivate by simp
  next
    case Rx_drop
    have "keeps nd (OnLocalRxDrop nd)" by (rule keeps_switches) (simp add: OnLocalRxDrop_def switch_simps)
    then show ?thesis using assms(1) Rx_drop keeps_on_defense [OF tame_hooks(12)] keeps_trans by fastforce
  next
    case Watchdog_timer
    then show ?thesis using assms(1) keeps_on_defense [OF tame_hooks(10)] by auto
  next
    case (Send_packet u d o')
    then show ?thesis using assms(1) keeps_routes(1) by (auto simp: drop_snd_def res_simps)
  next
    case (Transit_packet c l u o' d v)
    then show ?thesis using assms(1) keeps_routes(2) by (auto simp: drop_snd_def res_simps)
  qed (use assms in \<open>auto simp: drop_snd_def res_simps switch_simps
      dest!: switches_fire switches_timers switches_SendQueuedMessages intro!: keeps_switches\<close>)
qed

end
