(* ===== verification/Eval_Draw.thy ===== *)
theory Eval_Draw
  imports Complex_Main Repositories "HOL-Library.Multiset"
begin

text \<open>
  The portable random choices of the evaluation harness (src/scratch/olsr-dcfm-eval-mitigation.cc):
  rejection sampling on the raw output of \<open>std::mt19937\<close>, the shuffle of the measurement slots and the
  choice of the data flows. The output stream of the generator is an arbitrary sequence \<open>rng\<close> with the
  position of the next output; \<open>None\<close> is a loop that rejects for ever. Positions are exact reals.
\<close>

section \<open>Rejection sampling\<close>

definition draw_range :: nat where "draw_range = 0x100000000"

text \<open>The largest multiple of the bound within the range.\<close>

definition draw_limit :: "nat \<Rightarrow> nat" where "draw_limit b = draw_range - draw_range mod b"

partial_function (option) draw_loop :: "nat \<Rightarrow> (nat \<Rightarrow> u32) \<Rightarrow> nat \<Rightarrow> (u32 \<times> nat) option" where
  [code]: "draw_loop limit rng pos =
     (if unat (rng pos) \<ge> limit then draw_loop limit rng (pos + 1) else Some (rng pos, pos + 1))"

definition DeterministicDraw :: "(nat \<Rightarrow> u32) \<Rightarrow> u32 \<Rightarrow> nat \<Rightarrow> (u32 \<times> nat) option" where
  "DeterministicDraw rng bound pos =
     (if bound = 0 then Some (0, pos)
      else map_option (\<lambda>(r, pos). (of_nat (unat r mod unat bound), pos))
             (draw_loop (draw_limit (unat bound)) rng pos))"

section \<open>The order of the slots\<close>

definition NUM_SLOTS :: nat where "NUM_SLOTS = 4"

text \<open>\<open>std::swap (a[i], a[j])\<close>\<close>

definition swap_at :: "nat \<Rightarrow> nat \<Rightarrow> 'a list \<Rightarrow> 'a list" where
  "swap_at i j a = a[i := a ! j, j := a ! i]"

text \<open>The loop from index \<open>i\<close> down to 1.\<close>

fun shuffle_loop :: "(nat \<Rightarrow> u32) \<Rightarrow> nat \<Rightarrow> nat \<Rightarrow> 'a list \<Rightarrow> 'a list option" where
  "shuffle_loop rng pos 0 a = Some a"
| "shuffle_loop rng pos (Suc i) a =
     (let bound = Suc i + 1
      in case draw_loop (draw_limit bound) rng pos of
           None \<Rightarrow> None
         | Some (r, pos) \<Rightarrow> shuffle_loop rng pos i (swap_at (Suc i) (unat r mod bound) a))"

definition DeterministicShuffle :: "(nat \<Rightarrow> u32) \<Rightarrow> 'a list \<Rightarrow> 'a list option" where
  "DeterministicShuffle rng a = shuffle_loop rng 0 (NUM_SLOTS - 1) a"

section \<open>The data flows\<close>

definition UDP_SERVER_NODE_ID :: nat where "UDP_SERVER_NODE_ID = 0"
definition UDP_CLIENT_NODE_ID :: nat where "UDP_CLIENT_NODE_ID = 1"
definition NUM_DATA_FLOWS :: nat where "NUM_DATA_FLOWS = 1"

type_synonym position = "real \<times> real \<times> real"

definition euclid :: "position list \<Rightarrow> nat \<Rightarrow> nat \<Rightarrow> real" where
  "euclid pos a b =
     (case (pos ! a, pos ! b) of
        ((ax, ay, az), (bx, by, bz)) \<Rightarrow> sqrt ((ax - bx)\<^sup>2 + (ay - by)\<^sup>2 + (az - bz)\<^sup>2))"

definition flow_candidates :: "nat std_set \<Rightarrow> nat \<Rightarrow> nat list" where
  "flow_candidates attackerSet n =
     filter (\<lambda>i. \<not> set_count attackerSet i \<and> i \<noteq> UDP_SERVER_NODE_ID \<and> i \<noteq> UDP_CLIENT_NODE_ID) [0..<n]"

text \<open>The loop over the candidates from size \<open>i\<close> down to 2.\<close>

fun candidate_shuffle :: "(nat \<Rightarrow> u32) \<Rightarrow> nat \<Rightarrow> nat \<Rightarrow> 'a list \<Rightarrow> 'a list option" where
  "candidate_shuffle rng pos 0 cand = Some cand"
| "candidate_shuffle rng pos (Suc 0) cand = Some cand"
| "candidate_shuffle rng pos (Suc (Suc i)) cand =
     (case DeterministicDraw rng (of_nat (Suc (Suc i))) pos of
        None \<Rightarrow> None
      | Some (j, pos) \<Rightarrow> candidate_shuffle rng pos (Suc i) (swap_at (Suc i) (unat j) cand))"

text \<open>All pairs of indices in the order of the two nested loops.\<close>

definition index_pairs :: "nat \<Rightarrow> (nat \<times> nat) list" where
  "index_pairs n = concat (map (\<lambda>a. map (\<lambda>b. (a, b)) [0..<n]) [0..<n])"

definition minDist :: real where "minDist = 0"

definition far_pair :: "position list \<Rightarrow> nat list \<Rightarrow> (nat \<times> nat) option" where
  "far_pair pos cand =
     find_first (\<lambda>(si, di). di \<noteq> si \<and> \<not> euclid pos (cand ! si) (cand ! di) \<le> minDist)
       (index_pairs (length cand))"

text \<open>The fallback: the first pair of the greatest distance; the state is \<open>best\<close>, \<open>bi\<close>, \<open>bj\<close>.\<close>

definition farthest_pair :: "position list \<Rightarrow> nat list \<Rightarrow> nat \<times> nat" where
  "farthest_pair pos cand =
     snd (fold (\<lambda>(a, b) (best, p).
            if a = b then (best, p)
            else let d = euclid pos (cand ! a) (cand ! b)
                 in if d > best then (d, (a, b)) else (best, p))
          (index_pairs (length cand)) (- 1, (0, 1)))"

definition erase_at :: "nat \<Rightarrow> 'a list \<Rightarrow> 'a list" where
  "erase_at i xs = take i xs @ drop (Suc i) xs"

text \<open>The loop, with the number of flows that are still missing.\<close>

fun flow_loop :: "position list \<Rightarrow> nat \<Rightarrow> nat list \<Rightarrow> (nat \<times> nat) list \<Rightarrow> (nat \<times> nat) list" where
  "flow_loop pos 0 cand flows = flows"
| "flow_loop pos (Suc k) cand flows =
     (let (a, b) = (case far_pair pos cand of Some p \<Rightarrow> p | None \<Rightarrow> farthest_pair pos cand)
      in flow_loop pos k (erase_at (min a b) (erase_at (max a b) cand)) (flows @ [(cand ! a, cand ! b)]))"

text \<open>\<open>numFlows\<close> is the constant \<open>NUM_DATA_FLOWS\<close> of the code.\<close>

definition SelectDataFlowPairs ::
  "nat \<Rightarrow> (nat \<Rightarrow> u32) \<Rightarrow> position list \<Rightarrow> nat std_set \<Rightarrow> (nat \<times> nat) list res" where
  "SelectDataFlowPairs numFlows rng pos attackerSet =
     (let flows = [(UDP_CLIENT_NODE_ID, UDP_SERVER_NODE_ID)];
          cand = flow_candidates attackerSet (length pos)
      in if length cand + 2 < 2 * numFlows then Inl Fatal_error
         else case candidate_shuffle rng 0 (length cand) cand of
                None \<Rightarrow> Inl Diverges
              | Some cand \<Rightarrow> Inr (flow_loop pos (numFlows - 1) cand flows))"

section \<open>The draw\<close>

lemma draw_loop_first:
  assumes "pos \<le> m" and "unat (rng m) < limit" and "\<And>k. pos \<le> k \<Longrightarrow> k < m \<Longrightarrow> limit \<le> unat (rng k)"
  shows "draw_loop limit rng pos = Some (rng m, m + 1)"
  using assms
proof (induction "m - pos" arbitrary: pos)
  case 0
  then show ?case by (subst draw_loop.simps) simp
next
  case (Suc d)
  have "draw_loop limit rng (pos + 1) = Some (rng m, m + 1)"
    by (rule Suc.hyps(1)) (use Suc in simp_all)
  moreover have "limit \<le> unat (rng pos)" using Suc by simp
  ultimately show ?case by (subst draw_loop.simps) simp
qed

lemma draw_loop_total:
  assumes "\<exists>m\<ge>pos. unat (rng m) < limit"
  shows "\<exists>r pos'. draw_loop limit rng pos = Some (r, pos')"
proof -
  let ?P = "\<lambda>m. pos \<le> m \<and> unat (rng m) < limit"
  obtain m where m: "?P m" "\<And>k. k < m \<Longrightarrow> \<not> ?P k" using assms exists_least_iff [of ?P] by blast
  have "limit \<le> unat (rng k)" if "pos \<le> k" "k < m" for k using m(2) [OF that(2)] that(1) by linarith
  then have "draw_loop limit rng pos = Some (rng m, m + 1)" using m(1) by (intro draw_loop_first) blast+
  then show ?thesis by blast
qed

lemma draw_loop_SomeD:
  assumes "draw_loop limit rng pos = Some y"
  shows "\<exists>m\<ge>pos. y = (rng m, m + 1) \<and> unat (rng m) < limit"
proof (rule draw_loop.raw_induct [where P = "\<lambda>limit rng pos y. \<exists>m\<ge>pos. y = (rng m, m + 1) \<and> unat (rng m) < limit",
      OF _ assms])
  fix draw :: "nat \<Rightarrow> (nat \<Rightarrow> u32) \<Rightarrow> nat \<Rightarrow> (u32 \<times> nat) option"
    and limit :: nat and rng :: "nat \<Rightarrow> u32" and pos :: nat and y :: "u32 \<times> nat"
  assume ih: "\<And>limit rng pos y. draw limit rng pos = Some y \<Longrightarrow>
      \<exists>m\<ge>pos. y = (rng m, m + 1) \<and> unat (rng m) < limit"
    and step: "(if limit \<le> unat (rng pos) then draw limit rng (pos + 1) else Some (rng pos, pos + 1)) = Some y"
  show "\<exists>m\<ge>pos. y = (rng m, m + 1) \<and> unat (rng m) < limit"
  proof (cases "limit \<le> unat (rng pos)")
    case True
    then have "draw limit rng (pos + 1) = Some y" using step by (simp only: if_True)
    from ih [OF this] obtain m where "m \<ge> pos + 1" "y = (rng m, m + 1) \<and> unat (rng m) < limit" by blast
    then show ?thesis by (intro exI [of _ m]) simp
  next
    case False
    then have "y = (rng pos, pos + 1)" using step by (simp only: if_False option.inject)
    then show ?thesis using False by (intro exI [of _ pos]) simp
  qed
qed

lemma draw_limit_mult: "draw_limit b = b * (draw_range div b)"
  by (simp add: draw_limit_def minus_mod_eq_mult_div)

lemma draw_limit_le: "draw_limit b \<le> 2 ^ 32"
  by (simp add: draw_limit_def draw_range_def)

lemma draw_limit_pos: "0 < b \<Longrightarrow> b \<le> draw_range \<Longrightarrow> 0 < draw_limit b"
  by (simp add: draw_limit_mult div_greater_zero_iff)

text \<open>Every residue comes from equally many accepted words.\<close>

lemma accepted_residues:
  assumes "k < b"
  shows "card {r :: u32. unat r < draw_limit b \<and> unat r mod b = k} = draw_limit b div b"
proof -
  let ?f = "\<lambda>q. of_nat (q * b + k) :: u32"
  let ?n = "draw_range div b"
  have small: "q * b + k < draw_limit b" if "q < ?n" for q
  proof -
    have "q * b + k < (q + 1) * b" using assms by simp
    also have "\<dots> \<le> ?n * b" using that by (intro mult_right_mono) auto
    finally show ?thesis by (simp add: draw_limit_mult mult.commute)
  qed
  have unat: "unat (?f q) = q * b + k" if "q < ?n" for q
    using small [OF that] draw_limit_le [of b] by (simp only: unat_of_nat) simp
  have "{r :: u32. unat r < draw_limit b \<and> unat r mod b = k} = ?f ` {..<?n}"
  proof (intro equalityI subsetI)
    fix r :: u32
    assume "r \<in> {r. unat r < draw_limit b \<and> unat r mod b = k}"
    then have r: "unat r < b * ?n" "unat r mod b = k" by (simp_all add: draw_limit_mult)
    have eq: "unat r div b * b + k = unat r" using r(2) div_mult_mod_eq [of "unat r" b] by simp
    have "?f (unat r div b) = r" unfolding eq by simp
    moreover have "unat r div b < ?n" using r(1) assms by (simp add: less_mult_imp_div_less mult.commute)
    ultimately show "r \<in> ?f ` {..<?n}" by force
  next
    fix r assume "r \<in> ?f ` {..<?n}"
    then obtain q where q: "q < ?n" and r: "r = ?f q" by blast
    show "r \<in> {r. unat r < draw_limit b \<and> unat r mod b = k}"
      unfolding r mem_Collect_eq unat [OF q] using small [OF q] assms by simp
  qed
  moreover have "inj_on ?f {..<?n}"
  proof (rule inj_onI)
    fix x y assume "x \<in> {..<?n}" "y \<in> {..<?n}" "?f x = ?f y"
    then have "x * b + k = y * b + k" using unat by (metis lessThan_iff)
    then show "x = y" using assms by simp
  qed
  ultimately show ?thesis using assms by (simp add: card_image draw_limit_mult)
qed

section \<open>The shuffle\<close>

text \<open>The shuffle with the drawn indices given, the first one for the last position.\<close>

fun fisher_yates :: "nat list \<Rightarrow> 'a list \<Rightarrow> 'a list" where
  "fisher_yates [] a = a"
| "fisher_yates (j # js) a = fisher_yates js (swap_at (length (j # js)) j a)"

fun valid_choices :: "nat list \<Rightarrow> bool" where
  "valid_choices [] = True"
| "valid_choices (j # js) \<longleftrightarrow> j \<le> length (j # js) \<and> valid_choices js"

lemma length_swap_at [simp]: "length (swap_at i j a) = length a"
  by (simp add: swap_at_def)

lemma mset_swap_at: "i < length a \<Longrightarrow> j < length a \<Longrightarrow> mset (swap_at i j a) = mset a"
  unfolding swap_at_def by (rule mset_swap)

lemma distinct_swap_at: "i < length a \<Longrightarrow> j < length a \<Longrightarrow> distinct (swap_at i j a) = distinct a"
  unfolding swap_at_def by (rule distinct_swap)

lemma nth_swap_at_fst: "i < length a \<Longrightarrow> j < length a \<Longrightarrow> swap_at i j a ! i = a ! j"
  by (cases "i = j") (simp_all add: swap_at_def)

lemma nth_swap_at_beyond: "i < k \<Longrightarrow> j < k \<Longrightarrow> swap_at i j a ! k = a ! k"
  by (simp add: swap_at_def)

lemma fisher_yates_mset:
  "valid_choices cs \<Longrightarrow> length cs < length a \<Longrightarrow> mset (fisher_yates cs a) = mset a"
proof (induction cs arbitrary: a)
  case (Cons j js)
  then show ?case by (simp add: mset_swap_at)
qed simp

lemma fisher_yates_beyond:
  "valid_choices cs \<Longrightarrow> length cs < k \<Longrightarrow> fisher_yates cs a ! k = a ! k"
proof (induction cs arbitrary: a)
  case (Cons j js)
  then show ?case by (simp add: nth_swap_at_beyond)
qed simp

text \<open>Every order arises from exactly one sequence of choices.\<close>

lemma fisher_yates_unique:
  assumes "distinct a" and "n < length a" and "mset p = mset a" and "\<forall>k>n. k < length a \<longrightarrow> p ! k = a ! k"
  shows "\<exists>!cs. length cs = n \<and> valid_choices cs \<and> fisher_yates cs a = p"
  using assms
proof (induction n arbitrary: a)
  case 0
  have len: "length p = length a" using 0(3) mset_eq_length by blast
  obtain x xs y ys where a: "a = x # xs" and p: "p = y # ys" using 0(2) len by (cases a; cases p) auto
  have "ys = xs" using 0(4) len unfolding a p by (intro nth_equalityI) (auto dest: spec [of _ "Suc _"])
  then have "p = a" using 0(3) unfolding a p by simp
  then show ?case by auto
next
  case (Suc n)
  have len: "length p = length a" using Suc.prems(3) mset_eq_length by blast
  have "p ! Suc n \<in> set a" using Suc.prems(2,3) len mset_eq_setD nth_mem by metis
  then obtain j where j: "j < length a" "a ! j = p ! Suc n" by (auto simp: in_set_conv_nth)
  have dp: "distinct p" using Suc.prems(1,3) mset_eq_imp_distinct_iff by blast
  have "j \<le> Suc n"
  proof (rule ccontr)
    assume "\<not> j \<le> Suc n"
    then have "p ! j = p ! Suc n" using Suc.prems(4) j by auto
    with dp len j(1) Suc.prems(2) \<open>\<not> j \<le> Suc n\<close> show False by (simp add: nth_eq_iff_index_eq)
  qed
  let ?a = "swap_at (Suc n) j a"
  have "\<forall>k>n. k < length ?a \<longrightarrow> p ! k = ?a ! k"
  proof (intro allI impI)
    fix k assume k: "n < k" "k < length ?a"
    show "p ! k = ?a ! k"
    proof (cases "k = Suc n")
      case True
      then show ?thesis using j Suc.prems(2) by (simp add: nth_swap_at_fst)
    next
      case False
      then show ?thesis using k \<open>j \<le> Suc n\<close> Suc.prems(4) by (simp add: nth_swap_at_beyond)
    qed
  qed
  then have ih: "\<exists>!cs. length cs = n \<and> valid_choices cs \<and> fisher_yates cs ?a = p"
    using Suc.prems j(1) by (intro Suc.IH) (simp_all add: distinct_swap_at mset_swap_at)
  then obtain js where js: "length js = n" "valid_choices js" "fisher_yates js ?a = p" by blast
  show ?case
  proof (rule ex1I [of _ "j # js"])
    show "length (j # js) = Suc n \<and> valid_choices (j # js) \<and> fisher_yates (j # js) a = p"
      using js \<open>j \<le> Suc n\<close> by simp
    fix cs assume cs: "length cs = Suc n \<and> valid_choices cs \<and> fisher_yates cs a = p"
    then obtain i ks where i: "cs = i # ks" "length ks = n" "i \<le> Suc n" "valid_choices ks"
        "fisher_yates ks (swap_at (Suc n) i a) = p"
      by (cases cs) auto
    have "p ! Suc n = a ! i"
      using fisher_yates_beyond [OF i(4), of "Suc n" "swap_at (Suc n) i a"] i Suc.prems(2) by (simp add: nth_swap_at_fst)
    then have "i = j" using j i(3) Suc.prems(1,2) by (simp add: nth_eq_iff_index_eq)
    with ih i js show "cs = j # js" by auto
  qed
qed

section \<open>The order of the slots is uniform\<close>

definition stream_of :: "u32 list \<Rightarrow> nat \<Rightarrow> u32" where
  "stream_of rs n = (if n < length rs then rs ! n else 0)"

lemma shuffle_loop_choices:
  assumes "shuffle_loop rng pos i a = Some p"
  shows "\<exists>cs. length cs = i \<and> valid_choices cs \<and> p = fisher_yates cs a"
  using assms
proof (induction i arbitrary: pos a)
  case (Suc i)
  then obtain r pos' where "draw_loop (draw_limit (Suc i + 1)) rng pos = Some (r, pos')"
    and "shuffle_loop rng pos' i (swap_at (Suc i) (unat r mod (Suc i + 1)) a) = Some p"
    by (auto simp: Let_def split: option.splits prod.splits)
  with Suc.IH obtain cs where "length cs = i" "valid_choices cs"
    "p = fisher_yates cs (swap_at (Suc i) (unat r mod (Suc i + 1)) a)" by blast
  moreover have "unat r mod (Suc i + 1) \<le> Suc i" using mod_less_divisor [of "Suc i + 1" "unat r"] by linarith
  ultimately show ?case by (intro exI [of _ "(unat r mod (Suc i + 1)) # cs"]) simp
qed simp

lemma shuffle_loop_total:
  assumes "\<And>b k. 2 \<le> b \<Longrightarrow> b \<le> i + 1 \<Longrightarrow> \<exists>m\<ge>k. unat (rng m) < draw_limit b"
  shows "\<exists>p. shuffle_loop rng pos i a = Some p"
  using assms
proof (induction i arbitrary: pos a)
  case (Suc i)
  obtain r pos' where "draw_loop (draw_limit (Suc i + 1)) rng pos = Some (r, pos')"
    using draw_loop_total [OF Suc.prems [of "Suc i + 1" pos]] by auto
  then show ?case using Suc.IH Suc.prems by (simp add: Let_def)
qed simp

text \<open>Of the three draws of the shuffle only the second one rejects, and only the largest word.\<close>

lemma max_word_unat: "(r :: u32) \<noteq> 0xffffffff \<longleftrightarrow> unat r < 0xffffffff"
proof -
  have "r \<noteq> 0xffffffff \<longleftrightarrow> unat r \<noteq> unat (0xffffffff :: u32)" by (simp only: word_unat_eq_iff)
  then show ?thesis using unsigned_less [of r, where 'a = nat] by auto
qed

lemma draw_accepts:
  fixes r :: u32
  shows "unat r < draw_limit 4" "unat r < draw_limit 3 \<longleftrightarrow> r \<noteq> 0xffffffff" "unat r < draw_limit 2"
  using unsigned_less [of r, where 'a = nat] unfolding max_word_unat by (simp_all add: draw_limit_def draw_range_def)

lemma shuffle_outputs:
  assumes "\<And>k. k < n \<Longrightarrow> rng (1 + k) = 0xffffffff" and "rng (1 + n) \<noteq> 0xffffffff"
  shows "DeterministicShuffle rng a =
    Some (fisher_yates [unat (rng 0) mod 4, unat (rng (1 + n)) mod 3, unat (rng (2 + n)) mod 2] a)"
proof -
  have "draw_limit 3 \<le> unat (rng k)" if "1 \<le> k" "k < 1 + n" for k
    using assms(1) [of "k - 1"] that draw_accepts(2) [of "rng k"] by simp
  then have "draw_loop (draw_limit 3) rng 1 = Some (rng (1 + n), 2 + n)"
    using draw_loop_first [of 1 "1 + n" rng "draw_limit 3"] assms(2) draw_accepts(2) by simp
  moreover have "draw_loop (draw_limit 4) rng 0 = Some (rng 0, 1)"
    "draw_loop (draw_limit 2) rng (2 + n) = Some (rng (2 + n), 3 + n)"
    using draw_loop_first [of 0 0 rng "draw_limit 4"] draw_loop_first [of "2 + n" "2 + n" rng "draw_limit 2"]
      draw_accepts(1) [of "rng 0"] draw_accepts(3) [of "rng (2 + n)"] by simp_all
  moreover have "NUM_SLOTS - 1 = Suc (Suc (Suc 0))" "Suc (Suc (Suc 0)) + 1 = (4 :: nat)" "Suc (Suc 0) + 1 = (3 :: nat)"
    "Suc 0 + 1 = (2 :: nat)" "length [x, y, z] = Suc (Suc (Suc 0))" "length [y, z] = Suc (Suc 0)" "length [z] = Suc 0"
    for x y z :: nat by (simp_all add: NUM_SLOTS_def)
  ultimately show ?thesis
    by (simp only: DeterministicShuffle_def shuffle_loop.simps fisher_yates.simps Let_def option.case prod.case)
qed

lemma shuffle_stream:
  assumes "r2 \<noteq> 0xffffffff"
  shows "DeterministicShuffle (stream_of [r3, r2, r1]) a =
    Some (fisher_yates [unat r3 mod 4, unat r2 mod 3, unat r1 mod 2] a)"
  using shuffle_outputs [of 0 "stream_of [r3, r2, r1]" a] assms by (simp add: stream_of_def)

text \<open>
  C35: The random order of the measurement slots is unbiased. Whatever the generator produces, the
  result is a permutation of the slots; unless the generator ends in an endless run of the one
  rejected word, the shuffle returns. A rejected output changes nothing: only the draw for the third
  slot rejects, and only the word \<open>0xffffffff\<close>; however many of them come there, the order is the one of
  the three outputs that remain. Every one of the 24 orders arises from the same number of triples of
  accepted outputs.
\<close>

theorem slot_order_uniform:
  assumes "length a = NUM_SLOTS" and "distinct a" and "mset p = mset a"
  shows "(\<forall>q. DeterministicShuffle rng a = Some q \<longrightarrow> mset q = mset a) \<and>
    ((\<forall>k. \<exists>m\<ge>k. rng m \<noteq> 0xffffffff) \<longrightarrow> (\<exists>q. DeterministicShuffle rng a = Some q)) \<and>
    (\<forall>n. (\<forall>k<n. rng (1 + k) = 0xffffffff) \<and> rng (1 + n) \<noteq> 0xffffffff \<longrightarrow>
       DeterministicShuffle rng a = DeterministicShuffle (stream_of [rng 0, rng (1 + n), rng (2 + n)]) a) \<and>
    card {(r3, r2, r1). unat r3 < draw_limit 4 \<and> unat r2 < draw_limit 3 \<and> unat r1 < draw_limit 2 \<and>
            DeterministicShuffle (stream_of [r3, r2, r1]) a = Some p} = 2 ^ 30 * 1431655765 * 2 ^ 31"
proof (intro conjI allI impI)
  fix q assume "DeterministicShuffle rng a = Some q"
  then show "mset q = mset a"
    using shuffle_loop_choices fisher_yates_mset assms(1) unfolding DeterministicShuffle_def
    by (metis NUM_SLOTS_def diff_less zero_less_numeral zero_less_one)
next
  assume often: "\<forall>k. \<exists>m\<ge>k. rng m \<noteq> 0xffffffff"
  have "\<exists>m\<ge>k. unat (rng m) < draw_limit b" if "2 \<le> b" "b \<le> 4" for b k
  proof -
    obtain m where "m \<ge> k" "rng m \<noteq> 0xffffffff" using often by blast
    moreover have "b = 2 \<or> b = 3 \<or> b = 4" using that by auto
    ultimately show ?thesis using draw_accepts by (intro exI [of _ m]) auto
  qed
  then show "\<exists>q. DeterministicShuffle rng a = Some q"
    unfolding DeterministicShuffle_def NUM_SLOTS_def by (intro shuffle_loop_total) simp
next
  fix n assume "(\<forall>k<n. rng (1 + k) = 0xffffffff) \<and> rng (1 + n) \<noteq> 0xffffffff"
  then show "DeterministicShuffle rng a = DeterministicShuffle (stream_of [rng 0, rng (1 + n), rng (2 + n)]) a"
    using shuffle_outputs [of n rng a] shuffle_stream [of "rng (1 + n)" "rng 0" "rng (2 + n)" a] by simp
next
  have "\<exists>!cs. length cs = 3 \<and> valid_choices cs \<and> fisher_yates cs a = p"
    using assms mset_eq_length [OF assms(3)] by (intro fisher_yates_unique) (simp_all add: NUM_SLOTS_def)
  then obtain cs where cs: "length cs = 3" "valid_choices cs" "fisher_yates cs a = p"
    and unique: "\<And>ds. length ds = 3 \<Longrightarrow> valid_choices ds \<Longrightarrow> fisher_yates ds a = p \<Longrightarrow> ds = cs" by (elim ex1E) blast
  obtain c3 c2 c1 where c1: "cs = [c3, c2, c1]" using cs(1) by (auto simp: length_Suc_conv numeral_3_eq_3)
  then have c: "cs = [c3, c2, c1]" "c3 \<le> 3" "c2 \<le> 2" "c1 \<le> 1" using cs(2) by simp_all
  let ?A = "\<lambda>b k. {r :: u32. unat r < draw_limit b \<and> unat r mod b = k}"
  have iff: "fisher_yates [x, y, z] a = p \<longleftrightarrow> x = c3 \<and> y = c2 \<and> z = c1" if "x \<le> 3" "y \<le> 2" "z \<le> 1" for x y z
    using unique [of "[x, y, z]"] cs(3) that unfolding c(1) by auto
  have small: "unat r mod 4 \<le> 3" "unat r mod 3 \<le> 2" "unat r mod 2 \<le> 1" for r :: u32 by (simp_all add: less_Suc_eq_le [symmetric])
  have "{(r3, r2, r1). unat r3 < draw_limit 4 \<and> unat r2 < draw_limit 3 \<and> unat r1 < draw_limit 2 \<and>
          DeterministicShuffle (stream_of [r3, r2, r1]) a = Some p} = ?A 4 c3 \<times> ?A 3 c2 \<times> ?A 2 c1" (is "?S = _")
    using iff [OF small(1) small(2) small(3)] by (auto simp: shuffle_stream draw_accepts)
  moreover have "card (?A 4 c3) = 2 ^ 30" "card (?A 3 c2) = 1431655765" "card (?A 2 c1) = 2 ^ 31"
    using accepted_residues [of c3 4] accepted_residues [of c2 3] accepted_residues [of c1 2] c(2-4)
    by (simp_all add: draw_limit_def draw_range_def)
  ultimately show "card ?S = 2 ^ 30 * 1431655765 * 2 ^ 31" by (simp add: card_cartesian_product)
qed

text \<open>The order 3, 1, 0, 2, and a generator whose second output is rejected.\<close>

theorem slot_order_uniform_witness:
  "card {(r3, r2, r1). unat r3 < draw_limit 4 \<and> unat r2 < draw_limit 3 \<and> unat r1 < draw_limit 2 \<and>
     DeterministicShuffle (stream_of [r3, r2, r1]) [0, 1, 2, 3 :: int] = Some [3, 1, 0, 2]} =
     2 ^ 30 * 1431655765 * 2 ^ 31 \<and>
   DeterministicShuffle (stream_of [6, 0xffffffff, 4, 8]) [0, 1, 2, 3 :: int] =
     DeterministicShuffle (stream_of [6, 4, 8]) [0, 1, 2, 3]"
proof -
  let ?rng = "stream_of [6, 0xffffffff, 4, 8]"
  have a: "length [0, 1, 2, 3 :: int] = NUM_SLOTS" "distinct [0, 1, 2, 3 :: int]"
    "mset [3, 1, 0, 2] = mset [0, 1, 2, 3 :: int]" by (simp_all add: NUM_SLOTS_def)
  note uniform = slot_order_uniform [OF a, of ?rng]
  have "(\<forall>k<1. ?rng (1 + k) = 0xffffffff) \<and> ?rng (1 + 1) \<noteq> 0xffffffff" by (simp add: stream_of_def)
  then have "DeterministicShuffle ?rng [0, 1, 2, 3 :: int] =
      DeterministicShuffle (stream_of [?rng 0, ?rng (1 + 1), ?rng (2 + 1)]) [0, 1, 2, 3]"
    using uniform [THEN conjunct2, THEN conjunct2, THEN conjunct1, THEN spec [of _ 1]] by blast
  moreover have "[?rng 0, ?rng (1 + 1), ?rng (2 + 1)] = [6, 4, 8]" by (simp add: stream_of_def)
  ultimately show ?thesis using uniform [THEN conjunct2, THEN conjunct2, THEN conjunct2] by (simp only: simp_thms)
qed

section \<open>The data flows do not share nodes\<close>

lemma DeterministicDraw_total:
  assumes "0 < bound" and "\<exists>m\<ge>pos. unat (rng m) < draw_limit (unat bound)"
  shows "\<exists>j pos'. DeterministicDraw rng bound pos = Some (j, pos') \<and> unat j < unat bound"
proof -
  obtain r pos' where "draw_loop (draw_limit (unat bound)) rng pos = Some (r, pos')"
    using draw_loop_total [OF assms(2)] by blast
  moreover have "0 < unat bound" using assms(1) by (simp add: unat_gt_0 word_neq_0_conv)
  then have "unat r mod unat bound < unat bound" by simp
  then have "unat (of_nat (unat r mod unat bound) :: u32) < unat bound"
    using unsigned_less [of bound, where 'a = nat] by (simp only: unat_of_nat) simp
  moreover have "bound \<noteq> 0" using assms(1) by auto
  ultimately show ?thesis by (simp add: DeterministicDraw_def)
qed

lemma candidate_shuffle_total:
  assumes "\<And>b k. 0 < b \<Longrightarrow> b \<le> i \<Longrightarrow> \<exists>m\<ge>k. unat (rng m) < draw_limit b" and "i \<le> length cand" and "i < 2 ^ 32"
  shows "\<exists>cand'. candidate_shuffle rng pos i cand = Some cand' \<and> mset cand' = mset cand"
  using assms
proof (induction i arbitrary: pos cand rule: induct_nat_012)
  case (ge2 i)
  have u: "unat (of_nat (Suc (Suc i)) :: u32) = Suc (Suc i)"
    using ge2.prems(3) by (simp only: unat_of_nat) simp
  have "(0 :: u32) < of_nat (Suc (Suc i))" using u by (metis unat_gt_0 word_gt_0 unat_0 nat.distinct(1))
  then obtain j pos' where j: "DeterministicDraw rng (of_nat (Suc (Suc i))) pos = Some (j, pos')" "unat j < Suc (Suc i)"
    using DeterministicDraw_total [of "of_nat (Suc (Suc i))" pos rng] ge2.prems(1) [of "Suc (Suc i)" pos] unfolding u by auto
  have "mset (swap_at (Suc i) (unat j) cand) = mset cand"
    using ge2.prems(2) j(2) by (intro mset_swap_at) auto
  moreover obtain cand' where "candidate_shuffle rng pos' (Suc i) (swap_at (Suc i) (unat j) cand) = Some cand'"
      "mset cand' = mset (swap_at (Suc i) (unat j) cand)"
    using ge2.IH(2) [of "swap_at (Suc i) (unat j) cand" pos'] ge2.prems by force
  ultimately show ?case using j(1) by simp
qed simp_all

lemma index_pairs_iff: "(a, b) \<in> set (index_pairs n) \<longleftrightarrow> a < n \<and> b < n"
  by (auto simp: index_pairs_def intro!: bexI [of _ a])

lemma far_pair_SomeD: "far_pair pos cand = Some (a, b) \<Longrightarrow> a \<noteq> b \<and> a < length cand \<and> b < length cand"
  unfolding far_pair_def by (auto dest!: find_first_SomeD simp: index_pairs_iff)

lemma farthest_pair_range:
  assumes "2 \<le> length cand" and "farthest_pair pos cand = (a, b)"
  shows "a \<noteq> b \<and> a < length cand \<and> b < length cand"
proof -
  let ?ok = "\<lambda>(d :: real, x, y). x \<noteq> y \<and> x < length cand \<and> y < length cand"
  let ?f = "\<lambda>(a, b) (best, p). if a = b then (best, p)
            else let d = euclid pos (cand ! a) (cand ! b) in if d > best then (d, (a, b)) else (best, p)"
  have "?ok (fold ?f (index_pairs (length cand)) (- 1, (0, 1)))"
  proof (rule fold_invariant_rule [where P = ?ok])
    show "?ok (- 1, (0, 1))" using assms(1) by (auto simp flip: length_greater_0_conv)
    fix q s assume "q \<in> set (index_pairs (length cand))" "?ok s"
    moreover obtain x y where q: "q = (x, y)" by (cases q)
    moreover obtain d u v where s: "s = (d, u, v)" by (cases s)
    ultimately show "?ok (?f q s)" unfolding q s by (simp add: index_pairs_iff Let_def)
  qed
  moreover obtain d p where fold: "fold ?f (index_pairs (length cand)) (- 1, (0, 1)) = (d, p)"
    by (cases "fold ?f (index_pairs (length cand)) (- 1, (0, 1))")
  moreover have "p = (a, b)" using assms(2) unfolding farthest_pair_def fold by simp
  ultimately show ?thesis by simp
qed

lemma mset_erase_at: "i < length xs \<Longrightarrow> mset (erase_at i xs) + {#xs ! i#} = mset xs"
  by (subst (3) id_take_nth_drop [of i xs]) (simp_all add: erase_at_def)

lemma nth_erase_at: "k < i \<Longrightarrow> i < length xs \<Longrightarrow> erase_at i xs ! k = xs ! k"
  by (simp add: erase_at_def nth_append)

lemma mset_erase_two:
  assumes "a \<noteq> b" and "a < length xs" and "b < length xs"
  shows "mset (erase_at (min a b) (erase_at (max a b) xs)) + {#xs ! a, xs ! b#} = mset xs"
proof -
  have lt: "min a b < max a b" "max a b < length xs" using assms by auto
  moreover have "length (erase_at (max a b) xs) = length xs - 1" using assms by (simp add: erase_at_def)
  moreover have "min a b < length xs - 1" using lt by linarith
  ultimately have "mset (erase_at (min a b) (erase_at (max a b) xs)) + {#xs ! min a b#} + {#xs ! max a b#} = mset xs"
    using mset_erase_at [of "min a b" "erase_at (max a b) xs"] mset_erase_at [of "max a b" xs] nth_erase_at [of "min a b" "max a b" xs]
    by simp
  then show ?thesis by (cases "a < b") (auto simp: min_def max_def add_mset_commute)
qed

definition endpoints :: "(nat \<times> nat) list \<Rightarrow> nat list" where
  "endpoints flows = concat (map (\<lambda>(a, b). [a, b]) flows)"

lemma endpoints_Cons [simp]: "endpoints [] = []" "endpoints ((a, b) # flows) = a # b # endpoints flows"
  by (simp_all add: endpoints_def)

lemma flow_loop_endpoints:
  assumes "2 * k \<le> length cand"
  shows "\<exists>new rest. flow_loop pos k cand flows = flows @ new \<and> length new = k \<and>
    mset (endpoints new) + mset rest = mset cand"
  using assms
proof (induction k arbitrary: cand flows)
  case (Suc k)
  obtain a b where ab: "(case far_pair pos cand of Some p \<Rightarrow> p | None \<Rightarrow> farthest_pair pos cand) = (a, b)"
    by (cases "case far_pair pos cand of Some p \<Rightarrow> p | None \<Rightarrow> farthest_pair pos cand")
  have r: "a \<noteq> b" "a < length cand" "b < length cand"
    using ab far_pair_SomeD [of pos cand a b] farthest_pair_range [of cand pos a b] Suc.prems
    by (auto split: option.splits)
  let ?c = "erase_at (min a b) (erase_at (max a b) cand)"
  have m: "mset ?c + {#cand ! a, cand ! b#} = mset cand" by (rule mset_erase_two [OF r])
  have "length ?c + 2 = length cand" using arg_cong [OF m, of size] by simp
  then obtain new rest where "flow_loop pos k ?c (flows @ [(cand ! a, cand ! b)]) = (flows @ [(cand ! a, cand ! b)]) @ new"
      "length new = k" "mset (endpoints new) + mset rest = mset ?c"
    using Suc.IH [of ?c "flows @ [(cand ! a, cand ! b)]"] Suc.prems by auto
  with m ab show ?case
    by (intro exI [of _ "(cand ! a, cand ! b) # new"] exI [of _ rest]) simp
qed auto

text \<open>
  The data flows never share a node and never involve an attacker. When there are enough honest
  nodes and the generator does not reject for ever, the selection returns as many flows as asked
  for; the first is from node 1 to node 0, all end points of all flows are distinct nodes, and the
  end points of the other flows are no attackers. With fewer nodes the program stops.
\<close>

theorem flows_disjoint:
  assumes "\<And>b k. 0 < b \<Longrightarrow> b \<le> length pos \<Longrightarrow> \<exists>m\<ge>k. unat (rng m) < draw_limit b"
    and "2 \<le> length pos" and "length pos < 2 ^ 32" and "0 < numFlows"
    and "cand = flow_candidates attackerSet (length pos)"
  shows "if 2 * numFlows \<le> length cand + 2
    then \<exists>flows. SelectDataFlowPairs numFlows rng pos attackerSet = Inr flows \<and> length flows = numFlows \<and>
      hd flows = (UDP_CLIENT_NODE_ID, UDP_SERVER_NODE_ID) \<and> distinct (endpoints flows) \<and>
      set (endpoints flows) \<subseteq> {..<length pos} \<and> set (endpoints (tl flows)) \<inter> set attackerSet = {}
    else SelectDataFlowPairs numFlows rng pos attackerSet = Inl Fatal_error"
proof (cases "2 * numFlows \<le> length cand + 2")
  case False
  then show ?thesis by (simp add: SelectDataFlowPairs_def assms(5) Let_def)
next
  case True
  have "length cand \<le> length pos" unfolding assms(5) flow_candidates_def
    using length_filter_le [of _ "[0..<length pos]"] by simp
  then obtain cand' where cand': "candidate_shuffle rng 0 (length cand) cand = Some cand'" "mset cand' = mset cand"
    using candidate_shuffle_total [of "length cand" rng cand 0] assms(1,3) by fastforce
  have "distinct cand" by (simp add: assms(5) flow_candidates_def)
  then have sets: "set cand' = set cand" "length cand' = length cand" "distinct cand'"
    using mset_eq_setD [OF cand'(2)] mset_eq_length [OF cand'(2)] mset_eq_imp_distinct_iff [OF cand'(2)] by simp_all
  let ?first = "(UDP_CLIENT_NODE_ID, UDP_SERVER_NODE_ID)"
  obtain new rest where new: "flow_loop pos (numFlows - 1) cand' [?first] = [?first] @ new" "length new = numFlows - 1"
      "mset (endpoints new @ rest) = mset cand'"
  proof -
    have "2 * (numFlows - 1) \<le> length cand'" using True sets(2) assms(4) by linarith
    from flow_loop_endpoints [OF this, of pos "[?first]"] show thesis using that by auto
  qed
  have ends: "distinct (endpoints new)" "set (endpoints new) \<subseteq> set cand"
    using mset_eq_imp_distinct_iff [OF new(3)] mset_eq_setD [OF new(3)] sets by auto
  have "set cand \<subseteq> {..<length pos} - set attackerSet - {UDP_CLIENT_NODE_ID, UDP_SERVER_NODE_ID}"
    by (auto simp: assms(5) flow_candidates_def set_count_def)
  then have "distinct (endpoints (?first # new))" "set (endpoints (?first # new)) \<subseteq> {..<length pos}"
    "set (endpoints new) \<inter> set attackerSet = {}"
    using ends assms(2) by (auto simp: UDP_CLIENT_NODE_ID_def UDP_SERVER_NODE_ID_def)
  moreover have "SelectDataFlowPairs numFlows rng pos attackerSet = Inr (?first # new)"
    using True cand' new by (simp add: SelectDataFlowPairs_def assms(5) [symmetric] Let_def)
  ultimately show ?thesis using True new(2) assms(4) by simp
qed

text \<open>Seven nodes on a line, of which node 4 is an attacker.\<close>

definition seven_nodes :: "position list" where
  "seven_nodes = map (\<lambda>i. (of_nat i * 100, 0, 0)) [0..<7]"

theorem flows_disjoint_witness:
  "\<exists>flows. SelectDataFlowPairs 3 (\<lambda>n. of_nat n) seven_nodes [4] = Inr flows \<and> length flows = 3 \<and>
     distinct (endpoints flows) \<and> 4 \<notin> set (endpoints (tl flows))"
proof -
  have "\<exists>m\<ge>k. unat (of_nat m :: u32) < draw_limit b" if "0 < b" "b \<le> 7" for b k
  proof (intro exI conjI)
    show "k \<le> k * 2 ^ 32" by simp
    have "0 < draw_limit b" using that by (intro draw_limit_pos) (simp_all add: draw_range_def)
    then show "unat (of_nat (k * 2 ^ 32) :: u32) < draw_limit b" by (simp only: unat_of_nat) simp
  qed
  moreover have "flow_candidates [4] 7 = [2, 3, 5, 6]"
    by (simp add: flow_candidates_def upt_rec set_count_def UDP_SERVER_NODE_ID_def UDP_CLIENT_NODE_ID_def)
  ultimately show ?thesis
    using flows_disjoint [of seven_nodes "\<lambda>n. of_nat n" 3 "[2, 3, 5, 6]" "[4]"]
    by (auto simp: seven_nodes_def)
qed

end
