(* ===== verification/Eval_Network.thy ===== *)
theory Eval_Network
  imports Complex_Main Node_Settings Eval_Draw
begin

text \<open>
  How the evaluation harness (src/scratch/olsr-dcfm-eval-mitigation.cc) looks at the whole network: the
  nodes with their routing protocols, the walk along the routing tables, the acceptance gates, the
  sampling of trust and of detections, and the attribute setters that switch attack and defense. The
  handlers read and write the global variables of the program, the record \<open>harness\<close>.
\<close>

section \<open>Nodes\<close>

text \<open>
  The protocols of a node's \<open>Ipv4ListRouting\<close> in their order, \<open>None\<close> when it has no \<open>Ipv4\<close> object or
  another routing protocol. \<open>Get\<close> indexes a vector without a check.
\<close>

datatype routing_child = Olsr_child node | Other_child

type_synonym sim_node = "routing_child list option"

fun first_olsr :: "routing_child list \<Rightarrow> node option" where
  "first_olsr [] = None"
| "first_olsr (Olsr_child nd # cs) = Some nd"
| "first_olsr (Other_child # cs) = first_olsr cs"

definition GetOlsrProtocol :: "sim_node \<Rightarrow> node option" where
  "GetOlsrProtocol sn = (case sn of None \<Rightarrow> None | Some cs \<Rightarrow> first_olsr cs)"

definition nodes_Get :: "nat \<Rightarrow> 'a list \<Rightarrow> 'a res" where
  "nodes_Get i nodes = (if i < length nodes then Inr (nodes ! i) else Inl Undefined)"

text \<open>A call on the protocol object that \<open>GetOlsrProtocol\<close> returns.\<close>

fun on_first_olsr :: "(node \<Rightarrow> node) \<Rightarrow> routing_child list \<Rightarrow> routing_child list" where
  "on_first_olsr f [] = []"
| "on_first_olsr f (Olsr_child nd # cs) = Olsr_child (f nd) # cs"
| "on_first_olsr f (Other_child # cs) = Other_child # on_first_olsr f cs"

definition on_olsr :: "(node \<Rightarrow> node) \<Rightarrow> sim_node \<Rightarrow> sim_node" where
  "on_olsr f = map_option (on_first_olsr f)"

definition GetRoutingTableEntries :: "node \<Rightarrow> RoutingTableEntry list" where
  "GetRoutingTableEntries nd = map snd (nd_table nd)"

lemma first_olsr_on [simp]: "first_olsr (on_first_olsr f cs) = map_option f (first_olsr cs)"
  by (induction cs rule: first_olsr.induct) simp_all

lemma GetOlsrProtocol_on [simp]: "GetOlsrProtocol (on_olsr f sn) = map_option f (GetOlsrProtocol sn)"
  by (cases sn) (simp_all add: GetOlsrProtocol_def on_olsr_def)

section \<open>The walk along the routing tables\<close>

text \<open>The entry for \<open>dst\<close> in a node's table, as the loop over the entries finds it.\<close>

definition entry_for :: "ipv4 \<Rightarrow> node \<Rightarrow> RoutingTableEntry option" where
  "entry_for dst nd = find_first (\<lambda>e. rt_destAddr e = dst) (GetRoutingTableEntries nd)"

text \<open>\<open>steps\<close> is what is left of the bound on the number of iterations.\<close>

fun walk_loop ::
  "sim_node list \<Rightarrow> (ipv4, nat) std_map \<Rightarrow> ipv4 \<Rightarrow> nat \<Rightarrow> ipv4 std_set \<Rightarrow> ipv4 \<Rightarrow> nat list \<Rightarrow> nat list res"
where
  "walk_loop nodes ipToNode dst 0 visited current path = Inr []"
| "walk_loop nodes ipToNode dst (Suc steps) visited current path =
     (if set_count visited current then Inr []
      else case map_of ipToNode current of
        None \<Rightarrow> Inr []
      | Some nodeIdx \<Rightarrow>
          if current = dst then Inr (path @ [nodeIdx])
          else bindR (nodes_Get nodeIdx nodes) (\<lambda>sn.
            case GetOlsrProtocol sn of
              None \<Rightarrow> Inr []
            | Some proto \<Rightarrow>
                (case entry_for dst proto of
                   None \<Rightarrow> Inr []
                 | Some e \<Rightarrow> walk_loop nodes ipToNode dst steps (set_insert current visited) (rt_nextAddr e)
                               (path @ [nodeIdx]))))"

definition WalkOlsrPath :: "sim_node list \<Rightarrow> (ipv4, nat) std_map \<Rightarrow> ipv4 \<Rightarrow> ipv4 \<Rightarrow> nat list res" where
  "WalkOlsrPath nodes ipToNode src dst = walk_loop nodes ipToNode dst (length nodes + 2) [] src []"

section \<open>The state of the harness\<close>

record harness =
  g_nodes :: "sim_node list"
  g_ipToNode :: "(ipv4, nat) std_map"
  g_nodeToIp :: "(nat, ipv4) std_map"
  g_flowPairs :: "(nat \<times> nat) list"
  g_scenarioOrder :: "nat list"
  g_attackCurrentlyOn :: bool
  g_defenseCurrentlyOn :: bool
  g_runRejected :: bool
  g_rejectReason :: string
  g_rejectedAtSec :: rat
  g_stopped :: bool
  g_attackerOnPathPrevWindow :: bool
  g_pathHopsPrevWindow :: int
  g_flowsWithAttackerOnPath :: nat
  g_flowsWithValidPath :: nat
  g_minAttackerTrust :: rat
  g_avgAttackerTrust :: rat
  g_blacklistMaxSize :: nat
  g_trueDetections :: nat
  g_falseDetections :: nat
  g_defendersTotal :: nat
  g_defendersInRange :: nat
  g_detectionPercent :: rat
  g_detectionPercentInRange :: rat
  g_falseAlarmRate :: rat

text \<open>The rejection of a run ends in \<open>Simulator::Stop\<close>.\<close>

definition reject :: "string \<Rightarrow> rat \<Rightarrow> 'a harness_scheme \<Rightarrow> 'a harness_scheme" where
  "reject reason now h =
     h\<lparr>g_runRejected := True, g_rejectReason := reason, g_rejectedAtSec := now, g_stopped := True\<rparr>"

section \<open>Acceptance gates\<close>

definition uniqueDests :: "node \<Rightarrow> ipv4 std_set" where
  "uniqueDests nd = fold (\<lambda>e. set_insert (rt_destAddr e)) (GetRoutingTableEntries nd) []"

text \<open>The first node that fails the gate, with the reason.\<close>

fun connectivity_loop :: "nat \<Rightarrow> sim_node list \<Rightarrow> string option" where
  "connectivity_loop N [] = None"
| "connectivity_loop N (sn # sns) =
     (case GetOlsrProtocol sn of
        None \<Rightarrow> Some ''no_olsr''
      | Some proto \<Rightarrow>
          if length (uniqueDests proto) < N - 1 then Some ''assert_connectivity'' else connectivity_loop N sns)"

definition AssertConnectivity :: "rat \<Rightarrow> 'a harness_scheme \<Rightarrow> 'a harness_scheme" where
  "AssertConnectivity now h =
     (if g_runRejected h then h
      else case connectivity_loop (length (g_nodes h)) (g_nodes h) of
        None \<Rightarrow> h
      | Some reason \<Rightarrow> reject reason now h)"

fun route_loop :: "sim_node list \<Rightarrow> (nat, ipv4) std_map \<Rightarrow> (nat \<times> nat) list \<Rightarrow> string option res" where
  "route_loop nodes nodeToIp [] = Inr None"
| "route_loop nodes nodeToIp ((srcId, dstId) # fps) =
     bindR (nodes_Get srcId nodes) (\<lambda>sn.
     case GetOlsrProtocol sn of
       None \<Rightarrow> Inr (Some ''no_olsr_on_client'')
     | Some proto \<Rightarrow>
         (case entry_for (map_ref ipv4_any nodeToIp dstId) proto of
            None \<Rightarrow> Inr (Some ''no_route_to_victim'')
          | Some _ \<Rightarrow> route_loop nodes nodeToIp fps))"

definition AssertRouteExists :: "rat \<Rightarrow> 'a harness_scheme \<Rightarrow> 'a harness_scheme res" where
  "AssertRouteExists now h =
     (if g_runRejected h \<or> length (g_nodes h) < 2 then Inr h
      else bindR (route_loop (g_nodes h) (g_nodeToIp h) (g_flowPairs h)) (\<lambda>reason.
        Inr (case reason of None \<Rightarrow> h | Some r \<Rightarrow> reject r now h)))"

section \<open>Attackers on the path, trust and detections\<close>

text \<open>The walks of all flows that reach their destination.\<close>

definition valid_paths :: "(ipv4 \<times> ipv4) list \<Rightarrow> 'a harness_scheme \<Rightarrow> nat list list res" where
  "valid_paths flowAddrPairs h =
     foldE (\<lambda>(src, dst) ps. bindR (WalkOlsrPath (g_nodes h) (g_ipToNode h) src dst) (\<lambda>p.
       Inr (if p = [] then ps else ps @ [p]))) flowAddrPairs []"

text \<open>\<open>std::lround\<close> rounds halves away from zero; the mean of hop counts is not negative.\<close>

definition lround :: "rat \<Rightarrow> int" where "lround x = \<lfloor>x + 1 / 2\<rfloor>"

definition observe_paths :: "nat list \<Rightarrow> nat list list \<Rightarrow> 'a harness_scheme \<Rightarrow> 'a harness_scheme" where
  "observe_paths attackerIds paths h =
     (let hit = filter (\<lambda>p. \<exists>v\<in>set p. v \<in> set attackerIds) paths;
          hopsSum = sum_list (map (\<lambda>p. of_nat (length p - 1)) paths)
      in h\<lparr>g_flowsWithValidPath := length paths,
           g_attackerOnPathPrevWindow := (hit \<noteq> []),
           g_flowsWithAttackerOnPath := length hit,
           g_pathHopsPrevWindow := (if length paths > 0 then lround (hopsSum / of_nat (length paths)) else 0)\<rparr>)"

text \<open>The defense objects of all nodes that are not attackers.\<close>

definition defenders :: "nat list \<Rightarrow> 'a harness_scheme \<Rightarrow> (node \<times> defense) list" where
  "defenders attackerIds h =
     List.map_filter (\<lambda>i. case GetOlsrProtocol (g_nodes h ! i) of
         None \<Rightarrow> None
       | Some proto \<Rightarrow> map_option (Pair proto) (nd_defense proto))
       (filter (\<lambda>i. i \<notin> set attackerIds) [0..<length (g_nodes h)])"

text \<open>The attackers' main addresses, one for each attacker id in range that runs the protocol.\<close>

definition attacker_addresses :: "nat list \<Rightarrow> 'a harness_scheme \<Rightarrow> ipv4 list" where
  "attacker_addresses attackerIds h =
     List.map_filter (\<lambda>i. if i < length (g_nodes h)
         then map_option nd_mainAddress (GetOlsrProtocol (g_nodes h ! i)) else None) attackerIds"

definition trust_samples :: "nat list \<Rightarrow> 'a harness_scheme \<Rightarrow> rat list" where
  "trust_samples attackerIds h =
     concat (map (\<lambda>(_, d). map (\<lambda>a. if a \<in> set (defense_GetBlacklist d) then 0 else 1)
       (attacker_addresses attackerIds h)) (defenders attackerIds h))"

definition ObserveAttackerOnPath ::
  "nat list \<Rightarrow> (ipv4 \<times> ipv4) list \<Rightarrow> 'a harness_scheme \<Rightarrow> 'a harness_scheme res" where
  "ObserveAttackerOnPath attackerIds flowAddrPairs h =
     (let h = h\<lparr>g_attackerOnPathPrevWindow := False, g_pathHopsPrevWindow := 0, g_flowsWithAttackerOnPath := 0,
                g_flowsWithValidPath := 0, g_minAttackerTrust := 1, g_avgAttackerTrust := 1,
                g_blacklistMaxSize := 0\<rparr>
      in if g_nodes h = [] then Inr h
         else bindR (if attackerIds \<noteq> []
                     then bindR (valid_paths flowAddrPairs h) (\<lambda>ps. Inr (observe_paths attackerIds ps h))
                     else Inr h) (\<lambda>h.
           let ts = trust_samples attackerIds h;
               h = h\<lparr>g_blacklistMaxSize := foldr max (map (\<lambda>(_, d). length (defense_GetBlacklist d)) (defenders attackerIds h)) 0\<rparr>
           in Inr (if ts \<noteq> []
                   then h\<lparr>g_avgAttackerTrust := sum_list ts / of_nat (length ts), g_minAttackerTrust := foldr min ts 1\<rparr>
                   else h)))"

definition percent :: "nat \<Rightarrow> nat \<Rightarrow> rat" where
  "percent a b = (if b > 0 then 100 * of_nat a / of_nat b else 0)"

definition in_range :: "ipv4 std_set \<Rightarrow> node \<Rightarrow> bool" where
  "in_range attackerAddrs proto \<longleftrightarrow>
     find_first (\<lambda>nb. set_count attackerAddrs (nt_neighborMainAddr nb)) (m_neighborSet (nd_state proto)) \<noteq> None"

definition SampleDetectionAccuracy :: "nat list \<Rightarrow> 'a harness_scheme \<Rightarrow> 'a harness_scheme" where
  "SampleDetectionAccuracy attackerIds h0 =
     (let h = h0\<lparr>g_trueDetections := 0, g_falseDetections := 0, g_defendersTotal := 0, g_defendersInRange := 0,
                 g_detectionPercent := 0, g_detectionPercentInRange := 0, g_falseAlarmRate := 0\<rparr>;
          attackerAddrs = fold set_insert (attacker_addresses attackerIds h) []
      in if g_runRejected h \<or> attackerAddrs = [] then h
         else
           let ds = defenders attackerIds h;
               accused = concat (map (\<lambda>(_, d). defense_GetBlacklist d) ds);
               trueDet = length (filter (set_count attackerAddrs) accused);
               falseDet = length (filter (\<lambda>a. \<not> set_count attackerAddrs a) accused);
               defTotal = length ds;
               defInRange = length (filter (\<lambda>(proto, _). in_range attackerAddrs proto) ds)
           in h\<lparr>g_trueDetections := trueDet, g_falseDetections := falseDet, g_defendersTotal := defTotal,
                g_defendersInRange := defInRange,
                g_detectionPercent := percent trueDet (defTotal * length attackerAddrs),
                g_detectionPercentInRange := percent trueDet (defInRange * length attackerAddrs),
                g_falseAlarmRate := percent falseDet (trueDet + falseDet)\<rparr>)"

section \<open>Attack and defense\<close>

definition SetAttackState :: "nat list \<Rightarrow> u32 \<Rightarrow> bool \<Rightarrow> 'a harness_scheme \<Rightarrow> 'a harness_scheme" where
  "SetAttackState attackerIds spoofCount active h =
     (if g_runRejected h then h
      else h\<lparr>g_nodes := fold (\<lambda>i nodes.
        if i \<ge> length nodes then nodes
        else nodes[i := on_olsr (\<lambda>nd. nd\<lparr>nd_isMalicious := active,
               nd_spoofedLinksCount := (if active then spoofCount else 0)\<rparr>) (nodes ! i)]) attackerIds (g_nodes h)\<rparr>)"

text \<open>\<open>DynamicCast<OlsrDefenseGcop>\<close>\<close>

fun on_gcop :: "(gcop \<Rightarrow> gcop) \<Rightarrow> defense \<Rightarrow> defense" where
  "on_gcop f (Gcop_defense d) = Gcop_defense (f d)"
| "on_gcop f d = d"

definition SetDefenseState :: "bool \<Rightarrow> 'a harness_scheme \<Rightarrow> 'a harness_scheme" where
  "SetDefenseState active h =
     (if g_runRejected h then h
      else h\<lparr>g_nodes := map (on_olsr (on_defense (on_gcop (Gcop_SetEnabled active)))) (g_nodes h)\<rparr>)"

definition cold_start :: "gcop \<Rightarrow> gcop" where
  "cold_start d = (let cur = gc_enabled d in Gcop_SetEnabled cur (Gcop_SetEnabled (\<not> cur) d))"

definition ForceDefenseColdStart :: "'a harness_scheme \<Rightarrow> 'a harness_scheme" where
  "ForceDefenseColdStart h =
     (if g_runRejected h then h
      else h\<lparr>g_nodes := map (on_olsr (on_defense (on_gcop cold_start))) (g_nodes h)\<rparr>)"

section \<open>Scenarios\<close>

record ScenarioSpec =
  sc_name :: string
  sc_attackEnabled :: bool
  sc_defenseEnabled :: bool

definition SCENARIOS :: "ScenarioSpec list" where
  "SCENARIOS =
     [\<lparr>sc_name = ''baseline'', sc_attackEnabled = False, sc_defenseEnabled = False\<rparr>,
      \<lparr>sc_name = ''attack_only'', sc_attackEnabled = True, sc_defenseEnabled = False\<rparr>,
      \<lparr>sc_name = ''defense_only'', sc_attackEnabled = False, sc_defenseEnabled = True\<rparr>,
      \<lparr>sc_name = ''defense_vs_attack'', sc_attackEnabled = True, sc_defenseEnabled = True\<rparr>]"

definition LabelsForScenario :: "string \<Rightarrow> nat \<times> nat" where
  "LabelsForScenario s =
     (case find_first (\<lambda>sc. s = sc_name sc) SCENARIOS of
        None \<Rightarrow> (0, 0)
      | Some sc \<Rightarrow> (if sc_attackEnabled sc then 1 else 0, if sc_defenseEnabled sc then 1 else 0))"

text \<open>Indexing the arrays \<open>g_scenarioOrder\<close> and \<open>SCENARIOS\<close> is not checked.\<close>

definition scenario_of :: "nat \<Rightarrow> 'a harness_scheme \<Rightarrow> ScenarioSpec res" where
  "scenario_of slot h = bindR (nodes_Get slot (g_scenarioOrder h)) (\<lambda>i. nodes_Get i SCENARIOS)"

definition ApplyScenarioState :: "nat list \<Rightarrow> u32 \<Rightarrow> nat \<Rightarrow> 'a harness_scheme \<Rightarrow> 'a harness_scheme res" where
  "ApplyScenarioState attackerIds spoofCount slot h =
     (if g_runRejected h then Inr h
      else bindR (scenario_of slot h) (\<lambda>sc.
        let h = (if sc_attackEnabled sc \<noteq> g_attackCurrentlyOn h
                 then (SetAttackState attackerIds spoofCount (sc_attackEnabled sc) h)
                        \<lparr>g_attackCurrentlyOn := sc_attackEnabled sc\<rparr> else h);
            h = (if sc_defenseEnabled sc \<noteq> g_defenseCurrentlyOn h
                 then (SetDefenseState (sc_defenseEnabled sc) h)\<lparr>g_defenseCurrentlyOn := sc_defenseEnabled sc\<rparr>
                 else h)
        in Inr (ForceDefenseColdStart h)))"

section \<open>What the walk finds\<close>

text \<open>
  The addresses and node indices from \<open>a\<close> to \<open>dst\<close> along the tables: every node but the last runs the
  protocol and its entry for \<open>dst\<close> names the next address.
\<close>

inductive table_path :: "sim_node list \<Rightarrow> (ipv4, nat) std_map \<Rightarrow> ipv4 \<Rightarrow> ipv4 \<Rightarrow> (ipv4 \<times> nat) list \<Rightarrow> bool"
  for nodes ipToNode dst where
  path_end: "map_of ipToNode dst = Some i \<Longrightarrow> table_path nodes ipToNode dst dst [(dst, i)]"
| path_hop: "a \<noteq> dst \<Longrightarrow> map_of ipToNode a = Some i \<Longrightarrow> GetOlsrProtocol (nodes ! i) = Some nd \<Longrightarrow>
    entry_for dst nd = Some e \<Longrightarrow> table_path nodes ipToNode dst (rt_nextAddr e) p \<Longrightarrow>
    table_path nodes ipToNode dst a ((a, i) # p)"

inductive_cases table_pathE: "table_path nodes ipToNode dst a p"

lemma table_path_fun: "table_path nodes m dst a p \<Longrightarrow> table_path nodes m dst a q \<Longrightarrow> p = q"
proof (induction arbitrary: q rule: table_path.induct)
  case (path_end i)
  from path_end(2) show ?case by (rule table_pathE) (use path_end(1) in simp_all)
next
  case (path_hop a i nd e p)
  from path_hop.prems obtain p' where "q = (a, i) # p'" "table_path nodes m dst (rt_nextAddr e) p'"
    by (rule table_pathE) (use path_hop.hyps(1-4) in simp_all)
  then show ?case using path_hop.IH by simp
qed

lemma table_path_hd: "table_path nodes m dst a p \<Longrightarrow> p \<noteq> [] \<and> fst (hd p) = a \<and> fst (last p) = dst"
  by (induction rule: table_path.induct) auto

lemma table_path_suffix: "table_path nodes m dst a (us @ (b, j) # vs) \<Longrightarrow> table_path nodes m dst b ((b, j) # vs)"
proof (induction us arbitrary: a)
  case Nil
  have "b = a" using table_path_hd [OF Nil] by simp
  then show ?case using Nil by simp
next
  case (Cons u us)
  from Cons.prems show ?case by (rule table_pathE) (simp_all add: Cons.IH)
qed

text \<open>The tables are functions, so a path that ends never comes back to an address.\<close>

lemma table_path_distinct: "table_path nodes m dst a p \<Longrightarrow> distinct (map fst p)"
proof (rule ccontr)
  assume p: "table_path nodes m dst a p" and "\<not> distinct (map fst p)"
  then obtain us b vs ws where "map fst p = us @ [b] @ vs @ [b] @ ws" using not_distinct_decomp by blast
  then obtain us' j vs' k ws' where p': "p = us' @ (b, j) # vs' @ (b, k) # ws'"
    by (auto simp: map_eq_append_conv map_eq_Cons_conv append_eq_map_conv Cons_eq_map_conv)
  have "table_path nodes m dst b ((b, j) # vs' @ (b, k) # ws')" using p table_path_suffix unfolding p' by blast
  moreover have "table_path nodes m dst b ((b, k) # ws')"
    using p table_path_suffix [of nodes m dst a "us' @ (b, j) # vs'" b k ws'] unfolding p' by simp
  ultimately have "(b, j) # vs' @ (b, k) # ws' = (b, k) # ws'" by (rule table_path_fun)
  then show False by (auto dest: arg_cong [where f = length])
qed

lemma table_path_nodes: "table_path nodes m dst a p \<Longrightarrow> set p \<subseteq> set m"
  by (induction rule: table_path.induct) (auto dest: map_of_SomeD)

lemma table_path_length:
  assumes "table_path nodes m dst a p"
  shows "length p \<le> length m"
proof -
  have "length p = card (set p)" using table_path_distinct [OF assms] by (metis distinct_card distinct_map)
  also have "\<dots> \<le> card (set m)" using table_path_nodes [OF assms] by (simp add: card_mono)
  finally show ?thesis using card_length le_trans by blast
qed

text \<open>The loop follows the path; it has seen none of the path's addresses.\<close>

lemma walk_loop_path:
  assumes "table_path nodes m dst a p" and "length p \<le> steps" and "set (map fst p) \<inter> set visited = {}"
    and "\<forall>i\<in>snd ` set m. i < length nodes"
  shows "walk_loop nodes m dst steps visited a q = Inr (q @ map snd p)"
  using assms
proof (induction arbitrary: steps visited q rule: table_path.induct)
  case (path_end i)
  then show ?case by (cases steps) simp_all
next
  case (path_hop a i nd e p)
  have "distinct (map fst ((a, i) # p))"
    by (rule table_path_distinct [OF table_path.path_hop [OF path_hop.hyps(1-5)]])
  moreover have "i < length nodes" using path_hop.hyps(2) path_hop.prems(3) by (force dest: map_of_SomeD)
  ultimately show ?case using path_hop by (cases steps) (auto simp: nodes_Get_def)
qed

lemma walk_loop_result:
  assumes "\<forall>i\<in>snd ` set m. i < length nodes"
  shows "\<exists>r. walk_loop nodes m dst steps visited a q = Inr r \<and> (r = [] \<or> (\<exists>p. table_path nodes m dst a p \<and> r = q @ map snd p))"
proof (induction steps arbitrary: visited a q)
  case (Suc steps)
  show ?case
  proof (cases "set_count visited a \<or> map_of m a = None")
    case False
    then obtain i where i: "map_of m a = Some i" "\<not> set_count visited a" by auto
    then have n: "nodes_Get i nodes = Inr (nodes ! i)" using assms by (force simp: nodes_Get_def dest: map_of_SomeD)
    show ?thesis
    proof (cases "a = dst")
      case True
      then show ?thesis using i path_end by fastforce
    next
      case no: False
      show ?thesis
      proof (cases "GetOlsrProtocol (nodes ! i)")
        case None
        then show ?thesis using i n no by simp
      next
        case (Some nd)
        show ?thesis
        proof (cases "entry_for dst nd")
          case None
          then show ?thesis using Some i n no by simp
        next
          case e: (Some e)
          obtain r where r: "walk_loop nodes m dst steps (set_insert a visited) (rt_nextAddr e) (q @ [i]) = Inr r"
            "r = [] \<or> (\<exists>p. table_path nodes m dst (rt_nextAddr e) p \<and> r = (q @ [i]) @ map snd p)"
            using Suc.IH by blast
          moreover have "table_path nodes m dst a ((a, i) # p)" if "table_path nodes m dst (rt_nextAddr e) p" for p
            by (rule path_hop [OF no i(1) Some e that])
          ultimately show ?thesis using i n no Some e by fastforce
        qed
      qed
    qed
  qed auto
qed simp

text \<open>
  C27: The path that the harness reports is the path of the routing tables. When the address map is
  that of the nodes, the walk always returns; it returns a path exactly when following the entries
  from node to node leads to the destination, that path goes over pairwise different addresses from
  source to destination, and neither the loop test nor the bound on the hops ever cuts it.
\<close>

theorem walk_path_complete:
  assumes "\<forall>i\<in>snd ` set ipToNode. i < length nodes" and "length ipToNode \<le> length nodes"
  shows "\<exists>p. WalkOlsrPath nodes ipToNode src dst = Inr p \<and>
    (p \<noteq> [] \<longleftrightarrow> (\<exists>as. table_path nodes ipToNode dst src as)) \<and>
    (\<forall>as. table_path nodes ipToNode dst src as \<longrightarrow>
       p = map snd as \<and> distinct (map fst as) \<and> fst (hd as) = src \<and> fst (last as) = dst)"
proof -
  obtain r where r: "WalkOlsrPath nodes ipToNode src dst = Inr r"
    "r = [] \<or> (\<exists>p. table_path nodes ipToNode dst src p \<and> r = map snd p)"
    using walk_loop_result [OF assms(1), of dst "length nodes + 2" "[]" src "[]"] by (auto simp: WalkOlsrPath_def)
  have path: "r = map snd as \<and> distinct (map fst as) \<and> as \<noteq> [] \<and> fst (hd as) = src \<and> fst (last as) = dst"
    if "table_path nodes ipToNode dst src as" for as
  proof -
    have "walk_loop nodes ipToNode dst (length nodes + 2) [] src [] = Inr ([] @ map snd as)"
      by (rule walk_loop_path [OF that _ _ assms(1)]) (use table_path_length [OF that] assms(2) in simp_all)
    then show ?thesis using r(1) table_path_hd [OF that] table_path_distinct [OF that] by (simp add: WalkOlsrPath_def)
  qed
  show ?thesis using r path by (intro exI [of _ r]) auto
qed

definition example_walk_nodes :: "sim_node list" where
  "example_walk_nodes =
     [Some [Other_child, Olsr_child (example_node\<lparr>nd_table := [rt_entry 3 2 2]\<rparr>)],
      Some [Olsr_child (example_node\<lparr>nd_table := [rt_entry 1 1 1, rt_entry 3 3 1]\<rparr>)], None]"

theorem walk_path_complete_witness:
  "WalkOlsrPath example_walk_nodes [(1, 0), (2, 1), (3, 2)] 1 3 = Inr [0, 1, 2] \<and>
   (\<exists>p. WalkOlsrPath example_walk_nodes [(1, 0), (2, 1), (3, 2)] 1 3 = Inr p \<and> p \<noteq> [] \<and>
      (\<exists>as. table_path example_walk_nodes [(1, 0), (2, 1), (3, 2)] 3 1 as \<and> distinct (map fst as)))"
proof -
  have w: "WalkOlsrPath example_walk_nodes [(1, 0), (2, 1), (3, 2)] 1 3 = Inr [0, 1, 2]"
    by (simp add: WalkOlsrPath_def example_walk_nodes_def GetOlsrProtocol_def entry_for_def GetRoutingTableEntries_def
        rt_entry_def nodes_Get_def eval_nat_numeral)
  then show ?thesis
    using walk_path_complete [of "[(1, 0), (2, 1), (3, 2)]" example_walk_nodes 1 3]
    by (auto simp: example_walk_nodes_def)
qed

section \<open>Packets and the walk\<close>

lemma entry_for_Lookup:
  assumes "table_ok tm ifaces s X (nd_table nd)" and "wf_map (nd_table nd)"
  shows "entry_for dst nd = Lookup dst (nd_table nd)"
proof -
  have "find_first (\<lambda>e. rt_destAddr e = dst) (map snd t) = map_of t dst"
    if "\<forall>(k, e)\<in>set t. rt_destAddr e = k" for t :: table
    using that by (induction t) auto
  moreover have "rt_destAddr e = k" if "(k, e) \<in> set (nd_table nd)" for k e
    using assms that by (fastforce simp: table_ok_def entry_ok_def wf_map_distinct)
  ultimately show ?thesis by (auto simp: entry_for_def GetRoutingTableEntries_def Lookup_def)
qed


lemma IsMalicious_Blacklist: "suspected a nd \<longleftrightarrow> a \<in> set (GetBlacklist nd)"
  using strategy.malicious_iff by (auto simp: suspected_def GetBlacklist_def split: option.splits)

text \<open>Without suspects the gateway of the route is the next address of the table entry.\<close>

lemma gateway_of_entry:
  assumes t: "tables_of tm s [] nd" and e: "Lookup dst (nd_table nd) = Some e" and B: "GetBlacklist nd = []"
  shows "\<exists>e2 r. send_entry e nd = Inr e2 \<and> make_route dst e2 nd = Inr r \<and> imp_reroute dst nd (e2, r) = Inr (e2, r) \<and>
    rt_nextAddr e2 = rt_nextAddr e \<and> ro_gateway r = rt_nextAddr e"
proof -
  let ?if = "nd_ifaces nd"
  note tabs = t [unfolded tables_of_def]
  have tab: "rt_table tm ?if (nd_mainAddress nd) s [] = Inr (nd_table nd)" and main: "main_addresses s" using tabs by blast+
  have ok: "table_ok tm ?if s (set []) (nd_table nd)" by (rule rt_table_ok [OF tab])
  then have "entry_ok tm ?if s (set []) dst e" using e by (simp add: table_ok_def Lookup_def)
  then obtain e2 where e2: "FindSendEntry (nd_table nd) e = Some (Some e2)" "self_entry (rt_nextAddr e) e2"
    using FindSendEntry_hops_ok [OF rt_table_hops_ok [OF tab main], of dst e] e by (auto simp: Lookup_def entry_ok_def)
  have next_eq: "rt_nextAddr e2 = rt_nextAddr e" using e2(2) by (simp add: self_entry_def)
  obtain f r f3 r3 where f: "send_entry e nd = Inr f" "make_route dst f nd = Inr r"
    "imp_reroute dst nd (f, r) = Inr (f3, r3)"
    using forward_entry [OF t e B] by blast
  moreover have "f = e2" using f(1) e2(1) by (simp add: send_entry_def)
  moreover have "imp_reroute dst nd (f, r) = Inr (f, r)" using B by (simp add: imp_reroute_def IsMalicious_Blacklist)
  moreover have "ro_gateway r = rt_nextAddr f"
    using f(2) by (auto simp: make_route_def res_simps split: if_splits)
  ultimately show ?thesis using next_eq by auto
qed

lemma table_path_consecutive:
  assumes "table_path nodes m dst a (us @ (b, i) # (c, j) # vs)"
  shows "\<exists>nd e. GetOlsrProtocol (nodes ! i) = Some nd \<and> entry_for dst nd = Some e \<and> rt_nextAddr e = c \<and> map_of m c = Some j"
proof -
  from assms have "table_path nodes m dst b ((b, i) # (c, j) # vs)" by (rule table_path_suffix)
  then obtain nd e where nd: "GetOlsrProtocol (nodes ! i) = Some nd" "entry_for dst nd = Some e"
    and p: "table_path nodes m dst (rt_nextAddr e) ((c, j) # vs)" by (rule table_pathE) auto
  from p have "map_of m c = Some j \<and> rt_nextAddr e = c" by (rule table_pathE) auto
  with nd show ?thesis by blast
qed

text \<open>
  C28: Packets travel along the reported path. Let the walk from \<open>src\<close> to \<open>dst\<close> pass through node \<open>i\<close>
  and then node \<open>j\<close>; node \<open>i\<close> may be the source itself. If node \<open>i\<close> is no attacker, holds computed tables
  and suspects nobody, then a packet of its own for \<open>dst\<close> leaves it with a gateway that is the address of
  node \<open>j\<close>; if \<open>src\<close> is not one of its own addresses and \<open>dst\<close> is not one either, so does a transit packet
  from \<open>src\<close>. So the attackers that the harness finds on the path are those that the packets meet.
\<close>

theorem packet_follows_walk:
  assumes "WalkOlsrPath nodes ipToNode src dst = Inr (us @ i # j # vs)"
    and "\<forall>i\<in>snd ` set ipToNode. i < length nodes" and "length ipToNode \<le> length nodes"
    and "GetOlsrProtocol (nodes ! i) = Some nd" and "tables_of tm s [] nd" and "GetBlacklist nd = []"
    and "\<not> nd_isMalicious nd"
  shows "(\<exists>r. RouteOutput now uid dst None nd = Inr (Some r, packet_forwarded uid (ro_gateway r) dst now nd) \<and>
      map_of ipToNode (ro_gateway r) = Some j) \<and>
    (\<not> IsMyOwnAddress src nd \<and> IsDestinationAddress (nd_ifaces nd) cfg dst iif = Inr False \<longrightarrow>
      (\<exists>r. RouteInput now cfg lcb uid src dst (Some iif) nd =
        Inr (Forwarded r, packet_forwarded uid (ro_gateway r) dst now nd) \<and> map_of ipToNode (ro_gateway r) = Some j))"
proof -
  obtain as where as: "table_path nodes ipToNode dst src as" "us @ i # j # vs = map snd as"
    using walk_loop_result [OF assms(2), of dst "length nodes + 2" "[]" src "[]"] assms(1)
    by (auto simp: WalkOlsrPath_def)
  from as(2) obtain us' b c vs' where "as = us' @ (b, i) # (c, j) # vs'"
    by (auto simp: append_eq_map_conv Cons_eq_map_conv)
  from table_path_consecutive [OF as(1) [unfolded this]] assms(4) obtain e where
    e: "entry_for dst nd = Some e" "map_of ipToNode (rt_nextAddr e) = Some j" by auto
  have tab: "rt_table tm (nd_ifaces nd) (nd_mainAddress nd) s [] = Inr (nd_table nd)"
    using assms(5) unfolding tables_of_def by blast
  have l: "Lookup dst (nd_table nd) = Some e"
    using e(1) entry_for_Lookup rt_table_ok [OF tab] by (metis table_ok_def)
  obtain e2 r where r: "send_entry e nd = Inr e2" "make_route dst e2 nd = Inr r"
    "imp_reroute dst nd (e2, r) = Inr (e2, r)" "rt_nextAddr e2 = rt_nextAddr e" "ro_gateway r = rt_nextAddr e"
    using gateway_of_entry [OF assms(5) l assms(6)] by blast
  have "RouteOutput now uid dst None nd = Inr (Some r, packet_forwarded uid (ro_gateway r) dst now nd)"
    "\<not> IsMyOwnAddress src nd \<Longrightarrow> IsDestinationAddress (nd_ifaces nd) cfg dst iif = Inr False \<Longrightarrow>
     RouteInput now cfg lcb uid src dst (Some iif) nd = Inr (Forwarded r, packet_forwarded uid (ro_gateway r) dst now nd)"
    using l r assms(7) by (simp_all add: RouteOutput_def RouteInput_def)
  then show ?thesis using r(5) e(2) by auto
qed

definition example_walk_node :: node where
  "example_walk_node = example_node\<lparr>nd_defense := None, nd_tableAvoidingSuspects := nd_table example_node\<rparr>"

definition example_forward_nodes :: "sim_node list" where
  "example_forward_nodes =
     [Some [Olsr_child (example_node\<lparr>nd_table := [rt_entry 4 1 3]\<rparr>)], Some [Olsr_child example_walk_node],
      Some [Other_child, Olsr_child (example_node\<lparr>nd_table := [rt_entry 4 4 1]\<rparr>)], None]"

text \<open>
  Two walks to 4. The first starts at the node itself, whose address is 1, so that its own packet takes
  the first hop; in the second the node relays the packets of the source 9. Both lead on to node 2.
\<close>

theorem packet_follows_walk_witness:
  "IsMyOwnAddress 1 example_walk_node \<and>
   WalkOlsrPath (tl example_forward_nodes) [(1, 0), (2, 1), (4, 2)] 1 4 = Inr [0, 1, 2] \<and>
   (\<exists>r. RouteOutput 6 7 4 None example_walk_node =
     Inr (Some r, packet_forwarded 7 (ro_gateway r) 4 6 example_walk_node) \<and> ro_gateway r = 2) \<and>
   (\<exists>r. RouteInput 6 \<lparr>ic_strongEndSystem = True, ic_forwarding = [True, True]\<rparr> True 7 9 4 (Some 1) example_walk_node =
     Inr (Forwarded r, packet_forwarded 7 (ro_gateway r) 4 6 example_walk_node) \<and> ro_gateway r = 2)"
proof -
  let ?m1 = "[(1, 0), (2, 1), (4, 2)] :: (ipv4, nat) std_map"
  let ?m2 = "[(9, 0), (1, 1), (2, 2), (4, 3)] :: (ipv4, nat) std_map"
  let ?cfg = "\<lparr>ic_strongEndSystem = True, ic_forwarding = [True, True]\<rparr>"
  have w: "WalkOlsrPath (tl example_forward_nodes) ?m1 1 4 = Inr ([] @ 0 # 1 # [2])"
    "WalkOlsrPath example_forward_nodes ?m2 9 4 = Inr ([0] @ 1 # 2 # [3])" by code_simp+
  have "rt_table 5 example_ifaces 1 example_two_paths [] = Inr (nd_table example_node)" "main_addresses example_two_paths"
    by code_simp+
  then have t: "tables_of 5 example_two_paths [] example_walk_node"
    by (simp add: tables_of_def example_walk_node_def example_node_def example_ifaces_def)
  have c: "GetBlacklist example_walk_node = []" "\<not> nd_isMalicious example_walk_node" "IsMyOwnAddress 1 example_walk_node"
    "\<not> IsMyOwnAddress 9 example_walk_node" "IsDestinationAddress (nd_ifaces example_walk_node) ?cfg 4 1 = Inr False"
    by code_simp+
  have n: "GetOlsrProtocol (tl example_forward_nodes ! 0) = Some example_walk_node"
    "GetOlsrProtocol (example_forward_nodes ! 1) = Some example_walk_node"
    by (simp_all add: example_forward_nodes_def GetOlsrProtocol_def)
  have b: "\<forall>i\<in>snd ` set ?m1. i < length (tl example_forward_nodes)" "length ?m1 \<le> length (tl example_forward_nodes)"
    "\<forall>i\<in>snd ` set ?m2. i < length example_forward_nodes" "length ?m2 \<le> length example_forward_nodes"
    by (simp_all add: example_forward_nodes_def)
  have g: "map_of ?m1 a = Some 1 \<Longrightarrow> a = 2" "map_of ?m2 a = Some 2 \<Longrightarrow> a = 2" for a by (auto split: if_splits)
  from packet_follows_walk [OF w(1) b(1,2) n(1) t c(1,2), of 6 7] g(1)
  have "\<exists>r. RouteOutput 6 7 4 None example_walk_node =
      Inr (Some r, packet_forwarded 7 (ro_gateway r) 4 6 example_walk_node) \<and> ro_gateway r = 2" by blast
  moreover from packet_follows_walk [OF w(2) b(3,4) n(2) t c(1,2), of 6 7 ?cfg 1 True] c(4,5) g(2)
  have "\<exists>r. RouteInput 6 ?cfg True 7 9 4 (Some 1) example_walk_node =
      Inr (Forwarded r, packet_forwarded 7 (ro_gateway r) 4 6 example_walk_node) \<and> ro_gateway r = 2" by blast
  ultimately show ?thesis using w(1) c(3) by simp
qed

section \<open>Detection accuracy\<close>

lemma set_inserts: "wf_set s \<Longrightarrow> wf_set (fold set_insert xs s) \<and> set (fold set_insert xs s) = set xs \<union> set s"
  by (induction xs arbitrary: s) auto

lemma filter_members_le:
  assumes "distinct xs" and "distinct ys"
  shows "length (filter (\<lambda>a. a \<in> set ys) xs) \<le> length ys"
    and "length (filter (\<lambda>a. a \<in> set ys) xs) = length ys \<longleftrightarrow> set ys \<subseteq> set xs"
proof -
  have c: "length (filter (\<lambda>a. a \<in> set ys) xs) = card (set xs \<inter> set ys)"
    by (metis assms(1) distinct_card distinct_filter inter_set_filter Int_commute)
  have d: "length ys = card (set ys)" using assms(2) by (simp add: distinct_card)
  show "length (filter (\<lambda>a. a \<in> set ys) xs) \<le> length ys" unfolding c d by (simp add: card_mono)
  show "length (filter (\<lambda>a. a \<in> set ys) xs) = length ys \<longleftrightarrow> set ys \<subseteq> set xs"
    unfolding c d by (metis List.finite_set card_subset_eq inf.absorb_iff2 inf_le2)
qed

lemma sum_le_const:
  assumes "\<And>x. x \<in> set xs \<Longrightarrow> f x \<le> (k :: nat)"
  shows "sum_list (map f xs) \<le> length xs * k"
    and "sum_list (map f xs) = length xs * k \<longleftrightarrow> (\<forall>x\<in>set xs. f x = k)"
proof -
  show le: "sum_list (map f xs) \<le> length xs * k" using assms by (induction xs) fastforce+
  show "sum_list (map f xs) = length xs * k \<longleftrightarrow> (\<forall>x\<in>set xs. f x = k)"
    using assms
  proof (induction xs)
    case (Cons x xs)
    have "sum_list (map f xs) \<le> length xs * k" using Cons.prems by (induction xs) fastforce+
    moreover have "f x \<le> k" using Cons.prems by simp
    ultimately have "f x + sum_list (map f xs) = k + length xs * k \<longleftrightarrow> f x = k \<and> sum_list (map f xs) = length xs * k" by linarith
    then show ?case using Cons.IH Cons.prems by simp
  qed simp
qed

lemma percent_bounds: "a \<le> b \<Longrightarrow> 0 \<le> percent a b \<and> percent a b \<le> 100"
  by (simp add: percent_def divide_le_eq)

lemma percent_eq: "0 < b \<Longrightarrow> percent a b = 100 \<longleftrightarrow> a = b"
  by (simp add: percent_def divide_eq_eq)


lemma percent_zero: "percent a (b + a) = 0 \<longleftrightarrow> a = 0"
  unfolding percent_def by (simp del: of_nat_add)

lemma attacker_set:
  "distinct (fold set_insert (attacker_addresses ids h) [])"
  "set (fold set_insert (attacker_addresses ids h) []) = set (attacker_addresses ids h)"
  using set_inserts [of "[]" "attacker_addresses ids h"] by (simp_all add: wf_set_distinct wf_set_def)

lemma sample_fields [simp]:
  "attacker_addresses ids (h\<lparr>g_trueDetections := a, g_falseDetections := b, g_defendersTotal := c, g_defendersInRange := d,
     g_detectionPercent := e, g_detectionPercentInRange := f, g_falseAlarmRate := g\<rparr>) = attacker_addresses ids h"
  "defenders ids (h\<lparr>g_trueDetections := a, g_falseDetections := b, g_defendersTotal := c, g_defendersInRange := d,
     g_detectionPercent := e, g_detectionPercentInRange := f, g_falseAlarmRate := g\<rparr>) = defenders ids h"
  unfolding attacker_addresses_def defenders_def by (simp_all cong: if_cong)

lemma count_accused:
  "length (filter P (concat (map (\<lambda>(_, d). f d) ds))) = sum_list (map (\<lambda>(_, d). length (filter P (f d))) ds)"
  by (induction ds) auto

lemma accused_none:
  "filter P (concat (map (\<lambda>(_, d). f d) ds)) = [] \<longleftrightarrow> (\<forall>(_, d)\<in>set ds. \<forall>a\<in>set (f d). \<not> P a)"
  by (induction ds) (auto simp: filter_empty_conv)

text \<open>
  C34: The detection figures are proportions. At the close of a window that is not rejected, with a
  protocol-running attacker and a defending node and no address twice on a blacklist, the detection
  percentage lies between 0 and 100 and reaches 100 exactly when every defending node accuses every
  attacker; the false alarm rate lies between 0 and 100 and is 0 exactly when no defending node accuses
  an honest address.
\<close>

theorem detection_proportions:
  assumes "\<forall>(_, d)\<in>set (defenders ids h). distinct (defense_GetBlacklist d)"
    and "\<not> g_runRejected h" and "attacker_addresses ids h \<noteq> []" and "defenders ids h \<noteq> []"
    and "h' = SampleDetectionAccuracy ids h"
  shows "0 \<le> g_detectionPercent h' \<and> g_detectionPercent h' \<le> 100 \<and>
    (g_detectionPercent h' = 100 \<longleftrightarrow>
       (\<forall>(_, d)\<in>set (defenders ids h). \<forall>a\<in>set (attacker_addresses ids h). defense_IsMalicious a d)) \<and>
    0 \<le> g_falseAlarmRate h' \<and> g_falseAlarmRate h' \<le> 100 \<and>
    (g_falseAlarmRate h' = 0 \<longleftrightarrow>
       (\<forall>(_, d)\<in>set (defenders ids h). \<forall>a. defense_IsMalicious a d \<longrightarrow> a \<in> set (attacker_addresses ids h)))"
proof -
  define A where "A = fold set_insert (attacker_addresses ids h) []"
  let ?ds = "defenders ids h"
  have A: "distinct A" "set A = set (attacker_addresses ids h)" unfolding A_def by (rule attacker_set)+
  then have ne: "A \<noteq> []" using assms(3) by auto
  let ?acc = "concat (map (\<lambda>(_, d). defense_GetBlacklist d) ?ds)"
  let ?t = "length (filter (\<lambda>a. a \<in> set A) ?acc)" and ?f = "length (filter (\<lambda>a. a \<notin> set A) ?acc)"
  have sc: "set_count A = (\<lambda>a. a \<in> set A)" by (rule ext) simp
  have h': "g_detectionPercent h' = percent ?t (length ?ds * length A)" "g_falseAlarmRate h' = percent ?f (?t + ?f)"
    unfolding assms(5) SampleDetectionAccuracy_def Let_def sample_fields A_def [symmetric] sc using assms(2) ne by simp_all
  let ?g = "\<lambda>(_ :: node, d). length (filter (\<lambda>a. a \<in> set A) (defense_GetBlacklist d))"
  have le: "?g x \<le> length A" if "x \<in> set ?ds" for x
    using that assms(1) filter_members_le(1) [OF _ A(1)] by (auto split: prod.split)
  have eq: "?g x = length A \<longleftrightarrow> set A \<subseteq> set (defense_GetBlacklist (snd x))" if "x \<in> set ?ds" for x
  proof -
    have "distinct (defense_GetBlacklist (snd x))" using that assms(1) by auto
    from filter_members_le(2) [OF this A(1)] show ?thesis by (simp add: split_def)
  qed
  have t: "?t = sum_list (map ?g ?ds)" by (rule count_accused)
  have b1: "?t \<le> length ?ds * length A" unfolding t by (rule sum_le_const(1) [OF le])
  have b2: "?t = length ?ds * length A \<longleftrightarrow> (\<forall>(_, d)\<in>set ?ds. \<forall>a\<in>set A. defense_IsMalicious a d)"
  proof -
    have "?t = length ?ds * length A \<longleftrightarrow> (\<forall>x\<in>set ?ds. ?g x = length A)" unfolding t by (rule sum_le_const(2)) (rule le)
    also have "\<dots> \<longleftrightarrow> (\<forall>x\<in>set ?ds. set A \<subseteq> set (defense_GetBlacklist (snd x)))" using eq by (rule ball_cong [OF refl])
    also have "\<dots> \<longleftrightarrow> (\<forall>(_, d)\<in>set ?ds. \<forall>a\<in>set A. defense_IsMalicious a d)"
      by (simp add: split_def strategy.malicious_iff subset_eq)
    finally show ?thesis .
  qed
  have b3: "?f \<le> ?t + ?f" by simp
  have b4: "percent ?f (?t + ?f) = 0 \<longleftrightarrow> ?f = 0" by (rule percent_zero)
  have b5: "?f = 0 \<longleftrightarrow> (\<forall>(_, d)\<in>set ?ds. \<forall>a. defense_IsMalicious a d \<longrightarrow> a \<in> set A)"
    unfolding length_0_conv accused_none by (auto simp: split_def strategy.malicious_iff)
  have "0 < length ?ds * length A" using assms(4) ne by simp
  from percent_eq [OF this, of ?t] have "percent ?t (length ?ds * length A) = 100 \<longleftrightarrow>
      (\<forall>(_, d)\<in>set ?ds. \<forall>a\<in>set A. defense_IsMalicious a d)" unfolding b2 .
  then show ?thesis
    unfolding h' A(2) [symmetric] b4 b5 [symmetric] using percent_bounds [OF b1] percent_bounds [OF b3] by blast
qed

text \<open>Two nodes accuse the attacker 9, which is a neighbor of only one of them.\<close>

definition example_accuser :: "neighbor_tuple list \<Rightarrow> sim_node" where
  "example_accuser ns = Some [Olsr_child (example_node\<lparr>nd_state := OlsrState_init\<lparr>m_neighborSet := ns\<rparr>,
     nd_defense := Some (Gcop_defense (example_gcop\<lparr>gc_enabled := True, gc_riskyNodes := [9]\<rparr>))\<rparr>)]"

definition example_harness :: harness where
  "example_harness =
     \<lparr>g_nodes = [Some [Olsr_child (example_node\<lparr>nd_mainAddress := 9\<rparr>)],
        example_accuser [\<lparr>nt_neighborMainAddr = 9, nt_status = STATUS_SYM, nt_willingness = WILL_DEFAULT\<rparr>],
        example_accuser []],
      g_ipToNode = [], g_nodeToIp = [], g_flowPairs = [], g_scenarioOrder = [0, 1, 2, 3], g_attackCurrentlyOn = True,
      g_defenseCurrentlyOn = True, g_runRejected = False, g_rejectReason = [], g_rejectedAtSec = 0, g_stopped = False,
      g_attackerOnPathPrevWindow = False, g_pathHopsPrevWindow = 0, g_flowsWithAttackerOnPath = 0,
      g_flowsWithValidPath = 0, g_minAttackerTrust = 1, g_avgAttackerTrust = 1, g_blacklistMaxSize = 0,
      g_trueDetections = 0, g_falseDetections = 0, g_defendersTotal = 0, g_defendersInRange = 0,
      g_detectionPercent = 0, g_detectionPercentInRange = 0, g_falseAlarmRate = 0\<rparr>"

theorem detection_proportions_witness:
  "g_detectionPercent (SampleDetectionAccuracy [0] example_harness) \<le> 100 \<and>
   g_detectionPercent (SampleDetectionAccuracy [0] example_harness) = 100 \<and>
   g_detectionPercentInRange (SampleDetectionAccuracy [0] example_harness) = 200"
proof -
  have c: "\<forall>(_, d)\<in>set (defenders [0] example_harness). distinct (defense_GetBlacklist d)"
    "\<not> g_runRejected example_harness" "attacker_addresses [0] example_harness \<noteq> []" "defenders [0] example_harness \<noteq> []"
    "\<forall>(_, d)\<in>set (defenders [0] example_harness). \<forall>a\<in>set (attacker_addresses [0] example_harness). defense_IsMalicious a d"
    by code_simp+
  moreover have "g_detectionPercentInRange (SampleDetectionAccuracy [0] example_harness) = 200" by code_simp
  ultimately show ?thesis using detection_proportions [OF c(1-4) refl] by blast
qed

end
