(* ===== verification/Eval_Features.thy ===== *)
theory Eval_Features
  imports Complex_Main Messages
begin

unbundle bit_operations_syntax

text \<open>
  The feature collector of the evaluation harness (src/scratch/olsr_window_features.h): one node
  listens to every frame on the air, takes the OLSR packets apart with the message codec of theory
  \<open>Messages\<close> and turns a measurement window into 17 numbers. A sniffed frame is the record
  \<open>sniffed_frame\<close> of what the code reads from the ns-3 headers. Counters are 64-bit words, doubles are
  exact rationals, and the two standard deviations are reals.
\<close>

type_synonym u64 = "64 word"

text \<open>
  \<open>fr_mac\<close> is \<open>IsData\<close> of the MAC header, \<open>fr_ip\<close> source and protocol of the IPv4 header behind an
  LLC header of type 0x0800, \<open>fr_udp\<close> the destination port; each is \<open>None\<close> when the frame is too short
  for that header or of another type. \<open>fr_payload\<close> are the bytes behind the UDP header.
\<close>

record sniffed_frame =
  fr_size :: u32
  fr_mac :: "bool option"
  fr_ip :: "(ipv4 \<times> u8) option"
  fr_udp :: "u16 option"
  fr_payload :: "u8 list"

section \<open>The collector\<close>

record FeatureCollector =
  fc_winStart :: rat
  fc_frames :: u64
  fc_bytes :: u64
  fc_dataFrames :: u64
  fc_dataBytes :: u64
  fc_olsrFrames :: u64
  fc_olsrBytes :: u64
  fc_tcCount :: u64
  fc_tcRows :: u64
  fc_tcHopSum :: u64
  fc_tcSeen :: "u64 std_set"
  fc_tcUniqueCount :: u64
  fc_tcUniqueRows :: u64
  fc_helloCount :: u64
  fc_midCount :: u64
  fc_hnaCount :: u64
  fc_advByOriginator :: "(u32, u32) std_map"
  fc_addrsSeen :: "u32 std_set"
  fc_bytesBySource :: "(u32, u64) std_map"
  fc_framesBySource :: "(u32, u64) std_map"
  fc_firstSeenBySource :: "(u32, rat) std_map"
  fc_lastSeenBySource :: "(u32, rat) std_map"

definition Features_Reset :: "rat \<Rightarrow> FeatureCollector" where
  "Features_Reset tStart =
     \<lparr>fc_winStart = tStart, fc_frames = 0, fc_bytes = 0, fc_dataFrames = 0, fc_dataBytes = 0,
      fc_olsrFrames = 0, fc_olsrBytes = 0, fc_tcCount = 0, fc_tcRows = 0, fc_tcHopSum = 0, fc_tcSeen = [],
      fc_tcUniqueCount = 0, fc_tcUniqueRows = 0, fc_helloCount = 0, fc_midCount = 0, fc_hnaCount = 0,
      fc_advByOriginator = [], fc_addrsSeen = [], fc_bytesBySource = [], fc_framesBySource = [],
      fc_firstSeenBySource = [], fc_lastSeenBySource = []\<rparr>"

definition tc_key :: "ipv4 \<Rightarrow> u16 \<Rightarrow> u64" where
  "tc_key orig sn = push_bit 16 (ucast orig) OR ucast sn"

text \<open>The cases of the switch over the message type.\<close>

definition count_tc :: "MessageHeader \<Rightarrow> Tc \<Rightarrow> FeatureCollector \<Rightarrow> FeatureCollector" where
  "count_tc msg tc fc =
     (let adv = of_nat (length (neighborAddresses tc));
          orig = m_originatorAddress msg;
          key = tc_key orig (m_messageSequenceNumber msg);
          fc = fc\<lparr>fc_tcCount := fc_tcCount fc + 1,
                  fc_tcRows := fc_tcRows fc + ucast (adv :: u32),
                  fc_advByOriginator := map_put orig adv (fc_advByOriginator fc),
                  fc_addrsSeen := set_insert orig (fc_addrsSeen fc),
                  fc_tcHopSum := fc_tcHopSum fc + ucast (m_hopCount msg)\<rparr>;
          fc = (if set_count (fc_tcSeen fc) key then fc
                else fc\<lparr>fc_tcSeen := set_insert key (fc_tcSeen fc),
                        fc_tcUniqueCount := fc_tcUniqueCount fc + 1,
                        fc_tcUniqueRows := fc_tcUniqueRows fc + ucast adv\<rparr>)
      in fc\<lparr>fc_addrsSeen := fold set_insert (neighborAddresses tc) (fc_addrsSeen fc)\<rparr>)"

definition count_message :: "MessageHeader \<Rightarrow> FeatureCollector \<Rightarrow> FeatureCollector" where
  "count_message msg fc =
     (case m_message msg of
        HELLO_MESSAGE _ \<Rightarrow> fc\<lparr>fc_helloCount := fc_helloCount fc + 1\<rparr>
      | TC_MESSAGE tc \<Rightarrow> count_tc msg tc fc
      | MID_MESSAGE _ \<Rightarrow> fc\<lparr>fc_midCount := fc_midCount fc + 1\<rparr>
      | HNA_MESSAGE _ \<Rightarrow> fc\<lparr>fc_hnaCount := fc_hnaCount fc + 1\<rparr>)"

lemma unat_less_sub:
  assumes "c \<noteq> 0" and "c \<le> r"
  shows "unat (r - c) < unat (r :: u32)"
proof -
  have "0 < unat c" using assms(1) by (simp add: unat_gt_0)
  moreover have "unat c \<le> unat r" using assms(2) by (simp add: word_le_nat_alt)
  ultimately show ?thesis by (simp add: unat_sub assms(2))
qed

function sniff_messages :: "u32 \<Rightarrow> u8 list \<Rightarrow> FeatureCollector \<Rightarrow> FeatureCollector res" where
  "sniff_messages remaining p fc =
     (if remaining = 0 then Inr fc
      else case p of
        [] \<Rightarrow> Inr fc
      | firstByte # _ \<Rightarrow>
          if firstByte < 1 \<or> firstByte > 4 then Inr fc
          else bindR (RemoveHeader Deserialize p) (\<lambda>(msg, _, p').
            let consumed = of_nat (length p - length p')
            in if consumed = 0 \<or> consumed > remaining then Inr fc
               else sniff_messages (remaining - consumed) p' (count_message msg fc)))"
  by pat_completeness auto
termination
  by (relation "measure (\<lambda>(remaining, _, _). unat remaining)")
    (simp_all only: wf_measure in_measure prod.case de_Morgan_disj not_less unat_less_sub not_False_eq_True simp_thms)

declare sniff_messages.simps [simp del]

text \<open>Every frame with an IPv4 header counts for its source.\<close>

definition count_ip :: "rat \<Rightarrow> u32 \<Rightarrow> ipv4 \<Rightarrow> FeatureCollector \<Rightarrow> FeatureCollector" where
  "count_ip nowS frameBytes srcKey fc =
     fc\<lparr>fc_dataFrames := fc_dataFrames fc + 1,
        fc_dataBytes := fc_dataBytes fc + ucast frameBytes,
        fc_bytesBySource := map_put srcKey (map_ref 0 (fc_bytesBySource fc) srcKey + ucast frameBytes) (fc_bytesBySource fc),
        fc_framesBySource := map_put srcKey (map_ref 0 (fc_framesBySource fc) srcKey + 1) (fc_framesBySource fc),
        fc_firstSeenBySource :=
          (if map_of (fc_firstSeenBySource fc) srcKey = None
           then map_put srcKey nowS (fc_firstSeenBySource fc) else fc_firstSeenBySource fc),
        fc_lastSeenBySource := map_put srcKey nowS (fc_lastSeenBySource fc)\<rparr>"

text \<open>The bytes that belong to the packet: its length field, but no more than the frame has.\<close>

definition sniff_remaining :: "PacketHeader \<Rightarrow> nat \<Rightarrow> u32" where
  "sniff_remaining olsrHeader left =
     (let hdr = PacketHeader_GetSerializedSize olsrHeader;
          len = ucast (m_packetLength olsrHeader);
          remaining = (if len > hdr then len - hdr else 0)
      in if unat remaining > left then of_nat left else remaining)"

definition sniff_olsr :: "u32 \<Rightarrow> u8 list \<Rightarrow> FeatureCollector \<Rightarrow> FeatureCollector res" where
  "sniff_olsr frameBytes p fc =
     (let fc = fc\<lparr>fc_olsrFrames := fc_olsrFrames fc + 1, fc_olsrBytes := fc_olsrBytes fc + ucast frameBytes\<rparr>
      in if length p < 4 then Inr fc
         else bindR (RemoveHeader PacketHeader_Deserialize p) (\<lambda>(olsrHeader, _, p).
           sniff_messages (sniff_remaining olsrHeader (length p)) p fc))"

definition ObserveSniffedFrame :: "rat \<Rightarrow> sniffed_frame \<Rightarrow> FeatureCollector \<Rightarrow> FeatureCollector res" where
  "ObserveSniffedFrame nowS f fc =
     (let fc = fc\<lparr>fc_frames := fc_frames fc + 1, fc_bytes := fc_bytes fc + ucast (fr_size f)\<rparr>
      in if fr_mac f \<noteq> Some True then Inr fc
         else case fr_ip f of
           None \<Rightarrow> Inr fc
         | Some (source, protocol) \<Rightarrow>
             let fc = count_ip nowS (fr_size f) source fc
             in if protocol \<noteq> 17 then Inr fc
                else if fr_udp f \<noteq> Some 698 then Inr fc
                else sniff_olsr (fr_size f) (fr_payload f) fc)"

section \<open>The features of a window\<close>

definition Mean :: "rat list \<Rightarrow> rat" where
  "Mean v = (if v = [] then 0 else sum_list v / of_nat (length v))"

definition Std :: "rat list \<Rightarrow> real" where
  "Std v =
     (if v = [] then 0
      else let m = Mean v in sqrt (of_rat (sum_list (map (\<lambda>x. (x - m) * (x - m)) v) / of_nat (length v))))"

text \<open>The columns in the order of the header; \<open>None\<close> is NaN.\<close>

record features =
  TcMessageRate :: rat
  AverageAdvertisedLinksPerTCMessage :: rat
  AverageMprCount :: rat
  AverageHopCount :: rat
  MidMessageRate :: rat
  HnaMessageRate :: rat
  RoutingOverheadBytesRatio :: rat
  NormalizedRoutingLoad :: "rat option"
  DataPacketRate :: rat
  Throughput :: rat
  AvgTxPacketSize :: rat
  AvgFlowDuration :: rat
  FlowDurationStd :: real
  AvgFlowThroughput :: rat
  FlowThroughputStd :: real
  AvgTxBytesPerFlow :: rat
  AvgTxPacketsPerFlow :: rat

definition rat_of :: "u64 \<Rightarrow> rat" where "rat_of x = of_nat (unat x)"

definition ratio :: "u64 \<Rightarrow> u64 \<Rightarrow> rat" where
  "ratio a b = (if b > 0 then rat_of a / rat_of b else 0)"

definition EmitFeatures :: "rat \<Rightarrow> FeatureCollector \<Rightarrow> features" where
  "EmitFeatures tEnd fc =
     (let dur = max (1 / 1000000) (tEnd - fc_winStart fc);
          sumAdvertisedLinks = sum_list (map (\<lambda>(_, n). of_nat (unat n)) (fc_advByOriginator fc));
          srcDurations = map (\<lambda>(k, first). map_ref 0 (fc_lastSeenBySource fc) k - first)
                           (filter (\<lambda>(k, _). map_of (fc_lastSeenBySource fc) k \<noteq> None) (fc_firstSeenBySource fc));
          srcRates = map (\<lambda>(_, n). rat_of n * 8 / dur) (fc_bytesBySource fc);
          avgTxBytesPerFlow = (if fc_bytesBySource fc \<noteq> []
                               then rat_of (fc_dataBytes fc) / of_nat (length (fc_bytesBySource fc)) else 0);
          avgTxPktsPerFlow = (if fc_framesBySource fc \<noteq> []
                              then rat_of (fc_dataFrames fc) / of_nat (length (fc_framesBySource fc)) else 0)
      in \<lparr>TcMessageRate = rat_of (fc_tcUniqueCount fc) / dur,
          AverageAdvertisedLinksPerTCMessage = ratio (fc_tcRows fc) (fc_tcCount fc),
          AverageMprCount = (if fc_addrsSeen fc \<noteq> []
                             then sumAdvertisedLinks / of_nat (length (fc_addrsSeen fc)) else 0),
          AverageHopCount = ratio (fc_tcHopSum fc) (fc_tcCount fc),
          MidMessageRate = rat_of (fc_midCount fc) / dur,
          HnaMessageRate = rat_of (fc_hnaCount fc) / dur,
          RoutingOverheadBytesRatio = ratio (fc_olsrBytes fc) (fc_dataBytes fc),
          NormalizedRoutingLoad =
            (if fc_dataFrames fc > 0 then Some (rat_of (fc_olsrFrames fc) / rat_of (fc_dataFrames fc)) else None),
          DataPacketRate = rat_of (fc_frames fc) / dur,
          Throughput = (rat_of (fc_dataBytes fc) * 8) / dur,
          AvgTxPacketSize = ratio (fc_bytes fc) (fc_frames fc),
          AvgFlowDuration = Mean srcDurations,
          FlowDurationStd = Std srcDurations,
          AvgFlowThroughput = (avgTxBytesPerFlow * 8) / dur,
          FlowThroughputStd = Std srcRates,
          AvgTxBytesPerFlow = avgTxBytesPerFlow,
          AvgTxPacketsPerFlow = avgTxPktsPerFlow\<rparr>)"

definition PerceivedSources :: "FeatureCollector \<Rightarrow> nat" where
  "PerceivedSources fc = length (fc_bytesBySource fc)"

definition HeardAnyIpFrame :: "FeatureCollector \<Rightarrow> bool" where
  "HeardAnyIpFrame fc \<longleftrightarrow> fc_dataFrames fc > 0"

definition HeardNonOlsrDataFrames :: "FeatureCollector \<Rightarrow> u64" where
  "HeardNonOlsrDataFrames fc =
     (if fc_dataFrames fc \<ge> fc_olsrFrames fc then fc_dataFrames fc - fc_olsrFrames fc else 0)"

section \<open>The messages that were heard\<close>

definition tc_of :: "MessageHeader \<Rightarrow> Tc option" where
  "tc_of m = (case m_message m of TC_MESSAGE tc \<Rightarrow> Some tc | _ \<Rightarrow> None)"

definition is_tc :: "MessageHeader \<Rightarrow> bool" where "is_tc m \<longleftrightarrow> tc_of m \<noteq> None"

definition adv_count :: "MessageHeader \<Rightarrow> u32" where
  "adv_count m = (case tc_of m of None \<Rightarrow> 0 | Some tc \<Rightarrow> of_nat (length (neighborAddresses tc)))"

definition msg_id :: "MessageHeader \<Rightarrow> ipv4 \<times> u16" where
  "msg_id m = (m_originatorAddress m, m_messageSequenceNumber m)"

text \<open>The packing of originator and sequence number loses nothing.\<close>

lemma tc_key_inj: "tc_key a b = tc_key a' b' \<longleftrightarrow> a = a' \<and> b = b'"
proof
  assume eq: "tc_key a b = tc_key a' b'"
  have "bit a n = bit a' n" if "n < 32" for n
  proof -
    have "bit (tc_key a b) (n + 16) = bit (tc_key a' b') (n + 16)" using eq by simp
    moreover have "\<not> bit b (n + 16)" "\<not> bit b' (n + 16)" by (auto dest: bit_imp_le_length)
    ultimately show ?thesis using that by (simp add: tc_key_def bit_simps)
  qed
  moreover have "bit b n = bit b' n" if "n < 16" for n
  proof -
    have "bit (tc_key a b) n = bit (tc_key a' b') n" using eq by simp
    then show ?thesis using that by (simp add: tc_key_def bit_simps)
  qed
  ultimately show "a = a' \<and> b = b'" by (auto intro!: bit_word_eqI)
qed simp

text \<open>What the collector knows after the messages \<open>ms\<close>.\<close>

definition heard :: "MessageHeader list \<Rightarrow> FeatureCollector \<Rightarrow> bool" where
  "heard ms fc \<longleftrightarrow>
     fc_tcCount fc = of_nat (length (filter is_tc ms)) \<and>
     fc_tcRows fc = (\<Sum>m\<leftarrow>filter is_tc ms. ucast (adv_count m)) \<and>
     fc_tcHopSum fc = (\<Sum>m\<leftarrow>filter is_tc ms. ucast (m_hopCount m)) \<and>
     set (fc_tcSeen fc) = (\<lambda>m. tc_key (fst (msg_id m)) (snd (msg_id m))) ` set (filter is_tc ms) \<and>
     fc_tcUniqueCount fc = of_nat (card (msg_id ` set (filter is_tc ms))) \<and>
     (\<forall>a. map_of (fc_advByOriginator fc) a =
        map_option adv_count (find_first (\<lambda>m. m_originatorAddress m = a) (rev (filter is_tc ms)))) \<and>
     set (fc_addrsSeen fc) = (\<Union>m\<in>set (filter is_tc ms). {m_originatorAddress m} \<union> set (neighborAddresses (the (tc_of m)))) \<and>
     fc_helloCount fc = of_nat (length (filter (\<lambda>m. m_messageType (m_message m) = 1) ms)) \<and>
     fc_midCount fc = of_nat (length (filter (\<lambda>m. m_messageType (m_message m) = 3) ms)) \<and>
     fc_hnaCount fc = of_nat (length (filter (\<lambda>m. m_messageType (m_message m) = 4) ms)) \<and>
     wf_map (fc_advByOriginator fc)"

lemma set_fold_insert: "set (fold set_insert xs s) = set xs \<union> set s"
  by (induction xs arbitrary: s) auto

lemma heard_tc:
  assumes "heard ms fc" and "m_message m = TC_MESSAGE tc"
  shows "heard (ms @ [m]) (count_message m fc)"
proof -
  let ?T = "filter is_tc ms" and ?k = "tc_key (m_originatorAddress m) (m_messageSequenceNumber m)"
  have tc: "tc_of m = Some tc" "is_tc m" "adv_count m = of_nat (length (neighborAddresses tc))"
    using assms(2) by (simp_all add: tc_of_def is_tc_def adv_count_def)
  have seen: "set_count (fc_tcSeen fc) ?k \<longleftrightarrow> msg_id m \<in> msg_id ` set ?T"
    using assms(1) by (auto simp: heard_def tc_key_inj msg_id_def image_iff)
  have card: "card (insert (msg_id m) (msg_id ` set ?T)) =
      (if set_count (fc_tcSeen fc) ?k then card (msg_id ` set ?T) else Suc (card (msg_id ` set ?T)))"
    unfolding seen by (simp add: insert_absorb)
  show ?thesis
  proof (cases "set_count (fc_tcSeen fc) ?k")
    case True
    then have "?k \<in> (\<lambda>m. tc_key (fst (msg_id m)) (snd (msg_id m))) ` set ?T" using assms(1) by (simp add: heard_def)
    with True tc card assms show ?thesis
      by (auto simp: heard_def count_message_def count_tc_def Let_def set_fold_insert find_first_append msg_id_def)
  next
    case False
    with tc card assms show ?thesis
      by (auto simp: heard_def count_message_def count_tc_def Let_def set_fold_insert find_first_append msg_id_def)
  qed
qed

lemma heard_snoc: "heard ms fc \<Longrightarrow> heard (ms @ [m]) (count_message m fc)"
  using heard_tc [of ms fc m]
  by (cases "m_message m") (auto simp: heard_def count_message_def is_tc_def tc_of_def)

lemma heard_fold: "heard ms fc \<Longrightarrow> heard (ms @ ns) (fold count_message ns fc)"
proof (induction ns arbitrary: ms fc)
  case (Cons n ns)
  then show ?case using Cons.IH [OF heard_snoc [OF Cons.prems]] by simp
qed simp

lemma count_with_size [simp]: "count_message (with_size m) fc = count_message m fc"
  by (simp add: count_message_def count_tc_def with_size_def split: msg_body.split)

lemma sniff_step:
  assumes "r \<noteq> 0" and "p = t # bs" and "\<not> (t < 1 \<or> t > 4)" and "RemoveHeader Deserialize p = Inr (msg, n, p')"
    and "c = of_nat (length p - length p')" and "c \<noteq> 0" and "\<not> c > r"
  shows "sniff_messages r p fc = sniff_messages (r - c) p' (count_message msg fc)"
  using assms by (subst sniff_messages.simps) (simp add: Let_def)

text \<open>The parsing loop counts exactly the messages that were written, whatever padding follows.\<close>

lemma sniff_messages_Serialize:
  assumes "length (concat (map Serialize ms)) < 65536"
  shows "sniff_messages (of_nat (length (concat (map Serialize ms)))) (concat (map Serialize ms) @ pad) fc =
    Inr (fold count_message ms fc)"
  using assms
proof (induction ms arbitrary: fc)
  case Nil
  then show ?case by (simp add: sniff_messages.simps)
next
  case (Cons m ms)
  let ?n = "length (Serialize m)" and ?l = "length (concat (map Serialize ms))"
  let ?rest = "concat (map Serialize ms) @ pad"
  have b: "?n + ?l < 65536" "?n < 65536" and IH: "\<And>fc. sniff_messages (of_nat ?l) ?rest fc = Inr (fold count_message ms fc)"
    using Cons by simp_all
  have "0 < ?n" by (simp add: length_Serialize)
  obtain t bytes where t: "Serialize m = t # bytes" "\<not> (t < 1 \<or> t > 4)"
    by (cases "m_message m") (simp_all add: Serialize_def WriteU8_def)
  have u: "unat (of_nat k :: u32) = k" if "k < 65536 + 65536" for k using that by (simp only: unat_of_nat) simp
  have nz0: "(of_nat k :: u32) \<noteq> 0" if "0 < k" "k < 65536" for k
    using u [of k] that by (metis unat_0 add.commute less_add_same_cancel1 less_irrefl less_trans zero_less_numeral)
  have nz: "(of_nat (?n + ?l) :: u32) \<noteq> 0" "(of_nat ?n :: u32) \<noteq> 0"
    using nz0 [of "?n + ?l"] nz0 [of ?n] b \<open>0 < ?n\<close> by simp_all
  have nz3: "\<not> (of_nat ?n :: u32) > of_nat (?n + ?l)"
    unfolding word_less_nat_alt using u [of "?n + ?l"] u [of ?n] b by (simp del: of_nat_add)
  have sub: "(of_nat (?n + ?l) - of_nat ?n :: u32) = of_nat ?l" by simp
  have rm: "RemoveHeader Deserialize (Serialize m @ ?rest) = Inr (with_size m, GetSerializedSize m, ?rest)"
    by (rule message.RemoveHeader_AddHeader [OF b(2)])
  have "sniff_messages (of_nat (?n + ?l)) (Serialize m @ ?rest) fc =
      sniff_messages (of_nat (?n + ?l) - of_nat ?n) ?rest (count_message m fc)"
    using sniff_step [OF nz(1) _ t(2) rm _ nz(2) nz3, of "bytes @ ?rest"] t(1) by simp
  then have "sniff_messages (of_nat (?n + ?l)) (Serialize m @ ?rest) fc = sniff_messages (of_nat ?l) ?rest (count_message m fc)"
    by (simp only: sub)
  then show ?case using IH by simp
qed

text \<open>A frame that carries an OLSR packet with the given messages, and padding.\<close>

definition olsr_frame :: "sniffed_frame \<Rightarrow> MessageHeader list \<Rightarrow> bool" where
  "olsr_frame f ms \<longleftrightarrow>
     fr_mac f = Some True \<and> (\<exists>src. fr_ip f = Some (src, 17)) \<and> fr_udp f = Some 698 \<and>
     (\<exists>h pad. fr_payload f = PacketHeader_Serialize h @ concat (map Serialize ms) @ pad \<and>
        unat (m_packetLength h) = 4 + length (concat (map Serialize ms)))"

text \<open>A frame without OLSR packet.\<close>

definition other_frame :: "sniffed_frame \<Rightarrow> bool" where
  "other_frame f \<longleftrightarrow> fr_mac f \<noteq> Some True \<or> fr_ip f = None \<or> (\<exists>src p. fr_ip f = Some (src, p) \<and> p \<noteq> 17) \<or> fr_udp f \<noteq> Some 698"

lemma sniff_remaining_packet:
  assumes "unat (m_packetLength h) = 4 + l" and "l \<le> left"
  shows "sniff_remaining h left = of_nat l"
proof -
  let ?len = "ucast (m_packetLength h) :: u32"
  have "?len = of_nat (4 + l)" unfolding assms(1) [symmetric] by (rule of_nat_unat [symmetric])
  moreover have "4 + l < 65536" using assms(1) unsigned_less [of "m_packetLength h", where 'a = nat] by simp
  ultimately have u: "unat ?len = 4 + l" by (simp only: unat_of_nat) simp
  have hdr: "PacketHeader_GetSerializedSize h = 4" by (simp add: PacketHeader_GetSerializedSize_def size_defs)
  show ?thesis
  proof (cases "l = 0")
    case True
    then show ?thesis using u by (simp add: sniff_remaining_def hdr Let_def word_less_nat_alt)
  next
    case False
    then have "4 < ?len" using u by (simp add: word_less_nat_alt)
    moreover have "unat (?len - 4) = l" using u \<open>4 < ?len\<close> by (simp add: unat_sub word_less_nat_alt word_le_nat_alt)
    moreover from this have "?len - 4 = of_nat l" by (metis of_nat_unat ucast_id)
    ultimately show ?thesis using assms(2) by (simp add: sniff_remaining_def hdr Let_def)
  qed
qed

lemma sniff_olsr_packet:
  assumes "unat (m_packetLength h) = 4 + length (concat (map Serialize ms))"
  shows "sniff_olsr n (PacketHeader_Serialize h @ concat (map Serialize ms) @ pad) fc =
    Inr (fold count_message ms (fc\<lparr>fc_olsrFrames := fc_olsrFrames fc + 1, fc_olsrBytes := fc_olsrBytes fc + ucast n\<rparr>))"
proof -
  let ?l = "length (concat (map Serialize ms))"
  have l: "?l < 65536 - 4" using assms unsigned_less [of "m_packetLength h", where 'a = nat] by simp
  have h: "length (PacketHeader_Serialize h) = 4" by (simp add: PacketHeader_Serialize_def WriteHtonU16_def)
  have rm: "RemoveHeader PacketHeader_Deserialize (PacketHeader_Serialize h @ concat (map Serialize ms) @ pad) =
      Inr (h, PacketHeader_GetSerializedSize h, concat (map Serialize ms) @ pad)"
    by (rule packet_header.RemoveHeader_AddHeader) (simp add: h)
  with rm sniff_messages_Serialize [of ms pad] l sniff_remaining_packet [OF assms, of "?l + length pad"] show ?thesis
    by (simp add: sniff_olsr_def Let_def h)
qed

section \<open>A whole window\<close>

definition observe_window :: "(rat \<times> sniffed_frame) list \<Rightarrow> FeatureCollector \<Rightarrow> FeatureCollector res" where
  "observe_window = foldE (\<lambda>(t, f). ObserveSniffedFrame t f)"

lemma heard_unaffected:
  "heard ms (fc\<lparr>fc_frames := a, fc_bytes := b\<rparr>) \<longleftrightarrow> heard ms fc"
  "heard ms (fc\<lparr>fc_olsrFrames := a, fc_olsrBytes := b\<rparr>) \<longleftrightarrow> heard ms fc"
  "heard ms (count_ip t n src fc) \<longleftrightarrow> heard ms fc"
  by (simp_all add: heard_def count_ip_def)

lemma observe_olsr_frame:
  assumes "olsr_frame f ms" and "heard ns fc"
  shows "\<exists>fc'. ObserveSniffedFrame t f fc = Inr fc' \<and> heard (ns @ ms) fc'"
proof -
  obtain src h pad where f: "fr_mac f = Some True" "fr_ip f = Some (src, 17)" "fr_udp f = Some 698"
    "fr_payload f = PacketHeader_Serialize h @ concat (map Serialize ms) @ pad"
    and len: "unat (m_packetLength h) = 4 + length (concat (map Serialize ms))"
    using assms(1) by (auto simp: olsr_frame_def)
  show ?thesis
    using assms(2) heard_fold
    by (simp add: ObserveSniffedFrame_def Let_def f sniff_olsr_packet [OF len] heard_unaffected)
qed

lemma observe_other_frame:
  assumes "other_frame f" and "heard ns fc"
  shows "\<exists>fc'. ObserveSniffedFrame t f fc = Inr fc' \<and> heard ns fc'"
  using assms
  by (auto simp: ObserveSniffedFrame_def Let_def other_frame_def heard_unaffected split: option.splits prod.splits)

text \<open>
  C21: The listener counts what was sent. When every frame of a window carries an OLSR packet that
  the serialization of the protocol wrote, with any padding behind it, or no OLSR packet, the
  collector reads the window to its end, and its counters are exact: every copy of a TC message
  counts for the copies, links and hop counts, a message heard on several paths counts once for the
  message rate (the 48-bit key of originator and sequence number never confuses two messages), and
  each originator's advertised links are those of its last TC message.
\<close>

theorem listener_counts_messages:
  assumes "list_all (\<lambda>((t, f), ms). olsr_frame f ms \<or> other_frame f \<and> ms = []) window"
    and "ms = concat (map snd window)" and "tcs = filter is_tc ms"
  shows "\<exists>fc. observe_window (map fst window) (Features_Reset t0) = Inr fc \<and>
    fc_tcCount fc = of_nat (length tcs) \<and>
    fc_tcUniqueCount fc = of_nat (card (msg_id ` set tcs)) \<and>
    fc_tcRows fc = (\<Sum>m\<leftarrow>tcs. ucast (adv_count m)) \<and>
    fc_tcHopSum fc = (\<Sum>m\<leftarrow>tcs. ucast (m_hopCount m)) \<and>
    (\<forall>a. map_of (fc_advByOriginator fc) a = map_option adv_count (find_first (\<lambda>m. m_originatorAddress m = a) (rev tcs))) \<and>
    set (fc_addrsSeen fc) = (\<Union>m\<in>set tcs. {m_originatorAddress m} \<union> set (neighborAddresses (the (tc_of m)))) \<and>
    fc_helloCount fc = of_nat (length (filter (\<lambda>m. m_messageType (m_message m) = 1) ms)) \<and>
    fc_midCount fc = of_nat (length (filter (\<lambda>m. m_messageType (m_message m) = 3) ms)) \<and>
    fc_hnaCount fc = of_nat (length (filter (\<lambda>m. m_messageType (m_message m) = 4) ms))"
proof -
  have "\<exists>fc'. observe_window (map fst window) fc = Inr fc' \<and> heard (ns @ concat (map snd window)) fc'"
    if "heard ns fc" for ns fc
    using assms(1) that
  proof (induction window arbitrary: ns fc)
    case (Cons w window)
    obtain t f ms where w: "w = ((t, f), ms)" by (cases w) auto
    then obtain fc1 where "ObserveSniffedFrame t f fc = Inr fc1" "heard (ns @ ms) fc1"
      using Cons.prems observe_olsr_frame [of f ms ns fc t] observe_other_frame [of f ns fc t] by auto
    then show ?case using Cons.IH [of "ns @ ms" fc1] Cons.prems(1) by (simp add: observe_window_def w)
  qed (simp add: observe_window_def)
  moreover have "heard [] (Features_Reset t0)" by (simp add: heard_def Features_Reset_def)
  ultimately obtain fc where "observe_window (map fst window) (Features_Reset t0) = Inr fc" "heard ms fc"
    unfolding assms(2) by fastforce
  then show ?thesis unfolding assms(3) by (intro exI [of _ fc]) (simp add: heard_def)
qed

definition example_sniffed_tc :: MessageHeader where
  "example_sniffed_tc = \<lparr>m_vTime = 0, m_originatorAddress = 7, m_timeToLive = 9, m_hopCount = 2,
     m_messageSequenceNumber = 5, m_messageSize = 0, m_message = TC_MESSAGE \<lparr>neighborAddresses = [3], tc_ansn = 1\<rparr>\<rparr>"

definition example_sniffed :: sniffed_frame where
  "example_sniffed = \<lparr>fr_size = 80, fr_mac = Some True, fr_ip = Some (7, 17), fr_udp = Some 698,
     fr_payload = PacketHeader_Serialize \<lparr>m_packetLength = 24, m_packetSequenceNumber = 1\<rparr> @
       Serialize example_sniffed_tc @ [0, 0]\<rparr>"

lemma example_sniffed_olsr: "olsr_frame example_sniffed [example_sniffed_tc]"
  unfolding olsr_frame_def
  by (auto simp: example_sniffed_def example_sniffed_tc_def length_Serialize Tc_Serialize_def WriteHtonU16_def
      WriteAddresses_def WriteHtonU32_def intro!: exI [of _ "\<lparr>m_packetLength = 24, m_packetSequenceNumber = 1\<rparr>"] exI [of _ "[0, 0]"])

theorem listener_counts_messages_witness:
  "\<exists>fc. observe_window [(0, example_sniffed), (1, example_sniffed)] (Features_Reset 0) = Inr fc \<and>
     fc_tcCount fc = 2 \<and> fc_tcUniqueCount fc = 1 \<and> fc_tcHopSum fc = 4 \<and> map_of (fc_advByOriginator fc) 7 = Some 1"
proof -
  have "is_tc example_sniffed_tc" "adv_count example_sniffed_tc = 1" "m_hopCount example_sniffed_tc = 2"
    "m_originatorAddress example_sniffed_tc = 7"
    by (simp_all add: is_tc_def tc_of_def adv_count_def example_sniffed_tc_def)
  then show ?thesis
    using listener_counts_messages [of "[((0, example_sniffed), [example_sniffed_tc]), ((1, example_sniffed), [example_sniffed_tc])]",
        OF _ refl refl, of 0] example_sniffed_olsr
    by auto
qed

section \<open>Consistency of the features\<close>

lemma sum_map_put:
  fixes f :: "'v \<Rightarrow> nat"
  assumes "wf_map m"
  shows "(\<Sum>(k, v)\<leftarrow>map_put k v m. f v) + (case map_of m k of None \<Rightarrow> 0 | Some w \<Rightarrow> f w) = f v + (\<Sum>(k, v)\<leftarrow>m. f v)"
  using assms
proof (induction k v m rule: map_put.induct)
  case (2 k v k' v' m)
  then have "map_of m k = None" if "k \<le> k'"
    using that by (force simp: wf_map_def map_of_eq_None_iff)
  with 2 show ?case by (auto simp: wf_map_def split: option.splits)
qed simp

lemma length_map_keys: "wf_map m \<Longrightarrow> length m = card (fst ` set m)"
  by (metis wf_map_distinct distinct_card length_map list.set_map)

definition seen_between :: "rat \<Rightarrow> rat \<Rightarrow> (u32, rat) std_map \<Rightarrow> (u32, rat) std_map \<Rightarrow> bool" where
  "seen_between t0 now fs ls \<longleftrightarrow>
     (\<forall>k t. map_of fs k = Some t \<longrightarrow> (\<exists>u. map_of ls k = Some u \<and> t0 \<le> t \<and> t \<le> u \<and> u \<le> now))"

lemma seen_between_mono: "seen_between t0 now fs ls \<Longrightarrow> now \<le> t \<Longrightarrow> seen_between t0 t fs ls"
  unfolding seen_between_def by (meson order_trans)

lemma seen_between_put:
  assumes "seen_between t0 t fs ls" and "t0 \<le> t"
  shows "seen_between t0 t (if map_of fs k = None then map_put k t fs else fs) (map_put k t ls)"
  unfolding seen_between_def
proof (intro allI impI)
  fix j u assume "map_of (if map_of fs k = None then map_put k t fs else fs) j = Some u"
  then show "\<exists>v. map_of (map_put k t ls) j = Some v \<and> t0 \<le> u \<and> u \<le> v \<and> v \<le> t"
    using assms unfolding seen_between_def by (cases "j = k") (force split: if_splits)+
qed

text \<open>
  What holds after \<open>n\<close> frames of \<open>b\<close> bytes observed between \<open>t0\<close> and \<open>now\<close>: the counters nest, the
  sources partition the IPv4 frames and bytes, and every source was seen within that time.
\<close>

definition window_ok :: "rat \<Rightarrow> rat \<Rightarrow> nat \<Rightarrow> nat \<Rightarrow> nat \<Rightarrow> FeatureCollector \<Rightarrow> bool" where
  "window_ok t0 now n b i fc \<longleftrightarrow>
     fc_winStart fc = t0 \<and> unat (fc_frames fc) = n \<and> unat (fc_bytes fc) = b \<and> unat (fc_dataFrames fc) = i \<and> i \<le> n \<and>
     unat (fc_dataBytes fc) \<le> b \<and> unat (fc_olsrFrames fc) \<le> i \<and> unat (fc_olsrBytes fc) \<le> unat (fc_dataBytes fc) \<and>
     (\<Sum>(k, v)\<leftarrow>fc_framesBySource fc. unat v) = i \<and> (\<Sum>(k, v)\<leftarrow>fc_bytesBySource fc. unat v) = unat (fc_dataBytes fc) \<and>
     wf_map (fc_framesBySource fc) \<and> wf_map (fc_bytesBySource fc) \<and>
     fst ` set (fc_framesBySource fc) = fst ` set (fc_bytesBySource fc) \<and>
     seen_between t0 now (fc_firstSeenBySource fc) (fc_lastSeenBySource fc) \<and>
     wf_map (fc_firstSeenBySource fc)"

text \<open>What the parsing of messages leaves alone.\<close>

definition frame_totals where
  "frame_totals fc = (fc_winStart fc, fc_frames fc, fc_bytes fc, fc_dataFrames fc, fc_dataBytes fc, fc_olsrFrames fc,
     fc_olsrBytes fc, fc_bytesBySource fc, fc_framesBySource fc, fc_firstSeenBySource fc, fc_lastSeenBySource fc)"

lemma count_message_totals: "frame_totals (count_message m fc) = frame_totals fc"
  by (simp add: count_message_def count_tc_def Let_def frame_totals_def split: msg_body.split)

lemma sniff_messages_totals: "sniff_messages r p fc = Inr fc' \<Longrightarrow> frame_totals fc' = frame_totals fc"
proof (induction r p fc arbitrary: fc' rule: sniff_messages.induct)
  case (1 r p fc)
  show ?case
  proof (cases p)
    case Nil
    then show ?thesis using 1(2) by (subst (asm) sniff_messages.simps) (simp split: if_splits)
  next
    case (Cons t bs)
    show ?thesis
    proof (cases "r = 0 \<or> t < 1 \<or> t > 4")
      case True
      then show ?thesis using 1(2) Cons by (subst (asm) sniff_messages.simps) (simp split: if_splits)
    next
      case False
      then have t: "r \<noteq> 0" "\<not> (t < 1 \<or> t > 4)" by auto
      with 1(2) Cons obtain m n p' where rm: "RemoveHeader Deserialize p = Inr (m, n, p')"
        by (subst (asm) sniff_messages.simps) (cases "RemoveHeader Deserialize p", auto)
      let ?c = "of_nat (length p - length p') :: u32"
      show ?thesis
      proof (cases "?c = 0 \<or> ?c > r")
        case True
        then show ?thesis using 1(2) t rm Cons by (subst (asm) sniff_messages.simps) (simp add: Let_def)
      next
        case no: False
        then have more: "sniff_messages (r - ?c) p' (count_message m fc) = Inr fc'"
          using sniff_step [OF t(1) Cons t(2) rm refl, of fc] 1(2) by simp
        from 1(1) [OF t(1) Cons t(2) rm refl refl refl no more]
        show ?thesis by (simp add: count_message_totals)
      qed
    qed
  qed
qed

lemma window_ok_totals: "frame_totals fc' = frame_totals fc \<Longrightarrow> window_ok t0 now n b i fc' = window_ok t0 now n b i fc"
  by (simp add: frame_totals_def window_ok_def)

lemma unat_add_small: "unat (x :: u64) + unat y < 2 ^ 64 \<Longrightarrow> unat (x + y) = unat x + unat y"
  by (rule unat_add_lem [THEN iffD1]) simp

lemma unat_frame_bytes: "unat (ucast (n :: u32) :: u64) = unat n"
proof -
  have "(ucast n :: u64) = of_nat (unat n)" by (rule of_nat_unat [symmetric])
  moreover have "unat n < 2 ^ 64" using unsigned_less [of n, where 'a = nat] by simp
  ultimately show ?thesis by (simp only: unat_of_nat) simp
qed

lemma window_ok_frame:
  assumes "window_ok t0 now n b i fc" and "now \<le> t" and "Suc n < 2 ^ 64" and "b + unat sz < 2 ^ 64"
  shows "window_ok t0 t (Suc n) (b + unat (sz :: u32)) i (fc\<lparr>fc_frames := fc_frames fc + 1, fc_bytes := fc_bytes fc + ucast sz\<rparr>)"
proof -
  have "unat (fc_frames fc + 1) = Suc n" using assms(1,3) by (subst unat_add_small) (simp_all add: window_ok_def)
  moreover have "unat (fc_bytes fc + ucast sz) = b + unat sz"
    using assms(1,4) by (subst unat_add_small) (simp_all add: window_ok_def unat_frame_bytes)
  ultimately show ?thesis using assms(1) seen_between_mono [OF _ assms(2)] unfolding window_ok_def by simp
qed

lemma sum_map_ref:
  assumes "wf_map (m :: (u32, u64) std_map)" and "(\<Sum>(k, v)\<leftarrow>m. unat v) + unat x < 2 ^ 64"
  shows "(\<Sum>(k, v)\<leftarrow>map_put k (map_ref 0 m k + x) m. unat v) = (\<Sum>(k, v)\<leftarrow>m. unat v) + unat x"
proof (cases "map_of m k")
  case None
  then show ?thesis using sum_map_put [OF assms(1), where f = unat, of k x] by (simp add: map_ref_def)
next
  case (Some w)
  have "unat w \<le> (\<Sum>(k, v)\<leftarrow>m. unat v)"
    using map_of_SomeD [OF Some] by (induction m) auto
  then have "unat (w + x) = unat w + unat x" using assms(2) by (intro unat_add_small) simp
  then show ?thesis using sum_map_put [OF assms(1), where f = unat, of k "w + x"] Some by (simp add: map_ref_def)
qed

lemma window_ok_ip:
  assumes "window_ok t0 t n b i fc" and "Suc i \<le> n" and "n < 2 ^ 64"
    and "unat (fc_dataBytes fc) + unat sz \<le> b" and "b < 2 ^ 64" and "t0 \<le> t"
    and "fc' = count_ip t sz src fc"
  shows "window_ok t0 t n b (Suc i) fc' \<and> unat (fc_olsrFrames fc') < Suc i \<and>
    unat (fc_olsrBytes fc') + unat sz \<le> unat (fc_dataBytes fc')"
proof -
  have df: "unat (fc_dataFrames fc + 1) = Suc i"
    using assms(1-3) by (subst unat_add_small) (simp_all add: window_ok_def)
  have db: "unat (fc_dataBytes fc + ucast sz) = unat (fc_dataBytes fc) + unat sz"
    using assms(4,5) by (subst unat_add_small) (simp_all add: unat_frame_bytes)
  have fs: "(\<Sum>(k, v)\<leftarrow>map_put src (map_ref 0 (fc_framesBySource fc) src + 1) (fc_framesBySource fc). unat v) = Suc i"
    using assms(1-3) by (subst sum_map_ref) (simp_all add: window_ok_def)
  have bs: "(\<Sum>(k, v)\<leftarrow>map_put src (map_ref 0 (fc_bytesBySource fc) src + ucast sz) (fc_bytesBySource fc). unat v) =
      unat (fc_dataBytes fc) + unat sz"
    using assms(1,4,5) by (subst sum_map_ref) (simp_all add: window_ok_def unat_frame_bytes)
  show ?thesis
    using assms(1,2,4) seen_between_put [OF _ assms(6)] unfolding assms(7) window_ok_def count_ip_def
    by (simp add: df db fs bs)
qed

lemma window_ok_olsr:
  assumes "window_ok t0 t n b i fc" and "unat (fc_olsrFrames fc) < i" and "i < 2 ^ 64"
    and "unat (fc_olsrBytes fc) + unat sz \<le> unat (fc_dataBytes fc)"
    and "sniff_olsr sz p fc = Inr fc'"
  shows "window_ok t0 t n b i fc'"
proof -
  let ?fc = "fc\<lparr>fc_olsrFrames := fc_olsrFrames fc + 1, fc_olsrBytes := fc_olsrBytes fc + ucast sz\<rparr>"
  have "unat (fc_olsrFrames fc + 1) = Suc (unat (fc_olsrFrames fc))"
    using assms(2,3) by (subst unat_add_small) simp_all
  moreover have "unat (fc_olsrBytes fc + ucast sz) = unat (fc_olsrBytes fc) + unat sz"
    using assms(4) unsigned_less [of "fc_dataBytes fc", where 'a = nat] by (subst unat_add_small) (simp_all add: unat_frame_bytes)
  ultimately have "window_ok t0 t n b i ?fc" using assms(1,2,4) unfolding window_ok_def by simp
  moreover have "frame_totals fc' = frame_totals ?fc"
    using assms(5) by (auto simp: sniff_olsr_def Let_def bindR_eq_Inr dest: sniff_messages_totals split: if_splits)
  ultimately show ?thesis using window_ok_totals by blast
qed

definition carries_ip :: "sniffed_frame \<Rightarrow> bool" where
  "carries_ip f \<longleftrightarrow> fr_mac f = Some True \<and> fr_ip f \<noteq> None"

lemma window_ok_observe:
  assumes "window_ok t0 now n b i fc" and "t0 \<le> now" and "now \<le> t" and "Suc n < 2 ^ 64" and "b + unat (fr_size f) < 2 ^ 64"
    and "ObserveSniffedFrame t f fc = Inr fc'"
  shows "window_ok t0 t (Suc n) (b + unat (fr_size f)) (if carries_ip f then Suc i else i) fc'"
proof -
  let ?fc = "fc\<lparr>fc_frames := fc_frames fc + 1, fc_bytes := fc_bytes fc + ucast (fr_size f)\<rparr>"
  have ok: "window_ok t0 t (Suc n) (b + unat (fr_size f)) i ?fc" by (rule window_ok_frame [OF assms(1,3-5)])
  show ?thesis
  proof (cases "carries_ip f")
    case False
    then show ?thesis using assms(6) ok by (auto simp: ObserveSniffedFrame_def Let_def carries_ip_def split: if_splits option.splits)
  next
    case True
    then obtain src pr where f: "fr_mac f = Some True" "fr_ip f = Some (src, pr)" by (auto simp: carries_ip_def)
    let ?fi = "count_ip t (fr_size f) src ?fc"
    have ip: "window_ok t0 t (Suc n) (b + unat (fr_size f)) (Suc i) ?fi \<and> unat (fc_olsrFrames ?fi) < Suc i \<and>
        unat (fc_olsrBytes ?fi) + unat (fr_size f) \<le> unat (fc_dataBytes ?fi)"
      using assms(1-5) by (intro window_ok_ip [OF ok]) (simp_all add: window_ok_def)
    have i: "Suc i < 2 ^ 64" using assms(1,4) by (simp add: window_ok_def)
    show ?thesis
    proof (cases "pr = 17 \<and> fr_udp f = Some 698")
      case True
      then have "sniff_olsr (fr_size f) (fr_payload f) ?fi = Inr fc'" using assms(6) f by (simp add: ObserveSniffedFrame_def Let_def)
      from window_ok_olsr [OF _ _ i _ this] ip show ?thesis using \<open>carries_ip f\<close> by simp
    next
      case False
      then have "fc' = ?fi" using assms(6) f by (auto simp: ObserveSniffedFrame_def Let_def split: if_splits)
      then show ?thesis using ip \<open>carries_ip f\<close> by simp
    qed
  qed
qed


lemma window_ok_run:
  assumes "window_ok t0 now n b i fc" and "t0 \<le> now" and "sorted_wrt (\<le>) (now # map fst frames)"
    and "n + length frames < 2 ^ 64" and "b + (\<Sum>f\<leftarrow>map snd frames. unat (fr_size f)) < 2 ^ 64"
    and "observe_window frames fc = Inr fc'" and "\<forall>t\<in>set (map fst frames). t \<le> tEnd" and "now \<le> tEnd"
  shows "window_ok t0 tEnd (n + length frames) (b + (\<Sum>f\<leftarrow>map snd frames. unat (fr_size f)))
    (i + length (filter carries_ip (map snd frames))) fc'"
  using assms
proof (induction frames arbitrary: now n b i fc)
  case Nil
  then show ?case using seen_between_mono by (auto simp: observe_window_def window_ok_def)
next
  case (Cons x frames)
  obtain t f where x: "x = (t, f)" by (cases x)
  from Cons.prems(6) obtain fc1 where one: "ObserveSniffedFrame t f fc = Inr fc1" and rest: "observe_window frames fc1 = Inr fc'"
    by (auto simp: observe_window_def x bindR_eq_Inr)
  have "window_ok t0 t (Suc n) (b + unat (fr_size f)) (if carries_ip f then Suc i else i) fc1"
    by (rule window_ok_observe [OF Cons.prems(1,2) _ _ _ one]) (use Cons.prems in \<open>auto simp: x\<close>)
  from Cons.IH [OF this _ _ _ _ rest] Cons.prems show ?case by (auto simp: x add.assoc split: if_splits)
qed

lemma rat_of_bounds [simp]: "0 \<le> rat_of x" "rat_of x \<le> rat_of y \<longleftrightarrow> unat x \<le> unat y" "rat_of x > 0 \<longleftrightarrow> x > 0"
  by (simp_all add: rat_of_def unat_gt_0 word_gt_0 del: of_nat_unat)

lemma Mean_bounds:
  assumes "\<And>x. x \<in> set v \<Longrightarrow> a \<le> x \<and> x \<le> b" and "a \<le> 0" and "0 \<le> b"
  shows "a \<le> Mean v \<and> Mean v \<le> b"
proof (cases "v = []")
  case False
  have "of_nat (length v) * a \<le> sum_list v \<and> sum_list v \<le> of_nat (length v) * b"
    using assms(1) by (induction v) (force simp: algebra_simps)+
  moreover have "0 < (of_nat (length v) :: rat)" using False by simp
  ultimately show ?thesis using False by (simp add: Mean_def le_divide_eq divide_le_eq mult.commute)
qed (use assms in \<open>simp add: Mean_def\<close>)


text \<open>
  C32: The features are consistent. After any window in which the frames arrive in order of time
  within \<open>[t0, t1]\<close>, of at least a microsecond and with counters below \<open>2 ^ 64\<close>, the load is undefined
  exactly when no IPv4 frame was heard and otherwise a share in \<open>[0, 1]\<close>, the overhead is a share in
  \<open>[0, 1]\<close>, no mean flow duration exceeds the window, the rates times the window give back the number
  of frames heard, and the mean flow throughput times the number of sources is the throughput, that is,
  the sources partition the traffic.
\<close>

theorem window_features_bounded:
  assumes "observe_window frames (Features_Reset t0) = Inr fc" and "x = EmitFeatures t1 fc"
    and "sorted_wrt (\<le>) (t0 # map fst frames)" and "\<forall>t\<in>set (map fst frames). t \<le> t1" and "t0 + 1 / 1000000 \<le> t1"
    and "length frames < 2 ^ 64" and "(\<Sum>f\<leftarrow>map snd frames. unat (fr_size f)) < 2 ^ 64"
  shows "(NormalizedRoutingLoad x = None \<longleftrightarrow> (\<forall>f\<in>set (map snd frames). \<not> carries_ip f)) \<and>
    (case NormalizedRoutingLoad x of None \<Rightarrow> True | Some r \<Rightarrow> 0 \<le> r \<and> r \<le> 1) \<and>
    0 \<le> RoutingOverheadBytesRatio x \<and> RoutingOverheadBytesRatio x \<le> 1 \<and>
    0 \<le> AvgFlowDuration x \<and> AvgFlowDuration x \<le> t1 - t0 \<and>
    DataPacketRate x * (t1 - t0) = of_nat (length frames) \<and>
    AvgFlowThroughput x * of_nat (PerceivedSources fc) = Throughput x \<and>
    AvgTxPacketsPerFlow x * of_nat (PerceivedSources fc) = of_nat (length (filter carries_ip (map snd frames)))"
proof -
  have "window_ok t0 t0 0 0 0 (Features_Reset t0)" by (simp add: window_ok_def Features_Reset_def seen_between_def wf_map_def)
  from window_ok_run [OF this order.refl assms(3) _ _ assms(1,4)] assms(5-7)
  have ok: "window_ok t0 t1 (length frames) (\<Sum>f\<leftarrow>map snd frames. unat (fr_size f)) (length (filter carries_ip (map snd frames))) fc"
    by simp
  have dur: "max (1 / 1000000) (t1 - t0) = t1 - t0" "0 < t1 - t0" using assms(5) by simp_all
  have start: "fc_winStart fc = t0" and cnt: "unat (fc_frames fc) = length frames"
    "unat (fc_dataFrames fc) = length (filter carries_ip (map snd frames))" using ok unfolding window_ok_def by blast+
  let ?n = "length (fc_bytesBySource fc)"
  have wf: "wf_map (fc_framesBySource fc)" "wf_map (fc_bytesBySource fc)" "wf_map (fc_firstSeenBySource fc)"
    and keys: "fst ` set (fc_framesBySource fc) = fst ` set (fc_bytesBySource fc)"
    and seen: "seen_between t0 t1 (fc_firstSeenBySource fc) (fc_lastSeenBySource fc)"
    and le: "unat (fc_olsrFrames fc) \<le> unat (fc_dataFrames fc)" "unat (fc_olsrBytes fc) \<le> unat (fc_dataBytes fc)"
    and sums: "(\<Sum>(k, v)\<leftarrow>fc_framesBySource fc. unat v) = unat (fc_dataFrames fc)"
      "(\<Sum>(k, v)\<leftarrow>fc_bytesBySource fc. unat v) = unat (fc_dataBytes fc)"
    using ok unfolding window_ok_def by metis+
  have n: "length (fc_framesBySource fc) = ?n" by (simp add: length_map_keys wf keys)
  have none: "fc_dataFrames fc = 0 \<longleftrightarrow> (\<forall>f\<in>set (map snd frames). \<not> carries_ip f)"
    using cnt(2) by (metis filter_empty_conv length_0_conv unat_eq_zero)
  have db: "fc_dataBytes fc = 0" "fc_dataFrames fc = 0" if "?n = 0"
    using sums that n by (simp_all add: unat_eq_zero)
  have "0 \<le> Mean v \<and> Mean v \<le> t1 - t0"
    if v: "v = map (\<lambda>(k, fs). map_ref 0 (fc_lastSeenBySource fc) k - fs)
      (filter (\<lambda>(k, _). map_of (fc_lastSeenBySource fc) k \<noteq> None) (fc_firstSeenBySource fc))" for v
  proof (rule Mean_bounds)
    fix d assume "d \<in> set v"
    then obtain k fs where k: "(k, fs) \<in> set (fc_firstSeenBySource fc)" "d = map_ref 0 (fc_lastSeenBySource fc) k - fs"
      using v by auto
    then have "map_of (fc_firstSeenBySource fc) k = Some fs" by (simp add: wf wf_map_distinct)
    then show "0 \<le> d \<and> d \<le> t1 - t0" using seen k(2) by (fastforce simp: seen_between_def map_ref_def)
  qed (use dur in simp_all)
  note mean = this [OF refl]
  have frames: "0 < fc_dataFrames fc \<longleftrightarrow> fc_dataFrames fc \<noteq> 0" "0 < fc_dataBytes fc \<longleftrightarrow> fc_dataBytes fc \<noteq> 0"
    by (simp_all add: word_gt_0)
  note X = assms(2) [unfolded EmitFeatures_def start dur(1) Let_def]
  have "NormalizedRoutingLoad x = None \<longleftrightarrow> (\<forall>f\<in>set (map snd frames). \<not> carries_ip f)"
    unfolding X none [symmetric] by (simp add: frames)
  moreover have "case NormalizedRoutingLoad x of None \<Rightarrow> True | Some r \<Rightarrow> 0 \<le> r \<and> r \<le> 1"
    unfolding X by (simp add: le)
  moreover have "0 \<le> RoutingOverheadBytesRatio x \<and> RoutingOverheadBytesRatio x \<le> 1"
    unfolding X ratio_def by (simp add: le)
  moreover have "0 \<le> AvgFlowDuration x \<and> AvgFlowDuration x \<le> t1 - t0"
    unfolding X features.simps by (rule mean)
  moreover have "DataPacketRate x * (t1 - t0) = of_nat (length frames)"
    unfolding X features.simps rat_of_def cnt using dur(2) by simp
  moreover have "AvgFlowThroughput x * of_nat (PerceivedSources fc) = Throughput x"
    unfolding X features.simps PerceivedSources_def using db(1) by (simp add: rat_of_def)
  moreover have "AvgTxPacketsPerFlow x * of_nat (PerceivedSources fc) = of_nat (length (filter carries_ip (map snd frames)))"
    unfolding X features.simps PerceivedSources_def rat_of_def cnt(2) using n db(2) cnt(2) by auto
  ultimately show ?thesis by blast
qed


theorem window_features_bounded_witness:
  "\<exists>fc. observe_window [(0, example_sniffed), (1, example_sniffed)] (Features_Reset 0) = Inr fc \<and>
     DataPacketRate (EmitFeatures 2 fc) = 1 \<and> NormalizedRoutingLoad (EmitFeatures 2 fc) \<noteq> None"
proof -
  have "heard [] (Features_Reset 0)" by (simp add: heard_def Features_Reset_def)
  from observe_olsr_frame [OF example_sniffed_olsr this, of 0] obtain fc1 where
    1: "ObserveSniffedFrame 0 example_sniffed (Features_Reset 0) = Inr fc1" "heard [example_sniffed_tc] fc1" by auto
  from observe_olsr_frame [OF example_sniffed_olsr 1(2), of 1] obtain fc where
    "ObserveSniffedFrame 1 example_sniffed fc1 = Inr fc" by auto
  with 1 have run: "observe_window [(0, example_sniffed), (1, example_sniffed)] (Features_Reset 0) = Inr fc"
    by (simp add: observe_window_def)
  have "carries_ip example_sniffed" "fr_size example_sniffed = 80" by (simp_all add: carries_ip_def example_sniffed_def)
  with window_features_bounded [OF run refl, of 2] run show ?thesis by (intro exI [of _ fc]) simp
qed

end
