(* ===== verification/Eval_Oracle.thy ===== *)
theory Eval_Oracle
  imports Complex_Main Eval_Draw Eval_Features
begin

text \<open>
  The omniscient counters of the evaluation harness (src/scratch/olsr-dcfm-eval-mitigation.cc), which end
  in the oracle row of a window: the control messages that any node transmits, the frames that MAC layers
  send and drop, and what UDP servers and flow monitor have counted. A transmitted datagram is the record
  \<open>tx_datagram\<close> of what the code reads from it. \<open>std::stoul\<close> and \<open>std::getline\<close> on strings are here too.
\<close>

section \<open>Control messages of all nodes\<close>

record olsr_counters =
  g_helloCount :: u64
  g_tcCount :: u64
  g_midCount :: u32
  g_hnaCount :: u32
  g_totalTcRows :: u64
  g_olsrControlBytesWithHello :: u64

definition ResetOlsrCounters :: olsr_counters where
  "ResetOlsrCounters =
     \<lparr>g_helloCount = 0, g_tcCount = 0, g_midCount = 0, g_hnaCount = 0, g_totalTcRows = 0,
      g_olsrControlBytesWithHello = 0\<rparr>"

text \<open>
  \<open>tx_protocol\<close> is the protocol of the IPv4 header, \<open>tx_port\<close> the destination port of the UDP header behind
  it; each is \<open>None\<close> when the datagram is too short for that header.
\<close>

record tx_datagram =
  tx_size :: u32
  tx_protocol :: "u8 option"
  tx_port :: "u16 option"
  tx_payload :: "u8 list"

definition count_traced :: "MessageHeader \<Rightarrow> olsr_counters \<Rightarrow> olsr_counters" where
  "count_traced msg c =
     (case m_message msg of
        HELLO_MESSAGE _ \<Rightarrow> c\<lparr>g_helloCount := g_helloCount c + 1\<rparr>
      | TC_MESSAGE tc \<Rightarrow>
          c\<lparr>g_tcCount := g_tcCount c + 1,
            g_totalTcRows := g_totalTcRows c + of_nat (length (neighborAddresses tc))\<rparr>
      | MID_MESSAGE _ \<Rightarrow> c\<lparr>g_midCount := g_midCount c + 1\<rparr>
      | HNA_MESSAGE _ \<Rightarrow> c\<lparr>g_hnaCount := g_hnaCount c + 1\<rparr>)"

text \<open>The loop runs while a message header of 12 bytes can be left.\<close>

function trace_messages :: "u32 \<Rightarrow> u8 list \<Rightarrow> olsr_counters \<Rightarrow> olsr_counters res" where
  "trace_messages remaining p c =
     (if remaining < 12 then Inr c
      else case p of
        [] \<Rightarrow> Inr c
      | firstByte # _ \<Rightarrow>
          if firstByte < 1 \<or> firstByte > 4 then Inr c
          else bindR (RemoveHeader Deserialize p) (\<lambda>(msg, _, p').
            let consumed = of_nat (length p - length p')
            in if consumed = 0 \<or> consumed > remaining then Inr c
               else trace_messages (remaining - consumed) p' (count_traced msg c)))"
  by pat_completeness auto
termination
  by (relation "measure (\<lambda>(remaining, _, _). unat remaining)")
    (simp_all only: wf_measure in_measure prod.case de_Morgan_disj not_less unat_less_sub not_False_eq_True simp_thms)

declare trace_messages.simps [simp del]

definition trace_remaining :: "PacketHeader \<Rightarrow> nat \<Rightarrow> u32" where
  "trace_remaining olsrHeader left =
     (let olsrHdrSize = PacketHeader_GetSerializedSize olsrHeader;
          len = ucast (m_packetLength olsrHeader);
          remaining = (if len \<ge> olsrHdrSize then len - olsrHdrSize else 0)
      in if unat remaining > left then of_nat left else remaining)"

definition TraceOlsrPacket :: "tx_datagram \<Rightarrow> olsr_counters \<Rightarrow> olsr_counters res" where
  "TraceOlsrPacket d c =
     (if tx_protocol d \<noteq> Some 17 then Inr c
      else if tx_port d \<noteq> Some 698 then Inr c
      else
        let c = c\<lparr>g_olsrControlBytesWithHello := g_olsrControlBytesWithHello c + ucast (tx_size d)\<rparr>
        in if length (tx_payload d) < 4 then Inr c
           else bindR (RemoveHeader PacketHeader_Deserialize (tx_payload d)) (\<lambda>(olsrHeader, _, p).
             trace_messages (trace_remaining olsrHeader (length p)) p c))"

section \<open>Strings\<close>

text \<open>
  \<open>std::stoul\<close> in base 10 on a 64-bit \<open>unsigned long\<close>: leading white space, a sign, the longest run of
  digits; without digits or beyond the range it throws, which is \<open>None\<close>.
\<close>

definition isspace :: "char \<Rightarrow> bool" where
  "isspace c \<longleftrightarrow> c = CHR '' '' \<or> (9 \<le> (of_char c :: nat) \<and> (of_char c :: nat) \<le> 13)"

definition is_digit :: "char \<Rightarrow> bool" where
  "is_digit c \<longleftrightarrow> 48 \<le> (of_char c :: nat) \<and> (of_char c :: nat) \<le> 57"

definition digits_value :: "string \<Rightarrow> nat" where
  "digits_value ds = foldl (\<lambda>n c. 10 * n + (of_char c - 48)) 0 ds"

definition stoul :: "string \<Rightarrow> nat option" where
  "stoul s =
     (let s = dropWhile isspace s;
          (neg, s) = (case s of [] \<Rightarrow> (False, s)
            | c # cs \<Rightarrow> if c = CHR ''-'' then (True, cs) else if c = CHR ''+'' then (False, cs) else (False, s));
          ds = takeWhile is_digit s;
          n = digits_value ds
      in if ds = [] \<or> n \<ge> 2 ^ 64 then None
         else Some (if neg then (2 ^ 64 - n) mod 2 ^ 64 else n))"

text \<open>The segments between commas that are not empty, as \<open>std::getline\<close> yields them.\<close>

fun segments :: "string \<Rightarrow> string \<Rightarrow> string list" where
  "segments seg [] = (if seg = [] then [] else [seg])"
| "segments seg (c # cs) =
     (if c = CHR '','' then (if seg = [] then [] else [seg]) @ segments [] cs else segments (seg @ [c]) cs)"

definition CountAttackers :: "string \<Rightarrow> nat" where
  "CountAttackers list = length (segments [] list)"

definition PipeJoinAttackers :: "string \<Rightarrow> string" where
  "PipeJoinAttackers list =
     (let out = foldl (\<lambda>out seg. (if out = [] then out else out @ ''|'') @ seg) [] (segments [] list)
      in if out = [] then ''none'' else out)"

text \<open>\<open>context.find\<close>: the position of the first occurrence from \<open>i\<close> on.\<close>

fun find_string :: "string \<Rightarrow> nat \<Rightarrow> string \<Rightarrow> nat option" where
  "find_string pat i [] = (if pat = [] then Some i else None)"
| "find_string pat i (c # cs) =
     (if take (length pat) (c # cs) = pat then Some i else find_string pat (i + 1) cs)"

definition ParseNodeIdFromContext :: "string \<Rightarrow> u32 res" where
  "ParseNodeIdFromContext ctxt =
     (case find_string ''/NodeList/'' 0 ctxt of
        None \<Rightarrow> Inr 0
      | Some start \<Rightarrow>
          let rest = drop (start + 10) ctxt
          in case find_string ''/'' 0 rest of
               None \<Rightarrow> Inr 0
             | Some len \<Rightarrow>
                 (case stoul (take len rest) of
                    None \<Rightarrow> Inl Fatal_error
                  | Some n \<Rightarrow> Inr (of_nat n)))"

section \<open>MAC counters\<close>

text \<open>\<open>MacTxOracleOnlyCallback\<close> and \<open>MacTxDropCallback\<close> on their vector.\<close>

definition count_node :: "string \<Rightarrow> u32 list \<Rightarrow> u32 list res" where
  "count_node ctxt perNode =
     bindR (ParseNodeIdFromContext ctxt) (\<lambda>nodeId.
       Inr (if unat nodeId < length perNode
            then perNode[unat nodeId := perNode ! unat nodeId + 1] else perNode))"

definition sum_counts :: "u32 list \<Rightarrow> u64" where
  "sum_counts perNode = foldl (\<lambda>s v. s + ucast v) 0 perNode"

section \<open>The oracle row\<close>

text \<open>The totals that are read from the flow monitor, one record for each flow.\<close>

record flow_stats =
  fs_txPackets :: u32
  fs_rxPackets :: u32
  fs_rxBytes :: u64
  fs_delaySum :: time

definition ResetAllStats :: "flow_stats list \<Rightarrow> flow_stats list" where
  "ResetAllStats stats =
     map (\<lambda>s. s\<lparr>fs_delaySum := 0, fs_rxBytes := 0, fs_txPackets := 0, fs_rxPackets := 0\<rparr>) stats"

definition UDP_PACKETS_PER_WINDOW :: u64 where "UDP_PACKETS_PER_WINDOW = 18"
definition UDP_EXPECTED_PER_WINDOW :: u64 where "UDP_EXPECTED_PER_WINDOW = of_nat NUM_DATA_FLOWS * UDP_PACKETS_PER_WINDOW"

text \<open>The columns but for those that \<open>ObserveAttackerOnPath\<close> and \<open>SampleDetectionAccuracy\<close> have prepared.\<close>

record traffic =
  throughputMbps :: rat
  pdrPercent :: rat
  avgDelaySec :: rat
  txPackets :: u64
  rxPackets :: u64
  rxBytes :: u64
  udpReceivedInWindow :: u64
  udpLossPercent :: rat
  overheadRatio :: rat

definition flow_traffic :: "rat \<Rightarrow> flow_stats list option \<Rightarrow> u64 \<Rightarrow> u64 \<Rightarrow> traffic" where
  "flow_traffic duration monitor controlBytes udpReceived =
     (let stats = (case monitor of None \<Rightarrow> [] | Some fs \<Rightarrow> fs);
          tx = foldl (\<lambda>s f. s + ucast (fs_txPackets f)) 0 stats;
          rx = foldl (\<lambda>s f. s + ucast (fs_rxPackets f)) 0 stats;
          bytes = foldl (\<lambda>s f. s + fs_rxBytes f) 0 stats;
          delaySumSec = foldl (\<lambda>s f. s + of_int (fs_delaySum f) / 1000000000) 0 stats;
          udpMissing = (if udpReceived \<ge> UDP_EXPECTED_PER_WINDOW then 0 else UDP_EXPECTED_PER_WINDOW - udpReceived)
      in \<lparr>throughputMbps = (if duration > 0 then rat_of bytes * 8 / (duration * 1000000) else 0),
          pdrPercent = (if tx > 0 then 100 * rat_of rx / rat_of tx else 0),
          avgDelaySec = (if rx > 0 then delaySumSec / rat_of rx else 0),
          txPackets = tx, rxPackets = rx, rxBytes = bytes,
          udpReceivedInWindow = udpReceived,
          udpLossPercent = 100 * rat_of udpMissing / rat_of UDP_EXPECTED_PER_WINDOW,
          overheadRatio = (if bytes > 0 then rat_of controlBytes / rat_of bytes else 0)\<rparr>)"

lemma segments_not_empty: "seg' \<in> set (segments seg s) \<Longrightarrow> seg' \<noteq> []"
  by (induction seg s rule: segments.induct) (auto split: if_splits)

end
