(* ===== verification/Eval_Scenarios.thy ===== *)
theory Eval_Scenarios
  imports Complex_Main Eval_Network Eval_Oracle
begin

text \<open>
  The course of a run of the evaluation harness (src/scratch/olsr-dcfm-eval-mitigation.cc): the events
  that \<open>main\<close> schedules, the measurement brackets with the rows they write, and the simulator that runs
  these events in the order of their time stamps among whatever happens in the network. Times of the
  harness are rational seconds.
\<close>

section \<open>Time line\<close>

definition SLOT_STABILIZATION :: rat where "SLOT_STABILIZATION = 60"
definition MEASUREMENT_DURATION :: rat where "MEASUREMENT_DURATION = 40"
definition SLOT_DURATION :: rat where "SLOT_DURATION = SLOT_STABILIZATION + MEASUREMENT_DURATION"
definition MIXED_INITIAL_STABILIZATION :: rat where "MIXED_INITIAL_STABILIZATION = 60"
definition ACCEPTANCE_GATE_TIME :: rat where "ACCEPTANCE_GATE_TIME = 60"
definition UDP_START_OFFSET_IN_WINDOW :: rat where "UDP_START_OFFSET_IN_WINDOW = 4"

text \<open>The parameter \<open>g\<close> is \<open>g_initialStabilization\<close>, which \<open>main\<close> fixes before it schedules anything.\<close>

definition SlotTransitionTime :: "rat \<Rightarrow> nat \<Rightarrow> rat" where
  "SlotTransitionTime g k = g + of_nat k * SLOT_DURATION"

definition SlotWindowStart :: "rat \<Rightarrow> nat \<Rightarrow> rat" where
  "SlotWindowStart g k = g + of_nat k * SLOT_DURATION + SLOT_STABILIZATION"

definition SlotWindowEnd :: "rat \<Rightarrow> nat \<Rightarrow> rat" where
  "SlotWindowEnd g k = SlotWindowStart g k + MEASUREMENT_DURATION"

definition initialStabilization :: "bool \<Rightarrow> rat" where
  "initialStabilization randomWindowOrder = (if randomWindowOrder then MIXED_INITIAL_STABILIZATION else 0)"

definition scenarioOrder :: "bool \<Rightarrow> (nat \<Rightarrow> u32) \<Rightarrow> nat list option" where
  "scenarioOrder randomWindowOrder rng =
     (if randomWindowOrder then DeterministicShuffle rng [0..<NUM_SLOTS] else Some [0..<NUM_SLOTS])"

lemmas time_defs = SLOT_STABILIZATION_def MEASUREMENT_DURATION_def SLOT_DURATION_def MIXED_INITIAL_STABILIZATION_def
  ACCEPTANCE_GATE_TIME_def UDP_START_OFFSET_IN_WINDOW_def SlotTransitionTime_def SlotWindowStart_def SlotWindowEnd_def

section \<open>Measurement brackets\<close>

text \<open>
  The staged rows: labels (scenario, window, labels of defense and attack, attacker on path, number of
  attackers), features (window, duration, the 17 features) and oracle, each with run and scenario.
\<close>

record label_row =
  lr_run :: u32
  lr_scenario :: string
  lr_start :: rat
  lr_end :: rat
  lr_defense :: nat
  lr_attack :: nat
  lr_onPath :: bool
  lr_attackers :: nat

record feature_row =
  fr_run :: u32
  fr_scenario :: string
  fr_start :: rat
  fr_end :: rat
  fr_duration :: rat
  fr_features :: features

record oracle_row =
  or_run :: u32
  or_scenario :: string
  or_start :: rat
  or_end :: rat
  or_traffic :: traffic
  or_helloCount :: u64
  or_controlBytes :: u64
  or_pathHops :: int
  or_minAttackerTrust :: rat
  or_avgAttackerTrust :: rat
  or_blacklistMaxSize :: nat
  or_macTxInWin :: u64
  or_macDropInWin :: u64
  or_macTxTotal :: u64
  or_macDropTotal :: u64
  or_trueDetections :: nat
  or_falseDetections :: nat
  or_defendersTotal :: nat
  or_defendersInRange :: nat
  or_detectionPercent :: rat
  or_detectionPercentInRange :: rat
  or_falseAlarmRate :: rat

text \<open>
  The globals of the measurement. \<open>g_udpServers\<close> is the counter \<open>GetReceived\<close> of each server,
  \<open>g_flowMonitor\<close> is \<open>None\<close> when there is no monitor.
\<close>

record run_state = harness +
  g_currentRun :: u32
  g_features :: FeatureCollector
  g_featuresActive :: bool
  g_counters :: olsr_counters
  g_macTxPerNode :: "u32 list"
  g_macDropPerNode :: "u32 list"
  g_macTxAtWindowStart :: u64
  g_macDropAtWindowStart :: u64
  g_udpServers :: "u64 list"
  g_udpReceivedAtWindowStart :: u64
  g_flowMonitor :: "flow_stats list option"
  g_labelRows :: "label_row list"
  g_featureRows :: "feature_row list"
  g_oracleRows :: "oracle_row list"

record run_config =
  cf_initialStabilization :: rat
  cf_attackerIds :: "nat list"
  cf_spoofCount :: u32
  cf_flowAddrPairs :: "(ipv4 \<times> ipv4) list"
  cf_maliciousNodesList :: string

definition SnapshotUdpReceived :: "run_state \<Rightarrow> run_state" where
  "SnapshotUdpReceived h = h\<lparr>g_udpReceivedAtWindowStart := foldl (+) 0 (g_udpServers h)\<rparr>"

definition StartMeasurementWindow :: "rat \<Rightarrow> run_state \<Rightarrow> run_state" where
  "StartMeasurementWindow now h =
     (if g_runRejected h then h
      else (SnapshotUdpReceived h)
        \<lparr>g_counters := ResetOlsrCounters,
         g_flowMonitor := map_option ResetAllStats (g_flowMonitor h),
         g_macTxAtWindowStart := sum_counts (g_macTxPerNode h),
         g_macDropAtWindowStart := sum_counts (g_macDropPerNode h),
         g_features := Features_Reset now,
         g_featuresActive := True\<rparr>)"

definition oracle_row_of :: "string \<Rightarrow> rat \<Rightarrow> rat \<Rightarrow> run_state \<Rightarrow> oracle_row" where
  "oracle_row_of scenarioName windowStart windowEnd h =
     (let macTxTotal = sum_counts (g_macTxPerNode h);
          macDropTotal = sum_counts (g_macDropPerNode h)
      in \<lparr>or_run = g_currentRun h, or_scenario = scenarioName, or_start = windowStart, or_end = windowEnd,
          or_traffic = flow_traffic (windowEnd - windowStart) (g_flowMonitor h)
            (g_olsrControlBytesWithHello (g_counters h)) (foldl (+) 0 (g_udpServers h) - g_udpReceivedAtWindowStart h),
          or_helloCount = g_helloCount (g_counters h),
          or_controlBytes = g_olsrControlBytesWithHello (g_counters h),
          or_pathHops = g_pathHopsPrevWindow h, or_minAttackerTrust = g_minAttackerTrust h,
          or_avgAttackerTrust = g_avgAttackerTrust h, or_blacklistMaxSize = g_blacklistMaxSize h,
          or_macTxInWin = macTxTotal - g_macTxAtWindowStart h, or_macDropInWin = macDropTotal - g_macDropAtWindowStart h,
          or_macTxTotal = macTxTotal, or_macDropTotal = macDropTotal,
          or_trueDetections = g_trueDetections h, or_falseDetections = g_falseDetections h,
          or_defendersTotal = g_defendersTotal h, or_defendersInRange = g_defendersInRange h,
          or_detectionPercent = g_detectionPercent h, or_detectionPercentInRange = g_detectionPercentInRange h,
          or_falseAlarmRate = g_falseAlarmRate h\<rparr>)"

definition EndMeasurementWindow :: "string \<Rightarrow> rat \<Rightarrow> rat \<Rightarrow> run_config \<Rightarrow> run_state \<Rightarrow> run_state" where
  "EndMeasurementWindow scenarioName windowStart windowEnd cfg h =
     (if g_runRejected h then h
      else
        let (attEn, defEn) = LabelsForScenario scenarioName
        in h\<lparr>g_featuresActive := False,
             g_oracleRows := g_oracleRows h @ [oracle_row_of scenarioName windowStart windowEnd h],
             g_labelRows := g_labelRows h @
               [\<lparr>lr_run = g_currentRun h, lr_scenario = scenarioName, lr_start = windowStart, lr_end = windowEnd,
                 lr_defense = defEn, lr_attack = attEn, lr_onPath = g_attackerOnPathPrevWindow h,
                 lr_attackers = CountAttackers (cf_maliciousNodesList cfg)\<rparr>],
             g_featureRows := g_featureRows h @
               [\<lparr>fr_run = g_currentRun h, fr_scenario = scenarioName, fr_start = windowStart, fr_end = windowEnd,
                 fr_duration = windowEnd - windowStart, fr_features = EmitFeatures windowEnd (g_features h)\<rparr>]\<rparr>)"

definition StartSlot :: "nat \<Rightarrow> rat \<Rightarrow> run_state \<Rightarrow> run_state" where
  "StartSlot slot now h = StartMeasurementWindow now h"

definition EndSlot :: "nat \<Rightarrow> run_config \<Rightarrow> run_state \<Rightarrow> run_state res" where
  "EndSlot slot cfg h =
     bindR (scenario_of slot h) (\<lambda>sc.
       Inr (EndMeasurementWindow (sc_name sc) (SlotWindowStart (cf_initialStabilization cfg) slot)
              (SlotWindowEnd (cf_initialStabilization cfg) slot) cfg h))"

section \<open>Scheduled events\<close>

datatype harness_event =
    Observe_attacker
  | Sample_detection
  | Gate_connectivity
  | Gate_route
  | Apply_scenario nat
  | Start_slot nat
  | End_slot nat

fun handle :: "run_config \<Rightarrow> rat \<Rightarrow> harness_event \<Rightarrow> run_state \<Rightarrow> run_state res" where
  "handle cfg now Observe_attacker h = ObserveAttackerOnPath (cf_attackerIds cfg) (cf_flowAddrPairs cfg) h"
| "handle cfg now Sample_detection h = Inr (SampleDetectionAccuracy (cf_attackerIds cfg) h)"
| "handle cfg now Gate_connectivity h = Inr (AssertConnectivity now h)"
| "handle cfg now Gate_route h = AssertRouteExists now h"
| "handle cfg now (Apply_scenario k) h = ApplyScenarioState (cf_attackerIds cfg) (cf_spoofCount cfg) k h"
| "handle cfg now (Start_slot k) h = Inr (StartSlot k now h)"
| "handle cfg now (End_slot k) h = EndSlot k cfg h"

text \<open>The calls of \<open>Simulator::Schedule\<close> in the order of \<open>main\<close>, without those that only print.\<close>

definition main_schedule :: "rat \<Rightarrow> (rat \<times> harness_event) list" where
  "main_schedule g =
     concat (map (\<lambda>k. [(SlotWindowStart g k + UDP_START_OFFSET_IN_WINDOW - 2, Observe_attacker),
                       (SlotWindowEnd g k - 1 / 1000, Sample_detection)]) [0..<NUM_SLOTS]) @
     [(ACCEPTANCE_GATE_TIME, Gate_connectivity), (ACCEPTANCE_GATE_TIME, Gate_route)] @
     map (\<lambda>k. (SlotTransitionTime g k, Apply_scenario k)) [0..<NUM_SLOTS] @
     concat (map (\<lambda>k. [(SlotWindowStart g k, Start_slot k), (SlotWindowEnd g k, End_slot k)]) [0..<NUM_SLOTS])"

text \<open>The simulator runs events by time, those of the same time in the order of their scheduling.\<close>

definition event_order :: "rat \<Rightarrow> (rat \<times> harness_event) list" where
  "event_order g = sort_key fst (main_schedule g)"

section \<open>Runs\<close>

text \<open>
  Between the events of the harness the network works: any input of any node at any time, the frames
  that reach the listener's sniffer callback, the trace callbacks of MAC layers and IP stacks, and what
  UDP servers and flow monitor count. Node times are in nanoseconds.
\<close>

datatype sim_event =
    Harness harness_event
  | Node_input nat input
  | Sniffed sniffed_frame
  | Ip_tx tx_datagram
  | Mac_tx string
  | Mac_drop string
  | Udp_received nat
  | Flow_counted "flow_stats list"

definition nanoseconds :: "rat \<Rightarrow> time" where "nanoseconds t = \<lfloor>t * 1000000000\<rfloor>"

definition MonitorSnifferRxCallback :: "rat \<Rightarrow> sniffed_frame \<Rightarrow> run_state \<Rightarrow> run_state res" where
  "MonitorSnifferRxCallback now f h =
     (if \<not> g_featuresActive h then Inr h
      else bindR (ObserveSniffedFrame now f (g_features h)) (\<lambda>fc. Inr (h\<lparr>g_features := fc\<rparr>)))"

definition node_input :: "rat \<Rightarrow> nat \<Rightarrow> input \<Rightarrow> run_state \<Rightarrow> run_state res" where
  "node_input now i inp h =
     bindR (nodes_Get i (g_nodes h)) (\<lambda>sn.
     case GetOlsrProtocol sn of
       None \<Rightarrow> Inr h
     | Some nd \<Rightarrow>
         bindR (node_step (nanoseconds now) inp nd) (\<lambda>nd'.
         Inr (h\<lparr>g_nodes := (g_nodes h)[i := on_olsr (\<lambda>_. nd') sn]\<rparr>)))"

definition TraceOlsrPacketCallback :: "tx_datagram \<Rightarrow> run_state \<Rightarrow> run_state res" where
  "TraceOlsrPacketCallback d h = bindR (TraceOlsrPacket d (g_counters h)) (\<lambda>c. Inr (h\<lparr>g_counters := c\<rparr>))"

definition MacTxOracleOnlyCallback :: "string \<Rightarrow> run_state \<Rightarrow> run_state res" where
  "MacTxOracleOnlyCallback ctxt h =
     bindR (count_node ctxt (g_macTxPerNode h)) (\<lambda>v. Inr (h\<lparr>g_macTxPerNode := v\<rparr>))"

definition MacTxDropCallback :: "string \<Rightarrow> run_state \<Rightarrow> run_state res" where
  "MacTxDropCallback ctxt h =
     bindR (count_node ctxt (g_macDropPerNode h)) (\<lambda>v. Inr (h\<lparr>g_macDropPerNode := v\<rparr>))"

fun sim_step :: "run_config \<Rightarrow> rat \<Rightarrow> sim_event \<Rightarrow> run_state \<Rightarrow> run_state res" where
  "sim_step cfg now (Harness e) h = handle cfg now e h"
| "sim_step cfg now (Node_input i inp) h = node_input now i inp h"
| "sim_step cfg now (Sniffed f) h = MonitorSnifferRxCallback now f h"
| "sim_step cfg now (Ip_tx d) h = TraceOlsrPacketCallback d h"
| "sim_step cfg now (Mac_tx ctxt) h = MacTxOracleOnlyCallback ctxt h"
| "sim_step cfg now (Mac_drop ctxt) h = MacTxDropCallback ctxt h"
| "sim_step cfg now (Udp_received i) h =
     Inr (if i < length (g_udpServers h) then h\<lparr>g_udpServers := (g_udpServers h)[i := g_udpServers h ! i + 1]\<rparr> else h)"
| "sim_step cfg now (Flow_counted stats) h = Inr (h\<lparr>g_flowMonitor := map_option (\<lambda>_. stats) (g_flowMonitor h)\<rparr>)"

definition sim_event_step :: "run_config \<Rightarrow> rat \<times> sim_event \<Rightarrow> run_state \<Rightarrow> run_state res" where
  "sim_event_step cfg = (\<lambda>(t, e) h. if g_stopped h then Inr h else sim_step cfg t e h)"

definition sim_run :: "run_config \<Rightarrow> (rat \<times> sim_event) list \<Rightarrow> run_state \<Rightarrow> run_state res" where
  "sim_run cfg = foldE (sim_event_step cfg)"

end
