(* ===== verification/Eval_Runs.thy ===== *)
theory Eval_Runs
  imports Complex_Main Eval_Scenarios
begin

text \<open>
  What the events of a run leave alone, for the parts of its state: the nodes with the two switches
  (\<open>network\<close>), the collector with the rows written (\<open>recording\<close>), the oracle counters (\<open>counting\<close>) and the
  flags that stop the run (\<open>control\<close>). \<open>network_ok\<close> says that the attributes of all nodes agree with the
  two switches; \<open>run_switches\<close> follows them through a run.
\<close>

section \<open>What the events leave alone\<close>

lemma reject_fields [simp]:
  "g_nodes (reject r t h) = g_nodes h" "g_scenarioOrder (reject r t h) = g_scenarioOrder h"
  "g_attackCurrentlyOn (reject r t h) = g_attackCurrentlyOn h" "g_defenseCurrentlyOn (reject r t h) = g_defenseCurrentlyOn h"
  "g_runRejected (reject r t h)" "g_stopped (reject r t h)"
  "harness.more (reject r t h') = harness.more h'"
  by (simp_all add: reject_def)

definition network :: "run_state \<Rightarrow> sim_node list \<times> bool \<times> bool" where
  "network h = (g_nodes h, g_attackCurrentlyOn h, g_defenseCurrentlyOn h)"

definition recording :: "run_state \<Rightarrow> FeatureCollector \<times> bool \<times> label_row list \<times> feature_row list \<times> oracle_row list" where
  "recording h = (g_features h, g_featuresActive h, g_labelRows h, g_featureRows h, g_oracleRows h)"

definition counting :: "run_state \<Rightarrow> olsr_counters \<times> u64 list \<times> u64" where
  "counting h = (g_counters h, g_udpServers h, g_udpReceivedAtWindowStart h)"

text \<open>The part of the state that says whether the run goes on.\<close>

definition control :: "run_state \<Rightarrow> nat list \<times> bool \<times> bool" where
  "control h = (g_scenarioOrder h, g_runRejected h, g_stopped h)"

text \<open>The handlers over \<open>harness\<close> leave the globals of the measurement alone.\<close>

lemma more_recording:
  "harness.more h' = harness.more h \<Longrightarrow> recording h' = recording h"
  "harness.more h' = harness.more h \<Longrightarrow> counting h' = counting h"
  by (cases h; cases h'; simp add: recording_def counting_def)+

lemma AssertConnectivity_frame:
  "network (AssertConnectivity t h) = network h" "harness.more (AssertConnectivity t h) = harness.more h"
  "control (AssertConnectivity t h) = control h \<or>
    g_scenarioOrder (AssertConnectivity t h) = g_scenarioOrder h \<and> g_runRejected (AssertConnectivity t h) \<and> g_stopped (AssertConnectivity t h)"
  by (simp_all add: AssertConnectivity_def network_def control_def split: option.split)

lemma AssertRouteExists_frame:
  assumes "AssertRouteExists t h = Inr h'"
  shows "network h' = network h" "harness.more h' = harness.more h"
    "control h' = control h \<or> g_scenarioOrder h' = g_scenarioOrder h \<and> g_runRejected h' \<and> g_stopped h'"
  using assms
  by (auto simp: AssertRouteExists_def network_def control_def res_simps split: option.splits if_splits)

lemma oracle_frame:
  "network (h\<lparr>g_attackerOnPathPrevWindow := a\<rparr>) = network h"
  "harness.more (h\<lparr>g_attackerOnPathPrevWindow := a\<rparr>) = harness.more h"
  "control (h\<lparr>g_attackerOnPathPrevWindow := a\<rparr>) = control h"
  "network (h\<lparr>g_pathHopsPrevWindow := b\<rparr>) = network h"
  "harness.more (h\<lparr>g_pathHopsPrevWindow := b\<rparr>) = harness.more h"
  "control (h\<lparr>g_pathHopsPrevWindow := b\<rparr>) = control h"
  "network (h\<lparr>g_flowsWithAttackerOnPath := c\<rparr>) = network h"
  "harness.more (h\<lparr>g_flowsWithAttackerOnPath := c\<rparr>) = harness.more h"
  "control (h\<lparr>g_flowsWithAttackerOnPath := c\<rparr>) = control h"
  "network (h\<lparr>g_flowsWithValidPath := c\<rparr>) = network h"
  "harness.more (h\<lparr>g_flowsWithValidPath := c\<rparr>) = harness.more h"
  "control (h\<lparr>g_flowsWithValidPath := c\<rparr>) = control h"
  "network (h\<lparr>g_minAttackerTrust := e\<rparr>) = network h"
  "harness.more (h\<lparr>g_minAttackerTrust := e\<rparr>) = harness.more h"
  "control (h\<lparr>g_minAttackerTrust := e\<rparr>) = control h"
  "network (h\<lparr>g_avgAttackerTrust := e\<rparr>) = network h"
  "harness.more (h\<lparr>g_avgAttackerTrust := e\<rparr>) = harness.more h"
  "control (h\<lparr>g_avgAttackerTrust := e\<rparr>) = control h"
  "network (h\<lparr>g_blacklistMaxSize := c\<rparr>) = network h"
  "harness.more (h\<lparr>g_blacklistMaxSize := c\<rparr>) = harness.more h"
  "control (h\<lparr>g_blacklistMaxSize := c\<rparr>) = control h"
  by (simp_all add: network_def control_def)

lemma observe_paths_frame:
  "network (observe_paths ids ps h) = network h" "harness.more (observe_paths ids ps h) = harness.more h"
  "control (observe_paths ids ps h) = control h"
  by (simp_all add: observe_paths_def Let_def oracle_frame)

lemma ObserveAttackerOnPath_frame:
  assumes "ObserveAttackerOnPath ids fps h = Inr h'"
  shows "network h' = network h \<and> harness.more h' = harness.more h \<and> control h' = control h"
proof -
  define h0 where "h0 = h\<lparr>g_attackerOnPathPrevWindow := False, g_pathHopsPrevWindow := 0, g_flowsWithAttackerOnPath := 0,
    g_flowsWithValidPath := 0, g_minAttackerTrust := 1, g_avgAttackerTrust := 1, g_blacklistMaxSize := 0\<rparr>"
  have h0: "network h0 = network h \<and> harness.more h0 = harness.more h \<and> control h0 = control h"
    unfolding h0_def by (simp add: oracle_frame)
  show ?thesis
  proof (cases "g_nodes h0 = []")
    case True
    then have "h' = h0" using assms unfolding ObserveAttackerOnPath_def Let_def h0_def by simp
    then show ?thesis using h0 by simp
  next
    case False
    obtain h1 where h1: "(if ids \<noteq> [] then bindR (valid_paths fps h0) (\<lambda>ps. Inr (observe_paths ids ps h0)) else Inr h0) = Inr h1"
      and h': "h' = (let ts = trust_samples ids h1;
          h2 = h1\<lparr>g_blacklistMaxSize := foldr max (map (\<lambda>(_, d). length (defense_GetBlacklist d)) (defenders ids h1)) 0\<rparr>
        in if ts \<noteq> [] then h2\<lparr>g_avgAttackerTrust := sum_list ts / of_nat (length ts), g_minAttackerTrust := foldr min ts 1\<rparr> else h2)"
      using assms False unfolding ObserveAttackerOnPath_def Let_def h0_def [symmetric] if_not_P [OF False] bindR_eq_Inr by blast
    have "network h1 = network h0 \<and> harness.more h1 = harness.more h0 \<and> control h1 = control h0"
      using h1 by (cases "ids = []") (auto simp: bindR_eq_Inr observe_paths_frame)
    then show ?thesis using h0 unfolding h' Let_def by (simp add: oracle_frame)
  qed
qed

lemma SampleDetectionAccuracy_frame:
  "network (SampleDetectionAccuracy ids h) = network h \<and> harness.more (SampleDetectionAccuracy ids h) = harness.more h \<and>
   control (SampleDetectionAccuracy ids h) = control h"
  by (simp add: SampleDetectionAccuracy_def network_def control_def Let_def)

lemma switch_frame:
  "harness.more (SetAttackState ids c b h) = harness.more h" "control (SetAttackState ids c b h) = control h"
  "harness.more (SetDefenseState b h) = harness.more h" "control (SetDefenseState b h) = control h"
  "harness.more (ForceDefenseColdStart h) = harness.more h" "control (ForceDefenseColdStart h) = control h"
  "harness.more (h\<lparr>g_attackCurrentlyOn := b\<rparr>) = harness.more h" "control (h\<lparr>g_attackCurrentlyOn := b\<rparr>) = control h"
  "harness.more (h\<lparr>g_defenseCurrentlyOn := b\<rparr>) = harness.more h" "control (h\<lparr>g_defenseCurrentlyOn := b\<rparr>) = control h"
  by (simp_all add: SetAttackState_def SetDefenseState_def ForceDefenseColdStart_def control_def)

lemma ApplyScenarioState_frame:
  assumes "ApplyScenarioState ids c k h = Inr h'"
  shows "harness.more h' = harness.more h \<and> control h' = control h"
  using assms by (auto simp: ApplyScenarioState_def res_simps Let_def switch_frame split: if_splits)

lemma EndMeasurementWindow_frame:
  "network (EndMeasurementWindow n a b cfg h) = network h" "control (EndMeasurementWindow n a b cfg h) = control h"
  by (cases "g_runRejected h"; cases "LabelsForScenario n"; simp add: EndMeasurementWindow_def network_def control_def)+

lemma brackets_frame:
  "network (StartSlot k t h) = network h" "control (StartSlot k t h) = control h"
  by (simp_all add: StartSlot_def StartMeasurementWindow_def SnapshotUdpReceived_def network_def control_def)

lemma EndSlot_frame:
  assumes "EndSlot k cfg h = Inr h'"
  shows "network h' = network h \<and> control h' = control h"
proof -
  obtain n a b where "h' = EndMeasurementWindow n a b cfg h" using assms unfolding EndSlot_def bindR_eq_Inr by auto
  then show ?thesis by (simp add: EndMeasurementWindow_frame)
qed

lemma handle_control:
  assumes "handle cfg t e h = Inr h'"
  shows "control h' = control h \<or> g_scenarioOrder h' = g_scenarioOrder h \<and> g_runRejected h' \<and> g_stopped h'"
  using assms AssertConnectivity_frame(3) AssertRouteExists_frame(3) ObserveAttackerOnPath_frame
    SampleDetectionAccuracy_frame ApplyScenarioState_frame brackets_frame EndSlot_frame by (cases e) auto

fun is_apply :: "harness_event \<Rightarrow> bool" where
  "is_apply (Apply_scenario k) = True"
| "is_apply e = False"

fun is_bracket :: "harness_event \<Rightarrow> bool" where
  "is_bracket (Start_slot k) = True"
| "is_bracket (End_slot k) = True"
| "is_bracket e = False"

lemma handle_network:
  assumes "handle cfg t e h = Inr h'" and "\<not> is_apply e"
  shows "network h' = network h"
  using assms AssertConnectivity_frame(1) AssertRouteExists_frame(1) ObserveAttackerOnPath_frame
    SampleDetectionAccuracy_frame brackets_frame EndSlot_frame by (cases e) auto

lemma handle_recording:
  assumes "handle cfg t e h = Inr h'" and "\<not> is_bracket e"
  shows "recording h' = recording h" and "counting h' = counting h"
proof -
  have "harness.more h' = harness.more h"
    using assms AssertConnectivity_frame(2) AssertRouteExists_frame(2) ObserveAttackerOnPath_frame
      SampleDetectionAccuracy_frame ApplyScenarioState_frame by (cases e) auto
  then show "recording h' = recording h" "counting h' = counting h" by (rule more_recording)+
qed

lemma node_input_frame:
  assumes "node_input t i inp h = Inr h'"
  shows "recording h' = recording h \<and> counting h' = counting h \<and> control h' = control h \<and>
    g_attackCurrentlyOn h' = g_attackCurrentlyOn h \<and> g_defenseCurrentlyOn h' = g_defenseCurrentlyOn h"
  using assms by (auto simp: node_input_def res_simps recording_def counting_def control_def split: option.splits)

lemma sniff_frame:
  assumes "MonitorSnifferRxCallback t f h = Inr h'"
  shows "network h' = network h \<and> control h' = control h \<and> g_featuresActive h' = g_featuresActive h \<and>
    g_labelRows h' = g_labelRows h \<and> g_featureRows h' = g_featureRows h \<and> g_oracleRows h' = g_oracleRows h \<and>
    counting h' = counting h"
  using assms by (auto simp: MonitorSnifferRxCallback_def res_simps network_def control_def counting_def split: if_splits)

text \<open>The trace callbacks and the counters outside of the harness.\<close>

fun is_trace :: "sim_event \<Rightarrow> bool" where
  "is_trace (Harness e) = False"
| "is_trace (Node_input i inp) = False"
| "is_trace (Sniffed f) = False"
| "is_trace e = True"

lemma trace_frame:
  assumes "sim_step cfg t e h = Inr h'" and "is_trace e"
  shows "network h' = network h \<and> recording h' = recording h \<and> control h' = control h"
  using assms
  by (cases e) (auto simp: TraceOlsrPacketCallback_def MacTxOracleOnlyCallback_def MacTxDropCallback_def res_simps
    network_def recording_def control_def split: if_splits)

lemma sim_step_control:
  assumes "sim_step cfg t e h = Inr h'"
  shows "control h' = control h \<or> g_scenarioOrder h' = g_scenarioOrder h \<and> g_runRejected h' \<and> g_stopped h'"
  using assms handle_control node_input_frame sniff_frame trace_frame [of cfg t e h h'] by (cases e) auto

text \<open>A run that is not rejected in the end has run all its events.\<close>

lemma sim_run_Cons:
  assumes "sim_run cfg (x # tr) h = Inr h'" and "g_stopped h \<longleftrightarrow> g_runRejected h" and "\<not> g_runRejected h'"
  shows "\<exists>h1. sim_step cfg (fst x) (snd x) h = Inr h1 \<and> sim_run cfg tr h1 = Inr h' \<and>
    \<not> g_runRejected h \<and> \<not> g_runRejected h1 \<and> \<not> g_stopped h1 \<and> g_scenarioOrder h1 = g_scenarioOrder h"
proof -
  have stays: "g_runRejected h'" if "sim_run cfg tr h1 = Inr h'" "g_stopped h1" "g_runRejected h1" for tr h1
  proof -
    have "h' = h1"
      by (rule foldE_invariant [where P = "\<lambda>h. h = h1", OF that(1) [unfolded sim_run_def]])
        (auto simp: sim_event_step_def that(2) split: prod.splits)
    then show ?thesis using that(3) by simp
  qed
  have nr: "\<not> g_runRejected h" using stays [OF assms(1)] assms(2,3) by auto
  with assms(1,2) obtain h1 where h1: "sim_step cfg (fst x) (snd x) h = Inr h1" "sim_run cfg tr h1 = Inr h'"
    by (cases x) (auto simp: sim_run_def sim_event_step_def bindR_eq_Inr)
  with sim_step_control [OF h1(1)] stays [OF h1(2)] assms(2,3) nr show ?thesis by (auto simp: control_def)
qed

section \<open>The switches of the network\<close>

text \<open>Node \<open>i\<close> under attack state \<open>a\<close> and defense state \<open>d\<close>.\<close>

definition armed :: "run_config \<Rightarrow> bool \<Rightarrow> bool \<Rightarrow> nat \<Rightarrow> sim_node \<Rightarrow> bool" where
  "armed cfg a d i sn \<longleftrightarrow> (\<forall>nd. GetOlsrProtocol sn = Some nd \<longrightarrow>
     settings nd = (a \<and> i \<in> set (cf_attackerIds cfg), if a \<and> i \<in> set (cf_attackerIds cfg) then cf_spoofCount cfg else 0,
       Some (1, d)))"

definition network_ok :: "run_config \<Rightarrow> run_state \<Rightarrow> bool" where
  "network_ok cfg h \<longleftrightarrow>
     (\<forall>i<length (g_nodes h). armed cfg (g_attackCurrentlyOn h) (g_defenseCurrentlyOn h) i (g_nodes h ! i))"

lemma network_ok_cong: "network h' = network h \<Longrightarrow> network_ok cfg h' = network_ok cfg h"
  by (simp add: network_def network_ok_def)

lemma SetAttack_nodes:
  fixes F :: "sim_node \<Rightarrow> sim_node"
  assumes "\<And>sn. F (F sn) = F sn"
  shows "length (fold (\<lambda>i ns. if i \<ge> length ns then ns else ns[i := F (ns ! i)]) ids nodes) = length nodes \<and>
    (\<forall>i<length nodes. fold (\<lambda>i ns. if i \<ge> length ns then ns else ns[i := F (ns ! i)]) ids nodes ! i =
       (if i \<in> set ids then F (nodes ! i) else nodes ! i))"
proof (induction ids arbitrary: nodes)
  case (Cons j ids)
  show ?case
  proof (cases "j \<ge> length nodes")
    case True
    then show ?thesis using Cons.IH [of nodes] by auto
  next
    case False
    then show ?thesis using Cons.IH [of "nodes[j := F (nodes ! j)]"] by (auto simp: nth_list_update assms)
  qed
qed simp

lemma on_olsr_on_olsr: "on_olsr f (on_olsr g sn) = on_olsr (\<lambda>nd. f (g nd)) sn"
proof -
  have "on_first_olsr f (on_first_olsr g cs) = on_first_olsr (\<lambda>nd. f (g nd)) cs" for cs
    by (induction cs rule: first_olsr.induct) simp_all
  then show ?thesis by (cases sn) (simp_all add: on_olsr_def)
qed

definition set_malicious :: "bool \<Rightarrow> u32 \<Rightarrow> node \<Rightarrow> node" where
  "set_malicious b c nd = nd\<lparr>nd_isMalicious := b, nd_spoofedLinksCount := (if b then c else 0)\<rparr>"

lemma SetAttackState_nodes:
  assumes "\<not> g_runRejected h"
  shows "length (g_nodes (SetAttackState ids c b h)) = length (g_nodes h)"
    and "i < length (g_nodes h) \<Longrightarrow> g_nodes (SetAttackState ids c b h) ! i =
      (if i \<in> set ids then on_olsr (set_malicious b c) (g_nodes h ! i) else g_nodes h ! i)"
proof -
  have f: "(\<lambda>nd. nd\<lparr>nd_isMalicious := b, nd_spoofedLinksCount := (if b then c else 0)\<rparr>) = set_malicious b c"
    by (rule ext) (simp only: set_malicious_def)
  have eq: "g_nodes (SetAttackState ids c b h) =
      fold (\<lambda>i ns. if i \<ge> length ns then ns else ns[i := on_olsr (set_malicious b c) (ns ! i)]) ids (g_nodes h)"
    unfolding SetAttackState_def f if_not_P [OF assms(1)] by simp
  have "(\<lambda>nd. set_malicious b c (set_malicious b c nd)) = set_malicious b c"
    by (rule ext) (simp add: set_malicious_def)
  then have "on_olsr (set_malicious b c) (on_olsr (set_malicious b c) sn) = on_olsr (set_malicious b c) sn" for sn
    by (simp only: on_olsr_on_olsr)
  from SetAttack_nodes [of "on_olsr (set_malicious b c)", OF this, of ids "g_nodes h"]
  show "length (g_nodes (SetAttackState ids c b h)) = length (g_nodes h)"
    "i < length (g_nodes h) \<Longrightarrow> g_nodes (SetAttackState ids c b h) ! i = (if i \<in> set ids then on_olsr (set_malicious b c) (g_nodes h ! i) else g_nodes h ! i)"
    unfolding eq by blast+
qed

lemma settings_gcop:
  assumes "settings nd = (a, c, Some (1, d))"
  shows "settings (on_defense (on_gcop (Gcop_SetEnabled b)) nd) = (a, c, Some (1, b))"
    and "settings (on_defense (on_gcop cold_start) nd) = (a, c, Some (1, d))"
proof -
  obtain g where "nd_defense nd = Some (Gcop_defense g)" "gc_enabled g = d" "nd_isMalicious nd = a" "nd_spoofedLinksCount nd = c"
  proof -
    obtain df where df: "nd_defense nd = Some df" "defense_mode df = (1, d)" using assms by (auto simp: settings_def)
    then obtain g where "df = Gcop_defense g" "gc_enabled g = d" by (cases df) auto
    then show ?thesis using that df(1) assms by (simp add: settings_def)
  qed
  then show "settings (on_defense (on_gcop (Gcop_SetEnabled b)) nd) = (a, c, Some (1, b))"
    "settings (on_defense (on_gcop cold_start) nd) = (a, c, Some (1, d))"
    by (auto simp: settings_def on_defense_def Gcop_SetEnabled_def cold_start_def Let_def)
qed

lemma settings_set_malicious: "settings nd = (a, c, m) \<Longrightarrow> settings (set_malicious b k nd) = (b, if b then k else 0, m)"
  by (simp add: settings_def set_malicious_def)


lemma Apply_switches:
  assumes "ApplyScenarioState (cf_attackerIds cfg) (cf_spoofCount cfg) k h = Inr h'" and "\<not> g_runRejected h"
    and "network_ok cfg h"
  shows "\<exists>sc. scenario_of k h = Inr sc \<and> g_attackCurrentlyOn h' = sc_attackEnabled sc \<and>
    g_defenseCurrentlyOn h' = sc_defenseEnabled sc \<and> length (g_nodes h') = length (g_nodes h) \<and> network_ok cfg h'"
proof -
  let ?ids = "cf_attackerIds cfg" and ?c = "cf_spoofCount cfg"
  obtain sc where sc: "scenario_of k h = Inr sc" using assms(1,2) by (auto simp: ApplyScenarioState_def bindR_eq_Inr)
  define a where "a = sc_attackEnabled sc"
  define d where "d = sc_defenseEnabled sc"
  define h1 where "h1 = (if a \<noteq> g_attackCurrentlyOn h then (SetAttackState ?ids ?c a h)\<lparr>g_attackCurrentlyOn := a\<rparr> else h)"
  define h2 where "h2 = (if d \<noteq> g_defenseCurrentlyOn h1 then (SetDefenseState d h1)\<lparr>g_defenseCurrentlyOn := d\<rparr> else h1)"
  have h': "h' = ForceDefenseColdStart h2"
    using assms(1) unfolding ApplyScenarioState_def if_not_P [OF assms(2)] sc bindR.simps Let_def h2_def h1_def a_def d_def by simp
  have c1: "control h1 = control h" by (simp add: h1_def switch_frame)
  have c2: "control h2 = control h" by (simp add: h2_def switch_frame c1)
  have nr: "\<not> g_runRejected h1" "\<not> g_runRejected h2" using c1 c2 assms(2) by (simp_all add: control_def)
  have 1: "g_attackCurrentlyOn h1 = a \<and> g_defenseCurrentlyOn h1 = g_defenseCurrentlyOn h \<and>
      length (g_nodes h1) = length (g_nodes h) \<and> network_ok cfg h1"
  proof (cases "a = g_attackCurrentlyOn h")
    case False
    then have e: "h1 = (SetAttackState ?ids ?c a h)\<lparr>g_attackCurrentlyOn := a\<rparr>" by (simp add: h1_def)
    have "length (g_nodes (SetAttackState ?ids ?c a h)) = length (g_nodes h)"
      by (rule SetAttackState_nodes(1) [OF assms(2)])
    moreover have "armed cfg a (g_defenseCurrentlyOn h) i (g_nodes (SetAttackState ?ids ?c a h) ! i)"
      if "i < length (g_nodes h)" for i
      using assms(3) that settings_set_malicious [where b = a and k = ?c]
      by (fastforce simp: network_ok_def armed_def SetAttackState_nodes(2) [OF assms(2) that])
    moreover have "g_defenseCurrentlyOn (SetAttackState ?ids ?c a h) = g_defenseCurrentlyOn h"
      by (simp add: SetAttackState_def)
    ultimately show ?thesis by (simp add: e network_ok_def)
  qed (use assms(3) in \<open>simp add: h1_def\<close>)
  have 2: "g_attackCurrentlyOn h2 = a \<and> g_defenseCurrentlyOn h2 = d \<and> length (g_nodes h2) = length (g_nodes h1) \<and> network_ok cfg h2"
  proof (cases "d = g_defenseCurrentlyOn h1")
    case False
    then have e: "h2 = (h1\<lparr>g_nodes := map (on_olsr (on_defense (on_gcop (Gcop_SetEnabled d)))) (g_nodes h1)\<rparr>)\<lparr>g_defenseCurrentlyOn := d\<rparr>"
      using nr by (simp add: h2_def SetDefenseState_def)
    then show ?thesis using 1 settings_gcop(1) by (fastforce simp: network_ok_def armed_def)
  qed (use 1 in \<open>simp add: h2_def\<close>)
  have e: "h' = h2\<lparr>g_nodes := map (on_olsr (on_defense (on_gcop cold_start))) (g_nodes h2)\<rparr>"
    using nr by (simp add: h' ForceDefenseColdStart_def)
  then have "network_ok cfg h' \<and> g_attackCurrentlyOn h' = a \<and> g_defenseCurrentlyOn h' = d \<and> length (g_nodes h') = length (g_nodes h)"
    using 1 2 settings_gcop(2) by (fastforce simp: network_ok_def armed_def)
  then show ?thesis using sc by (simp add: a_def d_def)
qed

lemma node_input_ok:
  assumes "node_input t i inp h = Inr h'" and "\<not> is_setter inp" and "network_ok cfg h"
  shows "network_ok cfg h' \<and> length (g_nodes h') = length (g_nodes h)"
proof (cases "i < length (g_nodes h)")
  case True
  show ?thesis
  proof (cases "GetOlsrProtocol (g_nodes h ! i)")
    case None
    then show ?thesis using assms True by (simp add: node_input_def nodes_Get_def)
  next
    case (Some nd)
    then obtain nd' where nd': "node_step (nanoseconds t) inp nd = Inr nd'"
      "h' = h\<lparr>g_nodes := (g_nodes h)[i := on_olsr (\<lambda>_. nd') (g_nodes h ! i)]\<rparr>"
      using assms(1) True by (auto simp: node_input_def nodes_Get_def bindR_eq_Inr)
    have "settings nd' = settings nd" using keeps_step [OF nd'(1) assms(2)] by (simp add: keeps_def)
    then have "armed cfg a d i (on_olsr (\<lambda>_. nd') (g_nodes h ! i))" if "armed cfg a d i (g_nodes h ! i)" for a d
      using that Some by (simp add: armed_def)
    then have "armed cfg (g_attackCurrentlyOn h) (g_defenseCurrentlyOn h) j
        ((g_nodes h)[i := on_olsr (\<lambda>_. nd') (g_nodes h ! i)] ! j)" if "j < length (g_nodes h)" for j
      using that assms(3) True by (cases "j = i") (simp_all add: network_ok_def)
    then show ?thesis unfolding nd'(2) by (simp add: network_ok_def)
  qed
qed (use assms(1) in \<open>simp add: node_input_def nodes_Get_def\<close>)

section \<open>The applied scenario\<close>

text \<open>Attack and defense state after the events \<open>tr\<close>, by the scenario that was applied last.\<close>

definition apply_flags :: "nat list \<Rightarrow> harness_event \<Rightarrow> bool \<times> bool \<Rightarrow> bool \<times> bool" where
  "apply_flags order e ad =
     (case e of Apply_scenario k \<Rightarrow>
        (sc_attackEnabled (SCENARIOS ! (order ! k)), sc_defenseEnabled (SCENARIOS ! (order ! k)))
      | _ \<Rightarrow> ad)"

definition harness_events :: "(rat \<times> sim_event) list \<Rightarrow> (rat \<times> harness_event) list" where
  "harness_events tr = List.map_filter (\<lambda>(t, e). case e of Harness ev \<Rightarrow> Some (t, ev) | _ \<Rightarrow> None) tr"

lemma harness_events_simps [simp]:
  "harness_events [] = []"
  "harness_events ((t, Harness ev) # tr) = (t, ev) # harness_events tr"
  "harness_events ((t, Node_input i inp) # tr) = harness_events tr"
  "harness_events ((t, Sniffed f) # tr) = harness_events tr"
  "is_trace e \<Longrightarrow> harness_events ((t, e) # tr) = harness_events tr"
  "harness_events (tr @ tr') = harness_events tr @ harness_events tr'"
  by (auto simp: harness_events_def List.map_filter_def split: sim_event.split)

text \<open>Only the harness sets attributes.\<close>

definition no_setters :: "(rat \<times> sim_event) list \<Rightarrow> bool" where
  "no_setters tr \<longleftrightarrow> (\<forall>(t, e)\<in>set tr. case e of Node_input i inp \<Rightarrow> \<not> is_setter inp | _ \<Rightarrow> True)"

lemma scenario_of_nth: "scenario_of k h = Inr sc \<Longrightarrow> sc = SCENARIOS ! (g_scenarioOrder h ! k)"
  by (auto simp: scenario_of_def nodes_Get_def bindR_eq_Inr split: if_splits)

lemma run_switches:
  assumes "sim_run cfg tr h = Inr h'" and "g_stopped h \<longleftrightarrow> g_runRejected h" and "\<not> g_runRejected h'"
    and "no_setters tr" and "network_ok cfg h"
  shows "network_ok cfg h' \<and> length (g_nodes h') = length (g_nodes h) \<and>
    (g_attackCurrentlyOn h', g_defenseCurrentlyOn h') =
      fold (apply_flags (g_scenarioOrder h)) (map snd (harness_events tr)) (g_attackCurrentlyOn h, g_defenseCurrentlyOn h)"
  using assms
proof (induction tr arbitrary: h)
  case Nil
  then show ?case by (simp add: sim_run_def)
next
  case (Cons x tr)
  obtain t e where x: "x = (t, e)" by (cases x)
  from sim_run_Cons [OF Cons.prems(1-3)] obtain h1 where
    s: "sim_step cfg t e h = Inr h1" "sim_run cfg tr h1 = Inr h'" "\<not> g_runRejected h" "\<not> g_runRejected h1"
      "\<not> g_stopped h1" "g_scenarioOrder h1 = g_scenarioOrder h" by (auto simp: x)
  have ns: "no_setters tr" using Cons.prems(4) by (simp add: no_setters_def)
  have step: "network_ok cfg h1 \<and> length (g_nodes h1) = length (g_nodes h) \<and>
      (g_attackCurrentlyOn h1, g_defenseCurrentlyOn h1) =
        fold (apply_flags (g_scenarioOrder h)) (map snd (harness_events [x])) (g_attackCurrentlyOn h, g_defenseCurrentlyOn h)"
  proof (cases e)
    case (Harness ev)
    show ?thesis
    proof (cases "is_apply ev")
      case True
      then obtain k where k: "ev = Apply_scenario k" by (cases ev) auto
      with Apply_switches [of cfg k h h1] s(1,3) Cons.prems(5) Harness scenario_of_nth [of k h] show ?thesis
        by (auto simp: x apply_flags_def)
    next
      case False
      then have n: "network h1 = network h" using handle_network s(1) Harness by simp
      moreover have "apply_flags (g_scenarioOrder h) ev ad = ad" for ad
        using False by (cases ev) (simp_all add: apply_flags_def)
      ultimately show ?thesis using Cons.prems(5) network_ok_cong [OF n] by (simp add: x Harness network_def)
    qed
  next
    case (Node_input i inp)
    then have "\<not> is_setter inp" using Cons.prems(4) by (simp add: no_setters_def x)
    then show ?thesis using node_input_ok node_input_frame s(1) Node_input Cons.prems(5) by (simp add: x)
  next
    case (Sniffed f)
    then have n: "network h1 = network h" using sniff_frame s(1) by simp
    then show ?thesis using Cons.prems(5) network_ok_cong [OF n] by (simp add: x Sniffed network_def)
  qed (use s(1) trace_frame [of cfg t e h h1] Cons.prems(5) network_ok_cong [of h1 h] in \<open>auto simp: x network_def\<close>)
  from Cons.IH [OF s(2) _ Cons.prems(3) ns] step s(4-6) show ?case
    by (cases e) (simp_all add: x)
qed

end
