(* ===== verification/Eval_Properties.thy ===== *)
theory Eval_Properties
  imports Complex_Main Eval_Runs
begin

text \<open>
  What a run of the evaluation harness guarantees about its measurement windows: the labels written for
  a window are the state of the network during that window, and the features written for it come from
  the frames heard during it.
\<close>

section \<open>Runs of the program\<close>

text \<open>
  \<open>harness_run\<close>: the state and configuration with which \<open>main\<close> starts the simulator, and a sequence of
  events in the order of time in which the events of the harness come in the simulator's order and
  nobody else sets attributes.
\<close>

definition started :: "run_state \<Rightarrow> bool" where
  "started h \<longleftrightarrow>
     \<not> g_attackCurrentlyOn h \<and> \<not> g_defenseCurrentlyOn h \<and> \<not> g_runRejected h \<and> \<not> g_stopped h \<and>
     g_labelRows h = [] \<and> g_featureRows h = [] \<and> g_oracleRows h = [] \<and> \<not> g_featuresActive h \<and>
     list_all (\<lambda>sn. case GetOlsrProtocol sn of None \<Rightarrow> True | Some nd \<Rightarrow> settings nd = (False, 0, Some (1, False))) (g_nodes h)"

definition harness_run :: "bool \<Rightarrow> (nat \<Rightarrow> u32) \<Rightarrow> run_config \<Rightarrow> run_state \<Rightarrow> (rat \<times> sim_event) list \<Rightarrow> bool" where
  "harness_run randomWindowOrder rng cfg h0 tr \<longleftrightarrow>
     cf_initialStabilization cfg = initialStabilization randomWindowOrder \<and>
     scenarioOrder randomWindowOrder rng = Some (g_scenarioOrder h0) \<and> started h0 \<and> no_setters tr \<and>
     sorted (map fst tr) \<and> harness_events tr = event_order (cf_initialStabilization cfg)"

lemma run_control:
  assumes "sim_run cfg tr h = Inr h'" and "g_stopped h \<longleftrightarrow> g_runRejected h"
  shows "(g_stopped h' \<longleftrightarrow> g_runRejected h') \<and> (g_runRejected h \<longrightarrow> g_runRejected h') \<and> g_scenarioOrder h' = g_scenarioOrder h"
proof (rule foldE_invariant [where P = "\<lambda>x. (g_stopped x \<longleftrightarrow> g_runRejected x) \<and> (g_runRejected h \<longrightarrow> g_runRejected x) \<and>
    g_scenarioOrder x = g_scenarioOrder h", OF assms(1) [unfolded sim_run_def]])
  fix x s s' assume "(g_stopped s \<longleftrightarrow> g_runRejected s) \<and> (g_runRejected h \<longrightarrow> g_runRejected s) \<and> g_scenarioOrder s = g_scenarioOrder h"
    "sim_event_step cfg x s = Inr s'"
  then show "(g_stopped s' \<longleftrightarrow> g_runRejected s') \<and> (g_runRejected h \<longrightarrow> g_runRejected s') \<and> g_scenarioOrder s' = g_scenarioOrder h"
    using sim_step_control [of cfg "fst x" "snd x" s s'] by (cases x) (auto simp: sim_event_step_def control_def split: if_splits)
qed (use assms(2) in simp)

lemma sim_run_append: "sim_run cfg (xs @ ys) h = Inr h' \<longleftrightarrow> (\<exists>h1. sim_run cfg xs h = Inr h1 \<and> sim_run cfg ys h1 = Inr h')"
  by (simp add: sim_run_def foldE_append bindR_eq_Inr)

section \<open>The events in the simulator's order\<close>

lemma upt_slots: "[0..<NUM_SLOTS] = [0, 1, 2, 3]"
  by (simp add: NUM_SLOTS_def upt_rec)

lemma event_order_apply:
  "filter (\<lambda>x. is_apply (snd x)) (event_order g) = map (\<lambda>k. (SlotTransitionTime g k, Apply_scenario k)) [0, 1, 2, 3]"
proof -
  have "filter (\<lambda>x. is_apply (snd x)) (main_schedule g) = map (\<lambda>k. (SlotTransitionTime g k, Apply_scenario k)) [0, 1, 2, 3]"
    by (simp add: main_schedule_def upt_slots)
  then show ?thesis unfolding event_order_def filter_sort
    by (simp only:) (rule sort_key_id_if_sorted, simp add: time_defs)
qed

lemma event_order_bracket:
  "filter (\<lambda>x. is_bracket (snd x)) (event_order g) =
    concat (map (\<lambda>k. [(SlotWindowStart g k, Start_slot k), (SlotWindowEnd g k, End_slot k)]) [0, 1, 2, 3])"
proof -
  have "filter (\<lambda>x. is_bracket (snd x)) (main_schedule g) =
      concat (map (\<lambda>k. [(SlotWindowStart g k, Start_slot k), (SlotWindowEnd g k, End_slot k)]) [0, 1, 2, 3])"
    by (simp add: main_schedule_def upt_slots)
  then show ?thesis unfolding event_order_def filter_sort
    by (simp only:) (rule sort_key_id_if_sorted, simp add: time_defs)
qed

lemma harness_events_times: "set (map fst (harness_events tr)) \<subseteq> set (map fst tr)"
proof (induction tr)
  case (Cons x tr)
  obtain t e where "x = (t, e)" by (cases x)
  then show ?case using Cons by (cases e) auto
qed simp

text \<open>The events of a kind before time \<open>t\<close>, when none of that kind happens at \<open>t\<close>.\<close>

lemma events_before:
  assumes "sorted (map fst (pre @ (t, e) # post))" and "\<forall>x\<in>set (filter P (harness_events (pre @ (t, e) # post))). fst x \<noteq> t"
  shows "filter P (harness_events pre) = filter (\<lambda>x. fst x < t) (filter P (harness_events (pre @ (t, e) # post)))"
proof -
  have pre: "x \<le> t" if "x \<in> set (map fst (harness_events pre))" for x
  proof -
    have "x \<in> set (map fst pre)" using that harness_events_times by blast
    then show ?thesis using assms(1) unfolding map_append sorted_append by auto
  qed
  have post: "t \<le> x" if "x \<in> set (map fst (harness_events ((t, e) # post)))" for x
  proof -
    have "x \<in> set (map fst ((t, e) # post))" using that harness_events_times by blast
    then show ?thesis using assms(1) unfolding map_append sorted_append by auto
  qed
  have app: "harness_events (pre @ (t, e) # post) = harness_events pre @ harness_events ((t, e) # post)" by simp
  have "filter (\<lambda>x. fst x < t) (filter P (harness_events pre)) = filter P (harness_events pre)"
    unfolding filter_id_conv using pre assms(2) unfolding app by force
  moreover have "filter (\<lambda>x. fst x < t) (filter P (harness_events ((t, e) # post))) = []"
    unfolding filter_empty_conv using post by force
  ultimately show ?thesis unfolding app filter_append by simp
qed

lemma fold_apply_filter:
  "fold (apply_flags order) (map snd xs) ad = fold (apply_flags order) (map snd (filter (\<lambda>x. is_apply (snd x)) xs)) ad"
proof (induction xs arbitrary: ad)
  case (Cons x xs)
  then show ?case by (cases "snd x") (simp_all add: apply_flags_def)
qed simp


section \<open>Labels\<close>

lemma started_ok: "started h \<Longrightarrow> network_ok cfg h"
  unfolding started_def network_ok_def armed_def by (auto simp: list_all_length split: option.splits)

lemma labels_of_scenario:
  "i < 4 \<Longrightarrow> LabelsForScenario (sc_name (SCENARIOS ! i)) =
    (if sc_attackEnabled (SCENARIOS ! i) then 1 else 0, if sc_defenseEnabled (SCENARIOS ! i) then 1 else 0)"
  by (auto simp: LabelsForScenario_def SCENARIOS_def less_Suc_eq numeral_eq_Suc)

text \<open>The row of slot \<open>k\<close> but for the column on the path.\<close>

definition row_labels :: "label_row \<Rightarrow> string \<times> rat \<times> rat \<times> nat \<times> nat" where
  "row_labels r = (lr_scenario r, lr_start r, lr_end r, lr_attack r, lr_defense r)"

definition slot_labels :: "rat \<Rightarrow> nat list \<Rightarrow> nat \<Rightarrow> string \<times> rat \<times> rat \<times> nat \<times> nat" where
  "slot_labels g order k =
     (let name = sc_name (SCENARIOS ! (order ! k))
      in (name, SlotWindowStart g k, SlotWindowEnd g k, LabelsForScenario name))"

fun ended_slot :: "harness_event \<Rightarrow> nat option" where
  "ended_slot (End_slot k) = Some k"
| "ended_slot e = None"

lemma End_rows:
  assumes "\<not> g_runRejected h" and "EndSlot k cfg h = Inr h'"
  shows "g_labelRows h' \<noteq> [] \<and> butlast (g_labelRows h') = g_labelRows h \<and>
    row_labels (last (g_labelRows h')) = slot_labels (cf_initialStabilization cfg) (g_scenarioOrder h) k \<and>
    g_featureRows h' = g_featureRows h @ [\<lparr>fr_run = g_currentRun h, fr_scenario = sc_name (SCENARIOS ! (g_scenarioOrder h ! k)),
       fr_start = SlotWindowStart (cf_initialStabilization cfg) k, fr_end = SlotWindowEnd (cf_initialStabilization cfg) k,
       fr_duration = SlotWindowEnd (cf_initialStabilization cfg) k - SlotWindowStart (cf_initialStabilization cfg) k,
       fr_features = EmitFeatures (SlotWindowEnd (cf_initialStabilization cfg) k) (g_features h)\<rparr>] \<and> \<not> g_featuresActive h' \<and>
    g_oracleRows h' = g_oracleRows h @ [oracle_row_of (sc_name (SCENARIOS ! (g_scenarioOrder h ! k)))
       (SlotWindowStart (cf_initialStabilization cfg) k) (SlotWindowEnd (cf_initialStabilization cfg) k) h]"
proof -
  obtain sc where sc: "scenario_of k h = Inr sc" "h' = EndMeasurementWindow (sc_name sc)
      (SlotWindowStart (cf_initialStabilization cfg) k) (SlotWindowEnd (cf_initialStabilization cfg) k) cfg h"
    using assms(2) unfolding EndSlot_def bindR_eq_Inr by auto
  have "sc = SCENARIOS ! (g_scenarioOrder h ! k)" by (rule scenario_of_nth [OF sc(1)])
  then show ?thesis
    using assms(1) unfolding sc(2)
    by (cases "LabelsForScenario (sc_name sc)") (simp add: EndMeasurementWindow_def row_labels_def slot_labels_def)
qed

lemma run_rows:
  assumes "sim_run cfg tr h = Inr h'" and "g_stopped h \<longleftrightarrow> g_runRejected h" and "\<not> g_runRejected h'"
  shows "map row_labels (g_labelRows h') = map row_labels (g_labelRows h) @
    map (slot_labels (cf_initialStabilization cfg) (g_scenarioOrder h))
      (List.map_filter (\<lambda>x. ended_slot (snd x)) (harness_events tr))"
  using assms
proof (induction tr arbitrary: h)
  case Nil
  then show ?case by (simp add: sim_run_def List.map_filter_def)
next
  case (Cons x tr)
  obtain t e where x: "x = (t, e)" by (cases x)
  from sim_run_Cons [OF Cons.prems(1-3)] obtain h1 where
    s: "sim_step cfg t e h = Inr h1" "sim_run cfg tr h1 = Inr h'" "\<not> g_runRejected h" "\<not> g_runRejected h1"
      "\<not> g_stopped h1" "g_scenarioOrder h1 = g_scenarioOrder h" by (auto simp: x)
  have "map row_labels (g_labelRows h1) = map row_labels (g_labelRows h) @
      map (slot_labels (cf_initialStabilization cfg) (g_scenarioOrder h))
        (List.map_filter (\<lambda>x. ended_slot (snd x)) (harness_events [x]))"
  proof (cases e)
    case (Harness ev)
    show ?thesis
    proof (cases "ended_slot ev")
      case None
      have "g_labelRows h1 = g_labelRows h"
      proof (cases "is_bracket ev")
        case True
        then show ?thesis using None s(1) Harness by (cases ev) (auto simp: StartSlot_def StartMeasurementWindow_def SnapshotUdpReceived_def)
      next
        case False
        then show ?thesis using handle_recording s(1) Harness by (simp add: recording_def)
      qed
      then show ?thesis using None by (simp add: x Harness List.map_filter_def)
    next
      case (Some k)
      then have "EndSlot k cfg h = Inr h1" using s(1) Harness by (cases ev) simp_all
      from End_rows [OF s(3) this] have "g_labelRows h1 = g_labelRows h @ [last (g_labelRows h1)]"
        "row_labels (last (g_labelRows h1)) = slot_labels (cf_initialStabilization cfg) (g_scenarioOrder h) k"
        by (metis append_butlast_last_id)+
      then show ?thesis using Some by (simp add: x Harness List.map_filter_def) (metis list.map map_append)
    qed
  next
    case (Node_input i inp)
    then show ?thesis using node_input_frame s(1) by (simp add: x recording_def List.map_filter_def)
  next
    case (Sniffed f)
    then show ?thesis using sniff_frame s(1) by (simp add: x List.map_filter_def)
  qed (use s(1) trace_frame [of cfg t e h h1] in \<open>auto simp: x recording_def List.map_filter_def\<close>)
  with Cons.IH [OF s(2) _ Cons.prems(3)] s(4-6) show ?case
    by (cases e) (simp_all add: x List.map_filter_def)
qed

lemma event_order_ended: "List.map_filter (\<lambda>x. ended_slot (snd x)) (event_order g) = [0, 1, 2, 3]"
proof -
  have "List.map_filter (\<lambda>x. ended_slot (snd x)) xs = List.map_filter (\<lambda>x. ended_slot (snd x)) (filter (\<lambda>x. is_bracket (snd x)) xs)" for xs
  proof (induction xs)
    case (Cons x xs)
    then show ?case by (cases "snd x") (simp_all add: List.map_filter_def)
  qed (simp add: List.map_filter_def)
  from this [of "event_order g"] show ?thesis by (simp only: event_order_bracket) (simp add: List.map_filter_def)
qed

lemma order_permutation: "scenarioOrder b rng = Some order \<Longrightarrow> mset order = {#0, 1, 2, 3#}"
proof (cases b)
  case True
  assume "scenarioOrder b rng = Some order"
  then have "shuffle_loop rng 0 3 [0, 1, 2, 3] = Some order"
    using True unfolding scenarioOrder_def DeterministicShuffle_def upt_slots by (simp add: NUM_SLOTS_def)
  then obtain cs where "length cs = 3" "valid_choices cs" "order = fisher_yates cs [0, 1, 2, 3]"
    using shuffle_loop_choices by blast
  then show ?thesis using fisher_yates_mset [of cs "[0, 1, 2, 3 :: nat]"] by simp
qed (auto simp: scenarioOrder_def upt_slots)


text \<open>The label rows at the end of a run, slot by slot.\<close>

lemma run_label_rows:
  assumes "harness_run b rng cfg h0 tr" and "sim_run cfg tr h0 = Inr h" and "\<not> g_runRejected h" and "k < 4"
  shows "map row_labels (g_labelRows h) = map (slot_labels (cf_initialStabilization cfg) (g_scenarioOrder h0)) [0, 1, 2, 3]"
    and "row_labels (g_labelRows h ! k) = slot_labels (cf_initialStabilization cfg) (g_scenarioOrder h0) k"
    and "length (g_labelRows h) = 4"
proof -
  note run = assms(1) [unfolded harness_run_def]
  show rows: "map row_labels (g_labelRows h) = map (slot_labels (cf_initialStabilization cfg) (g_scenarioOrder h0)) [0, 1, 2, 3]"
    using run_rows [OF assms(2) _ assms(3)] run event_order_ended by (auto simp: started_def)
  show len: "length (g_labelRows h) = 4" using arg_cong [OF rows, of length] by simp
  have "row_labels (g_labelRows h ! k) = map (slot_labels (cf_initialStabilization cfg) (g_scenarioOrder h0)) [0, 1, 2, 3] ! k"
    using len assms(4) rows by (metis nth_map)
  then show "row_labels (g_labelRows h ! k) = slot_labels (cf_initialStabilization cfg) (g_scenarioOrder h0) k"
    using assms(4) by (auto simp: less_Suc_eq numeral_eq_Suc)
qed

text \<open>The scenario that is applied at a time strictly between two transitions.\<close>

lemma applied_scenario:
  assumes "k < 4" and "SlotTransitionTime g k < t" and "t < SlotTransitionTime g (Suc k)"
  shows "fold (apply_flags order) (map snd (filter (\<lambda>x. fst x < t)
      (map (\<lambda>k. (SlotTransitionTime g k, Apply_scenario k)) [0, 1, 2, 3]))) ad =
    (sc_attackEnabled (SCENARIOS ! (order ! k)), sc_defenseEnabled (SCENARIOS ! (order ! k)))"
proof -
  have "k = 0 \<or> k = 1 \<or> k = 2 \<or> k = 3" using assms(1) by linarith
  then show ?thesis using assms(2,3) by (elim disjE) (simp_all add: time_defs apply_flags_def)
qed

text \<open>Attack and defense during a window: the scenario of the slot has been applied, the next one not yet.\<close>

lemma window_state:
  assumes "harness_run b rng cfg h0 tr" and "sim_run cfg tr h0 = Inr h" and "\<not> g_runRejected h"
    and "tr = pre @ (t, e) # post" and "sim_run cfg pre h0 = Inr hp"
    and "k < 4" and "SlotWindowStart (cf_initialStabilization cfg) k \<le> t" and "t < SlotWindowEnd (cf_initialStabilization cfg) k"
  shows "network_ok cfg hp"
    and "(g_attackCurrentlyOn hp, g_defenseCurrentlyOn hp) =
      (sc_attackEnabled (SCENARIOS ! (g_scenarioOrder h0 ! k)), sc_defenseEnabled (SCENARIOS ! (g_scenarioOrder h0 ! k)))"
proof -
  let ?g = "cf_initialStabilization cfg" and ?o = "g_scenarioOrder h0"
  note run = assms(1) [unfolded harness_run_def]
  have st: "g_stopped h0 \<longleftrightarrow> g_runRejected h0" and off: "\<not> g_attackCurrentlyOn h0" "\<not> g_defenseCurrentlyOn h0"
    and start: "started h0" and ev: "harness_events tr = event_order ?g" and sorted: "sorted (map fst tr)" and ns: "no_setters tr"
    using run by (auto simp: started_def)
  obtain rest where rest: "sim_run cfg ((t, e) # post) hp = Inr rest" "rest = h"
    using assms(2) assms(5) unfolding assms(4) sim_run_append by auto
  have nr: "\<not> g_runRejected hp" using run_control [OF assms(5) st] run_control [OF rest(1)] assms(3) rest(2) by auto
  have nsp: "no_setters pre" using ns by (simp add: no_setters_def assms(4))
  from run_switches [OF assms(5) st nr nsp started_ok [OF start]] have
    "network_ok cfg hp" and flags: "(g_attackCurrentlyOn hp, g_defenseCurrentlyOn hp) =
      fold (apply_flags ?o) (map snd (harness_events pre)) (False, False)" using off by simp_all
  then show "network_ok cfg hp" by blast
  have tt: "SlotTransitionTime ?g k < t" "t < SlotTransitionTime ?g (Suc k)"
    using assms(7,8) by (simp_all add: time_defs algebra_simps)
  have "fst x \<noteq> t" if x: "x \<in> set (filter (\<lambda>x. is_apply (snd x)) (harness_events (pre @ (t, e) # post)))" for x
  proof -
    obtain j where j: "fst x = SlotTransitionTime ?g j"
      using x unfolding assms(4) [symmetric] ev event_order_apply by auto
    have "SlotTransitionTime ?g j \<le> SlotTransitionTime ?g k \<or> SlotTransitionTime ?g (Suc k) \<le> SlotTransitionTime ?g j"
      by (cases "j \<le> k") (simp_all add: time_defs)
    then show ?thesis using tt j by auto
  qed
  then have "filter (\<lambda>x. is_apply (snd x)) (harness_events pre) =
      filter (\<lambda>x. fst x < t) (map (\<lambda>k. (SlotTransitionTime ?g k, Apply_scenario k)) [0, 1, 2, 3])"
    using events_before [of pre t e post "\<lambda>x. is_apply (snd x)"] sorted unfolding assms(4) [symmetric] ev event_order_apply by blast
  then show "(g_attackCurrentlyOn hp, g_defenseCurrentlyOn hp) =
      (sc_attackEnabled (SCENARIOS ! (?o ! k)), sc_defenseEnabled (SCENARIOS ! (?o ! k)))"
    unfolding flags fold_apply_filter [of ?o "harness_events pre"] by (simp only: applied_scenario [OF assms(6) tt])
qed

text \<open>
  C6: The labels are true. In a run that is not rejected, every state of the network within the
  measurement window of slot \<open>k\<close> is the one that the label row written for that window claims, whatever
  the nodes send, receive and compute meanwhile: the attackers, and nobody else, are malicious with the
  configured number of spoofed links exactly when the attack label is 1, and the defense object of every
  node is enabled exactly when the defense label is 1. The four rows are the four scenarios, each once,
  with the windows in their order.
\<close>

theorem window_labels_true:
  assumes "harness_run b rng cfg h0 tr" and "sim_run cfg tr h0 = Inr h" and "\<not> g_runRejected h"
    and "tr = pre @ (t, e) # post" and "sim_run cfg pre h0 = Inr hp"
    and "k < 4" and "SlotWindowStart (cf_initialStabilization cfg) k \<le> t" and "t < SlotWindowEnd (cf_initialStabilization cfg) k"
    and "i < length (g_nodes hp)" and "GetOlsrProtocol (g_nodes hp ! i) = Some nd"
    and "row = g_labelRows h ! k"
  shows "lr_start row = SlotWindowStart (cf_initialStabilization cfg) k \<and>
    lr_end row = SlotWindowEnd (cf_initialStabilization cfg) k \<and>
    (nd_isMalicious nd \<longleftrightarrow> lr_attack row = 1 \<and> i \<in> set (cf_attackerIds cfg)) \<and>
    nd_spoofedLinksCount nd = (if lr_attack row = 1 \<and> i \<in> set (cf_attackerIds cfg) then cf_spoofCount cfg else 0) \<and>
    (\<exists>d. nd_defense nd = Some (Gcop_defense d) \<and> (gc_enabled d \<longleftrightarrow> lr_defense row = 1)) \<and>
    length (g_labelRows h) = 4 \<and>
    mset (map (\<lambda>r. (lr_scenario r, lr_attack r, lr_defense r)) (g_labelRows h)) =
      {#(''baseline'', 0, 0), (''attack_only'', 1, 0), (''defense_only'', 0, 1), (''defense_vs_attack'', 1, 1)#}"
proof -
  let ?g = "cf_initialStabilization cfg" and ?o = "g_scenarioOrder h0"
  note run = assms(1) [unfolded harness_run_def]
  have perm: "mset ?o = {#0, 1, 2, 3#}" using run order_permutation by blast
  have o4: "length ?o = 4" "?o ! k < 4" if "k < 4" for k
  proof -
    show l: "length ?o = 4" using arg_cong [OF perm, of size] by simp
    have "?o ! k \<in> set_mset (mset ?o)" using l that by simp
    then show "?o ! k < 4" unfolding perm by auto
  qed
  have row: "lr_start row = SlotWindowStart ?g k" "lr_end row = SlotWindowEnd ?g k"
    "lr_attack row = (if sc_attackEnabled (SCENARIOS ! (?o ! k)) then 1 else 0)"
    "lr_defense row = (if sc_defenseEnabled (SCENARIOS ! (?o ! k)) then 1 else 0)"
    using labels_of_scenario [OF o4(2) [OF assms(6)]] run_label_rows(2) [OF assms(1-3,6)]
    by (simp_all add: assms(11) row_labels_def slot_labels_def Let_def)
  have "settings nd = (g_attackCurrentlyOn hp \<and> i \<in> set (cf_attackerIds cfg),
      if g_attackCurrentlyOn hp \<and> i \<in> set (cf_attackerIds cfg) then cf_spoofCount cfg else 0, Some (1, g_defenseCurrentlyOn hp))"
    using window_state(1) [OF assms(1-8)] assms(9,10) by (simp add: network_ok_def armed_def)
  moreover note window_state(2) [OF assms(1-8)]
  moreover have "\<exists>d. nd_defense nd = Some (Gcop_defense d) \<and> gc_enabled d = on" if mode: "settings nd = (a, c, Some (1, on))" for a c on
  proof -
    obtain df where "nd_defense nd = Some df" "defense_mode df = (1, on)" using mode by (auto simp: settings_def)
    then show ?thesis by (cases df) auto
  qed
  ultimately have state: "nd_isMalicious nd \<longleftrightarrow> lr_attack row = 1 \<and> i \<in> set (cf_attackerIds cfg)"
    "nd_spoofedLinksCount nd = (if lr_attack row = 1 \<and> i \<in> set (cf_attackerIds cfg) then cf_spoofCount cfg else 0)"
    "\<exists>d. nd_defense nd = Some (Gcop_defense d) \<and> (gc_enabled d \<longleftrightarrow> lr_defense row = 1)"
    unfolding row(3,4) by (auto simp: settings_def)
  \<comment> \<open>the four scenarios\<close>
  have "map (\<lambda>r. (lr_scenario r, lr_attack r, lr_defense r)) (g_labelRows h) =
      map (\<lambda>(n, s, e, a, d). (n, a, d)) (map row_labels (g_labelRows h))"
    by (simp add: row_labels_def)
  also have "\<dots> = map (\<lambda>i. (sc_name (SCENARIOS ! i), LabelsForScenario (sc_name (SCENARIOS ! i)))) ?o"
    unfolding run_label_rows(1) [OF assms(1-3,6)] using o4(1) [of 0]
    by (auto simp: slot_labels_def Let_def numeral_eq_Suc length_Suc_conv split: prod.split)
  also have "mset \<dots> = image_mset (\<lambda>i. (sc_name (SCENARIOS ! i), LabelsForScenario (sc_name (SCENARIOS ! i)))) {#0, 1, 2, 3#}"
    by (simp only: mset_map perm)
  also have "\<dots> = {#(''baseline'', 0, 0), (''attack_only'', 1, 0), (''defense_only'', 0, 1), (''defense_vs_attack'', 1, 1)#}"
    by (simp add: SCENARIOS_def LabelsForScenario_def)
  finally show ?thesis using row(1,2) state run_label_rows(3) [OF assms(1-3,6)] by blast
qed


definition example_config :: run_config where
  "example_config = \<lparr>cf_initialStabilization = 0, cf_attackerIds = [0], cf_spoofCount = 3, cf_flowAddrPairs = [],
     cf_maliciousNodesList = ''0''\<rparr>"

definition example_setup :: run_state where
  "example_setup =
     \<lparr>g_nodes = [Some [Olsr_child (example_node\<lparr>nd_defense := Some (Gcop_defense Gcop_init)\<rparr>)]],
      g_ipToNode = [], g_nodeToIp = [], g_flowPairs = [], g_scenarioOrder = [0, 1, 2, 3], g_attackCurrentlyOn = False,
      g_defenseCurrentlyOn = False, g_runRejected = False, g_rejectReason = [], g_rejectedAtSec = 0, g_stopped = False,
      g_attackerOnPathPrevWindow = False, g_pathHopsPrevWindow = 0, g_flowsWithAttackerOnPath = 0,
      g_flowsWithValidPath = 0, g_minAttackerTrust = 1, g_avgAttackerTrust = 1, g_blacklistMaxSize = 0,
      g_trueDetections = 0, g_falseDetections = 0, g_defendersTotal = 0, g_defendersInRange = 0,
      g_detectionPercent = 0, g_detectionPercentInRange = 0, g_falseAlarmRate = 0,
      g_currentRun = 1, g_features = Features_Reset 0, g_featuresActive = False, g_counters = ResetOlsrCounters,
      g_macTxPerNode = [0], g_macDropPerNode = [0], g_macTxAtWindowStart = 0, g_macDropAtWindowStart = 0,
      g_udpServers = [0], g_udpReceivedAtWindowStart = 0, g_flowMonitor = Some [],
      g_labelRows = [], g_featureRows = [], g_oracleRows = []\<rparr>"

text \<open>
  Within the second window the node registers a drop of its radio, the listener hears a TC message, the
  UDP server gets a packet and a node transmits the TC message.
\<close>

definition example_before :: "(rat \<times> sim_event) list" where
  "example_before = map (\<lambda>(t, e). (t, Harness e)) (filter (\<lambda>x. fst x \<le> 170) (event_order 0))"

definition example_after :: "(rat \<times> sim_event) list" where
  "example_after = map (\<lambda>(t, e). (t, Harness e)) (filter (\<lambda>x. fst x > 170) (event_order 0))"

definition example_datagram :: tx_datagram where
  "example_datagram = \<lparr>tx_size = 60, tx_protocol = Some 17, tx_port = Some 698, tx_payload = fr_payload example_sniffed\<rparr>"

definition example_trace :: "(rat \<times> sim_event) list" where
  "example_trace = example_before @ (170, Node_input 0 Rx_drop) # (171, Sniffed example_sniffed) #
     (172, Udp_received 0) # (173, Ip_tx example_datagram) # example_after"

lemma example_harness_run: "harness_run False (\<lambda>_. 0) example_config example_setup example_trace"
proof -
  have "scenarioOrder False (\<lambda>_. 0) = Some (g_scenarioOrder example_setup)" "started example_setup"
    "cf_initialStabilization example_config = initialStabilization False" by code_simp+
  moreover have "no_setters example_trace" "sorted (map fst example_trace)" by code_simp+
  moreover have "harness_events example_trace = event_order (cf_initialStabilization example_config)" by code_simp
  ultimately show ?thesis by (simp add: harness_run_def)
qed


text \<open>Evaluation leaves the square roots of the standard deviations as they are.\<close>

declare TrueI [code abort: sqrt]

lemma example_runs:
  "\<exists>h. sim_run example_config example_trace example_setup = Inr h \<and> \<not> g_runRejected h"
  "\<exists>h nd. sim_run example_config example_before example_setup = Inr h \<and> 0 < length (g_nodes h) \<and>
     GetOlsrProtocol (g_nodes h ! 0) = Some nd"
proof -
  have "case sim_run example_config example_trace example_setup of Inl _ \<Rightarrow> False | Inr h \<Rightarrow> \<not> g_runRejected h"
    by code_simp
  then show "\<exists>h. sim_run example_config example_trace example_setup = Inr h \<and> \<not> g_runRejected h"
    by (simp split: sum.splits)
  have "case sim_run example_config example_before example_setup of Inl _ \<Rightarrow> False
      | Inr h \<Rightarrow> (case g_nodes h of [] \<Rightarrow> False | sn # _ \<Rightarrow> GetOlsrProtocol sn \<noteq> None)"
    by code_simp
  then show "\<exists>h nd. sim_run example_config example_before example_setup = Inr h \<and> 0 < length (g_nodes h) \<and>
     GetOlsrProtocol (g_nodes h ! 0) = Some nd"
    by (auto split: sum.splits list.splits)
qed

theorem window_labels_true_witness:
  "\<exists>h hp nd. sim_run example_config example_trace example_setup = Inr h \<and>
     sim_run example_config example_before example_setup = Inr hp \<and> GetOlsrProtocol (g_nodes hp ! 0) = Some nd \<and>
     (nd_isMalicious nd \<longleftrightarrow> lr_attack (g_labelRows h ! 1) = 1) \<and> lr_start (g_labelRows h ! 1) = 160"
proof -
  obtain h where h: "sim_run example_config example_trace example_setup = Inr h" "\<not> g_runRejected h"
    using example_runs(1) by blast
  obtain hp nd where hp: "sim_run example_config example_before example_setup = Inr hp" "0 < length (g_nodes hp)"
    "GetOlsrProtocol (g_nodes hp ! 0) = Some nd" using example_runs(2) by blast
  have t: "SlotWindowStart (cf_initialStabilization example_config) 1 = 160"
    "SlotWindowEnd (cf_initialStabilization example_config) 1 = 200"
    by (simp_all add: example_config_def time_defs)
  have w: "SlotWindowStart (cf_initialStabilization example_config) 1 \<le> 170"
    "170 < SlotWindowEnd (cf_initialStabilization example_config) 1" unfolding t by simp_all
  have "0 \<in> set (cf_attackerIds example_config)" by (simp add: example_config_def)
  with window_labels_true [OF example_harness_run h example_trace_def hp(1) _ w hp(2,3) refl] h hp t show ?thesis by auto
qed

section \<open>Features\<close>

definition sniffed_frames :: "(rat \<times> sim_event) list \<Rightarrow> (rat \<times> sniffed_frame) list" where
  "sniffed_frames tr = List.map_filter (\<lambda>(t, e). case e of Sniffed f \<Rightarrow> Some (t, f) | _ \<Rightarrow> None) tr"

lemma sniffed_frames_simps [simp]:
  "sniffed_frames [] = []"
  "sniffed_frames ((t, Harness ev) # tr) = sniffed_frames tr"
  "sniffed_frames ((t, Node_input i inp) # tr) = sniffed_frames tr"
  "sniffed_frames ((t, Sniffed f) # tr) = (t, f) # sniffed_frames tr"
  "is_trace e \<Longrightarrow> sniffed_frames ((t, e) # tr) = sniffed_frames tr"
  by (auto simp: sniffed_frames_def List.map_filter_def split: sim_event.split)

text \<open>Between the brackets of a window the collector sees exactly the frames of that time.\<close>

lemma run_observes:
  assumes "sim_run cfg w h = Inr h'" and "g_stopped h \<longleftrightarrow> g_runRejected h" and "\<not> g_runRejected h'"
    and "filter (\<lambda>x. is_bracket (snd x)) (harness_events w) = []" and "g_featuresActive h"
  shows "g_featuresActive h' \<and> g_featureRows h' = g_featureRows h \<and> g_oracleRows h' = g_oracleRows h \<and>
    observe_window (sniffed_frames w) (g_features h) = Inr (g_features h')"
  using assms
proof (induction w arbitrary: h)
  case Nil
  then show ?case by (simp add: sim_run_def observe_window_def)
next
  case (Cons x w)
  obtain t e where x: "x = (t, e)" by (cases x)
  from sim_run_Cons [OF Cons.prems(1-3)] obtain h1 where
    s: "sim_step cfg t e h = Inr h1" "sim_run cfg w h1 = Inr h'" "\<not> g_runRejected h1" "\<not> g_stopped h1" by (auto simp: x)
  have nb: "filter (\<lambda>x. is_bracket (snd x)) (harness_events w) = []"
    using Cons.prems(4) by (cases e) (simp_all add: x split: if_splits)
  note IH = Cons.IH [OF s(2) _ Cons.prems(3) nb]
  show ?case
  proof (cases e)
    case (Harness ev)
    then have "\<not> is_bracket ev" using Cons.prems(4) by (auto simp: x)
    then have "recording h1 = recording h" using handle_recording s(1) Harness by simp
    then show ?thesis using IH s(3,4) Cons.prems(5) by (simp add: x Harness recording_def)
  next
    case (Node_input i inp)
    then show ?thesis using node_input_frame s IH Cons.prems(5) by (simp add: x recording_def)
  next
    case (Sniffed f)
    then have "ObserveSniffedFrame t f (g_features h) = Inr (g_features h1) \<and> g_featuresActive h1 \<and>
        g_featureRows h1 = g_featureRows h \<and> g_oracleRows h1 = g_oracleRows h"
      using s(1) Cons.prems(5) by (auto simp: MonitorSnifferRxCallback_def bindR_eq_Inr)
    then show ?thesis using IH s(3,4) by (simp add: x Sniffed observe_window_def)
  qed (use s(1,3,4) trace_frame [of cfg t e h h1] IH Cons.prems(5) in \<open>auto simp: x recording_def\<close>)
qed

lemma run_staged_rows:
  assumes "sim_run cfg tr h = Inr h'" and "g_stopped h \<longleftrightarrow> g_runRejected h" and "\<not> g_runRejected h'"
  shows "\<exists>rows orows. g_featureRows h' = g_featureRows h @ rows \<and> g_oracleRows h' = g_oracleRows h @ orows \<and>
    length rows = length (List.map_filter (\<lambda>x. ended_slot (snd x)) (harness_events tr)) \<and> length orows = length rows"
  using assms
proof (induction tr arbitrary: h)
  case Nil
  then show ?case by (simp add: sim_run_def List.map_filter_def)
next
  case (Cons x tr)
  obtain t e where x: "x = (t, e)" by (cases x)
  from sim_run_Cons [OF Cons.prems(1-3)] obtain h1 where
    s: "sim_step cfg t e h = Inr h1" "sim_run cfg tr h1 = Inr h'" "\<not> g_runRejected h" "\<not> g_runRejected h1"
      "\<not> g_stopped h1" by (auto simp: x)
  have "\<exists>rows orows. g_featureRows h1 = g_featureRows h @ rows \<and> g_oracleRows h1 = g_oracleRows h @ orows \<and>
      length rows = length (List.map_filter (\<lambda>x. ended_slot (snd x)) (harness_events [x])) \<and> length orows = length rows"
  proof (cases e)
    case (Harness ev)
    show ?thesis
    proof (cases "ended_slot ev")
      case None
      have "g_featureRows h1 = g_featureRows h \<and> g_oracleRows h1 = g_oracleRows h"
      proof (cases "is_bracket ev")
        case True
        then show ?thesis using None s(1) Harness by (cases ev) (auto simp: StartSlot_def StartMeasurementWindow_def SnapshotUdpReceived_def)
      next
        case False
        then show ?thesis using handle_recording s(1) Harness by (simp add: recording_def)
      qed
      then show ?thesis using None by (simp add: x Harness List.map_filter_def)
    next
      case (Some k)
      then have "EndSlot k cfg h = Inr h1" using s(1) Harness by (cases ev) simp_all
      from End_rows [OF s(3) this] show ?thesis using Some by (simp add: x Harness List.map_filter_def)
    qed
  next
    case (Node_input i inp)
    then show ?thesis using node_input_frame s(1) by (simp add: x recording_def List.map_filter_def)
  next
    case (Sniffed f)
    then show ?thesis using sniff_frame s(1) by (simp add: x List.map_filter_def)
  qed (use s(1) trace_frame [of cfg t e h h1] in \<open>auto simp: x recording_def List.map_filter_def\<close>)
  then obtain r ro where r: "g_featureRows h1 = g_featureRows h @ r" "g_oracleRows h1 = g_oracleRows h @ ro"
    "length r = length (List.map_filter (\<lambda>x. ended_slot (snd x)) (harness_events [x]))" "length ro = length r" by blast
  obtain q qo where q: "g_featureRows h' = g_featureRows h1 @ q" "g_oracleRows h' = g_oracleRows h1 @ qo"
    "length q = length (List.map_filter (\<lambda>x. ended_slot (snd x)) (harness_events tr))" "length qo = length q"
    using Cons.IH [OF s(2) _ Cons.prems(3)] s(4,5) by auto
  have "harness_events (x # tr) = harness_events [x] @ harness_events tr" by (cases e) (simp_all add: x)
  then show ?case using r q by (intro exI [of _ "r @ q"] exI [of _ "ro @ qo"]) (simp add: List.map_filter_def)
qed

text \<open>The brackets of a run come in pairs, one slot after the other.\<close>

lemma bracket_split:
  assumes "A @ Start_slot k # W @ End_slot k # B = concat (map (\<lambda>k. [Start_slot k, End_slot k]) [0, 1, 2, 3])" and "k < 4"
  shows "W = [] \<and> length (List.map_filter ended_slot A) = k"
proof -
  have "k = 0 \<or> k = 1 \<or> k = 2 \<or> k = 3" using assms(2) by linarith
  then show ?thesis using assms(1)
    by (elim disjE) (auto simp: append_eq_Cons_conv List.map_filter_def)
qed


lemma sniffed_frames_set: "(t, f) \<in> set (sniffed_frames tr) \<longleftrightarrow> (t, Sniffed f) \<in> set tr"
proof (induction tr)
  case (Cons x tr)
  obtain u e where "x = (u, e)" by (cases x)
  then show ?case using Cons by (cases e) auto
qed simp

lemma sniffed_frames_sorted: "sorted (map fst tr) \<Longrightarrow> sorted (map fst (sniffed_frames tr))"
proof (induction tr)
  case (Cons x tr)
  obtain u e where "x = (u, e)" by (cases x)
  then show ?case using Cons by (cases e) (auto simp: sniffed_frames_set dest: bspec)
qed simp

lemma ended_filter:
  "List.map_filter ended_slot (filter is_bracket (map snd xs)) = List.map_filter (\<lambda>x. ended_slot (snd x)) xs"
  for xs :: "(rat \<times> harness_event) list"
proof (induction xs)
  case (Cons x xs)
  then show ?case by (cases "snd x") (simp_all add: List.map_filter_def)
qed (simp add: List.map_filter_def)

lemma window_brackets:
  assumes "harness_events (before @ (ts, Harness (Start_slot k)) # w @ (te, Harness (End_slot k)) # after) = event_order g"
    and "k < 4"
  shows "ts = SlotWindowStart g k" and "te = SlotWindowEnd g k"
    and "filter (\<lambda>x. is_bracket (snd x)) (harness_events w) = []"
    and "length (List.map_filter (\<lambda>x. ended_slot (snd x)) (harness_events before)) = k"
proof -
  let ?pairs = "\<lambda>k. [(SlotWindowStart g k, Start_slot k), (SlotWindowEnd g k, End_slot k)]"
  have br: "filter (\<lambda>x. is_bracket (snd x)) (harness_events before) @ (ts, Start_slot k) #
      filter (\<lambda>x. is_bracket (snd x)) (harness_events w) @ (te, End_slot k) #
      filter (\<lambda>x. is_bracket (snd x)) (harness_events after) = concat (map ?pairs [0, 1, 2, 3])"
    using event_order_bracket [of g] unfolding assms(1) [symmetric] by simp
  have "filter is_bracket (map snd (harness_events before)) @ Start_slot k # filter is_bracket (map snd (harness_events w)) @
      End_slot k # filter is_bracket (map snd (harness_events after)) = concat (map (\<lambda>k. [Start_slot k, End_slot k]) [0, 1, 2, 3])"
    using arg_cong [OF br, of "map snd"] by (simp add: filter_map o_def)
  from bracket_split [OF this assms(2)] show "filter (\<lambda>x. is_bracket (snd x)) (harness_events w) = []"
    "length (List.map_filter (\<lambda>x. ended_slot (snd x)) (harness_events before)) = k"
    unfolding ended_filter by (simp_all add: filter_map o_def)
  have "(ts, Start_slot k) \<in> set (concat (map ?pairs [0, 1, 2, 3]))" "(te, End_slot k) \<in> set (concat (map ?pairs [0, 1, 2, 3]))"
    unfolding br [symmetric] by simp_all
  then show "ts = SlotWindowStart g k" "te = SlotWindowEnd g k" by auto
qed

text \<open>
  The states of a run around a window: after the opening bracket (\<open>h2\<close>), before and after the closing
  one (\<open>h3\<close>, \<open>h4\<close>), and the rows of the window.
\<close>

lemma window_run:
  assumes "harness_run b rng cfg h0 tr" and "sim_run cfg tr h0 = Inr h" and "\<not> g_runRejected h" and "k < 4"
    and "tr = before @ (ts, Harness (Start_slot k)) # w @ (te, Harness (End_slot k)) # after"
  obtains h1 h2 h3 where "sim_run cfg before h0 = Inr h1" and "h2 = StartMeasurementWindow ts h1" and "\<not> g_runRejected h1"
    and "sim_run cfg w h2 = Inr h3" and "\<not> g_runRejected h2" and "\<not> g_stopped h2" and "\<not> g_runRejected h3"
    and "filter (\<lambda>x. is_bracket (snd x)) (harness_events w) = []"
    and "observe_window (sniffed_frames w) (Features_Reset ts) = Inr (g_features h3)"
    and "length (g_featureRows h) = 4" and "length (g_oracleRows h) = 4"
    and "g_featureRows h ! k = \<lparr>fr_run = g_currentRun h3, fr_scenario = sc_name (SCENARIOS ! (g_scenarioOrder h0 ! k)),
      fr_start = ts, fr_end = te, fr_duration = te - ts, fr_features = EmitFeatures te (g_features h3)\<rparr>"
    and "g_oracleRows h ! k = oracle_row_of (sc_name (SCENARIOS ! (g_scenarioOrder h0 ! k))) ts te h3"
proof -
  let ?g = "cf_initialStabilization cfg" and ?o = "g_scenarioOrder h0"
  note run = assms(1) [unfolded harness_run_def]
  have st: "g_stopped h0 \<longleftrightarrow> g_runRejected h0" and rows0: "g_featureRows h0 = []" "g_oracleRows h0 = []"
    and ev: "harness_events tr = event_order ?g" using run by (auto simp: started_def)
  note br = window_brackets [OF ev [unfolded assms(5)] assms(4)]
  from assms(2) [unfolded assms(5) sim_run_append] obtain h1 where
    h1: "sim_run cfg before h0 = Inr h1"
      "sim_run cfg ((ts, Harness (Start_slot k)) # w @ (te, Harness (End_slot k)) # after) h1 = Inr h" by auto
  have st1: "g_stopped h1 \<longleftrightarrow> g_runRejected h1" and o1: "g_scenarioOrder h1 = ?o" using run_control [OF h1(1) st] by auto
  from sim_run_Cons [OF h1(2) st1 assms(3)] obtain h2 where
    h2: "h2 = StartMeasurementWindow ts h1" "sim_run cfg (w @ (te, Harness (End_slot k)) # after) h2 = Inr h"
      "\<not> g_runRejected h1" "\<not> g_runRejected h2" "\<not> g_stopped h2" "g_scenarioOrder h2 = ?o"
    using o1 by (auto simp: StartSlot_def)
  from h2(2) obtain h3 where h3: "sim_run cfg w h2 = Inr h3" "sim_run cfg ((te, Harness (End_slot k)) # after) h3 = Inr h"
    unfolding sim_run_append by auto
  have st3: "g_stopped h3 \<longleftrightarrow> g_runRejected h3" and o3: "g_scenarioOrder h3 = ?o"
    using run_control [OF h3(1)] h2(4-6) by auto
  from sim_run_Cons [OF h3(2) st3 assms(3)] obtain h4 where
    h4: "EndSlot k cfg h3 = Inr h4" "sim_run cfg after h4 = Inr h" "\<not> g_runRejected h3" "\<not> g_runRejected h4" "\<not> g_stopped h4"
    by auto
  have act: "g_featuresActive h2" "g_features h2 = Features_Reset ts" "g_featureRows h2 = g_featureRows h1"
    "g_oracleRows h2 = g_oracleRows h1"
    using h2(1,3) by (auto simp: StartMeasurementWindow_def SnapshotUdpReceived_def)
  from run_observes [OF h3(1) _ h4(3) br(3) act(1)] h2(4,5) act have
    obs: "observe_window (sniffed_frames w) (Features_Reset ts) = Inr (g_features h3)"
      "g_featureRows h3 = g_featureRows h1" "g_oracleRows h3 = g_oracleRows h1" by auto
  have l1: "length (g_featureRows h1) = k" "length (g_oracleRows h1) = k"
    using run_staged_rows [OF h1(1) st h2(3)] rows0 br(4) by auto
  obtain r ro where r: "g_featureRows h = g_featureRows h4 @ r" "g_oracleRows h = g_oracleRows h4 @ ro"
    using run_staged_rows [OF h4(2) _ assms(3)] h4(4,5) by auto
  have "g_featureRows h ! k = \<lparr>fr_run = g_currentRun h3, fr_scenario = sc_name (SCENARIOS ! (?o ! k)),
      fr_start = ts, fr_end = te, fr_duration = te - ts, fr_features = EmitFeatures te (g_features h3)\<rparr>"
    "g_oracleRows h ! k = oracle_row_of (sc_name (SCENARIOS ! (?o ! k))) ts te h3"
    using End_rows [OF h4(3,1)] l1 obs(2,3) o3 unfolding r br(1,2) by (simp_all add: nth_append)
  moreover have "length (g_featureRows h) = 4" "length (g_oracleRows h) = 4"
    using run_staged_rows [OF assms(2) st assms(3)] rows0 unfolding ev event_order_ended by auto
  ultimately show ?thesis using that h1(1) h2(1,3-5) h3(1) h4(3) br(3) obs(1) by blast
qed

text \<open>
  C12: The features of a window are those of its frames. In a run that is not rejected, the feature row
  of slot \<open>k\<close> carries the scenario and the window of the label row of that slot, a duration of 40
  seconds, and the features of exactly the frames that reached the listener between the two brackets
  of the window, in their order and with none of another window; their times lie within the window.
\<close>

theorem window_features_recorded:
  assumes "harness_run b rng cfg h0 tr" and "sim_run cfg tr h0 = Inr h" and "\<not> g_runRejected h" and "k < 4"
    and "tr = before @ (ts, Harness (Start_slot k)) # w @ (te, Harness (End_slot k)) # after"
  shows "\<exists>fc. observe_window (sniffed_frames w) (Features_Reset ts) = Inr fc \<and>
    length (g_featureRows h) = 4 \<and> fr_features (g_featureRows h ! k) = EmitFeatures te fc \<and>
    fr_scenario (g_featureRows h ! k) = lr_scenario (g_labelRows h ! k) \<and>
    fr_start (g_featureRows h ! k) = ts \<and> lr_start (g_labelRows h ! k) = ts \<and>
    fr_end (g_featureRows h ! k) = te \<and> lr_end (g_labelRows h ! k) = te \<and>
    fr_duration (g_featureRows h ! k) = 40 \<and> te = ts + 40 \<and>
    sorted (ts # map fst (sniffed_frames w)) \<and> (\<forall>t\<in>set (map fst (sniffed_frames w)). t \<le> te)"
proof -
  have lab: "lr_scenario (g_labelRows h ! k) = sc_name (SCENARIOS ! (g_scenarioOrder h0 ! k))" "lr_start (g_labelRows h ! k) = ts"
    "lr_end (g_labelRows h ! k) = te" and t: "te - ts = 40" "te = ts + 40" and sorted: "sorted (map fst tr)"
  proof -
    note run = assms(1) [unfolded harness_run_def]
    then have "harness_events tr = event_order (cf_initialStabilization cfg)" by blast
    note br = window_brackets [OF this [unfolded assms(5)] assms(4)]
    show "lr_scenario (g_labelRows h ! k) = sc_name (SCENARIOS ! (g_scenarioOrder h0 ! k))" "lr_start (g_labelRows h ! k) = ts"
      "lr_end (g_labelRows h ! k) = te" "te - ts = 40" "te = ts + 40"
      using run_label_rows(2) [OF assms(1-4)] by (simp_all add: row_labels_def slot_labels_def br Let_def time_defs)
    show "sorted (map fst tr)" using run by blast
  qed
  have "sorted (ts # map fst w)" "\<forall>t\<in>set (map fst w). t \<le> te" using sorted unfolding assms(5) by (auto simp: sorted_append)
  then have "sorted (ts # map fst (sniffed_frames w)) \<and> (\<forall>t\<in>set (map fst (sniffed_frames w)). t \<le> te)"
    using sniffed_frames_sorted [of w] by (force simp: sniffed_frames_set)
  moreover obtain h3 :: run_state where "observe_window (sniffed_frames w) (Features_Reset ts) = Inr (g_features h3)"
    "length (g_featureRows h) = 4" "g_featureRows h ! k = \<lparr>fr_run = g_currentRun h3,
       fr_scenario = sc_name (SCENARIOS ! (g_scenarioOrder h0 ! k)), fr_start = ts, fr_end = te, fr_duration = te - ts,
       fr_features = EmitFeatures te (g_features h3)\<rparr>"
    by (rule window_run [OF assms]) blast
  ultimately show ?thesis using lab t by (intro exI [of _ "g_features h3"]) simp
qed

text \<open>The second window of the example.\<close>

definition example_window :: "(rat \<times> sim_event) list" where
  "example_window = take 7 (drop 9 example_trace)"

lemma example_trace_window:
  "example_trace = take 8 example_trace @ (160, Harness (Start_slot 1)) #
      example_window @ (200, Harness (End_slot 1)) # drop 8 (drop 9 example_trace)"
proof -
  have n: "example_trace ! 8 = (160, Harness (Start_slot 1))" "drop 9 example_trace ! 7 = (200, Harness (End_slot 1))"
    "8 < length example_trace" "7 < length (drop 9 example_trace)" by code_simp+
  have "example_trace = take 8 example_trace @ (160, Harness (Start_slot 1)) # drop 9 example_trace"
    using id_take_nth_drop [OF n(3)] by (simp add: n(1))
  also have "drop 9 example_trace = example_window @ (200, Harness (End_slot 1)) # drop 8 (drop 9 example_trace)"
    using id_take_nth_drop [OF n(4)] unfolding example_window_def by (simp only: n(2)) simp
  finally show ?thesis .
qed

theorem window_features_recorded_witness:
  "\<exists>h fc. sim_run example_config example_trace example_setup = Inr h \<and>
     observe_window [(171, example_sniffed)] (Features_Reset 160) = Inr fc \<and>
     fr_features (g_featureRows h ! 1) = EmitFeatures 200 fc \<and> fr_start (g_featureRows h ! 1) = 160"
proof -
  obtain h where h: "sim_run example_config example_trace example_setup = Inr h" "\<not> g_runRejected h"
    using example_runs(1) by blast
  have "sniffed_frames example_window = [(171, example_sniffed)]" by code_simp
  with window_features_recorded [OF example_harness_run h _ example_trace_window] h(1) show ?thesis by auto
qed

section \<open>The cold start\<close>

text \<open>The network without what the defense objects have accumulated.\<close>

definition wipe :: "gcop \<Rightarrow> gcop" where "wipe d = d\<lparr>gc_riskyNodes := []\<rparr>"

definition forget_defense :: "run_state \<Rightarrow> run_state" where
  "forget_defense h = h\<lparr>g_nodes := map (on_olsr (on_defense (on_gcop wipe))) (g_nodes h)\<rparr>"

lemma wipe_wipe [simp]: "wipe (wipe d) = wipe d"
  by (simp add: wipe_def)

lemma cold_start_wipe: "cold_start = wipe"
  by (rule ext) (simp add: cold_start_def Gcop_SetEnabled_def wipe_def Let_def)

lemma ForceDefenseColdStart_forget: "\<not> g_runRejected h \<Longrightarrow> ForceDefenseColdStart h = forget_defense h"
  by (simp add: ForceDefenseColdStart_def forget_defense_def cold_start_wipe)

lemma on_defense_twice: "on_defense (on_gcop f) (on_defense (on_gcop g) nd) = on_defense (on_gcop (\<lambda>d. f (g d))) nd"
proof -
  have "on_gcop f (on_gcop g d) = on_gcop (\<lambda>d. f (g d)) d" for d by (cases d) simp_all
  then show ?thesis by (simp add: on_defense_def option.map_comp o_def)
qed

lemma forget_simps [simp]:
  "forget_defense (forget_defense h) = forget_defense h"
  "forget_defense (h\<lparr>g_attackCurrentlyOn := b\<rparr>) = (forget_defense h)\<lparr>g_attackCurrentlyOn := b\<rparr>"
  "forget_defense (h\<lparr>g_defenseCurrentlyOn := b\<rparr>) = (forget_defense h)\<lparr>g_defenseCurrentlyOn := b\<rparr>"
  "g_runRejected (forget_defense h) = g_runRejected h" "g_scenarioOrder (forget_defense h) = g_scenarioOrder h"
  "g_attackCurrentlyOn (forget_defense h) = g_attackCurrentlyOn h"
  "g_defenseCurrentlyOn (forget_defense h) = g_defenseCurrentlyOn h"
  "length (g_nodes (forget_defense h)) = length (g_nodes h)"
  by (simp_all add: forget_defense_def on_olsr_on_olsr on_defense_twice o_def)

lemma forget_eqI:
  "forget_defense x = forget_defense y \<Longrightarrow> g_runRejected y = g_runRejected x \<and> g_attackCurrentlyOn y = g_attackCurrentlyOn x \<and>
    g_defenseCurrentlyOn y = g_defenseCurrentlyOn x"
  by (metis forget_simps(4,6,7))

lemma forget_SetDefense: "forget_defense (SetDefenseState b (forget_defense h)) = forget_defense (SetDefenseState b h)"
proof -
  have "(\<lambda>d. wipe (Gcop_SetEnabled b (wipe d))) = (\<lambda>d. wipe (Gcop_SetEnabled b d))"
    by (rule ext) (simp add: wipe_def Gcop_SetEnabled_def)
  then show ?thesis
    by (simp add: SetDefenseState_def forget_defense_def on_olsr_on_olsr on_defense_twice o_def)
qed

lemma forget_SetAttack: "forget_defense (SetAttackState ids c b (forget_defense h)) = forget_defense (SetAttackState ids c b h)"
proof (cases "g_runRejected h")
  case True
  then show ?thesis by (simp add: SetAttackState_def)
next
  case False
  let ?f = "on_olsr (on_defense (on_gcop wipe))"
  have nr: "\<not> g_runRejected (forget_defense h)" using False by simp
  have sw: "on_defense (on_gcop wipe) (set_malicious b c nd) = set_malicious b c (on_defense (on_gcop wipe) nd)" for nd
    by (simp add: set_malicious_def on_defense_def)
  have tw: "on_defense (on_gcop wipe) (on_defense (on_gcop wipe) nd) = on_defense (on_gcop wipe) nd" for nd
    by (simp add: on_defense_twice)
  have "map ?f (g_nodes (SetAttackState ids c b (forget_defense h))) = map ?f (g_nodes (SetAttackState ids c b h))"
  proof (rule nth_equalityI)
    show "length (map ?f (g_nodes (SetAttackState ids c b (forget_defense h)))) = length (map ?f (g_nodes (SetAttackState ids c b h)))"
      by (simp add: SetAttackState_nodes(1) [OF False] SetAttackState_nodes(1) [OF nr])
    fix i assume "i < length (map ?f (g_nodes (SetAttackState ids c b (forget_defense h))))"
    then have i: "i < length (g_nodes h)" "i < length (g_nodes (forget_defense h))"
      by (simp_all add: SetAttackState_nodes(1) [OF nr])
    have "g_nodes (forget_defense h) ! i = ?f (g_nodes h ! i)" using i by (simp add: forget_defense_def)
    then show "map ?f (g_nodes (SetAttackState ids c b (forget_defense h))) ! i = map ?f (g_nodes (SetAttackState ids c b h)) ! i"
      using i by (simp add: SetAttackState_nodes [OF False] SetAttackState_nodes [OF nr] on_olsr_on_olsr sw tw)
  qed
  moreover have "forget_defense (h\<lparr>g_nodes := ns\<rparr>) = h\<lparr>g_nodes := map ?f ns\<rparr>" for ns
    by (simp add: forget_defense_def)
  moreover have "SetAttackState ids c b (forget_defense h) = h\<lparr>g_nodes := g_nodes (SetAttackState ids c b (forget_defense h))\<rparr>"
    "SetAttackState ids c b h = h\<lparr>g_nodes := g_nodes (SetAttackState ids c b h)\<rparr>"
    using False by (simp_all add: SetAttackState_def forget_defense_def)
  ultimately show ?thesis by metis
qed

definition apply_attack :: "nat list \<Rightarrow> u32 \<Rightarrow> bool \<Rightarrow> run_state \<Rightarrow> run_state" where
  "apply_attack ids c a h = (if a \<noteq> g_attackCurrentlyOn h then (SetAttackState ids c a h)\<lparr>g_attackCurrentlyOn := a\<rparr> else h)"

definition apply_defense :: "bool \<Rightarrow> run_state \<Rightarrow> run_state" where
  "apply_defense d h = (if d \<noteq> g_defenseCurrentlyOn h then (SetDefenseState d h)\<lparr>g_defenseCurrentlyOn := d\<rparr> else h)"

lemma forget_apply:
  "forget_defense (apply_attack ids c a (forget_defense h)) = forget_defense (apply_attack ids c a h)"
  "forget_defense (apply_defense d (forget_defense h)) = forget_defense (apply_defense d h)"
  by (simp_all add: apply_attack_def apply_defense_def forget_SetAttack forget_SetDefense)

lemma apply_control: "control (apply_attack ids c a h) = control h" "control (apply_defense d h) = control h"
  by (simp_all add: apply_attack_def apply_defense_def switch_frame)

lemma ApplyScenarioState_forget:
  assumes "\<not> g_runRejected h"
  shows "ApplyScenarioState ids c k h = bindR (scenario_of k h) (\<lambda>sc.
    Inr (forget_defense (apply_defense (sc_defenseEnabled sc) (apply_attack ids c (sc_attackEnabled sc) h))))"
proof -
  have "\<not> g_runRejected (apply_defense d (apply_attack ids c a h))" for a d
    using apply_control assms by (metis control_def prod.inject)
  then show ?thesis
    unfolding ApplyScenarioState_def if_not_P [OF assms] Let_def apply_attack_def [symmetric] apply_defense_def [symmetric]
    by (simp add: ForceDefenseColdStart_forget)
qed

text \<open>
  C18: A transition between slots erases the history of the defense. In a run that goes on, the state
  after \<open>ApplyScenarioState\<close> is the same as if every defense object had accumulated nothing before, and
  afterwards no node suspects anybody.
\<close>

theorem cold_start_erases_history:
  assumes "\<not> g_runRejected h" and "ApplyScenarioState ids c k h = Inr h'"
  shows "ApplyScenarioState ids c k (forget_defense h) = Inr h' \<and>
    (\<forall>sn\<in>set (g_nodes h'). \<forall>nd d. GetOlsrProtocol sn = Some nd \<longrightarrow> nd_defense nd = Some (Gcop_defense d) \<longrightarrow>
       Gcop_DebugStateSizes d = 0 \<and> Gcop_GetBlacklist d = [])"
proof -
  have nr: "\<not> g_runRejected (forget_defense h)" using assms(1) by simp
  have sc: "scenario_of k (forget_defense h) = scenario_of k h" by (simp add: scenario_of_def)
  obtain a d where h': "h' = forget_defense (apply_defense d (apply_attack ids c a h))"
    using assms(2) unfolding ApplyScenarioState_forget [OF assms(1)] by (auto simp: bindR_eq_Inr)
  have "ApplyScenarioState ids c k (forget_defense h) = ApplyScenarioState ids c k h"
    unfolding ApplyScenarioState_forget [OF assms(1)] ApplyScenarioState_forget [OF nr] sc
    using forget_apply by (metis (no_types, opaque_lifting))
  moreover have "Gcop_DebugStateSizes g = 0 \<and> Gcop_GetBlacklist g = []"
    if node: "sn \<in> set (g_nodes h')" "GetOlsrProtocol sn = Some nd" "nd_defense nd = Some (Gcop_defense g)" for sn nd g
  proof -
    obtain nd0 where "nd = on_defense (on_gcop wipe) nd0" using node(1,2) by (auto simp: h' forget_defense_def)
    then obtain df where "on_gcop wipe df = Gcop_defense g" using node(3) by (auto simp: on_defense_def)
    then obtain g0 where "g = wipe g0" by (cases df) auto
    then show ?thesis by (simp add: wipe_def Gcop_DebugStateSizes_def Gcop_GetBlacklist_def)
  qed
  ultimately show ?thesis using assms(2) by auto
qed


theorem cold_start_erases_history_witness:
  "GetBlacklist example_node = [2] \<and>
   (\<exists>h'. ApplyScenarioState [0] 3 2 (example_setup\<lparr>g_nodes := [Some [Olsr_child example_node]]\<rparr>) = Inr h' \<and>
      ApplyScenarioState [0] 3 2 (forget_defense (example_setup\<lparr>g_nodes := [Some [Olsr_child example_node]]\<rparr>)) = Inr h')"
proof -
  let ?h = "example_setup\<lparr>g_nodes := [Some [Olsr_child example_node]]\<rparr>"
  have "case ApplyScenarioState [0] 3 2 ?h of Inl _ \<Rightarrow> False | Inr _ \<Rightarrow> True" by code_simp
  then obtain h' where h': "ApplyScenarioState [0] 3 2 ?h = Inr h'" by (auto split: sum.splits)
  moreover have "\<not> g_runRejected ?h" by (simp add: example_setup_def)
  moreover have "GetBlacklist example_node = [2]" by code_simp
  ultimately show ?thesis using cold_start_erases_history by blast
qed

section \<open>The acceptance gates\<close>

definition is_gate :: "harness_event \<Rightarrow> bool" where
  "is_gate e \<longleftrightarrow> e = Gate_connectivity \<or> e = Gate_route"

text \<open>The gates and transitions in the simulator's order, for the two time lines.\<close>

lemma event_order_gates:
  "filter (\<lambda>x. is_apply (snd x) \<or> is_gate (snd x)) (event_order 0) =
    [(0, Apply_scenario 0), (60, Gate_connectivity), (60, Gate_route), (100, Apply_scenario 1), (200, Apply_scenario 2),
     (300, Apply_scenario 3)]"
  "filter (\<lambda>x. is_apply (snd x) \<or> is_gate (snd x)) (event_order 60) =
    [(60, Gate_connectivity), (60, Gate_route), (60, Apply_scenario 0), (160, Apply_scenario 1), (260, Apply_scenario 2),
     (360, Apply_scenario 3)]"
proof -
  have sub: "filter (\<lambda>x. is_apply (snd x) \<or> is_gate (snd x)) (main_schedule g) =
      [(60, Gate_connectivity), (60, Gate_route)] @ map (\<lambda>k. (SlotTransitionTime g k, Apply_scenario k)) [0, 1, 2, 3]" for g
    by (simp add: main_schedule_def upt_slots is_gate_def time_defs)
  show "filter (\<lambda>x. is_apply (snd x) \<or> is_gate (snd x)) (event_order 0) =
    [(0, Apply_scenario 0), (60, Gate_connectivity), (60, Gate_route), (100, Apply_scenario 1), (200, Apply_scenario 2),
     (300, Apply_scenario 3)]"
    unfolding event_order_def filter_sort sub by (simp add: time_defs)
  show "filter (\<lambda>x. is_apply (snd x) \<or> is_gate (snd x)) (event_order 60) =
    [(60, Gate_connectivity), (60, Gate_route), (60, Apply_scenario 0), (160, Apply_scenario 1), (260, Apply_scenario 2),
     (360, Apply_scenario 3)]"
    unfolding event_order_def filter_sort sub by (simp add: time_defs)
qed

lemma before_gate:
  "X @ (t, ev) # Y = [(0, Apply_scenario 0), (60, Gate_connectivity), (60, Gate_route), (100, Apply_scenario 1),
     (200, Apply_scenario 2), (300, Apply_scenario 3)] \<Longrightarrow> is_gate ev \<Longrightarrow>
    t = 60 \<and> filter (\<lambda>x. is_apply (snd x)) X = [(0, Apply_scenario 0)]"
  "X @ (t, ev) # Y = [(60, Gate_connectivity), (60, Gate_route), (60, Apply_scenario 0), (160, Apply_scenario 1),
     (260, Apply_scenario 2), (360, Apply_scenario 3)] \<Longrightarrow> is_gate ev \<Longrightarrow>
    t = 60 \<and> filter (\<lambda>x. is_apply (snd x)) X = []"
  for t :: rat
  by (auto simp: append_eq_Cons_conv is_gate_def)

lemma gates_before:
  assumes "harness_run b rng cfg h0 tr" and "harness_events tr = xs @ (t, ev) # ys" and "is_gate ev"
  shows "t = 60 \<and> fold (apply_flags (g_scenarioOrder h0)) (map snd xs) (False, False) = (False, False)"
proof -
  let ?P = "\<lambda>x. is_apply (snd x) \<or> is_gate (snd x)"
  let ?xs = "filter ?P xs"
  note run = assms(1) [unfolded harness_run_def]
  have same: "filter (\<lambda>x. is_apply (snd x)) ?xs = filter (\<lambda>x. is_apply (snd x)) xs" by (induction xs) auto
  have fold: "fold (apply_flags (g_scenarioOrder h0)) (map snd xs) (False, False) =
      fold (apply_flags (g_scenarioOrder h0)) (map snd ?xs) (False, False)"
    unfolding fold_apply_filter [of _ xs] fold_apply_filter [of _ ?xs] same ..
  have split: "?xs @ (t, ev) # filter ?P ys = filter ?P (event_order (cf_initialStabilization cfg))"
    using run assms(2,3) by (metis (mono_tags, lifting) filter.simps(2) filter_append snd_conv)
  show ?thesis
  proof (cases b)
    case True
    then have "cf_initialStabilization cfg = 60" using run by (simp add: initialStabilization_def time_defs)
    from before_gate(2) [OF split [unfolded this event_order_gates] assms(3)]
    have "t = 60 \<and> filter (\<lambda>x. is_apply (snd x)) ?xs = []" .
    then show ?thesis unfolding fold fold_apply_filter [of _ ?xs] by simp
  next
    case False
    then have g: "cf_initialStabilization cfg = 0" and o: "g_scenarioOrder h0 = [0, 1, 2, 3]"
      using run by (auto simp: initialStabilization_def scenarioOrder_def upt_slots)
    from before_gate(1) [OF split [unfolded g event_order_gates] assms(3)]
    have "t = 60 \<and> filter (\<lambda>x. is_apply (snd x)) ?xs = [(0, Apply_scenario 0)]" .
    then show ?thesis unfolding fold fold_apply_filter [of _ ?xs] by (simp add: o apply_flags_def SCENARIOS_def)
  qed
qed

text \<open>
  C33: The acceptance gates judge a neutral network. In both time lines every acceptance gate runs at 60
  seconds, and at that moment no node is malicious or announces spoofed links and no defense object is
  enabled, whatever order of scenarios was drawn and whatever happened before: the accepted topologies do
  not depend on attack or defense.
\<close>

theorem gates_see_neutral_network:
  assumes "harness_run b rng cfg h0 tr" and "tr = pre @ (t, Harness ev) # post" and "is_gate ev"
    and "sim_run cfg pre h0 = Inr hp" and "\<not> g_runRejected hp"
    and "i < length (g_nodes hp)" and "GetOlsrProtocol (g_nodes hp ! i) = Some nd"
  shows "t = 60 \<and> \<not> nd_isMalicious nd \<and> nd_spoofedLinksCount nd = 0 \<and>
    (\<exists>d. nd_defense nd = Some (Gcop_defense d) \<and> \<not> gc_enabled d)"
proof -
  note run = assms(1) [unfolded harness_run_def]
  have st: "g_stopped h0 \<longleftrightarrow> g_runRejected h0" and off: "\<not> g_attackCurrentlyOn h0" "\<not> g_defenseCurrentlyOn h0"
    and start: "started h0" and ns: "no_setters pre" using run assms(2) by (auto simp: started_def no_setters_def)
  have "harness_events tr = harness_events pre @ (t, ev) # harness_events post" by (simp add: assms(2))
  from gates_before [OF assms(1) this assms(3)] have t: "t = 60"
    and f: "fold (apply_flags (g_scenarioOrder h0)) (map snd (harness_events pre)) (False, False) = (False, False)" by blast+
  from run_switches [OF assms(4) st assms(5) ns started_ok [OF start]] off f
  have "network_ok cfg hp" "\<not> g_attackCurrentlyOn hp" "\<not> g_defenseCurrentlyOn hp" by auto
  then have s: "settings nd = (False, 0, Some (1, False))" using assms(6,7) by (simp add: network_ok_def armed_def)
  then obtain df where "nd_defense nd = Some df" "defense_mode df = (1, False)" by (auto simp: settings_def)
  then have "\<exists>d. nd_defense nd = Some (Gcop_defense d) \<and> \<not> gc_enabled d" by (cases df) auto
  with s t show ?thesis by (simp add: settings_def)
qed

theorem gates_see_neutral_network_witness:
  "\<exists>hp nd. sim_run example_config (take 2 example_trace) example_setup = Inr hp \<and>
     example_trace ! 2 = (60, Harness Gate_route) \<and> GetOlsrProtocol (g_nodes hp ! 0) = Some nd \<and> \<not> nd_isMalicious nd"
proof -
  have "case sim_run example_config (take 2 example_trace) example_setup of Inl _ \<Rightarrow> False
      | Inr h \<Rightarrow> \<not> g_runRejected h \<and> (case g_nodes h of [] \<Rightarrow> False | sn # _ \<Rightarrow> GetOlsrProtocol sn \<noteq> None)"
    by code_simp
  then obtain hp nd where hp: "sim_run example_config (take 2 example_trace) example_setup = Inr hp" "\<not> g_runRejected hp"
    "0 < length (g_nodes hp)" "GetOlsrProtocol (g_nodes hp ! 0) = Some nd"
    by (auto split: sum.splits list.splits)
  have n: "example_trace ! 2 = (60, Harness Gate_route)" "2 < length example_trace" by code_simp+
  have "example_trace = take 2 example_trace @ (60, Harness Gate_route) # drop 3 example_trace"
    using id_take_nth_drop [OF n(2)] by (simp add: n(1))
  from gates_see_neutral_network [OF example_harness_run this _ hp(1-4)] hp n(1) show ?thesis by (auto simp: is_gate_def)
qed

end
