(* ===== verification/Eval_Oracle_Rows.thy ===== *)
theory Eval_Oracle_Rows
  imports Complex_Main Eval_Properties
begin

text \<open>
  What the oracle row of a window counts: the control messages that the network transmitted and the
  packets that the UDP servers received between the two brackets of the window.
\<close>

section \<open>Counters within a window\<close>

definition transmitted :: "(rat \<times> sim_event) list \<Rightarrow> tx_datagram list" where
  "transmitted tr = List.map_filter (\<lambda>(t, e). case e of Ip_tx d \<Rightarrow> Some d | _ \<Rightarrow> None) tr"

text \<open>The packets received by the first \<open>n\<close> servers.\<close>

definition receptions :: "nat \<Rightarrow> (rat \<times> sim_event) list \<Rightarrow> nat" where
  "receptions n tr = length (filter (\<lambda>(t, e). case e of Udp_received i \<Rightarrow> i < n | _ \<Rightarrow> False) tr)"

definition is_control :: "tx_datagram \<Rightarrow> bool" where
  "is_control d \<longleftrightarrow> tx_protocol d = Some 17 \<and> tx_port d = Some 698"

lemma trace_messages_bytes:
  "trace_messages r p c = Inr c' \<Longrightarrow> g_olsrControlBytesWithHello c' = g_olsrControlBytesWithHello c"
proof (induction r p c arbitrary: c' rule: trace_messages.induct)
  case (1 r p c)
  have keep: "g_olsrControlBytesWithHello (count_traced msg c) = g_olsrControlBytesWithHello c" for msg
    by (simp add: count_traced_def split: msg_body.split)
  have run: "(if r < 12 then Inr c
      else case p of
        [] \<Rightarrow> Inr c
      | firstByte # _ \<Rightarrow>
          if firstByte < 1 \<or> firstByte > 4 then Inr c
          else bindR (RemoveHeader Deserialize p) (\<lambda>(msg, _, p').
            let consumed = of_nat (length p - length p')
            in if consumed = 0 \<or> consumed > r then Inr c
               else trace_messages (r - consumed) p' (count_traced msg c))) = Inr c'"
    using 1(2) by (subst (asm) trace_messages.simps)
  show ?case
  proof (cases "c' = c")
    case False
    with run obtain t bs msg n p' where p: "p = t # bs" "\<not> r < 12" "\<not> (t < 1 \<or> t > 4)"
        "RemoveHeader Deserialize p = Inr (msg, n, p')"
      by (cases p; cases "RemoveHeader Deserialize p") (auto split: if_splits)
    let ?c = "of_nat (length p - length p') :: u32"
    have c: "\<not> (?c = 0 \<or> ?c > r)" using run False p by (auto simp: Let_def split: if_splits)
    then have "trace_messages (r - ?c) p' (count_traced msg c) = Inr c'" using run p by (simp add: Let_def)
    from 1(1) [OF p(2,1,3,4) refl refl refl c this] keep show ?thesis by simp
  qed simp
qed

lemma TraceOlsrPacket_bytes:
  assumes "TraceOlsrPacket d c = Inr c'"
  shows "g_olsrControlBytesWithHello c' = g_olsrControlBytesWithHello c + (if is_control d then ucast (tx_size d) else 0)"
  using assms trace_messages_bytes
  by (fastforce simp: TraceOlsrPacket_def is_control_def Let_def bindR_eq_Inr split: if_splits prod.splits)

lemma traced_bytes:
  "foldE TraceOlsrPacket ds c = Inr c' \<Longrightarrow>
    g_olsrControlBytesWithHello c' = g_olsrControlBytesWithHello c + (\<Sum>d\<leftarrow>filter is_control ds. ucast (tx_size d))"
proof (induction ds arbitrary: c)
  case (Cons d ds)
  then obtain c1 where "TraceOlsrPacket d c = Inr c1" "foldE TraceOlsrPacket ds c1 = Inr c'" by (auto simp: bindR_eq_Inr)
  with Cons.IH [OF this(2)] TraceOlsrPacket_bytes [OF this(1)] show ?case by simp
qed simp

lemma sum_increment:
  fixes xs :: "u64 list"
  shows "i < length xs \<Longrightarrow> foldl (+) s (xs[i := xs ! i + 1]) = foldl (+) s xs + 1"
proof (induction xs arbitrary: i s)
  case (Cons x xs)
  have shift: "foldl (+) (a + 1) xs = foldl (+) a xs + 1" for a
  proof (induction xs arbitrary: a)
    case (Cons x xs)
    have "a + 1 + x = a + x + 1" by simp
    then show ?case using Cons [of "a + x"] by (simp only: foldl_Cons)
  qed simp
  show ?case
  proof (cases i)
    case 0
    then show ?thesis using shift [of "s + x"] by (simp add: add.assoc [symmetric])
  next
    case (Suc j)
    then show ?thesis using Cons.IH [of j "s + x"] Cons.prems by simp
  qed
qed simp

lemma run_counts:
  assumes "sim_run cfg w h = Inr h'" and "g_stopped h \<longleftrightarrow> g_runRejected h" and "\<not> g_runRejected h'"
    and "filter (\<lambda>x. is_bracket (snd x)) (harness_events w) = []"
  shows "foldE TraceOlsrPacket (transmitted w) (g_counters h) = Inr (g_counters h') \<and>
    length (g_udpServers h') = length (g_udpServers h) \<and> g_udpReceivedAtWindowStart h' = g_udpReceivedAtWindowStart h \<and>
    foldl (+) 0 (g_udpServers h') = foldl (+) 0 (g_udpServers h) + of_nat (receptions (length (g_udpServers h)) w)"
  using assms
proof (induction w arbitrary: h)
  case Nil
  then show ?case by (simp add: sim_run_def transmitted_def receptions_def List.map_filter_def)
next
  case (Cons x w)
  obtain t e where x: "x = (t, e)" by (cases x)
  from sim_run_Cons [OF Cons.prems(1-3)] obtain h1 where
    s: "sim_step cfg t e h = Inr h1" "sim_run cfg w h1 = Inr h'" "\<not> g_runRejected h1" "\<not> g_stopped h1" by (auto simp: x)
  have "filter (\<lambda>x. is_bracket (snd x)) (harness_events w) = []"
    using Cons.prems(4) by (cases e) (simp_all add: x split: if_splits)
  then have IH: "foldE TraceOlsrPacket (transmitted w) (g_counters h1) = Inr (g_counters h') \<and>
      length (g_udpServers h') = length (g_udpServers h1) \<and> g_udpReceivedAtWindowStart h' = g_udpReceivedAtWindowStart h1 \<and>
      foldl (+) 0 (g_udpServers h') = foldl (+) 0 (g_udpServers h1) + of_nat (receptions (length (g_udpServers h1)) w)"
    using Cons.IH [OF s(2) _ Cons.prems(3)] s(3,4) by simp
  have "foldE TraceOlsrPacket (transmitted [x]) (g_counters h) = Inr (g_counters h1) \<and>
      length (g_udpServers h1) = length (g_udpServers h) \<and> g_udpReceivedAtWindowStart h1 = g_udpReceivedAtWindowStart h \<and>
      foldl (+) 0 (g_udpServers h1) = foldl (+) 0 (g_udpServers h) + of_nat (receptions (length (g_udpServers h)) [x])"
  proof (cases e)
    case (Harness ev)
    then have "\<not> is_bracket ev" using Cons.prems(4) by (auto simp: x)
    then show ?thesis
      using handle_recording(2) s(1) by (simp add: x Harness counting_def transmitted_def receptions_def List.map_filter_def)
  next
    case (Node_input i inp)
    then show ?thesis
      using node_input_frame s(1) by (simp add: x counting_def transmitted_def receptions_def List.map_filter_def)
  next
    case (Sniffed f)
    then show ?thesis
      using sniff_frame s(1) by (simp add: x counting_def transmitted_def receptions_def List.map_filter_def)
  qed (use s(1) in \<open>auto simp: x transmitted_def receptions_def List.map_filter_def sum_increment bindR_eq_Inr
        TraceOlsrPacketCallback_def MacTxOracleOnlyCallback_def MacTxDropCallback_def split: if_splits\<close>)
  moreover have "transmitted (x # w) = transmitted [x] @ transmitted w" "receptions n (x # w) = receptions n [x] + receptions n w" for n
    by (simp_all add: transmitted_def receptions_def List.map_filter_def)
  ultimately show ?case using IH by (simp add: foldE_append)
qed

text \<open>No event changes the number of servers.\<close>

lemma run_servers:
  assumes "sim_run cfg tr h = Inr h'"
  shows "length (g_udpServers h') = length (g_udpServers h)"
proof (rule foldE_invariant [where P = "\<lambda>x. length (g_udpServers x) = length (g_udpServers h)", OF assms [unfolded sim_run_def]])
  fix x s s' assume "length (g_udpServers s) = length (g_udpServers h)" and step: "sim_event_step cfg x s = Inr s'"
  moreover have "length (g_udpServers s') = length (g_udpServers s)" if e: "sim_step cfg t e s = Inr s'" for t e
  proof (cases e)
    case (Harness ev)
    show ?thesis
    proof (cases "is_bracket ev")
      case True
      then show ?thesis using e Harness
        by (cases ev) (auto simp: StartSlot_def StartMeasurementWindow_def SnapshotUdpReceived_def EndSlot_def
          EndMeasurementWindow_def bindR_eq_Inr split: prod.splits)
    next
      case False
      then show ?thesis using handle_recording(2) e Harness by (simp add: counting_def)
    qed
  qed (use e node_input_frame [of t _ _ s s'] sniff_frame [of t _ s s'] in \<open>auto simp: counting_def bindR_eq_Inr
        TraceOlsrPacketCallback_def MacTxOracleOnlyCallback_def MacTxDropCallback_def split: if_splits\<close>)
  ultimately show "length (g_udpServers s') = length (g_udpServers h)"
    by (cases x) (auto simp: sim_event_step_def split: if_splits)
qed simp

section \<open>The row\<close>

lemma sum_foldl: "foldl (+) 0 xs = (\<Sum>x\<leftarrow>xs. x)" for xs :: "u64 list"
  by (simp add: foldl_conv_fold fold_plus_sum_list_rev add.commute)

lemma unat_small: "n < 2 ^ 64 \<Longrightarrow> unat (of_nat n :: u64) = n"
  by (simp add: unsigned_of_nat take_bit_nat_eq_self)

text \<open>The loss column of a window in which \<open>n\<close> packets arrived.\<close>

lemma udp_loss:
  assumes "n < 2 ^ 64"
  shows "udpLossPercent (flow_traffic d m c (of_nat n)) = 100 * (18 - of_nat (min n 18)) / 18"
proof (cases "18 \<le> n")
  case True
  then have "(18 :: u64) \<le> of_nat n" using assms by (simp add: word_le_nat_alt unat_small)
  then show ?thesis using True
    by (simp add: flow_traffic_def Let_def rat_of_def UDP_EXPECTED_PER_WINDOW_def UDP_PACKETS_PER_WINDOW_def NUM_DATA_FLOWS_def)
next
  case False
  have n: "unat (of_nat n :: u64) = n" using assms by (simp add: unat_small)
  then have l: "\<not> (18 :: u64) \<le> of_nat n" using False by (simp add: word_le_nat_alt)
  then have u: "unat ((18 :: u64) - of_nat n) = 18 - n" using n by (simp add: unat_sub)
  have r: "rat_of ((18 :: u64) - of_nat n) = 18 - of_nat n" using False by (simp only: rat_of_def u)
  have "rat_of (18 :: u64) = 18" by (simp add: rat_of_def)
  then show ?thesis using l r False
    by (simp add: flow_traffic_def Let_def UDP_EXPECTED_PER_WINDOW_def UDP_PACKETS_PER_WINDOW_def NUM_DATA_FLOWS_def)
qed

text \<open>
  C36: The oracle row counts its window and nothing else. In a run that is not rejected, the oracle row of
  slot \<open>k\<close> carries the window of the label row; its control bytes are the total size of the OLSR
  datagrams that any node transmitted between the two brackets and its HELLO count is that of the messages
  in them; the packets it reports are those that the UDP servers received between the brackets, whatever
  they had received before; and its loss is the share of the 18 expected packets that is missing.
\<close>

theorem oracle_row_recorded:
  assumes "harness_run b rng cfg h0 tr" and "sim_run cfg tr h0 = Inr h" and "\<not> g_runRejected h" and "k < 4"
    and "tr = before @ (ts, Harness (Start_slot k)) # w @ (te, Harness (End_slot k)) # after"
    and "row = g_oracleRows h ! k" and "n = receptions (length (g_udpServers h0)) w" and "n < 2 ^ 64"
  shows "\<exists>c. foldE TraceOlsrPacket (transmitted w) ResetOlsrCounters = Inr c \<and> length (g_oracleRows h) = 4 \<and>
    or_scenario row = lr_scenario (g_labelRows h ! k) \<and> or_start row = lr_start (g_labelRows h ! k) \<and>
    or_end row = lr_end (g_labelRows h ! k) \<and> or_helloCount row = g_helloCount c \<and>
    or_controlBytes row = (\<Sum>d\<leftarrow>filter is_control (transmitted w). ucast (tx_size d)) \<and>
    unat (udpReceivedInWindow (or_traffic row)) = n \<and>
    udpLossPercent (or_traffic row) = 100 * (18 - of_nat (min n 18)) / 18"
proof (rule window_run [OF assms(1-5)])
  fix h1 h2 h3
  assume before: "sim_run cfg before h0 = Inr h1"
    and w: "h2 = StartMeasurementWindow ts h1" "\<not> g_runRejected h1" "sim_run cfg w h2 = Inr h3" "\<not> g_runRejected h2"
      "\<not> g_stopped h2" "\<not> g_runRejected h3" "filter (\<lambda>x. is_bracket (snd x)) (harness_events w) = []"
      "length (g_oracleRows h) = 4" "g_oracleRows h ! k = oracle_row_of (sc_name (SCENARIOS ! (g_scenarioOrder h0 ! k))) ts te h3"
  have h2: "g_counters h2 = ResetOlsrCounters" "g_udpServers h2 = g_udpServers h1"
    "g_udpReceivedAtWindowStart h2 = foldl (+) 0 (g_udpServers h1)"
    using w(1,2) by (simp_all add: StartMeasurementWindow_def SnapshotUdpReceived_def)
  have n: "length (g_udpServers h1) = length (g_udpServers h0)" by (rule run_servers [OF before])
  note c = run_counts [OF w(3) _ w(6,7), unfolded h2 n assms(7) [symmetric]]
  then have c: "foldE TraceOlsrPacket (transmitted w) ResetOlsrCounters = Inr (g_counters h3)"
    "foldl (+) 0 (g_udpServers h3) - g_udpReceivedAtWindowStart h3 = of_nat n"
    using w(4,5) by simp_all
  have "g_olsrControlBytesWithHello (g_counters h3) = (\<Sum>d\<leftarrow>filter is_control (transmitted w). ucast (tx_size d))"
    using traced_bytes [OF c(1)] by (simp add: ResetOlsrCounters_def)
  moreover have "unat (of_nat n :: u64) = n" using assms(8) by (simp add: unat_small)
  moreover have "harness_events tr = event_order (cf_initialStabilization cfg)" using assms(1) by (simp add: harness_run_def)
  then have "ts = SlotWindowStart (cf_initialStabilization cfg) k" "te = SlotWindowEnd (cf_initialStabilization cfg) k"
    using window_brackets(1,2) [OF _ assms(4)] unfolding assms(5) by blast+
  ultimately show ?thesis
    using c w(8) run_label_rows(2) [OF assms(1-4)] udp_loss [OF assms(8)] unfolding assms(6) w(9)
    by (intro exI [of _ "g_counters h3"])
      (simp add: oracle_row_of_def Let_def row_labels_def slot_labels_def flow_traffic_def)
qed

theorem oracle_row_recorded_witness:
  "\<exists>h. sim_run example_config example_trace example_setup = Inr h \<and>
     unat (udpReceivedInWindow (or_traffic (g_oracleRows h ! 1))) = 1 \<and>
     udpLossPercent (or_traffic (g_oracleRows h ! 1)) = 1700 / 18 \<and> or_controlBytes (g_oracleRows h ! 1) = 60"
proof -
  obtain h where h: "sim_run example_config example_trace example_setup = Inr h" "\<not> g_runRejected h"
    using example_runs(1) by blast
  have r: "1 = receptions (length (g_udpServers example_setup)) example_window" and
    t: "transmitted example_window = [example_datagram]" by code_simp+
  have d: "is_control example_datagram" "tx_size example_datagram = 60" by (simp_all add: is_control_def example_datagram_def)
  let ?row = "g_oracleRows h ! 1"
  have "(1 :: nat) < 4" "(1 :: nat) < 2 ^ 64" by simp_all
  from oracle_row_recorded [OF example_harness_run h this(1) example_trace_window refl r this(2)]
  have "or_controlBytes ?row = (\<Sum>d\<leftarrow>filter is_control (transmitted example_window). ucast (tx_size d))"
    "unat (udpReceivedInWindow (or_traffic ?row)) = 1"
    "udpLossPercent (or_traffic ?row) = 100 * (18 - of_nat (min 1 18)) / 18" by blast+
  then show ?thesis using h(1) unfolding t by (simp add: d)
qed

end
